(* ===== verification/V7_Prelude.thy ===== *)
theory V7_Prelude
  imports Main "HOL-Library.Word" "HOL-Library.Monad_Syntax"
begin

unbundle bit_operations_syntax

text \<open>
  The vocabulary the components share: C integers of a fixed width as \<open>int\<close> with the
  conversion written out (\<open>s8\<close>, \<open>u16\<close>, \<open>s16\<close>, \<open>u32\<close>, \<open>s32\<close>), memory
  blocks as byte functions with the little-endian loads and stores of the host, the byte swap
  that turns them into the big-endian layout of a System 8000 disk, doubly linked rings of
  pointers, and the rules that take a \<open>do\<close> block of the option monad apart.
\<close>

named_theorems mem_simps \<open>loads after stores, at the same and at other offsets\<close>
named_theorems wrap_simps \<open>conversions to a C integer type that change nothing\<close>


section \<open>C integer types\<close>

definition u8 :: "int \<Rightarrow> int" where
  "u8 x = x mod 2 ^ 8"

definition s8 :: "int \<Rightarrow> int" where
  "s8 x = (x + 2 ^ 7) mod 2 ^ 8 - 2 ^ 7"

definition u16 :: "int \<Rightarrow> int" where
  "u16 x = x mod 2 ^ 16"

definition s16 :: "int \<Rightarrow> int" where
  "s16 x = (x + 2 ^ 15) mod 2 ^ 16 - 2 ^ 15"

definition u32 :: "int \<Rightarrow> int" where
  "u32 x = x mod 2 ^ 32"

definition s32 :: "int \<Rightarrow> int" where
  "s32 x = (x + 2 ^ 31) mod 2 ^ 32 - 2 ^ 31"

lemma u8_id [wrap_simps]: "0 \<le> x \<Longrightarrow> x < 256 \<Longrightarrow> u8 x = x"
  by (simp add: u8_def)

lemma s8_id [wrap_simps]: "-128 \<le> x \<Longrightarrow> x < 128 \<Longrightarrow> s8 x = x"
  by (simp add: s8_def)

lemma u16_id [wrap_simps]: "0 \<le> x \<Longrightarrow> x < 65536 \<Longrightarrow> u16 x = x"
  by (simp add: u16_def)

lemma s16_id [wrap_simps]: "-32768 \<le> x \<Longrightarrow> x < 32768 \<Longrightarrow> s16 x = x"
  by (simp add: s16_def)

lemma u32_id [wrap_simps]: "0 \<le> x \<Longrightarrow> x < 4294967296 \<Longrightarrow> u32 x = x"
  by (simp add: u32_def)

lemma s32_id [wrap_simps]: "-2147483648 \<le> x \<Longrightarrow> x < 2147483648 \<Longrightarrow> s32 x = x"
  by (simp add: s32_def)

lemma s16_bounds: "-32768 \<le> s16 x" "s16 x < 32768"
  by (simp_all add: s16_def)

lemma s32_bounds: "-2147483648 \<le> s32 x" "s32 x < 2147483648"
  by (simp_all add: s32_def)

lemma u16_bounds: "0 \<le> u16 x" "u16 x < 65536"
  by (simp_all add: u16_def)

lemma s16_s16 [simp]: "s16 (s16 x) = s16 x"
  using s16_bounds [of x] by (simp add: s16_id)

lemma s32_s32 [simp]: "s32 (s32 x) = s32 x"
  using s32_bounds [of x] by (simp add: s32_id)

lemma u16_u16 [simp]: "u16 (u16 x) = u16 x"
  by (simp add: u16_def)

lemma s16_u16 [simp]: "s16 (u16 x) = s16 x"
  by (simp add: u16_def s16_def mod_simps)

lemma s32_cong_mod: "x mod 2 ^ 32 = y mod 2 ^ 32 \<Longrightarrow> s32 x = s32 y"
  unfolding s32_def by (metis mod_add_left_eq)

lemma s16_cong_mod: "x mod 2 ^ 16 = y mod 2 ^ 16 \<Longrightarrow> s16 x = s16 y"
  unfolding s16_def by (metis mod_add_left_eq)

lemma s16_mod: "s16 x mod 2 ^ 16 = x mod 2 ^ 16"
  by (metis s16_def add_diff_cancel_right' mod_diff_left_eq)

lemma s32_mod: "s32 x mod 2 ^ 32 = x mod 2 ^ 32"
  by (metis s32_def add_diff_cancel_right' mod_diff_left_eq)

lemma u16_s16 [simp]: "u16 (s16 x) = u16 x"
  by (metis s16_mod u16_def)



section \<open>Blocks of memory\<close>

type_synonym byte = "8 word"
type_synonym block = "nat \<Rightarrow> byte"

definition zeroblk :: block where
  "zeroblk = (\<lambda>_. 0)"

text \<open>Loads and stores of the little-endian host (\<open>v7adapt.h\<close> refuses any other).\<close>

definition ld8 :: "block \<Rightarrow> nat \<Rightarrow> int" where
  "ld8 d a = s8 (uint (d a))"

definition st8 :: "nat \<Rightarrow> int \<Rightarrow> block \<Rightarrow> block" where
  "st8 a v d = d(a := word_of_int v)"

definition ld16 :: "block \<Rightarrow> nat \<Rightarrow> int" where
  "ld16 d a = s16 (uint (d a) + 256 * uint (d (a + 1)))"

definition st16 :: "nat \<Rightarrow> int \<Rightarrow> block \<Rightarrow> block" where
  "st16 a v d = d(a := word_of_int v, a + 1 := word_of_int (v div 256))"

definition ld32 :: "block \<Rightarrow> nat \<Rightarrow> int" where
  "ld32 d a = s32 (uint (d a) + 256 * uint (d (a + 1)) + 65536 * uint (d (a + 2))
                   + 16777216 * uint (d (a + 3)))"

definition st32 :: "nat \<Rightarrow> int \<Rightarrow> block \<Rightarrow> block" where
  "st32 a v d = d(a := word_of_int v, a + 1 := word_of_int (v div 256),
                  a + 2 := word_of_int (v div 65536), a + 3 := word_of_int (v div 16777216))"

text \<open>\<open>memcpy\<close> of \<open>n\<close> bytes from \<open>src + b\<close> to \<open>dst + a\<close>.\<close>

definition copy_bytes :: "nat \<Rightarrow> nat \<Rightarrow> block \<Rightarrow> nat \<Rightarrow> block \<Rightarrow> block" where
  "copy_bytes n a dst b src = (\<lambda>i. if a \<le> i \<and> i < a + n then src (b + (i - a)) else dst i)"

lemma copy_bytes_in [mem_simps]: "a \<le> i \<Longrightarrow> i < a + n \<Longrightarrow> copy_bytes n a dst b src i = src (b + (i - a))"
  by (simp add: copy_bytes_def)

lemma copy_bytes_out [mem_simps]: "i < a \<or> a + n \<le> i \<Longrightarrow> copy_bytes n a dst b src i = dst i"
  by (auto simp: copy_bytes_def)

lemma uint_byte_mod: "uint (word_of_int v :: byte) = v mod 256"
  by (simp add: uint_word_of_int)

lemma split_two: "(v::int) mod 256 + 256 * (v div 256 mod 256) = v mod 65536"
  using mod_mult2_eq' [of v 256 256] by simp

lemma split_four:
  "(v::int) mod 256 + 256 * (v div 256 mod 256) + 65536 * (v div 65536 mod 256)
     + 16777216 * (v div 16777216 mod 256) = v mod 4294967296"
proof -
  have 1: "v mod 65536 = v mod 256 + 256 * (v div 256 mod 256)" by (rule split_two [symmetric])
  have 2: "v div 65536 mod 65536 = v div 65536 mod 256 + 256 * (v div 16777216 mod 256)"
    using split_two [of "v div 65536"] by (simp add: zdiv_zmult2_eq [symmetric])
  have 3: "v mod 4294967296 = v mod 65536 + 65536 * (v div 65536 mod 65536)"
    using mod_mult2_eq' [of v 65536 65536] by simp
  show ?thesis unfolding 3 1 2 by simp
qed

lemma bytes_of_16:
  assumes "v mod 65536 = b0 + 256 * b1" "0 \<le> b0" "b0 < 256" "0 \<le> b1" "b1 < 256"
  shows "v mod 256 = b0" and "(v::int) div 256 mod 256 = b1"
proof -
  have "v mod 256 = (v mod 65536) mod 256" by (simp add: mod_mod_cancel)
  then show b0: "v mod 256 = b0" using assms by simp
  show "v div 256 mod 256 = b1" using split_two [of v] assms b0 by linarith
qed

lemma bytes_of_32:
  assumes "v mod 4294967296 = b0 + 256 * b1 + 65536 * b2 + 16777216 * b3"
    "0 \<le> b0" "b0 < 256" "0 \<le> b1" "b1 < 256" "0 \<le> b2" "b2 < 256" "0 \<le> b3" "b3 < 256"
  shows "v mod 256 = b0" and "(v::int) div 256 mod 256 = b1"
    and "v div 65536 mod 256 = b2" and "v div 16777216 mod 256 = b3"
proof -
  have lo: "v mod 65536 = b0 + 256 * b1"
  proof -
    have "v mod 65536 = (v mod 4294967296) mod 65536" by (simp add: mod_mod_cancel)
    also have "\<dots> = (b0 + 256 * b1 + 65536 * (b2 + 256 * b3)) mod 65536"
      using assms(1) by (simp add: algebra_simps)
    also have "\<dots> = (b0 + 256 * b1) mod 65536" by (rule mod_mult_self2)
    also have "\<dots> = b0 + 256 * b1" using assms by simp
    finally show ?thesis .
  qed
  have hi: "v div 65536 mod 65536 = b2 + 256 * b3"
    using mod_mult2_eq' [of v 65536 65536] assms(1) lo by simp
  show "v mod 256 = b0" "v div 256 mod 256 = b1"
    by (rule bytes_of_16 [OF lo assms(2-5)])+
  have "v div 16777216 = v div 65536 div 256" by (simp add: zdiv_zmult2_eq [symmetric])
  with bytes_of_16 [OF hi assms(6-9)]
  show "v div 65536 mod 256 = b2" "v div 16777216 mod 256 = b3" by (simp_all only:)
qed


section \<open>Byte order\<close>

text \<open>
  \<open>wswap_int16\<close> and \<open>wswap_int32\<close> of \<open>v7adapt.h\<close>: the bytes of the argument in
  reverse order, read again as a signed value.
\<close>

definition wswap_int16 :: "int \<Rightarrow> int" where
  "wswap_int16 v = s16 (256 * (v mod 256) + v div 256 mod 256)"

definition wswap_int32 :: "int \<Rightarrow> int" where
  "wswap_int32 v = s32 (16777216 * (v mod 256) + 65536 * (v div 256 mod 256)
                        + 256 * (v div 65536 mod 256) + v div 16777216 mod 256)"

lemma byte_range: "0 \<le> uint (w :: byte)" "uint (w :: byte) < 256"
  using uint_lt2p [of w] by simp_all

lemma wswap_int16_of:
  assumes "v mod 65536 = b0 + 256 * b1" "0 \<le> b0" "b0 < 256" "0 \<le> b1" "b1 < 256"
  shows "wswap_int16 v = s16 (256 * b0 + b1)"
  using bytes_of_16 [OF assms] by (simp add: wswap_int16_def)

lemma wswap_int32_of:
  assumes "v mod 4294967296 = b0 + 256 * b1 + 65536 * b2 + 16777216 * b3"
    "0 \<le> b0" "b0 < 256" "0 \<le> b1" "b1 < 256" "0 \<le> b2" "b2 < 256" "0 \<le> b3" "b3 < 256"
  shows "wswap_int32 v = s32 (16777216 * b0 + 65536 * b1 + 256 * b2 + b3)"
  using bytes_of_32 [OF assms] by (simp add: wswap_int32_def)

text \<open>A swapped load is a big-endian load.\<close>

lemma wswap_ld16: "wswap_int16 (ld16 d a) = s16 (256 * uint (d a) + uint (d (a + 1)))"
proof -
  have "ld16 d a mod 65536 = uint (d a) + 256 * uint (d (a + 1))"
    using s16_mod [of "uint (d a) + 256 * uint (d (a + 1))"] byte_range [of "d a"]
      byte_range [of "d (a + 1)"] by (simp add: ld16_def)
  then show ?thesis using byte_range by (intro wswap_int16_of) auto
qed

lemma wswap_ld32:
  "wswap_int32 (ld32 d a) = s32 (16777216 * uint (d a) + 65536 * uint (d (a + 1))
     + 256 * uint (d (a + 2)) + uint (d (a + 3)))"
proof -
  have "ld32 d a mod 4294967296 = uint (d a) + 256 * uint (d (a + 1)) + 65536 * uint (d (a + 2))
      + 16777216 * uint (d (a + 3))"
    using s32_mod [of "uint (d a) + 256 * uint (d (a + 1)) + 65536 * uint (d (a + 2))
      + 16777216 * uint (d (a + 3))"] byte_range [of "d a"] byte_range [of "d (a + 1)"]
      byte_range [of "d (a + 2)"] byte_range [of "d (a + 3)"] by (simp add: ld32_def)
  then show ?thesis using byte_range by (intro wswap_int32_of) auto
qed

lemma wswap_wswap16 [simp]: "wswap_int16 (wswap_int16 v) = s16 v"
proof -
  have "wswap_int16 v mod 65536 = v div 256 mod 256 + 256 * (v mod 256)"
    using s16_mod [of "256 * (v mod 256) + v div 256 mod 256"] unfolding wswap_int16_def by simp
  then have "wswap_int16 (wswap_int16 v) = s16 (256 * (v div 256 mod 256) + v mod 256)"
    by (rule wswap_int16_of) auto
  also have "\<dots> = s16 v"
    by (rule s16_cong_mod) (use split_two [of v] in simp)
  finally show ?thesis .
qed

lemma s32_bytes_mod:
  assumes "0 \<le> b0" "b0 < 256" "0 \<le> b1" "b1 < 256" "0 \<le> b2" "b2 < 256" "0 \<le> b3" "b3 < (256::int)"
  shows "s32 (16777216 * b0 + 65536 * b1 + 256 * b2 + b3) mod 4294967296
    = b3 + 256 * b2 + 65536 * b1 + 16777216 * b0"
  using s32_mod [of "16777216 * b0 + 65536 * b1 + 256 * b2 + b3"] assms by simp

lemma wswap_wswap32 [simp]: "wswap_int32 (wswap_int32 v) = s32 v"
proof -
  have "wswap_int32 v mod 4294967296 = v div 16777216 mod 256 + 256 * (v div 65536 mod 256)
      + 65536 * (v div 256 mod 256) + 16777216 * (v mod 256)"
    unfolding wswap_int32_def by (rule s32_bytes_mod) simp_all
  then have "wswap_int32 (wswap_int32 v) = s32 (16777216 * (v div 16777216 mod 256)
      + 65536 * (v div 65536 mod 256) + 256 * (v div 256 mod 256) + v mod 256)"
    by (rule wswap_int32_of) auto
  also have "16777216 * (v div 16777216 mod 256) + 65536 * (v div 65536 mod 256)
      + 256 * (v div 256 mod 256) + v mod 256 = v mod 4294967296"
    using split_four [of v] by (simp only: ac_simps)
  also have "s32 (v mod 4294967296) = s32 v" by (rule s32_cong_mod) simp
  finally show ?thesis .
qed

lemma wswap_zero [simp]: "wswap_int16 0 = 0" "wswap_int32 0 = 0"
  by (simp_all add: wswap_int16_def wswap_int32_def s16_id s32_id)

lemma wswap_int16_s16 [simp]: "wswap_int16 (s16 v) = wswap_int16 v"
  by (metis s16_s16 wswap_int16_def wswap_wswap16)

lemma wswap_int32_s32 [simp]: "wswap_int32 (s32 v) = wswap_int32 v"
  by (metis s32_s32 wswap_int32_def wswap_wswap32)

lemma s16_wswap [simp]: "s16 (wswap_int16 v) = wswap_int16 v"
  by (simp add: wswap_int16_def)

lemma s32_wswap [simp]: "s32 (wswap_int32 v) = wswap_int32 v"
  by (simp add: wswap_int32_def)

lemma wswap_int16_eq_0: "wswap_int16 v = 0 \<longleftrightarrow> s16 v = 0"
  by (metis wswap_wswap16 wswap_zero(1) wswap_int16_s16)

lemma wswap_int32_eq_0: "wswap_int32 v = 0 \<longleftrightarrow> s32 v = 0"
  by (metis wswap_wswap32 wswap_zero(2) wswap_int32_s32)

lemma ld16_st16 [mem_simps]: "ld16 (st16 a v d) a = s16 v"
  by (simp add: ld16_def st16_def uint_byte_mod split_two) (rule s16_cong_mod, simp)

lemma ld32_st32 [mem_simps]: "ld32 (st32 a v d) a = s32 v"
  by (simp add: ld32_def st32_def uint_byte_mod split_four) (rule s32_cong_mod, simp)

lemma ld8_st8 [mem_simps]: "ld8 (st8 a v d) a = s8 v"
  by (simp add: ld8_def st8_def uint_byte_mod s8_def mod_add_left_eq)

lemma ld16_st16_other [mem_simps]: "a + 1 < b \<or> b + 1 < a \<Longrightarrow> ld16 (st16 b v d) a = ld16 d a"
  by (auto simp: ld16_def st16_def)

lemma ld16_st32_other [mem_simps]: "a + 1 < b \<or> b + 3 < a \<Longrightarrow> ld16 (st32 b v d) a = ld16 d a"
  by (auto simp: ld16_def st32_def)

lemma ld16_st8_other [mem_simps]: "a + 1 < b \<or> b < a \<Longrightarrow> ld16 (st8 b v d) a = ld16 d a"
  by (auto simp: ld16_def st8_def)

lemma ld32_st16_other [mem_simps]: "a + 3 < b \<or> b + 1 < a \<Longrightarrow> ld32 (st16 b v d) a = ld32 d a"
  by (auto simp: ld32_def st16_def)

lemma ld32_st32_other [mem_simps]: "a + 3 < b \<or> b + 3 < a \<Longrightarrow> ld32 (st32 b v d) a = ld32 d a"
  by (auto simp: ld32_def st32_def)

lemma ld32_st8_other [mem_simps]: "a + 3 < b \<or> b < a \<Longrightarrow> ld32 (st8 b v d) a = ld32 d a"
  by (auto simp: ld32_def st8_def)

lemma ld8_st16_other [mem_simps]: "a < b \<or> b + 1 < a \<Longrightarrow> ld8 (st16 b v d) a = ld8 d a"
  by (auto simp: ld8_def st16_def)

lemma ld8_st32_other [mem_simps]: "a < b \<or> b + 3 < a \<Longrightarrow> ld8 (st32 b v d) a = ld8 d a"
  by (auto simp: ld8_def st32_def)

lemma ld8_st8_other [mem_simps]: "a \<noteq> b \<Longrightarrow> ld8 (st8 b v d) a = ld8 d a"
  by (auto simp: ld8_def st8_def)

lemma ld16_copy_in [mem_simps]:
  "a \<le> i \<Longrightarrow> i + 2 \<le> a + n \<Longrightarrow> ld16 (copy_bytes n a dst b src) i = ld16 src (b + (i - a))"
  by (simp add: ld16_def copy_bytes_def Suc_diff_le)

lemma ld16_copy_out [mem_simps]:
  "i + 2 \<le> a \<or> a + n \<le> i \<Longrightarrow> ld16 (copy_bytes n a dst b src) i = ld16 dst i"
  by (auto simp: ld16_def copy_bytes_def)

lemma ld32_copy_in [mem_simps]:
  "a \<le> i \<Longrightarrow> i + 4 \<le> a + n \<Longrightarrow> ld32 (copy_bytes n a dst b src) i = ld32 src (b + (i - a))"
  by (simp add: ld32_def copy_bytes_def Suc_diff_le numeral_eq_Suc)

lemma ld32_copy_out [mem_simps]:
  "i + 4 \<le> a \<or> a + n \<le> i \<Longrightarrow> ld32 (copy_bytes n a dst b src) i = ld32 dst i"
  by (auto simp: ld32_def copy_bytes_def)

lemma ld8_copy_in [mem_simps]: "a \<le> i \<Longrightarrow> i < a + n \<Longrightarrow> ld8 (copy_bytes n a dst b src) i = ld8 src (b + (i - a))"
  by (simp add: ld8_def copy_bytes_def)

lemma ld8_copy_out [mem_simps]:
  "i + 1 \<le> a \<or> a + n \<le> i \<Longrightarrow> ld8 (copy_bytes n a dst b src) i = ld8 dst i"
  by (auto simp: ld8_def copy_bytes_def)

lemma ld_zeroblk [simp]: "ld8 zeroblk a = 0" "ld16 zeroblk a = 0" "ld32 zeroblk a = 0"
  by (simp_all add: ld8_def ld16_def ld32_def zeroblk_def s8_id s16_id s32_id)


section \<open>Rings of pointers\<close>

text \<open>
  \<open>bio.c\<close> keeps its buffers on doubly linked circular lists with a header. \<open>ring n b h xs\<close>
  says that following \<open>n\<close> from the header \<open>h\<close> visits \<open>xs\<close> and returns to \<open>h\<close>,
  and that \<open>b\<close> undoes each of these steps.
\<close>

fun path :: "('p \<Rightarrow> 'p) \<Rightarrow> ('p \<Rightarrow> 'p) \<Rightarrow> 'p \<Rightarrow> 'p list \<Rightarrow> 'p \<Rightarrow> bool" where
  "path n b p [] q \<longleftrightarrow> n p = q \<and> b q = p"
| "path n b p (x # xs) q \<longleftrightarrow> n p = x \<and> b x = p \<and> path n b x xs q"

definition ring :: "('p \<Rightarrow> 'p) \<Rightarrow> ('p \<Rightarrow> 'p) \<Rightarrow> 'p \<Rightarrow> 'p list \<Rightarrow> bool" where
  "ring n b h xs \<longleftrightarrow> path n b h xs h \<and> distinct (h # xs)"

lemma path_append: "path n b p (xs @ x # ys) q \<longleftrightarrow> path n b p xs x \<and> path n b x ys q"
  by (induction xs arbitrary: p) auto

lemma path_last: "path n b p xs q \<Longrightarrow> b q = last (p # xs)"
  by (induction xs arbitrary: p) auto

lemma path_cong:
  "(\<And>x. x \<in> set (p # xs) \<Longrightarrow> n' x = n x) \<Longrightarrow> (\<And>x. x \<in> set (xs @ [q]) \<Longrightarrow> b' x = b x) \<Longrightarrow>
   path n' b' p xs q = path n b p xs q"
  by (induction xs arbitrary: p) auto

lemma ring_distinct: "ring n b h xs \<Longrightarrow> distinct xs \<and> h \<notin> set xs"
  by (simp add: ring_def)

lemma ring_hd: "ring n b h xs \<Longrightarrow> n h = (case xs of [] \<Rightarrow> h | x # _ \<Rightarrow> x)"
  by (cases xs) (auto simp: ring_def)

lemma ring_last: "ring n b h xs \<Longrightarrow> b h = (if xs = [] then h else last xs)"
proof (cases xs rule: rev_cases)
  case (snoc ys y)
  assume "ring n b h xs"
  with snoc show ?thesis by (simp add: ring_def path_append)
qed (simp add: ring_def)

lemma ring_empty_iff: "ring n b h xs \<Longrightarrow> n h = h \<longleftrightarrow> xs = []"
  by (cases xs) (auto simp: ring_def)

lemma ring_unique: "ring n b h xs \<Longrightarrow> ring n b h ys \<Longrightarrow> xs = ys"
proof -
  have "path n b p xs q \<Longrightarrow> path n b p ys q \<Longrightarrow> q \<notin> set xs \<Longrightarrow> q \<notin> set ys \<Longrightarrow> xs = ys" for p q
  proof (induction xs arbitrary: p ys)
    case Nil
    then show ?case by (cases ys) auto
  next
    case (Cons x xs)
    then show ?case by (cases ys) auto
  qed
  then show "ring n b h xs \<Longrightarrow> ring n b h ys \<Longrightarrow> xs = ys" unfolding ring_def by auto
qed

text \<open>Membership is closed under the two links.\<close>

lemma path_links:
  "path n b p xs q \<Longrightarrow> x \<in> set xs \<Longrightarrow> n x \<in> set (xs @ [q]) \<and> b x \<in> set (p # xs)"
  by (induction xs arbitrary: p) (auto, (case_tac xs; auto)+)

lemma ring_links:
  "ring n b h xs \<Longrightarrow> x \<in> set (h # xs) \<Longrightarrow> n x \<in> set (h # xs) \<and> b x \<in> set (h # xs)"
  using path_links [of n b h xs h x] ring_hd [of n b h xs] ring_last [of n b h xs]
  by (auto simp: ring_def split: list.splits if_splits)

lemma ring_neq: "ring n b h xs \<Longrightarrow> x \<in> set xs \<Longrightarrow> n x \<noteq> x \<and> b x \<noteq> x"
proof -
  assume r: "ring n b h xs" and "x \<in> set xs"
  then obtain ys zs where xs: "xs = ys @ x # zs" by (auto simp: in_set_conv_decomp)
  then have p: "path n b h ys x" "path n b x zs h" and d: "distinct (h # ys @ x # zs)"
    using r by (simp_all add: ring_def path_append)
  have "b x \<in> set (h # ys)" using path_last [OF p(1)] last_in_set [of "h # ys"] by simp
  moreover have "n x \<in> set (zs @ [h])" using p(2) by (cases zs) auto
  ultimately show ?thesis using d by auto
qed

lemma ring_cong:
  "(\<And>x. x \<in> set (h # xs) \<Longrightarrow> n' x = n x \<and> b' x = b x) \<Longrightarrow> ring n' b' h xs = ring n b h xs"
  unfolding ring_def using path_cong [of h xs n' n h b' b] by auto

text \<open>Unlinking an element (\<open>notavail\<close>), and linking one in after the header or before it.\<close>

lemma ring_unlink:
  assumes r: "ring n b h xs" and x: "x \<in> set xs"
  shows "ring (n(b x := n x)) (b(n x := b x)) h (remove1 x xs)"
proof -
  obtain ys zs where xs: "xs = ys @ x # zs" using x by (auto simp: in_set_conv_decomp)
  have d: "distinct (h # ys @ x # zs)" using r xs by (simp add: ring_def)
  then have rm: "remove1 x xs = ys @ zs" by (simp add: xs remove1_append)
  have p: "path n b h ys x" "path n b x zs h" using r by (simp_all add: ring_def xs path_append)
  let ?n = "n(b x := n x)" and ?b = "b(n x := b x)"
  have "path ?n ?b h (ys @ zs) h"
  proof (cases zs)
    case Nil
    then have nx: "n x = h" "b h = x" using p by simp_all
    show ?thesis
    proof (cases ys rule: rev_cases)
      case Nil
      then show ?thesis using p nx \<open>zs = []\<close> by simp
    next
      case (snoc ys' y)
      then have bx: "b x = y" "path n b h ys' y" using p by (simp_all add: path_append)
      have "path ?n ?b h ys' y = path n b h ys' y"
        by (rule path_cong) (use d snoc nx bx in auto)
      then show ?thesis using bx nx snoc \<open>zs = []\<close> by (simp add: path_append)
    qed
  next
    case (Cons z zs')
    then have nx: "n x = z" "b z = x" "path n b z zs' h" using p by simp_all
    have "b x \<in> set (h # ys)" using path_last [OF p(1)] last_in_set [of "h # ys"] by simp
    then have zs: "path ?n ?b z zs' h = path n b z zs' h"
      by (intro path_cong) (use d Cons nx in auto)
    show ?thesis
    proof (cases ys rule: rev_cases)
      case Nil
      then show ?thesis using p nx zs Cons by simp
    next
      case (snoc ys' y)
      then have bx: "b x = y" "path n b h ys' y" using p by (simp_all add: path_append)
      have "path ?n ?b h ys' y = path n b h ys' y"
        by (rule path_cong) (use d snoc nx bx Cons in auto)
      then show ?thesis using bx nx zs snoc Cons by (simp add: path_append)
    qed
  qed
  then show ?thesis using d by (auto simp: ring_def rm)
qed

lemma ring_link_front:
  assumes r: "ring n b h xs" and x: "x \<notin> set (h # xs)"
  shows "ring (n(x := n h, h := x)) (b(n h := x, x := h)) h (x # xs)"
proof -
  let ?n = "n(x := n h, h := x)" and ?b = "b(n h := x, x := h)"
  have d: "distinct (h # xs)" using r by (simp add: ring_def)
  have "path ?n ?b x xs h"
  proof (cases xs)
    case Nil
    then show ?thesis using r x by (simp add: ring_def)
  next
    case (Cons y ys)
    then have nh: "n h = y" "path n b y ys h" using r by (simp_all add: ring_def)
    have "path ?n ?b y ys h = path n b y ys h"
      by (rule path_cong) (use d x Cons nh in auto)
    then show ?thesis using nh x d Cons by auto
  qed
  then show ?thesis using x d by (auto simp: ring_def)
qed

lemma ring_link_back:
  assumes r: "ring n b h xs" and x: "x \<notin> set (h # xs)"
  shows "ring (n(b h := x, x := h)) (b(x := b h, h := x)) h (xs @ [x])"
proof -
  let ?n = "n(b h := x, x := h)" and ?b = "b(x := b h, h := x)"
  have d: "distinct (h # xs)" using r by (simp add: ring_def)
  have "path ?n ?b h xs x"
  proof (cases xs rule: rev_cases)
    case Nil
    then show ?thesis using r x by (auto simp: ring_def)
  next
    case (snoc ys y)
    then have bh: "b h = y" "path n b h ys y" using r by (simp_all add: ring_def path_append)
    have "path ?n ?b h ys y = path n b h ys y"
      by (rule path_cong) (use d x snoc bh in auto)
    then show ?thesis using bh x d snoc by (auto simp: path_append)
  qed
  then show ?thesis using x d by (auto simp: ring_def path_append)
qed


text \<open>Two rings over the same links: moving an element to the front of the other one, or of its own.\<close>

lemma ring_unlink_other:
  assumes r: "ring n b h xs" and x: "x \<in> set xs" and o: "ring n b h' ys"
    and d: "set (h # xs) \<inter> set (h' # ys) = {}"
  shows "ring (n(b x := n x)) (b(n x := b x)) h' ys"
proof -
  have "n x \<in> set (h # xs)" "b x \<in> set (h # xs)" using ring_links [OF r, of x] x by simp_all
  then have "n x \<notin> set (h' # ys)" "b x \<notin> set (h' # ys)" using d by blast+
  then have "ring (n(b x := n x)) (b(n x := b x)) h' ys = ring n b h' ys" by (intro ring_cong) auto
  with o show ?thesis by simp
qed

lemma ring_link_front_other:
  assumes r: "ring n b h xs" and o: "ring n b h' ys" and x: "x \<notin> set (h' # ys)"
    and d: "set (h # xs) \<inter> set (h' # ys) = {}"
  shows "ring (n(x := n h, h := x)) (b(n h := x, x := h)) h' ys"
proof -
  have "n h \<in> set (h # xs)" using ring_links [OF r, of h] by simp
  then have "n h \<notin> set (h' # ys)" "h \<notin> set (h' # ys)" using d by auto
  then have "ring (n(x := n h, h := x)) (b(n h := x, x := h)) h' ys = ring n b h' ys"
    using x by (intro ring_cong) auto
  with o show ?thesis by simp
qed


section \<open>Statements in sequence\<close>

text \<open>
  A C function that may fail to return (a panic, or a loop that never ends) is a function
  into \<open>option\<close>; the statements of its body are bound in a \<open>do\<close> block that passes
  the state on. \<open>for_each\<close> is a C \<open>for\<close> loop with no \<open>break\<close>.
\<close>

fun for_each :: "('i \<Rightarrow> 's \<Rightarrow> 's option) \<Rightarrow> 'i list \<Rightarrow> 's \<Rightarrow> 's option" where
  "for_each f [] s = Some s"
| "for_each f (i # is) s = Option.bind (f i s) (for_each f is)"

lemmas do_Some = Option.bind_eq_Some_conv

lemma for_each_append:
  "for_each f (xs @ ys) s = Option.bind (for_each f xs s) (for_each f ys)"
  by (induction xs arbitrary: s) (auto split: bind_split)

lemma for_each_inv:
  assumes "for_each f is s = Some s'" "P s"
    and "\<And>i s s'. i \<in> set is \<Longrightarrow> P s \<Longrightarrow> f i s = Some s' \<Longrightarrow> P s'"
  shows "P s'"
  using assms
proof (induction "is" arbitrary: s)
  case (Cons i "is")
  from Cons.prems(1) obtain t where t: "f i s = Some t" "for_each f is t = Some s'"
    by (auto simp: do_Some)
  have "P t" by (rule Cons.prems(3) [OF _ Cons.prems(2) t(1)]) simp
  then show ?case by (rule Cons.IH [OF t(2)]) (rule Cons.prems(3), auto)
qed simp

lemma for_each_total:
  assumes "P s" and "\<And>i s. i \<in> set is \<Longrightarrow> P s \<Longrightarrow> \<exists>s'. f i s = Some s' \<and> P s'"
  shows "\<exists>s'. for_each f is s = Some s' \<and> P s'"
  using assms
proof (induction "is" arbitrary: s)
  case (Cons i "is")
  from Cons.prems obtain t where "f i s = Some t" "P t" by (meson list.set_intros(1))
  then show ?case using Cons.IH [of t] Cons.prems(2) by simp
qed simp

end
