(* ===== verification/Clib.thy ===== *)
theory Clib
  imports V7_Prelude
begin

text \<open>
  The functions of the C library that the sources call on strings: \<open>strtoul\<close>,
  \<open>strtoll\<close>, the conversions of \<open>sscanf\<close>, \<open>strrchr\<close>, \<open>dirname\<close> and \<open>basename\<close>, on strings as lists of characters
  without their terminating NUL.
\<close>

section \<open>Numbers\<close>

definition is_space :: "char \<Rightarrow> bool" where
  "is_space c \<longleftrightarrow> c = CHR '' '' \<or> c \<in> {CHR 0x09, CHR 0x0A, CHR 0x0B, CHR 0x0C, CHR 0x0D}"

definition digit_val :: "char \<Rightarrow> int" where
  "digit_val c =
     (let k = int (of_char c) in
      if 48 \<le> k \<and> k \<le> 57 then k - 48
      else if 97 \<le> k \<and> k \<le> 122 then k - 87
      else if 65 \<le> k \<and> k \<le> 90 then k - 55 else 36)"

text \<open>The digits at the head of a string, their value and what follows them.\<close>

fun digits_from :: "int \<Rightarrow> int \<Rightarrow> string \<Rightarrow> int \<times> string" where
  "digits_from base acc [] = (acc, [])"
| "digits_from base acc (c # cs) =
     (if digit_val c < base then digits_from base (acc * base + digit_val c) cs
      else (acc, c # cs))"

text \<open>
  \<open>strtoul (s, \&end, base)\<close> for the bases 0, 8 and 10 on a 64-bit host: white space, a
  sign, a prefix where the base is 0, then digits. A value that does not fit is
  \<open>ULONG_MAX\<close>; with no digit the result is 0 and \<open>end\<close> is \<open>s\<close>.
\<close>

definition ULONG_MAX :: int where
  "ULONG_MAX = 2 ^ 64 - 1"

definition strtoul :: "string \<Rightarrow> int \<Rightarrow> int \<times> string" where
  "strtoul s base =
     (let t = dropWhile is_space s;
          neg = (t \<noteq> [] \<and> hd t = CHR ''-'');
          t = (if t \<noteq> [] \<and> (hd t = CHR ''-'' \<or> hd t = CHR ''+'') then tl t else t);
          hex = (base = 0 \<and> length t \<ge> 3 \<and> hd t = CHR ''0'' \<and> t ! 1 \<in> {CHR ''x'', CHR ''X''}
                 \<and> digit_val (t ! 2) < 16);
          b = (if base \<noteq> 0 then base else if hex then 16
               else if t \<noteq> [] \<and> hd t = CHR ''0'' then 8 else 10);
          t = (if hex then drop 2 t else t);
          r = digits_from b 0 t
      in if t = [] \<or> \<not> digit_val (hd t) < b then (0, s)
         else if fst r > ULONG_MAX then (ULONG_MAX, snd r)
         else (if neg then (- fst r) mod 2 ^ 64 else fst r, snd r))"


section \<open>Paths\<close>

text \<open>
  \<open>strtoll (s, NULL, 10)\<close>: the signed conversion, which stops at the limits of the type.
\<close>

definition strtoll :: "string \<Rightarrow> int" where
  "strtoll s =
     (let t = dropWhile is_space s;
          neg = (t \<noteq> [] \<and> hd t = CHR ''-'');
          t = (if t \<noteq> [] \<and> (hd t = CHR ''-'' \<or> hd t = CHR ''+'') then tl t else t);
          v = fst (digits_from 10 0 t);
          v = (if neg then - v else v)
      in max (- (2 ^ 63)) (min (2 ^ 63 - 1) v))"

text \<open>
  The conversions of \<open>sscanf\<close> that the sources use: \<open>%s\<close> with a width, \<open>%c\<close> after white
  space, \<open>%d\<close> and \<open>%o\<close>; each skips white space and gives the value and the rest of the
  input, or fails.
\<close>

definition scan_s :: "nat \<Rightarrow> string \<Rightarrow> (string \<times> string) option" where
  "scan_s w s =
     (let t = dropWhile is_space s; x = take w (takeWhile (\<lambda>c. \<not> is_space c) t)
      in if x = [] then None else Some (x, drop (length x) t))"

definition scan_c :: "string \<Rightarrow> (char \<times> string) option" where
  "scan_c s = (case dropWhile is_space s of [] \<Rightarrow> None | c # cs \<Rightarrow> Some (c, cs))"

definition scan_num :: "int \<Rightarrow> string \<Rightarrow> (int \<times> string) option" where
  "scan_num base s =
     (let t = dropWhile is_space s;
          neg = (t \<noteq> [] \<and> hd t = CHR ''-'');
          t = (if t \<noteq> [] \<and> (hd t = CHR ''-'' \<or> hd t = CHR ''+'') then tl t else t)
      in if t = [] \<or> digit_val (hd t) \<ge> base then None
         else let (v, r) = digits_from base 0 t in Some (s32 (if neg then - v else v), r))"

text \<open>\<open>strrchr (s, '/') + 1\<close>, or \<open>s\<close> where it has no slash.\<close>

definition after_last_slash :: "string \<Rightarrow> string" where
  "after_last_slash s = rev (takeWhile (\<lambda>c. c \<noteq> CHR ''/'') (rev s))"

definition strip_slashes :: "string \<Rightarrow> string" where
  "strip_slashes s = rev (dropWhile (\<lambda>c. c = CHR ''/'') (rev s))"

text \<open>
  \<open>dirname\<close> and \<open>basename\<close> (\<open>libgen.h\<close>): trailing slashes do not count, a path
  of slashes only is \<open>/\<close>, an empty path or one with no slash has the parent
  \<open>.\<close>.
\<close>

definition dirname :: "string \<Rightarrow> string" where
  "dirname s =
     (if s = [] then ''.''
      else if strip_slashes s = [] then ''/''
      else let h = rev (dropWhile (\<lambda>c. c \<noteq> CHR ''/'') (rev (strip_slashes s)))
           in if h = [] then ''.'' else if strip_slashes h = [] then ''/'' else strip_slashes h)"

definition basename :: "string \<Rightarrow> string" where
  "basename s =
     (if s = [] then ''.''
      else if strip_slashes s = [] then ''/''
      else after_last_slash (strip_slashes s))"

lemma after_last_slash_no_slash: "CHR ''/'' \<notin> set (after_last_slash s)"
  using set_takeWhileD [of "CHR ''/''" "\<lambda>c. c \<noteq> CHR ''/''" "rev s"]
  by (auto simp: after_last_slash_def)

lemma length_strip_slashes: "length (strip_slashes s) \<le> length s"
  using length_dropWhile_le [of "\<lambda>c. c = CHR ''/''" "rev s"] by (simp add: strip_slashes_def)

lemma length_drop_name:
  assumes "s \<noteq> []" "last s \<noteq> CHR ''/''"
  shows "length (dropWhile (\<lambda>c. c \<noteq> CHR ''/'') (rev s)) < length s"
proof (cases s rule: rev_cases)
  case (snoc xs x)
  with assms have "dropWhile (\<lambda>c. c \<noteq> CHR ''/'') (rev s) = dropWhile (\<lambda>c. c \<noteq> CHR ''/'') (rev xs)"
    by simp
  then show ?thesis
    using snoc length_dropWhile_le [of "\<lambda>c. c \<noteq> CHR ''/''" "rev xs"] by simp
qed (use assms in simp)

lemma last_strip_slashes: "strip_slashes s \<noteq> [] \<Longrightarrow> last (strip_slashes s) \<noteq> CHR ''/''"
  using hd_dropWhile [of "\<lambda>c. c = CHR ''/''" "rev s"] by (simp add: strip_slashes_def last_rev)

text \<open>
  Each step of a walk up a path shortens it until the path is \<open>/\<close> or \<open>.\<close>: the
  loops over \<open>dirname\<close> end.
\<close>

lemma dirname_shorter:
  assumes "dirname s \<noteq> ''/''" "dirname s \<noteq> ''.''"
  shows "length (dirname s) < length s"
proof -
  let ?t = "strip_slashes s"
  let ?h = "rev (dropWhile (\<lambda>c. c \<noteq> CHR ''/'') (rev ?t))"
  have ne: "s \<noteq> []" "?t \<noteq> []" and d: "dirname s = strip_slashes ?h"
    using assms by (auto simp: dirname_def Let_def split: if_splits)
  have "length ?h < length ?t" using length_drop_name [OF ne(2) last_strip_slashes [OF ne(2)]] by simp
  then show ?thesis
    using d length_strip_slashes [of ?h] length_strip_slashes [of s] by simp
qed

end
