(* ===== verification/Idmap.thy ===== *)
theory Idmap
  imports V7_Prelude
begin

text \<open>
  \<open>idmap.c\<close>: the table that relates user and group ids of the host to ids of the file
  system. The ids are unsigned 32-bit values. \<open>entries\<close> is the allocated array, \<open>None\<close> the
  null pointer; whether \<open>realloc\<close> finds memory is an argument. A lookup that reads through the null
  pointer, or an entry that was never written, has no result.
\<close>

record idmap_entry =
  hostid :: int
  fsid :: int

record idmap =
  entries :: "idmap_entry list option"
  entrycount :: nat
  maxfsid :: int
  defaulthostid :: int
  defaultfsid :: int

abbreviation "MAP_SIZE_INC \<equiv> 128 :: nat"

text \<open>
  The list holds the entries that were stored since the array was last lost. When a \<open>realloc\<close>
  fails, the pointer is gone but \<open>entrycount\<close> stays; the entries of a later array before that index are
  never initialized, so a list shorter than \<open>entrycount\<close> is a table whose first entry cannot be read.
\<close>

definition idmap_addidmap :: "bool \<Rightarrow> int \<Rightarrow> int \<Rightarrow> idmap \<Rightarrow> int \<times> idmap" where
  "idmap_addidmap mem host fs mp =
     (if fs > maxfsid mp then (- 22, mp)
      else if (entries mp = None \<or> entrycount mp mod MAP_SIZE_INC = 0) \<and> \<not> mem
      then (- 12, mp\<lparr>entries := None\<rparr>)
      else
        let es = (case entries mp of Some es \<Rightarrow> es | None \<Rightarrow> []) in
        (0, mp\<lparr>entries := Some (es @ [\<lparr>hostid = host, fsid = fs\<rparr>]),
                entrycount := entrycount mp + 1\<rparr>))"

definition idmap_tohostid :: "idmap \<Rightarrow> int \<Rightarrow> int option" where
  "idmap_tohostid mp fs =
     (if length (case entries mp of Some es \<Rightarrow> es | None \<Rightarrow> []) < entrycount mp then None
      else case find (\<lambda>e. fsid e = fs)
             (case entries mp of Some es \<Rightarrow> take (entrycount mp) es | None \<Rightarrow> []) of
        Some e \<Rightarrow> Some (hostid e)
      | None \<Rightarrow>
          if fs = defaultfsid mp then Some (defaulthostid mp)
          else if fs > maxfsid mp then Some (defaulthostid mp)
          else Some fs)"

definition idmap_tofsid :: "idmap \<Rightarrow> int \<Rightarrow> int option" where
  "idmap_tofsid mp host =
     (if length (case entries mp of Some es \<Rightarrow> es | None \<Rightarrow> []) < entrycount mp then None
      else case find (\<lambda>e. hostid e = host)
             (case entries mp of Some es \<Rightarrow> take (entrycount mp) es | None \<Rightarrow> []) of
        Some e \<Rightarrow> Some (fsid e)
      | None \<Rightarrow>
          if host = defaulthostid mp then Some (defaultfsid mp)
          else if host > maxfsid mp then Some (defaultfsid mp)
          else Some host)"


section \<open>The table works as a map\<close>

text \<open>Every entry the loops visit is initialized.\<close>

definition idmap_wf :: "idmap \<Rightarrow> bool" where
  "idmap_wf mp \<longleftrightarrow> (case entries mp of
       None \<Rightarrow> entrycount mp = 0
     | Some es \<Rightarrow> length es = entrycount mp \<and> (\<forall>e \<in> set es. fsid e \<le> maxfsid mp))
     \<and> defaultfsid mp \<le> maxfsid mp"

definition idmap_list :: "idmap \<Rightarrow> idmap_entry list" where
  "idmap_list mp = (case entries mp of None \<Rightarrow> [] | Some es \<Rightarrow> es)"

lemma idmap_add_wf:
  assumes "idmap_wf mp" "mem"
  shows "idmap_wf (snd (idmap_addidmap mem h f mp))"
  using assms by (auto simp: idmap_wf_def idmap_addidmap_def Let_def split: option.splits)

lemma idmap_add_list:
  assumes "idmap_addidmap mem h f mp = (0, mp')"
  shows "idmap_list mp' = idmap_list mp @ [\<lparr>hostid = h, fsid = f\<rparr>]" "f \<le> maxfsid mp"
    "maxfsid mp' = maxfsid mp" "defaulthostid mp' = defaulthostid mp"
    "defaultfsid mp' = defaultfsid mp"
  using assms by (auto simp: idmap_addidmap_def idmap_list_def Let_def split: option.splits if_splits)

text \<open>
  The two lookups are one search: for the first entry with a key, with a default for the keys
  no entry has.
\<close>

lemma find_append:
  "find P (xs @ ys) = (case find P xs of Some x \<Rightarrow> Some x | None \<Rightarrow> find P ys)"
  by (induction xs) auto

locale first_match =
  fixes tbl :: "'m \<Rightarrow> 'e list" and key val :: "'e \<Rightarrow> int"
    and look :: "'m \<Rightarrow> int \<Rightarrow> int option" and dflt :: "'m \<Rightarrow> int \<Rightarrow> int" and ok :: "'m \<Rightarrow> bool"
  assumes look_hit: "ok m \<Longrightarrow> find (\<lambda>e. key e = k) (tbl m) = Some e \<Longrightarrow> look m k = Some (val e)"
    and look_miss: "ok m \<Longrightarrow> find (\<lambda>e. key e = k) (tbl m) = None \<Longrightarrow> look m k = Some (dflt m k)"
begin

lemma look_total:
  assumes "ok m"
  shows "\<exists>v. look m k = Some v"
  using look_hit [OF assms] look_miss [OF assms] by (cases "find (\<lambda>e. key e = k) (tbl m)") auto

lemma look_snoc:
  assumes "ok m" "ok m'" "tbl m' = tbl m @ [e]" "dflt m' = dflt m"
  shows "look m' k = (if k \<notin> key ` set (tbl m) \<and> k = key e then Some (val e) else look m k)"
proof (cases "find (\<lambda>e. key e = k) (tbl m)")
  case None
  then have n: "k \<notin> key ` set (tbl m)" by (auto simp: find_None_iff)
  show ?thesis
  proof (cases "k = key e")
    case True
    then have "find (\<lambda>e. key e = k) (tbl m') = Some e"
      using None assms(3) by (simp add: find_append)
    then show ?thesis using look_hit [OF assms(2)] n True by simp
  next
    case False
    then have "find (\<lambda>e. key e = k) (tbl m') = None"
      using None assms(3) by (auto simp: find_None_iff)
    then show ?thesis using look_miss [OF assms(2)] look_miss [OF assms(1) None] n False assms(4) by simp
  qed
next
  case (Some x)
  then have x: "key x = k" "x \<in> set (tbl m)" by (auto simp: find_Some_iff)
  have "find (\<lambda>e. key e = k) (tbl m') = Some x" using Some assms(3) by (simp add: find_append)
  then show ?thesis using look_hit [OF assms(2)] look_hit [OF assms(1) Some] x by auto
qed

end

definition to_host_default :: "idmap \<Rightarrow> int \<Rightarrow> int" where
  "to_host_default mp fs =
     (if fs = defaultfsid mp \<or> fs > maxfsid mp then defaulthostid mp else fs)"

definition to_fs_default :: "idmap \<Rightarrow> int \<Rightarrow> int" where
  "to_fs_default mp h =
     (if h = defaulthostid mp \<or> h > maxfsid mp then defaultfsid mp else h)"

interpretation tohost: first_match idmap_list fsid hostid idmap_tohostid to_host_default idmap_wf
  by unfold_locales (auto simp: idmap_tohostid_def idmap_list_def to_host_default_def idmap_wf_def
      split: option.splits)

interpretation tofs: first_match idmap_list hostid fsid idmap_tofsid to_fs_default idmap_wf
  by unfold_locales (auto simp: idmap_tofsid_def idmap_list_def to_fs_default_def idmap_wf_def
      split: option.splits)

lemma idmap_defaults_add:
  assumes "idmap_addidmap mem h f mp = (0, mp')"
  shows "to_host_default mp' = to_host_default mp" "to_fs_default mp' = to_fs_default mp"
  using idmap_add_list [OF assms] by (simp_all add: to_host_default_def to_fs_default_def fun_eq_iff)

text \<open>An id never leaves the range of the file system.\<close>

lemma idmap_tofsid_bound:
  assumes "idmap_wf mp" "idmap_tofsid mp h = Some f"
  shows "f \<le> maxfsid mp"
  using assms by (auto simp: idmap_tofsid_def idmap_wf_def find_Some_iff split: option.splits if_splits)

text \<open>Without memory the map is lost: its entries are gone but still counted.\<close>

lemma idmap_add_no_memory:
  assumes "f \<le> maxfsid mp" "0 < entrycount mp" "entrycount mp mod MAP_SIZE_INC = 0"
  shows "\<exists>mp'. idmap_addidmap False h f mp = (- 12, mp') \<and> idmap_tofsid mp' k = None \<and> idmap_tohostid mp' k = None"
  using assms by (simp add: idmap_addidmap_def idmap_tofsid_def idmap_tohostid_def)

end
