(* ===== verification/V7_Types.thy ===== *)
theory V7_Types
  imports Clib Idmap
begin

text \<open>
  The data of the kernel: the constants of \<open>h/param.h\<close>, the structures of \<open>h/*.h\<close> as
  records, the layouts of the structures that live in disk blocks, and the globals of
  \<open>v7adapt.c\<close> as one record, with the host they run on. Pointers into the static tables
  are their indices, pointers to buffer headers a datatype; \<open>NULL\<close> is \<open>None\<close>. Sets of flag
  bits are sets of the flags' names.
\<close>

section \<open>Constants\<close>

abbreviation "NBUF \<equiv> 29 :: nat"
abbreviation "NINODE \<equiv> 200 :: nat"
abbreviation "NFILE \<equiv> 175 :: nat"
abbreviation "NMOUNT \<equiv> 8 :: nat"
abbreviation "NOFILE \<equiv> 20 :: nat"
abbreviation "BSIZE \<equiv> 512 :: nat"
abbreviation "NINDIR \<equiv> 128 :: nat"
abbreviation "NSHIFT \<equiv> 7 :: nat"
abbreviation "NODEV \<equiv> -1 :: int"
abbreviation "ROOTINO \<equiv> 2 :: int"
abbreviation "SUPERB \<equiv> 1 :: int"
abbreviation "DIRSIZ \<equiv> 14 :: nat"
abbreviation "NICINOD \<equiv> 100 :: int"
abbreviation "NICFREE \<equiv> 50 :: int"
abbreviation "NADDR \<equiv> 13 :: nat"
abbreviation "INOPB \<equiv> 8 :: nat"

abbreviation "EPERM \<equiv> 1 :: int"
abbreviation "ENOENT \<equiv> 2 :: int"
abbreviation "EIO \<equiv> 5 :: int"
abbreviation "ENXIO \<equiv> 6 :: int"
abbreviation "EBADF \<equiv> 9 :: int"
abbreviation "EACCES \<equiv> 13 :: int"
abbreviation "ENOTBLK \<equiv> 15 :: int"
abbreviation "EBUSY \<equiv> 16 :: int"
abbreviation "EEXIST \<equiv> 17 :: int"
abbreviation "EXDEV \<equiv> 18 :: int"
abbreviation "ENOTDIR \<equiv> 20 :: int"
abbreviation "EISDIR \<equiv> 21 :: int"
abbreviation "EINVAL \<equiv> 22 :: int"
abbreviation "ENFILE \<equiv> 23 :: int"
abbreviation "EMFILE \<equiv> 24 :: int"
abbreviation "ETXTBSY \<equiv> 26 :: int"
abbreviation "EFBIG \<equiv> 27 :: int"
abbreviation "ENOSPC \<equiv> 28 :: int"
abbreviation "ESPIPE \<equiv> 29 :: int"
abbreviation "EROFS \<equiv> 30 :: int"
abbreviation "ENOMEM \<equiv> 12 :: int"
abbreviation "ENOTEMPTY \<equiv> 39 :: int"

abbreviation "IFMT \<equiv> 0xF000 :: int"
abbreviation "IFDIR \<equiv> 0x4000 :: int"
abbreviation "IFCHR \<equiv> 0x2000 :: int"
abbreviation "IFBLK \<equiv> 0x6000 :: int"
abbreviation "IFREG \<equiv> 0x8000 :: int"
abbreviation "IFMPC \<equiv> 0x3000 :: int"
abbreviation "IFMPB \<equiv> 0x7000 :: int"
abbreviation "ISVTX \<equiv> 0x200 :: int"
abbreviation "IREAD \<equiv> 0x100 :: int"
abbreviation "IWRITE \<equiv> 0x80 :: int"
abbreviation "IEXEC \<equiv> 0x40 :: int"

text \<open>The unit conversions of \<open>param.h\<close>.\<close>

definition itod :: "int \<Rightarrow> int" where
  "itod x = (u16 x + 15) div 8"

definition itoo :: "int \<Rightarrow> nat" where
  "itoo x = nat ((x + 15) mod 8)"

definition major :: "int \<Rightarrow> int" where
  "major x = u16 x div 256"

definition minor :: "int \<Rightarrow> int" where
  "minor x = x AND 255"

definition makedev :: "int \<Rightarrow> int \<Rightarrow> int" where
  "makedev x y = s16 (push_bit 8 x OR y)"


section \<open>Structures\<close>

datatype bflag = B_READ | B_DONE | B_ERROR | B_BUSY | B_PHYS | B_MAP | B_WANTED
  | B_AGE | B_ASYNC | B_DELWRI | B_TAPE | B_PBUSY | B_PACK

text \<open>
  A buffer header is one of the pool \<open>buf[NBUF]\<close>, the head \<open>bfreelist\<close> of the
  available list or the device's list head \<open>v7_rootdsktab\<close>.
\<close>

datatype bufp = Buf nat | Bfreelist | Rootdsktab

record buf =
  b_flags :: "bflag set"
  b_forw :: bufp
  b_back :: bufp
  av_forw :: bufp
  av_back :: bufp
  b_dev :: int
  b_bcount :: int
  b_addr :: block
  b_blkno :: int
  b_error :: int
  b_resid :: int

datatype iflag = ILOCK | IUPD | IACC | IMOUNT | IWANT | ITEXT | ICHG

record inode =
  i_flag :: "iflag set"
  i_count :: int
  i_dev :: int
  i_number :: int
  i_mode :: int
  i_nlink :: int
  i_uid :: int
  i_gid :: int
  i_size :: int
  i_addr :: "nat \<Rightarrow> int"
  i_lastr :: int

text \<open>\<open>i_rdev\<close> shares the storage of \<open>i_addr[0]\<close>; its readers cast it to \<open>dev_t\<close>.\<close>

definition i_rdev :: "inode \<Rightarrow> int" where
  "i_rdev ip = s16 (i_addr ip 0)"

datatype fflag = FREAD | FWRITE | FPIPE | FMPX | FMPY | FKERNEL

record filestruct =
  f_flag :: "fflag set"
  f_count :: int
  f_inode :: nat
  f_offset :: int

record mount =
  m_dev :: int
  m_bufp :: "bufp option"
  m_inodp :: "nat option"

text \<open>
  \<open>u_base\<close> points into the caller's memory, at \<open>u.u_dent\<close>, or at the directory entry
  that \<open>v7fs_enumdir\<close> and \<open>v7fs_reparentdir\<close> keep on their stack.
\<close>

datatype ubase = Umem nat | Udent nat | Ulocal nat

record user =
  u_segflg :: int
  u_error :: int
  u_uid :: int
  u_gid :: int
  u_ruid :: int
  u_rgid :: int
  r_val1 :: int
  u_base :: ubase
  u_count :: int
  u_offset :: int
  u_cdir :: "nat option"
  u_rdir :: "nat option"
  u_dbuf :: block
  u_dirp :: "string option"
  u_dent :: block
  u_pdir :: "nat option"
  u_ofile :: "nat \<Rightarrow> nat option"
  u_pofile :: "nat \<Rightarrow> int"
  u_acflag :: bool
  u_cmask :: int


section \<open>Structures inside disk blocks\<close>

text \<open>
  \<open>struct filsys\<close> (packed): the raw fields, in the byte order of the disk. A field access
  \<open>wswap_int16(fp->s_nfree)\<close> of the code is \<open>wswap_int16 (s_nfree d)\<close> here.
\<close>

definition s_isize :: "block \<Rightarrow> int" where "s_isize d = ld16 d 0"
definition s_fsize :: "block \<Rightarrow> int" where "s_fsize d = ld32 d 2"
definition s_nfree :: "block \<Rightarrow> int" where "s_nfree d = ld16 d 6"
definition s_free :: "block \<Rightarrow> nat \<Rightarrow> int" where "s_free d i = ld32 d (8 + 4 * i)"
definition s_ninode :: "block \<Rightarrow> int" where "s_ninode d = ld16 d 208"
definition s_inode :: "block \<Rightarrow> nat \<Rightarrow> int" where "s_inode d i = ld16 d (210 + 2 * i)"
definition s_flock :: "block \<Rightarrow> int" where "s_flock d = ld8 d 410"
definition s_ilock :: "block \<Rightarrow> int" where "s_ilock d = ld8 d 411"
definition s_fmod :: "block \<Rightarrow> int" where "s_fmod d = ld8 d 412"
definition s_ronly :: "block \<Rightarrow> int" where "s_ronly d = ld8 d 413"
definition s_time :: "block \<Rightarrow> int" where "s_time d = ld32 d 414"
definition s_tfree :: "block \<Rightarrow> int" where "s_tfree d = ld32 d 418"
definition s_tinode :: "block \<Rightarrow> int" where "s_tinode d = ld16 d 422"
definition s_m :: "block \<Rightarrow> int" where "s_m d = ld16 d 424"
definition s_n :: "block \<Rightarrow> int" where "s_n d = ld16 d 426"

definition set_s_isize :: "int \<Rightarrow> block \<Rightarrow> block" where "set_s_isize = st16 0"
definition set_s_fsize :: "int \<Rightarrow> block \<Rightarrow> block" where "set_s_fsize = st32 2"
definition set_s_nfree :: "int \<Rightarrow> block \<Rightarrow> block" where "set_s_nfree = st16 6"
definition set_s_free :: "nat \<Rightarrow> int \<Rightarrow> block \<Rightarrow> block" where "set_s_free i = st32 (8 + 4 * i)"
definition set_s_ninode :: "int \<Rightarrow> block \<Rightarrow> block" where "set_s_ninode = st16 208"
definition set_s_inode :: "nat \<Rightarrow> int \<Rightarrow> block \<Rightarrow> block" where "set_s_inode i = st16 (210 + 2 * i)"
definition set_s_flock :: "int \<Rightarrow> block \<Rightarrow> block" where "set_s_flock = st8 410"
definition set_s_ilock :: "int \<Rightarrow> block \<Rightarrow> block" where "set_s_ilock = st8 411"
definition set_s_fmod :: "int \<Rightarrow> block \<Rightarrow> block" where "set_s_fmod = st8 412"
definition set_s_ronly :: "int \<Rightarrow> block \<Rightarrow> block" where "set_s_ronly = st8 413"
definition set_s_time :: "int \<Rightarrow> block \<Rightarrow> block" where "set_s_time = st32 414"
definition set_s_tfree :: "int \<Rightarrow> block \<Rightarrow> block" where "set_s_tfree = st32 418"
definition set_s_tinode :: "int \<Rightarrow> block \<Rightarrow> block" where "set_s_tinode = st16 422"
definition set_s_m :: "int \<Rightarrow> block \<Rightarrow> block" where "set_s_m = st16 424"
definition set_s_n :: "int \<Rightarrow> block \<Rightarrow> block" where "set_s_n = st16 426"

lemmas filsys_defs = s_isize_def s_fsize_def s_nfree_def s_free_def s_ninode_def s_inode_def
  s_flock_def s_ilock_def s_fmod_def s_ronly_def s_time_def s_tfree_def s_tinode_def s_m_def s_n_def
  set_s_isize_def set_s_fsize_def set_s_nfree_def set_s_free_def set_s_ninode_def set_s_inode_def
  set_s_flock_def set_s_ilock_def set_s_fmod_def set_s_ronly_def set_s_time_def set_s_tfree_def
  set_s_tinode_def set_s_m_def set_s_n_def

text \<open>\<open>struct fblk\<close> (packed).\<close>

definition df_nfree :: "block \<Rightarrow> int" where "df_nfree d = ld16 d 0"
definition df_free :: "block \<Rightarrow> nat \<Rightarrow> int" where "df_free d i = ld32 d (2 + 4 * i)"
definition set_df_nfree :: "int \<Rightarrow> block \<Rightarrow> block" where "set_df_nfree = st16 0"

lemmas fblk_defs = df_nfree_def df_free_def set_df_nfree_def

text \<open>\<open>struct dinode\<close>: 64 bytes, the field at offset \<open>o\<close> of the inode that starts at
  byte \<open>a\<close> of its block. \<open>di_addr\<close> holds thirteen three-byte addresses.\<close>

definition di_mode :: "block \<Rightarrow> nat \<Rightarrow> int" where "di_mode d a = u16 (ld16 d a)"
definition di_nlink :: "block \<Rightarrow> nat \<Rightarrow> int" where "di_nlink d a = ld16 d (a + 2)"
definition di_uid :: "block \<Rightarrow> nat \<Rightarrow> int" where "di_uid d a = ld16 d (a + 4)"
definition di_gid :: "block \<Rightarrow> nat \<Rightarrow> int" where "di_gid d a = ld16 d (a + 6)"
definition di_size :: "block \<Rightarrow> nat \<Rightarrow> int" where "di_size d a = ld32 d (a + 8)"
definition di_addr :: "block \<Rightarrow> nat \<Rightarrow> nat \<Rightarrow> byte" where "di_addr d a k = d (a + 12 + k)"
definition di_atime :: "block \<Rightarrow> nat \<Rightarrow> int" where "di_atime d a = ld32 d (a + 52)"
definition di_mtime :: "block \<Rightarrow> nat \<Rightarrow> int" where "di_mtime d a = ld32 d (a + 56)"
definition di_ctime :: "block \<Rightarrow> nat \<Rightarrow> int" where "di_ctime d a = ld32 d (a + 60)"

lemmas dinode_defs = di_mode_def di_nlink_def di_uid_def di_gid_def di_size_def di_addr_def
  di_atime_def di_mtime_def di_ctime_def

text \<open>\<open>struct direct\<close>: sixteen bytes, an inode number and \<open>DIRSIZ\<close> characters.\<close>

abbreviation "DIRECTSZ \<equiv> 16 :: nat"

definition d_ino :: "block \<Rightarrow> int" where "d_ino d = u16 (ld16 d 0)"
definition d_name :: "block \<Rightarrow> nat \<Rightarrow> byte" where "d_name d i = d (2 + i)"
definition set_d_ino :: "int \<Rightarrow> block \<Rightarrow> block" where "set_d_ino = st16 0"


section \<open>The kernel and its host\<close>

text \<open>
  What the code asks of the host. \<open>h_file\<close> and \<open>h_len\<close> are the bytes and the length of
  the open image file; \<open>h_fault n\<close> says whether the host fails its \<open>n\<close>-th call on the
  file, and how; \<open>h_now\<close> is what successive calls of \<open>time(NULL)\<close> return; \<open>h_epoch\<close>
  is the environment variable \<open>SOURCE_DATE_EPOCH\<close>; \<open>h_umem\<close> the memory of the caller,
  into which the kernel reads and from which it writes; \<open>h_local\<close> the directory entry on the
  stack of the functions that read directories; \<open>h_stderr\<close> the diagnostics, the
  latest first.
\<close>

datatype fault = Errno int | Short nat

record host =
  h_file :: block
  h_len :: nat
  h_fault :: "nat \<Rightarrow> fault option"
  h_op :: nat
  h_now :: "nat \<Rightarrow> int"
  h_tick :: nat
  h_epoch :: "string option"
  h_umem :: block
  h_local :: block
  h_stderr :: "string list"

text \<open>The statics of \<open>dskio.c\<close>.\<close>

record dskstate =
  dsk_fd :: int
  dsk_size :: int
  dsk_start :: int
  dsk_end :: int
  dsk_isblkdev :: bool

text \<open>The globals of \<open>v7adapt.c\<close> and, after \<open>dsk\<close>, the statics of \<open>v7fs.c\<close>.\<close>

record kernel =
  v7_u :: user
  v7_mount :: "nat \<Rightarrow> mount"
  v7_inode :: "nat \<Rightarrow> inode"
  v7_buf :: "bufp \<Rightarrow> buf"
  v7_file :: "nat \<Rightarrow> filestruct"
  v7_rootdev :: int
  v7_nblkdev :: int
  v7_nchrdev :: int
  v7_rootdir :: "nat option"
  v7_time :: int
  v7_updlock :: int
  v7_rablock :: int
  dsk :: dskstate
  v7fs_initialized :: bool
  v7fs_uidmap :: idmap
  v7fs_gidmap :: idmap
  host :: host

definition upd_u :: "(user \<Rightarrow> user) \<Rightarrow> kernel \<Rightarrow> kernel" where
  "upd_u f s = s\<lparr>v7_u := f (v7_u s)\<rparr>"

definition set_error :: "int \<Rightarrow> kernel \<Rightarrow> kernel" where
  "set_error e s = s\<lparr>v7_u := (v7_u s)\<lparr>u_error := e\<rparr>\<rparr>"

definition upd_buf :: "bufp \<Rightarrow> (buf \<Rightarrow> buf) \<Rightarrow> kernel \<Rightarrow> kernel" where
  "upd_buf p f s = s\<lparr>v7_buf := (v7_buf s)(p := f (v7_buf s p))\<rparr>"

definition upd_inode :: "nat \<Rightarrow> (inode \<Rightarrow> inode) \<Rightarrow> kernel \<Rightarrow> kernel" where
  "upd_inode i f s = s\<lparr>v7_inode := (v7_inode s)(i := f (v7_inode s i))\<rparr>"

definition upd_file :: "nat \<Rightarrow> (filestruct \<Rightarrow> filestruct) \<Rightarrow> kernel \<Rightarrow> kernel" where
  "upd_file i f s = s\<lparr>v7_file := (v7_file s)(i := f (v7_file s i))\<rparr>"

definition upd_data :: "bufp \<Rightarrow> (block \<Rightarrow> block) \<Rightarrow> kernel \<Rightarrow> kernel" where
  "upd_data p f = upd_buf p (\<lambda>b. b\<lparr>b_addr := f (b_addr b)\<rparr>)"

definition or_iflag :: "nat \<Rightarrow> iflag set \<Rightarrow> kernel \<Rightarrow> kernel" where
  "or_iflag i fs = upd_inode i (\<lambda>ip. ip\<lparr>i_flag := i_flag ip \<union> fs\<rparr>)"

definition clr_iflag :: "nat \<Rightarrow> iflag set \<Rightarrow> kernel \<Rightarrow> kernel" where
  "clr_iflag i fs = upd_inode i (\<lambda>ip. ip\<lparr>i_flag := i_flag ip - fs\<rparr>)"

abbreviation "bdata s p \<equiv> b_addr (v7_buf s p)"
abbreviation "bflags s p \<equiv> b_flags (v7_buf s p)"
abbreviation "uerror s \<equiv> u_error (v7_u s)"

text \<open>\<open>v7_prdev\<close> and \<open>v7_printf\<close> write a line to \<open>stderr\<close>.\<close>

definition v7_prdev :: "string \<Rightarrow> int \<Rightarrow> kernel \<Rightarrow> kernel" where
  "v7_prdev str dev s =
     s\<lparr>host := (host s)\<lparr>h_stderr := (''V7FS ERROR: '' @ str) # h_stderr (host s)\<rparr>\<rparr>"

definition v7_printf :: "string \<Rightarrow> kernel \<Rightarrow> kernel" where
  "v7_printf str s = s\<lparr>host := (host s)\<lparr>h_stderr := str # h_stderr (host s)\<rparr>\<rparr>"

text \<open>Memory as \<open>memset (..., 0, ...)\<close> leaves it: \<open>v7_zerocore\<close>.\<close>

definition zero_user :: user where
  "zero_user = \<lparr>u_segflg = 0, u_error = 0, u_uid = 0, u_gid = 0, u_ruid = 0, u_rgid = 0,
     r_val1 = 0, u_base = Umem 0, u_count = 0, u_offset = 0, u_cdir = None, u_rdir = None,
     u_dbuf = zeroblk, u_dirp = None, u_dent = zeroblk, u_pdir = None, u_ofile = (\<lambda>_. None),
     u_pofile = (\<lambda>_. 0), u_acflag = False, u_cmask = 0\<rparr>"

definition zero_inode :: inode where
  "zero_inode = \<lparr>i_flag = {}, i_count = 0, i_dev = 0, i_number = 0, i_mode = 0, i_nlink = 0,
     i_uid = 0, i_gid = 0, i_size = 0, i_addr = (\<lambda>_. 0), i_lastr = 0\<rparr>"

definition zero_file :: filestruct where
  "zero_file = \<lparr>f_flag = {}, f_count = 0, f_inode = 0, f_offset = 0\<rparr>"

definition zero_mount :: mount where
  "zero_mount = \<lparr>m_dev = 0, m_bufp = None, m_inodp = None\<rparr>"

text \<open>
  The headers of the pool and \<open>bfreelist\<close> are zeroed, not the device's list head (a static
  of \<open>v7adapt.c\<close>) and not the storage \<open>buffers\<close> of \<open>main.c\<close>. The links of a zeroed
  header are \<open>NULL\<close>; \<open>binit\<close> sets every one of them before it is followed, so the model
  leaves them as they are.
\<close>

definition zero_buf :: "buf \<Rightarrow> buf" where
  "zero_buf b = b\<lparr>b_flags := {}, b_dev := 0, b_bcount := 0, b_blkno := 0, b_error := 0, b_resid := 0\<rparr>"

definition v7_zerocore :: "kernel \<Rightarrow> kernel" where
  "v7_zerocore s = s\<lparr>v7_u := zero_user, v7_mount := (\<lambda>_. zero_mount),
     v7_inode := (\<lambda>_. zero_inode),
     v7_buf := (\<lambda>p. case p of Rootdsktab \<Rightarrow> v7_buf s p | _ \<Rightarrow> zero_buf (v7_buf s p)),
     v7_file := (\<lambda>_. zero_file), v7_time := 0, v7_rootdev := 0, v7_nblkdev := 0,
     v7_nchrdev := 0, v7_rootdir := None, v7_updlock := 0, v7_rablock := 0\<rparr>"

text \<open>\<open>v7_refreshclock\<close>: a fixed time from the environment, or the host's clock.\<close>

definition v7_refreshclock :: "kernel \<Rightarrow> kernel" where
  "v7_refreshclock s =
     (let fixed = (case h_epoch (host s) of None \<Rightarrow> None
           | Some e \<Rightarrow> (let (epoch, end) = strtoul e 10 in
               if e \<noteq> [] \<and> end \<noteq> e \<and> end = [] then Some (s32 epoch) else None))
      in case fixed of
        Some t \<Rightarrow> s\<lparr>v7_time := t\<rparr>
      | None \<Rightarrow> s\<lparr>v7_time := s32 (h_now (host s) (h_tick (host s))),
                  host := (host s)\<lparr>h_tick := h_tick (host s) + 1\<rparr>\<rparr>)"

end
