(* ===== verification/Dskio.thy ===== *)
theory Dskio
  imports V7_Types
begin

text \<open>
  \<open>dskio.c\<close>: the virtual disk, a window of blocks in an image file or a block device of the
  host. \<open>pread\<close>, \<open>pwrite\<close> and \<open>fsync\<close> are calls of the host; what they do to the
  open file is modelled, whether they fail is up to \<open>h_fault\<close>. The lemmas: a block written is
  read back, no other byte of the file changes, and nothing outside the window is touched.
\<close>

abbreviation "DSK_BLKSIZE \<equiv> 512 :: int"
abbreviation "LLONG_MAX \<equiv> 9223372036854775807 :: int"

section \<open>Calls on the host's file\<close>

definition host_count :: "int \<Rightarrow> nat \<Rightarrow> fault option \<Rightarrow> nat" where
  "host_count fd n f = (case f of Some (Short k) \<Rightarrow> min n k | _ \<Rightarrow> n)"

text \<open>The bytes transferred, or the error number.\<close>

definition host_pread :: "int \<Rightarrow> block \<Rightarrow> int \<Rightarrow> int \<Rightarrow> host \<Rightarrow> (int + int) \<times> block \<times> host" where
  "host_pread fd buf count off h =
     (let f = h_fault h (h_op h); h' = h\<lparr>h_op := h_op h + 1\<rparr> in
      if fd < 0 then (Inl EBADF, buf, h')
      else case f of
        Some (Errno e) \<Rightarrow> (Inl e, buf, h')
      | _ \<Rightarrow> (let n = host_count fd (min (nat count) (h_len h - nat off)) f
             in (Inr (int n), copy_bytes n 0 buf (nat off) (h_file h), h')))"

definition host_pwrite :: "int \<Rightarrow> block \<Rightarrow> int \<Rightarrow> int \<Rightarrow> host \<Rightarrow> (int + int) \<times> host" where
  "host_pwrite fd buf count off h =
     (let f = h_fault h (h_op h); h' = h\<lparr>h_op := h_op h + 1\<rparr> in
      if fd < 0 then (Inl EBADF, h')
      else case f of
        Some (Errno e) \<Rightarrow> (Inl e, h')
      | _ \<Rightarrow> (let n = host_count fd (nat count) f
             in (Inr (int n), h'\<lparr>h_file := copy_bytes n (nat off) (h_file h) 0 buf,
                                h_len := (if n = 0 then h_len h else max (h_len h) (nat off + n))\<rparr>)))"

definition host_fsync :: "int \<Rightarrow> host \<Rightarrow> int option \<times> host" where
  "host_fsync fd h =
     (let h' = h\<lparr>h_op := h_op h + 1\<rparr> in
      if fd < 0 then (Some EBADF, h')
      else (case h_fault h (h_op h) of Some (Errno e) \<Rightarrow> Some e | _ \<Rightarrow> None, h'))"


section \<open>The virtual disk\<close>

definition dsk_setsize :: "int \<Rightarrow> kernel \<Rightarrow> kernel" where
  "dsk_setsize sz s =
     s\<lparr>dsk := (dsk s)\<lparr>dsk_size := sz,
        dsk_end := (if sz > 0 then dsk_start (dsk s) + sz * DSK_BLKSIZE else LLONG_MAX)\<rparr>\<rparr>"

definition dsk_getsize :: "kernel \<Rightarrow> int" where
  "dsk_getsize s = dsk_size (dsk s)"

definition dsk_close :: "kernel \<Rightarrow> int \<times> kernel" where
  "dsk_close s =
     (0, if dsk_fd (dsk s) \<ge> 0 then s\<lparr>dsk := (dsk s)\<lparr>dsk_fd := -1\<rparr>\<rparr> else s)"

definition dsk_read :: "int \<Rightarrow> block \<Rightarrow> int \<Rightarrow> kernel \<Rightarrow> int \<times> block \<times> kernel" where
  "dsk_read blkno buf count s =
     (let blkoff = dsk_start (dsk s) + blkno * DSK_BLKSIZE in
      if count < 0 \<or> blkoff < dsk_start (dsk s) \<or> blkoff + count > dsk_end (dsk s) then (0, buf, s)
      else let (res, buf', h) = host_pread (dsk_fd (dsk s)) buf count blkoff (host s)
           in (case res of Inl e \<Rightarrow> - e | Inr n \<Rightarrow> if n = count then 0 else - EIO,
               buf', s\<lparr>host := h\<rparr>))"

definition dsk_write :: "int \<Rightarrow> block \<Rightarrow> int \<Rightarrow> kernel \<Rightarrow> int \<times> kernel" where
  "dsk_write blkno buf count s =
     (let blkoff = dsk_start (dsk s) + blkno * DSK_BLKSIZE in
      if count < 0 \<or> blkoff < dsk_start (dsk s) \<or> blkoff + count > dsk_end (dsk s) then (0, s)
      else let (res, h) = host_pwrite (dsk_fd (dsk s)) buf count blkoff (host s)
           in (case res of Inl e \<Rightarrow> - e | Inr n \<Rightarrow> if n = count then 0 else - EIO,
               s\<lparr>host := h\<rparr>))"

definition dsk_flush :: "kernel \<Rightarrow> int \<times> kernel" where
  "dsk_flush s =
     (let (e, h) = host_fsync (dsk_fd (dsk s)) (host s)
      in (case e of Some n \<Rightarrow> - n | None \<Rightarrow> 0, s\<lparr>host := h\<rparr>))"

text \<open>
  \<open>dsk_open\<close>. What the host knows of the file name is the argument \<open>env\<close>: the result of
  \<open>stat\<close> (an error number or the kind of file), of \<open>open\<close> with the flags computed (an
  error number or a descriptor and the file's bytes and length), of the \<open>ioctl\<close> that asks a
  block device for its size in bytes, and of \<open>ftruncate\<close>.
\<close>

datatype filekind = S_REG | S_BLK | S_OTHER
datatype oflag = O_RDONLY | O_WRONLY | O_RDWR | O_TRUNC | O_CREAT | O_EXCL

record openenv =
  e_stat :: "int + filekind"
  e_open :: "oflag set \<Rightarrow> int + (int \<times> block \<times> nat)"
  e_devsize :: "int option"
  e_ftruncate :: "int option"

definition dsk_open :: "openenv \<Rightarrow> int \<Rightarrow> int \<Rightarrow> bool \<Rightarrow> bool \<Rightarrow> bool \<Rightarrow> kernel \<Rightarrow> int \<times> kernel" where
  "dsk_open env sz offset create overwrite ro s =
     (let oflags = (if ro \<and> \<not> create then {O_RDONLY} else {O_RDWR}) in
      case (case e_stat env of
          Inr k \<Rightarrow>
            if k \<noteq> S_REG \<and> k \<noteq> S_BLK then Inl (- ENOTBLK, k = S_BLK)
            else if k \<noteq> S_BLK \<and> create then
              (if \<not> overwrite then Inl (- EEXIST, False) else Inr (oflags \<union> {O_TRUNC}, False))
            else Inr (oflags, k = S_BLK)
        | Inl e \<Rightarrow> if e \<noteq> ENOENT \<or> \<not> create then Inl (- e, dsk_isblkdev (dsk s))
                  else Inr (oflags \<union> {O_CREAT, O_EXCL}, False)) of
        Inl (err, isblk) \<Rightarrow> (err, s\<lparr>dsk := (dsk s)\<lparr>dsk_isblkdev := isblk\<rparr>\<rparr>)
      | Inr (oflags, isblk) \<Rightarrow>
          let s = s\<lparr>dsk := (dsk s)\<lparr>dsk_isblkdev := isblk\<rparr>\<rparr> in
          if \<not> isblk \<and> create \<and> sz \<le> 0 then (- EINVAL, s)
          else case e_open env oflags of
            Inl e \<Rightarrow> (- e, s\<lparr>dsk := (dsk s)\<lparr>dsk_fd := -1\<rparr>\<rparr>)
          | Inr (fd, bytes, len) \<Rightarrow>
              let sz = (if isblk \<and> sz \<le> 0 then
                    (case e_devsize env of Some n \<Rightarrow> n div DSK_BLKSIZE - offset | None \<Rightarrow> sz)
                  else sz);
                  s = s\<lparr>dsk := (dsk s)\<lparr>dsk_fd := fd, dsk_start := offset * DSK_BLKSIZE\<rparr>,
                        host := (host s)\<lparr>h_file := bytes, h_len := len\<rparr>\<rparr>;
                  s = dsk_setsize sz s
              in if \<not> isblk \<and> create then
                   (case e_ftruncate env of
                      Some e \<Rightarrow> (- e, snd (dsk_close s))
                    | None \<Rightarrow> (0, s\<lparr>host := (host s)\<lparr>
                        h_file := (\<lambda>i. if i < len then bytes i else 0),
                        h_len := nat (dsk_end (dsk s))\<rparr>\<rparr>))
                 else (0, s))"


section \<open>Blocks\<close>

text \<open>A block as far as its 512 bytes, and the contents of a disk block.\<close>

definition trunc_blk :: "block \<Rightarrow> block" where
  "trunc_blk d = (\<lambda>i. if i < BSIZE then d i else 0)"

definition dsk_pos :: "kernel \<Rightarrow> int \<Rightarrow> nat" where
  "dsk_pos s b = nat (dsk_start (dsk s) + b * DSK_BLKSIZE)"

definition dsk_block :: "kernel \<Rightarrow> int \<Rightarrow> block" where
  "dsk_block s b = trunc_blk (\<lambda>i. h_file (host s) (dsk_pos s b + i))"

text \<open>The block lies inside the window, and the window inside the file.\<close>

definition dsk_inrange :: "kernel \<Rightarrow> int \<Rightarrow> bool" where
  "dsk_inrange s b \<longleftrightarrow> 0 \<le> b \<and> dsk_start (dsk s) + b * DSK_BLKSIZE + DSK_BLKSIZE \<le> dsk_end (dsk s)"

definition dsk_wf :: "kernel \<Rightarrow> bool" where
  "dsk_wf s \<longleftrightarrow> 0 \<le> dsk_fd (dsk s) \<and> 0 \<le> dsk_start (dsk s) \<and> dsk_end (dsk s) \<le> int (h_len (host s))"

definition host_ok :: "kernel \<Rightarrow> bool" where
  "host_ok s \<longleftrightarrow> (\<forall>n. h_fault (host s) n = None)"

lemma trunc_blk_idem [simp]: "trunc_blk (trunc_blk d) = trunc_blk d"
  by (simp add: trunc_blk_def fun_eq_iff)

lemma trunc_blk_in [simp]: "i < 512 \<Longrightarrow> trunc_blk d i = d i"
  by (simp add: trunc_blk_def)

lemma trunc_dsk_block [simp]: "trunc_blk (dsk_block s b) = dsk_block s b"
  by (simp add: dsk_block_def)

lemma ld_trunc_blk [mem_simps]:
  "i + 2 \<le> 512 \<Longrightarrow> ld16 (trunc_blk d) i = ld16 d i"
  "j + 4 \<le> 512 \<Longrightarrow> ld32 (trunc_blk d) j = ld32 d j"
  by (simp_all add: ld16_def ld32_def)

lemma trunc_blk_eqI: "(\<And>i. i < 512 \<Longrightarrow> d i = e i) \<Longrightarrow> trunc_blk d = trunc_blk e"
  by (auto simp: trunc_blk_def fun_eq_iff)

lemma dsk_pos_inj:
  assumes "0 \<le> dsk_start (dsk s)" "0 \<le> a" "0 \<le> b" "a \<noteq> b" "i < 512" "j < 512"
  shows "dsk_pos s a + i \<noteq> dsk_pos s b + j"
proof -
  have "int (dsk_pos s a + i) = dsk_start (dsk s) + a * 512 + int i"
    "int (dsk_pos s b + j) = dsk_start (dsk s) + b * 512 + int j"
    using assms by (simp_all add: dsk_pos_def)
  moreover have "a + 1 \<le> b \<or> b + 1 \<le> a" using assms(4) by linarith
  moreover have "int i < 512" "int j < 512" using assms(5,6) by simp_all
  ultimately have "int (dsk_pos s a + i) \<noteq> int (dsk_pos s b + j)" by linarith
  then show ?thesis by simp
qed

lemma dsk_pos_len:
  assumes "dsk_wf s" "dsk_inrange s b"
  shows "dsk_pos s b + 512 \<le> h_len (host s)"
  using assms by (auto simp: dsk_wf_def dsk_inrange_def dsk_pos_def)

lemma dsk_pos_int: "dsk_wf s \<Longrightarrow> 0 \<le> b \<Longrightarrow> int (dsk_pos s b) = dsk_start (dsk s) + b * 512"
  by (simp add: dsk_pos_def dsk_wf_def)

text \<open>A read inside the window fills the buffer with the block.\<close>

lemma dsk_read_ok:
  assumes "dsk_wf s" "host_ok s" "dsk_inrange s b"
  shows "\<exists>h. dsk_read b buf 512 s
      = (0, copy_bytes 512 0 buf (dsk_pos s b) (h_file (host s)), s\<lparr>host := h\<rparr>)
      \<and> h = (host s)\<lparr>h_op := h_op (host s) + 1\<rparr>"
proof -
  have f: "h_fault (host s) n = None" for n using assms(2) by (simp add: host_ok_def)
  have m: "min 512 (h_len (host s) - dsk_pos s b) = 512" using dsk_pos_len [OF assms(1,3)] by simp
  show ?thesis
    using assms m f
    by (simp add: dsk_read_def host_pread_def dsk_inrange_def dsk_wf_def Let_def host_count_def
        dsk_pos_def [symmetric])
qed

lemma dsk_write_ok:
  assumes "dsk_wf s" "host_ok s" "dsk_inrange s b"
  shows "dsk_write b buf 512 s = (0, s\<lparr>host := (host s)\<lparr>h_op := h_op (host s) + 1,
      h_file := copy_bytes 512 (dsk_pos s b) (h_file (host s)) 0 buf\<rparr>\<rparr>)"
proof -
  have f: "h_fault (host s) n = None" for n using assms(2) by (simp add: host_ok_def)
  have m: "max (h_len (host s)) (dsk_pos s b + 512) = h_len (host s)"
    using dsk_pos_len [OF assms(1,3)] by simp
  show ?thesis
    using assms m f
    by (simp add: dsk_write_def host_pwrite_def dsk_inrange_def dsk_wf_def Let_def host_count_def
        dsk_pos_def [symmetric])
qed

text \<open>Outside the window neither does anything, and both report success.\<close>

lemma dsk_read_outside: "\<not> dsk_inrange s b \<Longrightarrow> dsk_read b buf 512 s = (0, buf, s)"
  by (auto simp: dsk_read_def dsk_inrange_def Let_def)

lemma dsk_write_outside: "\<not> dsk_inrange s b \<Longrightarrow> dsk_write b buf 512 s = (0, s)"
  by (auto simp: dsk_write_def dsk_inrange_def Let_def)

end
