(* ===== verification/Bio.thy ===== *)
theory Bio
  imports Dskio
begin

text \<open>
  \<open>dev/bio.c\<close> with the driver of \<open>v7adapt.c\<close>: the buffer cache. The headers are linked by
  pointers, as in the code: \<open>b_forw\<close>/\<open>b_back\<close> into the list of the device (or the list of
  buffers of no device, headed by \<open>bfreelist\<close>), \<open>av_forw\<close>/\<open>av_back\<close> into the list of
  available buffers. \<open>sleep\<close> and \<open>wakeup\<close> do nothing in this build, so a loop around a
  \<open>sleep\<close> never ends: it is \<open>None\<close>, as are a panic and a device number outside
  \<open>bdevsw\<close>. \<open>spl0\<close>, \<open>spl6\<close>, \<open>splx\<close> and \<open>mapfree\<close> do nothing and have no trace
  in the model.
\<close>

section \<open>Field updates\<close>

definition set_b_forw :: "bufp \<Rightarrow> bufp \<Rightarrow> kernel \<Rightarrow> kernel" where
  "set_b_forw p q = upd_buf p (\<lambda>b. b\<lparr>b_forw := q\<rparr>)"

definition set_b_back :: "bufp \<Rightarrow> bufp \<Rightarrow> kernel \<Rightarrow> kernel" where
  "set_b_back p q = upd_buf p (\<lambda>b. b\<lparr>b_back := q\<rparr>)"

definition set_av_forw :: "bufp \<Rightarrow> bufp \<Rightarrow> kernel \<Rightarrow> kernel" where
  "set_av_forw p q = upd_buf p (\<lambda>b. b\<lparr>av_forw := q\<rparr>)"

definition set_av_back :: "bufp \<Rightarrow> bufp \<Rightarrow> kernel \<Rightarrow> kernel" where
  "set_av_back p q = upd_buf p (\<lambda>b. b\<lparr>av_back := q\<rparr>)"

definition or_bflags :: "bufp \<Rightarrow> bflag set \<Rightarrow> kernel \<Rightarrow> kernel" where
  "or_bflags p fs = upd_buf p (\<lambda>b. b\<lparr>b_flags := b_flags b \<union> fs\<rparr>)"

definition clr_bflags :: "bufp \<Rightarrow> bflag set \<Rightarrow> kernel \<Rightarrow> kernel" where
  "clr_bflags p fs = upd_buf p (\<lambda>b. b\<lparr>b_flags := b_flags b - fs\<rparr>)"


section \<open>Releasing and finishing\<close>

text \<open>\<open>bdevsw[maj].d_tab\<close>: the switch has one row.\<close>

definition d_tab :: "int \<Rightarrow> bufp option" where
  "d_tab maj = (if maj = 0 then Some Rootdsktab else None)"

definition brelse :: "bufp \<Rightarrow> kernel \<Rightarrow> kernel" where
  "brelse bp s =
     (let s = (if B_WANTED \<in> bflags s Bfreelist then clr_bflags Bfreelist {B_WANTED} s else s);
          s = (if B_ERROR \<in> bflags s bp then upd_buf bp (\<lambda>b. b\<lparr>b_dev := NODEV\<rparr>) s else s);
          s = (if B_AGE \<in> bflags s bp then
                 (let q = av_forw (v7_buf s Bfreelist);
                      s = set_av_back q bp s;
                      s = set_av_forw bp q s;
                      s = set_av_forw Bfreelist bp s
                  in set_av_back bp Bfreelist s)
               else
                 (let q = av_back (v7_buf s Bfreelist);
                      s = set_av_forw q bp s;
                      s = set_av_back bp q s;
                      s = set_av_back Bfreelist bp s
                  in set_av_forw bp Bfreelist s))
      in clr_bflags bp {B_WANTED, B_BUSY, B_ASYNC, B_AGE} s)"

definition iodone :: "bufp \<Rightarrow> kernel \<Rightarrow> kernel" where
  "iodone bp s =
     (let s = or_bflags bp {B_DONE} s
      in if B_ASYNC \<in> bflags s bp then brelse bp s else clr_bflags bp {B_WANTED} s)"

definition geterror :: "bufp \<Rightarrow> kernel \<Rightarrow> kernel" where
  "geterror bp s =
     (if B_ERROR \<in> bflags s bp then
        let e = b_error (v7_buf s bp) in set_error (if e = 0 then EIO else e) s
      else s)"

definition iowait :: "bufp \<Rightarrow> kernel \<Rightarrow> kernel option" where
  "iowait bp s = (if B_DONE \<in> bflags s bp then Some (geterror bp s) else None)"

definition notavail :: "bufp \<Rightarrow> kernel \<Rightarrow> kernel" where
  "notavail bp s =
     (let s = set_av_forw (av_back (v7_buf s bp)) (av_forw (v7_buf s bp)) s;
          s = set_av_back (av_forw (v7_buf s bp)) (av_back (v7_buf s bp)) s
      in or_bflags bp {B_BUSY} s)"

definition clrbuf :: "bufp \<Rightarrow> kernel \<Rightarrow> kernel" where
  "clrbuf bp = upd_buf bp (\<lambda>b. b\<lparr>b_addr := copy_bytes BSIZE 0 (b_addr b) 0 zeroblk, b_resid := 0\<rparr>)"

text \<open>\<open>v7_dsk_strategy\<close>: the transfer is done before it returns.\<close>

definition v7_dsk_strategy :: "bufp \<Rightarrow> kernel \<Rightarrow> kernel" where
  "v7_dsk_strategy bp s =
     (let b = v7_buf s bp;
          (ioRes, s) = (if B_READ \<in> b_flags b then
              (let (r, d, s) = dsk_read (b_blkno b) (b_addr b) (b_bcount b) s
               in (r, upd_data bp (\<lambda>_. d) s))
            else dsk_write (b_blkno b) (b_addr b) (b_bcount b) s);
          s = (if ioRes \<noteq> 0 then or_bflags bp {B_ERROR} s else s);
          s = v7_refreshclock s
      in iodone bp s)"

text \<open>\<open>( *bdevsw[major(dev)].d_strategy)(bp)\<close>.\<close>

definition d_strategy :: "int \<Rightarrow> bufp \<Rightarrow> kernel \<Rightarrow> kernel option" where
  "d_strategy dev bp s = do { _ \<leftarrow> d_tab (major dev); Some (v7_dsk_strategy bp s) }"

definition bwrite :: "bufp \<Rightarrow> kernel \<Rightarrow> kernel option" where
  "bwrite bp s =
     (let flag = bflags s bp;
          s = clr_bflags bp {B_READ, B_DONE, B_ERROR, B_DELWRI, B_AGE} s;
          s = upd_buf bp (\<lambda>b. b\<lparr>b_bcount := int BSIZE\<rparr>) s
      in do {
        s \<leftarrow> d_strategy (b_dev (v7_buf s bp)) bp s;
        if B_ASYNC \<notin> flag then do { s \<leftarrow> iowait bp s; Some (brelse bp s) }
        else if B_DELWRI \<in> flag then Some (or_bflags bp {B_AGE} s)
        else Some (geterror bp s) })"

definition bawrite :: "bufp \<Rightarrow> kernel \<Rightarrow> kernel option" where
  "bawrite bp s = bwrite bp (or_bflags bp {B_ASYNC} s)"

definition bdwrite :: "bufp \<Rightarrow> kernel \<Rightarrow> kernel option" where
  "bdwrite bp s = do {
     dp \<leftarrow> d_tab (major (b_dev (v7_buf s bp)));
     if B_TAPE \<in> bflags s dp then bawrite bp s
     else Some (brelse bp (or_bflags bp {B_DELWRI, B_DONE} s)) }"


section \<open>Finding and assigning a buffer\<close>

text \<open>The loop over a device's list: the buffer with the block, if there is one.\<close>

partial_function (option) dev_find ::
  "(bufp \<Rightarrow> buf) \<Rightarrow> bufp \<Rightarrow> bufp \<Rightarrow> int \<Rightarrow> int \<Rightarrow> bufp option option" where
  "dev_find h dp bp dev blkno =
     (if bp = dp then Some None
      else if b_blkno (h bp) = blkno \<and> b_dev (h bp) = dev then Some (Some bp)
      else dev_find h dp (b_forw (h bp)) dev blkno)"

definition incore :: "int \<Rightarrow> int \<Rightarrow> kernel \<Rightarrow> bool option" where
  "incore dev blkno s = do {
     dp \<leftarrow> d_tab (major dev);
     r \<leftarrow> dev_find (v7_buf s) dp (b_forw (v7_buf s dp)) dev blkno;
     Some (r \<noteq> None) }"

text \<open>Unlinking a buffer from its list and putting it at the front of the list of \<open>dp\<close>.\<close>

definition move_to :: "bufp \<Rightarrow> bufp \<Rightarrow> kernel \<Rightarrow> kernel" where
  "move_to bp dp s =
     (let s = set_b_forw (b_back (v7_buf s bp)) (b_forw (v7_buf s bp)) s;
          s = set_b_back (b_forw (v7_buf s bp)) (b_back (v7_buf s bp)) s;
          s = set_b_forw bp (b_forw (v7_buf s dp)) s;
          s = set_b_back bp dp s;
          s = set_b_back (b_forw (v7_buf s dp)) bp s
      in set_b_forw dp bp s)"

partial_function (option) getblk :: "int \<Rightarrow> int \<Rightarrow> kernel \<Rightarrow> (bufp \<times> kernel) option" where
  "getblk dev blkno s =
     (if major dev \<ge> v7_nblkdev s then None
      else Option.bind (d_tab (major dev)) (\<lambda>dp.
        Option.bind (dev_find (v7_buf s) dp (b_forw (v7_buf s dp)) dev blkno) (\<lambda>r.
          case r of
            Some bp \<Rightarrow>
              if B_BUSY \<in> bflags s bp then getblk dev blkno (or_bflags bp {B_WANTED} s)
              else Some (bp, notavail bp s)
          | None \<Rightarrow>
              if av_forw (v7_buf s Bfreelist) = Bfreelist
              then getblk dev blkno (or_bflags Bfreelist {B_WANTED} s)
              else let bp = av_forw (v7_buf s Bfreelist); s = notavail bp s in
                if B_DELWRI \<in> bflags s bp then
                  Option.bind (bwrite bp (or_bflags bp {B_ASYNC} s)) (\<lambda>s. getblk dev blkno s)
                else
                  Some (bp, upd_buf bp (\<lambda>b. b\<lparr>b_dev := dev, b_blkno := blkno\<rparr>)
                    (move_to bp dp (upd_buf bp (\<lambda>b. b\<lparr>b_flags := {B_BUSY}\<rparr>) s))))))"

partial_function (option) geteblk :: "kernel \<Rightarrow> (bufp \<times> kernel) option" where
  "geteblk s =
     (if av_forw (v7_buf s Bfreelist) = Bfreelist
      then geteblk (or_bflags Bfreelist {B_WANTED} s)
      else let bp = av_forw (v7_buf s Bfreelist); s = notavail bp s in
        if B_DELWRI \<in> bflags s bp then
          Option.bind (bwrite bp (or_bflags bp {B_ASYNC} s)) (\<lambda>s. geteblk s)
        else
          Some (bp, upd_buf bp (\<lambda>b. b\<lparr>b_dev := NODEV\<rparr>)
            (move_to bp Bfreelist (upd_buf bp (\<lambda>b. b\<lparr>b_flags := {B_BUSY}\<rparr>) s))))"


section \<open>Reading and flushing\<close>

definition start_read :: "int \<Rightarrow> bflag set \<Rightarrow> bufp \<Rightarrow> kernel \<Rightarrow> kernel option" where
  "start_read dev fs bp s =
     (let s = or_bflags bp fs s;
          s = upd_buf bp (\<lambda>b. b\<lparr>b_bcount := int BSIZE\<rparr>) s
      in d_strategy dev bp s)"

definition bread :: "int \<Rightarrow> int \<Rightarrow> kernel \<Rightarrow> (bufp \<times> kernel) option" where
  "bread dev blkno s = do {
     (bp, s) \<leftarrow> getblk dev blkno s;
     if B_DONE \<in> bflags s bp then Some (bp, s)
     else do {
       s \<leftarrow> start_read dev {B_READ} bp s;
       s \<leftarrow> iowait bp s;
       Some (bp, s) } }"

definition breada :: "int \<Rightarrow> int \<Rightarrow> int \<Rightarrow> kernel \<Rightarrow> (bufp \<times> kernel) option" where
  "breada dev blkno rablkno s = do {
     here \<leftarrow> incore dev blkno s;
     (obp, s) \<leftarrow> (if \<not> here then do {
         (bp, s) \<leftarrow> getblk dev blkno s;
         s \<leftarrow> (if B_DONE \<notin> bflags s bp then start_read dev {B_READ} bp s else Some s);
         Some (Some bp, s) }
       else Some (None, s));
     s \<leftarrow> (if rablkno = 0 then Some s
       else do {
         rahere \<leftarrow> incore dev rablkno s;
         if rahere then Some s
         else do {
           (rabp, s) \<leftarrow> getblk dev rablkno s;
           if B_DONE \<in> bflags s rabp then Some (brelse rabp s)
           else start_read dev {B_READ, B_ASYNC} rabp s } });
     case obp of
       None \<Rightarrow> bread dev blkno s
     | Some bp \<Rightarrow> do { s \<leftarrow> iowait bp s; Some (bp, s) } }"

text \<open>The scan of \<open>bflush\<close> over the available list for a delayed write.\<close>

partial_function (option) delwri_find :: "(bufp \<Rightarrow> buf) \<Rightarrow> int \<Rightarrow> bufp \<Rightarrow> bufp option option" where
  "delwri_find h dev bp =
     (if bp = Bfreelist then Some None
      else if B_DELWRI \<in> b_flags (h bp) \<and> (dev = NODEV \<or> dev = b_dev (h bp)) then Some (Some bp)
      else delwri_find h dev (av_forw (h bp)))"

partial_function (option) bflush :: "int \<Rightarrow> kernel \<Rightarrow> kernel option" where
  "bflush dev s =
     Option.bind (delwri_find (v7_buf s) dev (av_forw (v7_buf s Bfreelist))) (\<lambda>r.
       case r of
         None \<Rightarrow> Some s
       | Some bp \<Rightarrow> Option.bind (bwrite bp (notavail bp (or_bflags bp {B_ASYNC} s))) (\<lambda>s. bflush dev s))"


section \<open>Initialization\<close>

definition binit_one :: "nat \<Rightarrow> kernel \<Rightarrow> kernel" where
  "binit_one i s =
     (let bp = Buf i;
          s = upd_buf bp (\<lambda>b. b\<lparr>b_dev := NODEV\<rparr>) s;
          s = set_b_back bp Bfreelist s;
          s = set_b_forw bp (b_forw (v7_buf s Bfreelist)) s;
          s = set_b_back (b_forw (v7_buf s Bfreelist)) bp s;
          s = set_b_forw Bfreelist bp s;
          s = upd_buf bp (\<lambda>b. b\<lparr>b_flags := {B_BUSY}\<rparr>) s
      in brelse bp s)"

definition binit :: "kernel \<Rightarrow> kernel" where
  "binit s =
     (let s = upd_buf Bfreelist (\<lambda>b. b\<lparr>b_forw := Bfreelist, b_back := Bfreelist,
                av_forw := Bfreelist, av_back := Bfreelist\<rparr>) s;
          s = fold binit_one [0..<NBUF] s;
          s = upd_buf Rootdsktab (\<lambda>b. b\<lparr>b_forw := Rootdsktab, b_back := Rootdsktab\<rparr>) s
      in s\<lparr>v7_nblkdev := v7_nblkdev s + 1\<rparr>)"

end
