(* ===== verification/Alloc.thy ===== *)
theory Alloc
  imports Bio
begin

text \<open>
  The free list of \<open>sys/alloc.c\<close>: \<open>getfs\<close>, \<open>badblock\<close>, \<open>alloc\<close>, \<open>free\<close> and
  \<open>ifree\<close>. A pointer to the superblock is the buffer that holds it; the fields keep the
  byte order of the disk, so each access has the swap of the code. A \<open>while\<close> around
  \<open>sleep\<close> on a lock that is held never ends, and an index before the start of an array has no
  meaning: both are \<open>None\<close>.
\<close>

definition getfs :: "int \<Rightarrow> kernel \<Rightarrow> (bufp \<times> kernel) option" where
  "getfs dev s =
     (case find (\<lambda>i. m_bufp (v7_mount s i) \<noteq> None \<and> m_dev (v7_mount s i) = dev) [0..<NMOUNT] of
        None \<Rightarrow> None
      | Some i \<Rightarrow> do {
          fp \<leftarrow> m_bufp (v7_mount s i);
          if wswap_int16 (s_nfree (bdata s fp)) > NICFREE
             \<or> wswap_int16 (s_ninode (bdata s fp)) > NICINOD then
            Some (fp, upd_data fp (set_s_ninode 0) (upd_data fp (set_s_nfree 0)
              (v7_prdev ''bad count'' dev s)))
          else Some (fp, s) })"

definition badblock :: "bufp \<Rightarrow> int \<Rightarrow> int \<Rightarrow> kernel \<Rightarrow> bool \<times> kernel" where
  "badblock fp bn dev s =
     (if bn < wswap_int16 (s_isize (bdata s fp)) \<or> bn \<ge> wswap_int32 (s_fsize (bdata s fp))
      then (True, v7_prdev ''bad block'' dev s) else (False, s))"

lemma badblock_frame: "v7_buf (snd (badblock fp bn dev s)) = v7_buf s"
  by (simp add: badblock_def v7_prdev_def)

lemma bdata_upd_data: "bdata (upd_data p f s) q = (if q = p then f (bdata s p) else bdata s q)"
  by (simp add: upd_data_def upd_buf_def)

text \<open>
  The \<open>do\<close> loop of \<open>alloc\<close>: the next entry that is a block of the file system, or
  nothing when the list is exhausted. Every round takes one entry off.
\<close>

function alloc_pick :: "bufp \<Rightarrow> int \<Rightarrow> kernel \<Rightarrow> int option \<times> kernel" where
  "alloc_pick fp dev s =
     (let nf = wswap_int16 (s_nfree (bdata s fp)) in
      if nf \<le> 0 then (None, s)
      else if nf > NICFREE then (None, v7_prdev ''Bad free count'' dev s)
      else
        let s = upd_data fp (set_s_nfree (wswap_int16 (nf - 1))) s;
            bno = wswap_int32 (s_free (bdata s fp) (nat (wswap_int16 (s_nfree (bdata s fp)))))
        in if bno = 0 then (None, s)
           else if fst (badblock fp bno dev s) then alloc_pick fp dev (snd (badblock fp bno dev s))
           else (Some bno, snd (badblock fp bno dev s)))"
  by pat_completeness auto
termination
  by (relation "measure (\<lambda>(fp, dev, s). nat (wswap_int16 (s_nfree (bdata s fp))))")
    (auto simp: badblock_frame bdata_upd_data filsys_defs mem_simps wrap_simps)

declare alloc_pick.simps [simp del]

definition nospace :: "bufp \<Rightarrow> int \<Rightarrow> kernel \<Rightarrow> kernel" where
  "nospace fp dev s =
     set_error ENOSPC (v7_prdev ''no space'' dev
       (upd_data fp (set_s_tfree 0) (upd_data fp (set_s_nfree 0) s)))"

definition alloc :: "int \<Rightarrow> kernel \<Rightarrow> (bufp option \<times> kernel) option" where
  "alloc dev s = do {
     (fp, s) \<leftarrow> getfs dev s;
     if s_flock (bdata s fp) \<noteq> 0 then None
     else case alloc_pick fp dev s of
       (None, s) \<Rightarrow> Some (None, nospace fp dev s)
     | (Some bno, s) \<Rightarrow> do {
         (full, s) \<leftarrow>
           (if wswap_int16 (s_nfree (bdata s fp)) \<le> 0 then do {
              let s = upd_data fp (\<lambda>d. set_s_flock (s_flock d + 1) d) s;
              (bp, s) \<leftarrow> bread dev bno s;
              let s = (if B_ERROR \<notin> bflags s bp then
                  (let s = upd_data fp (set_s_nfree (df_nfree (bdata s bp))) s
                   in upd_data fp (\<lambda>d. copy_bytes 200 8 d 2 (bdata s bp)) s)
                else s);
              let s = brelse bp s;
              let s = upd_data fp (set_s_flock 0) s;
              Some (wswap_int16 (s_nfree (bdata s fp)) \<le> 0, s) }
            else Some (False, s));
         if full then Some (None, nospace fp dev s)
         else do {
           (bp, s) \<leftarrow> getblk dev bno s;
           let s = clrbuf bp s;
           let s = (if wswap_int32 (s_tfree (bdata s fp)) \<noteq> 0 then
               upd_data fp (\<lambda>d. set_s_tfree (wswap_int32 (wswap_int32 (s_tfree d) - 1)) d) s
             else s);
           Some (Some bp, upd_data fp (set_s_fmod 1) s) } } }"

definition free :: "int \<Rightarrow> int \<Rightarrow> kernel \<Rightarrow> kernel option" where
  "free dev bno s = do {
     (fp, s) \<leftarrow> getfs dev s;
     let s = upd_data fp (set_s_fmod 1) s;
     if s_flock (bdata s fp) \<noteq> 0 then None
     else case badblock fp bno dev s of
       (True, s) \<Rightarrow> Some s
     | (False, s) \<Rightarrow> do {
         let s = (if wswap_int16 (s_nfree (bdata s fp)) \<le> 0 then
             upd_data fp (set_s_free 0 0) (upd_data fp (set_s_nfree (wswap_int16 1)) s)
           else s);
         s \<leftarrow>
           (if wswap_int16 (s_nfree (bdata s fp)) \<ge> NICFREE then do {
              let s = upd_data fp (\<lambda>d. set_s_flock (s_flock d + 1) d) s;
              (bp, s) \<leftarrow> getblk dev bno s;
              let s = upd_data bp (set_df_nfree (s_nfree (bdata s fp))) s;
              let s = upd_data bp (\<lambda>d. copy_bytes 200 2 d 8 (bdata s fp)) s;
              let s = upd_data fp (set_s_nfree 0) s;
              s \<leftarrow> bwrite bp s;
              Some (upd_data fp (set_s_flock 0) s) }
            else Some s);
         let s = upd_data fp (\<lambda>d. set_s_free (nat (wswap_int16 (s_nfree d))) (wswap_int32 bno) d) s;
         let s = upd_data fp (\<lambda>d. set_s_nfree (wswap_int16 (wswap_int16 (s_nfree d) + 1)) d) s;
         let s = upd_data fp (\<lambda>d. set_s_tfree (wswap_int32 (wswap_int32 (s_tfree d) + 1)) d) s;
         Some (upd_data fp (set_s_fmod 1) s) } }"

definition ifree :: "int \<Rightarrow> int \<Rightarrow> kernel \<Rightarrow> kernel option" where
  "ifree dev ino s = do {
     (fp, s) \<leftarrow> getfs dev s;
     let s = upd_data fp (\<lambda>d. set_s_tinode (wswap_int16 (wswap_int16 (s_tinode d) + 1)) d) s;
     let n = wswap_int16 (s_ninode (bdata s fp));
     if s_ilock (bdata s fp) \<noteq> 0 then Some s
     else if n \<ge> NICINOD then Some s
     else if n < 0 then None
     else Some (upd_data fp (set_s_fmod 1) (upd_data fp (set_s_ninode (wswap_int16 (n + 1)))
       (upd_data fp (set_s_inode (nat n) (wswap_int16 ino)) s))) }"

end
