(* ===== verification/Inode.thy ===== *)
theory Inode
  imports Alloc
begin

text \<open>
  \<open>sys/iget.c\<close>, \<open>ialloc\<close> and \<open>update\<close> of \<open>sys/alloc.c\<close>, and \<open>prele\<close> of \<open>sys/pipe.c\<close>: the
  table of inodes in core. A pointer to an inode is its index in \<open>v7_inode\<close>. \<open>i_count\<close> is a
  \<open>char\<close> and wraps. \<open>plock\<close> and \<open>wakeup\<close> do nothing in this build.
\<close>

section \<open>Locks and the form on disk\<close>

definition prele :: "nat \<Rightarrow> kernel \<Rightarrow> kernel" where
  "prele ip s =
     (let s = clr_iflag ip {ILOCK} s
      in if IWANT \<in> i_flag (v7_inode s ip) then clr_iflag ip {IWANT} s else s)"

text \<open>\<open>iexpand\<close>: from the inode at byte \<open>a\<close> of the block \<open>d\<close>.\<close>

definition addr_of :: "block \<Rightarrow> nat \<Rightarrow> nat \<Rightarrow> int" where
  "addr_of d a i = 65536 * uint (di_addr d a (3 * i)) + 256 * uint (di_addr d a (3 * i + 1))
     + uint (di_addr d a (3 * i + 2))"

definition iexpand :: "block \<Rightarrow> nat \<Rightarrow> inode \<Rightarrow> inode" where
  "iexpand d a ip = ip\<lparr>i_mode := u16 (wswap_int16 (di_mode d a)),
     i_nlink := wswap_int16 (di_nlink d a), i_uid := wswap_int16 (di_uid d a),
     i_gid := wswap_int16 (di_gid d a), i_size := wswap_int32 (di_size d a),
     i_addr := (\<lambda>i. if i < NADDR then addr_of d a i else i_addr ip i)\<rparr>"

text \<open>The part of \<open>iupdat\<close> that fills the block, before the dates.\<close>

definition put_addrs :: "(nat \<Rightarrow> int) \<Rightarrow> nat \<Rightarrow> block \<Rightarrow> block" where
  "put_addrs ad a d = (\<lambda>k. if a + 12 \<le> k \<and> k < a + 12 + 3 * NADDR then
       (let j = k - (a + 12); v = ad (j div 3)
        in word_of_int (if j mod 3 = 0 then v div 65536 else if j mod 3 = 1 then v div 256 else v))
     else d k)"

definition put_dinode :: "inode \<Rightarrow> nat \<Rightarrow> block \<Rightarrow> block" where
  "put_dinode ip a d =
     (let d = st16 a (wswap_int16 (i_mode ip)) d;
          d = st16 (a + 2) (wswap_int16 (i_nlink ip)) d;
          d = st16 (a + 4) (wswap_int16 (i_uid ip)) d;
          d = st16 (a + 6) (wswap_int16 (i_gid ip)) d;
          d = st32 (a + 8) (wswap_int32 (i_size ip)) d
      in put_addrs (i_addr ip) a d)"

text \<open>A \<open>time_t\<close> pointer: the address of the global \<open>time\<close>, or of a variable.\<close>

datatype timep = Time | TimeVar int

definition deref_time :: "timep \<Rightarrow> kernel \<Rightarrow> int" where
  "deref_time t s = (case t of Time \<Rightarrow> v7_time s | TimeVar v \<Rightarrow> v)"

definition put_dates :: "iflag set \<Rightarrow> int \<Rightarrow> int \<Rightarrow> int \<Rightarrow> nat \<Rightarrow> block \<Rightarrow> block" where
  "put_dates fl ta tm now a d =
     (let d = (if IACC \<in> fl then st32 (a + 52) (wswap_int32 ta) d else d);
          d = (if IUPD \<in> fl then st32 (a + 56) (wswap_int32 tm) d else d)
      in if ICHG \<in> fl then st32 (a + 60) (wswap_int32 now) d else d)"

text \<open>The diagnostics of \<open>iupdat\<close>, one for each address that needs more than 24 bits.\<close>

definition warn_addrs :: "nat \<Rightarrow> kernel \<Rightarrow> kernel" where
  "warn_addrs ip s =
     (let i = v7_inode s ip in
      fold (\<lambda>j s. if i_addr i j div 16777216 \<noteq> 0 \<and> i_mode i AND IFMT \<noteq> IFMPC
                   \<and> i_mode i AND IFMT \<noteq> IFMPB
                 then v7_printf ''iaddress > 2^24'' s else s) [0..<NADDR] s)"

definition iupdat :: "nat \<Rightarrow> timep \<Rightarrow> timep \<Rightarrow> kernel \<Rightarrow> kernel option" where
  "iupdat ip ta tm s =
     (if i_flag (v7_inode s ip) \<inter> {IUPD, IACC, ICHG} \<noteq> {} then do {
        (fp, s) \<leftarrow> getfs (i_dev (v7_inode s ip)) s;
        if s_ronly (bdata s fp) \<noteq> 0 then Some s
        else do {
          (bp, s) \<leftarrow> bread (i_dev (v7_inode s ip)) (itod (i_number (v7_inode s ip))) s;
          if B_ERROR \<in> bflags s bp then Some (brelse bp s)
          else do {
            let i = v7_inode s ip;
            let a = 64 * itoo (i_number i);
            let s = warn_addrs ip s;
            let s = upd_data bp (put_dinode i a) s;
            let s = upd_data bp (put_dates (i_flag i) (deref_time ta s) (deref_time tm s) (v7_time s) a) s;
            let s = clr_iflag ip {IUPD, IACC, ICHG} s;
            bdwrite bp s } } }
      else Some s)"


section \<open>Freeing the blocks of a file\<close>

text \<open>
  The loop of \<open>tloop\<close> over the entries of an indirect block, the last first; \<open>act\<close> frees
  what an entry points at. \<open>bp\<close> is the block's buffer while the loop holds it. The result is
  the buffer at the end of the loop, or \<open>None\<close> after the return in its middle.
\<close>

fun tloop_scan :: "(int \<Rightarrow> kernel \<Rightarrow> kernel option) \<Rightarrow> bool \<Rightarrow> int \<Rightarrow> int \<Rightarrow> nat list \<Rightarrow> bufp option
    \<Rightarrow> kernel \<Rightarrow> (bufp option option \<times> kernel) option" where
  "tloop_scan act f1 dev bn [] bp s = Some (Some bp, s)"
| "tloop_scan act f1 dev bn (i # is) bp s = do {
     (r, s) \<leftarrow> (case bp of
         Some b \<Rightarrow> Some (Some b, s)
       | None \<Rightarrow> do {
           (b, s) \<leftarrow> bread dev bn s;
           if B_ERROR \<in> bflags s b then Some (None, brelse b s) else Some (Some b, s) });
     case r of
       None \<Rightarrow> Some (None, s)
     | Some b \<Rightarrow>
         let nb = wswap_int32 (ld32 (bdata s b) (4 * i)) in
         if nb = 0 then tloop_scan act f1 dev bn is (Some b) s
         else if f1 then do {
           s \<leftarrow> act nb (brelse b s);
           tloop_scan act f1 dev bn is None s }
         else do {
           s \<leftarrow> act nb s;
           tloop_scan act f1 dev bn is (Some b) s } }"

function tloop :: "int \<Rightarrow> int \<Rightarrow> bool \<Rightarrow> bool \<Rightarrow> kernel \<Rightarrow> kernel option" where
  "tloop dev bn f1 f2 = (\<lambda>s. do {
     (r, s) \<leftarrow> tloop_scan (if f1 then (\<lambda>nb. tloop dev nb f2 False) else (\<lambda>nb. free dev nb))
                 f1 dev bn (rev [0..<NINDIR]) None s;
     case r of
       None \<Rightarrow> Some s
     | Some bp \<Rightarrow> free dev bn (case bp of Some b \<Rightarrow> brelse b s | None \<Rightarrow> s) })"
  by pat_completeness auto
termination
  by (relation "measure (\<lambda>(dev, bn, f1, f2). of_bool f1 + of_bool f2)") auto

declare tloop.simps [simp del]

definition itrunc_slot :: "nat \<Rightarrow> int \<Rightarrow> nat \<Rightarrow> kernel \<Rightarrow> kernel option" where
  "itrunc_slot ip dev i s =
     (let bn = i_addr (v7_inode s ip) i in
      if bn = 0 then Some s
      else
        let s = upd_inode ip (\<lambda>p. p\<lparr>i_addr := (i_addr p)(i := 0)\<rparr>) s in
        if i = NADDR - 3 then tloop dev bn False False s
        else if i = NADDR - 2 then tloop dev bn True False s
        else if i = NADDR - 1 then tloop dev bn True True s
        else free dev bn s)"

definition itrunc :: "nat \<Rightarrow> kernel \<Rightarrow> kernel option" where
  "itrunc ip s =
     (let ui = i_mode (v7_inode s ip) AND IFMT in
      if ui \<noteq> IFREG \<and> ui \<noteq> IFDIR then Some s
      else do {
        let dev = i_dev (v7_inode s ip);
        s \<leftarrow> for_each (itrunc_slot ip dev) (rev [0..<NADDR]) s;
        let s = upd_inode ip (\<lambda>p. p\<lparr>i_size := 0\<rparr>) s;
        Some (or_iflag ip {ICHG, IUPD} s) })"


section \<open>References to inodes\<close>

definition iput :: "nat \<Rightarrow> kernel \<Rightarrow> kernel option" where
  "iput ip s = do {
     s \<leftarrow> (if i_count (v7_inode s ip) = 1 then do {
         let s = or_iflag ip {ILOCK} s;
         s \<leftarrow> (if i_nlink (v7_inode s ip) \<le> 0 then do {
             s \<leftarrow> itrunc ip s;
             let s = upd_inode ip (\<lambda>p. p\<lparr>i_mode := 0\<rparr>) s;
             let s = or_iflag ip {IUPD, ICHG} s;
             ifree (i_dev (v7_inode s ip)) (i_number (v7_inode s ip)) s }
           else Some s);
         s \<leftarrow> iupdat ip Time Time s;
         let s = prele ip s;
         Some (upd_inode ip (\<lambda>p. p\<lparr>i_flag := {}, i_number := 0\<rparr>) s) }
       else Some s);
     let s = upd_inode ip (\<lambda>p. p\<lparr>i_count := s8 (i_count p - 1)\<rparr>) s;
     Some (prele ip s) }"

text \<open>
  The search of \<open>iget\<close>: the inode in core, or the first slot with no reference.
\<close>

definition inode_find :: "int \<Rightarrow> int \<Rightarrow> kernel \<Rightarrow> nat option" where
  "inode_find dev ino s =
     find (\<lambda>i. ino = i_number (v7_inode s i) \<and> dev = i_dev (v7_inode s i)) [0..<NINODE]"

definition inode_unused :: "kernel \<Rightarrow> nat option" where
  "inode_unused s = find (\<lambda>i. i_count (v7_inode s i) = 0) [0..<NINODE]"

definition iget_read :: "nat \<Rightarrow> int \<Rightarrow> int \<Rightarrow> kernel \<Rightarrow> (nat option \<times> kernel) option" where
  "iget_read ip dev ino s = do {
     let s = upd_inode ip (\<lambda>p. p\<lparr>i_dev := dev, i_number := ino, i_flag := {ILOCK},
               i_count := s8 (i_count p + 1), i_lastr := 0\<rparr>) s;
     (bp, s) \<leftarrow> bread dev (itod ino) s;
     if B_ERROR \<in> bflags s bp then do {
       s \<leftarrow> iput ip (brelse bp s);
       Some (None, s) }
     else do {
       let s = upd_inode ip (iexpand (bdata s bp) (64 * itoo ino)) s;
       Some (Some ip, brelse bp s) } }"

partial_function (option) iget :: "int \<Rightarrow> int \<Rightarrow> kernel \<Rightarrow> (nat option \<times> kernel) option" where
  "iget dev ino s =
     (case inode_find dev ino s of
        Some ip \<Rightarrow>
          if ILOCK \<in> i_flag (v7_inode s ip) then iget dev ino (or_iflag ip {IWANT} s)
          else if IMOUNT \<in> i_flag (v7_inode s ip) then
            (case find (\<lambda>m. m_inodp (v7_mount s m) = Some ip) [0..<NMOUNT] of
               Some m \<Rightarrow> iget (m_dev (v7_mount s m)) ROOTINO s
             | None \<Rightarrow> None)
          else Some (Some ip, or_iflag ip {ILOCK}
                 (upd_inode ip (\<lambda>p. p\<lparr>i_count := s8 (i_count p + 1)\<rparr>) s))
      | None \<Rightarrow>
          (case inode_unused s of
             None \<Rightarrow> Some (None, set_error ENFILE (v7_printf ''Inode table overflow'' s))
           | Some ip \<Rightarrow> iget_read ip dev ino s))"


section \<open>Allocating an inode\<close>

text \<open>
  The refill of the superblock's list from the inodes of one block, which starts with number
  \<open>ino\<close>. The result is the number the scan stopped at.
\<close>

definition in_core :: "int \<Rightarrow> int \<Rightarrow> kernel \<Rightarrow> bool" where
  "in_core dev ino s \<longleftrightarrow>
     list_ex (\<lambda>j. dev = i_dev (v7_inode s j) \<and> ino = i_number (v7_inode s j)) [0..<NINODE]"

fun ialloc_dinodes :: "bufp \<Rightarrow> int \<Rightarrow> bufp \<Rightarrow> nat list \<Rightarrow> int \<Rightarrow> kernel \<Rightarrow> (int \<times> kernel) option" where
  "ialloc_dinodes fp dev bp [] ino s = Some (ino, s)"
| "ialloc_dinodes fp dev bp (i # is) ino s =
     (if di_mode (bdata s bp) (64 * i) \<noteq> 0 \<or> in_core dev ino s
      then ialloc_dinodes fp dev bp is (u16 (ino + 1)) s
      else
        let n = wswap_int16 (s_ninode (bdata s fp)) in
        if n < 0 then None
        else
          let s = upd_data fp (set_s_inode (nat n) (wswap_int16 ino)) s;
              s = upd_data fp (set_s_ninode (wswap_int16 (n + 1))) s
          in if wswap_int16 (s_ninode (bdata s fp)) \<ge> NICINOD then Some (ino, s)
             else ialloc_dinodes fp dev bp is (u16 (ino + 1)) s)"

partial_function (option) ialloc_scan :: "bufp \<Rightarrow> int \<Rightarrow> int \<Rightarrow> int \<Rightarrow> kernel \<Rightarrow> kernel option" where
  "ialloc_scan fp dev adr ino s =
     (if adr < wswap_int16 (s_isize (bdata s fp)) then
        Option.bind (bread dev adr s) (\<lambda>(bp, s).
          if B_ERROR \<in> bflags s bp
          then ialloc_scan fp dev (adr + 1) (u16 (ino + int INOPB)) (brelse bp s)
          else Option.bind (ialloc_dinodes fp dev bp [0..<INOPB] ino s) (\<lambda>(ino, s).
            let s = brelse bp s in
            if wswap_int16 (s_ninode (bdata s fp)) \<ge> NICINOD then Some s
            else ialloc_scan fp dev (adr + 1) ino s))
      else Some s)"

partial_function (option) ialloc_loop :: "bufp \<Rightarrow> int \<Rightarrow> kernel \<Rightarrow> (nat option \<times> kernel) option" where
  "ialloc_loop fp dev s =
     (let n = wswap_int16 (s_ninode (bdata s fp)) in
      if n > 0 then
        (let s = upd_data fp (set_s_ninode (wswap_int16 (n - 1))) s;
             ino = u16 (wswap_int16 (s_inode (bdata s fp) (nat (n - 1))))
         in if ino < ROOTINO then ialloc_loop fp dev s
            else Option.bind (iget dev ino s) (\<lambda>(r, s).
              case r of
                None \<Rightarrow> Some (None, s)
              | Some ip \<Rightarrow>
                  if i_mode (v7_inode s ip) = 0 then
                    (let s = upd_inode ip (\<lambda>p. p\<lparr>i_addr := (\<lambda>i. if i < NADDR then 0 else i_addr p i)\<rparr>) s;
                         s = (if wswap_int16 (s_tinode (bdata s fp)) \<noteq> 0 then
                                upd_data fp (\<lambda>d. set_s_tinode (wswap_int16 (wswap_int16 (s_tinode d) - 1)) d) s
                              else s)
                     in Some (Some ip, upd_data fp (set_s_fmod 1) s))
                  else Option.bind (iput ip s) (\<lambda>s. ialloc_loop fp dev s)))
      else
        Option.bind (ialloc_scan fp dev (SUPERB + 1) 1 (upd_data fp (\<lambda>d. set_s_ilock (s_ilock d + 1) d) s)) (\<lambda>s.
          let s = upd_data fp (set_s_ilock 0) s in
          if wswap_int16 (s_ninode (bdata s fp)) > 0 then ialloc_loop fp dev s
          else Some (None, upd_data fp (set_s_tinode 0)
                 (set_error ENOSPC (v7_prdev ''Out of inodes'' dev s)))))"

definition ialloc :: "int \<Rightarrow> kernel \<Rightarrow> (nat option \<times> kernel) option" where
  "ialloc dev s = do {
     (fp, s) \<leftarrow> getfs dev s;
     if s_ilock (bdata s fp) \<noteq> 0 then None else ialloc_loop fp dev s }"


section \<open>Sync\<close>

definition update_super :: "nat \<Rightarrow> kernel \<Rightarrow> kernel option" where
  "update_super m s =
     (case m_bufp (v7_mount s m) of
        None \<Rightarrow> Some s
      | Some fp \<Rightarrow>
          if s_fmod (bdata s fp) = 0 \<or> s_ilock (bdata s fp) \<noteq> 0 \<or> s_flock (bdata s fp) \<noteq> 0
             \<or> s_ronly (bdata s fp) \<noteq> 0 then Some s
          else do {
            (bp, s) \<leftarrow> getblk (m_dev (v7_mount s m)) SUPERB s;
            if B_ERROR \<in> bflags s bp then Some s
            else do {
              let s = upd_data fp (set_s_fmod 0) s;
              let s = upd_data fp (set_s_time (wswap_int32 (v7_time s))) s;
              let s = upd_data bp (\<lambda>d. copy_bytes BSIZE 0 d 0 (bdata s fp)) s;
              bwrite bp s } })"

definition update_inode :: "nat \<Rightarrow> kernel \<Rightarrow> kernel option" where
  "update_inode ip s =
     (if ILOCK \<notin> i_flag (v7_inode s ip) \<and> i_count (v7_inode s ip) \<noteq> 0 then do {
        let s = or_iflag ip {ILOCK} s;
        let s = upd_inode ip (\<lambda>p. p\<lparr>i_count := s8 (i_count p + 1)\<rparr>) s;
        s \<leftarrow> iupdat ip Time Time s;
        iput ip s }
      else Some s)"

definition update :: "kernel \<Rightarrow> kernel option" where
  "update s =
     (if v7_updlock s \<noteq> 0 then Some s
      else do {
        let s = s\<lparr>v7_updlock := s16 (v7_updlock s + 1)\<rparr>;
        s \<leftarrow> for_each update_super [0..<NMOUNT] s;
        s \<leftarrow> for_each update_inode [0..<NINODE] s;
        bflush NODEV (s\<lparr>v7_updlock := 0\<rparr>) })"

end
