(* ===== verification/Rdwri.thy ===== *)
theory Rdwri
  imports Inode
begin

text \<open>
  \<open>bmap\<close> of \<open>sys/subr.c\<close>, \<open>readi\<close> and \<open>writei\<close> of \<open>sys/rdwri.c\<close> and \<open>iomove\<close> of
  \<open>v7adapt.c\<close>: from a byte range of a file to transfers between the cache and the caller's
  memory.
\<close>

section \<open>The map from file blocks to disk blocks\<close>

text \<open>
  The loop that finds the level of indirection: the result is \<open>j\<close>, the shift \<open>sh\<close>, and the
  block number relative to the range of that level.
\<close>

fun bmap_level :: "nat \<Rightarrow> nat \<Rightarrow> int \<Rightarrow> int \<Rightarrow> (nat \<times> nat \<times> int) option" where
  "bmap_level 0 sh nb bn = None"
| "bmap_level (Suc j) sh nb bn =
     (let sh = sh + NSHIFT; nb = nb * 2 ^ NSHIFT
      in if bn < nb then Some (Suc j, sh, bn) else bmap_level j sh nb (bn - nb))"

text \<open>
  The loop through the indirect blocks, for the \<open>k\<close> levels that are left: either the value
  \<open>bmap\<close> returns from inside the loop, or the block found with the buffer and the index of
  its address.
\<close>

primrec bmap_indir :: "nat \<Rightarrow> int \<Rightarrow> bool \<Rightarrow> int \<Rightarrow> nat \<Rightarrow> int \<Rightarrow> (bufp \<times> nat) option \<Rightarrow> kernel
    \<Rightarrow> ((int + (int \<times> (bufp \<times> nat) option)) \<times> kernel) option" where
  "bmap_indir 0 dev rd bn sh nb at s = Some (Inr (nb, at), s)"
| "bmap_indir (Suc k) dev rd bn sh nb at s = do {
     (bp, s) \<leftarrow> bread dev nb s;
     if B_ERROR \<in> bflags s bp then Some (Inl 0, brelse bp s)
     else do {
       let sh = sh - NSHIFT;
       let i = nat (bn div 2 ^ sh mod int NINDIR);
       let nb = wswap_int32 (ld32 (bdata s bp) (4 * i));
       if nb = 0 then
         (if rd then Some (Inl (- 1), brelse bp s)
          else do {
            (r, s) \<leftarrow> alloc dev s;
            case r of
              None \<Rightarrow> Some (Inl (- 1), brelse bp s)
            | Some nbp \<Rightarrow> do {
                let nb = b_blkno (v7_buf s nbp);
                s \<leftarrow> bdwrite nbp s;
                let s = upd_data bp (st32 (4 * i) (wswap_int32 nb)) s;
                s \<leftarrow> bdwrite bp s;
                bmap_indir k dev rd bn sh nb (Some (bp, i)) s } })
       else bmap_indir k dev rd bn sh nb (Some (bp, i)) (brelse bp s) } }"

text \<open>
  The address in slot \<open>i\<close> of the inode, with a block allocated where there is none;
  \<open>None\<close> stands for the return of \<open>-1\<close>.
\<close>

definition bmap_slot :: "nat \<Rightarrow> nat \<Rightarrow> int \<Rightarrow> bool \<Rightarrow> kernel \<Rightarrow> (int option \<times> kernel) option" where
  "bmap_slot ip i dev rd s =
     (let nb = i_addr (v7_inode s ip) i in
      if nb \<noteq> 0 then Some (Some nb, s)
      else if rd then Some (None, s)
      else do {
        (r, s) \<leftarrow> alloc dev s;
        case r of
          None \<Rightarrow> Some (None, s)
        | Some bp \<Rightarrow> do {
            let nb = b_blkno (v7_buf s bp);
            s \<leftarrow> bdwrite bp s;
            let s = upd_inode ip (\<lambda>p. p\<lparr>i_addr := (i_addr p)(i := nb)\<rparr>) s;
            Some (Some nb, or_iflag ip {IUPD, ICHG} s) } })"

definition bmap :: "nat \<Rightarrow> int \<Rightarrow> bool \<Rightarrow> kernel \<Rightarrow> (int \<times> kernel) option" where
  "bmap ip bn rd s =
     (if bn < 0 then Some (0, set_error EFBIG s)
      else
        let dev = i_dev (v7_inode s ip); s = s\<lparr>v7_rablock := 0\<rparr> in
        if bn < int (NADDR - 3) then do {
          let i = nat bn;
          (r, s) \<leftarrow> bmap_slot ip i dev rd s;
          case r of
            None \<Rightarrow> Some (- 1, s)
          | Some nb \<Rightarrow> Some (nb, if i < NADDR - 4
                then s\<lparr>v7_rablock := i_addr (v7_inode s ip) (i + 1)\<rparr> else s) }
        else
          case bmap_level 3 0 1 (bn - int (NADDR - 3)) of
            None \<Rightarrow> Some (0, set_error EFBIG s)
          | Some (j, sh, bn) \<Rightarrow> do {
              (r, s) \<leftarrow> bmap_slot ip (NADDR - j) dev rd s;
              case r of
                None \<Rightarrow> Some (- 1, s)
              | Some nb \<Rightarrow> do {
                  (q, s) \<leftarrow> bmap_indir (4 - j) dev rd bn sh nb None s;
                  case q of
                    Inl v \<Rightarrow> Some (v, s)
                  | Inr (nb, at) \<Rightarrow> Some (nb, case at of
                        Some (bp, i) \<Rightarrow> if i < NINDIR - 1
                          then s\<lparr>v7_rablock := wswap_int32 (ld32 (bdata s bp) (4 * (i + 1)))\<rparr> else s
                      | None \<Rightarrow> s) } })"


section \<open>Moving bytes\<close>

text \<open>\<open>v7_min\<close> and \<open>v7_max\<close>: unsigned 16-bit arguments, a signed result.\<close>

definition v7_max :: "int \<Rightarrow> int \<Rightarrow> int" where
  "v7_max a b = (if u16 a > u16 b then s16 a else s16 b)"

definition v7_min :: "int \<Rightarrow> int \<Rightarrow> int" where
  "v7_min a b = (if u16 a < u16 b then s16 a else s16 b)"

text \<open>The memory that \<open>u_base\<close> points into, and the step of the pointer.\<close>

definition ubase_get :: "kernel \<Rightarrow> block \<times> nat" where
  "ubase_get s = (case u_base (v7_u s) of
       Umem a \<Rightarrow> (h_umem (host s), a) | Udent a \<Rightarrow> (u_dent (v7_u s), a)
     | Ulocal a \<Rightarrow> (h_local (host s), a))"

definition ubase_put :: "block \<Rightarrow> kernel \<Rightarrow> kernel" where
  "ubase_put d s = (case u_base (v7_u s) of
       Umem a \<Rightarrow> s\<lparr>host := (host s)\<lparr>h_umem := d\<rparr>\<rparr>
     | Udent a \<Rightarrow> upd_u (\<lambda>u. u\<lparr>u_dent := d\<rparr>) s
     | Ulocal a \<Rightarrow> s\<lparr>host := (host s)\<lparr>h_local := d\<rparr>\<rparr>)"

definition ubase_add :: "nat \<Rightarrow> ubase \<Rightarrow> ubase" where
  "ubase_add n b = (case b of Umem a \<Rightarrow> Umem (a + n) | Udent a \<Rightarrow> Udent (a + n)
     | Ulocal a \<Rightarrow> Ulocal (a + n))"

definition iomove :: "bufp \<Rightarrow> nat \<Rightarrow> nat \<Rightarrow> bool \<Rightarrow> kernel \<Rightarrow> kernel" where
  "iomove bp on n rd s =
     (let (m, a) = ubase_get s;
          s = (if rd then ubase_put (copy_bytes n a m on (bdata s bp)) s
               else upd_data bp (\<lambda>d. copy_bytes n on d a m) s)
      in upd_u (\<lambda>u. u\<lparr>u_base := ubase_add n (u_base u), u_offset := s32 (u_offset u + int n),
                      u_count := u16 (u_count u - int n)\<rparr>) s)"


section \<open>Reading and writing a file\<close>

text \<open>
  The head of the loop of \<open>readi\<close>: the length of the transfer, the disk block and the device,
  or \<open>None\<close> where the function returns.
\<close>

definition readi_map :: "nat \<Rightarrow> int \<Rightarrow> int \<Rightarrow> kernel \<Rightarrow> ((int \<times> int \<times> int) option \<times> kernel) option" where
  "readi_map ip dev type s =
     (let off = u_offset (v7_u s);
          bn = off div int BSIZE;
          n = v7_min (int BSIZE - off mod int BSIZE) (u_count (v7_u s))
      in if type \<noteq> IFBLK \<and> type \<noteq> IFMPB then
           (let diff = s32 (i_size (v7_inode s ip) - off) in
            if diff \<le> 0 then Some (None, s)
            else do {
              let n = (if diff < n then s16 diff else n);
              (bn, s) \<leftarrow> bmap ip bn True s;
              if uerror s \<noteq> 0 then Some (None, s)
              else Some (Some (n, bn, i_dev (v7_inode s ip)), s) })
         else Some (Some (n, bn, dev), s\<lparr>v7_rablock := s32 (bn + 1)\<rparr>))"

definition readi_buf :: "nat \<Rightarrow> int \<Rightarrow> int \<Rightarrow> int \<Rightarrow> kernel \<Rightarrow> (bufp \<times> kernel) option" where
  "readi_buf ip dev lbn bn s =
     (if bn < 0 then do { (bp, s) \<leftarrow> geteblk s; Some (bp, clrbuf bp s) }
      else if s32 (i_lastr (v7_inode s ip) + 1) = lbn then breada dev bn (v7_rablock s) s
      else bread dev bn s)"

partial_function (option) readi_loop :: "nat \<Rightarrow> int \<Rightarrow> int \<Rightarrow> kernel \<Rightarrow> kernel option" where
  "readi_loop ip dev type s =
     (let off = u_offset (v7_u s); lbn = off div int BSIZE; on = nat (off mod int BSIZE) in
      Option.bind (readi_map ip dev type s) (\<lambda>(r, s).
        case r of
          None \<Rightarrow> Some s
        | Some (n, bn, dev) \<Rightarrow>
            Option.bind (readi_buf ip dev lbn bn s) (\<lambda>(bp, s).
              let s = upd_inode ip (\<lambda>p. p\<lparr>i_lastr := lbn\<rparr>) s;
                  n = v7_min n (int BSIZE - b_resid (v7_buf s bp));
                  s = (if n \<noteq> 0 then iomove bp on (nat n) True s else s);
                  s = brelse bp s
              in if uerror s = 0 \<and> u_count (v7_u s) \<noteq> 0 \<and> n > 0
                 then readi_loop ip dev type s else Some s)))"

definition readi :: "nat \<Rightarrow> kernel \<Rightarrow> kernel option" where
  "readi ip s =
     (if u_count (v7_u s) = 0 then Some s
      else if u_offset (v7_u s) < 0 then Some (set_error EINVAL s)
      else
        let s = or_iflag ip {IACC} s;
            dev = i_rdev (v7_inode s ip);
            type = s16 (i_mode (v7_inode s ip) AND IFMT)
        in if type = IFCHR \<or> type = IFMPC then Some s else readi_loop ip dev type s)"

partial_function (option) writei_loop :: "nat \<Rightarrow> int \<Rightarrow> int \<Rightarrow> kernel \<Rightarrow> kernel option" where
  "writei_loop ip dev type s =
     (let off = u_offset (v7_u s);
          on = off mod int BSIZE;
          n = v7_min (int BSIZE - on) (u_count (v7_u s))
      in Option.bind
        (if type \<noteq> IFBLK \<and> type \<noteq> IFMPB then
           Option.bind (bmap ip (off div int BSIZE) False s) (\<lambda>(bn, s).
             if bn < 0 then Some (None, s) else Some (Some (bn, i_dev (v7_inode s ip)), s))
         else Some (Some (off div int BSIZE, dev), s)) (\<lambda>(r, s).
        case r of
          None \<Rightarrow> Some s
        | Some (bn, dev) \<Rightarrow>
            Option.bind (if n = int BSIZE then getblk dev bn s else bread dev bn s) (\<lambda>(bp, s).
              let s = iomove bp (nat on) (nat n) False s in
              Option.bind (if uerror s \<noteq> 0 then Some (brelse bp s) else bdwrite bp s) (\<lambda>s.
                let s = (if u_offset (v7_u s) > i_size (v7_inode s ip) \<and> (type = IFDIR \<or> type = IFREG)
                         then upd_inode ip (\<lambda>p. p\<lparr>i_size := u_offset (v7_u s)\<rparr>) s else s);
                    s = or_iflag ip {IUPD, ICHG} s
                in if uerror s = 0 \<and> u_count (v7_u s) \<noteq> 0
                   then writei_loop ip dev type s else Some s))))"

text \<open>The driver switch for character devices is empty: a write to one does not return.\<close>

definition writei :: "nat \<Rightarrow> kernel \<Rightarrow> kernel option" where
  "writei ip s =
     (if u_offset (v7_u s) < 0 then Some (set_error EINVAL s)
      else
        let dev = i_rdev (v7_inode s ip);
            type = i_mode (v7_inode s ip) AND IFMT
        in if type = IFCHR \<or> type = IFMPC then None
           else if u_count (v7_u s) = 0 then Some s
           else writei_loop ip dev type s)"

end
