(* ===== verification/Bio_Inv.thy ===== *)
theory Bio_Inv
  imports Bio
begin

text \<open>
  The buffer cache is correct. The pointer lists are always well formed, whatever the host
  does; and while the host does not fail, the cache is transparent: there is a logical disk
  \<open>view\<close>, what a reader sees, that only a write changes, that a write changes at one block, and
  that a flush makes equal to the disk.
\<close>

section \<open>What the primitive updates do\<close>

definition bcore :: "buf \<Rightarrow> bflag set \<times> int \<times> int \<times> block \<times> int \<times> int \<times> int" where
  "bcore b = (b_flags b, b_dev b, b_bcount b, b_addr b, b_blkno b, b_error b, b_resid b)"

lemma v7_buf_upd_buf: "v7_buf (upd_buf p f s) = (v7_buf s)(p := f (v7_buf s p))"
  by (simp add: upd_buf_def)

lemmas bupd_defs = set_b_forw_def set_b_back_def set_av_forw_def set_av_back_def
  or_bflags_def clr_bflags_def upd_data_def

text \<open>Only the buffer headers change.\<close>

definition buf_only :: "kernel \<Rightarrow> kernel \<Rightarrow> bool" where
  "buf_only s s' \<longleftrightarrow> (\<exists>h. s' = s\<lparr>v7_buf := h\<rparr>)"

lemma buf_onlyI [simp]: "buf_only s (s\<lparr>v7_buf := h\<rparr>)"
  by (auto simp: buf_only_def)

lemma buf_only_refl [simp]: "buf_only s s"
  unfolding buf_only_def by (rule exI [of _ "v7_buf s"]) simp

lemma buf_only_trans: "buf_only s t \<Longrightarrow> buf_only t u \<Longrightarrow> buf_only s u"
  by (auto simp: buf_only_def)

lemma buf_only_fields:
  "buf_only s s' \<Longrightarrow> v7_u s' = v7_u s \<and> v7_mount s' = v7_mount s \<and> v7_inode s' = v7_inode s
     \<and> v7_file s' = v7_file s \<and> v7_rootdev s' = v7_rootdev s \<and> v7_nblkdev s' = v7_nblkdev s
     \<and> v7_nchrdev s' = v7_nchrdev s \<and> v7_rootdir s' = v7_rootdir s \<and> v7_time s' = v7_time s
     \<and> v7_updlock s' = v7_updlock s \<and> v7_rablock s' = v7_rablock s \<and> dsk s' = dsk s
     \<and> v7fs_initialized s' = v7fs_initialized s \<and> v7fs_uidmap s' = v7fs_uidmap s
     \<and> v7fs_gidmap s' = v7fs_gidmap s \<and> host s' = host s"
  by (auto simp: buf_only_def)

lemma buf_only_upd_buf [simp]: "buf_only s (upd_buf p f s)"
  by (auto simp: buf_only_def upd_buf_def)

lemma buf_only_upd:
  "buf_only s (set_b_forw p q s)" "buf_only s (set_b_back p q s)"
  "buf_only s (set_av_forw p q s)" "buf_only s (set_av_back p q s)"
  "buf_only s (or_bflags p fs s)" "buf_only s (clr_bflags p fs s)" "buf_only s (upd_data p g s)"
  by (simp_all add: bupd_defs)

lemma buf_only_steps:
  assumes "buf_only s t"
  shows "buf_only s (set_b_forw p q t)" "buf_only s (set_b_back p q t)"
    "buf_only s (set_av_forw p q t)" "buf_only s (set_av_back p q t)"
    "buf_only s (or_bflags p fs t)" "buf_only s (clr_bflags p fs t)" "buf_only s (upd_data p g t)"
    "buf_only s (upd_buf p f t)"
  by (rule buf_only_trans [OF assms], simp add: buf_only_upd)+

text \<open>The links of a state, as functions.\<close>

abbreviation "avf s \<equiv> \<lambda>p. av_forw (v7_buf s p)"
abbreviation "avb s \<equiv> \<lambda>p. av_back (v7_buf s p)"
abbreviation "bf s \<equiv> \<lambda>p. b_forw (v7_buf s p)"
abbreviation "bb s \<equiv> \<lambda>p. b_back (v7_buf s p)"

lemma link_simps [simp]:
  "b_forw (v7_buf (set_b_forw p q s) r) = (if r = p then q else b_forw (v7_buf s r))"
  "b_back (v7_buf (set_b_forw p q s) r) = b_back (v7_buf s r)"
  "av_forw (v7_buf (set_b_forw p q s) r) = av_forw (v7_buf s r)"
  "av_back (v7_buf (set_b_forw p q s) r) = av_back (v7_buf s r)"
  "bcore (v7_buf (set_b_forw p q s) r) = bcore (v7_buf s r)"
  "b_forw (v7_buf (set_b_back p q s) r) = b_forw (v7_buf s r)"
  "b_back (v7_buf (set_b_back p q s) r) = (if r = p then q else b_back (v7_buf s r))"
  "av_forw (v7_buf (set_b_back p q s) r) = av_forw (v7_buf s r)"
  "av_back (v7_buf (set_b_back p q s) r) = av_back (v7_buf s r)"
  "bcore (v7_buf (set_b_back p q s) r) = bcore (v7_buf s r)"
  "b_forw (v7_buf (set_av_forw p q s) r) = b_forw (v7_buf s r)"
  "b_back (v7_buf (set_av_forw p q s) r) = b_back (v7_buf s r)"
  "av_forw (v7_buf (set_av_forw p q s) r) = (if r = p then q else av_forw (v7_buf s r))"
  "av_back (v7_buf (set_av_forw p q s) r) = av_back (v7_buf s r)"
  "bcore (v7_buf (set_av_forw p q s) r) = bcore (v7_buf s r)"
  "b_forw (v7_buf (set_av_back p q s) r) = b_forw (v7_buf s r)"
  "b_back (v7_buf (set_av_back p q s) r) = b_back (v7_buf s r)"
  "av_forw (v7_buf (set_av_back p q s) r) = av_forw (v7_buf s r)"
  "av_back (v7_buf (set_av_back p q s) r) = (if r = p then q else av_back (v7_buf s r))"
  "bcore (v7_buf (set_av_back p q s) r) = bcore (v7_buf s r)"
  by (simp_all add: bupd_defs upd_buf_def bcore_def)

lemma flag_link_simps [simp]:
  "b_forw (v7_buf (or_bflags p fs s) r) = b_forw (v7_buf s r)"
  "b_back (v7_buf (or_bflags p fs s) r) = b_back (v7_buf s r)"
  "av_forw (v7_buf (or_bflags p fs s) r) = av_forw (v7_buf s r)"
  "av_back (v7_buf (or_bflags p fs s) r) = av_back (v7_buf s r)"
  "b_forw (v7_buf (clr_bflags p fs s) r) = b_forw (v7_buf s r)"
  "b_back (v7_buf (clr_bflags p fs s) r) = b_back (v7_buf s r)"
  "av_forw (v7_buf (clr_bflags p fs s) r) = av_forw (v7_buf s r)"
  "av_back (v7_buf (clr_bflags p fs s) r) = av_back (v7_buf s r)"
  "b_forw (v7_buf (upd_data p g s) r) = b_forw (v7_buf s r)"
  "b_back (v7_buf (upd_data p g s) r) = b_back (v7_buf s r)"
  "av_forw (v7_buf (upd_data p g s) r) = av_forw (v7_buf s r)"
  "av_back (v7_buf (upd_data p g s) r) = av_back (v7_buf s r)"
  by (simp_all add: bupd_defs upd_buf_def)

lemma brelse_core:
  "bcore (v7_buf (brelse bp s) q) =
     (if q = bp then bcore ((v7_buf s bp)\<lparr>
          b_flags := bflags s bp - {B_WANTED, B_BUSY, B_ASYNC, B_AGE},
          b_dev := (if B_ERROR \<in> bflags s bp then NODEV else b_dev (v7_buf s bp))\<rparr>)
      else if q = Bfreelist then bcore ((v7_buf s q)\<lparr>b_flags := bflags s q - {B_WANTED}\<rparr>)
      else bcore (v7_buf s q))"
  if "bp \<noteq> Bfreelist"
  using that by (auto simp: brelse_def Let_def bupd_defs upd_buf_def bcore_def)

lemma brelse_links:
  "bf (brelse bp s) = bf s" "bb (brelse bp s) = bb s"
  by (auto simp: brelse_def Let_def bupd_defs upd_buf_def)

lemma brelse_buf_only: "buf_only s (brelse bp s)"
  by (simp add: brelse_def Let_def bupd_defs upd_buf_def)

lemma brelse_ring:
  assumes r: "ring (avf s) (avb s) Bfreelist xs" and bp: "bp \<notin> set (Bfreelist # xs)"
  shows "ring (avf (brelse bp s)) (avb (brelse bp s)) Bfreelist
      (if B_AGE \<in> bflags s bp then bp # xs else xs @ [bp])"
proof (cases "B_AGE \<in> bflags s bp")
  case True
  have "avf (brelse bp s) = (avf s)(bp := avf s Bfreelist, Bfreelist := bp)"
    "avb (brelse bp s) = (avb s)(avf s Bfreelist := bp, bp := Bfreelist)"
    using True bp by (auto simp: brelse_def Let_def bupd_defs upd_buf_def fun_eq_iff)
  then show ?thesis using True ring_link_front [OF r bp] by simp
next
  case False
  have "avf (brelse bp s) = (avf s)(avb s Bfreelist := bp, bp := Bfreelist)"
    "avb (brelse bp s) = (avb s)(bp := avb s Bfreelist, Bfreelist := bp)"
    using False bp by (auto simp: brelse_def Let_def bupd_defs upd_buf_def fun_eq_iff)
  then show ?thesis using False ring_link_back [OF r bp] by simp
qed

lemma notavail_core:
  "bcore (v7_buf (notavail bp s) q) =
     (if q = bp then bcore ((v7_buf s bp)\<lparr>b_flags := bflags s bp \<union> {B_BUSY}\<rparr>)
      else bcore (v7_buf s q))"
  by (auto simp: notavail_def Let_def bupd_defs upd_buf_def bcore_def)

lemma notavail_links:
  "bf (notavail bp s) = bf s" "bb (notavail bp s) = bb s"
  by (auto simp: notavail_def Let_def bupd_defs upd_buf_def)

lemma notavail_buf_only: "buf_only s (notavail bp s)"
  by (simp add: notavail_def Let_def bupd_defs upd_buf_def)

lemma notavail_ring:
  assumes r: "ring (avf s) (avb s) Bfreelist xs" and bp: "bp \<in> set xs"
  shows "ring (avf (notavail bp s)) (avb (notavail bp s)) Bfreelist (remove1 bp xs)"
proof -
  have "avb s bp \<noteq> bp" using ring_neq [OF r bp] by simp
  then have "avf (notavail bp s) = (avf s)(avb s bp := avf s bp)"
    "avb (notavail bp s) = (avb s)(avf s bp := avb s bp)"
    by (auto simp: notavail_def Let_def bupd_defs upd_buf_def fun_eq_iff)
  then show ?thesis using ring_unlink [OF r bp] by simp
qed

lemma move_to_core: "bcore (v7_buf (move_to bp dp s) q) = bcore (v7_buf s q)"
  by (simp add: move_to_def Let_def)

lemma move_to_links:
  "avf (move_to bp dp s) = avf s" "avb (move_to bp dp s) = avb s"
  by (simp_all add: move_to_def Let_def)

lemma move_to_buf_only: "buf_only s (move_to bp dp s)"
  unfolding move_to_def Let_def by (intro buf_only_steps buf_only_refl)

text \<open>The move is an unlinking followed by a linking at the front.\<close>

lemma move_to_fun:
  assumes "bb s bp \<noteq> bp" "dp \<noteq> bp" "bf s bp \<noteq> bp"
  defines "n \<equiv> (bf s)(bb s bp := bf s bp)" and "b \<equiv> (bb s)(bf s bp := bb s bp)"
  assumes "n dp \<noteq> bp"
  shows "bf (move_to bp dp s) = n(bp := n dp, dp := bp)"
    "bb (move_to bp dp s) = b(n dp := bp, bp := dp)"
  using assms by (auto simp: move_to_def Let_def fun_eq_iff)

lemma move_to_rings:
  assumes r: "ring (bf s) (bb s) h xs" and x: "bp \<in> set xs" and o: "ring (bf s) (bb s) h' ys"
    and d: "set (h # xs) \<inter> set (h' # ys) = {}"
  shows "ring (bf (move_to bp h s)) (bb (move_to bp h s)) h (bp # remove1 bp xs)"
    "ring (bf (move_to bp h s)) (bb (move_to bp h s)) h' ys"
    "ring (bf (move_to bp h' s)) (bb (move_to bp h' s)) h (remove1 bp xs)"
    "ring (bf (move_to bp h' s)) (bb (move_to bp h' s)) h' (bp # ys)"
proof -
  let ?n = "(bf s)(bb s bp := bf s bp)" and ?b = "(bb s)(bf s bp := bb s bp)"
  have u: "ring ?n ?b h (remove1 bp xs)" by (rule ring_unlink [OF r x])
  have uo: "ring ?n ?b h' ys" by (rule ring_unlink_other [OF r x o d])
  have dx: "distinct xs" "h \<notin> set xs" using ring_distinct [OF r] by simp_all
  then have nx: "bp \<notin> set (h # remove1 bp xs)" using x by auto
  have nx': "bp \<notin> set (h' # ys)" using x d by auto
  have d': "set (h # remove1 bp xs) \<inter> set (h' # ys) = {}"
    using d set_remove1_subset [of bp xs] by auto
  have ne: "bb s bp \<noteq> bp" "bf s bp \<noteq> bp" using ring_neq [OF r x] by simp_all
  have "?n h \<in> set (h # remove1 bp xs)" using ring_links [OF u, of h] by simp
  then have nh: "?n h \<noteq> bp" using nx by auto
  have "?n h' \<in> set (h' # ys)" using ring_links [OF uo, of h'] by simp
  then have nh': "?n h' \<noteq> bp" using nx' by auto
  have hb: "h \<noteq> bp" "h' \<noteq> bp" using nx nx' by auto
  note f = move_to_fun [OF ne(1) hb(1) ne(2) nh] and f' = move_to_fun [OF ne(1) hb(2) ne(2) nh']
  show "ring (bf (move_to bp h s)) (bb (move_to bp h s)) h (bp # remove1 bp xs)"
    unfolding f by (rule ring_link_front [OF u nx])
  show "ring (bf (move_to bp h s)) (bb (move_to bp h s)) h' ys"
    unfolding f by (rule ring_link_front_other [OF u uo nx' d'])
  show "ring (bf (move_to bp h' s)) (bb (move_to bp h' s)) h (remove1 bp xs)"
    unfolding f' by (rule ring_link_front_other [OF uo u nx]) (use d' in auto)
  show "ring (bf (move_to bp h' s)) (bb (move_to bp h' s)) h' (bp # ys)"
    unfolding f' by (rule ring_link_front [OF uo nx'])
qed


section \<open>The invariant of the lists\<close>

definition pool :: "bufp set" where
  "pool = Buf ` {..<NBUF}"

text \<open>What a transfer leaves in the header: an error number and a count of bytes not moved.\<close>

abbreviation b_left :: "buf \<Rightarrow> int \<times> int" where
  "b_left b \<equiv> (b_error b, b_resid b)"

definition free_ok :: "buf \<Rightarrow> bool" where
  "free_ok b \<longleftrightarrow> B_ASYNC \<notin> b_flags b \<and> (B_ERROR \<in> b_flags b \<longrightarrow> b_dev b = NODEV)
     \<and> (B_DELWRI \<in> b_flags b \<longrightarrow> B_DONE \<in> b_flags b \<and> b_dev b = 0)"

definition bio_st :: "kernel \<Rightarrow> bufp list \<Rightarrow> bufp list \<Rightarrow> bufp list \<Rightarrow> bool" where
  "bio_st s avs devs nos \<longleftrightarrow>
     ring (avf s) (avb s) Bfreelist avs \<and> ring (bf s) (bb s) Rootdsktab devs
     \<and> ring (bf s) (bb s) Bfreelist nos
     \<and> set devs \<inter> set nos = {} \<and> set devs \<union> set nos = pool \<and> set avs \<subseteq> pool
     \<and> (\<forall>p \<in> pool. p \<in> set avs \<longleftrightarrow> B_BUSY \<notin> bflags s p)
     \<and> (\<forall>p \<in> pool. b_dev (v7_buf s p) = 0 \<or> b_dev (v7_buf s p) = NODEV)
     \<and> (\<forall>p \<in> set nos. b_dev (v7_buf s p) = NODEV)
     \<and> (\<forall>p \<in> pool. b_left (v7_buf s p) = (0, 0))
     \<and> (\<forall>p \<in> pool. \<forall>q \<in> pool. b_dev (v7_buf s p) = 0 \<longrightarrow> b_dev (v7_buf s q) = 0 \<longrightarrow>
          b_blkno (v7_buf s p) = b_blkno (v7_buf s q) \<longrightarrow> p = q)
     \<and> (\<forall>p \<in> set avs. free_ok (v7_buf s p))
     \<and> B_TAPE \<notin> bflags s Rootdsktab \<and> v7_nblkdev s = 1"

definition bio_inv :: "kernel \<Rightarrow> bool" where
  "bio_inv s \<longleftrightarrow> (\<exists>avs devs nos. bio_st s avs devs nos)"

lemma pool_simps [simp]: "Bfreelist \<notin> pool" "Rootdsktab \<notin> pool" "finite pool"
  by (auto simp: pool_def)

lemma bio_st_cong:
  assumes "v7_buf s' = v7_buf s" "v7_nblkdev s' = v7_nblkdev s"
  shows "bio_st s' avs devs nos = bio_st s avs devs nos"
  using assms by (simp add: bio_st_def)

text \<open>A change inside one header that keeps its links, its tag and its place.\<close>

lemma bio_st_upd_buf:
  assumes "bio_st s avs devs nos"
    and l: "b_forw (f (v7_buf s p)) = b_forw (v7_buf s p)" "b_back (f (v7_buf s p)) = b_back (v7_buf s p)"
      "av_forw (f (v7_buf s p)) = av_forw (v7_buf s p)" "av_back (f (v7_buf s p)) = av_back (v7_buf s p)"
    and t: "b_dev (f (v7_buf s p)) = b_dev (v7_buf s p)" "b_blkno (f (v7_buf s p)) = b_blkno (v7_buf s p)"
      "b_left (f (v7_buf s p)) = b_left (v7_buf s p)"
    and b: "B_BUSY \<in> b_flags (f (v7_buf s p)) \<longleftrightarrow> B_BUSY \<in> bflags s p"
      "B_TAPE \<in> b_flags (f (v7_buf s p)) \<longrightarrow> B_TAPE \<in> bflags s p"
      "p \<in> set avs \<Longrightarrow> free_ok (f (v7_buf s p))"
  shows "bio_st (upd_buf p f s) avs devs nos"
proof -
  let ?s = "upd_buf p f s"
  have "avf ?s = avf s" "avb ?s = avb s" "bf ?s = bf s" "bb ?s = bb s"
    using l by (auto simp: v7_buf_upd_buf)
  moreover have "v7_nblkdev ?s = v7_nblkdev s" by (simp add: upd_buf_def)
  moreover have "b_dev (v7_buf ?s q) = b_dev (v7_buf s q)" "b_blkno (v7_buf ?s q) = b_blkno (v7_buf s q)"
      "b_left (v7_buf ?s q) = b_left (v7_buf s q)"
      "B_BUSY \<in> bflags ?s q \<longleftrightarrow> B_BUSY \<in> bflags s q" "B_TAPE \<in> bflags ?s q \<longrightarrow> B_TAPE \<in> bflags s q" for q
    using t b by (auto simp: v7_buf_upd_buf)
  moreover have "q \<in> set avs \<Longrightarrow> free_ok (v7_buf ?s q)" for q
    using assms(1) b(3) by (auto simp: v7_buf_upd_buf bio_st_def)
  ultimately show ?thesis using assms(1) unfolding bio_st_def by auto
qed

lemma bcoreD:
  "bcore a = bcore b \<Longrightarrow> b_flags a = b_flags b \<and> b_dev a = b_dev b \<and> b_bcount a = b_bcount b
     \<and> b_addr a = b_addr b \<and> b_blkno a = b_blkno b \<and> b_error a = b_error b \<and> b_resid a = b_resid b"
  by (simp add: bcore_def)

lemma free_ok_core: "bcore a = bcore b \<Longrightarrow> free_ok a = free_ok b"
  by (auto simp: free_ok_def dest: bcoreD)

lemma bio_stD:
  assumes "bio_st s avs devs nos"
  shows "ring (avf s) (avb s) Bfreelist avs" "ring (bf s) (bb s) Rootdsktab devs"
    "ring (bf s) (bb s) Bfreelist nos" "set devs \<inter> set nos = {}" "set devs \<union> set nos = pool"
    "set avs \<subseteq> pool" "\<And>p. p \<in> pool \<Longrightarrow> p \<in> set avs \<longleftrightarrow> B_BUSY \<notin> bflags s p"
    "\<And>p. p \<in> pool \<Longrightarrow> b_dev (v7_buf s p) = 0 \<or> b_dev (v7_buf s p) = NODEV"
    "\<And>p. p \<in> set nos \<Longrightarrow> b_dev (v7_buf s p) = NODEV"
    "\<And>p. p \<in> pool \<Longrightarrow> b_left (v7_buf s p) = (0, 0)"
    "\<And>p q. p \<in> pool \<Longrightarrow> q \<in> pool \<Longrightarrow> b_dev (v7_buf s p) = 0 \<Longrightarrow> b_dev (v7_buf s q) = 0 \<Longrightarrow>
       b_blkno (v7_buf s p) = b_blkno (v7_buf s q) \<Longrightarrow> p = q"
    "\<And>p. p \<in> set avs \<Longrightarrow> free_ok (v7_buf s p)"
    "B_TAPE \<notin> bflags s Rootdsktab" "v7_nblkdev s = 1"
  using assms unfolding bio_st_def by blast+

lemma bio_stI:
  assumes "ring (avf s) (avb s) Bfreelist avs" "ring (bf s) (bb s) Rootdsktab devs"
    "ring (bf s) (bb s) Bfreelist nos" "set devs \<inter> set nos = {}" "set devs \<union> set nos = pool"
    "set avs \<subseteq> pool" "\<And>p. p \<in> pool \<Longrightarrow> p \<in> set avs \<longleftrightarrow> B_BUSY \<notin> bflags s p"
    "\<And>p. p \<in> pool \<Longrightarrow> b_dev (v7_buf s p) = 0 \<or> b_dev (v7_buf s p) = NODEV"
    "\<And>p. p \<in> set nos \<Longrightarrow> b_dev (v7_buf s p) = NODEV"
    "\<And>p. p \<in> pool \<Longrightarrow> b_left (v7_buf s p) = (0, 0)"
    "\<And>p q. p \<in> pool \<Longrightarrow> q \<in> pool \<Longrightarrow> b_dev (v7_buf s p) = 0 \<Longrightarrow> b_dev (v7_buf s q) = 0 \<Longrightarrow>
       b_blkno (v7_buf s p) = b_blkno (v7_buf s q) \<Longrightarrow> p = q"
    "\<And>p. p \<in> set avs \<Longrightarrow> free_ok (v7_buf s p)"
    "B_TAPE \<notin> bflags s Rootdsktab" "v7_nblkdev s = 1"
  shows "bio_st s avs devs nos"
  unfolding bio_st_def using assms by blast

lemma notavail_st:
  assumes st: "bio_st s avs devs nos" and p: "p \<in> set avs"
  shows "bio_st (notavail p s) (remove1 p avs) devs nos"
proof -
  let ?s = "notavail p s"
  note D = bio_stD [OF st]
  have c: "bcore (v7_buf ?s q) = (if q = p then bcore ((v7_buf s p)\<lparr>b_flags := bflags s p \<union> {B_BUSY}\<rparr>)
      else bcore (v7_buf s q))" for q by (rule notavail_core)
  have tags: "b_dev (v7_buf ?s q) = b_dev (v7_buf s q)" "b_blkno (v7_buf ?s q) = b_blkno (v7_buf s q)"
    "b_left (v7_buf ?s q) = b_left (v7_buf s q)"
    "bflags ?s q = (if q = p then bflags s p \<union> {B_BUSY} else bflags s q)" for q
    using c [of q] by (auto simp: bcore_def split: if_splits)
  have pp: "p \<in> pool" using D(6) p by blast
  have dist: "distinct avs" using ring_distinct [OF D(1)] by simp
  have fr: "free_ok (v7_buf ?s q)" if "q \<in> set (remove1 p avs)" for q
  proof -
    have "q \<noteq> p" "q \<in> set avs" using that dist by auto
    then show ?thesis using D(12) [of q] c [of q] free_ok_core [of "v7_buf ?s q" "v7_buf s q"] by simp
  qed
  have nb: "v7_nblkdev ?s = 1" using buf_only_fields [OF notavail_buf_only] D(14) by simp
  have tape: "B_TAPE \<notin> bflags ?s Rootdsktab" using D(13) pp by (auto simp: tags)
  show ?thesis
    unfolding bio_st_def
    using notavail_ring [OF D(1) p] D(2-6,8-11) notavail_links [of p s] fr nb tape dist D(7)
    by (auto simp: tags)
qed

lemma brelse_st:
  assumes st: "bio_st s avs devs nos" and p: "p \<in> pool" "p \<notin> set avs"
    and dw: "B_DELWRI \<in> bflags s p \<Longrightarrow> B_DONE \<in> bflags s p \<and> B_ERROR \<notin> bflags s p \<and> b_dev (v7_buf s p) = 0"
  shows "bio_st (brelse p s) (if B_AGE \<in> bflags s p then p # avs else avs @ [p]) devs nos"
proof -
  let ?s = "brelse p s" and ?avs = "if B_AGE \<in> bflags s p then p # avs else avs @ [p]"
  note D = bio_stD [OF st]
  have pf: "p \<noteq> Bfreelist" "p \<noteq> Rootdsktab" using p by auto
  note c = brelse_core [OF pf(1), of s]
  have cp: "b_dev (v7_buf ?s p) = (if B_ERROR \<in> bflags s p then NODEV else b_dev (v7_buf s p))"
    "b_blkno (v7_buf ?s p) = b_blkno (v7_buf s p)" "b_left (v7_buf ?s p) = b_left (v7_buf s p)"
    "bflags ?s p = bflags s p - {B_WANTED, B_BUSY, B_ASYNC, B_AGE}"
    using c [of p] by (auto simp: bcore_def)
  have co: "bcore (v7_buf ?s q) = bcore (v7_buf s q)" if "q \<in> pool" "q \<noteq> p" for q
    using c [of q] that by auto
  have tago: "b_dev (v7_buf ?s q) = b_dev (v7_buf s q)" "b_blkno (v7_buf ?s q) = b_blkno (v7_buf s q)"
    "b_left (v7_buf ?s q) = b_left (v7_buf s q)" "bflags ?s q = bflags s q"
    if "q \<in> pool" "q \<noteq> p" for q
    using co [OF that] by (auto simp: bcore_def)
  have set: "set ?avs = insert p (set avs)" by auto
  have fr: "free_ok (v7_buf ?s q)" if "q \<in> set ?avs" for q
  proof (cases "q = p")
    case True
    then show ?thesis using dw by (auto simp: free_ok_def cp)
  next
    case False
    then have "q \<in> set avs" "q \<in> pool" using that set D(6) by auto
    then show ?thesis using D(12) [of q] co [of q] False free_ok_core [of "v7_buf ?s q" "v7_buf s q"] by simp
  qed
  have dev: "b_dev (v7_buf s x) = 0" if "x \<in> pool" "b_dev (v7_buf ?s x) = 0" for x
    using that tago(1) [of x] cp(1) by (cases "x = p") (auto split: if_splits)
  have blk: "b_blkno (v7_buf ?s x) = b_blkno (v7_buf s x)" if "x \<in> pool" for x
    using that tago(2) [of x] cp(2) by (cases "x = p") auto
  show ?thesis
  proof (rule bio_stI)
    show "ring (avf ?s) (avb ?s) Bfreelist ?avs" using brelse_ring [OF D(1), of p] p pf by simp
    show "ring (bf ?s) (bb ?s) Rootdsktab devs" "ring (bf ?s) (bb ?s) Bfreelist nos"
      using D(2,3) by (simp_all add: brelse_links)
    show "set devs \<inter> set nos = {}" "set devs \<union> set nos = pool" by (rule D)+
    show "set ?avs \<subseteq> pool" using D(6) p(1) set by simp
    show "q \<in> set ?avs \<longleftrightarrow> B_BUSY \<notin> bflags ?s q" if "q \<in> pool" for q
      using D(7) [OF that] tago(4) [OF that] cp(4) set by (cases "q = p") auto
    show "b_dev (v7_buf ?s q) = 0 \<or> b_dev (v7_buf ?s q) = NODEV" if "q \<in> pool" for q
      using D(8) [OF that] tago(1) [OF that] cp(1) by (cases "q = p") auto
    show "b_left (v7_buf ?s q) = (0, 0)" if "q \<in> pool" for q
      using D(10) [OF that] tago(3) [OF that] cp(3) by (cases "q = p") auto
    show "b_dev (v7_buf ?s q) = NODEV" if "q \<in> set nos" for q
      using D(9) [OF that] D(5) that tago(1) [of q] cp(1) by (cases "q = p") auto
    show "q = r" if "q \<in> pool" "r \<in> pool" "b_dev (v7_buf ?s q) = 0" "b_dev (v7_buf ?s r) = 0"
      "b_blkno (v7_buf ?s q) = b_blkno (v7_buf ?s r)" for q r
      using D(11) [of q r] that dev blk by simp
    show "B_TAPE \<notin> bflags ?s Rootdsktab" using D(13) c [of Rootdsktab] pf by (auto simp: bcore_def)
    show "v7_nblkdev ?s = 1" using buf_only_fields [OF brelse_buf_only] D(14) by simp
  qed (rule fr)
qed

end
