(* ===== verification/Bio_Spec.thy ===== *)
theory Bio_Spec
  imports Bio_Inv
begin

text \<open>
  What the buffer cache promises. The lists stay well formed, the loops end while a buffer is
  available, and the cache is transparent: \<open>view\<close> is the disk as a reader of the cache sees it.
\<close>

section \<open>Searching and assigning\<close>

lemma dev_find_path:
  assumes "path (\<lambda>x. b_forw (h x)) b p xs q" "q \<notin> set xs"
  shows "dev_find h q (b_forw (h p)) dev blk
      = Some (find (\<lambda>x. b_blkno (h x) = blk \<and> b_dev (h x) = dev) xs)"
  using assms
proof (induction xs arbitrary: p)
  case Nil
  then show ?case by (simp add: dev_find.simps)
next
  case (Cons x xs)
  then have "b_forw (h p) = x" "x \<noteq> q" "dev_find h q (b_forw (h x)) dev blk
      = Some (find (\<lambda>x. b_blkno (h x) = blk \<and> b_dev (h x) = dev) xs)" by auto
  then show ?case by (simp add: dev_find.simps [of h q x])
qed

lemma find_unique:
  assumes "P x" "x \<in> set xs" "\<And>y. y \<in> set xs \<Longrightarrow> P y \<Longrightarrow> y = x"
  shows "find P xs = Some x"
proof (cases "find P xs")
  case None
  then show ?thesis using assms(1,2) by (auto simp: find_None_iff)
next
  case (Some y)
  then have "P y" "y \<in> set xs" by (auto simp: find_Some_iff)
  then show ?thesis using Some assms(3) by simp
qed

text \<open>The buffer assigned to a block of the root device, if there is one.\<close>

definition cached :: "kernel \<Rightarrow> int \<Rightarrow> bufp option" where
  "cached s b = find (\<lambda>p. b_dev (v7_buf s p) = 0 \<and> b_blkno (v7_buf s p) = b) (map Buf [0..<NBUF])"

lemma pool_list: "set (map Buf [0..<NBUF]) = pool"
  by (auto simp: pool_def)

lemma cached_Some:
  assumes "bio_st s avs devs nos"
  shows "cached s b = Some p \<longleftrightarrow> p \<in> pool \<and> b_dev (v7_buf s p) = 0 \<and> b_blkno (v7_buf s p) = b"
proof
  assume "cached s b = Some p"
  then show "p \<in> pool \<and> b_dev (v7_buf s p) = 0 \<and> b_blkno (v7_buf s p) = b"
    unfolding cached_def find_Some_iff using pool_list by (auto simp: in_set_conv_nth pool_def)
next
  assume p: "p \<in> pool \<and> b_dev (v7_buf s p) = 0 \<and> b_blkno (v7_buf s p) = b"
  show "cached s b = Some p"
    unfolding cached_def
  proof (rule find_unique)
    show "p \<in> set (map Buf [0..<NBUF])" using p unfolding pool_list by simp
    show "q = p" if "q \<in> set (map Buf [0..<NBUF])" "b_dev (v7_buf s q) = 0 \<and> b_blkno (v7_buf s q) = b" for q
      using that p bio_stD(11) [OF assms, of q p] unfolding pool_list by simp
  qed (use p in simp)
qed

lemma cached_None:
  "cached s b = None \<longleftrightarrow> (\<forall>p \<in> pool. \<not> (b_dev (v7_buf s p) = 0 \<and> b_blkno (v7_buf s p) = b))"
  unfolding cached_def find_None_iff pool_list by auto

lemma dev_find_cached:
  assumes st: "bio_st s avs devs nos"
  shows "dev_find (v7_buf s) Rootdsktab (b_forw (v7_buf s Rootdsktab)) 0 b = Some (cached s b)"
proof -
  note D = bio_stD [OF st]
  have "dev_find (v7_buf s) Rootdsktab (b_forw (v7_buf s Rootdsktab)) 0 b
      = Some (find (\<lambda>x. b_blkno (v7_buf s x) = b \<and> b_dev (v7_buf s x) = 0) devs)"
    using D(2) by (intro dev_find_path [where b = "bb s"]) (auto simp: ring_def)
  also have "find (\<lambda>x. b_blkno (v7_buf s x) = b \<and> b_dev (v7_buf s x) = 0) devs = cached s b"
  proof (cases "cached s b")
    case None
    then have "\<forall>p \<in> pool. \<not> (b_dev (v7_buf s p) = 0 \<and> b_blkno (v7_buf s p) = b)" by (simp add: cached_None)
    then show ?thesis unfolding None find_None_iff using D(5) by auto
  next
    case (Some p)
    then have p: "p \<in> pool" "b_dev (v7_buf s p) = 0" "b_blkno (v7_buf s p) = b"
      using cached_Some [OF st] by auto
    then have "p \<in> set devs" using D(5,9) by fastforce
    then show ?thesis unfolding Some
      by (intro find_unique) (use p D(5,11) in auto)
  qed
  finally show ?thesis .
qed

text \<open>Giving a buffer to another block, or to none.\<close>

definition assign :: "bufp \<Rightarrow> int \<Rightarrow> kernel \<Rightarrow> kernel" where
  "assign p b s = upd_buf p (\<lambda>c. c\<lparr>b_dev := 0, b_blkno := b\<rparr>)
     (move_to p Rootdsktab (upd_buf p (\<lambda>c. c\<lparr>b_flags := {B_BUSY}\<rparr>) s))"

definition unassign :: "bufp \<Rightarrow> kernel \<Rightarrow> kernel" where
  "unassign p s = upd_buf p (\<lambda>c. c\<lparr>b_dev := NODEV\<rparr>)
     (move_to p Bfreelist (upd_buf p (\<lambda>c. c\<lparr>b_flags := {B_BUSY}\<rparr>) s))"

lemma bcore_upd_buf:
  "bcore (v7_buf (upd_buf p f s) q) = (if q = p then bcore (f (v7_buf s p)) else bcore (v7_buf s q))"
  by (simp add: v7_buf_upd_buf)

lemma bcore_retag:
  "bcore c = bcore d \<Longrightarrow> bcore (c\<lparr>b_dev := v, b_blkno := n\<rparr>) = bcore (d\<lparr>b_dev := v, b_blkno := n\<rparr>)"
  "bcore c = bcore d \<Longrightarrow> bcore (c\<lparr>b_dev := v\<rparr>) = bcore (d\<lparr>b_dev := v\<rparr>)"
  by (simp_all add: bcore_def)

lemma assign_core:
  "bcore (v7_buf (assign p b s) q) =
     (if q = p then bcore ((v7_buf s p)\<lparr>b_flags := {B_BUSY}, b_dev := 0, b_blkno := b\<rparr>)
      else bcore (v7_buf s q))"
  unfolding assign_def bcore_upd_buf
  using bcore_retag(1) [OF move_to_core [of p Rootdsktab "upd_buf p (\<lambda>c. c\<lparr>b_flags := {B_BUSY}\<rparr>) s" p]]
  by (simp add: move_to_core v7_buf_upd_buf)

lemma unassign_core:
  "bcore (v7_buf (unassign p s) q) =
     (if q = p then bcore ((v7_buf s p)\<lparr>b_flags := {B_BUSY}, b_dev := NODEV\<rparr>)
      else bcore (v7_buf s q))"
  unfolding unassign_def bcore_upd_buf
  using bcore_retag(2) [OF move_to_core [of p Bfreelist "upd_buf p (\<lambda>c. c\<lparr>b_flags := {B_BUSY}\<rparr>) s" p]]
  by (simp add: move_to_core v7_buf_upd_buf)

lemma assign_fields:
  "b_dev (v7_buf (assign p b s) p) = 0" "b_blkno (v7_buf (assign p b s) p) = b"
  "b_left (v7_buf (assign p b s) p) = b_left (v7_buf s p)" "bflags (assign p b s) p = {B_BUSY}"
  using assign_core [of p b s p] by (simp_all add: bcore_def)

lemma unassign_fields:
  "b_dev (v7_buf (unassign p s) p) = NODEV"
  "b_left (v7_buf (unassign p s) p) = b_left (v7_buf s p)" "bflags (unassign p s) p = {B_BUSY}"
  using unassign_core [of p s p] by (simp_all add: bcore_def)

lemma assign_buf_only: "buf_only s (assign p b s)" "buf_only s (unassign p s)"
  unfolding assign_def unassign_def
  by (rule buf_only_trans [OF buf_only_trans [OF buf_only_upd_buf move_to_buf_only] buf_only_upd_buf])+

lemma upd_buf_links:
  assumes "\<And>c. b_forw (f c) = b_forw c" "\<And>c. b_back (f c) = b_back c"
    "\<And>c. av_forw (f c) = av_forw c" "\<And>c. av_back (f c) = av_back c"
  shows "bf (upd_buf p f s) = bf s" "bb (upd_buf p f s) = bb s"
    "avf (upd_buf p f s) = avf s" "avb (upd_buf p f s) = avb s"
  using assms by (auto simp: v7_buf_upd_buf fun_eq_iff)

lemma assign_av: "avf (assign p b s) = avf s" "avb (assign p b s) = avb s"
  "avf (unassign p s) = avf s" "avb (unassign p s) = avb s"
  unfolding assign_def unassign_def by (simp_all add: upd_buf_links move_to_links)

lemma reassign_rings:
  assumes st: "bio_st s avs devs nos" and p: "p \<in> pool"
  shows "ring (bf (assign p b s)) (bb (assign p b s)) Rootdsktab (p # remove1 p devs)"
    "ring (bf (assign p b s)) (bb (assign p b s)) Bfreelist (remove1 p nos)"
    "ring (bf (unassign p s)) (bb (unassign p s)) Rootdsktab (remove1 p devs)"
    "ring (bf (unassign p s)) (bb (unassign p s)) Bfreelist (p # remove1 p nos)"
proof -
  let ?s = "upd_buf p (\<lambda>c. c\<lparr>b_flags := {B_BUSY}\<rparr>) s"
  note D = bio_stD [OF st]
  have R: "ring (bf ?s) (bb ?s) Rootdsktab devs" "ring (bf ?s) (bb ?s) Bfreelist nos"
    using D(2,3) by (simp_all add: upd_buf_links)
  have "Bfreelist \<notin> set devs \<union> set nos" "Rootdsktab \<notin> set devs \<union> set nos" unfolding D(5) by simp_all
  then have d: "set (Rootdsktab # devs) \<inter> set (Bfreelist # nos) = {}"
    "set (Bfreelist # nos) \<inter> set (Rootdsktab # devs) = {}"
    using D(4) by auto
  have f: "bf (assign p b s) = bf (move_to p Rootdsktab ?s)" "bb (assign p b s) = bb (move_to p Rootdsktab ?s)"
    "bf (unassign p s) = bf (move_to p Bfreelist ?s)" "bb (unassign p s) = bb (move_to p Bfreelist ?s)"
    unfolding assign_def unassign_def by (simp_all add: upd_buf_links)
  let ?A = "move_to p Rootdsktab ?s" and ?B = "move_to p Bfreelist ?s"
  have "ring (bf ?A) (bb ?A) Rootdsktab (p # remove1 p devs) \<and> ring (bf ?A) (bb ?A) Bfreelist (remove1 p nos)
    \<and> ring (bf ?B) (bb ?B) Rootdsktab (remove1 p devs) \<and> ring (bf ?B) (bb ?B) Bfreelist (p # remove1 p nos)"
  proof (cases "p \<in> set devs")
    case True
    then have "p \<notin> set nos" using D(4) by auto
    then show ?thesis using move_to_rings [OF R(1) True R(2) d(1)] by (simp add: remove1_idem)
  next
    case False
    then have n: "p \<in> set nos" using D(5) p by auto
    then show ?thesis using move_to_rings [OF R(2) n R(1) d(2)] False by (simp add: remove1_idem)
  qed
  then show "ring (bf (assign p b s)) (bb (assign p b s)) Rootdsktab (p # remove1 p devs)"
    "ring (bf (assign p b s)) (bb (assign p b s)) Bfreelist (remove1 p nos)"
    "ring (bf (unassign p s)) (bb (unassign p s)) Rootdsktab (remove1 p devs)"
    "ring (bf (unassign p s)) (bb (unassign p s)) Bfreelist (p # remove1 p nos)"
    unfolding f by simp_all
qed

text \<open>A change of the tag of a busy buffer that keeps the tags distinct.\<close>

lemma reassign_st:
  assumes st: "bio_st s avs devs nos" and p: "p \<in> pool" "p \<notin> set avs"
  shows "(\<And>q. q \<in> pool \<Longrightarrow> \<not> (b_dev (v7_buf s q) = 0 \<and> b_blkno (v7_buf s q) = b)) \<Longrightarrow>
      bio_st (assign p b s) avs (p # remove1 p devs) (remove1 p nos)"
    "bio_st (unassign p s) avs (remove1 p devs) (p # remove1 p nos)"
proof -
  note D = bio_stD [OF st]
  have pf: "p \<noteq> Rootdsktab" "p \<noteq> Bfreelist" using p by auto
  have di: "distinct devs" "distinct nos" using ring_distinct [OF D(2)] ring_distinct [OF D(3)] by simp_all
  have sets: "set (remove1 p devs) = set devs - {p}" "set (remove1 p nos) = set nos - {p}"
    using di by simp_all
  have other: "b_dev (v7_buf t q) = b_dev (v7_buf s q)" "b_blkno (v7_buf t q) = b_blkno (v7_buf s q)"
    "b_left (v7_buf t q) = b_left (v7_buf s q)" "bflags t q = bflags s q" "free_ok (v7_buf t q) = free_ok (v7_buf s q)"
    if "q \<noteq> p" "t = assign p b s \<or> t = unassign p s" for q t
  proof -
    have c: "bcore (v7_buf t q) = bcore (v7_buf s q)"
      using that assign_core [of p b s q] unassign_core [of p s q] by auto
    show "b_dev (v7_buf t q) = b_dev (v7_buf s q)" "b_blkno (v7_buf t q) = b_blkno (v7_buf s q)"
      "b_left (v7_buf t q) = b_left (v7_buf s q)" "bflags t q = bflags s q"
      "free_ok (v7_buf t q) = free_ok (v7_buf s q)"
      using bcoreD [OF c] free_ok_core [OF c] by simp_all
  qed
  have pa: "b_dev (v7_buf (assign p b s) p) = 0" "b_blkno (v7_buf (assign p b s) p) = b"
    "b_left (v7_buf (assign p b s) p) = (0, 0)" "bflags (assign p b s) p = {B_BUSY}"
    by (simp_all only: assign_fields D(10) [OF p(1)])
  have pu: "b_dev (v7_buf (unassign p s) p) = NODEV" "b_left (v7_buf (unassign p s) p) = (0, 0)"
    "bflags (unassign p s) p = {B_BUSY}"
    by (simp_all only: unassign_fields D(10) [OF p(1)])
  note rings = reassign_rings [OF st p(1)]
  show "bio_st (assign p b s) avs (p # remove1 p devs) (remove1 p nos)" (is "bio_st ?t _ _ _")
    if new: "\<And>q. q \<in> pool \<Longrightarrow> \<not> (b_dev (v7_buf s q) = 0 \<and> b_blkno (v7_buf s q) = b)"
  proof (rule bio_stI)
    show "ring (avf ?t) (avb ?t) Bfreelist avs" using D(1) by (simp add: assign_av)
    show "set (p # remove1 p devs) \<inter> set (remove1 p nos) = {}" using sets D(4) by auto
    show "set (p # remove1 p devs) \<union> set (remove1 p nos) = pool" using sets D(5) p(1) by auto
    show "q \<in> set avs \<longleftrightarrow> B_BUSY \<notin> bflags ?t q" if "q \<in> pool" for q
      using D(7) [OF that] p(2) pa(4) other(4) [of q ?t] by (cases "q = p") auto
    show "b_dev (v7_buf ?t q) = 0 \<or> b_dev (v7_buf ?t q) = NODEV" if "q \<in> pool" for q
      using D(8) [OF that] pa(1) other(1) [of q ?t] by (cases "q = p") auto
    show "b_dev (v7_buf ?t q) = NODEV" if "q \<in> set (remove1 p nos)" for q
      using D(9) [of q] other(1) [of q ?t] that sets by auto
    show "b_left (v7_buf ?t q) = (0, 0)" if "q \<in> pool" for q
      using D(10) [OF that] pa(3) other(3) [of q ?t] by (cases "q = p") auto
    show "q = r" if "q \<in> pool" "r \<in> pool" "b_dev (v7_buf ?t q) = 0" "b_dev (v7_buf ?t r) = 0"
      "b_blkno (v7_buf ?t q) = b_blkno (v7_buf ?t r)" for q r
      using that D(11) [of q r] new [of q] new [of r] by (metis pa(2) other(1,2))
    show "free_ok (v7_buf ?t q)" if "q \<in> set avs" for q
      using D(12) [OF that] other(5) [of q ?t] that p(2) by (cases "q = p") auto
    show "B_TAPE \<notin> bflags ?t Rootdsktab" using D(13) other(4) [of Rootdsktab ?t] pf by simp
    show "v7_nblkdev ?t = 1" using buf_only_fields [OF assign_buf_only(1)] D(14) by simp
  qed (use rings D(6) in simp_all)
  show "bio_st (unassign p s) avs (remove1 p devs) (p # remove1 p nos)" (is "bio_st ?t _ _ _")
  proof (rule bio_stI)
    show "ring (avf ?t) (avb ?t) Bfreelist avs" using D(1) by (simp add: assign_av)
    show "set (remove1 p devs) \<inter> set (p # remove1 p nos) = {}" using sets D(4) by auto
    show "set (remove1 p devs) \<union> set (p # remove1 p nos) = pool" using sets D(5) p(1) by auto
    show "q \<in> set avs \<longleftrightarrow> B_BUSY \<notin> bflags ?t q" if "q \<in> pool" for q
      using D(7) [OF that] p(2) pu(3) other(4) [of q ?t] by (cases "q = p") auto
    show "b_dev (v7_buf ?t q) = 0 \<or> b_dev (v7_buf ?t q) = NODEV" if "q \<in> pool" for q
      using D(8) [OF that] pu(1) other(1) [of q ?t] by (cases "q = p") auto
    show "b_dev (v7_buf ?t q) = NODEV" if "q \<in> set (p # remove1 p nos)" for q
      using D(9) [of q] other(1) [of q ?t] that sets pu(1) by (cases "q = p") auto
    show "b_left (v7_buf ?t q) = (0, 0)" if "q \<in> pool" for q
      using D(10) [OF that] pu(2) other(3) [of q ?t] by (cases "q = p") auto
    show "q = r" if "q \<in> pool" "r \<in> pool" "b_dev (v7_buf ?t q) = 0" "b_dev (v7_buf ?t r) = 0"
      "b_blkno (v7_buf ?t q) = b_blkno (v7_buf ?t r)" for q r
      using that D(11) [of q r]
      by (cases "q = p"; cases "r = p") (simp_all add: pu other [where t = ?t])
    show "free_ok (v7_buf ?t q)" if "q \<in> set avs" for q
      using D(12) [OF that] other(5) [of q ?t] that p(2) by (cases "q = p") auto
    show "B_TAPE \<notin> bflags ?t Rootdsktab" using D(13) other(4) [of Rootdsktab ?t] pf by simp
    show "v7_nblkdev ?t = 1" using buf_only_fields [OF assign_buf_only(2)] D(14) by simp
  qed (use rings D(6) in simp_all)
qed


section \<open>The driver\<close>

text \<open>Only buffers, the clock, the image file and the host's counters change.\<close>

definition io_frame :: "kernel \<Rightarrow> kernel \<Rightarrow> bool" where
  "io_frame s s' \<longleftrightarrow> v7_u s' = v7_u s \<and> v7_mount s' = v7_mount s \<and> v7_inode s' = v7_inode s
     \<and> v7_file s' = v7_file s \<and> v7_rootdev s' = v7_rootdev s \<and> v7_nblkdev s' = v7_nblkdev s
     \<and> v7_nchrdev s' = v7_nchrdev s \<and> v7_rootdir s' = v7_rootdir s \<and> v7_updlock s' = v7_updlock s
     \<and> v7_rablock s' = v7_rablock s \<and> dsk s' = dsk s \<and> v7fs_initialized s' = v7fs_initialized s
     \<and> v7fs_uidmap s' = v7fs_uidmap s \<and> v7fs_gidmap s' = v7fs_gidmap s
     \<and> h_umem (host s') = h_umem (host s) \<and> h_local (host s') = h_local (host s)
     \<and> h_stderr (host s') = h_stderr (host s) \<and> h_fault (host s') = h_fault (host s)
     \<and> h_epoch (host s') = h_epoch (host s) \<and> h_now (host s') = h_now (host s)
     \<and> h_len (host s) \<le> h_len (host s')"

lemma io_frame_refl [simp]: "io_frame s s"
  by (simp add: io_frame_def)

lemma io_frame_trans: "io_frame s t \<Longrightarrow> io_frame t u \<Longrightarrow> io_frame s u"
  by (simp add: io_frame_def)

lemma buf_only_io_frame: "buf_only s s' \<Longrightarrow> io_frame s s'"
  using buf_only_fields [of s s'] by (simp add: io_frame_def)

lemma io_frame_fields:
  assumes "io_frame s s'"
  shows "v7_u s' = v7_u s" "v7_mount s' = v7_mount s" "v7_inode s' = v7_inode s"
    "v7_file s' = v7_file s" "v7_rootdev s' = v7_rootdev s" "v7_nblkdev s' = v7_nblkdev s"
    "v7_nchrdev s' = v7_nchrdev s" "v7_rootdir s' = v7_rootdir s" "v7_updlock s' = v7_updlock s"
    "v7_rablock s' = v7_rablock s" "dsk s' = dsk s" "v7fs_initialized s' = v7fs_initialized s"
    "v7fs_uidmap s' = v7fs_uidmap s" "v7fs_gidmap s' = v7fs_gidmap s" "h_umem (host s') = h_umem (host s)"
    "h_local (host s') = h_local (host s)" "h_stderr (host s') = h_stderr (host s)"
    "h_fault (host s') = h_fault (host s)" "h_epoch (host s') = h_epoch (host s)"
    "h_now (host s') = h_now (host s)" "h_len (host s) \<le> h_len (host s')"
  using assms by (simp_all add: io_frame_def)

lemma io_frame_dsk:
  assumes "io_frame s s'"
  shows "host_ok s' = host_ok s" "dsk_wf s \<Longrightarrow> dsk_wf s'" "dsk_inrange s' b = dsk_inrange s b"
    "dsk_pos s' b = dsk_pos s b"
  using io_frame_fields [OF assms] by (auto simp: host_ok_def dsk_wf_def dsk_inrange_def dsk_pos_def)

lemma dsk_block_cong: "dsk s' = dsk s \<Longrightarrow> h_file (host s') = h_file (host s) \<Longrightarrow> dsk_block s' b = dsk_block s b"
  by (simp add: dsk_block_def dsk_pos_def)

lemma dsk_block_buf_only: "buf_only s s' \<Longrightarrow> dsk_block s' b = dsk_block s b"
  using buf_only_fields by (intro dsk_block_cong) auto

lemma refreshclock_frame:
  "io_frame s (v7_refreshclock s)" "v7_buf (v7_refreshclock s) = v7_buf s"
  "h_file (host (v7_refreshclock s)) = h_file (host s)"
  by (simp_all add: v7_refreshclock_def io_frame_def Let_def split: option.splits prod.splits)

lemma io_frame_host:
  "io_frame s (s\<lparr>host := (host s)\<lparr>h_op := n\<rparr>\<rparr>)"
  "io_frame s (s\<lparr>host := (host s)\<lparr>h_op := n, h_file := f\<rparr>\<rparr>)"
  by (simp_all add: io_frame_def)

text \<open>What a transfer does while the host does not fail.\<close>

lemma strategy_write:
  assumes ok: "dsk_wf s" "host_ok s" and w: "B_READ \<notin> bflags s p" "b_bcount (v7_buf s p) = 512"
  obtains s1 where "v7_dsk_strategy p s = iodone p s1" "v7_buf s1 = v7_buf s" "io_frame s s1"
    "\<And>b. dsk_inrange s b \<Longrightarrow> dsk_block s1 b =
       (if b = b_blkno (v7_buf s p) then trunc_blk (bdata s p) else dsk_block s b)"
proof -
  let ?n = "b_blkno (v7_buf s p)"
  define s0 where "s0 = snd (dsk_write ?n (bdata s p) 512 s)"
  have r0: "fst (dsk_write ?n (bdata s p) 512 s) = 0"
    and s0: "v7_buf s0 = v7_buf s" "io_frame s s0"
    and d0: "\<And>b. dsk_inrange s b \<Longrightarrow> dsk_block s0 b = (if b = ?n then trunc_blk (bdata s p) else dsk_block s b)"
  proof -
    have "dsk_inrange s ?n \<or> \<not> dsk_inrange s ?n" by blast
    then show "fst (dsk_write ?n (bdata s p) 512 s) = 0" "v7_buf s0 = v7_buf s" "io_frame s s0"
      unfolding s0_def by (elim disjE; simp add: dsk_write_ok [OF ok] dsk_write_outside io_frame_host)+
    show "dsk_block s0 b = (if b = ?n then trunc_blk (bdata s p) else dsk_block s b)" if "dsk_inrange s b" for b
    proof (cases "dsk_inrange s ?n")
      case True
      have f: "s0 = s\<lparr>host := (host s)\<lparr>h_op := h_op (host s) + 1,
          h_file := copy_bytes 512 (dsk_pos s ?n) (h_file (host s)) 0 (bdata s p)\<rparr>\<rparr>"
        using dsk_write_ok [OF ok True] by (simp add: s0_def)
      have pos: "dsk_pos s0 c = dsk_pos s c" for c by (simp add: f dsk_pos_def)
      have hf: "h_file (host s0) = copy_bytes 512 (dsk_pos s ?n) (h_file (host s)) 0 (bdata s p)"
        by (simp add: f)
      show ?thesis
      proof (cases "b = ?n")
        case True
        have "dsk_block s0 ?n = trunc_blk (bdata s p)"
          unfolding dsk_block_def pos hf by (intro trunc_blk_eqI) (simp add: copy_bytes_def)
        then show ?thesis using True by simp
      next
        case False
        have "0 \<le> b" "0 \<le> ?n" using that True by (simp_all add: dsk_inrange_def)
        have "copy_bytes 512 (dsk_pos s ?n) (h_file (host s)) 0 (bdata s p) (dsk_pos s b + i)
            = h_file (host s) (dsk_pos s b + i)" if "i < 512" for i
        proof -
          have "\<not> (dsk_pos s ?n \<le> dsk_pos s b + i \<and> dsk_pos s b + i < dsk_pos s ?n + 512)"
          proof
            assume "dsk_pos s ?n \<le> dsk_pos s b + i \<and> dsk_pos s b + i < dsk_pos s ?n + 512"
            then have "dsk_pos s b + i = dsk_pos s ?n + (dsk_pos s b + i - dsk_pos s ?n)"
              "dsk_pos s b + i - dsk_pos s ?n < 512" by auto
            then show False
              using dsk_pos_inj [of s b ?n i "dsk_pos s b + i - dsk_pos s ?n"] that False
                \<open>0 \<le> b\<close> \<open>0 \<le> ?n\<close> ok(1) by (simp add: dsk_wf_def)
          qed
          then show ?thesis by (auto simp: copy_bytes_def)
        qed
        then have "dsk_block s0 b = dsk_block s b"
          unfolding dsk_block_def pos hf by (intro trunc_blk_eqI) simp
        then show ?thesis using False by simp
      qed
    next
      case False
      then have "b \<noteq> ?n" using that by auto
      then show ?thesis using False dsk_write_outside by (simp add: s0_def)
    qed
  qed
  define s1 where "s1 = v7_refreshclock s0"
  have "v7_dsk_strategy p s = iodone p s1"
  proof -
    have "dsk_write ?n (bdata s p) 512 s = (0, s0)" using r0 by (simp add: s0_def prod_eq_iff)
    then show ?thesis using w by (simp add: v7_dsk_strategy_def Let_def s1_def)
  qed
  moreover have "v7_buf s1 = v7_buf s" using s0(1) by (simp add: s1_def refreshclock_frame)
  moreover have "io_frame s s1" unfolding s1_def by (rule io_frame_trans [OF s0(2) refreshclock_frame(1)])
  moreover have "dsk_block s1 b = dsk_block s0 b" for b
    unfolding s1_def by (rule dsk_block_cong) (simp_all add: refreshclock_frame io_frame_fields(11) [OF refreshclock_frame(1)])
  ultimately show ?thesis using d0 that [of s1] by simp
qed

lemma strategy_read:
  assumes ok: "dsk_wf s" "host_ok s" and w: "B_READ \<in> bflags s p" "b_bcount (v7_buf s p) = 512"
  obtains s1 d where "v7_dsk_strategy p s = iodone p s1" "v7_buf s1 = (v7_buf s)(p := (v7_buf s p)\<lparr>b_addr := d\<rparr>)"
    "io_frame s s1" "\<And>b. dsk_block s1 b = dsk_block s b"
    "dsk_inrange s (b_blkno (v7_buf s p)) \<Longrightarrow> trunc_blk d = dsk_block s (b_blkno (v7_buf s p))"
proof -
  let ?n = "b_blkno (v7_buf s p)"
  obtain d s0 where r: "dsk_read ?n (bdata s p) 512 s = (0, d, s0)"
    and s0: "v7_buf s0 = v7_buf s" "io_frame s s0" "h_file (host s0) = h_file (host s)"
    and d: "dsk_inrange s ?n \<Longrightarrow> trunc_blk d = dsk_block s ?n"
  proof (cases "dsk_inrange s ?n")
    case True
    then show ?thesis
      using dsk_read_ok [OF ok True, of "bdata s p"] io_frame_host(1) [of s]
      by (auto simp: dsk_block_def copy_bytes_def trunc_blk_def intro!: that ext)
  next
    case False
    then show ?thesis using dsk_read_outside [of s ?n "bdata s p"] that [of "bdata s p" s] by simp
  qed
  define s1 where "s1 = v7_refreshclock (upd_data p (\<lambda>_. d) s0)"
  have "v7_dsk_strategy p s = iodone p s1"
    using r w by (simp add: v7_dsk_strategy_def Let_def s1_def)
  moreover have "v7_buf s1 = (v7_buf s)(p := (v7_buf s p)\<lparr>b_addr := d\<rparr>)"
    using s0(1) by (simp add: s1_def refreshclock_frame upd_data_def v7_buf_upd_buf)
  moreover have "io_frame s s1" unfolding s1_def
    by (rule io_frame_trans [OF s0(2)], rule io_frame_trans [OF buf_only_io_frame refreshclock_frame(1)])
      (simp add: buf_only_upd)
  moreover have "dsk_block s1 b = dsk_block s b" for b
    using io_frame_fields(11) [OF \<open>io_frame s s1\<close>] s0(3)
    by (intro dsk_block_cong) (simp_all add: s1_def refreshclock_frame upd_data_def upd_buf_def)
  ultimately show ?thesis using d that by blast
qed


section \<open>Writing a buffer out\<close>

lemma bio_st_flags:
  assumes "bio_st s avs devs nos" "p \<in> pool" "p \<notin> set avs"
  shows "B_BUSY \<notin> fs \<Longrightarrow> bio_st (clr_bflags p fs s) avs devs nos"
    "B_TAPE \<notin> fs \<Longrightarrow> bio_st (or_bflags p fs s) avs devs nos"
    "bio_st (upd_buf p (\<lambda>b. b\<lparr>b_bcount := n\<rparr>) s) avs devs nos"
    "bio_st (upd_data p g s) avs devs nos"
proof -
  have b: "B_BUSY \<in> bflags s p" using bio_stD(7) [OF assms(1,2)] assms(3) by simp
  show "bio_st (clr_bflags p fs s) avs devs nos" if "B_BUSY \<notin> fs"
    unfolding clr_bflags_def by (rule bio_st_upd_buf [OF assms(1)]) (use assms that b in auto)
  show "bio_st (or_bflags p fs s) avs devs nos" if "B_TAPE \<notin> fs"
    unfolding or_bflags_def by (rule bio_st_upd_buf [OF assms(1)]) (use assms that b in auto)
  show "bio_st (upd_buf p (\<lambda>b. b\<lparr>b_bcount := n\<rparr>) s) avs devs nos"
    by (rule bio_st_upd_buf [OF assms(1)]) (use assms b in auto)
  show "bio_st (upd_data p g s) avs devs nos"
    unfolding upd_data_def by (rule bio_st_upd_buf [OF assms(1)]) (use assms b in auto)
qed

text \<open>The fields of one header after the updates of flags and after a release.\<close>

lemma flag_simps [simp]:
  "bflags (or_bflags p fs s) q = (if q = p then bflags s p \<union> fs else bflags s q)"
  "bflags (clr_bflags p fs s) q = (if q = p then bflags s p - fs else bflags s q)"
  "bdata (or_bflags p fs s) q = bdata s q" "bdata (clr_bflags p fs s) q = bdata s q"
  "b_dev (v7_buf (or_bflags p fs s) q) = b_dev (v7_buf s q)" "b_dev (v7_buf (clr_bflags p fs s) q) = b_dev (v7_buf s q)"
  "b_blkno (v7_buf (or_bflags p fs s) q) = b_blkno (v7_buf s q)" "b_blkno (v7_buf (clr_bflags p fs s) q) = b_blkno (v7_buf s q)"
  "b_bcount (v7_buf (or_bflags p fs s) q) = b_bcount (v7_buf s q)" "b_bcount (v7_buf (clr_bflags p fs s) q) = b_bcount (v7_buf s q)"
  "b_resid (v7_buf (or_bflags p fs s) q) = b_resid (v7_buf s q)" "b_resid (v7_buf (clr_bflags p fs s) q) = b_resid (v7_buf s q)"
  by (auto simp: bupd_defs v7_buf_upd_buf)

lemma core_flags_other:
  "q \<noteq> p \<Longrightarrow> v7_buf (or_bflags p fs s) q = v7_buf s q" "q \<noteq> p \<Longrightarrow> v7_buf (clr_bflags p fs s) q = v7_buf s q"
  "q \<noteq> p \<Longrightarrow> v7_buf (upd_data p g s) q = v7_buf s q" "q \<noteq> p \<Longrightarrow> v7_buf (upd_buf p f s) q = v7_buf s q"
  by (simp_all add: bupd_defs v7_buf_upd_buf)

lemma brelse_fields:
  assumes "p \<in> pool"
  shows "bflags (brelse p s) p = bflags s p - {B_WANTED, B_BUSY, B_ASYNC, B_AGE}"
    "b_dev (v7_buf (brelse p s) p) = (if B_ERROR \<in> bflags s p then NODEV else b_dev (v7_buf s p))"
    "b_blkno (v7_buf (brelse p s) q) = b_blkno (v7_buf s q)" "bdata (brelse p s) q = bdata s q"
    "b_resid (v7_buf (brelse p s) q) = b_resid (v7_buf s q)"
    "q \<in> pool \<Longrightarrow> q \<noteq> p \<Longrightarrow> bcore (v7_buf (brelse p s) q) = bcore (v7_buf s q)"
proof -
  have f: "p \<noteq> Bfreelist" using assms by auto
  note c = brelse_core [OF f, of s]
  show "bflags (brelse p s) p = bflags s p - {B_WANTED, B_BUSY, B_ASYNC, B_AGE}"
    "b_dev (v7_buf (brelse p s) p) = (if B_ERROR \<in> bflags s p then NODEV else b_dev (v7_buf s p))"
    using c [of p] by (simp_all add: bcore_def)
  show "b_blkno (v7_buf (brelse p s) q) = b_blkno (v7_buf s q)" "bdata (brelse p s) q = bdata s q"
    "b_resid (v7_buf (brelse p s) q) = b_resid (v7_buf s q)"
    using c [of q] by (simp_all add: bcore_def split: if_splits)
  show "bcore (v7_buf (brelse p s) q) = bcore (v7_buf s q)" if "q \<in> pool" "q \<noteq> p"
    using c [of q] that by auto
qed

text \<open>What a write leaves: the buffer is released, valid and clean, and the disk has its data.\<close>

definition written :: "kernel \<Rightarrow> bufp \<Rightarrow> kernel \<Rightarrow> bool" where
  "written s p s' \<longleftrightarrow> io_frame s s' \<and> (\<forall>q \<in> pool. q \<noteq> p \<longrightarrow> bcore (v7_buf s' q) = bcore (v7_buf s q))
     \<and> b_dev (v7_buf s' p) = b_dev (v7_buf s p) \<and> b_blkno (v7_buf s' p) = b_blkno (v7_buf s p)
     \<and> bdata s' p = bdata s p \<and> b_resid (v7_buf s' p) = b_resid (v7_buf s p)
     \<and> B_DONE \<in> bflags s' p \<and> B_DELWRI \<notin> bflags s' p \<and> B_ERROR \<notin> bflags s' p
     \<and> (\<forall>b. dsk_inrange s b \<longrightarrow> dsk_block s' b =
          (if b = b_blkno (v7_buf s p) then trunc_blk (bdata s p) else dsk_block s b))"

lemma major_0 [simp]: "major 0 = 0"
  by (simp add: major_def u16_def)

lemma bwrite_spec:
  assumes st: "bio_st s avs devs nos" and p: "p \<in> pool" "p \<notin> set avs" "b_dev (v7_buf s p) = 0"
    and ok: "dsk_wf s" "host_ok s"
  obtains s' avs' where "bwrite p s = Some s'" "bio_st s' avs' devs nos" "set avs' = insert p (set avs)"
    "written s p s'"
proof -
  define fl where "fl = bflags s p"
  define s1 where "s1 = upd_buf p (\<lambda>b. b\<lparr>b_bcount := int BSIZE\<rparr>)
      (clr_bflags p {B_READ, B_DONE, B_ERROR, B_DELWRI, B_AGE} s)"
  have bo1: "buf_only s s1" unfolding s1_def by (intro buf_only_steps buf_only_refl)
  have st1: "bio_st s1 avs devs nos"
    unfolding s1_def by (intro bio_st_flags p) (use st in auto)
  have f1: "bflags s1 p = fl - {B_READ, B_DONE, B_ERROR, B_DELWRI, B_AGE}" "b_bcount (v7_buf s1 p) = 512"
    "b_dev (v7_buf s1 p) = 0" "b_blkno (v7_buf s1 p) = b_blkno (v7_buf s p)" "bdata s1 p = bdata s p"
    "b_resid (v7_buf s1 p) = b_resid (v7_buf s p)"
    using p(3) by (simp_all add: s1_def fl_def v7_buf_upd_buf)
  have ok1: "dsk_wf s1" "host_ok s1" using io_frame_dsk [OF buf_only_io_frame [OF bo1]] ok by simp_all
  have r1: "B_READ \<notin> bflags s1 p" using f1 by simp
  obtain s2 where s2: "v7_dsk_strategy p s1 = iodone p s2" "v7_buf s2 = v7_buf s1" "io_frame s1 s2"
    "\<And>b. dsk_inrange s1 b \<Longrightarrow> dsk_block s2 b =
       (if b = b_blkno (v7_buf s1 p) then trunc_blk (bdata s1 p) else dsk_block s1 b)"
    by (rule strategy_write [OF ok1 r1 f1(2)]) blast
  define s3 where "s3 = or_bflags p {B_DONE} s2"
  have st3: "bio_st s3 avs devs nos"
    unfolding s3_def using st1 bio_st_cong [of s2 s1] s2(2) io_frame_fields(6) [OF s2(3)]
    by (intro bio_st_flags p) auto
  have fr3: "io_frame s s3" unfolding s3_def
    by (rule io_frame_trans [OF io_frame_trans [OF buf_only_io_frame [OF bo1] s2(3)] buf_only_io_frame])
      (simp add: buf_only_upd)
  have f3: "bflags s3 p = insert B_DONE (fl - {B_READ, B_DONE, B_ERROR, B_DELWRI, B_AGE})"
    "b_dev (v7_buf s3 p) = 0" "b_blkno (v7_buf s3 p) = b_blkno (v7_buf s p)" "bdata s3 p = bdata s p"
    "b_resid (v7_buf s3 p) = b_resid (v7_buf s p)"
    using f1 by (simp_all add: s3_def s2(2))
  have o3: "bcore (v7_buf s3 q) = bcore (v7_buf s q)" if "q \<noteq> p" for q
    using that by (simp add: s3_def core_flags_other s2(2) s1_def)
  have d3: "dsk_block s3 b = (if b = b_blkno (v7_buf s p) then trunc_blk (bdata s p) else dsk_block s b)"
    if "dsk_inrange s b" for b
  proof -
    have "dsk_block s3 b = dsk_block s2 b" unfolding s3_def by (rule dsk_block_buf_only) (simp add: buf_only_upd)
    moreover have "dsk_inrange s1 b" using that io_frame_dsk(3) [OF buf_only_io_frame [OF bo1]] by simp
    ultimately show ?thesis using s2(4) [of b] f1(4,5) dsk_block_buf_only [OF bo1] by simp
  qed
  have rel: "written s p t" if t: "t = brelse p u \<or> t = or_bflags p {B_AGE} (brelse p u)"
      and u: "u = s3 \<or> u = clr_bflags p {B_WANTED} s3" for t u
  proof -
    have bo: "buf_only s3 t"
      using t u brelse_buf_only [of s3 p] buf_only_trans [OF buf_only_upd(6) brelse_buf_only] buf_only_steps(5)
      by (auto simp: buf_only_upd)
    have fr: "io_frame s t" by (rule io_frame_trans [OF fr3 buf_only_io_frame [OF bo]])
    have "bcore (v7_buf t q) = bcore (v7_buf s q)" if q: "q \<in> pool" "q \<noteq> p" for q
      using t u o3 [OF q(2)] brelse_fields(6) [OF p(1) q] core_flags_other(1,2) [OF q(2)] by auto
    moreover have "b_dev (v7_buf t p) = b_dev (v7_buf s p)" "b_blkno (v7_buf t p) = b_blkno (v7_buf s p)"
      "bdata t p = bdata s p" "b_resid (v7_buf t p) = b_resid (v7_buf s p)"
      "B_DONE \<in> bflags t p" "B_DELWRI \<notin> bflags t p" "B_ERROR \<notin> bflags t p"
      using t u by (elim disjE; simp add: brelse_fields [OF p(1)] f3 p(3))+
    moreover have "dsk_block t b = dsk_block s3 b" for b using dsk_block_buf_only [OF bo] .
    ultimately show ?thesis using fr d3 by (simp add: written_def)
  qed
  have w0: "bwrite p s = do {
      s \<leftarrow> Some (iodone p s2);
      if B_ASYNC \<notin> fl then do { s \<leftarrow> iowait p s; Some (brelse p s) }
      else if B_DELWRI \<in> fl then Some (or_bflags p {B_AGE} s) else Some (geterror p s) }"
    unfolding bwrite_def Let_def s1_def [symmetric] fl_def [symmetric]
    using f1(3) s2(1) by (simp add: d_strategy_def d_tab_def)
  have io: "iodone p s2 = (if B_ASYNC \<in> fl then brelse p s3 else clr_bflags p {B_WANTED} s3)"
    using f3(1) by (auto simp: iodone_def Let_def s3_def [symmetric])
  have age: "B_AGE \<notin> bflags s3 p" "B_DELWRI \<notin> bflags s3 p" using f3(1) by auto
  show thesis
  proof (cases "B_ASYNC \<in> fl")
    case False
    let ?t = "clr_bflags p {B_WANTED} s3"
    have "bwrite p s = Some (brelse p ?t)"
      using w0 io False f3(1) by (simp add: iowait_def geterror_def)
    moreover have "bio_st (brelse p ?t) (avs @ [p]) devs nos"
      using brelse_st [of ?t avs devs nos p] bio_st_flags(1) [OF st3 p(1,2), of "{B_WANTED}"] p age by simp
    ultimately show thesis using that rel [of "brelse p ?t" ?t] by auto
  next
    case True
    have b: "bio_st (brelse p s3) (avs @ [p]) devs nos"
      using brelse_st [OF st3 p(1,2)] age by simp
    show thesis
    proof (cases "B_DELWRI \<in> fl")
      case True
      have "bio_st (or_bflags p {B_AGE} (brelse p s3)) (avs @ [p]) devs nos"
        unfolding or_bflags_def
        by (rule bio_st_upd_buf [OF b]) (use bio_stD(12) [OF b, of p] in \<open>auto simp: free_ok_def\<close>)
      moreover have "bwrite p s = Some (or_bflags p {B_AGE} (brelse p s3))"
        using w0 io \<open>B_ASYNC \<in> fl\<close> True by simp
      ultimately show thesis using that rel [of "or_bflags p {B_AGE} (brelse p s3)" s3] by auto
    next
      case False
      have "bwrite p s = Some (brelse p s3)"
        using w0 io \<open>B_ASYNC \<in> fl\<close> False f3(1) p(1) by (simp add: geterror_def brelse_fields)
      then show thesis using that b rel [of "brelse p s3" s3] by auto
    qed
  qed
qed

end
