(* ===== verification/Bio_View.thy ===== *)
theory Bio_View
  imports Bio_Spec
begin

text \<open>
  The disk as a reader of the cache sees it, and the contract of the operations that take and
  give back buffers, under the assumption that the host does not fail.
\<close>

definition view :: "kernel \<Rightarrow> int \<Rightarrow> block" where
  "view s b = (case cached s b of
       Some p \<Rightarrow> if B_DONE \<in> bflags s p then trunc_blk (bdata s p) else dsk_block s b
     | None \<Rightarrow> dsk_block s b)"

text \<open>An available buffer without a delayed write has what the disk has.\<close>

definition coherent :: "kernel \<Rightarrow> bool" where
  "coherent s \<longleftrightarrow> (\<forall>p \<in> pool. B_BUSY \<notin> bflags s p \<longrightarrow> b_dev (v7_buf s p) = 0 \<longrightarrow> B_DONE \<in> bflags s p \<longrightarrow>
     B_DELWRI \<notin> bflags s p \<longrightarrow> dsk_inrange s (b_blkno (v7_buf s p)) \<longrightarrow>
     trunc_blk (bdata s p) = dsk_block s (b_blkno (v7_buf s p)))"

definition cache_ok :: "kernel \<Rightarrow> bool" where
  "cache_ok s \<longleftrightarrow> bio_inv s \<and> coherent s \<and> dsk_wf s \<and> host_ok s"

text \<open>
  A buffer that a client holds and has not changed: what a release without a write needs.
\<close>

definition pristine :: "kernel \<Rightarrow> bufp \<Rightarrow> bool" where
  "pristine s p \<longleftrightarrow> (b_dev (v7_buf s p) = 0 \<longrightarrow> B_DONE \<in> bflags s p \<longrightarrow> B_DELWRI \<notin> bflags s p \<longrightarrow>
       dsk_inrange s (b_blkno (v7_buf s p)) \<longrightarrow> trunc_blk (bdata s p) = dsk_block s (b_blkno (v7_buf s p)))"

definition busy :: "kernel \<Rightarrow> bufp set" where
  "busy s = {p \<in> pool. B_BUSY \<in> bflags s p}"

lemma cached_cong:
  assumes "\<And>q. q \<in> pool \<Longrightarrow> b_dev (v7_buf s' q) = 0 \<and> b_blkno (v7_buf s' q) = c
      \<longleftrightarrow> b_dev (v7_buf s q) = 0 \<and> b_blkno (v7_buf s q) = c"
  shows "cached s' c = cached s c"
  unfolding cached_def
proof (rule find_cong [OF refl])
  fix q assume "q \<in> set (map Buf [0..<NBUF])"
  then have "q \<in> pool" unfolding pool_list .
  then show "(b_dev (v7_buf s' q) = 0 \<and> b_blkno (v7_buf s' q) = c) = (b_dev (v7_buf s q) = 0 \<and> b_blkno (v7_buf s q) = c)"
    by (rule assms)
qed

lemma view_cong:
  assumes t: "\<And>q. q \<in> pool \<Longrightarrow> b_dev (v7_buf s' q) = 0 \<and> b_blkno (v7_buf s' q) = c
      \<longleftrightarrow> b_dev (v7_buf s q) = 0 \<and> b_blkno (v7_buf s q) = c"
    and d: "\<And>q. q \<in> pool \<Longrightarrow> b_dev (v7_buf s q) = 0 \<Longrightarrow> b_blkno (v7_buf s q) = c \<Longrightarrow>
      (B_DONE \<in> bflags s' q \<longleftrightarrow> B_DONE \<in> bflags s q) \<and> bdata s' q = bdata s q"
    and k: "dsk_block s' c \<noteq> dsk_block s c \<Longrightarrow> \<exists>q. cached s c = Some q \<and> B_DONE \<in> bflags s q"
  shows "view s' c = view s c"
proof (cases "cached s c")
  case None
  then show ?thesis using cached_cong [OF t] k by (auto simp: view_def)
next
  case (Some q)
  have "q \<in> pool" "b_dev (v7_buf s q) = 0 \<and> b_blkno (v7_buf s q) = c"
    using Some pool_list unfolding cached_def find_Some_iff by (auto simp: pool_def)
  then show ?thesis using Some cached_cong [OF t] k d [of q] by (auto simp: view_def)
qed

text \<open>Buffers keep what a reader sees of them.\<close>

lemma view_core:
  assumes "\<And>q. q \<in> pool \<Longrightarrow> b_dev (v7_buf s' q) = b_dev (v7_buf s q) \<and> b_blkno (v7_buf s' q) = b_blkno (v7_buf s q)
      \<and> (B_DONE \<in> bflags s' q \<longleftrightarrow> B_DONE \<in> bflags s q) \<and> bdata s' q = bdata s q"
    and "dsk_block s' c = dsk_block s c"
  shows "view s' c = view s c"
  by (rule view_cong) (use assms in auto)


section \<open>Taking a buffer\<close>

lemma notavail_fields:
  "b_dev (v7_buf (notavail p s) q) = b_dev (v7_buf s q)" "b_blkno (v7_buf (notavail p s) q) = b_blkno (v7_buf s q)"
  "bdata (notavail p s) q = bdata s q" "b_resid (v7_buf (notavail p s) q) = b_resid (v7_buf s q)"
  "bflags (notavail p s) q = (if q = p then insert B_BUSY (bflags s p) else bflags s q)"
  "q \<noteq> p \<Longrightarrow> bcore (v7_buf (notavail p s) q) = bcore (v7_buf s q)"
  using notavail_core [of p s q] by (auto simp: bcore_def split: if_splits)

lemma view_notavail: "view (notavail p s) c = view s c"
  by (rule view_core) (auto simp: notavail_fields dsk_block_buf_only [OF notavail_buf_only])

lemma coherent_notavail: "coherent s \<Longrightarrow> coherent (notavail p s)"
  unfolding coherent_def
  using io_frame_dsk(3) [OF buf_only_io_frame [OF notavail_buf_only]]
  by (auto simp: notavail_fields dsk_block_buf_only [OF notavail_buf_only])

text \<open>A delayed write that goes out does not change the view.\<close>

lemma written_view:
  assumes st: "bio_st s avs devs nos" and w: "written s p s'" and p: "p \<in> pool"
    and b: "b_dev (v7_buf s p) = 0" and c: "dsk_inrange s c"
  shows "view s' c = (if c = b_blkno (v7_buf s p) then trunc_blk (bdata s p) else view s c)"
proof (cases "c = b_blkno (v7_buf s p)")
  case True
  have "cached s c = Some p" using cached_Some [OF st] p b True by simp
  moreover have "cached s' c = cached s c"
    using w by (intro cached_cong) (auto simp: written_def dest!: bcoreD)
  ultimately show ?thesis using w True by (simp add: view_def written_def)
next
  case False
  have "view s' c = view s c"
  proof (rule view_cong)
    fix q assume q: "q \<in> pool"
    show "b_dev (v7_buf s' q) = 0 \<and> b_blkno (v7_buf s' q) = c \<longleftrightarrow> b_dev (v7_buf s q) = 0 \<and> b_blkno (v7_buf s q) = c"
      using w q by (cases "q = p") (auto simp: written_def dest!: bcoreD)
    assume "b_dev (v7_buf s q) = 0" "b_blkno (v7_buf s q) = c"
    then show "(B_DONE \<in> bflags s' q \<longleftrightarrow> B_DONE \<in> bflags s q) \<and> bdata s' q = bdata s q"
      using w q False by (cases "q = p") (auto simp: written_def dest!: bcoreD)
  qed (use w c False in \<open>simp add: written_def\<close>)
  then show ?thesis using False by simp
qed

lemma written_coherent:
  assumes st: "bio_st s avs devs nos" and w: "written s p s'" and p: "p \<in> pool"
    and b: "b_dev (v7_buf s p) = 0" and c: "coherent s"
  shows "coherent s'"
  unfolding coherent_def
proof (intro ballI impI)
  fix q
  assume q: "q \<in> pool" "B_BUSY \<notin> bflags s' q" "b_dev (v7_buf s' q) = 0" "B_DONE \<in> bflags s' q"
    "B_DELWRI \<notin> bflags s' q" "dsk_inrange s' (b_blkno (v7_buf s' q))"
  have fr: "io_frame s s'" using w by (simp add: written_def)
  note ir = io_frame_dsk(3) [OF fr]
  show "trunc_blk (bdata s' q) = dsk_block s' (b_blkno (v7_buf s' q))"
  proof (cases "q = p")
    case True
    then show ?thesis using w q ir by (simp add: written_def)
  next
    case False
    then have e: "bcore (v7_buf s' q) = bcore (v7_buf s q)" using w q(1) by (simp add: written_def)
    then have "b_blkno (v7_buf s q) \<noteq> b_blkno (v7_buf s p)"
      using bio_stD(11) [OF st q(1) p] False q(3) b by (auto dest: bcoreD)
    then show ?thesis using w c q ir bcoreD [OF e] by (simp add: written_def coherent_def)
  qed
qed

lemma pristine_keep:
  assumes "pristine s q" "bcore (v7_buf s' q) = bcore (v7_buf s q)" "io_frame s s'"
    "dsk_inrange s (b_blkno (v7_buf s q)) \<Longrightarrow> b_dev (v7_buf s q) = 0 \<Longrightarrow>
       dsk_block s' (b_blkno (v7_buf s q)) = dsk_block s (b_blkno (v7_buf s q))"
  shows "pristine s' q"
  using assms(1,4) bcoreD [OF assms(2)] io_frame_dsk(3) [OF assms(3)] by (simp add: pristine_def)

text \<open>
  What the holders of other buffers see of a step: nothing.
\<close>

definition undisturbed :: "kernel \<Rightarrow> kernel \<Rightarrow> bufp set \<Rightarrow> bool" where
  "undisturbed s s' Q \<longleftrightarrow> io_frame s s'
     \<and> (\<forall>q \<in> Q. bcore (v7_buf s' q) = bcore (v7_buf s q) \<and> (pristine s q \<longrightarrow> pristine s' q))"

lemma undisturbed_trans:
  "undisturbed s t Q \<Longrightarrow> undisturbed t u Q' \<Longrightarrow> Q \<subseteq> Q' \<Longrightarrow> undisturbed s u Q"
  unfolding undisturbed_def by (metis io_frame_trans subsetD)

lemma undisturbed_buf_only:
  assumes "buf_only s s'" "\<And>q. q \<in> Q \<Longrightarrow> bcore (v7_buf s' q) = bcore (v7_buf s q)"
  shows "undisturbed s s' Q"
  using assms buf_only_io_frame [OF assms(1)] pristine_keep dsk_block_buf_only [OF assms(1)]
  by (auto simp: undisturbed_def)

lemma undisturbed_written:
  assumes st: "bio_st s avs devs nos" and w: "written s p s'" and p: "p \<in> pool" "b_dev (v7_buf s p) = 0"
    and Q: "Q \<subseteq> pool - {p}"
  shows "undisturbed s s' Q"
proof -
  have fr: "io_frame s s'" using w by (simp add: written_def)
  have "bcore (v7_buf s' q) = bcore (v7_buf s q) \<and> (pristine s q \<longrightarrow> pristine s' q)" if "q \<in> Q" for q
  proof -
    have q: "q \<in> pool" "q \<noteq> p" using that Q by auto
    then have c: "bcore (v7_buf s' q) = bcore (v7_buf s q)" using w by (simp add: written_def)
    have "dsk_block s' (b_blkno (v7_buf s q)) = dsk_block s (b_blkno (v7_buf s q))"
      if "dsk_inrange s (b_blkno (v7_buf s q))" "b_dev (v7_buf s q) = 0"
      using w that bio_stD(11) [OF st q(1) p(1)] q p(2) by (auto simp: written_def)
    then show ?thesis using c pristine_keep [OF _ c fr] by blast
  qed
  then show ?thesis using fr by (simp add: undisturbed_def)
qed

text \<open>The lists of the free buffers, and the taking of one for a write.\<close>

definition delayed :: "kernel \<Rightarrow> bufp set" where
  "delayed s = {p \<in> pool. B_BUSY \<notin> bflags s p \<and> B_DELWRI \<in> bflags s p}"

definition flushed :: "kernel \<Rightarrow> bufp \<Rightarrow> kernel \<Rightarrow> bool" where
  "flushed s p s' \<longleftrightarrow> cache_ok s' \<and> busy s' = busy s \<and> undisturbed s s' (busy s) \<and> delayed s' = delayed s - {p}
     \<and> (\<forall>q \<in> pool. b_dev (v7_buf s' q) = b_dev (v7_buf s q) \<and> b_blkno (v7_buf s' q) = b_blkno (v7_buf s q))
     \<and> (\<forall>c. dsk_inrange s c \<longrightarrow> view s' c = view s c)"

lemma cache_okE:
  assumes "cache_ok s"
  obtains avs devs nos where "bio_st s avs devs nos" "coherent s" "dsk_wf s" "host_ok s"
  using assms unfolding cache_ok_def bio_inv_def by blast

lemma busy_iff:
  assumes "bio_st s avs devs nos"
  shows "p \<in> set avs \<longleftrightarrow> p \<in> pool \<and> p \<notin> busy s"
  using bio_stD(6,7) [OF assms] by (auto simp: busy_def)

lemma evict:
  assumes ok: "cache_ok s" and p: "p \<in> delayed s"
  shows "\<exists>s'. bwrite p (or_bflags p {B_ASYNC} (notavail p s)) = Some s' \<and> flushed s p s'"
proof -
  obtain avs devs nos where st: "bio_st s avs devs nos" and c: "coherent s" "dsk_wf s" "host_ok s"
    by (rule cache_okE [OF ok])
  note D = bio_stD [OF st]
  have pp: "p \<in> pool" "B_BUSY \<notin> bflags s p" "B_DELWRI \<in> bflags s p" using p by (auto simp: delayed_def)
  then have pa: "p \<in> set avs" using D(7) by simp
  then have pd: "b_dev (v7_buf s p) = 0" "B_DONE \<in> bflags s p" using D(12) [of p] pp by (auto simp: free_ok_def)
  define s1 where "s1 = or_bflags p {B_ASYNC} (notavail p s)"
  have st0: "bio_st (notavail p s) (remove1 p avs) devs nos" by (rule notavail_st [OF st pa])
  have na: "p \<notin> set (remove1 p avs)" using ring_distinct [OF D(1)] by simp
  have st1: "bio_st s1 (remove1 p avs) devs nos" unfolding s1_def by (rule bio_st_flags(2) [OF st0 pp(1) na]) simp
  have bo: "buf_only s s1" unfolding s1_def by (intro buf_only_steps notavail_buf_only)
  note fr1 = buf_only_io_frame [OF bo]
  have f1: "b_dev (v7_buf s1 q) = b_dev (v7_buf s q)" "b_blkno (v7_buf s1 q) = b_blkno (v7_buf s q)"
    "bdata s1 q = bdata s q" "bflags s1 q = (if q = p then bflags s p \<union> {B_BUSY, B_ASYNC} else bflags s q)" for q
    by (auto simp: s1_def notavail_fields)
  have o1: "bcore (v7_buf s1 q) = bcore (v7_buf s q)" if "q \<noteq> p" for q
    using that by (simp add: s1_def core_flags_other notavail_fields)
  have v1: "view s1 b = view s b" for b
    by (rule view_core) (auto simp: f1 dsk_block_buf_only [OF bo])
  have c1: "coherent s1"
    using c(1) io_frame_dsk(3) [OF fr1] by (auto simp: coherent_def f1 dsk_block_buf_only [OF bo] split: if_splits)
  have ok1: "dsk_wf s1" "host_ok s1" using io_frame_dsk [OF fr1] c by simp_all
  have pd1: "b_dev (v7_buf s1 p) = 0" using f1 pd by simp
  obtain s2 avs2 where s2: "bwrite p s1 = Some s2" "bio_st s2 avs2 devs nos" "set avs2 = insert p (set (remove1 p avs))"
    "written s1 p s2" by (rule bwrite_spec [OF st1 pp(1) na pd1 ok1])
  have fr: "io_frame s s2" using s2(4) io_frame_trans [OF fr1] by (simp add: written_def)
  have av: "set avs2 = set avs" using s2(3) pa ring_distinct [OF D(1)] by auto
  have b2: "busy s2 = busy s" using busy_iff [OF s2(2)] busy_iff [OF st] av by (auto simp: busy_def)
  have w: "bcore (v7_buf s2 q) = bcore (v7_buf s q)" if "q \<in> pool" "q \<noteq> p" for q
    using s2(4) o1 that by (simp add: written_def)
  have wp: "B_DELWRI \<notin> bflags s2 p" "b_dev (v7_buf s2 p) = b_dev (v7_buf s p)" "b_blkno (v7_buf s2 p) = b_blkno (v7_buf s p)"
    using s2(4) f1 by (simp_all add: written_def)
  have "delayed s2 = delayed s - {p}"
    using w wp b2 by (auto simp: delayed_def busy_def dest: bcoreD)
  moreover have "cache_ok s2"
    using s2(2) written_coherent [OF st1 s2(4) pp(1) pd1 c1] io_frame_dsk [OF fr] c
    unfolding cache_ok_def bio_inv_def by blast
  moreover have vp: "view s (b_blkno (v7_buf s p)) = trunc_blk (bdata s p)"
    using cached_Some [OF st, of "b_blkno (v7_buf s p)" p] pp(1) pd by (simp add: view_def)
  moreover have "view s2 b = view s b" if "dsk_inrange s b" for b
    using written_view [OF st1 s2(4) pp(1) pd1, of b] that io_frame_dsk(3) [OF fr1] v1 f1 vp by auto
  moreover have "b_dev (v7_buf s2 q) = b_dev (v7_buf s q) \<and> b_blkno (v7_buf s2 q) = b_blkno (v7_buf s q)" if "q \<in> pool" for q
    using w [OF that] wp by (cases "q = p") (auto dest: bcoreD)
  moreover have "undisturbed s s2 (busy s)"
  proof (rule undisturbed_trans)
    show "undisturbed s s1 (busy s)"
      by (rule undisturbed_buf_only [OF bo], rule o1) (use pp in \<open>auto simp: busy_def\<close>)
    show "undisturbed s1 s2 (busy s)"
      by (rule undisturbed_written [OF st1 s2(4) pp(1) pd1]) (use pp in \<open>auto simp: busy_def\<close>)
  qed simp
  ultimately have "flushed s p s2" using b2 by (simp add: flushed_def)
  then show ?thesis using s2(1) s1_def by blast
qed

text \<open>What a client gets with a buffer.\<close>

definition taken :: "kernel \<Rightarrow> bufp \<Rightarrow> kernel \<Rightarrow> bool" where
  "taken s p s' \<longleftrightarrow> cache_ok s' \<and> p \<in> pool \<and> p \<notin> busy s \<and> busy s' = insert p (busy s)
     \<and> undisturbed s s' (busy s) \<and> (\<forall>c. dsk_inrange s c \<longrightarrow> view s' c = view s c)
     \<and> B_ASYNC \<notin> bflags s' p \<and> B_ERROR \<notin> bflags s' p \<and> pristine s' p
     \<and> (B_DELWRI \<in> bflags s' p \<longrightarrow> B_DONE \<in> bflags s' p \<and> b_dev (v7_buf s' p) = 0)"

definition room :: "kernel \<Rightarrow> int \<Rightarrow> bool" where
  "room s b \<longleftrightarrow> (case cached s b of Some p \<Rightarrow> p \<notin> busy s | None \<Rightarrow> busy s \<noteq> pool)"

lemma taken_after:
  assumes f: "flushed s q s1" and t: "taken s1 p s2"
  shows "taken s p s2"
proof -
  have fr: "io_frame s s1" using f by (simp add: flushed_def undisturbed_def)
  have "undisturbed s s2 (busy s)"
    using f t undisturbed_trans [of s s1 "busy s" s2 "busy s"] by (simp add: flushed_def taken_def)
  then show ?thesis using f t io_frame_dsk(3) [OF fr] by (simp add: flushed_def taken_def)
qed

lemma flushed_card:
  assumes "flushed s p s'" "p \<in> delayed s"
  shows "card (delayed s') < card (delayed s)"
proof -
  have "finite (delayed s)" by (rule finite_subset [of _ pool]) (auto simp: delayed_def)
  then have "card (delayed s - {p}) < card (delayed s)" using assms(2) by (rule card_Diff1_less)
  then show ?thesis using assms(1) by (simp add: flushed_def)
qed

lemma take_cached:
  assumes ok: "cache_ok s" and p: "cached s b = Some p" "p \<notin> busy s"
  shows "taken s p (notavail p s)" "b_dev (v7_buf (notavail p s) p) = 0" "b_blkno (v7_buf (notavail p s) p) = b"
proof -
  obtain avs devs nos where st: "bio_st s avs devs nos" and c: "coherent s" "dsk_wf s" "host_ok s"
    by (rule cache_okE [OF ok])
  have pp: "p \<in> pool" "b_dev (v7_buf s p) = 0" "b_blkno (v7_buf s p) = b" using cached_Some [OF st] p by auto
  then have pa: "p \<in> set avs" using busy_iff [OF st] p by simp
  have fo: "B_ASYNC \<notin> bflags s p" "B_ERROR \<notin> bflags s p" using bio_stD(12) [OF st pa] pp by (auto simp: free_ok_def)
  note fr = buf_only_io_frame [OF notavail_buf_only [of s p]]
  have "cache_ok (notavail p s)"
    using notavail_st [OF st pa] coherent_notavail [OF c(1)] io_frame_dsk [OF fr] c
    unfolding cache_ok_def bio_inv_def by blast
  moreover have "busy (notavail p s) = insert p (busy s)"
    using pp by (auto simp: busy_def notavail_fields split: if_splits)
  moreover have "undisturbed s (notavail p s) (busy s)"
    by (rule undisturbed_buf_only [OF notavail_buf_only], rule notavail_fields) (use p in auto)
  moreover have "pristine (notavail p s) p"
    using c(1) p pp io_frame_dsk(3) [OF fr]
    by (auto simp: pristine_def coherent_def busy_def notavail_fields dsk_block_buf_only [OF notavail_buf_only])
  ultimately show "taken s p (notavail p s)"
    using p pp fo bio_stD(12) [OF st pa] by (simp add: taken_def view_notavail notavail_fields free_ok_def)
  show "b_dev (v7_buf (notavail p s) p) = 0" "b_blkno (v7_buf (notavail p s) p) = b"
    using pp by (simp_all add: notavail_fields)
qed

text \<open>Reassigning a clean available buffer.\<close>

lemma take_new:
  assumes ok: "cache_ok s" and p: "p \<in> pool" "p \<notin> busy s" "p \<notin> delayed s"
  shows "cached s b = None \<Longrightarrow> taken s p (assign p b (notavail p s))"
    "taken s p (unassign p (notavail p s))"
proof -
  obtain avs devs nos where st: "bio_st s avs devs nos" and c: "coherent s" "dsk_wf s" "host_ok s"
    by (rule cache_okE [OF ok])
  have pa: "p \<in> set avs" using busy_iff [OF st] p by simp
  let ?n = "notavail p s"
  have st0: "bio_st ?n (remove1 p avs) devs nos" by (rule notavail_st [OF st pa])
  have na: "p \<notin> set (remove1 p avs)" using ring_distinct [OF bio_stD(1) [OF st]] by simp
  have key: "taken s p t"
    if t: "buf_only ?n t" "\<exists>a d e. bio_st t a d e" "\<And>q. q \<noteq> p \<Longrightarrow> bcore (v7_buf t q) = bcore (v7_buf ?n q)"
      "bflags t p = {B_BUSY}" and u: "cached s b = None \<or> b_dev (v7_buf t p) = NODEV"
      and bl: "b_dev (v7_buf t p) = 0 \<Longrightarrow> b_blkno (v7_buf t p) = b" for t
  proof -
    have bo: "buf_only s t" by (rule buf_only_trans [OF notavail_buf_only t(1)])
    note fr = buf_only_io_frame [OF bo]
    have o: "bcore (v7_buf t q) = bcore (v7_buf s q)" if "q \<noteq> p" for q
      using t(3) [OF that] notavail_fields(6) [OF that] by simp
    have v: "view t c = view s c" if ir: "dsk_inrange s c" for c
    proof (cases "cached s c = Some p")
      case True
      then have pc: "b_dev (v7_buf s p) = 0" "b_blkno (v7_buf s p) = c" using cached_Some [OF st] by auto
      have "b_dev (v7_buf t p) = NODEV \<or> b \<noteq> c" using u True by auto
      then have "cached t c = None"
        using pc bl bio_stD(11) [OF st, of p] p(1) o unfolding cached_None
        by (metis bcoreD zero_neq_neg_one)
      moreover have "view s c = dsk_block s c"
        using True c(1) p pc ir by (auto simp: view_def coherent_def busy_def delayed_def)
      ultimately show ?thesis by (simp add: view_def dsk_block_buf_only [OF bo])
    next
      case False
      then have np: "\<not> (b_dev (v7_buf s p) = 0 \<and> b_blkno (v7_buf s p) = c)" using cached_Some [OF st] p(1) by auto
      show ?thesis
      proof (cases "b_dev (v7_buf t p) = 0 \<and> b = c")
        case True
        then have "cached s c = None" using u by auto
        moreover obtain a d e where "bio_st t a d e" using t(2) by blast
        then have "cached t c = Some p" using cached_Some True bl p(1) by auto
        ultimately show ?thesis using t(4) by (simp add: view_def dsk_block_buf_only [OF bo])
      next
        case False
        show ?thesis
        proof (rule view_cong)
          fix q assume q: "q \<in> pool"
          show "b_dev (v7_buf t q) = 0 \<and> b_blkno (v7_buf t q) = c \<longleftrightarrow> b_dev (v7_buf s q) = 0 \<and> b_blkno (v7_buf s q) = c"
            using np False bl bcoreD [OF o, of q] by (cases "q = p") auto
          assume "b_dev (v7_buf s q) = 0" "b_blkno (v7_buf s q) = c"
          then have "q \<noteq> p" using np by auto
          then show "(B_DONE \<in> bflags t q \<longleftrightarrow> B_DONE \<in> bflags s q) \<and> bdata t q = bdata s q"
            using bcoreD [OF o, of q] by simp
        qed (simp add: dsk_block_buf_only [OF bo])
      qed
    qed
    have "coherent t"
      unfolding coherent_def
    proof (intro ballI impI)
      fix q assume q: "q \<in> pool" "B_BUSY \<notin> bflags t q" "b_dev (v7_buf t q) = 0" "B_DONE \<in> bflags t q"
        "B_DELWRI \<notin> bflags t q" "dsk_inrange t (b_blkno (v7_buf t q))"
      then have "q \<noteq> p" using t(4) by auto
      then show "trunc_blk (bdata t q) = dsk_block t (b_blkno (v7_buf t q))"
        using bcoreD [OF o, of q] c(1) q io_frame_dsk(3) [OF fr]
        by (simp add: coherent_def dsk_block_buf_only [OF bo])
    qed
    then have "cache_ok t" using t(2) io_frame_dsk [OF fr] c unfolding cache_ok_def bio_inv_def by blast
    moreover have "B_BUSY \<in> bflags t q \<longleftrightarrow> q = p \<or> B_BUSY \<in> bflags s q" for q
      using t(4) bcoreD [OF o, of q] by (cases "q = p") auto
    then have "busy t = insert p (busy s)" using p(1) by (auto simp: busy_def)
    moreover have "undisturbed s t (busy s)"
      by (rule undisturbed_buf_only [OF bo], rule o) (use p(2) in auto)
    ultimately show ?thesis using p v t(4) by (simp add: taken_def pristine_def)
  qed
  show "taken s p (assign p b ?n)" if n: "cached s b = None"
  proof (rule key)
    have "\<not> (b_dev (v7_buf ?n q) = 0 \<and> b_blkno (v7_buf ?n q) = b)" if "q \<in> pool" for q
      using n that unfolding cached_None by (simp add: notavail_fields)
    then show "\<exists>a d e. bio_st (assign p b ?n) a d e" using reassign_st(1) [OF st0 p(1) na] by blast
  qed (use n in \<open>simp_all add: assign_buf_only assign_core assign_fields\<close>)
  show "taken s p (unassign p ?n)"
  proof (rule key)
    show "\<exists>a d e. bio_st (unassign p ?n) a d e" using reassign_st(2) [OF st0 p(1) na] by blast
  qed (simp_all add: assign_buf_only unassign_core unassign_fields)
qed

text \<open>
  \<open>getblk\<close> returns while there is a buffer for the block: at most one delayed write goes out
  for every round of its loop.
\<close>

lemma getblk_unfold:
  assumes st: "bio_st s avs devs nos"
  shows "getblk 0 b s = (case cached s b of
      Some p \<Rightarrow> if p \<in> busy s then getblk 0 b (or_bflags p {B_WANTED} s) else Some (p, notavail p s)
    | None \<Rightarrow> (case avs of
        [] \<Rightarrow> getblk 0 b (or_bflags Bfreelist {B_WANTED} s)
      | p # _ \<Rightarrow> if p \<in> delayed s
          then Option.bind (bwrite p (or_bflags p {B_ASYNC} (notavail p s))) (getblk 0 b)
          else Some (p, assign p b (notavail p s))))"
proof -
  note D = bio_stD [OF st]
  have hd: "av_forw (v7_buf s Bfreelist) = (case avs of [] \<Rightarrow> Bfreelist | x # _ \<Rightarrow> x)"
    using ring_hd [OF D(1)] .
  have mem: "p \<in> delayed s \<longleftrightarrow> B_DELWRI \<in> bflags (notavail p s) p" "p \<noteq> Bfreelist" if "avs = p # as" for p as
    using that D(6,7) by (auto simp: delayed_def notavail_fields)
  have b: "p \<in> busy s \<longleftrightarrow> B_BUSY \<in> bflags s p" if "cached s b = Some p" for p
    using that cached_Some [OF st] by (auto simp: busy_def)
  show ?thesis
    by (subst getblk.simps)
      (use D(14) hd mem b in \<open>auto simp: d_tab_def dev_find_cached [OF st] Let_def assign_def split: option.splits list.splits\<close>)
qed

lemma getblk_spec:
  assumes "cache_ok s" "room s b"
  shows "\<exists>p s'. getblk 0 b s = Some (p, s') \<and> taken s p s' \<and> b_dev (v7_buf s' p) = 0 \<and> b_blkno (v7_buf s' p) = b"
  using assms
proof (induction "card (delayed s)" arbitrary: s rule: less_induct)
  case less
  obtain avs devs nos where st: "bio_st s avs devs nos" by (rule cache_okE [OF less.prems(1)])
  show ?case
  proof (cases "cached s b")
    case (Some p)
    then have "p \<notin> busy s" using less.prems(2) by (simp add: room_def)
    then show ?thesis using getblk_unfold [OF st] Some take_cached [OF less.prems(1) Some] by simp
  next
    case None
    then have "busy s \<noteq> pool" using less.prems(2) by (simp add: room_def)
    then obtain p as where avs: "avs = p # as"
      using busy_iff [OF st] by (cases avs) (auto simp: busy_def)
    then have p: "p \<in> pool" "p \<notin> busy s" using busy_iff [OF st, of p] by auto
    show ?thesis
    proof (cases "p \<in> delayed s")
      case True
      obtain s1 where s1: "bwrite p (or_bflags p {B_ASYNC} (notavail p s)) = Some s1" "flushed s p s1"
        using evict [OF less.prems(1) True] by blast
      note less = flushed_card [OF s1(2) True]
      have "cached s1 b = None"
        using None s1(2) by (simp add: cached_None flushed_def)
      then have "room s1 b" using s1(2) \<open>busy s \<noteq> pool\<close> by (simp add: room_def flushed_def)
      then obtain q s2 where "getblk 0 b s1 = Some (q, s2)" "taken s1 q s2"
        "b_dev (v7_buf s2 q) = 0" "b_blkno (v7_buf s2 q) = b"
        using less.hyps [OF less] s1(2) by (auto simp: flushed_def)
      then show ?thesis
        using getblk_unfold [OF st] None avs True s1(1) taken_after [OF s1(2)] by simp
    next
      case False
      then show ?thesis
        using getblk_unfold [OF st] None avs take_new(1) [OF less.prems(1) p] by (simp add: assign_fields)
    qed
  qed
qed

end
