(* ===== verification/Bio_Ops.thy ===== *)
theory Bio_Ops
  imports Bio_View
begin

text \<open>
  The contracts of \<open>geteblk\<close>, \<open>bread\<close>, \<open>brelse\<close>, \<open>bwrite\<close>, \<open>bdwrite\<close>, \<open>bflush\<close> and
  \<open>binit\<close>, and the interface that the rest of the kernel relies on.
\<close>

section \<open>Taking buffers\<close>

lemma geteblk_unfold:
  assumes st: "bio_st s avs devs nos"
  shows "geteblk s = (case avs of
      [] \<Rightarrow> geteblk (or_bflags Bfreelist {B_WANTED} s)
    | p # _ \<Rightarrow> if p \<in> delayed s
        then Option.bind (bwrite p (or_bflags p {B_ASYNC} (notavail p s))) geteblk
        else Some (p, unassign p (notavail p s)))"
proof -
  note D = bio_stD [OF st]
  have hd: "av_forw (v7_buf s Bfreelist) = (case avs of [] \<Rightarrow> Bfreelist | x # _ \<Rightarrow> x)"
    using ring_hd [OF D(1)] .
  have mem: "p \<in> delayed s \<longleftrightarrow> B_DELWRI \<in> bflags (notavail p s) p" "p \<noteq> Bfreelist" if "avs = p # as" for p as
    using that D(6,7) by (auto simp: delayed_def notavail_fields)
  show ?thesis
    by (subst geteblk.simps) (use hd mem in \<open>auto simp: Let_def unassign_def split: list.splits\<close>)
qed

lemma geteblk_spec:
  assumes "cache_ok s" "busy s \<noteq> pool"
  shows "\<exists>p s'. geteblk s = Some (p, s') \<and> taken s p s' \<and> b_dev (v7_buf s' p) = NODEV"
  using assms
proof (induction "card (delayed s)" arbitrary: s rule: less_induct)
  case less
  obtain avs devs nos where st: "bio_st s avs devs nos" by (rule cache_okE [OF less.prems(1)])
  obtain p as where avs: "avs = p # as"
    using less.prems(2) busy_iff [OF st] by (cases avs) (auto simp: busy_def)
  then have p: "p \<in> pool" "p \<notin> busy s" using busy_iff [OF st, of p] by auto
  show ?case
  proof (cases "p \<in> delayed s")
    case True
    obtain s1 where s1: "bwrite p (or_bflags p {B_ASYNC} (notavail p s)) = Some s1" "flushed s p s1"
      using evict [OF less.prems(1) True] by blast
    obtain q s2 where "geteblk s1 = Some (q, s2)" "taken s1 q s2" "b_dev (v7_buf s2 q) = NODEV"
      using less.hyps [OF flushed_card [OF s1(2) True]] s1(2) less.prems(2) by (auto simp: flushed_def)
    then show ?thesis
      using geteblk_unfold [OF st] avs True s1(1) taken_after [OF s1(2)] by simp
  next
    case False
    then show ?thesis
      using geteblk_unfold [OF st] avs take_new(2) [OF less.prems(1) p] by (simp add: unassign_fields)
  qed
qed

text \<open>A change of a buffer that its holder makes.\<close>

lemma own_update:
  assumes ok: "cache_ok s" and p: "p \<in> busy s" and st': "\<exists>a d e. bio_st s' a d e"
    and b: "B_BUSY \<in> bflags s' p"
    and o: "\<And>q. q \<in> pool \<Longrightarrow> q \<noteq> p \<Longrightarrow> bcore (v7_buf s' q) = bcore (v7_buf s q)"
    and fr: "io_frame s s'" and d: "\<And>c. dsk_block s' c = dsk_block s c"
  shows "cache_ok s'" "busy s' = busy s" "undisturbed s s' (busy s - {p})"
proof -
  have bz: "B_BUSY \<in> bflags s' q \<longleftrightarrow> B_BUSY \<in> bflags s q" if "q \<in> pool" for q
    using p b bcoreD [OF o, of q] that by (cases "q = p") (auto simp: busy_def)
  then show "busy s' = busy s" by (auto simp: busy_def)
  have "coherent s'"
    unfolding coherent_def
  proof (intro ballI impI)
    fix q assume q: "q \<in> pool" "B_BUSY \<notin> bflags s' q" "b_dev (v7_buf s' q) = 0" "B_DONE \<in> bflags s' q"
      "B_DELWRI \<notin> bflags s' q" "dsk_inrange s' (b_blkno (v7_buf s' q))"
    then have "q \<noteq> p" using b by auto
    then show "trunc_blk (bdata s' q) = dsk_block s' (b_blkno (v7_buf s' q))"
      using bcoreD [OF o, of q] ok q io_frame_dsk(3) [OF fr] by (simp add: cache_ok_def coherent_def d)
  qed
  then show "cache_ok s'"
    using ok st' io_frame_dsk [OF fr] unfolding cache_ok_def bio_inv_def by blast
  have "bcore (v7_buf s' q) = bcore (v7_buf s q) \<and> (pristine s q \<longrightarrow> pristine s' q)" if "q \<in> busy s - {p}" for q
    using o [of q] pristine_keep [OF _ _ fr, of q] d that by (auto simp: busy_def)
  then show "undisturbed s s' (busy s - {p})" using fr by (simp add: undisturbed_def)
qed

lemma own_view:
  assumes ok: "cache_ok s" and p: "p \<in> busy s" and st': "bio_st s' a d e"
    and t: "b_dev (v7_buf s' p) = b_dev (v7_buf s p)" "b_blkno (v7_buf s' p) = b_blkno (v7_buf s p)"
    and o: "\<And>q. q \<in> pool \<Longrightarrow> q \<noteq> p \<Longrightarrow> bcore (v7_buf s' q) = bcore (v7_buf s q)"
    and d: "\<And>c. dsk_block s' c = dsk_block s c"
  shows "view s' c = (if b_dev (v7_buf s p) = 0 \<and> b_blkno (v7_buf s p) = c
     then (if B_DONE \<in> bflags s' p then trunc_blk (bdata s' p) else dsk_block s c) else view s c)"
proof -
  obtain avs devs nos where st: "bio_st s avs devs nos" by (rule cache_okE [OF ok])
  have pp: "p \<in> pool" using p by (simp add: busy_def)
  show ?thesis
  proof (cases "b_dev (v7_buf s p) = 0 \<and> b_blkno (v7_buf s p) = c")
    case True
    then have "cached s' c = Some p" using cached_Some [OF st'] pp t by simp
    then show ?thesis using True by (simp add: view_def d)
  next
    case False
    have "view s' c = view s c"
    proof (rule view_cong)
      fix q assume q: "q \<in> pool"
      show "b_dev (v7_buf s' q) = 0 \<and> b_blkno (v7_buf s' q) = c \<longleftrightarrow> b_dev (v7_buf s q) = 0 \<and> b_blkno (v7_buf s q) = c"
        using False t bcoreD [OF o [OF q]] by (cases "q = p") auto
      assume "b_dev (v7_buf s q) = 0" "b_blkno (v7_buf s q) = c"
      then have "q \<noteq> p" using False by auto
      then show "(B_DONE \<in> bflags s' q \<longleftrightarrow> B_DONE \<in> bflags s q) \<and> bdata s' q = bdata s q"
        using bcoreD [OF o [OF q]] by simp
    qed (simp add: d)
    then show ?thesis using False by auto
  qed
qed

text \<open>
  A read of a block into its buffer, up to the call of \<open>iodone\<close>: with the done flag set, and the wanted
  flag cleared or not, the buffer has the contents of the block.
\<close>

lemma start_read_spec:
  assumes ok1: "cache_ok s1" and pb: "p \<in> busy s1" and tag: "b_dev (v7_buf s1 p) = 0" "b_blkno (v7_buf s1 p) = b"
    and fl: "B_DONE \<notin> bflags s1 p" "B_DELWRI \<notin> bflags s1 p" and fs: "B_READ \<in> fs" "fs \<subseteq> {B_READ, B_ASYNC}" and W: "W \<subseteq> {B_WANTED}"
  shows "\<exists>s3. start_read 0 fs p s1 = Some (iodone p s3) \<and> (let t = clr_bflags p W (or_bflags p {B_DONE} s3) in
      bflags s3 p = bflags s1 p \<union> fs \<and> bflags t p = insert B_DONE (bflags s1 p \<union> fs) - W
      \<and> b_dev (v7_buf t p) = 0 \<and> b_blkno (v7_buf t p) = b \<and> cache_ok t \<and> busy t = busy s1
      \<and> undisturbed s1 t (busy s1 - {p}) \<and> pristine t p \<and> (\<forall>c. dsk_inrange s1 c \<longrightarrow> view t c = view s1 c)
      \<and> (dsk_inrange s1 b \<longrightarrow> trunc_blk (bdata t p) = view s1 b))"
proof -
  have pp: "p \<in> pool" using pb by (simp add: busy_def)
  obtain avs devs nos where st1: "bio_st s1 avs devs nos" and c1: "coherent s1" "dsk_wf s1" "host_ok s1"
    by (rule cache_okE [OF ok1])
  have na: "p \<notin> set avs" using busy_iff [OF st1] pb by simp
  have v1: "view s1 b = dsk_block s1 b"
    using cached_Some [OF st1, of b p] pp tag fl(1) by (simp add: view_def)
  define s2 where "s2 = upd_buf p (\<lambda>b. b\<lparr>b_bcount := int BSIZE\<rparr>) (or_bflags p fs s1)"
  have bo2: "buf_only s1 s2" unfolding s2_def by (intro buf_only_steps buf_only_refl)
  have st2: "bio_st s2 avs devs nos" unfolding s2_def by (intro bio_st_flags pp na st1) (use fs in auto)
  have f2: "b_bcount (v7_buf s2 p) = 512" "b_blkno (v7_buf s2 p) = b" "b_dev (v7_buf s2 p) = 0"
    "bflags s2 p = bflags s1 p \<union> fs"
    using tag by (simp_all add: s2_def v7_buf_upd_buf)
  have ok2: "dsk_wf s2" "host_ok s2" using io_frame_dsk [OF buf_only_io_frame [OF bo2]] c1 by simp_all
  have rd: "B_READ \<in> bflags s2 p" using f2(4) fs(1) by blast
  obtain s3 d where s3: "v7_dsk_strategy p s2 = iodone p s3"
    "v7_buf s3 = (v7_buf s2)(p := (v7_buf s2 p)\<lparr>b_addr := d\<rparr>)" "io_frame s2 s3"
    "\<And>c. dsk_block s3 c = dsk_block s2 c" "dsk_inrange s2 b \<Longrightarrow> trunc_blk d = dsk_block s2 b"
    using strategy_read [OF ok2 rd f2(1)] f2(2) by metis
  define s4 where "s4 = clr_bflags p W (or_bflags p {B_DONE} s3)"
  have f3: "bflags s3 p = bflags s1 p \<union> fs" using s3(2) f2(4) by simp
  have f4: "bflags s4 p = insert B_DONE (bflags s1 p \<union> fs) - W" "bdata s4 p = d"
    "b_dev (v7_buf s4 p) = 0" "b_blkno (v7_buf s4 p) = b"
    using f3 s3(2) f2 by (simp_all add: s4_def)
  have run: "start_read 0 fs p s1 = Some (iodone p s3)"
    unfolding start_read_def Let_def s2_def [symmetric] using s3(1) by (simp add: d_strategy_def d_tab_def)
  have "v7_buf s3 = v7_buf (upd_data p (\<lambda>_. d) s2)" using s3(2) by (simp add: upd_data_def v7_buf_upd_buf)
  then have "bio_st s3 avs devs nos"
    using bio_st_cong [of s3 "upd_data p (\<lambda>_. d) s2"] bio_st_flags(4) [OF st2 pp na] io_frame_fields(6) [OF s3(3)]
    by (simp add: upd_data_def upd_buf_def)
  then have st4: "bio_st s4 avs devs nos" unfolding s4_def by (intro bio_st_flags pp na) (use W in auto)
  have fr4: "io_frame s1 s4"
    using io_frame_trans [OF buf_only_io_frame [OF bo2] s3(3)]
      io_frame_trans [OF _ buf_only_io_frame [OF buf_only_trans [OF buf_only_upd(5) buf_only_upd(6)]]]
    unfolding s4_def by blast
  have d4: "dsk_block s4 c = dsk_block s1 c" for c
    using s3(4) dsk_block_buf_only [OF bo2]
      dsk_block_buf_only [OF buf_only_trans [OF buf_only_upd(5) buf_only_upd(6)]] unfolding s4_def by metis
  have o4: "bcore (v7_buf s4 q) = bcore (v7_buf s1 q)" if "q \<in> pool" "q \<noteq> p" for q
    using that s3(2) by (simp add: s4_def core_flags_other s2_def)
  have bz: "B_BUSY \<in> bflags s4 p" using f4 pb W by (auto simp: busy_def)
  have ir: "dsk_inrange s2 c = dsk_inrange s1 c" "dsk_inrange s4 c = dsk_inrange s1 c" for c
    using io_frame_dsk(3) [OF buf_only_io_frame [OF bo2]] io_frame_dsk(3) [OF fr4] by simp_all
  have dd: "trunc_blk d = dsk_block s1 b" if "dsk_inrange s1 b"
    using s3(5) that ir dsk_block_buf_only [OF bo2] by simp
  have ex4: "\<exists>a d e. bio_st s4 a d e" using st4 by blast
  note own = own_update [OF ok1 pb ex4 bz o4 fr4 d4]
  have v4: "view s4 c = view s1 c" if "dsk_inrange s1 c" for c
    using own_view [OF ok1 pb st4 _ _ o4 d4, of c] f4(1-4) W fl(1) tag dd that v1 by (cases "c = b") auto
  have pr: "pristine s4 p" using f4 dd d4 ir(2) by (simp add: pristine_def)
  have db: "dsk_inrange s1 b \<longrightarrow> trunc_blk (bdata s4 p) = view s1 b" using dd v1 f4(2) by simp
  have "let t = s4 in bflags s3 p = bflags s1 p \<union> fs \<and> bflags t p = insert B_DONE (bflags s1 p \<union> fs) - W
      \<and> b_dev (v7_buf t p) = 0 \<and> b_blkno (v7_buf t p) = b \<and> cache_ok t \<and> busy t = busy s1
      \<and> undisturbed s1 t (busy s1 - {p}) \<and> pristine t p \<and> (\<forall>c. dsk_inrange s1 c \<longrightarrow> view t c = view s1 c)
      \<and> (dsk_inrange s1 b \<longrightarrow> trunc_blk (bdata t p) = view s1 b)"
    unfolding Let_def by (intro conjI allI impI f3 f4(1,3,4) own pr v4 db)
  then show ?thesis using run unfolding s4_def by blast
qed

lemma bread_spec:
  assumes ok: "cache_ok s" and r: "room s b"
  shows "\<exists>p s'. bread 0 b s = Some (p, s') \<and> taken s p s' \<and> b_dev (v7_buf s' p) = 0 \<and> b_blkno (v7_buf s' p) = b
    \<and> B_DONE \<in> bflags s' p \<and> (dsk_inrange s b \<longrightarrow> trunc_blk (bdata s' p) = view s b)"
proof -
  obtain p s1 where g: "getblk 0 b s = Some (p, s1)" and t: "taken s p s1"
    and tag: "b_dev (v7_buf s1 p) = 0" "b_blkno (v7_buf s1 p) = b"
    using getblk_spec [OF ok r] by blast
  have ok1: "cache_ok s1" and pb: "p \<in> busy s1" and pp: "p \<in> pool" using t by (auto simp: taken_def)
  have fr1: "io_frame s s1" using t by (simp add: taken_def undisturbed_def)
  obtain avs devs nos where st1: "bio_st s1 avs devs nos" by (rule cache_okE [OF ok1])
  have v1: "view s1 b = (if B_DONE \<in> bflags s1 p then trunc_blk (bdata s1 p) else dsk_block s1 b)"
    using cached_Some [OF st1, of b p] pp tag by (simp add: view_def)
  show ?thesis
  proof (cases "B_DONE \<in> bflags s1 p")
    case True
    then show ?thesis using g t tag v1 by (auto simp: bread_def taken_def)
  next
    case False
    have nd: "B_DELWRI \<notin> bflags s1 p" "B_ASYNC \<notin> bflags s1 p" "B_ERROR \<notin> bflags s1 p"
      using t False by (auto simp: taken_def)
    obtain s3 where s3: "start_read 0 {B_READ} p s1 = Some (iodone p s3)"
      and T: "let t = clr_bflags p {B_WANTED} (or_bflags p {B_DONE} s3) in
        bflags s3 p = bflags s1 p \<union> {B_READ} \<and> bflags t p = insert B_DONE (bflags s1 p \<union> {B_READ}) - {B_WANTED}
        \<and> b_dev (v7_buf t p) = 0 \<and> b_blkno (v7_buf t p) = b \<and> cache_ok t \<and> busy t = busy s1
        \<and> undisturbed s1 t (busy s1 - {p}) \<and> pristine t p \<and> (\<forall>c. dsk_inrange s1 c \<longrightarrow> view t c = view s1 c)
        \<and> (dsk_inrange s1 b \<longrightarrow> trunc_blk (bdata t p) = view s1 b)"
      using start_read_spec [OF ok1 pb tag False nd(1), of "{B_READ}" "{B_WANTED}"] by blast
    let ?t = "clr_bflags p {B_WANTED} (or_bflags p {B_DONE} s3)"
    have io: "iodone p s3 = ?t" using T nd by (simp add: iodone_def Let_def)
    have run: "bread 0 b s = Some (p, ?t)"
      using g False s3 T nd unfolding io by (simp add: bread_def iowait_def geterror_def Let_def)
    have "undisturbed s ?t (busy s)"
      using t T undisturbed_trans [of s s1 "busy s" ?t] by (auto simp: taken_def Let_def)
    then have "taken s p ?t"
      using t T nd io_frame_dsk(3) [OF fr1] by (simp add: taken_def Let_def)
    then show ?thesis using run T t io_frame_dsk(3) [OF fr1] by (auto simp: taken_def Let_def)
  qed
qed


section \<open>Giving buffers back\<close>

definition released :: "kernel \<Rightarrow> bufp \<Rightarrow> kernel \<Rightarrow> bool" where
  "released s p s' \<longleftrightarrow> cache_ok s' \<and> busy s' = busy s - {p} \<and> undisturbed s s' (busy s - {p})"

lemma brelse_spec:
  assumes ok: "cache_ok s" and p: "p \<in> busy s" "pristine s p" "B_ERROR \<notin> bflags s p"
    and dw: "B_DELWRI \<in> bflags s p \<Longrightarrow> B_DONE \<in> bflags s p \<and> b_dev (v7_buf s p) = 0"
  shows "released s p (brelse p s)" "view (brelse p s) c = view s c"
proof -
  obtain avs devs nos where st: "bio_st s avs devs nos" and c: "coherent s" "dsk_wf s" "host_ok s"
    by (rule cache_okE [OF ok])
  have pp: "p \<in> pool" "p \<notin> set avs" using p(1) busy_iff [OF st] by (auto simp: busy_def)
  let ?s = "brelse p s"
  note F = brelse_fields [OF pp(1), where s = s] and bo = brelse_buf_only [of s p]
  note fr = buf_only_io_frame [OF bo]
  have dev: "b_dev (v7_buf ?s q) = b_dev (v7_buf s q)" "B_DONE \<in> bflags ?s q \<longleftrightarrow> B_DONE \<in> bflags s q"
    "B_DELWRI \<in> bflags ?s q \<longleftrightarrow> B_DELWRI \<in> bflags s q" "B_BUSY \<in> bflags ?s q \<longleftrightarrow> q \<noteq> p \<and> B_BUSY \<in> bflags s q"
    if "q \<in> pool" for q
    using F(1,2) p(3) bcoreD [OF F(6) [OF that]] by (cases "q = p"; simp)+
  have "bio_st ?s (if B_AGE \<in> bflags s p then p # avs else avs @ [p]) devs nos"
    using brelse_st [OF st pp] dw p(3) by blast
  moreover have "coherent ?s"
    unfolding coherent_def
  proof (intro ballI impI)
    fix q assume q: "q \<in> pool" "B_BUSY \<notin> bflags ?s q" "b_dev (v7_buf ?s q) = 0" "B_DONE \<in> bflags ?s q"
      "B_DELWRI \<notin> bflags ?s q" "dsk_inrange ?s (b_blkno (v7_buf ?s q))"
    then have "q = p \<or> B_BUSY \<notin> bflags s q" using dev(4) by auto
    then show "trunc_blk (bdata ?s q) = dsk_block ?s (b_blkno (v7_buf ?s q))"
      using q dev F c(1) p(2) io_frame_dsk(3) [OF fr]
      by (auto simp: coherent_def pristine_def dsk_block_buf_only [OF bo])
  qed
  ultimately have "cache_ok ?s" using io_frame_dsk [OF fr] c unfolding cache_ok_def bio_inv_def by blast
  moreover have "busy ?s = busy s - {p}" using dev(4) by (auto simp: busy_def)
  moreover have "undisturbed s ?s (busy s - {p})"
    by (rule undisturbed_buf_only [OF bo], rule F) (auto simp: busy_def)
  ultimately show "released s p ?s" by (simp add: released_def)
  show "view ?s c = view s c"
    by (rule view_core) (use dev F in \<open>auto simp: dsk_block_buf_only [OF bo]\<close>)
qed

lemma bwrite_client:
  assumes ok: "cache_ok s" and p: "p \<in> busy s" "b_dev (v7_buf s p) = 0"
  shows "\<exists>s'. bwrite p s = Some s' \<and> released s p s' \<and> B_ERROR \<notin> bflags s' p
    \<and> (\<forall>c. dsk_inrange s c \<longrightarrow> view s' c = (if c = b_blkno (v7_buf s p) then trunc_blk (bdata s p) else view s c))
    \<and> (\<forall>c. dsk_inrange s c \<longrightarrow> dsk_block s' c = (if c = b_blkno (v7_buf s p) then trunc_blk (bdata s p) else dsk_block s c))"
proof -
  obtain avs devs nos where st: "bio_st s avs devs nos" and c: "coherent s" "dsk_wf s" "host_ok s"
    by (rule cache_okE [OF ok])
  have pp: "p \<in> pool" "p \<notin> set avs" using p(1) busy_iff [OF st] by (auto simp: busy_def)
  obtain s' avs' where s': "bwrite p s = Some s'" "bio_st s' avs' devs nos" "set avs' = insert p (set avs)"
    "written s p s'" by (rule bwrite_spec [OF st pp p(2) c(2,3)])
  have fr: "io_frame s s'" using s'(4) by (simp add: written_def)
  have "cache_ok s'"
    using s'(2) written_coherent [OF st s'(4) pp(1) p(2) c(1)] io_frame_dsk [OF fr] c
    unfolding cache_ok_def bio_inv_def by blast
  moreover have "busy s' = busy s - {p}" using busy_iff [OF s'(2)] busy_iff [OF st] s'(3) by (auto simp: busy_def)
  moreover have "undisturbed s s' (busy s - {p})"
    by (rule undisturbed_written [OF st s'(4) pp(1) p(2)]) (auto simp: busy_def)
  ultimately have "released s p s'" by (simp add: released_def)
  then show ?thesis
    using s'(1,4) written_view [OF st s'(4) pp(1) p(2)] by (auto simp: written_def)
qed

text \<open>Changing the data of a buffer one holds.\<close>

lemma upd_data_fields [simp]:
  "bflags (upd_data p g s) q = bflags s q" "b_dev (v7_buf (upd_data p g s) q) = b_dev (v7_buf s q)"
  "b_blkno (v7_buf (upd_data p g s) q) = b_blkno (v7_buf s q)"
  "bdata (upd_data p g s) q = (if q = p then g (bdata s p) else bdata s q)"
  "b_resid (v7_buf (upd_data p g s) q) = b_resid (v7_buf s q)"
  by (auto simp: upd_data_def v7_buf_upd_buf)

lemma upd_data_spec:
  assumes ok: "cache_ok s" and p: "p \<in> busy s"
  shows "cache_ok (upd_data p g s)" "busy (upd_data p g s) = busy s"
    "undisturbed s (upd_data p g s) (busy s - {p})"
    "view (upd_data p g s) c = (if b_dev (v7_buf s p) = 0 \<and> b_blkno (v7_buf s p) = c \<and> B_DONE \<in> bflags s p
       then trunc_blk (g (bdata s p)) else view s c)"
proof -
  obtain avs devs nos where st: "bio_st s avs devs nos" by (rule cache_okE [OF ok])
  have pp: "p \<in> pool" "p \<notin> set avs" using p busy_iff [OF st] by (auto simp: busy_def)
  let ?s = "upd_data p g s"
  have st': "bio_st ?s avs devs nos" by (rule bio_st_flags(4) [OF st pp])
  then have ex: "\<exists>a d e. bio_st ?s a d e" by blast
  have b: "B_BUSY \<in> bflags ?s p" using p by (simp add: busy_def)
  have o: "bcore (v7_buf ?s q) = bcore (v7_buf s q)" if "q \<in> pool" "q \<noteq> p" for q
    using that by (simp add: core_flags_other)
  have bo: "buf_only s ?s" by (simp add: buf_only_upd)
  note own = own_update [OF ok p ex b o buf_only_io_frame [OF bo] dsk_block_buf_only [OF bo]]
  show "cache_ok ?s" "busy ?s = busy s" "undisturbed s ?s (busy s - {p})" by (rule own; assumption?)+
  have "cached s c = Some p" if "b_dev (v7_buf s p) = 0" "b_blkno (v7_buf s p) = c"
    using cached_Some [OF st] pp that by simp
  then show "view ?s c = (if b_dev (v7_buf s p) = 0 \<and> b_blkno (v7_buf s p) = c \<and> B_DONE \<in> bflags s p
       then trunc_blk (g (bdata s p)) else view s c)"
    using own_view [OF ok p st' _ _ o dsk_block_buf_only [OF bo], of c] by (auto simp: view_def)
qed

lemma bdwrite_spec:
  assumes ok: "cache_ok s" and p: "p \<in> busy s" "b_dev (v7_buf s p) = 0" "B_ERROR \<notin> bflags s p"
  shows "\<exists>s'. bdwrite p s = Some s' \<and> released s p s'
    \<and> (\<forall>c. view s' c = (if c = b_blkno (v7_buf s p) then trunc_blk (bdata s p) else view s c))"
proof -
  obtain avs devs nos where st: "bio_st s avs devs nos" by (rule cache_okE [OF ok])
  have pp: "p \<in> pool" "p \<notin> set avs" using p(1) busy_iff [OF st] by (auto simp: busy_def)
  define t where "t = or_bflags p {B_DELWRI, B_DONE} s"
  have st': "bio_st t avs devs nos" unfolding t_def by (rule bio_st_flags(2) [OF st pp]) simp
  then have ex: "\<exists>a d e. bio_st t a d e" by blast
  have b: "B_BUSY \<in> bflags t p" using p by (simp add: busy_def t_def)
  have o: "bcore (v7_buf t q) = bcore (v7_buf s q)" if "q \<in> pool" "q \<noteq> p" for q
    using that by (simp add: core_flags_other t_def)
  have bo: "buf_only s t" by (simp add: buf_only_upd t_def)
  note own = own_update [OF ok p(1) ex b o buf_only_io_frame [OF bo] dsk_block_buf_only [OF bo]]
  have tok: "cache_ok t" "busy t = busy s" "undisturbed s t (busy s - {p})" by (rule own; assumption?)+
  have tp: "p \<in> busy t" "pristine t p" "B_ERROR \<notin> bflags t p"
    using p tok(2) by (auto simp: pristine_def t_def)
  have dw: "B_DONE \<in> bflags t p \<and> b_dev (v7_buf t p) = 0" using p by (simp add: t_def)
  have vt: "view t c = (if c = b_blkno (v7_buf s p) then trunc_blk (bdata s p) else view s c)" for c
    using own_view [OF ok p(1) st' _ _ o dsk_block_buf_only [OF bo], of c] p(2) by (auto simp: t_def)
  have "bdwrite p s = Some (brelse p t)"
    using bio_stD(13) [OF st] p(2) by (simp add: bdwrite_def d_tab_def t_def)
  moreover have "released s p (brelse p t)"
    using brelse_spec(1) [OF tok(1) tp dw] tok undisturbed_trans [of s t "busy s - {p}" "brelse p t" "busy s - {p}"]
    by (simp add: released_def)
  ultimately show ?thesis using brelse_spec(2) [OF tok(1) tp dw] vt by simp
qed


section \<open>Flushing\<close>

lemma delwri_find_path:
  assumes "path (\<lambda>x. av_forw (h x)) b p xs Bfreelist" "Bfreelist \<notin> set xs"
  shows "delwri_find h NODEV (av_forw (h p)) = Some (find (\<lambda>x. B_DELWRI \<in> b_flags (h x)) xs)"
  using assms
proof (induction xs arbitrary: p)
  case Nil
  then show ?case by (simp add: delwri_find.simps)
next
  case (Cons x xs)
  then have "av_forw (h p) = x" "x \<noteq> Bfreelist" "delwri_find h NODEV (av_forw (h x))
      = Some (find (\<lambda>x. B_DELWRI \<in> b_flags (h x)) xs)" by auto
  then show ?case by (simp add: delwri_find.simps [of h NODEV x])
qed

lemma flag_notavail_commute: "notavail p (or_bflags p fs s) = or_bflags p fs (notavail p s)"
proof -
  have "v7_buf (notavail p (or_bflags p fs s)) q = v7_buf (or_bflags p fs (notavail p s)) q" for q
    by (auto simp: notavail_def Let_def bupd_defs upd_buf_def Un_ac)
  then have v: "v7_buf (notavail p (or_bflags p fs s)) = v7_buf (or_bflags p fs (notavail p s))" by blast
  obtain h h' where "notavail p (or_bflags p fs s) = s\<lparr>v7_buf := h\<rparr>" "or_bflags p fs (notavail p s) = s\<lparr>v7_buf := h'\<rparr>"
    using buf_only_trans [OF buf_only_upd(5) notavail_buf_only] buf_only_trans [OF notavail_buf_only buf_only_upd(5)]
    unfolding buf_only_def by metis
  then show ?thesis using v by simp
qed

lemma bflush_spec:
  assumes "cache_ok s"
  shows "\<exists>s'. bflush NODEV s = Some s' \<and> cache_ok s' \<and> busy s' = busy s \<and> undisturbed s s' (busy s)
    \<and> delayed s' = {} \<and> (\<forall>c. dsk_inrange s c \<longrightarrow> view s' c = view s c)"
  using assms
proof (induction "card (delayed s)" arbitrary: s rule: less_induct)
  case less
  obtain avs devs nos where st: "bio_st s avs devs nos" by (rule cache_okE [OF less.prems])
  note D = bio_stD [OF st]
  have f: "delwri_find (v7_buf s) NODEV (av_forw (v7_buf s Bfreelist)) = Some (find (\<lambda>x. B_DELWRI \<in> bflags s x) avs)"
    using D(1) by (intro delwri_find_path [where b = "avb s"]) (auto simp: ring_def)
  show ?case
  proof (cases "find (\<lambda>x. B_DELWRI \<in> bflags s x) avs")
    case None
    then have "delayed s = {}" using busy_iff [OF st] by (auto simp: delayed_def busy_def find_None_iff)
    moreover have "undisturbed s s (busy s)" by (simp add: undisturbed_def)
    moreover have "bflush NODEV s = Some s" using f None by (simp add: bflush.simps)
    ultimately show ?thesis using less.prems by blast
  next
    case (Some p)
    then have "p \<in> set avs" "B_DELWRI \<in> bflags s p" by (auto simp: find_Some_iff)
    then have p: "p \<in> delayed s" using busy_iff [OF st, of p] by (auto simp: delayed_def busy_def)
    obtain s1 where s1: "bwrite p (or_bflags p {B_ASYNC} (notavail p s)) = Some s1" "flushed s p s1"
      using evict [OF less.prems p] by blast
    have c1: "cache_ok s1" using s1(2) by (simp add: flushed_def)
    obtain s2 where s2: "bflush NODEV s1 = Some s2" "cache_ok s2" "busy s2 = busy s1" "undisturbed s1 s2 (busy s1)"
      "delayed s2 = {}" "\<forall>c. dsk_inrange s1 c \<longrightarrow> view s2 c = view s1 c"
      using less.hyps [OF flushed_card [OF s1(2) p] c1] by blast
    have "bflush NODEV s = Some s2"
      using f Some s1(1) s2(1) by (subst bflush.simps) (simp add: flag_notavail_commute)
    moreover have fr: "io_frame s s1" using s1(2) by (simp add: flushed_def undisturbed_def)
    moreover have "undisturbed s s2 (busy s)"
      using s1(2) s2(3,4) undisturbed_trans [of s s1 "busy s" s2 "busy s"] by (simp add: flushed_def)
    ultimately show ?thesis
      using s1(2) s2 io_frame_dsk(3) [OF fr] by (auto simp: flushed_def)
  qed
qed

text \<open>With nothing delayed, the disk is the view, but for blocks somebody holds.\<close>

lemma synced:
  assumes ok: "cache_ok s" and d: "delayed s = {}" and r: "dsk_inrange s c"
    and n: "\<And>p. p \<in> busy s \<Longrightarrow> \<not> (b_dev (v7_buf s p) = 0 \<and> b_blkno (v7_buf s p) = c)"
  shows "dsk_block s c = view s c"
proof (cases "cached s c")
  case None
  then show ?thesis by (simp add: view_def)
next
  case (Some p)
  obtain avs devs nos where st: "bio_st s avs devs nos" and c: "coherent s" by (rule cache_okE [OF ok])
  have p: "p \<in> pool" "b_dev (v7_buf s p) = 0" "b_blkno (v7_buf s p) = c" using cached_Some [OF st] Some by auto
  then have "B_BUSY \<notin> bflags s p" using n by (auto simp: busy_def)
  then show ?thesis using Some p c d r by (auto simp: view_def coherent_def delayed_def)
qed


section \<open>Deadlock\<close>

text \<open>
  \<open>getblk\<close> for a block whose buffer is busy waits for a wakeup that cannot come: it does not
  return. So a client that holds a block must not ask for it again.
\<close>

lemma getblk_busy:
  assumes "bio_inv s" "cached s b = Some p" "p \<in> busy s"
  shows "getblk 0 b s = None"
proof (rule ccontr)
  assume "getblk 0 b s \<noteq> None"
  then obtain r where r: "getblk 0 b s = Some r" by blast
  have "dev = 0 \<longrightarrow> bio_inv t \<longrightarrow> cached t blk = Some p \<longrightarrow> p \<in> busy t \<longrightarrow> False"
    if "getblk dev blk t = Some y" for dev blk t y
  proof (rule getblk.raw_induct [OF _ that])
    fix g dev blk t y
    assume IH: "\<And>dev blk t y. g dev blk t = Some y \<Longrightarrow>
        dev = 0 \<longrightarrow> bio_inv t \<longrightarrow> cached t blk = Some p \<longrightarrow> p \<in> busy t \<longrightarrow> False"
      and body: "(if major dev \<ge> v7_nblkdev t then None
      else Option.bind (d_tab (major dev)) (\<lambda>dp.
        Option.bind (dev_find (v7_buf t) dp (b_forw (v7_buf t dp)) dev blk) (\<lambda>r.
          case r of
            Some bp \<Rightarrow>
              if B_BUSY \<in> bflags t bp then g dev blk (or_bflags bp {B_WANTED} t)
              else Some (bp, notavail bp t)
          | None \<Rightarrow>
              if av_forw (v7_buf t Bfreelist) = Bfreelist
              then g dev blk (or_bflags Bfreelist {B_WANTED} t)
              else let bp = av_forw (v7_buf t Bfreelist); s = notavail bp t in
                if B_DELWRI \<in> bflags s bp then
                  Option.bind (bwrite bp (or_bflags bp {B_ASYNC} s)) (\<lambda>s. g dev blk s)
                else
                  Some (bp, upd_buf bp (\<lambda>b. b\<lparr>b_dev := dev, b_blkno := blk\<rparr>)
                    (move_to bp dp (upd_buf bp (\<lambda>b. b\<lparr>b_flags := {B_BUSY}\<rparr>) s)))))) = Some y"
    show "dev = 0 \<longrightarrow> bio_inv t \<longrightarrow> cached t blk = Some p \<longrightarrow> p \<in> busy t \<longrightarrow> False"
    proof (intro impI)
      assume a: "dev = 0" "bio_inv t" "cached t blk = Some p" "p \<in> busy t"
      then obtain avs devs nos where st: "bio_st t avs devs nos" by (auto simp: bio_inv_def)
      have pp: "p \<in> pool" "p \<notin> set avs" "B_BUSY \<in> bflags t p" using a(4) busy_iff [OF st] by (auto simp: busy_def)
      let ?u = "or_bflags p {B_WANTED} t"
      have "g 0 blk ?u = Some y"
        using body a st pp bio_stD(14) [OF st] by (simp add: d_tab_def dev_find_cached [OF st])
      moreover have "bio_st ?u avs devs nos" by (rule bio_st_flags(2) [OF st pp(1,2)]) simp
      moreover have "cached ?u blk = Some p" using a(3) cached_cong [of ?u blk t] by simp
      ultimately show False using IH [of 0 blk ?u y] pp by (auto simp: busy_def bio_inv_def)
    qed
  qed
  then show False using r assms by blast
qed


section \<open>Initialization\<close>

text \<open>The state after the first \<open>i\<close> rounds of the loop of \<open>binit\<close>.\<close>

definition binit_upto :: "nat \<Rightarrow> kernel \<Rightarrow> bool" where
  "binit_upto i s \<longleftrightarrow> ring (avf s) (avb s) Bfreelist (map Buf [0..<i])
     \<and> ring (bf s) (bb s) Bfreelist (map Buf (rev [0..<i]))
     \<and> (\<forall>j < i. bflags s (Buf j) = {} \<and> b_dev (v7_buf s (Buf j)) = NODEV)
     \<and> (\<forall>p. b_left (v7_buf s p) = (0, 0)) \<and> B_TAPE \<notin> bflags s Rootdsktab"

lemma binit_one_step:
  assumes P: "binit_upto i s"
  shows "binit_upto (Suc i) (binit_one i s)" "buf_only s (binit_one i s)"
proof -
  let ?p = "Buf i"
  define t where "t = upd_buf ?p (\<lambda>b. b\<lparr>b_flags := {B_BUSY}\<rparr>) (set_b_forw Bfreelist ?p
    (set_b_back (b_forw (v7_buf s Bfreelist)) ?p (set_b_forw ?p (b_forw (v7_buf s Bfreelist))
      (set_b_back ?p Bfreelist (upd_buf ?p (\<lambda>b. b\<lparr>b_dev := NODEV\<rparr>) s)))))"
  have R: "ring (avf s) (avb s) Bfreelist (map Buf [0..<i])" "ring (bf s) (bb s) Bfreelist (map Buf (rev [0..<i]))"
    using P by (simp_all add: binit_upto_def)
  have ni: "?p \<notin> set (Bfreelist # map Buf (rev [0..<i]))" "?p \<notin> set (Bfreelist # map Buf [0..<i])" by auto
  have fh: "b_forw (v7_buf s Bfreelist) \<noteq> ?p"
    using ring_links [OF R(2), of Bfreelist] ni(1) by (metis list.set_intros(1))
  have run: "binit_one i s = brelse ?p t"
    using fh by (simp add: binit_one_def Let_def t_def v7_buf_upd_buf)
  have bo: "buf_only s t" unfolding t_def by (intro buf_only_steps buf_only_refl)
  show "buf_only s (binit_one i s)" unfolding run by (rule buf_only_trans [OF bo brelse_buf_only])
  have lt: "bf t = (bf s)(?p := bf s Bfreelist, Bfreelist := ?p)" "bb t = (bb s)(bf s Bfreelist := ?p, ?p := Bfreelist)"
    "avf t = avf s" "avb t = avb s"
    using fh by (auto simp: t_def v7_buf_upd_buf bupd_defs)
  have "ring (avf t) (avb t) Bfreelist (map Buf [0..<i])" unfolding lt by (rule R)
  moreover have ft: "bflags t ?p = {B_BUSY}" by (simp add: t_def v7_buf_upd_buf)
  ultimately have av: "ring (avf (binit_one i s)) (avb (binit_one i s)) Bfreelist (map Buf [0..<Suc i])"
    using brelse_ring [of t "map Buf [0..<i]" ?p] ni(2) by (simp add: run)
  have "ring (bf t) (bb t) Bfreelist (map Buf (rev [0..<Suc i]))"
    using ring_link_front [OF R(2) ni(1)] unfolding lt by simp
  then have b: "ring (bf (binit_one i s)) (bb (binit_one i s)) Bfreelist (map Buf (rev [0..<Suc i]))"
    unfolding run by (simp add: brelse_links)
  have f: "bflags t q = (if q = ?p then {B_BUSY} else bflags s q)"
    "b_dev (v7_buf t q) = (if q = ?p then NODEV else b_dev (v7_buf s q))" "b_left (v7_buf t q) = b_left (v7_buf s q)" for q
    by (auto simp: t_def bupd_defs v7_buf_upd_buf)
  have g: "bflags (binit_one i s) q = (if q = ?p then {} else if q = Bfreelist then bflags s q - {B_WANTED} else bflags s q)"
    "b_dev (v7_buf (binit_one i s) q) = (if q = ?p then NODEV else b_dev (v7_buf s q))"
    "b_left (v7_buf (binit_one i s) q) = b_left (v7_buf s q)" for q
    using brelse_core [of ?p t q] f [of q] by (auto simp: run bcore_def split: if_splits)
  show "binit_upto (Suc i) (binit_one i s)"
    using P av b by (auto simp: binit_upto_def g less_Suc_eq)
qed

lemma binit_rounds:
  assumes "binit_upto 0 s"
  shows "binit_upto n (fold binit_one [0..<n] s) \<and> buf_only s (fold binit_one [0..<n] s)"
proof (induction n)
  case 0
  then show ?case using assms by simp
next
  case (Suc n)
  then show ?case
    using binit_one_step [of n "fold binit_one [0..<n] s"] buf_only_trans by auto
qed

lemma binit_spec:
  assumes s: "v7_nblkdev s = 0" "\<And>p. b_left (v7_buf s p) = (0, 0)" "B_TAPE \<notin> bflags s Rootdsktab"
  shows "bio_inv (binit s)" "busy (binit s) = {}" "cached (binit s) b = None" "io_frame s ((binit s)\<lparr>v7_nblkdev := 0\<rparr>)"
    "dsk_block (binit s) b = dsk_block s b" "v7_nblkdev (binit s) = 1"
proof -
  define s0 where "s0 = upd_buf Bfreelist (\<lambda>b. b\<lparr>b_forw := Bfreelist, b_back := Bfreelist,
     av_forw := Bfreelist, av_back := Bfreelist\<rparr>) s"
  define s1 where "s1 = fold binit_one [0..<NBUF] s0"
  define s2 where "s2 = upd_buf Rootdsktab (\<lambda>b. b\<lparr>b_forw := Rootdsktab, b_back := Rootdsktab\<rparr>) s1"
  have "binit_upto 0 s0"
    using s by (auto simp: binit_upto_def s0_def v7_buf_upd_buf ring_def)
  then have r: "binit_upto NBUF s1" "buf_only s0 s1"
    using binit_rounds [of s0 NBUF] by (simp_all add: s1_def)
  have bo: "buf_only s s2"
    unfolding s2_def using buf_only_trans [OF buf_only_trans [OF _ r(2)] buf_only_upd_buf] by (simp add: s0_def)
  have run: "binit s = s2\<lparr>v7_nblkdev := 1\<rparr>"
    using s(1) buf_only_fields [OF bo] unfolding binit_def Let_def s0_def [symmetric] s1_def [symmetric] s2_def [symmetric]
    by simp
  have nr: "Rootdsktab \<notin> set (Bfreelist # map Buf xs)" for xs by auto
  have rb: "ring (bf s2) (bb s2) Bfreelist (map Buf (rev [0..<NBUF]))"
  proof -
    have "ring (bf s2) (bb s2) Bfreelist (map Buf (rev [0..<NBUF])) = ring (bf s1) (bb s1) Bfreelist (map Buf (rev [0..<NBUF]))"
      by (rule ring_cong) (auto simp: s2_def v7_buf_upd_buf)
    then show ?thesis using r(1) by (simp add: binit_upto_def)
  qed
  have rd: "ring (bf s2) (bb s2) Rootdsktab []" by (simp add: s2_def v7_buf_upd_buf ring_def)
  have "avf s2 = avf s1" "avb s2 = avb s1" by (auto simp: s2_def v7_buf_upd_buf)
  then have ra: "ring (avf s2) (avb s2) Bfreelist (map Buf [0..<NBUF])"
    using r(1) by (simp add: binit_upto_def)
  have f: "bflags s2 q = {}" "b_dev (v7_buf s2 q) = NODEV" if "q \<in> pool" for q
    using that r(1) by (auto simp: s2_def v7_buf_upd_buf binit_upto_def pool_def)
  have e: "b_left (v7_buf s2 q) = (0, 0)" "B_TAPE \<notin> bflags s2 Rootdsktab" for q
    using r(1) by (auto simp: s2_def v7_buf_upd_buf binit_upto_def)
  have st: "bio_st (binit s) (map Buf [0..<NBUF]) [] (map Buf (rev [0..<NBUF]))"
  proof (rule bio_stI)
    show "p \<in> set (map Buf [0..<NBUF]) \<longleftrightarrow> B_BUSY \<notin> bflags (binit s) p" if "p \<in> pool" for p
      unfolding pool_list using that f by (simp add: run)
    show "free_ok (v7_buf (binit s) p)" if "p \<in> set (map Buf [0..<NBUF])" for p
      using that f [of p] unfolding pool_list by (simp add: run free_ok_def)
    have n: "set (map Buf (rev [0..<NBUF])) = pool" using pool_list by simp
    show "set [] \<union> set (map Buf (rev [0..<NBUF])) = pool" unfolding n by simp
    show "set (map Buf [0..<NBUF]) \<subseteq> pool" unfolding pool_list by simp
    show "b_dev (v7_buf (binit s) p) = NODEV" if "p \<in> set (map Buf (rev [0..<NBUF]))" for p
      using that f(2) [of p] unfolding n by (simp add: run)
  qed (use ra rb rd f e in \<open>simp_all add: run\<close>)
  then show "bio_inv (binit s)" by (auto simp: bio_inv_def)
  show "busy (binit s) = {}" using f by (auto simp: busy_def run)
  show "cached (binit s) b = None" using f unfolding cached_None by (simp add: run)
  show "io_frame s ((binit s)\<lparr>v7_nblkdev := 0\<rparr>)"
    using buf_only_fields [OF bo] s(1) by (simp add: io_frame_def run)
  show "dsk_block (binit s) b = dsk_block s b"
    using dsk_block_buf_only [OF bo] dsk_block_cong [of "binit s" s2] by (simp add: run)
  show "v7_nblkdev (binit s) = 1" by (simp add: run)
qed

end
