(* ===== verification/Bio_Client.thy ===== *)
theory Bio_Client
  imports Bio_Ops
begin

text \<open>
  The buffer cache as its clients use it. \<open>alloc.c\<close>, \<open>iget.c\<close>, \<open>subr.c\<close> and
  \<open>rdwri.c\<close> all follow one protocol: take a block with \<open>bread\<close>, change its bytes, give it
  back with \<open>bdwrite\<close>, \<open>bwrite\<close> or \<open>brelse\<close>. The locale \<open>block_store\<close> states what that
  protocol relies on; it is interpreted on \<open>bread\<close> with the delayed and with the immediate
  write. Any run of such transactions and of \<open>bflush\<close> refines the same run on a plain
  array of blocks.
\<close>

definition blocal :: "(block \<Rightarrow> block) \<Rightarrow> bool" where
  "blocal g \<longleftrightarrow> (\<forall>d. trunc_blk (g (trunc_blk d)) = trunc_blk (g d))"

locale block_store =
  fixes ok :: "'s \<Rightarrow> bool"
    and inr :: "'s \<Rightarrow> int \<Rightarrow> bool"
    and frame :: "'s \<Rightarrow> 's \<Rightarrow> bool"
    and own :: "'s \<Rightarrow> 'p set"
    and tag :: "'s \<Rightarrow> 'p \<Rightarrow> int option"
    and avail :: "'s \<Rightarrow> int \<Rightarrow> bool"
    and content :: "'s \<Rightarrow> int \<Rightarrow> block"
    and hold :: "'s \<Rightarrow> 'p \<Rightarrow> int \<Rightarrow> bool"
    and data :: "'s \<Rightarrow> 'p \<Rightarrow> block"
    and rd :: "int \<Rightarrow> 's \<Rightarrow> ('p \<times> 's) option"
    and upd :: "'p \<Rightarrow> (block \<Rightarrow> block) \<Rightarrow> 's \<Rightarrow> 's"
    and wr :: "'p \<Rightarrow> 's \<Rightarrow> 's option"
  assumes frame_trans: "frame s t \<Longrightarrow> frame t u \<Longrightarrow> frame s u"
    and frame_inr: "frame s t \<Longrightarrow> inr t b = inr s b"
    and avail_cong: "ok s \<Longrightarrow> ok t \<Longrightarrow> own t = own s \<Longrightarrow> (\<And>q. q \<in> own s \<Longrightarrow> tag t q = tag s q) \<Longrightarrow>
      avail t b = avail s b"
    and rd_law: "ok s \<Longrightarrow> avail s b \<Longrightarrow> inr s b \<Longrightarrow>
      \<exists>p t. rd b s = Some (p, t) \<and> ok t \<and> frame s t \<and> hold t p b \<and> data t p = content s b
        \<and> p \<notin> own s \<and> own t = insert p (own s) \<and> (\<forall>q \<in> own s. tag t q = tag s q)
        \<and> (\<forall>c. inr s c \<longrightarrow> content t c = content s c)"
    and upd_law: "ok s \<Longrightarrow> hold s p b \<Longrightarrow> blocal g \<Longrightarrow>
      ok (upd p g s) \<and> frame s (upd p g s) \<and> hold (upd p g s) p b \<and> data (upd p g s) p = trunc_blk (g (data s p))
        \<and> own (upd p g s) = own s \<and> (\<forall>q \<in> own s. tag (upd p g s) q = tag s q)
        \<and> (\<forall>c. inr s c \<longrightarrow> c \<noteq> b \<longrightarrow> content (upd p g s) c = content s c)"
    and wr_law: "ok s \<Longrightarrow> hold s p b \<Longrightarrow>
      \<exists>t. wr p s = Some t \<and> ok t \<and> frame s t \<and> own t = own s - {p} \<and> (\<forall>q \<in> own s - {p}. tag t q = tag s q)
        \<and> (\<forall>c. inr s c \<longrightarrow> content t c = (if c = b then data s p else content s c))"
begin

text \<open>The read-modify-write transaction of a client.\<close>

lemma rmw_spec:
  assumes ok: "ok s" and a: "avail s b" and r: "inr s b" and g: "blocal g"
  shows "\<exists>t. do { (p, t) \<leftarrow> rd b s; wr p (upd p g t) } = Some t \<and> ok t \<and> frame s t \<and> own t = own s \<and> (\<forall>c. avail t c = avail s c)
    \<and> (\<forall>c. inr s c \<longrightarrow> content t c = (if c = b then trunc_blk (g (content s b)) else content s c))"
proof -
  obtain p t where t: "rd b s = Some (p, t)" "ok t" "frame s t" "hold t p b" "data t p = content s b"
    "p \<notin> own s" "own t = insert p (own s)" "\<And>q. q \<in> own s \<Longrightarrow> tag t q = tag s q"
    "\<And>c. inr s c \<Longrightarrow> content t c = content s c"
    using rd_law [OF ok a r] by blast
  let ?u = "upd p g t"
  have u: "ok ?u" "frame t ?u" "hold ?u p b" "data ?u p = trunc_blk (g (content s b))" "own ?u = own t"
    "\<And>q. q \<in> own t \<Longrightarrow> tag ?u q = tag t q" "\<And>c. inr t c \<Longrightarrow> c \<noteq> b \<Longrightarrow> content ?u c = content t c"
    using upd_law [OF t(2,4) g] t(5) by simp_all
  obtain v where v: "wr p ?u = Some v" "ok v" "frame ?u v" "own v = own ?u - {p}"
    "\<And>q. q \<in> own ?u - {p} \<Longrightarrow> tag v q = tag ?u q"
    "\<And>c. inr ?u c \<Longrightarrow> content v c = (if c = b then data ?u p else content ?u c)"
    using wr_law [OF u(1,3)] by blast
  have ow: "own v = own s" using v(4) u(5) t(6,7) by simp
  have tg: "tag v q = tag s q" if "q \<in> own s" for q
  proof -
    have "q \<in> own ?u - {p}" "q \<in> own t" using that t(6,7) u(5) by auto
    then show ?thesis using v(5) u(6) t(8) [OF that] by simp
  qed
  have "avail v c = avail s c" for c by (rule avail_cong [OF ok v(2) ow tg])
  moreover have "frame s v" by (rule frame_trans [OF frame_trans [OF t(3) u(2)] v(3)])
  moreover have "content v c = (if c = b then trunc_blk (g (content s b)) else content s c)" if "inr s c" for c
    using v(6) [of c] u(4) u(7) [of c] t(9) [of c] that frame_inr [OF t(3)] frame_inr [OF u(2)] by simp
  ultimately show ?thesis using t(1) v(1,2) ow by auto
qed

text \<open>Transactions on different blocks do not see each other.\<close>

lemma rmw_two:
  assumes "ok s" "avail s b" "avail s c" "inr s b" "inr s c" "b \<noteq> c" "blocal g" "blocal h"
  shows "\<exists>t u. do { (p, t) \<leftarrow> rd b s; wr p (upd p g t) } = Some t \<and> do { (p, x) \<leftarrow> rd c t; wr p (upd p h x) } = Some u \<and> ok u
    \<and> content u b = trunc_blk (g (content s b)) \<and> content u c = trunc_blk (h (content s c))"
proof -
  obtain t where t: "do { (p, t) \<leftarrow> rd b s; wr p (upd p g t) } = Some t" "ok t" "frame s t" "\<And>x. avail t x = avail s x"
    "\<And>x. inr s x \<Longrightarrow> content t x = (if x = b then trunc_blk (g (content s b)) else content s x)"
    using rmw_spec [OF assms(1,2,4,7)] by blast
  have "avail t c" "inr t c" "inr t b" using t(4) frame_inr [OF t(3)] assms by simp_all
  then show ?thesis using rmw_spec [OF t(2), of c h] t(1,5) assms by auto
qed

end


section \<open>The cache provides it\<close>

definition buf_tag :: "kernel \<Rightarrow> bufp \<Rightarrow> int option" where
  "buf_tag s p = (if b_dev (v7_buf s p) = 0 then Some (b_blkno (v7_buf s p)) else None)"

definition buf_hold :: "kernel \<Rightarrow> bufp \<Rightarrow> int \<Rightarrow> bool" where
  "buf_hold s p b \<longleftrightarrow> p \<in> busy s \<and> buf_tag s p = Some b \<and> B_DONE \<in> bflags s p \<and> B_ERROR \<notin> bflags s p"

abbreviation "bread_data s p \<equiv> trunc_blk (bdata s p)"

lemma pool_nonempty: "{} \<noteq> pool"
proof -
  have "Buf 0 \<in> pool" by (simp add: pool_def)
  then show ?thesis by blast
qed

lemma pool_not_single: "{p} \<noteq> pool"
proof
  assume "{p} = pool"
  moreover have "Buf 0 \<in> pool" "Buf 1 \<in> pool" by (simp_all add: pool_def)
  ultimately have "Buf 0 = p" "Buf 1 = p" by auto
  then have "Buf 0 = Buf 1" by (rule trans [OF _ sym])
  then show False by simp
qed

text \<open>A block can be taken when a buffer is left for it and nobody holds it.\<close>

lemma room_iff:
  assumes "cache_ok s"
  shows "room s b \<longleftrightarrow> busy s \<noteq> pool \<and> (\<forall>p \<in> busy s. buf_tag s p \<noteq> Some b)"
proof -
  obtain avs devs nos where st: "bio_st s avs devs nos" by (rule cache_okE [OF assms])
  have C: "cached s b = Some q \<longleftrightarrow> q \<in> pool \<and> buf_tag s q = Some b" for q
    using cached_Some [OF st, of b q] by (auto simp: buf_tag_def)
  show ?thesis
  proof (cases "cached s b")
    case None
    then show ?thesis using C by (auto simp: room_def busy_def)
  next
    case (Some p)
    then have p: "p \<in> pool" "buf_tag s p = Some b" using C by simp_all
    have u: "q = p" if "q \<in> busy s" "buf_tag s q = Some b" for q
      using that C [of q] Some by (simp add: busy_def)
    have "p \<notin> busy s \<longleftrightarrow> (\<forall>q \<in> busy s. buf_tag s q \<noteq> Some b)" using p(2) u by blast
    moreover have "p \<notin> busy s \<Longrightarrow> busy s \<noteq> pool" using p(1) by blast
    ultimately show ?thesis unfolding room_def Some option.case by blast
  qed
qed

lemma undisturbed_tag: "undisturbed s t Q \<Longrightarrow> q \<in> Q \<Longrightarrow> buf_tag t q = buf_tag s q"
  unfolding undisturbed_def buf_tag_def using bcoreD by metis

lemma io_frame_inrange: "io_frame s t \<Longrightarrow> dsk_inrange t b = dsk_inrange s b"
  using io_frame_dsk(3) by simp

lemma room_cong:
  "cache_ok s \<Longrightarrow> cache_ok t \<Longrightarrow> busy t = busy s \<Longrightarrow> (\<And>q. q \<in> busy s \<Longrightarrow> buf_tag t q = buf_tag s q) \<Longrightarrow>
   room t b = room s b"
  by (simp add: room_iff)

lemma bread_law:
  assumes "cache_ok s" "room s b" "dsk_inrange s b"
  shows "\<exists>p t. bread 0 b s = Some (p, t) \<and> cache_ok t \<and> io_frame s t \<and> buf_hold t p b \<and> bread_data t p = view s b
    \<and> p \<notin> busy s \<and> busy t = insert p (busy s) \<and> (\<forall>q \<in> busy s. buf_tag t q = buf_tag s q)
    \<and> (\<forall>c. dsk_inrange s c \<longrightarrow> view t c = view s c)"
proof -
  obtain p t where t: "bread 0 b s = Some (p, t)" "taken s p t" "b_dev (v7_buf t p) = 0" "b_blkno (v7_buf t p) = b"
    "B_DONE \<in> bflags t p" "trunc_blk (bdata t p) = view s b"
    using bread_spec [OF assms(1,2)] assms(3) by blast
  then have "buf_hold t p b" by (auto simp: buf_hold_def buf_tag_def taken_def)
  moreover have "io_frame s t" "\<forall>q \<in> busy s. buf_tag t q = buf_tag s q"
    using t(2) undisturbed_tag by (auto simp: taken_def undisturbed_def)
  ultimately show ?thesis using t by (auto simp: taken_def)
qed

lemma upd_data_law:
  assumes "cache_ok s" "buf_hold s p b" "blocal g"
  shows "cache_ok (upd_data p g s) \<and> io_frame s (upd_data p g s) \<and> buf_hold (upd_data p g s) p b
    \<and> bread_data (upd_data p g s) p = trunc_blk (g (bread_data s p))
    \<and> busy (upd_data p g s) = busy s \<and> (\<forall>q \<in> busy s. buf_tag (upd_data p g s) q = buf_tag s q)
    \<and> (\<forall>c. dsk_inrange s c \<longrightarrow> c \<noteq> b \<longrightarrow> view (upd_data p g s) c = view s c)"
proof -
  have p: "p \<in> busy s" "b_dev (v7_buf s p) = 0" "b_blkno (v7_buf s p) = b"
    using assms(2) by (auto simp: buf_hold_def buf_tag_def split: if_splits)
  note u = upd_data_spec [OF assms(1) p(1), of g]
  have "buf_tag (upd_data p g s) q = buf_tag s q" for q by (simp add: buf_tag_def)
  then show ?thesis using u p assms(2,3) by (auto simp: buf_hold_def blocal_def undisturbed_def)
qed

lemma released_law:
  assumes "released s p t" "q \<in> busy s - {p}"
  shows "buf_tag t q = buf_tag s q"
  using assms undisturbed_tag by (auto simp: released_def)

lemma bdwrite_law:
  assumes "cache_ok s" "buf_hold s p b"
  shows "\<exists>t. bdwrite p s = Some t \<and> cache_ok t \<and> io_frame s t \<and> busy t = busy s - {p}
    \<and> (\<forall>q \<in> busy s - {p}. buf_tag t q = buf_tag s q)
    \<and> (\<forall>c. dsk_inrange s c \<longrightarrow> view t c = (if c = b then bread_data s p else view s c))"
proof -
  have p: "p \<in> busy s" "b_dev (v7_buf s p) = 0" "b_blkno (v7_buf s p) = b" "B_ERROR \<notin> bflags s p"
    using assms(2) by (auto simp: buf_hold_def buf_tag_def split: if_splits)
  obtain t where t: "bdwrite p s = Some t" "released s p t"
    "\<And>c. view t c = (if c = b_blkno (v7_buf s p) then trunc_blk (bdata s p) else view s c)"
    using bdwrite_spec [OF assms(1) p(1,2,4)] by blast
  then show ?thesis using p released_law [OF t(2)] by (auto simp: released_def undisturbed_def)
qed

lemma bwrite_law:
  assumes "cache_ok s" "buf_hold s p b"
  shows "\<exists>t. bwrite p s = Some t \<and> cache_ok t \<and> io_frame s t \<and> busy t = busy s - {p}
    \<and> (\<forall>q \<in> busy s - {p}. buf_tag t q = buf_tag s q)
    \<and> (\<forall>c. dsk_inrange s c \<longrightarrow> view t c = (if c = b then bread_data s p else view s c))"
proof -
  have p: "p \<in> busy s" "b_dev (v7_buf s p) = 0" "b_blkno (v7_buf s p) = b"
    using assms(2) by (auto simp: buf_hold_def buf_tag_def split: if_splits)
  obtain t where t: "bwrite p s = Some t" "released s p t"
    "\<And>c. dsk_inrange s c \<Longrightarrow> view t c = (if c = b_blkno (v7_buf s p) then trunc_blk (bdata s p) else view s c)"
    using bwrite_client [OF assms(1) p(1,2)] by blast
  then show ?thesis using p released_law [OF t(2)] by (auto simp: released_def undisturbed_def)
qed

lemma io_frame_trans2: "io_frame s t \<Longrightarrow> io_frame t u \<Longrightarrow> io_frame s u"
  by (rule io_frame_trans)

interpretation delayed_store: block_store cache_ok dsk_inrange io_frame busy buf_tag room view buf_hold
  bread_data "bread 0" upd_data bdwrite
  by unfold_locales
    (rule io_frame_trans2 io_frame_inrange room_cong bread_law upd_data_law bdwrite_law; assumption)+

interpretation direct_store: block_store cache_ok dsk_inrange io_frame busy buf_tag room view buf_hold
  bread_data "bread 0" upd_data bwrite
  by unfold_locales
    (rule io_frame_trans2 io_frame_inrange room_cong bread_law upd_data_law bwrite_law; assumption)+


section \<open>Runs of transactions\<close>

datatype bop = Oread int | Odelayed int "block \<Rightarrow> block" | Odirect int "block \<Rightarrow> block" | Oflush

primrec run_bop :: "bop \<Rightarrow> kernel \<Rightarrow> kernel option" where
  "run_bop (Oread b) s = do { (p, s) \<leftarrow> bread 0 b s; Some (brelse p s) }"
| "run_bop (Odelayed b g) s = do { (p, s) \<leftarrow> bread 0 b s; bdwrite p (upd_data p g s) }"
| "run_bop (Odirect b g) s = do { (p, s) \<leftarrow> bread 0 b s; bwrite p (upd_data p g s) }"
| "run_bop Oflush s = bflush NODEV s"

text \<open>The same on an array of blocks.\<close>

primrec spec_bop :: "bop \<Rightarrow> (int \<Rightarrow> block) \<Rightarrow> int \<Rightarrow> block" where
  "spec_bop (Oread b) m = m"
| "spec_bop (Odelayed b g) m = m(b := trunc_blk (g (m b)))"
| "spec_bop (Odirect b g) m = m(b := trunc_blk (g (m b)))"
| "spec_bop Oflush m = m"

primrec bop_ok :: "kernel \<Rightarrow> bop \<Rightarrow> bool" where
  "bop_ok s (Oread b) \<longleftrightarrow> dsk_inrange s b \<and> room s b"
| "bop_ok s (Odelayed b g) \<longleftrightarrow> dsk_inrange s b \<and> room s b \<and> blocal g"
| "bop_ok s (Odirect b g) \<longleftrightarrow> dsk_inrange s b \<and> room s b \<and> blocal g"
| "bop_ok s Oflush \<longleftrightarrow> True"

definition agrees :: "kernel \<Rightarrow> (int \<Rightarrow> block) \<Rightarrow> bool" where
  "agrees s m \<longleftrightarrow> (\<forall>c. dsk_inrange s c \<longrightarrow> view s c = m c)"

definition same_room :: "kernel \<Rightarrow> kernel \<Rightarrow> bool" where
  "same_room s t \<longleftrightarrow> io_frame s t \<and> (\<forall>c. room t c = room s c) \<and> busy t = busy s"

lemma same_room_ok: "same_room s t \<Longrightarrow> bop_ok t p = bop_ok s p"
  using io_frame_inrange [of s t] by (cases p) (auto simp: same_room_def)

lemma taken_released_same:
  assumes "taken s p t" "released t p u" "cache_ok s"
  shows "cache_ok u" "same_room s u"
proof -
  show c: "cache_ok u" using assms by (simp add: released_def)
  have b: "busy u = busy s" and t: "\<And>q. q \<in> busy s \<Longrightarrow> buf_tag u q = buf_tag s q"
    using assms undisturbed_tag by (auto simp: taken_def released_def)
  have "io_frame s u" using assms io_frame_trans by (auto simp: taken_def released_def undisturbed_def)
  then show "same_room s u" using room_cong [OF assms(3) c b t] b by (simp add: same_room_def)
qed

lemma bread_brelse:
  assumes "cache_ok s" "room s b"
  shows "\<exists>p t. bread 0 b s = Some (p, t) \<and> (dsk_inrange s b \<longrightarrow> trunc_blk (bdata t p) = view s b)
    \<and> cache_ok (brelse p t) \<and> same_room s (brelse p t)
    \<and> (\<forall>c. dsk_inrange s c \<longrightarrow> view (brelse p t) c = view s c)"
proof -
  obtain p t where t: "bread 0 b s = Some (p, t)" "taken s p t" "dsk_inrange s b \<longrightarrow> trunc_blk (bdata t p) = view s b"
    using bread_spec [OF assms] by blast
  have h: "cache_ok t" "p \<in> busy t" "pristine t p" "B_ERROR \<notin> bflags t p"
    "B_DELWRI \<in> bflags t p \<Longrightarrow> B_DONE \<in> bflags t p \<and> b_dev (v7_buf t p) = 0"
    using t(2) by (auto simp: taken_def)
  note r = brelse_spec [OF h]
  show ?thesis
    using t r(2) taken_released_same [OF t(2) r(1) assms(1)] by (auto simp: taken_def)
qed

lemma flush_step:
  assumes "cache_ok s"
  shows "\<exists>t. bflush NODEV s = Some t \<and> cache_ok t \<and> same_room s t \<and> delayed t = {}
    \<and> (\<forall>c. dsk_inrange s c \<longrightarrow> view t c = view s c)"
proof -
  obtain t where t: "bflush NODEV s = Some t" "cache_ok t" "busy t = busy s" "undisturbed s t (busy s)" "delayed t = {}"
    "\<forall>c. dsk_inrange s c \<longrightarrow> view t c = view s c"
    using bflush_spec [OF assms] by blast
  have "room t c = room s c" for c by (rule room_cong [OF assms t(2,3) undisturbed_tag [OF t(4)]])
  then show ?thesis using t by (simp add: same_room_def undisturbed_def)
qed

text \<open>One step of the cache is one step of the array.\<close>

lemma bop_step:
  assumes ok: "cache_ok s" and p: "bop_ok s p" and a: "agrees s m"
  shows "\<exists>t. run_bop p s = Some t \<and> cache_ok t \<and> same_room s t \<and> agrees t (spec_bop p m)"
proof -
  have put: "\<exists>t. f s = Some t \<and> cache_ok t \<and> same_room s t \<and> agrees t (m(b := trunc_blk (g (m b))))"
    if b: "dsk_inrange s b" and ex: "\<exists>t. f s = Some t \<and> cache_ok t \<and> io_frame s t \<and> busy t = busy s \<and> (\<forall>c. room t c = room s c)
      \<and> (\<forall>c. dsk_inrange s c \<longrightarrow> view t c = (if c = b then trunc_blk (g (view s b)) else view s c))" for f b g
  proof -
    obtain t where t: "f s = Some t" "cache_ok t" "same_room s t" "io_frame s t"
      and v: "\<And>c. dsk_inrange s c \<Longrightarrow> view t c = (if c = b then trunc_blk (g (view s b)) else view s c)"
      using ex unfolding same_room_def by blast
    have "agrees t (m(b := trunc_blk (g (m b))))"
      using v a b unfolding agrees_def io_frame_inrange [OF t(4)] by simp
    then show ?thesis using t by blast
  qed
  have keep: "agrees t m" if "same_room s t" "\<forall>c. dsk_inrange s c \<longrightarrow> view t c = view s c" for t
    using that a io_frame_inrange [of s t] by (simp add: same_room_def agrees_def)
  show ?thesis
  proof (cases p)
    case (Oread b)
    then obtain q t where "bread 0 b s = Some (q, t)" "cache_ok (brelse q t)" "same_room s (brelse q t)"
      "\<forall>c. dsk_inrange s c \<longrightarrow> view (brelse q t) c = view s c"
      using bread_brelse [OF ok, of b] p by auto
    then show ?thesis using Oread keep by simp
  next
    case (Odelayed b g)
    then show ?thesis using put [of b "run_bop p" g] delayed_store.rmw_spec [OF ok, of b g] p by simp
  next
    case (Odirect b g)
    then show ?thesis using put [of b "run_bop p" g] direct_store.rmw_spec [OF ok, of b g] p by simp
  next
    case Oflush
    then show ?thesis using flush_step [OF ok] keep by auto
  qed
qed

lemma same_room_trans: "same_room s t \<Longrightarrow> same_room t u \<Longrightarrow> same_room s u"
  unfolding same_room_def by (metis io_frame_trans)

lemma bops_refine:
  assumes "cache_ok s" "\<forall>p \<in> set ops. bop_ok s p" "agrees s m"
  shows "\<exists>t. for_each run_bop ops s = Some t \<and> cache_ok t \<and> same_room s t \<and> agrees t (fold spec_bop ops m)"
  using assms
proof (induction ops arbitrary: s m)
  case Nil
  have "same_room s s" by (simp add: same_room_def io_frame_def)
  then show ?case using Nil by simp
next
  case (Cons p ops)
  obtain t where t: "run_bop p s = Some t" "cache_ok t" "same_room s t" "agrees t (spec_bop p m)"
    using bop_step [OF Cons.prems(1) _ Cons.prems(3), of p] Cons.prems(2) by auto
  have "\<forall>q \<in> set ops. bop_ok t q" using Cons.prems(2) same_room_ok [OF t(3)] by simp
  then obtain u where "for_each run_bop ops t = Some u" "cache_ok u" "same_room t u" "agrees u (fold spec_bop ops (spec_bop p m))"
    using Cons.IH [OF t(2) _ t(4)] by blast
  then show ?case using t same_room_trans by auto
qed

text \<open>After the final \<open>bflush\<close> the image file itself is the array, if no buffer is held.\<close>

lemma bops_on_disk:
  assumes "cache_ok s" "busy s = {}" "\<forall>p \<in> set ops. bop_ok s p" "agrees s m"
  shows "\<exists>t. for_each run_bop (ops @ [Oflush]) s = Some t
    \<and> (\<forall>c. dsk_inrange s c \<longrightarrow> dsk_block t c = fold spec_bop ops m c)"
proof -
  obtain t where t: "for_each run_bop ops s = Some t" "cache_ok t" "same_room s t" "agrees t (fold spec_bop ops m)"
    using bops_refine [OF assms(1,3,4)] by blast
  obtain u where u: "bflush NODEV t = Some u" "cache_ok u" "same_room t u" "delayed u = {}"
    "\<forall>c. dsk_inrange t c \<longrightarrow> view u c = view t c"
    using flush_step [OF t(2)] by blast
  have b: "busy u = {}" and fr: "io_frame s t" "io_frame t u" using t(3) u(3) assms(2) by (simp_all add: same_room_def)
  note r = io_frame_inrange [OF fr(1)] io_frame_inrange [OF fr(2)]
  have "dsk_block u c = fold spec_bop ops m c" if "dsk_inrange s c" for c
    using synced [OF u(2,4), of c] b r that u(5) t(4) by (simp add: agrees_def)
  then show ?thesis using t(1) u(1) by (simp add: for_each_append)
qed

end
