(* ===== verification/Alloc_Spec.thy ===== *)
theory Alloc_Spec
  imports Alloc Bio_Client
begin

text \<open>
  The free list of \<open>alloc.c\<close> as a stack of block numbers. The table in the superblock holds
  up to \<open>NICFREE\<close> entries; its first entry, when it is not the end mark 0, is a free block whose first
  bytes hold the next table. \<open>chain\<close> relates a table and the blocks behind it to the list
  they stand for; \<open>free\<close> pushes a block on it, \<open>alloc\<close> pops one and returns it cleared, and
  both leave every block that is not theirs alone.
\<close>

section \<open>Fields of the superblock\<close>

text \<open>A field after a store to the same field, and after a store to another one.\<close>

lemma super_same:
  "s_nfree (set_s_nfree v d) = s16 v" "s_flock (set_s_flock v d) = s8 v" "s_tfree (set_s_tfree v d) = s32 v"
  "s_fmod (set_s_fmod v d) = s8 v" "s_ninode (set_s_ninode v d) = s16 v" "s_tinode (set_s_tinode v d) = s16 v"
  "s_time (set_s_time v d) = s32 v"
  by (simp_all add: filsys_defs mem_simps)

lemma super_free:
  "s_free (set_s_free i v d) j = (if i = j then s32 v else s_free d j)"
proof (cases "i = j")
  case False
  then have "8 + 4 * j + 3 < 8 + 4 * i \<or> 8 + 4 * i + 3 < 8 + 4 * j" by linarith
  then show ?thesis using False by (simp add: filsys_defs ld32_st32_other)
qed (simp add: filsys_defs mem_simps)

lemma super_other:
  "s_nfree (set_s_flock v d) = s_nfree d" "s_nfree (set_s_tfree v d) = s_nfree d" "s_nfree (set_s_fmod v d) = s_nfree d"
  "s_nfree (set_s_free i v d) = s_nfree d"
  "s_flock (set_s_nfree v d) = s_flock d" "s_flock (set_s_tfree v d) = s_flock d" "s_flock (set_s_fmod v d) = s_flock d"
  "s_tfree (set_s_nfree v d) = s_tfree d" "s_tfree (set_s_flock v d) = s_tfree d" "s_tfree (set_s_fmod v d) = s_tfree d"
  "s_isize (set_s_nfree v d) = s_isize d" "s_isize (set_s_flock v d) = s_isize d" "s_isize (set_s_tfree v d) = s_isize d"
  "s_isize (set_s_fmod v d) = s_isize d" "s_isize (set_s_free i v d) = s_isize d"
  "s_fsize (set_s_nfree v d) = s_fsize d" "s_fsize (set_s_flock v d) = s_fsize d" "s_fsize (set_s_tfree v d) = s_fsize d"
  "s_fsize (set_s_fmod v d) = s_fsize d" "s_fsize (set_s_free i v d) = s_fsize d"
  "s_ninode (set_s_nfree v d) = s_ninode d" "s_ninode (set_s_flock v d) = s_ninode d"
  "s_ninode (set_s_tfree v d) = s_ninode d" "s_ninode (set_s_fmod v d) = s_ninode d"
  "s_free (set_s_nfree v d) j = s_free d j"
  "j < 50 \<Longrightarrow> s_free (set_s_flock v d) j = s_free d j" "j < 50 \<Longrightarrow> s_free (set_s_tfree v d) j = s_free d j"
  "j < 50 \<Longrightarrow> s_free (set_s_fmod v d) j = s_free d j"
  "i < 50 \<Longrightarrow> s_flock (set_s_free i v d) = s_flock d" "i < 50 \<Longrightarrow> s_tfree (set_s_free i v d) = s_tfree d"
  "i < 50 \<Longrightarrow> s_ninode (set_s_free i v d) = s_ninode d"
  by (simp_all add: filsys_defs mem_simps)

text \<open>The table moves to and from a block.\<close>

lemma super_table:
  "j < 50 \<Longrightarrow> s_free (copy_bytes 200 8 d 2 e) j = df_free e j"
  "s_nfree (copy_bytes 200 8 d 2 e) = s_nfree d" "s_flock (copy_bytes 200 8 d 2 e) = s_flock d"
  "s_tfree (copy_bytes 200 8 d 2 e) = s_tfree d" "s_isize (copy_bytes 200 8 d 2 e) = s_isize d"
  "s_fsize (copy_bytes 200 8 d 2 e) = s_fsize d" "s_ninode (copy_bytes 200 8 d 2 e) = s_ninode d"
  "j < 50 \<Longrightarrow> df_free (copy_bytes 200 2 e 8 d) j = s_free d j"
  "df_nfree (copy_bytes 200 2 e 8 d) = df_nfree e" "df_nfree (set_df_nfree v e) = s16 v"
  by (simp_all add: filsys_defs fblk_defs mem_simps)

lemma table_trunc: "df_nfree (trunc_blk e) = df_nfree e" "j < 50 \<Longrightarrow> df_free (trunc_blk e) j = df_free e j"
  by (simp_all add: fblk_defs mem_simps)

lemma field_range [simp]:
  "s16 (s_nfree d) = s_nfree d" "s16 (df_nfree d) = df_nfree d" "s32 (s_free d i) = s_free d i"
  by (simp_all add: filsys_defs fblk_defs ld16_def ld32_def)

lemmas super_simps = super_same super_free super_other super_table


section \<open>The list a table stands for\<close>

definition sb_count :: "block \<Rightarrow> int" where
  "sb_count d = wswap_int16 (s_nfree d)"

definition sb_entry :: "block \<Rightarrow> nat \<Rightarrow> int" where
  "sb_entry d i = wswap_int32 (s_free d i)"

definition fb_count :: "block \<Rightarrow> int" where
  "fb_count d = wswap_int16 (df_nfree d)"

definition fb_entry :: "block \<Rightarrow> nat \<Rightarrow> int" where
  "fb_entry d i = wswap_int32 (df_free d i)"

inductive chain :: "(int \<Rightarrow> block) \<Rightarrow> int \<Rightarrow> (nat \<Rightarrow> int) \<Rightarrow> int list \<Rightarrow> bool" for V where
  chain_empty: "chain V 0 e []"
| chain_end: "e 0 = 0 \<Longrightarrow> chain V 1 e []"
| chain_link: "e 0 = b \<Longrightarrow> b \<noteq> 0 \<Longrightarrow> 1 \<le> fb_count (V b) \<Longrightarrow> chain V (fb_count (V b)) (fb_entry (V b)) xs \<Longrightarrow>
    chain V 1 e (b # xs)"
| chain_entry: "chain V n e xs \<Longrightarrow> 1 \<le> n \<Longrightarrow> n < NICFREE \<Longrightarrow> chain V (n + 1) e (e (nat n) # xs)"

inductive_cases chain_ConsE: "chain V n e (b # xs)"
inductive_cases chain_NilE: "chain V n e []"

lemma chain_count: "chain V n e xs \<Longrightarrow> 0 \<le> n \<and> n \<le> NICFREE"
  by (induction rule: chain.induct) auto

lemma chain_cong:
  assumes "chain V n e xs" "\<And>i. int i < n \<Longrightarrow> e' i = e i" "\<And>b. b \<in> set xs \<Longrightarrow> V' b = V b"
  shows "chain V' n e' xs"
  using assms
proof (induction arbitrary: e' rule: chain.induct)
  case (chain_link e b xs)
  then have "chain V' (fb_count (V' b)) (fb_entry (V' b)) xs" by simp
  then show ?case using chain_link by (intro chain.chain_link) auto
next
  case (chain_entry n e xs)
  then have "chain V' n e' xs" by auto
  then have "chain V' (n + 1) e' (e' (nat n) # xs)" using chain_entry.hyps(2,3) by (rule chain.chain_entry)
  then show ?case using chain_entry.hyps(2) chain_entry.prems(1) [of "nat n"] by simp
qed (auto intro: chain.intros)

text \<open>Taking the head off.\<close>

lemma chain_pop:
  assumes "chain V n e (b # xs)" "b \<noteq> 0"
  shows "1 \<le> n \<and> n \<le> NICFREE \<and> e (nat (n - 1)) = b
    \<and> (1 < n \<and> chain V (n - 1) e xs
       \<or> n = 1 \<and> 1 \<le> fb_count (V b) \<and> chain V (fb_count (V b)) (fb_entry (V b)) xs)"
  using assms(1) by (rule chain_ConsE) auto

lemma chain_zero: "chain V n e (0 # xs) \<Longrightarrow> 1 < n"
  by (erule chain_ConsE) auto

lemma chain_nil: "chain V n e [] \<Longrightarrow> n = 0 \<or> n = 1 \<and> e 0 = 0"
  by (erule chain_NilE) auto



section \<open>Steps that only touch the superblock\<close>

text \<open>
  The superblock of the root file system lives in a buffer that is taken at start-up and never
  given back. It stands for no block inside the disk: \<open>iinit\<close> takes it from \<open>geteblk\<close>, with no
  device, \<open>v7fs_mkfs\<close> as block \<open>-1\<close>.
\<close>

definition off_disk :: "kernel \<Rightarrow> bufp \<Rightarrow> bool" where
  "off_disk s p \<longleftrightarrow> (\<forall>b. buf_tag s p = Some b \<longrightarrow> \<not> dsk_inrange s b)"

definition super :: "kernel \<Rightarrow> bufp \<Rightarrow> bool" where
  "super s fp \<longleftrightarrow> m_bufp (v7_mount s 0) = Some fp \<and> m_dev (v7_mount s 0) = 0 \<and> fp \<in> busy s \<and> off_disk s fp"

definition quiet :: "bufp \<Rightarrow> int set \<Rightarrow> kernel \<Rightarrow> kernel \<Rightarrow> bool" where
  "quiet fp B s t \<longleftrightarrow> cache_ok t \<and> busy t = busy s \<and> undisturbed s t (busy s - {fp}) \<and> buf_tag t fp = buf_tag s fp
     \<and> (\<forall>c. dsk_inrange s c \<longrightarrow> c \<notin> B \<longrightarrow> view t c = view s c)"

lemma off_disk_cong: "io_frame s t \<Longrightarrow> buf_tag t p = buf_tag s p \<Longrightarrow> off_disk t p = off_disk s p"
  using io_frame_inrange [of s t] by (simp add: off_disk_def)

lemma off_disk_view:
  assumes "cache_ok s" "p \<in> busy s" "off_disk s p" "dsk_inrange s c"
  shows "view (upd_data p g s) c = view s c"
  using upd_data_spec(4) [OF assms(1,2), of g c] assms(3,4) by (auto simp: off_disk_def buf_tag_def)

lemma quiet_frame: "quiet fp B s t \<Longrightarrow> io_frame s t"
  by (simp add: quiet_def undisturbed_def)

lemma quiet_mono: "quiet fp B s t \<Longrightarrow> B \<subseteq> C \<Longrightarrow> quiet fp C s t"
  by (auto simp: quiet_def)

lemma quiet_tag: "quiet fp B s t \<Longrightarrow> q \<in> busy s \<Longrightarrow> buf_tag t q = buf_tag s q"
  unfolding quiet_def using undisturbed_tag [of s t "busy s - {fp}" q] by (cases "q = fp") auto

lemma quiet_trans: "quiet fp B s t \<Longrightarrow> quiet fp B t u \<Longrightarrow> quiet fp B s u"
  using undisturbed_trans [of s t "busy s - {fp}" u "busy s - {fp}"] io_frame_inrange [OF quiet_frame, of fp B s t]
  by (simp add: quiet_def)

lemma quiet_super: "super s fp \<Longrightarrow> quiet fp B s t \<Longrightarrow> super t fp"
  using io_frame_fields(2) [OF quiet_frame, of fp B s t] off_disk_cong [OF quiet_frame, of fp B s t fp]
  by (simp add: super_def quiet_def)

lemma quiet_room: "cache_ok s \<Longrightarrow> quiet fp B s t \<Longrightarrow> room t b = room s b"
  using room_cong [of s t b] quiet_tag [of fp B s t] by (simp add: quiet_def)

lemma quiet_upd:
  assumes "cache_ok s" "super s fp"
  shows "quiet fp B s (upd_data fp g s)"
proof -
  have fp: "fp \<in> busy s" "off_disk s fp" using assms(2) by (simp_all add: super_def)
  show ?thesis
    using upd_data_spec(1-3) [OF assms(1) fp(1)] off_disk_view [OF assms(1) fp] by (simp add: quiet_def buf_tag_def)
qed

lemma upd_data_comp: "upd_data p g (upd_data p h s) = upd_data p (\<lambda>d. g (h d)) s"
  by (simp add: upd_data_def upd_buf_def)

lemma upd_data_id: "upd_data p (\<lambda>d. d) s = s"
  by (simp add: upd_data_def upd_buf_def)

text \<open>A buffer taken while the superblock is held, its data read into the superblock, and given back.\<close>

lemma read_table:
  assumes ok: "cache_ok s" and fp: "super s fp" and r: "room s b" "dsk_inrange s b"
  obtains p t where "bread 0 b s = Some (p, t)" "B_ERROR \<notin> bflags t p" "trunc_blk (bdata t p) = view s b"
    "p \<noteq> fp" "bdata t fp = bdata s fp" "\<And>g. quiet fp {} s (brelse p (upd_data fp g t))"
    "\<And>g. bdata (brelse p (upd_data fp g t)) fp = g (bdata s fp)"
proof -
  obtain p t where t: "bread 0 b s = Some (p, t)" "taken s p t" "trunc_blk (bdata t p) = view s b"
    using bread_spec [OF ok r(1)] r(2) by blast
  have f: "fp \<in> busy s" "off_disk s fp" using fp by (simp_all add: super_def)
  then have p: "p \<noteq> fp" "p \<in> busy t" "fp \<in> busy t" "cache_ok t" using t(2) by (auto simp: taken_def)
  have u: "undisturbed s t (busy s)" using t(2) by (simp add: taken_def)
  have e: "bcore (v7_buf t fp) = bcore (v7_buf s fp)" using u f(1) by (simp add: undisturbed_def)
  have d: "bdata t fp = bdata s fp" "buf_tag t fp = buf_tag s fp" "off_disk t fp"
    using bcoreD [OF e] undisturbed_tag [OF u f(1)] f(2) u off_disk_cong [of s t fp] by (simp_all add: undisturbed_def)
  have q: "quiet fp {} s (brelse p (upd_data fp g t))" "bdata (brelse p (upd_data fp g t)) fp = g (bdata s fp)" for g
  proof -
    let ?v = "upd_data fp g t"
    note w = upd_data_spec [OF p(4,3), of g]
    have pr: "pristine ?v p" "B_ERROR \<notin> bflags ?v p"
      "B_DELWRI \<in> bflags ?v p \<Longrightarrow> B_DONE \<in> bflags ?v p \<and> b_dev (v7_buf ?v p) = 0"
      using t(2) w(3) p by (auto simp: taken_def undisturbed_def)
    have pv: "p \<in> busy ?v" using w(2) p(2) by simp
    note b = brelse_spec [OF w(1) pv pr]
    have fv: "fp \<in> busy ?v - {p}" using w(2) p by simp
    have eq: "bcore (v7_buf (brelse p ?v) fp) = bcore (v7_buf ?v fp)"
      using b(1) fv by (simp add: released_def undisturbed_def)
    show "bdata (brelse p ?v) fp = g (bdata s fp)" using bcoreD [OF eq] d(1) by simp
    have "undisturbed s (brelse p ?v) (busy s - {fp})"
    proof (rule undisturbed_trans [OF undisturbed_trans [of s t _ ?v "busy t - {fp}"]])
      show "undisturbed ?v (brelse p ?v) (busy ?v - {p})" using b(1) by (simp add: released_def)
      show "undisturbed s t (busy s - {fp})" using u by (auto simp: undisturbed_def)
    qed (use w t(2) in \<open>auto simp: taken_def\<close>)
    moreover have "buf_tag (brelse p ?v) fp = buf_tag s fp"
      using bcoreD [OF eq] d(2) by (simp add: buf_tag_def split: if_splits)
    moreover have "busy (brelse p ?v) = busy s" using b(1) w(2) t(2) by (auto simp: released_def taken_def)
    moreover have "view (brelse p ?v) c = view s c" if "dsk_inrange s c" for c
      using that b(2) off_disk_view [OF p(4,3) d(3)] io_frame_inrange [of s t c] u t(2)
      by (simp add: taken_def undisturbed_def)
    ultimately show "quiet fp {} s (brelse p ?v)" using b(1) by (simp add: quiet_def released_def)
  qed
  show thesis by (rule that [OF t(1) _ t(3) p(1) d(1) q]) (use t(2) in \<open>simp add: taken_def\<close>)
qed

text \<open>A buffer taken for a block, filled from the superblock, and written.\<close>

lemma write_table:
  assumes ok: "cache_ok s" and fp: "super s fp" and r: "room s b" "dsk_inrange s b"
  obtains p t where "getblk 0 b s = Some (p, t)" "p \<noteq> fp" "bdata t fp = bdata s fp"
    "\<And>g h. \<exists>u. bwrite p (upd_data fp h (upd_data p g t)) = Some u \<and> quiet fp {b} s u
       \<and> bdata u fp = h (bdata s fp) \<and> view u b = trunc_blk (g (bdata t p))"
proof -
  obtain p t where t: "getblk 0 b s = Some (p, t)" "taken s p t" "b_dev (v7_buf t p) = 0" "b_blkno (v7_buf t p) = b"
    using getblk_spec [OF ok r(1)] by blast
  have f: "fp \<in> busy s" "off_disk s fp" using fp by (simp_all add: super_def)
  then have p: "p \<noteq> fp" "p \<in> busy t" "fp \<in> busy t" "cache_ok t" and u: "undisturbed s t (busy s)"
    using t(2) by (auto simp: taken_def)
  have e: "bcore (v7_buf t fp) = bcore (v7_buf s fp)" using u f(1) by (simp add: undisturbed_def)
  have d: "bdata t fp = bdata s fp" "buf_tag t fp = buf_tag s fp" "off_disk t fp"
    using bcoreD [OF e] undisturbed_tag [OF u f(1)] f(2) u off_disk_cong [of s t fp] by (simp_all add: undisturbed_def)
  have q: "\<exists>u. bwrite p (upd_data fp h (upd_data p g t)) = Some u \<and> quiet fp {b} s u
       \<and> bdata u fp = h (bdata s fp) \<and> view u b = trunc_blk (g (bdata t p))" for g h
  proof -
    let ?v = "upd_data p g t" and ?w = "upd_data fp h (upd_data p g t)"
    note v = upd_data_spec [OF p(4,2), of g]
    have fv: "fp \<in> busy ?v" using v(2) p(3) by simp
    note w = upd_data_spec [OF v(1) fv, of h]
    have pw: "p \<in> busy ?w" "b_dev (v7_buf ?w p) = 0" using w(2) v(2) p(2) t(3) by simp_all
    obtain u where u': "bwrite p ?w = Some u" "released ?w p u"
      "\<And>c. dsk_inrange ?w c \<Longrightarrow> view u c = (if c = b then trunc_blk (g (bdata t p)) else view ?w c)"
      using bwrite_client [OF w(1) pw] t(4) p(1) by auto
    have bu: "busy u = busy s" using u'(2) w(2) v(2) t(2) by (auto simp: released_def taken_def)
    have "undisturbed s t (busy s - {fp})" using u by (auto simp: undisturbed_def)
    then have "undisturbed s ?v (busy s - {fp})"
      by (rule undisturbed_trans [OF _ v(3)]) (use t(2) in \<open>auto simp: taken_def\<close>)
    then have uw: "undisturbed s ?w (busy s - {fp})"
      by (rule undisturbed_trans [OF _ w(3)]) (use v(2) t(2) in \<open>auto simp: taken_def\<close>)
    have "undisturbed ?w u (busy ?w - {p})" using u'(2) by (simp add: released_def)
    with uw have un: "undisturbed s u (busy s - {fp})"
      by (rule undisturbed_trans) (use v(2) w(2) t(2) in \<open>auto simp: taken_def\<close>)
    have ew: "bcore (v7_buf u fp) = bcore (v7_buf ?w fp)"
      using u'(2) w(2) v(2) p by (simp add: released_def undisturbed_def)
    have r': "dsk_inrange ?w c = dsk_inrange s c" for c
      using uw io_frame_inrange [of s ?w] by (simp add: undisturbed_def)
    have od: "off_disk ?v fp" using d(3) v(3) off_disk_cong [of t ?v fp] by (simp add: undisturbed_def buf_tag_def)
    have rv: "dsk_inrange ?v c = dsk_inrange s c" for c
      using v(3) u io_frame_inrange [of t ?v] io_frame_inrange [of s t] by (simp add: undisturbed_def)
    have "view u c = view s c" if "dsk_inrange s c" "c \<noteq> b" for c
      using that u'(3) [of c] r' rv off_disk_view [OF v(1) fv od] v(4) [of c] t by (simp add: taken_def)
    moreover have "view u b = trunc_blk (g (bdata t p))" using u'(3) [of b] r' r(2) by simp
    moreover have "buf_tag u fp = buf_tag s fp" using bcoreD [OF ew] d(2) by (simp add: buf_tag_def split: if_splits)
    moreover have "bdata u fp = h (bdata s fp)" using bcoreD [OF ew] d(1) p(1) by simp
    ultimately show ?thesis using u'(1,2) bu un by (auto simp: quiet_def released_def)
  qed
  show thesis by (rule that [OF t(1) p(1) d(1) q])
qed


section \<open>The free list of a mounted file system\<close>

definition data_block :: "kernel \<Rightarrow> bufp \<Rightarrow> int \<Rightarrow> bool" where
  "data_block s fp b \<longleftrightarrow> wswap_int16 (s_isize (bdata s fp)) \<le> b \<and> b < wswap_int32 (s_fsize (bdata s fp))
     \<and> dsk_inrange s b"

definition unheld :: "kernel \<Rightarrow> int \<Rightarrow> bool" where
  "unheld s b \<longleftrightarrow> (\<forall>p \<in> busy s. buf_tag s p \<noteq> Some b)"

definition freelist :: "kernel \<Rightarrow> bufp \<Rightarrow> int list \<Rightarrow> bool" where
  "freelist s fp xs \<longleftrightarrow> super s fp \<and> s_flock (bdata s fp) = 0 \<and> wswap_int16 (s_ninode (bdata s fp)) \<le> NICINOD
     \<and> 0 < wswap_int16 (s_isize (bdata s fp))
     \<and> chain (view s) (sb_count (bdata s fp)) (sb_entry (bdata s fp)) xs \<and> distinct xs
     \<and> wswap_int32 (s_tfree (bdata s fp)) = int (length xs)
     \<and> (\<forall>b \<in> set xs. data_block s fp b \<and> unheld s b)"

definition sb_same :: "block \<Rightarrow> block \<Rightarrow> bool" where
  "sb_same d e \<longleftrightarrow> s_isize e = s_isize d \<and> s_fsize e = s_fsize d \<and> s_ninode e = s_ninode d"

lemma data_block_range:
  assumes "0 < wswap_int16 (s_isize (bdata s fp))" "data_block s fp b"
  shows "0 < b" "b < 2147483648"
  using assms s32_bounds [of "wswap_int32 (s_fsize (bdata s fp))"] by (simp_all add: data_block_def)

lemma data_block_cong:
  "sb_same (bdata s fp) (bdata t fp) \<Longrightarrow> io_frame s t \<Longrightarrow> data_block t fp b = data_block s fp b"
  using io_frame_inrange [of s t b] by (simp add: data_block_def sb_same_def)

lemma getfs_super:
  assumes "super s fp" "sb_count (bdata s fp) \<le> NICFREE" "wswap_int16 (s_ninode (bdata s fp)) \<le> NICINOD"
  shows "getfs 0 s = Some (fp, s)"
proof -
  have "find (\<lambda>i. m_bufp (v7_mount s i) \<noteq> None \<and> m_dev (v7_mount s i) = 0) [0..<NMOUNT] = Some 0"
    using assms(1) by (simp add: super_def upt_rec)
  then show ?thesis using assms by (simp add: getfs_def super_def sb_count_def)
qed

text \<open>The number of blocks in the list is bounded by the size of the file system.\<close>

lemma freelist_length:
  assumes "freelist s fp xs"
  shows "int (length xs) < 2147483647"
proof -
  let ?i = "wswap_int16 (s_isize (bdata s fp))" and ?f = "wswap_int32 (s_fsize (bdata s fp))"
  have "set xs \<subseteq> {?i..<?f}" using assms by (auto simp: freelist_def data_block_def)
  then have "card (set xs) \<le> nat (?f - ?i)" using card_mono [of "{?i..<?f}" "set xs"] by simp
  moreover have "card (set xs) = length xs" using assms by (simp add: freelist_def distinct_card)
  moreover have "?f < 2147483648" using s32_bounds [of ?f] by simp
  moreover have "0 < ?i" using assms by (simp add: freelist_def)
  ultimately show ?thesis by linarith
qed


section \<open>Giving a block back\<close>

text \<open>The last statements of \<open>free\<close>: the block becomes the last entry of the table.\<close>

definition sb_push :: "int \<Rightarrow> block \<Rightarrow> block" where
  "sb_push b d =
     (let d = set_s_free (nat (wswap_int16 (s_nfree d))) (wswap_int32 b) d;
          d = set_s_nfree (wswap_int16 (wswap_int16 (s_nfree d) + 1)) d;
          d = set_s_tfree (wswap_int32 (wswap_int32 (s_tfree d) + 1)) d
      in set_s_fmod 1 d)"

lemma sb_push_fields:
  assumes n: "0 \<le> sb_count d" "sb_count d < NICFREE" and b: "0 \<le> b" "b < 2147483648"
  shows "sb_count (sb_push b d) = sb_count d + 1"
    "i < 50 \<Longrightarrow> sb_entry (sb_push b d) i = (if int i = sb_count d then b else sb_entry d i)"
    "s_flock (sb_push b d) = s_flock d" "sb_same d (sb_push b d)"
    "wswap_int32 (s_tfree (sb_push b d)) = s32 (wswap_int32 (s_tfree d) + 1)"
proof -
  have i: "nat (wswap_int16 (s_nfree d)) < 50" using n by (simp add: sb_count_def)
  show "sb_count (sb_push b d) = sb_count d + 1"
    using n by (simp add: sb_push_def sb_count_def Let_def super_simps s16_id)
  show "sb_entry (sb_push b d) i = (if int i = sb_count d then b else sb_entry d i)" if "i < 50"
    using n b that by (auto simp: sb_push_def sb_count_def sb_entry_def Let_def super_simps s32_id)
  show "s_flock (sb_push b d) = s_flock d" "sb_same d (sb_push b d)"
    "wswap_int32 (s_tfree (sb_push b d)) = s32 (wswap_int32 (s_tfree d) + 1)"
    using i by (simp_all add: sb_push_def sb_same_def Let_def super_simps)
qed

text \<open>Up to there: an empty table gets its end mark, a full one moves into the block.\<close>

definition free_table :: "bufp \<Rightarrow> int \<Rightarrow> kernel \<Rightarrow> kernel option" where
  "free_table fp bno s =
     (if wswap_int16 (s_nfree (bdata s fp)) \<ge> NICFREE then do {
        let s = upd_data fp (\<lambda>d. set_s_flock (s_flock d + 1) d) s;
        (bp, s) \<leftarrow> getblk 0 bno s;
        let s = upd_data bp (set_df_nfree (s_nfree (bdata s fp))) s;
        let s = upd_data bp (\<lambda>d. copy_bytes 200 2 d 8 (bdata s fp)) s;
        let s = upd_data fp (set_s_nfree 0) s;
        s \<leftarrow> bwrite bp s;
        Some (upd_data fp (set_s_flock 0) s) }
      else Some s)"

definition free_init :: "block \<Rightarrow> block" where
  "free_init d = (if wswap_int16 (s_nfree d) \<le> 0 then set_s_free 0 0 (set_s_nfree (wswap_int16 1) (set_s_fmod 1 d))
     else set_s_fmod 1 d)"

lemma free_split:
  assumes "super s fp" "sb_count (bdata s fp) \<le> NICFREE" "wswap_int16 (s_ninode (bdata s fp)) \<le> NICINOD"
    "s_flock (bdata s fp) = 0" "data_block s fp b"
  shows "free 0 b s = map_option (upd_data fp (sb_push b)) (free_table fp b (upd_data fp free_init s))"
proof -
  have ini: "(if wswap_int16 (s_nfree (bdata s fp)) \<le> 0 then
      upd_data fp (set_s_free 0 0) (upd_data fp (set_s_nfree (wswap_int16 1)) (upd_data fp (set_s_fmod 1) s))
      else upd_data fp (set_s_fmod 1) s) = upd_data fp free_init s"
    by (simp add: upd_data_comp free_init_def upd_data_def upd_buf_def)
  have nb: "badblock fp b 0 (upd_data fp (set_s_fmod 1) s) = (False, upd_data fp (set_s_fmod 1) s)"
    using assms(5) by (simp add: badblock_def data_block_def bdata_upd_data super_simps)
  have push: "upd_data fp (set_s_fmod 1)
      (upd_data fp (\<lambda>d. set_s_tfree (wswap_int32 (wswap_int32 (s_tfree d) + 1)) d)
      (upd_data fp (\<lambda>d. set_s_nfree (wswap_int16 (wswap_int16 (s_nfree d) + 1)) d)
      (upd_data fp (\<lambda>d. set_s_free (nat (wswap_int16 (s_nfree d))) (wswap_int32 b) d) t))) = upd_data fp (sb_push b) t" for t
    by (simp add: upd_data_comp sb_push_def [abs_def] Let_def)
  have g: "getfs 0 s = Some (fp, s)" by (rule getfs_super [OF assms(1-3)])
  have l: "s_flock (bdata (upd_data fp (set_s_fmod 1) s) fp) = 0" using assms(4) by (simp add: bdata_upd_data super_simps)
  have z: "s_nfree (bdata (upd_data fp (set_s_fmod 1) s) fp) = s_nfree (bdata s fp)" by (simp add: bdata_upd_data super_simps)
  show ?thesis
    unfolding free_def g free_table_def Let_def map_conv_bind_option
    by (simp only: bind.bind_lunit prod.case l z nb ini push simp_thms if_False bool.case o_def)
qed

lemma unheld_quiet: "quiet fp B s t \<Longrightarrow> unheld t b = unheld s b"
  using quiet_tag [of fp B s t] by (auto simp: unheld_def quiet_def)

lemma unheld_room: "cache_ok s \<Longrightarrow> busy s \<noteq> pool \<Longrightarrow> unheld s b \<Longrightarrow> room s b"
  by (simp add: room_iff unheld_def)

lemma freelist_pushed:
  assumes f: "freelist s fp xs" and q: "quiet fp {b} s t"
    and b: "data_block s fp b" "unheld s b" "b \<notin> set xs"
    and d: "sb_same (bdata s fp) (bdata t fp)" "s_flock (bdata t fp) = 0"
      "wswap_int32 (s_tfree (bdata t fp)) = s32 (wswap_int32 (s_tfree (bdata s fp)) + 1)"
    and c: "chain (view t) (sb_count (bdata t fp)) (sb_entry (bdata t fp)) (b # xs)"
  shows "freelist t fp (b # xs)"
proof -
  note D = data_block_cong [OF d(1) quiet_frame [OF q]] unheld_quiet [OF q]
  have "s32 (int (length xs) + 1) = int (length (b # xs))" using freelist_length [OF f] by (simp add: s32_id)
  then show ?thesis
    using f b c d D quiet_super [OF _ q] by (auto simp: freelist_def sb_same_def)
qed

lemma free_init_fields:
  assumes "0 \<le> sb_count d"
  shows "sb_count (free_init d) = max 1 (sb_count d)" "sb_same d (free_init d)" "s_flock (free_init d) = s_flock d"
    "s_tfree (free_init d) = s_tfree d" "sb_count d = 0 \<Longrightarrow> sb_entry (free_init d) 0 = 0"
    "0 < sb_count d \<Longrightarrow> i < 50 \<Longrightarrow> sb_entry (free_init d) i = sb_entry d i"
  using assms by (auto simp: free_init_def sb_count_def sb_entry_def sb_same_def super_simps s16_id s32_id max_def)

lemma chain_init:
  assumes c: "chain V (sb_count d) (sb_entry d) xs"
  shows "chain V (sb_count (free_init d)) (sb_entry (free_init d)) xs"
proof (cases "sb_count d = 0")
  case True
  have "xs = []" using c unfolding True by (cases rule: chain.cases) auto
  then show ?thesis using True by (simp add: free_init_fields chain_end)
next
  case False
  then have "0 < sb_count d" "sb_count d \<le> 50" using chain_count [OF c] by simp_all
  then show ?thesis
    using c by (auto simp: free_init_fields max_def intro: chain_cong)
qed

text \<open>The table moves into the block that is freed.\<close>

definition table_of :: "block \<Rightarrow> block \<Rightarrow> block" where
  "table_of d e = copy_bytes 200 2 (set_df_nfree (s_nfree d) e) 8 d"

lemma table_of_fields:
  "fb_count (table_of d e) = sb_count d" "i < 50 \<Longrightarrow> fb_entry (table_of d e) i = sb_entry d i"
  "fb_count (trunc_blk e) = fb_count e" "i < 50 \<Longrightarrow> fb_entry (trunc_blk e) i = fb_entry e i"
  by (simp_all add: table_of_def fb_count_def sb_count_def fb_entry_def sb_entry_def super_simps table_trunc)

lemma free_table_full:
  assumes ok: "cache_ok s" and fp: "super s fp" and r: "room s b" "dsk_inrange s b"
    and n: "sb_count (bdata s fp) = NICFREE"
  shows "\<exists>t e. free_table fp b s = Some t \<and> quiet fp {b} s t
    \<and> bdata t fp = set_s_flock 0 (set_s_nfree 0 (set_s_flock (s_flock (bdata s fp) + 1) (bdata s fp)))
    \<and> view t b = trunc_blk (table_of (bdata s fp) e)"
proof -
  let ?l = "\<lambda>d. set_s_flock (s_flock d + 1) d" and ?d = "bdata s fp"
  let ?s = "upd_data fp ?l s"
  have q: "quiet fp {b} s ?s" by (rule quiet_upd [OF ok fp])
  have ok1: "cache_ok ?s" and fp1: "super ?s fp" and r1: "room ?s b" "dsk_inrange ?s b"
    using q r quiet_super [OF fp q] quiet_room [OF ok q] io_frame_inrange [OF quiet_frame [OF q]]
    by (simp_all add: quiet_def)
  obtain p t where t: "getblk 0 b ?s = Some (p, t)" "p \<noteq> fp" "bdata t fp = bdata ?s fp"
    and w: "\<And>g h. \<exists>u. bwrite p (upd_data fp h (upd_data p g t)) = Some u \<and> quiet fp {b} ?s u
       \<and> bdata u fp = h (bdata ?s fp) \<and> view u b = trunc_blk (g (bdata t p))"
    by (rule write_table [OF ok1 fp1 r1]) blast
  obtain u where u: "bwrite p (upd_data fp (set_s_nfree 0) (upd_data p (table_of (?l ?d)) t)) = Some u"
    "quiet fp {b} ?s u" "bdata u fp = set_s_nfree 0 (?l ?d)" "view u b = trunc_blk (table_of (?l ?d) (bdata t p))"
    using w [of "set_s_nfree 0" "table_of (?l ?d)"] by auto
  have tb: "trunc_blk (table_of (?l ?d) e) = trunc_blk (table_of ?d e)" for e
    by (rule trunc_blk_eqI) (auto simp: table_of_def copy_bytes_def set_df_nfree_def st16_def set_s_flock_def st8_def
        s_nfree_def ld16_def)
  let ?v = "upd_data fp (set_s_flock 0) u"
  have ft: "free_table fp b s = Some ?v"
    using n t u(1) by (simp add: free_table_def sb_count_def upd_data_comp table_of_def [abs_def])
  have qu: "quiet fp {b} s u" by (rule quiet_trans [OF q u(2)])
  have okt: "cache_ok u" "super u fp" using qu quiet_super [OF fp qu] by (simp_all add: quiet_def)
  have qv: "quiet fp {b} u ?v" by (rule quiet_upd [OF okt])
  have "quiet fp {} u ?v" by (rule quiet_upd [OF okt])
  then have "view ?v b = view u b"
    using r1(2) io_frame_inrange [OF quiet_frame [OF u(2)]] by (simp add: quiet_def)
  then show ?thesis
    using ft quiet_trans [OF qu qv] u(3,4) tb by auto
qed

text \<open>A table with room gets one more entry; a full one becomes the second table of the chain.\<close>

lemma free_entry:
  assumes f: "freelist s fp xs" and ok1: "cache_ok t" and q: "quiet fp {} s t"
    and d: "sb_same (bdata s fp) (bdata t fp)" "s_flock (bdata t fp) = 0" "s_tfree (bdata t fp) = s_tfree (bdata s fp)"
    and c: "chain (view s) (sb_count (bdata t fp)) (sb_entry (bdata t fp)) xs"
    and n: "1 \<le> sb_count (bdata t fp)" "sb_count (bdata t fp) < NICFREE"
    and b: "data_block s fp b" "unheld s b" "b \<notin> set xs" "0 \<le> b" "b < 2147483648"
  shows "quiet fp {b} s (upd_data fp (sb_push b) t)" "freelist (upd_data fp (sb_push b) t) fp (b # xs)"
    "sb_same (bdata s fp) (bdata (upd_data fp (sb_push b) t) fp)"
proof -
  let ?t = "upd_data fp (sb_push b) t" and ?d = "bdata t fp"
  have fp: "super s fp" using f by (simp add: freelist_def)
  have qt: "quiet fp {} s ?t" by (rule quiet_trans [OF q quiet_upd [OF ok1 quiet_super [OF fp q]]])
  then show qb: "quiet fp {b} s ?t" by (rule quiet_mono) simp
  have P0: "0 \<le> sb_count ?d" using n by simp
  note P = sb_push_fields [OF P0 n(2) b(4,5)]
  show "sb_same (bdata s fp) (bdata ?t fp)" using P(4) d(1) by (simp add: sb_same_def)
  have "chain (view ?t) (sb_count ?d) (sb_entry (sb_push b ?d)) xs"
    by (rule chain_cong [OF c]) (use P n qt f in \<open>auto simp: freelist_def data_block_def quiet_def\<close>)
  then have "chain (view ?t) (sb_count ?d + 1) (sb_entry (sb_push b ?d)) (sb_entry (sb_push b ?d) (nat (sb_count ?d)) # xs)"
    using n by (rule chain_entry)
  then have "chain (view ?t) (sb_count (sb_push b ?d)) (sb_entry (sb_push b ?d)) (b # xs)"
    using P(1) P(2) [of "nat (sb_count ?d)"] n by simp
  then show "freelist ?t fp (b # xs)"
    by (intro freelist_pushed [OF f qb b(1-3)]) (use P d in \<open>simp_all add: sb_same_def\<close>)
qed

lemma free_link:
  assumes f: "freelist s fp xs" and ok1: "cache_ok t" and q: "quiet fp {b} s t"
    and d: "sb_same (bdata s fp) (bdata t fp)" "s_flock (bdata t fp) = 0" "s_tfree (bdata t fp) = s_tfree (bdata s fp)"
      "sb_count (bdata t fp) = 0"
    and c: "chain (view s) n e xs" "1 \<le> n" "fb_count (view t b) = n" "\<And>i. i < 50 \<Longrightarrow> fb_entry (view t b) i = e i"
    and b: "data_block s fp b" "unheld s b" "b \<notin> set xs" "0 < b" "b < 2147483648"
  shows "quiet fp {b} s (upd_data fp (sb_push b) t)" "freelist (upd_data fp (sb_push b) t) fp (b # xs)"
    "sb_same (bdata s fp) (bdata (upd_data fp (sb_push b) t) fp)"
proof -
  let ?u = "upd_data fp (sb_push b) t" and ?e = "bdata t fp"
  have fp: "super s fp" using f by (simp add: freelist_def)
  have u: "quiet fp B t ?u" for B by (rule quiet_upd [OF ok1 quiet_super [OF fp q]])
  show qu: "quiet fp {b} s ?u" by (rule quiet_trans [OF q u])
  have P: "sb_count (sb_push b ?e) = 1" "sb_entry (sb_push b ?e) 0 = b" "s_flock (sb_push b ?e) = 0"
    "sb_same ?e (sb_push b ?e)" "wswap_int32 (s_tfree (sb_push b ?e)) = s32 (wswap_int32 (s_tfree (bdata s fp)) + 1)"
    using sb_push_fields [of ?e b] sb_push_fields(2) [of ?e b 0] d b by simp_all
  show "sb_same (bdata s fp) (bdata ?u fp)" using P(4) d(1) by (simp add: sb_same_def)
  have "dsk_inrange t b" using b(1) io_frame_inrange [OF quiet_frame [OF q]] by (simp add: data_block_def)
  then have vb: "view ?u b = view t b" using u [of "{}"] by (simp add: quiet_def)
  have "chain (view ?u) n (fb_entry (view ?u b)) xs"
    by (rule chain_cong [OF c(1)])
      (use vb c chain_count [OF c(1)] qu f b(3) in \<open>auto simp: freelist_def data_block_def quiet_def\<close>)
  then have "chain (view ?u) 1 (sb_entry (sb_push b ?e)) (b # xs)"
    using vb c(2,3) P(2) b(4) by (intro chain_link) simp_all
  then show "freelist ?u fp (b # xs)"
    by (intro freelist_pushed [OF f qu b(1-3)]) (use P d in \<open>simp_all add: sb_same_def\<close>)
qed

lemma free_spec:
  assumes ok: "cache_ok s" and f: "freelist s fp xs" and b: "data_block s fp b" "unheld s b" "b \<notin> set xs"
    and r: "busy s \<noteq> pool"
  shows "\<exists>t. free 0 b s = Some t \<and> quiet fp {b} s t \<and> freelist t fp (b # xs) \<and> sb_same (bdata s fp) (bdata t fp)"
proof -
  let ?d = "bdata s fp" and ?s = "upd_data fp free_init s"
  let ?d1 = "free_init ?d"
  have F: "super s fp" "s_flock ?d = 0" "wswap_int16 (s_ninode ?d) \<le> NICINOD" "0 < wswap_int16 (s_isize ?d)"
    "chain (view s) (sb_count ?d) (sb_entry ?d) xs"
    using f by (simp_all add: freelist_def)
  have n: "0 \<le> sb_count ?d" "sb_count ?d \<le> NICFREE" using chain_count [OF F(5)] by simp_all
  note br = data_block_range [OF F(4) b(1)] and I = free_init_fields [OF n(1)]
  have q: "quiet fp B s ?s" for B by (rule quiet_upd [OF ok F(1)])
  have ok1: "cache_ok ?s" and fp1: "super ?s fp" using q quiet_super [OF F(1) q] by (simp_all add: quiet_def)
  have split: "free 0 b s = map_option (upd_data fp (sb_push b)) (free_table fp b ?s)"
    by (rule free_split [OF F(1) n(2) F(3,2) b(1)])
  have c1: "chain (view s) (sb_count ?d1) (sb_entry ?d1) xs" by (rule chain_init [OF F(5)])
  show ?thesis
  proof (cases "sb_count ?d1 < NICFREE")
    case True
    then have "free_table fp b ?s = Some ?s" by (simp add: free_table_def sb_count_def)
    then show ?thesis
      using split free_entry [OF f ok1 q, of b] I F(2) c1 True b br by simp
  next
    case False
    then have n50: "sb_count ?d1 = NICFREE" using I(1) n by simp
    have r1: "room ?s b" "dsk_inrange ?s b"
      using quiet_room [OF ok q] unheld_room [OF ok r b(2)] b(1) io_frame_inrange [OF quiet_frame [OF q]]
      by (simp_all add: data_block_def)
    obtain t e where t: "free_table fp b ?s = Some t" "quiet fp {b} ?s t"
      "bdata t fp = set_s_flock 0 (set_s_nfree 0 (set_s_flock (s_flock ?d1 + 1) ?d1))"
      "view t b = trunc_blk (table_of ?d1 e)"
      using free_table_full [OF ok1 fp1 r1] n50 by auto
    have qt: "quiet fp {b} s t" by (rule quiet_trans [OF q t(2)])
    then have okt: "cache_ok t" by (simp add: quiet_def)
    have e: "sb_count (bdata t fp) = 0" "s_flock (bdata t fp) = 0" "sb_same ?d (bdata t fp)" "s_tfree (bdata t fp) = s_tfree ?d"
      using I by (simp_all add: t(3) sb_count_def sb_same_def super_simps s8_id s16_id)
    have T: "fb_count (view t b) = sb_count ?d1" "\<And>i. i < 50 \<Longrightarrow> fb_entry (view t b) i = sb_entry ?d1 i"
      using t(4) by (simp_all add: table_of_fields)
    show ?thesis
      using split t(1) free_link [OF f okt qt e(3,2,4,1) c1 _ T b br] n50 by simp
  qed
qed


section \<open>Taking a block\<close>

lemma clrbuf_spec:
  assumes ok: "cache_ok s" and p: "p \<in> busy s"
  shows "cache_ok (clrbuf p s)" "busy (clrbuf p s) = busy s" "undisturbed s (clrbuf p s) (busy s - {p})"
    "trunc_blk (bdata (clrbuf p s) p) = zeroblk" "buf_tag (clrbuf p s) q = buf_tag s q" "bflags (clrbuf p s) q = bflags s q"
    "buf_tag s p = Some b \<Longrightarrow> c \<noteq> b \<Longrightarrow> view (clrbuf p s) c = view s c"
proof -
  obtain avs devs nos where st: "bio_st s avs devs nos" by (rule cache_okE [OF ok])
  have pp: "p \<in> pool" "p \<notin> set avs" "B_BUSY \<in> bflags s p" using p busy_iff [OF st] by (auto simp: busy_def)
  let ?s = "clrbuf p s"
  have st': "bio_st ?s avs devs nos"
    unfolding clrbuf_def by (rule bio_st_upd_buf [OF st]) (use pp bio_stD(10) [OF st pp(1)] in simp_all)
  then have ex: "\<exists>a d e. bio_st ?s a d e" by blast
  have b: "B_BUSY \<in> bflags ?s p" using pp by (simp add: clrbuf_def v7_buf_upd_buf)
  have o: "bcore (v7_buf ?s q) = bcore (v7_buf s q)" if "q \<in> pool" "q \<noteq> p" for q
    using that by (simp add: clrbuf_def v7_buf_upd_buf)
  have bo: "buf_only s ?s" by (simp add: clrbuf_def)
  note own = own_update [OF ok p ex b o buf_only_io_frame [OF bo] dsk_block_buf_only [OF bo]]
  show "cache_ok ?s" "busy ?s = busy s" "undisturbed s ?s (busy s - {p})" by (rule own; assumption?)+
  show "trunc_blk (bdata ?s p) = zeroblk"
    by (simp add: clrbuf_def v7_buf_upd_buf copy_bytes_def trunc_blk_def zeroblk_def fun_eq_iff)
  show "buf_tag ?s q = buf_tag s q" "bflags ?s q = bflags s q"
    by (simp_all add: clrbuf_def v7_buf_upd_buf buf_tag_def)
  show "view ?s c = view s c" if "buf_tag s p = Some b" "c \<noteq> b"
    using own_view [OF ok p st' _ _ o dsk_block_buf_only [OF bo], of c] that
    by (auto simp: clrbuf_def v7_buf_upd_buf buf_tag_def split: if_splits)
qed

text \<open>A block is handed out: a new buffer that holds it, cleared.\<close>

definition granted :: "kernel \<Rightarrow> int \<Rightarrow> bufp \<Rightarrow> kernel \<Rightarrow> bufp \<Rightarrow> bool" where
  "granted s b fp t p \<longleftrightarrow> cache_ok t \<and> p \<in> pool \<and> p \<notin> busy s \<and> busy t = insert p (busy s) \<and> buf_tag t p = Some b
     \<and> B_ERROR \<notin> bflags t p \<and> B_ASYNC \<notin> bflags t p \<and> trunc_blk (bdata t p) = zeroblk
     \<and> undisturbed s t (busy s - {fp}) \<and> buf_tag t fp = buf_tag s fp
     \<and> (\<forall>c. dsk_inrange s c \<longrightarrow> c \<noteq> b \<longrightarrow> view t c = view s c)"

definition alloc_grant :: "bufp \<Rightarrow> int \<Rightarrow> kernel \<Rightarrow> (bufp option \<times> kernel) option" where
  "alloc_grant fp bno s = do {
     (bp, s) \<leftarrow> getblk 0 bno s;
     let s = clrbuf bp s;
     let s = (if wswap_int32 (s_tfree (bdata s fp)) \<noteq> 0 then
         upd_data fp (\<lambda>d. set_s_tfree (wswap_int32 (wswap_int32 (s_tfree d) - 1)) d) s
       else s);
     Some (Some bp, upd_data fp (set_s_fmod 1) s) }"

definition sb_granted :: "block \<Rightarrow> block" where
  "sb_granted d = set_s_fmod 1 (if wswap_int32 (s_tfree d) \<noteq> 0
     then set_s_tfree (wswap_int32 (wswap_int32 (s_tfree d) - 1)) d else d)"

lemma alloc_grant_spec:
  assumes ok: "cache_ok s" and fp: "super s fp" and r: "room s b" "dsk_inrange s b"
  shows "\<exists>p t. alloc_grant fp b s = Some (Some p, t) \<and> granted s b fp t p \<and> bdata t fp = sb_granted (bdata s fp)"
proof -
  obtain p t where t: "getblk 0 b s = Some (p, t)" "taken s p t" "b_dev (v7_buf t p) = 0" "b_blkno (v7_buf t p) = b"
    using getblk_spec [OF ok r(1)] by blast
  have f: "fp \<in> busy s" "off_disk s fp" using fp by (simp_all add: super_def)
  then have p: "p \<noteq> fp" "p \<in> busy t" "fp \<in> busy t" "cache_ok t" "buf_tag t p = Some b" and u: "undisturbed s t (busy s)"
    using t by (auto simp: taken_def buf_tag_def)
  let ?v = "clrbuf p t"
  note v = clrbuf_spec [OF p(4,2)]
  have fv: "fp \<in> busy ?v" using v(2) p(3) by simp
  let ?w = "upd_data fp sb_granted ?v"
  note w = upd_data_spec [OF v(1) fv, of sb_granted]
  have "undisturbed s t (busy s - {fp})" using u by (auto simp: undisturbed_def)
  then have uv: "undisturbed s ?v (busy s - {fp})"
    by (rule undisturbed_trans [OF _ v(3)]) (use t(2) in \<open>auto simp: taken_def\<close>)
  have un: "undisturbed s ?w (busy s - {fp})"
    by (rule undisturbed_trans [OF uv w(3)]) (use v(2) t(2) in \<open>auto simp: taken_def\<close>)
  have e: "bcore (v7_buf t fp) = bcore (v7_buf s fp)" using u f(1) by (simp add: undisturbed_def)
  have e': "bcore (v7_buf ?v fp) = bcore (v7_buf t fp)" using v(3) p by (simp add: undisturbed_def)
  have d: "bdata ?v fp = bdata s fp" using bcoreD [OF e] bcoreD [OF e'] by simp
  have tg: "buf_tag ?w q = buf_tag t q" "buf_tag t fp = buf_tag s fp" for q
    using v(5) [of q] undisturbed_tag [OF u f(1)] by (simp_all add: buf_tag_def split: if_splits)
  have od: "off_disk ?v fp" using f(2) uv tg(2) v(5) [of fp] off_disk_cong [of s ?v fp] by (simp add: undisturbed_def)
  have vw: "view ?w c = view s c" if "dsk_inrange s c" "c \<noteq> b" for c
    using that off_disk_view [OF v(1) fv od, of c] v(7) [OF p(5) that(2)] t(2) uv io_frame_inrange [of s ?v c]
    by (simp add: taken_def undisturbed_def)
  have "alloc_grant fp b s = Some (Some p, ?w)"
    using t(1) by (simp add: alloc_grant_def Let_def upd_data_comp sb_granted_def upd_data_def upd_buf_def)
  moreover have "granted s b fp ?w p"
    using t(2) v(2,4,6) w(1,2) un vw tg(1) [of p] tg(1) [of fp] tg(2) p by (simp add: granted_def taken_def)
  ultimately show ?thesis using d by auto
qed

text \<open>The end of the table: the next one comes out of the block itself.\<close>

definition alloc_table :: "bufp \<Rightarrow> int \<Rightarrow> kernel \<Rightarrow> (bool \<times> kernel) option" where
  "alloc_table fp bno s =
     (if wswap_int16 (s_nfree (bdata s fp)) \<le> 0 then do {
        let s = upd_data fp (\<lambda>d. set_s_flock (s_flock d + 1) d) s;
        (bp, s) \<leftarrow> bread 0 bno s;
        let s = (if B_ERROR \<notin> bflags s bp then
            (let s = upd_data fp (set_s_nfree (df_nfree (bdata s bp))) s
             in upd_data fp (\<lambda>d. copy_bytes 200 8 d 2 (bdata s bp)) s)
          else s);
        let s = brelse bp s;
        let s = upd_data fp (set_s_flock 0) s;
        Some (wswap_int16 (s_nfree (bdata s fp)) \<le> 0, s) }
      else Some (False, s))"

lemma alloc_split:
  assumes "super s fp" "sb_count (bdata s fp) \<le> NICFREE" "wswap_int16 (s_ninode (bdata s fp)) \<le> NICINOD"
    "s_flock (bdata s fp) = 0"
  shows "alloc 0 s = (case alloc_pick fp 0 s of
       (None, s) \<Rightarrow> Some (None, nospace fp 0 s)
     | (Some bno, s) \<Rightarrow> Option.bind (alloc_table fp bno s)
         (\<lambda>(full, s). if full then Some (None, nospace fp 0 s) else alloc_grant fp bno s))"
  unfolding alloc_def getfs_super [OF assms(1-3)] alloc_table_def alloc_grant_def Let_def
  by (simp only: bind.bind_lunit prod.case assms(4) simp_thms if_False)

lemma alloc_pick_entry:
  assumes n: "1 \<le> sb_count (bdata s fp)" "sb_count (bdata s fp) \<le> NICFREE"
    and b: "sb_entry (bdata s fp) (nat (sb_count (bdata s fp) - 1)) = b" "b \<noteq> 0" "data_block s fp b"
  shows "alloc_pick fp 0 s = (Some b, upd_data fp (set_s_nfree (wswap_int16 (sb_count (bdata s fp) - 1))) s)"
proof -
  have "badblock fp b 0 (upd_data fp (set_s_nfree (wswap_int16 (sb_count (bdata s fp) - 1))) s)
      = (False, upd_data fp (set_s_nfree (wswap_int16 (sb_count (bdata s fp) - 1))) s)"
    using b(3) by (simp add: badblock_def data_block_def bdata_upd_data super_simps)
  moreover have "wswap_int16 (s_nfree (set_s_nfree (wswap_int16 (sb_count (bdata s fp) - 1)) (bdata s fp)))
      = sb_count (bdata s fp) - 1"
    using n by (simp add: super_simps s16_id)
  moreover have "s_free (set_s_nfree v (bdata s fp)) i = s_free (bdata s fp) i" for v i by (simp add: super_simps)
  ultimately show ?thesis
    using n b unfolding sb_entry_def
    by (subst alloc_pick.simps) (simp add: Let_def bdata_upd_data sb_count_def [symmetric])
qed

text \<open>Taking the next table out of the block that is handed out.\<close>

lemma alloc_table_next:
  assumes ok: "cache_ok s" and fp: "super s fp" and r: "room s b" "dsk_inrange s b"
    and n: "sb_count (bdata s fp) = 0" "1 \<le> fb_count (view s b)"
  shows "\<exists>t. alloc_table fp b s = Some (False, t) \<and> quiet fp {} s t \<and> sb_same (bdata s fp) (bdata t fp)
    \<and> s_flock (bdata t fp) = 0 \<and> s_tfree (bdata t fp) = s_tfree (bdata s fp)
    \<and> sb_count (bdata t fp) = fb_count (view s b) \<and> (\<forall>i < 50. sb_entry (bdata t fp) i = fb_entry (view s b) i)"
proof -
  let ?l = "\<lambda>d. set_s_flock (s_flock d + 1) d"
  let ?s = "upd_data fp ?l s"
  have q: "quiet fp {} s ?s" by (rule quiet_upd [OF ok fp])
  have ok1: "cache_ok ?s" and fp1: "super ?s fp" and r1: "room ?s b" "dsk_inrange ?s b" and v1: "view ?s b = view s b"
    using q r quiet_super [OF fp q] quiet_room [OF ok q] io_frame_inrange [OF quiet_frame [OF q]]
    by (simp_all add: quiet_def)
  obtain p t where t: "bread 0 b ?s = Some (p, t)" "B_ERROR \<notin> bflags t p" "trunc_blk (bdata t p) = view ?s b"
    "p \<noteq> fp" "\<And>g. quiet fp {} ?s (brelse p (upd_data fp g t))"
    "\<And>g. bdata (brelse p (upd_data fp g t)) fp = g (bdata ?s fp)"
    by (rule read_table [OF ok1 fp1 r1]) blast
  let ?g = "\<lambda>d. copy_bytes 200 8 (set_s_nfree (df_nfree (bdata t p)) d) 2 (bdata t p)"
  let ?u = "brelse p (upd_data fp ?g t)"
  let ?v = "upd_data fp (set_s_flock 0) ?u"
  have qu: "quiet fp {} s ?u" by (rule quiet_trans [OF q t(5)])
  have oku: "cache_ok ?u" "super ?u fp" using qu quiet_super [OF fp qu] by (simp_all add: quiet_def)
  have qv: "quiet fp {} s ?v" by (rule quiet_trans [OF qu quiet_upd [OF oku]])
  have d: "bdata ?v fp = set_s_flock 0 (?g (?l (bdata s fp)))" using t(6) by simp
  have tb: "fb_count (bdata t p) = fb_count (view s b)" "i < 50 \<Longrightarrow> fb_entry (bdata t p) i = fb_entry (view s b) i" for i
    using t(3) table_of_fields(3) [of "bdata t p"] table_of_fields(4) [of i "bdata t p"] v1 by simp_all
  have c: "sb_count (bdata ?v fp) = fb_count (view s b)" unfolding d tb(1) [symmetric]
    by (simp add: sb_count_def fb_count_def super_simps)
  have e: "sb_entry (bdata ?v fp) i = fb_entry (view s b) i" if "i < 50" for i
    unfolding d tb(2) [OF that, symmetric] using that by (simp add: sb_entry_def fb_entry_def super_simps)
  have "alloc_table fp b s = Some (False, ?v)"
    using n t(1,2,4) c by (simp add: alloc_table_def Let_def upd_data_comp sb_count_def)
  moreover have "sb_same (bdata s fp) (bdata ?v fp)" "s_flock (bdata ?v fp) = 0" "s_tfree (bdata ?v fp) = s_tfree (bdata s fp)"
    unfolding d by (simp_all add: sb_same_def super_simps s8_id)
  ultimately show ?thesis using qv c e by blast
qed

text \<open>What is left when the block is granted.\<close>

lemma sb_granted_fields:
  "sb_count (sb_granted d) = sb_count d" "i < 50 \<Longrightarrow> sb_entry (sb_granted d) i = sb_entry d i"
  "s_flock (sb_granted d) = s_flock d" "sb_same d (sb_granted d)"
  "0 < wswap_int32 (s_tfree d) \<Longrightarrow> wswap_int32 (s_tfree (sb_granted d)) = wswap_int32 (s_tfree d) - 1"
  using s32_bounds [of "wswap_int32 (s_tfree d)"]
  by (auto simp: sb_granted_def sb_count_def sb_entry_def sb_same_def super_simps s32_id)

lemma freelist_granted:
  assumes f: "freelist s fp (b # xs)" and g: "granted s b fp t p"
    and d: "sb_same (bdata s fp) (bdata t fp)" "s_flock (bdata t fp) = 0"
      "wswap_int32 (s_tfree (bdata t fp)) = wswap_int32 (s_tfree (bdata s fp)) - 1"
    and c: "chain (view t) (sb_count (bdata t fp)) (sb_entry (bdata t fp)) xs"
  shows "freelist t fp xs"
proof -
  have fr: "io_frame s t" using g by (simp add: granted_def undisturbed_def)
  note D = data_block_cong [OF d(1) fr]
  have fp: "fp \<in> busy s" "buf_tag t fp = buf_tag s fp" using f g by (simp_all add: freelist_def super_def granted_def)
  have tag: "buf_tag t q = buf_tag s q" if "q \<in> busy s" for q
    using that g f fp undisturbed_tag [of s t "busy s - {fp}" q]
    by (cases "q = fp") (auto simp: granted_def freelist_def super_def)
  have u: "unheld t c" if "unheld s c" "c \<noteq> b" for c
    using that g tag by (auto simp: unheld_def granted_def)
  have "super t fp"
    using f g fp io_frame_fields(2) [OF fr] off_disk_cong [OF fr fp(2)] by (simp add: freelist_def super_def granted_def)
  then show ?thesis using f c d D u by (auto simp: freelist_def sb_same_def)
qed

lemma granted_after:
  assumes q: "quiet fp {} s t" and g: "granted t b fp u p"
  shows "granted s b fp u p"
proof -
  have "undisturbed s u (busy s - {fp})"
    by (rule undisturbed_trans [of s t _ u "busy t - {fp}"]) (use q g in \<open>simp_all add: quiet_def granted_def\<close>)
  then show ?thesis
    using g q io_frame_inrange [OF quiet_frame [OF q]] by (simp add: granted_def quiet_def)
qed

text \<open>The block is off the list before it is granted.\<close>

lemma alloc_pop:
  assumes ok: "cache_ok s" and f: "freelist s fp (b # xs)" and rm: "room s b"
  shows "\<exists>t. alloc 0 s = alloc_grant fp b t \<and> quiet fp {} s t \<and> sb_same (bdata s fp) (bdata t fp)
    \<and> s_flock (bdata t fp) = 0 \<and> s_tfree (bdata t fp) = s_tfree (bdata s fp)
    \<and> chain (view s) (sb_count (bdata t fp)) (sb_entry (bdata t fp)) xs"
proof -
  let ?d = "bdata s fp"
  have F: "super s fp" "s_flock ?d = 0" "wswap_int16 (s_ninode ?d) \<le> NICINOD" "0 < wswap_int16 (s_isize ?d)"
    "chain (view s) (sb_count ?d) (sb_entry ?d) (b # xs)" "data_block s fp b"
    using f by (simp_all add: freelist_def)
  have b: "b \<noteq> 0" using data_block_range [OF F(4,6)] by simp
  note C = chain_pop [OF F(5) b]
  let ?s = "upd_data fp (set_s_nfree (wswap_int16 (sb_count ?d - 1))) s"
  have pick: "alloc_pick fp 0 s = (Some b, ?s)"
    by (rule alloc_pick_entry) (use C b F(6) in simp_all)
  have n: "sb_count ?d \<le> NICFREE" using C by simp
  have run: "alloc 0 s = Option.bind (alloc_table fp b ?s)
      (\<lambda>(full, s). if full then Some (None, nospace fp 0 s) else alloc_grant fp b s)"
    unfolding alloc_split [OF F(1) n F(3,2)] pick by simp
  have q: "quiet fp {} s ?s" by (rule quiet_upd [OF ok F(1)])
  have ok1: "cache_ok ?s" and fp1: "super ?s fp" using q quiet_super [OF F(1) q] by (simp_all add: quiet_def)
  have d1: "sb_count (bdata ?s fp) = sb_count ?d - 1" "sb_entry (bdata ?s fp) = sb_entry ?d"
    "sb_same ?d (bdata ?s fp)" "s_flock (bdata ?s fp) = 0" "s_tfree (bdata ?s fp) = s_tfree ?d"
    using C F(2) by (simp_all add: sb_count_def sb_entry_def fun_eq_iff sb_same_def super_simps s16_id)
  show ?thesis
  proof (cases "sb_count ?d = 1")
    case False
    then have "alloc_table fp b ?s = Some (False, ?s)" using d1(1) C by (simp add: alloc_table_def sb_count_def)
    moreover have "chain (view s) (sb_count (bdata ?s fp)) (sb_entry (bdata ?s fp)) xs"
      unfolding d1(1,2) using C False by blast
    ultimately show ?thesis using run q d1(3-5) by auto
  next
    case True
    have r1: "room ?s b" "dsk_inrange ?s b" "view ?s b = view s b" "sb_count (bdata ?s fp) = 0"
      using quiet_room [OF ok q] rm F(6) q io_frame_inrange [OF quiet_frame [OF q]] d1(1) True
      by (simp_all add: data_block_def quiet_def)
    have c: "1 \<le> fb_count (view s b)" "chain (view s) (fb_count (view s b)) (fb_entry (view s b)) xs" using C True by simp_all
    obtain t where t: "alloc_table fp b ?s = Some (False, t)" "quiet fp {} ?s t" "sb_same (bdata ?s fp) (bdata t fp)"
      "s_flock (bdata t fp) = 0" "s_tfree (bdata t fp) = s_tfree (bdata ?s fp)" "sb_count (bdata t fp) = fb_count (view s b)"
      "\<And>i. i < 50 \<Longrightarrow> sb_entry (bdata t fp) i = fb_entry (view s b) i"
      using alloc_table_next [OF ok1 fp1 r1(1,2,4)] r1(3) c(1) by auto
    have "chain (view s) (sb_count (bdata t fp)) (sb_entry (bdata t fp)) xs"
      unfolding t(6) by (rule chain_cong [OF c(2)]) (use t(7) chain_count [OF c(2)] in auto)
    moreover have "alloc 0 s = alloc_grant fp b t" using run t(1) by simp
    moreover have "sb_same ?d (bdata t fp)" "s_tfree (bdata t fp) = s_tfree ?d"
      using t(3,5) d1(3,5) by (simp_all only: sb_same_def simp_thms)
    ultimately show ?thesis using t(4) quiet_trans [OF q t(2)] by blast
  qed
qed

lemma alloc_spec:
  assumes ok: "cache_ok s" and f: "freelist s fp (b # xs)" and r: "busy s \<noteq> pool"
  shows "\<exists>p t. alloc 0 s = Some (Some p, t) \<and> granted s b fp t p \<and> freelist t fp xs \<and> sb_same (bdata s fp) (bdata t fp)"
proof -
  let ?d = "bdata s fp"
  have F: "super s fp" "data_block s fp b" "unheld s b" "b \<notin> set xs" "0 < wswap_int32 (s_tfree ?d)"
    using f by (simp_all add: freelist_def)
  have rm: "room s b" by (rule unheld_room [OF ok r F(3)])
  obtain t where t: "alloc 0 s = alloc_grant fp b t" "quiet fp {} s t" "sb_same ?d (bdata t fp)"
    "s_flock (bdata t fp) = 0" "s_tfree (bdata t fp) = s_tfree ?d"
    "chain (view s) (sb_count (bdata t fp)) (sb_entry (bdata t fp)) xs"
    using alloc_pop [OF ok f rm] by blast
  have okt: "cache_ok t" "super t fp" "room t b" "dsk_inrange t b"
    using t(2) quiet_super [OF F(1) t(2)] quiet_room [OF ok t(2)] rm F(2) io_frame_inrange [OF quiet_frame [OF t(2)]]
    by (simp_all add: quiet_def data_block_def)
  obtain p u where u: "alloc_grant fp b t = Some (Some p, u)" "granted t b fp u p" "bdata u fp = sb_granted (bdata t fp)"
    using alloc_grant_spec [OF okt] by blast
  have gr: "granted s b fp u p" by (rule granted_after [OF t(2) u(2)])
  have "chain (view u) (sb_count (bdata u fp)) (sb_entry (bdata u fp)) xs"
    unfolding u(3) sb_granted_fields(1)
    by (rule chain_cong [OF t(6)])
      (use chain_count [OF t(6)] gr f in \<open>auto simp: sb_granted_fields granted_def freelist_def data_block_def\<close>)
  then have "freelist u fp xs"
    by (intro freelist_granted [OF f gr])
      (use t F(5) sb_granted_fields(3-5) [of "bdata t fp"] u(3) in \<open>simp_all add: sb_same_def\<close>)
  moreover have "sb_same ?d (bdata u fp)" using t(3) u(3) sb_granted_fields(4) [of "bdata t fp"] by (simp add: sb_same_def)
  ultimately show ?thesis using t(1) u(1) gr by auto
qed

text \<open>An empty list: the error, and an empty table again.\<close>

lemma cache_ok_cong:
  assumes "v7_buf t = v7_buf s" "v7_nblkdev t = v7_nblkdev s" "dsk t = dsk s" "h_file (host t) = h_file (host s)"
    "h_len (host t) = h_len (host s)" "h_fault (host t) = h_fault (host s)"
  shows "cache_ok t = cache_ok s" "view t = view s" "busy t = busy s" "buf_tag t = buf_tag s" "dsk_inrange t = dsk_inrange s"
proof -
  have d: "dsk_block t c = dsk_block s c" "dsk_inrange t c = dsk_inrange s c" for c
    using assms by (simp_all add: dsk_block_def dsk_pos_def dsk_inrange_def)
  then show "dsk_inrange t = dsk_inrange s" by blast
  show "view t = view s" by (rule ext) (use assms(1) d in \<open>simp add: view_def cached_def split: option.split\<close>)
  show "busy t = busy s" "buf_tag t = buf_tag s" using assms(1) by (simp_all add: busy_def buf_tag_def fun_eq_iff)
  show "cache_ok t = cache_ok s"
    using assms d bio_st_cong [of t s] by (simp add: cache_ok_def bio_inv_def coherent_def dsk_wf_def host_ok_def)
qed

lemma nospace_spec:
  assumes ok: "cache_ok s" and fp: "super s fp"
  shows "cache_ok (nospace fp dev s)" "busy (nospace fp dev s) = busy s" "super (nospace fp dev s) fp"
    "dsk_inrange s c \<Longrightarrow> view (nospace fp dev s) c = view s c" "uerror (nospace fp dev s) = ENOSPC"
    "bdata (nospace fp dev s) fp = set_s_tfree 0 (set_s_nfree 0 (bdata s fp))"
    "unheld (nospace fp dev s) c = unheld s c" "dsk_inrange (nospace fp dev s) c = dsk_inrange s c"
proof -
  let ?t = "upd_data fp (\<lambda>d. set_s_tfree 0 (set_s_nfree 0 d)) s"
  have q: "quiet fp {} s ?t" by (rule quiet_upd [OF ok fp])
  have e: "nospace fp dev s = set_error ENOSPC (v7_prdev ''no space'' dev ?t)" by (simp add: nospace_def upd_data_comp)
  have C: "cache_ok (nospace fp dev s) = cache_ok ?t" "view (nospace fp dev s) = view ?t" "busy (nospace fp dev s) = busy ?t"
    "buf_tag (nospace fp dev s) = buf_tag ?t" "dsk_inrange (nospace fp dev s) = dsk_inrange ?t"
    by (rule cache_ok_cong; simp add: e set_error_def v7_prdev_def)+
  show "cache_ok (nospace fp dev s)" "busy (nospace fp dev s) = busy s" "dsk_inrange s c \<Longrightarrow> view (nospace fp dev s) c = view s c"
    using C q by (simp_all add: quiet_def)
  show "uerror (nospace fp dev s) = ENOSPC" by (simp add: e set_error_def)
  show "dsk_inrange (nospace fp dev s) c = dsk_inrange s c" using C(5) io_frame_inrange [OF quiet_frame [OF q]] by simp
  show "unheld (nospace fp dev s) c = unheld s c" using C(3,4) unheld_quiet [OF q] by (simp add: unheld_def)
  show "bdata (nospace fp dev s) fp = set_s_tfree 0 (set_s_nfree 0 (bdata s fp))"
    by (simp add: e set_error_def v7_prdev_def)
  have "v7_mount (nospace fp dev s) = v7_mount s" by (simp add: e set_error_def v7_prdev_def upd_data_def upd_buf_def)
  then show "super (nospace fp dev s) fp" using C(3-5) quiet_super [OF fp q] fp by (simp add: super_def off_disk_def)
qed

lemma alloc_empty:
  assumes ok: "cache_ok s" and f: "freelist s fp []"
  shows "\<exists>t. alloc 0 s = Some (None, t) \<and> uerror t = ENOSPC \<and> cache_ok t \<and> busy t = busy s \<and> freelist t fp []
    \<and> (\<forall>c. dsk_inrange s c \<longrightarrow> view t c = view s c)
    \<and> (\<forall>c. unheld t c = unheld s c \<and> data_block t fp c = data_block s fp c)"
proof -
  let ?d = "bdata s fp"
  have F: "super s fp" "s_flock ?d = 0" "wswap_int16 (s_ninode ?d) \<le> NICINOD" "0 < wswap_int16 (s_isize ?d)"
    "chain (view s) (sb_count ?d) (sb_entry ?d) []"
    using f by (simp_all add: freelist_def)
  have c: "sb_count ?d = 0 \<or> sb_count ?d = 1 \<and> sb_entry ?d 0 = 0" by (rule chain_nil [OF F(5)])
  then have n: "sb_count ?d \<le> NICFREE" by auto
  obtain g where pick: "alloc_pick fp 0 s = (None, upd_data fp g s)" and g: "sb_same ?d (g ?d)" "s_flock (g ?d) = 0"
  proof (cases "sb_count ?d = 0")
    case True
    show thesis by (rule that [of "\<lambda>d. d"])
        (use True F(2) in \<open>simp_all add: alloc_pick.simps [of fp 0 s] sb_count_def [symmetric] upd_data_id sb_same_def\<close>)
  next
    case False
    then have "wswap_int16 (s_nfree ?d) = 1" "wswap_int32 (s_free ?d 0) = 0" using c by (simp_all add: sb_count_def sb_entry_def)
    then have "alloc_pick fp 0 s = (None, upd_data fp (set_s_nfree (wswap_int16 0)) s)"
      by (simp add: alloc_pick.simps [of fp 0 s] Let_def bdata_upd_data super_simps s16_id)
    then show thesis by (rule that) (use F(2) in \<open>simp_all add: sb_same_def super_simps\<close>)
  qed
  let ?s = "upd_data fp g s"
  have q: "quiet fp {} s ?s" by (rule quiet_upd [OF ok F(1)])
  have ok1: "cache_ok ?s" and fp1: "super ?s fp" using q quiet_super [OF F(1) q] by (simp_all add: quiet_def)
  note N = nospace_spec [OF ok1 fp1, where dev = 0]
  have "alloc 0 s = Some (None, nospace fp 0 ?s)" unfolding alloc_split [OF F(1) n F(3,2)] pick by simp
  moreover have "freelist (nospace fp 0 ?s) fp []"
    using N g F(3,4) by (auto simp: freelist_def sb_same_def super_simps sb_count_def intro: chain_empty)
  moreover have "view (nospace fp 0 ?s) c = view s c" if "dsk_inrange s c" for c
    using that N(4) [of c] q io_frame_inrange [OF quiet_frame [OF q]] by (simp add: quiet_def)
  moreover have "busy (nospace fp 0 ?s) = busy s" using N(2) q by (simp add: quiet_def)
  moreover have "unheld (nospace fp 0 ?s) c = unheld s c" "data_block (nospace fp 0 ?s) fp c = data_block s fp c" for c
    using N(6,8) N(7) [of c] unheld_quiet [OF q] io_frame_inrange [OF quiet_frame [OF q]] g(1)
    by (simp_all add: data_block_def sb_same_def super_simps)
  ultimately show ?thesis using N(1,5) by blast
qed


section \<open>The allocator as an interface\<close>

text \<open>
  What the rest of the kernel relies on: blocks come off the list in the order in which it
  holds them, a block that came off is the caller's to give back, and nobody else's block changes.
  \<open>inv s xs\<close> says that \<open>xs\<close> is the free list in \<open>s\<close>, \<open>mine s b\<close> that \<open>b\<close> is a block of the
  file system that is not on it.
\<close>

locale allocator =
  fixes inv :: "'s \<Rightarrow> int list \<Rightarrow> bool"
    and mine :: "'s \<Rightarrow> int list \<Rightarrow> int \<Rightarrow> bool"
    and content :: "'s \<Rightarrow> int \<Rightarrow> block"
    and get :: "'s \<Rightarrow> (int option \<times> 's) option"
    and give :: "int \<Rightarrow> 's \<Rightarrow> 's option"
  assumes get_law: "inv s (b # xs) \<Longrightarrow> \<exists>t. get s = Some (Some b, t) \<and> inv t xs \<and> mine t xs b
        \<and> (\<forall>c. mine s (b # xs) c \<longrightarrow> mine t xs c \<and> content t c = content s c)"
    and get_empty: "inv s [] \<Longrightarrow> \<exists>t. get s = Some (None, t) \<and> inv t [] \<and> (\<forall>c. mine s [] c \<longrightarrow> mine t [] c \<and> content t c = content s c)"
    and give_law: "inv s xs \<Longrightarrow> mine s xs b \<Longrightarrow> \<exists>t. give b s = Some t \<and> inv t (b # xs)
        \<and> (\<forall>c. mine s xs c \<longrightarrow> c \<noteq> b \<longrightarrow> mine t (b # xs) c \<and> content t c = content s c)"
    and mine_free: "mine s xs b \<Longrightarrow> b \<notin> set xs"
begin

text \<open>A block given back is the next one handed out.\<close>

lemma give_get:
  assumes "inv s xs" "mine s xs b"
  shows "\<exists>t u. give b s = Some t \<and> get t = Some (Some b, u) \<and> inv u xs \<and> mine u xs b"
proof -
  obtain t where t: "give b s = Some t" "inv t (b # xs)" using give_law [OF assms] by blast
  then show ?thesis using get_law [OF t(2)] by blast
qed

text \<open>As many blocks as the list has can be had, in its order; giving them back restores it.\<close>

lemma get_many:
  assumes "inv s (xs @ ys)"
  shows "\<exists>t. for_each (\<lambda>b s. Option.bind (get s) (\<lambda>(r, t). if r = Some b then Some t else None)) xs s = Some t
    \<and> inv t ys \<and> (\<forall>b. b \<in> set xs \<or> mine s (xs @ ys) b \<longrightarrow> mine t ys b)
    \<and> (\<forall>c. mine s (xs @ ys) c \<longrightarrow> content t c = content s c)"
  using assms
proof (induction xs arbitrary: s)
  case (Cons b xs)
  then obtain t where t: "get s = Some (Some b, t)" "inv t (xs @ ys)" "mine t (xs @ ys) b"
    "\<And>c. mine s (b # xs @ ys) c \<Longrightarrow> mine t (xs @ ys) c \<and> content t c = content s c"
    using get_law [of s b "xs @ ys"] by auto
  from Cons.IH [OF t(2)] show ?case using t by auto
qed auto

lemma give_many:
  assumes "inv s ys" "distinct xs" "\<forall>b \<in> set xs. mine s ys b"
  shows "\<exists>t. for_each give (rev xs) s = Some t \<and> inv t (xs @ ys)
    \<and> (\<forall>c. mine s ys c \<longrightarrow> c \<notin> set xs \<longrightarrow> mine t (xs @ ys) c \<and> content t c = content s c)"
  using assms
proof (induction xs)
  case (Cons b xs)
  then obtain t where t: "for_each give (rev xs) s = Some t" "inv t (xs @ ys)"
    "\<And>c. mine s ys c \<Longrightarrow> c \<notin> set xs \<Longrightarrow> mine t (xs @ ys) c \<and> content t c = content s c" by auto
  have "mine t (xs @ ys) b" using t(3) Cons.prems by simp
  then obtain u where "give b t = Some u" "inv u (b # xs @ ys)"
    "\<And>c. mine t (xs @ ys) c \<Longrightarrow> c \<noteq> b \<Longrightarrow> mine u (b # xs @ ys) c \<and> content u c = content t c"
    using give_law [OF t(2)] by blast
  then show ?case using t by (simp add: for_each_append)
qed simp

end


text \<open>
  \<open>alloc\<close> as \<open>bmap\<close> uses it: the cleared buffer goes back with a delayed write, its block number
  stays with the caller.
\<close>

definition alloc_put :: "kernel \<Rightarrow> (int option \<times> kernel) option" where
  "alloc_put s = do {
     (r, s) \<leftarrow> alloc 0 s;
     case r of None \<Rightarrow> Some (None, s)
     | Some bp \<Rightarrow> do { t \<leftarrow> bdwrite bp s; Some (Some (b_blkno (v7_buf s bp)), t) } }"

definition fs_inv :: "bufp \<Rightarrow> kernel \<Rightarrow> int list \<Rightarrow> bool" where
  "fs_inv fp s xs \<longleftrightarrow> cache_ok s \<and> busy s \<noteq> pool \<and> freelist s fp xs"

definition fs_mine :: "bufp \<Rightarrow> kernel \<Rightarrow> int list \<Rightarrow> int \<Rightarrow> bool" where
  "fs_mine fp s xs b \<longleftrightarrow> data_block s fp b \<and> unheld s b \<and> b \<notin> set xs"

text \<open>A block added to what is in use: it is off the list and zeroed, and nothing else changed.\<close>

definition added :: "bufp \<Rightarrow> int \<Rightarrow> int list \<Rightarrow> kernel \<Rightarrow> kernel \<Rightarrow> bool" where
  "added fp b xs s t \<longleftrightarrow> cache_ok t \<and> busy t = busy s \<and> freelist t fp xs \<and> sb_same (bdata s fp) (bdata t fp)
     \<and> undisturbed s t (busy s - {fp}) \<and> (\<forall>q \<in> busy s. buf_tag t q = buf_tag s q) \<and> view t b = zeroblk
     \<and> (\<forall>c. dsk_inrange s c \<longrightarrow> c \<noteq> b \<longrightarrow> view t c = view s c)"

lemma alloc_fresh:
  assumes A: "cache_ok s" "busy s \<noteq> pool" "freelist s fp (b # xs)"
  shows "\<exists>p t u. alloc 0 s = Some (Some p, t) \<and> b_blkno (v7_buf t p) = b \<and> bdwrite p t = Some u \<and> added fp b xs s u"
proof -
  obtain p t where t: "alloc 0 s = Some (Some p, t)" "granted s b fp t p" "freelist t fp xs" "sb_same (bdata s fp) (bdata t fp)"
    using alloc_spec [OF A(1,3,2)] by blast
  have p: "cache_ok t" "p \<in> busy t" "b_dev (v7_buf t p) = 0" "b_blkno (v7_buf t p) = b" "B_ERROR \<notin> bflags t p"
    "trunc_blk (bdata t p) = zeroblk" "busy t = insert p (busy s)" "p \<notin> busy s"
    using t(2) by (auto simp: granted_def buf_tag_def split: if_splits)
  obtain u where u: "bdwrite p t = Some u" "released t p u"
    "\<And>c. view u c = (if c = b then zeroblk else view t c)"
    using bdwrite_spec [OF p(1-3,5)] p(4,6) by auto
  have bu: "busy u = busy s" using u(2) p(7,8) by (simp add: released_def)
  have fp: "fp \<in> busy s" "fp \<in> busy t - {p}" "super t fp"
    using t(3) A(3) p(7,8) by (auto simp: freelist_def super_def)
  have eq: "bcore (v7_buf u fp) = bcore (v7_buf t fp)" using u(2) fp(2) by (simp add: released_def undisturbed_def)
  have fr: "io_frame t u" using u(2) by (simp add: released_def undisturbed_def)
  have tag: "buf_tag u q = buf_tag t q" "buf_tag t q = buf_tag s q" if "q \<in> busy s" for q
  proof -
    show "buf_tag u q = buf_tag t q"
      using undisturbed_tag [of t u "busy t - {p}" q] u(2) that p(7,8) by (auto simp: released_def)
    show "buf_tag t q = buf_tag s q"
      using undisturbed_tag [of s t "busy s - {fp}" q] t(2) that by (cases "q = fp") (auto simp: granted_def)
  qed
  have uh: "unheld u c" if "unheld t c" for c using that bu tag p(7) by (auto simp: unheld_def)
  have su: "super u fp"
    using fp(1,3) bu io_frame_fields(2) [OF fr] off_disk_cong [OF fr tag(1) [OF fp(1)]] by (simp add: super_def)
  have bd: "bdata u fp = bdata t fp" using bcoreD [OF eq] by simp
  have db: "data_block u fp c = data_block t fp c" for c using data_block_cong [OF _ fr] bd by (simp add: sb_same_def)
  have nb: "b \<notin> set xs" using A(3) by (simp add: freelist_def)
  have "chain (view u) (sb_count (bdata t fp)) (sb_entry (bdata t fp)) xs"
    by (rule chain_cong [of "view t"]) (use t(3) u(3) nb in \<open>auto simp: freelist_def\<close>)
  then have "freelist u fp xs" using t(3) su bd db uh by (auto simp: freelist_def)
  moreover have "undisturbed s u (busy s - {fp})"
    by (rule undisturbed_trans [of s t _ u "busy t - {p}"]) (use t(2) u(2) p(7,8) in \<open>auto simp: granted_def released_def\<close>)
  moreover have "view u c = view s c" if "dsk_inrange s c" "c \<noteq> b" for c using that u(3) t(2) by (simp add: granted_def)
  ultimately have "added fp b xs s u" using u(2,3) bu bd t(4) tag by (simp add: added_def released_def)
  then show ?thesis using t(1) p(4) u(1) by blast
qed

lemma added_unheld: "added fp b xs s t \<Longrightarrow> unheld t c = unheld s c"
  by (auto simp: added_def unheld_def)

lemma added_data_block: "added fp b xs s t \<Longrightarrow> data_block t fp c = data_block s fp c"
  using data_block_cong [of s fp t c] by (simp add: added_def undisturbed_def)

lemma alloc_put_pop:
  assumes "fs_inv fp s (b # xs)"
  shows "\<exists>t. alloc_put s = Some (Some b, t) \<and> fs_inv fp t xs \<and> fs_mine fp t xs b \<and> view t b = zeroblk
    \<and> busy t = busy s \<and> (\<forall>c. fs_mine fp s (b # xs) c \<longrightarrow> fs_mine fp t xs c \<and> view t c = view s c)"
proof -
  have A: "cache_ok s" "busy s \<noteq> pool" "freelist s fp (b # xs)" using assms by (simp_all add: fs_inv_def)
  obtain p t u where u: "alloc 0 s = Some (Some p, t)" "b_blkno (v7_buf t p) = b" "bdwrite p t = Some u" "added fp b xs s u"
    using alloc_fresh [OF A] by blast
  note D = added_unheld [OF u(4)] added_data_block [OF u(4)]
  have "data_block s fp b" "unheld s b" "b \<notin> set xs" using A(3) by (simp_all add: freelist_def)
  then show ?thesis using u A(2) D by (auto simp: alloc_put_def fs_inv_def fs_mine_def added_def data_block_def)
qed

lemma alloc_put_empty:
  assumes "fs_inv fp s []"
  shows "\<exists>t. alloc_put s = Some (None, t) \<and> fs_inv fp t [] \<and> uerror t = ENOSPC
    \<and> (\<forall>c. fs_mine fp s [] c \<longrightarrow> fs_mine fp t [] c \<and> view t c = view s c)"
  using alloc_empty [of s fp] assms
  by (auto simp: alloc_put_def fs_inv_def fs_mine_def data_block_def)

lemma free_push:
  assumes "fs_inv fp s xs" "fs_mine fp s xs b"
  shows "\<exists>t. free 0 b s = Some t \<and> fs_inv fp t (b # xs)
    \<and> (\<forall>c. fs_mine fp s xs c \<longrightarrow> c \<noteq> b \<longrightarrow> fs_mine fp t (b # xs) c \<and> view t c = view s c)"
proof -
  obtain t where t: "free 0 b s = Some t" "quiet fp {b} s t" "freelist t fp (b # xs)" "sb_same (bdata s fp) (bdata t fp)"
    using free_spec [of s fp xs b] assms unfolding fs_inv_def fs_mine_def by blast
  note D = data_block_cong [OF t(4) quiet_frame [OF t(2)]] unheld_quiet [OF t(2)]
  have "fs_mine fp t (b # xs) c \<and> view t c = view s c" if "fs_mine fp s xs c" "c \<noteq> b" for c
    using that D t(2) by (auto simp: fs_mine_def quiet_def data_block_def)
  then show ?thesis using t assms(1) by (auto simp: fs_inv_def quiet_def)
qed

interpretation v7_alloc: allocator "fs_inv fp" "fs_mine fp" view alloc_put "free 0" for fp
proof unfold_locales
  fix s b xs
  show "fs_inv fp s (b # xs) \<Longrightarrow> \<exists>t. alloc_put s = Some (Some b, t) \<and> fs_inv fp t xs \<and> fs_mine fp t xs b
        \<and> (\<forall>c. fs_mine fp s (b # xs) c \<longrightarrow> fs_mine fp t xs c \<and> view t c = view s c)"
    using alloc_put_pop [of fp s b xs] by blast
  show "fs_inv fp s [] \<Longrightarrow> \<exists>t. alloc_put s = Some (None, t) \<and> fs_inv fp t []
        \<and> (\<forall>c. fs_mine fp s [] c \<longrightarrow> fs_mine fp t [] c \<and> view t c = view s c)"
    using alloc_put_empty [of fp s] by blast
  show "fs_mine fp s xs b \<Longrightarrow> b \<notin> set xs" by (simp add: fs_mine_def)
qed (rule free_push)

end
