(* ===== verification/Inode_Spec.thy ===== *)
theory Inode_Spec
  imports Inode Alloc_Spec
begin

text \<open>
  Inodes on disk: what \<open>iupdat\<close> stores \<open>iexpand\<close> reads back, two inodes never share bytes of a
  block, and the two functions together keep the inode through the cache.
\<close>

section \<open>The form of an inode on disk\<close>

definition dinode_ok :: "inode \<Rightarrow> bool" where
  "dinode_ok ip \<longleftrightarrow> 0 \<le> i_mode ip \<and> i_mode ip < 65536 \<and> s16 (i_nlink ip) = i_nlink ip \<and> s16 (i_uid ip) = i_uid ip
     \<and> s16 (i_gid ip) = i_gid ip \<and> s32 (i_size ip) = i_size ip
     \<and> (\<forall>i < NADDR. 0 \<le> i_addr ip i \<and> i_addr ip i < 16777216)"

lemma ld_put_addrs:
  "i + 2 \<le> a + 12 \<Longrightarrow> ld16 (put_addrs ad a d) i = ld16 d i" "i + 4 \<le> a + 12 \<Longrightarrow> ld32 (put_addrs ad a d) i = ld32 d i"
  by (simp_all add: ld16_def ld32_def put_addrs_def)

lemma three_bytes:
  assumes "0 \<le> v" "v < 16777216"
  shows "65536 * (v div 65536 mod 256) + 256 * (v div 256 mod 256) + v mod 256 = (v::int)"
proof -
  have "v div 65536 mod 256 = v div 65536" using assms by (intro mod_pos_pos_trivial) auto
  moreover have "v mod 256 + 256 * (v div 256 mod 256) = v mod 65536" by (rule split_two)
  moreover have "v = v mod 65536 + 65536 * (v div 65536)" by simp
  ultimately show ?thesis by linarith
qed

lemma addr_put_addrs:
  assumes i: "i < NADDR" and v: "0 \<le> ad i" "ad i < 16777216"
  shows "addr_of (put_addrs ad a d) a i = ad i"
proof -
  have byte: "put_addrs ad a d (a + 12 + (3 * i + j)) =
      word_of_int (if j = 0 then ad i div 65536 else if j = 1 then ad i div 256 else ad i)" if "j < 3" for j
  proof -
    have lt: "a + 12 + (3 * i + j) < a + 12 + 3 * NADDR" using i that by simp
    have dm: "(3 * i + j) div 3 = i" "(3 * i + j) mod 3 = j" using that by simp_all
    show ?thesis unfolding put_addrs_def Let_def by (simp only: le_add1 lt simp_thms if_True diff_add_inverse dm)
  qed
  have b: "put_addrs ad a d (a + 12 + 3 * i) = word_of_int (ad i div 65536)"
    "put_addrs ad a d (a + 12 + (3 * i + 1)) = word_of_int (ad i div 256)"
    "put_addrs ad a d (a + 12 + (3 * i + 2)) = word_of_int (ad i)"
    using byte [of 0] byte [of 1] byte [of 2] by simp_all
  show ?thesis unfolding addr_of_def di_addr_def b uint_byte_mod by (rule three_bytes [OF v])
qed

lemma put_dinode_out: "k < a \<or> a + 51 \<le> k \<Longrightarrow> put_dinode ip a d k = d k"
  by (elim disjE) (simp_all add: put_dinode_def Let_def put_addrs_def st16_def st32_def)

lemma put_dates_out: "k < a + 52 \<or> a + 64 \<le> k \<Longrightarrow> put_dates fl ta tm now a d k = d k"
  by (elim disjE) (simp_all add: put_dates_def Let_def st32_def)

lemma iexpand_cong:
  assumes "\<And>k. a \<le> k \<Longrightarrow> k < a + 52 \<Longrightarrow> d k = e k"
  shows "iexpand d a ip = iexpand e a ip"
proof -
  have "addr_of d a i = addr_of e a i" if "i < NADDR" for i
    using that assms by (simp add: addr_of_def di_addr_def)
  then have "(\<lambda>i. if i < NADDR then addr_of d a i else i_addr ip i) = (\<lambda>i. if i < NADDR then addr_of e a i else i_addr ip i)"
    by auto
  then show ?thesis using assms by (simp add: iexpand_def dinode_defs ld16_def ld32_def)
qed

text \<open>The fields of the inode, as the block has them afterwards.\<close>

lemma iexpand_put_dinode:
  assumes "dinode_ok ip"
  shows "iexpand (put_dinode ip a d) a jp = jp\<lparr>i_mode := i_mode ip, i_nlink := i_nlink ip, i_uid := i_uid ip,
     i_gid := i_gid ip, i_size := i_size ip, i_addr := (\<lambda>i. if i < NADDR then i_addr ip i else i_addr jp i)\<rparr>"
proof -
  have ad: "(\<lambda>i. if i < NADDR then addr_of (put_dinode ip a d) a i else i_addr jp i)
      = (\<lambda>i. if i < NADDR then i_addr ip i else i_addr jp i)"
    using assms by (auto simp: put_dinode_def Let_def dinode_ok_def intro!: ext addr_put_addrs)
  have mode: "u16 (wswap_int16 (di_mode (put_dinode ip a d) a)) = i_mode ip"
  proof -
    have "di_mode (put_dinode ip a d) a = u16 (wswap_int16 (i_mode ip))"
      by (simp add: put_dinode_def Let_def di_mode_def ld_put_addrs mem_simps)
    moreover have "wswap_int16 (u16 x) = wswap_int16 x" for x by (metis s16_u16 wswap_int16_s16)
    ultimately show ?thesis using assms by (simp add: dinode_ok_def u16_id)
  qed
  have rest: "wswap_int16 (di_nlink (put_dinode ip a d) a) = i_nlink ip" "wswap_int16 (di_uid (put_dinode ip a d) a) = i_uid ip"
    "wswap_int16 (di_gid (put_dinode ip a d) a) = i_gid ip" "wswap_int32 (di_size (put_dinode ip a d) a) = i_size ip"
    using assms by (simp_all add: put_dinode_def Let_def dinode_defs ld_put_addrs mem_simps dinode_ok_def)
  show ?thesis unfolding iexpand_def mode rest ad ..
qed


section \<open>Where an inode lives\<close>

lemma inode_place:
  assumes "1 \<le> ino" "ino < 65521"
  shows "8 * (itod ino - 2) + int (itoo ino) + 1 = ino" "itoo ino < 8" "2 \<le> itod ino"
  using assms by (simp_all add: itod_def itoo_def u16_id nat_less_iff)

lemma inode_place_inj:
  assumes "1 \<le> i" "i < 65521" "1 \<le> j" "j < 65521" "itod i = itod j" "itoo i = itoo j"
  shows "i = j"
  using inode_place(1) [OF assms(1,2)] inode_place(1) [OF assms(3,4)] assms(5,6) by simp


section \<open>Through the cache\<close>

text \<open>The bytes that \<open>iupdat\<close> makes of the block of an inode.\<close>

definition dinode_bytes :: "inode \<Rightarrow> int \<Rightarrow> int \<Rightarrow> int \<Rightarrow> block \<Rightarrow> block" where
  "dinode_bytes i ta tm now d = (let a = 64 * itoo (i_number i)
     in put_dates (i_flag i) ta tm now a (put_dinode i a d))"

text \<open>Functions on blocks that make each byte from the byte in its place.\<close>

definition bytewise :: "(block \<Rightarrow> block) \<Rightarrow> bool" where
  "bytewise g \<longleftrightarrow> (\<forall>d e k. d k = e k \<longrightarrow> g d k = g e k)"

lemma bytewiseI: "(\<And>d e k. d k = e k \<Longrightarrow> g d k = g e k) \<Longrightarrow> bytewise g"
  unfolding bytewise_def by (intro allI impI)

lemma bytewiseD: "bytewise g \<Longrightarrow> d k = e k \<Longrightarrow> g d k = g e k"
  unfolding bytewise_def by blast

lemma bytewise_comp: "bytewise f \<Longrightarrow> bytewise g \<Longrightarrow> bytewise (\<lambda>d. f (g d))"
  by (rule bytewiseI) (erule bytewiseD, erule bytewiseD, assumption)

lemma bytewise_prim: "bytewise (\<lambda>d. d)" "bytewise (st16 a v)" "bytewise (st32 a v)" "bytewise (put_addrs ad a)"
  by (rule bytewiseI, simp add: st16_def st32_def put_addrs_def)+

lemmas bytewise_intros = bytewise_prim(1) bytewise_prim(2-4) [THEN bytewise_comp]

lemma bytewise_blocal:
  assumes "bytewise g"
  shows "blocal g"
  unfolding blocal_def
proof (intro allI trunc_blk_eqI)
  fix d :: block and k :: nat assume "k < 512"
  then show "g (trunc_blk d) k = g d k" by (intro bytewiseD [OF assms]) simp
qed

lemma bytewise_if: "bytewise f \<Longrightarrow> bytewise g \<Longrightarrow> bytewise (\<lambda>d. if c then f d else g d)"
  by (cases c) simp_all

lemma bytewise_put_dates: "bytewise (put_dates fl ta tm now a)"
  unfolding put_dates_def [abs_def] Let_def by (intro bytewise_if bytewise_intros)

lemma bytewise_put_dinode: "bytewise (put_dinode ip a)"
  unfolding put_dinode_def [abs_def] Let_def by (intro bytewise_intros)

lemma blocal_dinode_bytes: "blocal (dinode_bytes i ta tm now)"
proof (rule bytewise_blocal)
  show "bytewise (dinode_bytes i ta tm now)"
    unfolding dinode_bytes_def [abs_def] Let_def by (rule bytewise_comp [OF bytewise_put_dates bytewise_put_dinode])
qed

text \<open>
  \<open>iupdat\<close> through the cache: the inode's block gets the bytes above, every other block stays, and the
  inode's flags are cleared.
\<close>

definition inode_step :: "nat \<Rightarrow> kernel \<Rightarrow> kernel \<Rightarrow> bool" where
  "inode_step ip s t \<longleftrightarrow> v7_buf t = v7_buf s \<and> v7_nblkdev t = v7_nblkdev s \<and> dsk t = dsk s
     \<and> h_file (host t) = h_file (host s) \<and> h_len (host t) = h_len (host s) \<and> h_fault (host t) = h_fault (host s)
     \<and> v7_mount t = v7_mount s \<and> v7_time t = v7_time s \<and> v7_u t = v7_u s \<and> (\<forall>j. j \<noteq> ip \<longrightarrow> v7_inode t j = v7_inode s j)"

lemma inode_step_upd: "inode_step ip s (upd_inode ip f s)" "inode_step ip s (clr_iflag ip fs s)" "inode_step ip s (or_iflag ip fs s)"
  by (simp_all add: inode_step_def upd_inode_def clr_iflag_def or_iflag_def)

lemma warn_addrs_step: "inode_step ip s (warn_addrs ip s)" "v7_inode (warn_addrs ip s) = v7_inode s"
proof -
  have F: "inode_step ip s (fold (\<lambda>j s. if P j then v7_printf m s else s) js s)
      \<and> v7_inode (fold (\<lambda>j s. if P j then v7_printf m s else s) js s) = v7_inode s" for P m js
    by (induction js arbitrary: s) (auto simp: inode_step_def v7_printf_def)
  show "inode_step ip s (warn_addrs ip s)" "v7_inode (warn_addrs ip s) = v7_inode s"
    unfolding warn_addrs_def Let_def by (rule F [THEN conjunct1], rule F [THEN conjunct2])
qed

lemma inode_step_cache:
  assumes "inode_step ip s t"
  shows "cache_ok t = cache_ok s" "view t = view s" "busy t = busy s" "buf_tag t = buf_tag s" "dsk_inrange t = dsk_inrange s"
  using cache_ok_cong [of t s] assms by (simp_all add: inode_step_def)

lemma inode_step_hold:
  "inode_step ip s t \<Longrightarrow> buf_hold t p b = buf_hold s p b" "inode_step ip s t \<Longrightarrow> bread_data t p = bread_data s p"
  using inode_step_cache [of ip s t] by (simp_all add: buf_hold_def inode_step_def)

definition time_at :: "timep \<Rightarrow> int \<Rightarrow> int" where
  "time_at tp now = (case tp of Time \<Rightarrow> now | TimeVar v \<Rightarrow> v)"

lemma iupdat_ok:
  assumes ok: "cache_ok s" and fp: "super s fp" "sb_count (bdata s fp) \<le> NICFREE" "wswap_int16 (s_ninode (bdata s fp)) \<le> NICINOD"
    "s_ronly (bdata s fp) = 0"
    and i: "v7_inode s ip = i" "i_dev i = 0" "i_flag i \<inter> {IUPD, IACC, ICHG} \<noteq> {}"
    and r: "room s (itod (i_number i))" "dsk_inrange s (itod (i_number i))"
  shows "\<exists>t now. iupdat ip ta tm s = Some t \<and> cache_ok t \<and> busy t = busy s
    \<and> (\<forall>q \<in> busy s. buf_tag t q = buf_tag s q) \<and> (\<forall>c. dsk_inrange t c = dsk_inrange s c)
    \<and> v7_inode t = (v7_inode s)(ip := i\<lparr>i_flag := i_flag i - {IUPD, IACC, ICHG}\<rparr>)
    \<and> (\<forall>c. dsk_inrange s c \<longrightarrow> view t c = (if c = itod (i_number i)
         then trunc_blk (dinode_bytes i (time_at ta now) (time_at tm now) now (view s c)) else view s c))"
proof -
  let ?b = "itod (i_number i)" and ?F = "{IUPD, IACC, ICHG}"
  have gf: "getfs 0 s = Some (fp, s)" by (rule getfs_super [OF fp(1-3)])
  obtain p t where t: "bread 0 ?b s = Some (p, t)" "cache_ok t" "io_frame s t" "buf_hold t p ?b" "bread_data t p = view s ?b"
    "p \<notin> busy s" "busy t = insert p (busy s)" "\<And>c. dsk_inrange s c \<Longrightarrow> view t c = view s c"
    "\<And>q. q \<in> busy s \<Longrightarrow> buf_tag t q = buf_tag s q"
    using bread_law [OF ok r] by blast
  have it: "v7_inode t ip = i" "v7_inode t = v7_inode s" using io_frame_fields(3) [OF t(3)] i(1) by simp_all
  let ?u = "warn_addrs ip t"
  note su = warn_addrs_step [where ip = ip and s = t]
  note cu = inode_step_cache [OF su(1)] inode_step_hold [OF su(1)]
  define now where "now = v7_time t"
  let ?g = "dinode_bytes i (time_at ta now) (time_at tm now) now"
  have hu: "cache_ok ?u" "buf_hold ?u p ?b" using cu t by simp_all
  let ?v = "upd_data p ?g ?u"
  note lv = upd_data_law [OF hu blocal_dinode_bytes [of i "time_at ta now" "time_at tm now" now]]
  let ?w = "clr_iflag ip ?F ?v"
  note cw = inode_step_cache [OF inode_step_upd(2), where s = ?v and ip = ip] inode_step_hold [OF inode_step_upd(2), where s = ?v and ip = ip]
  have hw: "cache_ok ?w" "buf_hold ?w p ?b" using cw lv by simp_all
  obtain x where x: "bdwrite p ?w = Some x" "cache_ok x" "io_frame ?w x" "busy x = busy ?w - {p}"
    "\<And>c. dsk_inrange ?w c \<Longrightarrow> view x c = (if c = ?b then bread_data ?w p else view ?w c)"
    "\<And>q. q \<in> busy ?w - {p} \<Longrightarrow> buf_tag x q = buf_tag ?w q"
    using bdwrite_law [OF hw] by blast
  have tu: "v7_time ?u = now" using su(1) by (simp add: inode_step_def now_def)
  have run: "iupdat ip ta tm s = Some x"
  proof -
    have e: "B_ERROR \<notin> bflags t p" using t(4) by (simp add: buf_hold_def)
    have tv: "v7_time (upd_data p g ?u) = now" "deref_time tp (upd_data p g ?u) = time_at tp now" for g tp
      using tu by (simp_all add: deref_time_def time_at_def upd_data_def upd_buf_def split: timep.split)
    show ?thesis
      using x(1) i t(1) gf fp(4) e unfolding iupdat_def
      by (simp add: Let_def it(1) tv upd_data_comp dinode_bytes_def [abs_def])
  qed
  have iw: "v7_inode x = (v7_inode s)(ip := i\<lparr>i_flag := i_flag i - ?F\<rparr>)"
    using io_frame_fields(3) [OF x(3)] it su(2) by (simp add: clr_iflag_def upd_inode_def upd_data_def upd_buf_def)
  have rw: "dsk_inrange ?w c = dsk_inrange s c" for c
    using cw(5) lv cu(5) io_frame_inrange [OF t(3)] io_frame_inrange [of ?u ?v] by simp
  have "busy x = busy s" using x(4) cw(3) lv cu(3) t(6,7) by simp
  moreover have "view x c = (if c = ?b then trunc_blk (?g (view s c)) else view s c)" if "dsk_inrange s c" for c
  proof -
    have "dsk_inrange ?u c" using that cu(5) io_frame_inrange [OF t(3)] by simp
    then show ?thesis using x(5) [of c] rw that cw(2,7) lv cu(2,7) t(5,8) by simp
  qed
  moreover have "buf_tag x q = buf_tag s q" if "q \<in> busy s" for q
    using that x(6) [of q] t(6,7) t(9) [OF that] cw(3,4) lv cu(3,4) by auto
  moreover have "dsk_inrange x c = dsk_inrange s c" for c using io_frame_inrange [OF x(3)] rw by simp
  ultimately show ?thesis using run x(2) iw by blast
qed

text \<open>What a later read makes of the block: the inode that was written, and every other one as before.\<close>

lemma iexpand_written:
  assumes "dinode_ok i" "itoo (i_number i) < 8"
  shows "iexpand (trunc_blk (dinode_bytes i ta tm now d)) (64 * itoo (i_number i)) jp
    = jp\<lparr>i_mode := i_mode i, i_nlink := i_nlink i, i_uid := i_uid i,
       i_gid := i_gid i, i_size := i_size i, i_addr := (\<lambda>k. if k < NADDR then i_addr i k else i_addr jp k)\<rparr>"
proof -
  let ?a = "64 * itoo (i_number i)"
  have "iexpand (trunc_blk (dinode_bytes i ta tm now d)) ?a jp = iexpand (put_dinode i ?a d) ?a jp"
  proof (rule iexpand_cong)
    fix k assume "?a \<le> k" "k < ?a + 52"
    then show "trunc_blk (dinode_bytes i ta tm now d) k = put_dinode i ?a d k"
      using assms(2) by (simp add: dinode_bytes_def Let_def put_dates_out)
  qed
  then show ?thesis using iexpand_put_dinode [OF assms(1)] by simp
qed

lemma iexpand_other:
  assumes "m \<noteq> itoo (i_number i)" "m < 8"
  shows "iexpand (trunc_blk (dinode_bytes i ta tm now d)) (64 * m) jp = iexpand d (64 * m) jp"
proof (rule iexpand_cong)
  let ?a = "64 * itoo (i_number i)"
  fix k assume k: "64 * m \<le> k" "k < 64 * m + 52"
  have "k < ?a \<or> ?a + 64 \<le> k" using k assms(1) by linarith
  then have "put_dates (i_flag i) ta tm now ?a (put_dinode i ?a d) k = put_dinode i ?a d k" "put_dinode i ?a d k = d k"
    by (auto intro: put_dates_out put_dinode_out)
  then show "trunc_blk (dinode_bytes i ta tm now d) k = d k"
    using k assms(2) by (simp add: dinode_bytes_def Let_def)
qed


section \<open>Getting an inode\<close>

lemma iget_hit:
  assumes "inode_find dev ino s = Some ip" "ILOCK \<notin> i_flag (v7_inode s ip)" "IMOUNT \<notin> i_flag (v7_inode s ip)"
  shows "iget dev ino s = Some (Some ip, upd_inode ip (\<lambda>p. p\<lparr>i_count := s8 (i_count p + 1), i_flag := insert ILOCK (i_flag p)\<rparr>) s)"
  using assms by (subst iget.simps) (simp add: or_iflag_def upd_inode_def)

lemma iget_full:
  assumes "inode_find dev ino s = None" "inode_unused s = None"
  shows "iget dev ino s = Some (None, set_error ENFILE (v7_printf ''Inode table overflow'' s))"
  using assms by (subst iget.simps) simp

lemma iget_miss:
  assumes ok: "cache_ok s" and f: "inode_find 0 ino s = None" "inode_unused s = Some ip"
    and r: "room s (itod ino)" "dsk_inrange s (itod ino)" and o: "itoo ino < 8"
  shows "\<exists>t. iget 0 ino s = Some (Some ip, t) \<and> cache_ok t \<and> busy t = busy s
    \<and> v7_inode t = (v7_inode s)(ip := iexpand (view s (itod ino)) (64 * itoo ino)
         ((v7_inode s ip)\<lparr>i_dev := 0, i_number := ino, i_flag := {ILOCK}, i_count := s8 (i_count (v7_inode s ip) + 1), i_lastr := 0\<rparr>))
    \<and> (\<forall>c. dsk_inrange s c \<longrightarrow> view t c = view s c)"
proof -
  let ?f = "\<lambda>p. p\<lparr>i_dev := 0, i_number := ino, i_flag := {ILOCK}, i_count := s8 (i_count p + 1), i_lastr := 0\<rparr>"
  let ?s = "upd_inode ip ?f s"
  note c = inode_step_cache [OF inode_step_upd(1), where s = s and ip = ip]
  have ok1: "cache_ok ?s" and r1: "room ?s (itod ino)" "dsk_inrange ?s (itod ino)"
    using c ok r room_iff [of s] room_iff [of ?s] by simp_all
  obtain p t where t: "bread 0 (itod ino) ?s = Some (p, t)" "taken ?s p t" "trunc_blk (bdata t p) = view ?s (itod ino)"
    using bread_spec [OF ok1 r1(1)] r1(2) by blast
  have fr: "io_frame ?s t" and nerr: "B_ERROR \<notin> bflags t p" using t(2) by (simp_all add: taken_def undisturbed_def)
  let ?u = "upd_inode ip (iexpand (bdata t p) (64 * itoo ino)) t"
  note cu = inode_step_cache [OF inode_step_upd(1), where s = t and ip = ip]
  have h: "cache_ok ?u" "p \<in> busy ?u" "pristine ?u p" "B_ERROR \<notin> bflags ?u p"
    "B_DELWRI \<in> bflags ?u p \<Longrightarrow> B_DONE \<in> bflags ?u p \<and> b_dev (v7_buf ?u p) = 0"
    using t(2) cu by (auto simp: taken_def pristine_def upd_inode_def dsk_block_def dsk_pos_def)
  note b = brelse_spec [OF h]
  have ex: "iexpand (bdata t p) (64 * itoo ino) jp = iexpand (view s (itod ino)) (64 * itoo ino) jp" for jp
  proof (rule iexpand_cong)
    fix k assume "64 * itoo ino \<le> k" "k < 64 * itoo ino + 52"
    then have "trunc_blk (bdata t p) k = bdata t p k" using o by (intro trunc_blk_in) linarith
    then show "bdata t p k = view s (itod ino) k" using t(3) c(2) by simp
  qed
  have io: "io_frame ?u (brelse p ?u)" using b(1) by (simp add: released_def undisturbed_def)
  have iv: "v7_inode (brelse p ?u) = (v7_inode s)(ip := iexpand (view s (itod ino)) (64 * itoo ino) (?f (v7_inode s ip)))"
    using io_frame_fields(3) [OF io] io_frame_fields(3) [OF fr] ex by (simp add: upd_inode_def)
  have "iget 0 ino s = Some (Some ip, brelse p ?u)"
    using f t(1) nerr by (subst iget.simps) (simp add: iget_read_def Let_def)
  moreover have "busy (brelse p ?u) = busy s" using b(1) cu(3) c(3) t(2) by (auto simp: released_def taken_def)
  moreover have "view (brelse p ?u) x = view s x" if "dsk_inrange s x" for x
    using b(2) [of x] cu(2) t(2) c(2,5) that by (simp add: taken_def)
  ultimately show ?thesis using iv b(1) by (auto simp: released_def)
qed

text \<open>
  \<open>iget\<close> of an inode that is locked sleeps for a wakeup that cannot come: it does not return.
\<close>

lemma iget_locked:
  assumes "inode_find dev ino s = Some ip" "ILOCK \<in> i_flag (v7_inode s ip)"
  shows "iget dev ino s = None"
proof (rule ccontr)
  assume "iget dev ino s \<noteq> None"
  then obtain r where r: "iget dev ino s = Some r" by blast
  have "inode_find dev ino t = Some ip \<longrightarrow> ILOCK \<in> i_flag (v7_inode t ip) \<longrightarrow> False"
    if "iget dev ino t = Some y" for dev ino t y
  proof (rule iget.raw_induct [OF _ that])
    fix g dev ino t y
    assume IH: "\<And>dev ino t y. g dev ino t = Some y \<Longrightarrow>
        inode_find dev ino t = Some ip \<longrightarrow> ILOCK \<in> i_flag (v7_inode t ip) \<longrightarrow> False"
      and body: "(case inode_find dev ino t of
        Some ip \<Rightarrow>
          if ILOCK \<in> i_flag (v7_inode t ip) then g dev ino (or_iflag ip {IWANT} t)
          else if IMOUNT \<in> i_flag (v7_inode t ip) then
            (case find (\<lambda>m. m_inodp (v7_mount t m) = Some ip) [0..<NMOUNT] of
               Some m \<Rightarrow> g (m_dev (v7_mount t m)) ROOTINO t
             | None \<Rightarrow> None)
          else Some (Some ip, or_iflag ip {ILOCK}
                 (upd_inode ip (\<lambda>p. p\<lparr>i_count := s8 (i_count p + 1)\<rparr>) t))
      | None \<Rightarrow>
          (case inode_unused t of
             None \<Rightarrow> Some (None, set_error ENFILE (v7_printf ''Inode table overflow'' t))
           | Some ip \<Rightarrow> iget_read ip dev ino t)) = Some y"
    show "inode_find dev ino t = Some ip \<longrightarrow> ILOCK \<in> i_flag (v7_inode t ip) \<longrightarrow> False"
    proof (intro impI)
      assume a: "inode_find dev ino t = Some ip" "ILOCK \<in> i_flag (v7_inode t ip)"
      let ?u = "or_iflag ip {IWANT} t"
      have "g dev ino ?u = Some y" using body a by simp
      moreover have "inode_find dev ino ?u = inode_find dev ino t"
        unfolding inode_find_def by (rule find_cong [OF refl]) (simp add: or_iflag_def upd_inode_def)
      moreover have "ILOCK \<in> i_flag (v7_inode ?u ip)" using a(2) by (simp add: or_iflag_def upd_inode_def)
      ultimately show False using IH [of dev ino ?u y] a(1) by simp
    qed
  qed
  then show False using r assms by blast
qed

section \<open>From the last \<open>iput\<close> to the next \<open>iget\<close>\<close>

lemma dinode_bytes_lock: "dinode_bytes (i\<lparr>i_flag := insert ILOCK (i_flag i)\<rparr>) ta tm now = dinode_bytes i ta tm now"
  by (simp add: dinode_bytes_def put_dates_def put_dinode_def fun_eq_iff)

text \<open>
  The last reference to a changed inode that has links goes: the slot is unused afterwards and the
  inode's block has the inode.
\<close>

lemma iput_last:
  assumes ok: "cache_ok s" and fp: "super s fp" "sb_count (bdata s fp) \<le> NICFREE" "wswap_int16 (s_ninode (bdata s fp)) \<le> NICINOD"
    "s_ronly (bdata s fp) = 0"
    and i: "v7_inode s ip = i" "i_dev i = 0" "i_flag i \<inter> {IUPD, IACC, ICHG} \<noteq> {}" "i_count i = 1" "0 < i_nlink i"
    and r: "room s (itod (i_number i))" "dsk_inrange s (itod (i_number i))"
  shows "\<exists>t now. iput ip s = Some t \<and> cache_ok t \<and> busy t = busy s \<and> (\<forall>c. room t c = room s c \<and> dsk_inrange t c = dsk_inrange s c)
    \<and> v7_inode t = (v7_inode s)(ip := i\<lparr>i_number := 0, i_count := 0, i_flag := {}\<rparr>)
    \<and> (\<forall>c. dsk_inrange s c \<longrightarrow> view t c = (if c = itod (i_number i)
         then trunc_blk (dinode_bytes i now now now (view s c)) else view s c))"
proof -
  let ?s = "or_iflag ip {ILOCK} s" and ?i = "i\<lparr>i_flag := insert ILOCK (i_flag i)\<rparr>"
  note cs = inode_step_cache [OF inode_step_upd(3), where s = s and ip = ip]
  have si: "v7_inode ?s ip = ?i" "v7_mount ?s = v7_mount s" "v7_buf ?s = v7_buf s"
    using i(1) by (simp_all add: or_iflag_def upd_inode_def)
  have rm: "room ?s c = room s c" for c by (rule room_cong) (use ok cs in simp_all)
  have S: "super ?s fp" using fp(1) cs si(2) by (simp add: super_def off_disk_def)
  have P: "cache_ok ?s" "sb_count (bdata ?s fp) \<le> NICFREE" "wswap_int16 (s_ninode (bdata ?s fp)) \<le> NICINOD"
    "s_ronly (bdata ?s fp) = 0" "i_dev ?i = 0" "i_flag ?i \<inter> {IUPD, IACC, ICHG} \<noteq> {}"
    "room ?s (itod (i_number ?i))" "dsk_inrange ?s (itod (i_number ?i))"
    using ok cs fp(2-4) si(3) i(2,3) r rm by auto
  obtain t now where t: "iupdat ip Time Time ?s = Some t" "cache_ok t" "busy t = busy s"
    "\<And>q. q \<in> busy s \<Longrightarrow> buf_tag t q = buf_tag s q" "\<And>c. dsk_inrange t c = dsk_inrange s c"
    "v7_inode t = (v7_inode ?s)(ip := ?i\<lparr>i_flag := i_flag ?i - {IUPD, IACC, ICHG}\<rparr>)"
    and v: "\<And>c. dsk_inrange s c \<Longrightarrow> view t c = (if c = itod (i_number i)
         then trunc_blk (dinode_bytes ?i (time_at Time now) (time_at Time now) now (view s c)) else view s c)"
    using iupdat_ok [OF P(1) S P(2-4) si(1) P(5-8), of Time Time] unfolding cs by auto
  let ?u = "upd_inode ip (\<lambda>p. i\<lparr>i_number := 0, i_count := 0, i_flag := {}\<rparr>) t"
  note cu = inode_step_cache [OF inode_step_upd(1), where s = t and ip = ip]
  have run: "iput ip s = Some ?u"
    using i(4,5) si(1) t(1,6) unfolding iput_def
    by (simp add: Let_def prele_def clr_iflag_def upd_inode_def or_iflag_def s8_def i(1))
  have "room ?u c = room s c" for c by (rule room_cong) (use ok cu t(2-4) in simp_all)
  moreover have "v7_inode ?u = (v7_inode s)(ip := i\<lparr>i_number := 0, i_count := 0, i_flag := {}\<rparr>)"
    using t(6) by (auto simp: upd_inode_def or_iflag_def fun_eq_iff)
  ultimately show ?thesis using run cu t(2,3,5) v by (intro exI [of _ ?u] exI [of _ now]) (simp add: dinode_bytes_lock time_at_def)
qed

text \<open>The next \<open>iget\<close> of the number finds what the last holder left.\<close>

lemma iput_iget:
  assumes "cache_ok s" "super s fp" "sb_count (bdata s fp) \<le> NICFREE" "wswap_int16 (s_ninode (bdata s fp)) \<le> NICINOD"
    "s_ronly (bdata s fp) = 0"
    "v7_inode s ip = i" "i_dev i = 0" "i_flag i \<inter> {IUPD, IACC, ICHG} \<noteq> {}" "i_count i = 1" "0 < i_nlink i"
    "room s (itod (i_number i))" "dsk_inrange s (itod (i_number i))"
    and d: "dinode_ok i" "1 \<le> i_number i" "i_number i < 65521" "ip < NINODE"
    and u: "\<forall>j < NINODE. j \<noteq> ip \<longrightarrow> i_number (v7_inode s j) \<noteq> i_number i"
  shows "\<exists>t jp u. iput ip s = Some t \<and> iget 0 (i_number i) t = Some (Some jp, u)
    \<and> (let j = v7_inode u jp in i_number j = i_number i \<and> i_mode j = i_mode i \<and> i_nlink j = i_nlink i \<and> i_uid j = i_uid i
        \<and> i_gid j = i_gid i \<and> i_size j = i_size i \<and> (\<forall>k < NADDR. i_addr j k = i_addr i k))"
proof -
  obtain t now where t: "iput ip s = Some t" "cache_ok t" "\<And>c. room t c = room s c" "\<And>c. dsk_inrange t c = dsk_inrange s c"
    "v7_inode t = (v7_inode s)(ip := i\<lparr>i_number := 0, i_count := 0, i_flag := {}\<rparr>)"
    "\<And>c. dsk_inrange s c \<Longrightarrow> view t c = (if c = itod (i_number i)
         then trunc_blk (dinode_bytes i now now now (view s c)) else view s c)"
    using iput_last [OF assms(1-12)] by blast
  have f: "inode_find 0 (i_number i) t = None"
    using t(5) u d(2) by (auto simp: inode_find_def find_None_iff)
  have "inode_unused t \<noteq> None" using t(5) d(4) by (auto simp: inode_unused_def find_None_iff)
  then obtain jp where jp: "inode_unused t = Some jp" by blast
  note pl = inode_place [OF d(2,3)]
  obtain u where g: "iget 0 (i_number i) t = Some (Some jp, u)" "v7_inode u = (v7_inode t)(jp := iexpand (view t (itod (i_number i)))
      (64 * itoo (i_number i)) ((v7_inode t jp)\<lparr>i_dev := 0, i_number := i_number i, i_flag := {ILOCK},
        i_count := s8 (i_count (v7_inode t jp) + 1), i_lastr := 0\<rparr>))"
    using iget_miss [OF t(2) f jp] t(3,4) assms(11,12) pl(2) by auto
  show ?thesis
    using t(1) t(6) [of "itod (i_number i)"] assms(12) g iexpand_written [OF d(1) pl(2)] by (simp add: Let_def)
qed

end
