(* ===== verification/Rdwri_Spec.thy ===== *)
theory Rdwri_Spec
  imports Rdwri Inode_Spec
begin

text \<open>
  \<open>bmap\<close> for reading: the search for the level of indirection in closed form, the fact that the levels
  partition the file blocks, and the walk through the indirect blocks as a function of the contents
  of the disk.
\<close>

section \<open>The level of indirection\<close>

lemma bmap_level_closed:
  "bmap_level 3 0 1 n = (if n < 128 then Some (3, 7, n) else if n < 16512 then Some (2, 14, n - 128)
     else if n < 2113664 then Some (1, 21, n - 16512) else None)"
  by (simp add: numeral_3_eq_3 Let_def)

text \<open>The slot of the inode and the indices in the indirect blocks on the way to a file block.\<close>

definition bmap_path :: "int \<Rightarrow> (nat \<times> nat list) option" where
  "bmap_path bn =
     (if bn < 0 then None
      else if bn < 10 then Some (nat bn, [])
      else if bn < 138 then Some (10, [nat (bn - 10)])
      else if bn < 16522 then Some (11, [nat ((bn - 138) div 128), nat ((bn - 138) mod 128)])
      else if bn < 2113674 then
        Some (12, [nat ((bn - 16522) div 16384), nat ((bn - 16522) div 128 mod 128), nat ((bn - 16522) mod 128)])
      else None)"

lemma bmap_path_bounds:
  assumes "bmap_path bn = Some (i, is)"
  shows "i < NADDR" "\<forall>k \<in> set is. k < NINDIR" "length is = (if i < 10 then 0 else i - 9)"
  using assms by (auto simp: bmap_path_def nat_less_iff split: if_splits)

text \<open>Two file blocks never share a path.\<close>

lemma bmap_path_inj:
  assumes "bmap_path m = Some p" "bmap_path n = Some p"
  shows "m = n"
proof -
  obtain i "is" where p: "p = (i, is)" by (cases p)
  have inv: "k = (if i < 10 then int i else if i = 10 then 10 + int (is ! 0) else if i = 11 then 138 + 128 * int (is ! 0) + int (is ! 1)
      else 16522 + 16384 * int (is ! 0) + 128 * int (is ! 1) + int (is ! 2))"
    if "bmap_path k = Some (i, is)" for k
  proof -
    have "x div 16384 * 16384 + x div 128 mod 128 * 128 + x mod 128 = x" for x :: int
    proof -
      have "x div 16384 = x div 128 div 128" by (simp add: zdiv_zmult2_eq [symmetric])
      then show ?thesis using div_mult_mod_eq [of "x div 128" 128] div_mult_mod_eq [of x 128] by linarith
    qed
    from this [of "k - 16522"] show ?thesis
      using that by (auto simp: bmap_path_def split: if_splits)
  qed
  show ?thesis using inv [of m] inv [of n] assms p by simp
qed


section \<open>Following the path\<close>

fun follow :: "(int \<Rightarrow> block) \<Rightarrow> int \<Rightarrow> nat list \<Rightarrow> int" where
  "follow V nb [] = nb"
| "follow V nb (i # is) =
     (let nb = wswap_int32 (ld32 (V nb) (4 * i)) in if nb = 0 then - 1 else follow V nb is)"

text \<open>The indirect blocks on the way can be read.\<close>

fun follow_ok :: "kernel \<Rightarrow> int \<Rightarrow> nat list \<Rightarrow> bool" where
  "follow_ok s nb [] \<longleftrightarrow> True"
| "follow_ok s nb (i # is) \<longleftrightarrow> room s nb \<and> dsk_inrange s nb \<and> i < NINDIR
     \<and> (let nb = wswap_int32 (ld32 (view s nb) (4 * i)) in nb \<noteq> 0 \<longrightarrow> follow_ok s nb is)"

definition same_reads :: "kernel \<Rightarrow> kernel \<Rightarrow> bool" where
  "same_reads s t \<longleftrightarrow> cache_ok t \<and> same_room s t \<and> (\<forall>c. dsk_inrange s c \<longrightarrow> view t c = view s c)"

lemma same_reads_trans: "same_reads s t \<Longrightarrow> same_reads t u \<Longrightarrow> same_reads s u"
  using same_room_trans [of s t u] io_frame_inrange [of s t] by (simp add: same_reads_def same_room_def)

lemma same_reads_inrange: "same_reads s t \<Longrightarrow> dsk_inrange t b = dsk_inrange s b"
  using io_frame_inrange [of s t b] by (simp add: same_reads_def same_room_def)

text \<open>The same for states that may differ outside the cache and the disk.\<close>

definition alike :: "kernel \<Rightarrow> kernel \<Rightarrow> bool" where
  "alike s t \<longleftrightarrow> cache_ok t \<and> busy t = busy s \<and> (\<forall>c. room t c = room s c \<and> dsk_inrange t c = dsk_inrange s c)
     \<and> (\<forall>c. dsk_inrange s c \<longrightarrow> view t c = view s c)"

lemma alike_trans: "alike s t \<Longrightarrow> alike t u \<Longrightarrow> alike s u"
  by (simp add: alike_def)

lemma same_reads_alike: "same_reads s t \<Longrightarrow> alike s t"
  using same_reads_inrange [of s t] by (simp add: alike_def same_reads_def same_room_def)

lemma follow_alike:
  assumes "follow_ok s nb is" "alike s t"
  shows "follow (view t) nb is = follow (view s) nb is" "follow_ok t nb is"
  using assms(1) by (induction "is" arbitrary: nb) (use assms(2) in \<open>auto simp: Let_def alike_def\<close>)

lemmas follow_cong = follow_alike [OF _ same_reads_alike]

text \<open>The indices that \<open>bmap_indir\<close> computes, the outermost first.\<close>

fun indices :: "nat \<Rightarrow> int \<Rightarrow> nat \<Rightarrow> nat list" where
  "indices 0 bn sh = []"
| "indices (Suc k) bn sh = nat (bn div 2 ^ (sh - NSHIFT) mod int NINDIR) # indices k bn (sh - NSHIFT)"

lemma bmap_indir_read:
  assumes "cache_ok s" "follow_ok s nb (indices k bn sh)"
  shows "\<exists>q t. bmap_indir k 0 True bn sh nb at s = Some (q, t) \<and> same_reads s t
    \<and> (case q of Inl v \<Rightarrow> v | Inr (v, _) \<Rightarrow> v) = follow (view s) nb (indices k bn sh)"
  using assms(1,2)
proof (induction k arbitrary: s nb sh at)
  case 0
  have "same_reads s s" using 0 by (simp add: same_reads_def same_room_def)
  then show ?case by simp
next
  case (Suc k)
  let ?i = "nat (bn div 2 ^ (sh - NSHIFT) mod 128)"
  have o: "room s nb" "dsk_inrange s nb" "?i < NINDIR" using Suc.prems(2) by simp_all
  obtain p t where t: "bread 0 nb s = Some (p, t)" "trunc_blk (bdata t p) = view s nb" "cache_ok (brelse p t)" "same_room s (brelse p t)"
    "\<And>c. dsk_inrange s c \<Longrightarrow> view (brelse p t) c = view s c"
    using bread_brelse [OF Suc.prems(1) o(1)] o(2) by blast
  have e: "B_ERROR \<notin> bflags t p" using bread_spec [OF Suc.prems(1) o(1)] t(1) by (auto simp: taken_def)
  have sr: "same_reads s (brelse p t)" using t(3-5) by (simp add: same_reads_def)
  let ?nb = "wswap_int32 (ld32 (view s nb) (4 * ?i))"
  have nb: "wswap_int32 (ld32 (bdata t p) (4 * ?i)) = ?nb" using o(3) unfolding t(2) [symmetric] by (simp add: mem_simps)
  show ?case
  proof (cases "?nb = 0")
    case True
    then show ?thesis using sr by (simp add: t(1) e nb Let_def)
  next
    case False
    have fo: "follow_ok s ?nb (indices k bn (sh - NSHIFT))" using Suc.prems(2) False by simp
    note fc = follow_cong [OF fo sr]
    obtain q u where u: "bmap_indir k 0 True bn (sh - NSHIFT) ?nb (Some (p, ?i)) (brelse p t) = Some (q, u)" "same_reads (brelse p t) u"
      "(case q of Inl v \<Rightarrow> v | Inr (v, _) \<Rightarrow> v) = follow (view (brelse p t)) ?nb (indices k bn (sh - NSHIFT))"
      using Suc.IH [OF t(3) fc(2)] by blast
    have "same_reads s u" by (rule same_reads_trans [OF sr u(2)])
    then show ?thesis using u(3) fc(1) by (simp add: t(1) e nb False u(1) Let_def)
  qed
qed

text \<open>The device, the cache and the inodes do not depend on the read-ahead hint.\<close>

lemma rablock_cong [simp]:
  "cache_ok (s\<lparr>v7_rablock := x\<rparr>) = cache_ok s" "view (s\<lparr>v7_rablock := x\<rparr>) = view s"
  "busy (s\<lparr>v7_rablock := x\<rparr>) = busy s" "dsk_inrange (s\<lparr>v7_rablock := x\<rparr>) = dsk_inrange s"
  "room (s\<lparr>v7_rablock := x\<rparr>) = room s"
proof -
  show b: "busy (s\<lparr>v7_rablock := x\<rparr>) = busy s" by (rule cache_ok_cong; simp)
  show "cache_ok (s\<lparr>v7_rablock := x\<rparr>) = cache_ok s" "view (s\<lparr>v7_rablock := x\<rparr>) = view s"
    "dsk_inrange (s\<lparr>v7_rablock := x\<rparr>) = dsk_inrange s"
    by (rule cache_ok_cong; simp)+
  show "room (s\<lparr>v7_rablock := x\<rparr>) = room s"
    by (rule ext) (simp add: room_def cached_def b split: option.split)
qed

lemma follow_ok_rablock [simp]: "follow_ok (s\<lparr>v7_rablock := x\<rparr>) nb is = follow_ok s nb is"
  by (induction "is" arbitrary: nb) (simp_all add: Let_def)

section \<open>\<open>bmap\<close> for reading\<close>

text \<open>Equal but for the read-ahead hint, which every \<open>bmap\<close> sets.\<close>

definition bmap_frame :: "kernel \<Rightarrow> kernel \<Rightarrow> bool" where
  "bmap_frame s t \<longleftrightarrow> same_reads s (t\<lparr>v7_rablock := v7_rablock s\<rparr>)"

lemma bmap_frame_refl: "cache_ok s \<Longrightarrow> bmap_frame s (s\<lparr>v7_rablock := x\<rparr>)"
  by (simp add: bmap_frame_def same_reads_def same_room_def)

lemma bmap_frame_via:
  "same_reads (s\<lparr>v7_rablock := x\<rparr>) t \<Longrightarrow> bmap_frame s (t\<lparr>v7_rablock := y\<rparr>)"
  "same_reads (s\<lparr>v7_rablock := x\<rparr>) t \<Longrightarrow> bmap_frame s t"
  by (simp_all add: bmap_frame_def same_reads_def same_room_def io_frame_def)

text \<open>What the inode and the contents of the indirect blocks say of a file block.\<close>

definition file_block :: "(int \<Rightarrow> block) \<Rightarrow> (nat \<Rightarrow> int) \<Rightarrow> int \<Rightarrow> int" where
  "file_block V addr bn = (case bmap_path bn of
       None \<Rightarrow> 0
     | Some (i, is) \<Rightarrow> if addr i = 0 then - 1 else follow V (addr i) is)"

definition file_block_ok :: "kernel \<Rightarrow> (nat \<Rightarrow> int) \<Rightarrow> int \<Rightarrow> bool" where
  "file_block_ok s addr bn = (case bmap_path bn of
       None \<Rightarrow> True
     | Some (i, is) \<Rightarrow> addr i = 0 \<or> follow_ok s (addr i) is)"

lemma bmap_path_indices:
  assumes "10 \<le> bn"
  shows "bmap_path bn = (case bmap_level 3 0 1 (bn - 10) of None \<Rightarrow> None
    | Some (j, sh, n) \<Rightarrow> Some (13 - j, indices (4 - j) n sh))"
  using assms unfolding bmap_level_closed bmap_path_def
  by (auto simp: numeral_2_eq_2 numeral_3_eq_3)

lemma bmap_slot_read:
  "bmap_slot ip i dev True s = Some (if i_addr (v7_inode s ip) i = 0 then None else Some (i_addr (v7_inode s ip) i), s)"
  by (simp add: bmap_slot_def)

lemma bmap_read:
  assumes "cache_ok s" "i_dev (v7_inode s ip) = 0" "file_block_ok s (i_addr (v7_inode s ip)) bn"
    "bmap_path bn = Some q"
  shows "\<exists>t. bmap ip bn True s = Some (file_block (view s) (i_addr (v7_inode s ip)) bn, t) \<and> bmap_frame s t"
proof (cases "bn < 10")
  case True
  then have "0 \<le> bn" "bmap_path bn = Some (nat bn, [])" using assms(4) by (auto simp: bmap_path_def split: if_splits)
  then show ?thesis using True assms(1)
    by (auto simp: bmap_def bmap_slot_read file_block_def bmap_frame_refl Let_def)
next
  case False
  then obtain j sh n where l: "bmap_level 3 0 1 (bn - 10) = Some (j, sh, n)"
    using assms(4) bmap_path_indices [of bn] by (auto split: option.splits)
  then have p: "bmap_path bn = Some (13 - j, indices (4 - j) n sh)" using False bmap_path_indices [of bn] by simp
  let ?s = "s\<lparr>v7_rablock := 0\<rparr>" and ?a = "i_addr (v7_inode s ip) (13 - j)"
  show ?thesis
  proof (cases "?a = 0")
    case True
    then show ?thesis using False l p assms(1) by (simp add: bmap_def bmap_slot_read file_block_def bmap_frame_refl)
  next
    case na: False
    have fo: "follow_ok ?s ?a (indices (4 - j) n sh)" using assms(3) p na by (simp add: file_block_ok_def)
    obtain q t where t: "bmap_indir (4 - j) 0 True n sh ?a None ?s = Some (q, t)" "same_reads ?s t"
      "(case q of Inl v \<Rightarrow> v | Inr (v, _) \<Rightarrow> v) = follow (view s) ?a (indices (4 - j) n sh)"
      using bmap_indir_read [OF _ fo, of None] assms(1) by auto
    show ?thesis using False na l p t assms(2) bmap_frame_via [OF t(2)]
      by (auto simp: bmap_def bmap_slot_read file_block_def split: sum.splits option.splits)
  qed
qed

text \<open>Past the triple indirect block, and before the start of the file.\<close>

lemma bmap_efbig:
  assumes "bmap_path bn = None"
  shows "\<exists>r. bmap ip bn rd s = Some (0, set_error EFBIG (s\<lparr>v7_rablock := r\<rparr>))"
proof (cases "bn < 0")
  case True
  have "s\<lparr>v7_rablock := v7_rablock s\<rparr> = s" by simp
  then show ?thesis using True by (metis bmap_def)
next
  case False
  then have "bmap_level 3 0 1 (bn - 10) = None" "10 \<le> bn"
    using assms bmap_path_indices [of bn] by (auto simp: bmap_path_def split: option.splits if_splits)
  then show ?thesis using False by (auto simp: bmap_def)
qed

end
