(* ===== verification/Bio_Ahead.thy ===== *)
theory Bio_Ahead
  imports Bio_Client
begin

text \<open>
  \<open>breada\<close>, a read with read-ahead: the block asked for comes as from \<open>bread\<close>, and the block read
  ahead, whatever its number, disturbs nothing.
\<close>

lemma incore_cached:
  assumes "cache_ok s"
  shows "incore 0 b s = Some (cached s b \<noteq> None)"
proof -
  obtain avs devs nos where st: "bio_st s avs devs nos" by (rule cache_okE [OF assms])
  show ?thesis by (simp add: incore_def d_tab_def dev_find_cached [OF st])
qed

lemma taken_resid:
  assumes "cache_ok t" "p \<in> busy t"
  shows "b_resid (v7_buf t p) = 0"
proof -
  obtain avs devs nos where st: "bio_st t avs devs nos" by (rule cache_okE [OF assms(1)])
  show ?thesis using bio_stD(10) [OF st, of p] assms(2) by (simp add: busy_def)
qed

text \<open>What a step that takes no buffer leaves for the holders of buffers.\<close>

definition bystander :: "kernel \<Rightarrow> kernel \<Rightarrow> bool" where
  "bystander s t \<longleftrightarrow> cache_ok t \<and> busy t = busy s \<and> undisturbed s t (busy s) \<and> (\<forall>c. dsk_inrange s c \<longrightarrow> view t c = view s c)"

lemma bystander_refl: "cache_ok s \<Longrightarrow> bystander s s"
  by (simp add: bystander_def undisturbed_def)

lemma taken_released_bystander:
  assumes "taken s p t" "released t p u" "\<And>c. dsk_inrange s c \<Longrightarrow> view u c = view t c"
  shows "bystander s u"
proof -
  have Q: "busy s \<subseteq> busy t - {p}" using assms(1) by (auto simp: taken_def)
  have "undisturbed s u (busy s)"
    using undisturbed_trans [OF _ _ Q, of s t u] assms(1,2) by (simp add: taken_def released_def)
  then show ?thesis using assms by (auto simp: bystander_def taken_def released_def)
qed

lemma bystander_taken:
  assumes "bystander s t" "taken t p u"
  shows "taken s p u"
proof -
  have fr: "io_frame s t" using assms(1) by (simp add: bystander_def undisturbed_def)
  have "undisturbed s u (busy s)"
    using undisturbed_trans [of s t "busy s" u "busy s"] assms by (simp add: bystander_def taken_def)
  then show ?thesis using assms io_frame_inrange [OF fr] by (auto simp: bystander_def taken_def)
qed

lemma taken_bystander:
  assumes "taken s p t" "bystander t u"
  shows "taken s p u" "bcore (v7_buf u p) = bcore (v7_buf t p)"
proof -
  have fr: "io_frame s t" using assms(1) by (simp add: taken_def undisturbed_def)
  have eq: "bcore (v7_buf u p) = bcore (v7_buf t p)" and pr: "pristine t p \<longrightarrow> pristine u p"
    using assms by (auto simp: bystander_def taken_def undisturbed_def)
  then show "bcore (v7_buf u p) = bcore (v7_buf t p)" by simp
  have "undisturbed s u (busy s)"
    using undisturbed_trans [of s t "busy s" u "insert p (busy s)"] assms by (auto simp: bystander_def taken_def)
  then show "taken s p u"
    using assms pr bcoreD [OF eq] io_frame_inrange [OF fr] by (simp add: bystander_def taken_def)
qed

text \<open>The read-ahead.\<close>

definition read_ahead :: "int \<Rightarrow> kernel \<Rightarrow> kernel option" where
  "read_ahead rab s = (if rab = 0 then Some s
     else do {
       rahere \<leftarrow> incore 0 rab s;
       if rahere then Some s
       else do {
         (rabp, s) \<leftarrow> getblk 0 rab s;
         if B_DONE \<in> bflags s rabp then Some (brelse rabp s)
         else start_read 0 {B_READ, B_ASYNC} rabp s } })"

lemma read_ahead_bystander:
  assumes ok: "cache_ok s" and r: "busy s \<noteq> pool"
  shows "\<exists>t. read_ahead rab s = Some t \<and> bystander s t"
proof (cases "rab = 0 \<or> cached s rab \<noteq> None")
  case True
  then show ?thesis using incore_cached [OF ok] bystander_refl [OF ok] by (auto simp: read_ahead_def)
next
  case False
  then have rm: "room s rab" using r by (simp add: room_def)
  obtain p t where t: "getblk 0 rab s = Some (p, t)" "taken s p t" "b_dev (v7_buf t p) = 0" "b_blkno (v7_buf t p) = rab"
    using getblk_spec [OF ok rm] by blast
  have p: "cache_ok t" "p \<in> busy t" "pristine t p" "B_ERROR \<notin> bflags t p"
    "B_DELWRI \<in> bflags t p \<Longrightarrow> B_DONE \<in> bflags t p \<and> b_dev (v7_buf t p) = 0"
    using t(2) by (auto simp: taken_def)
  show ?thesis
  proof (cases "B_DONE \<in> bflags t p")
    case True
    have R: "released t p (brelse p t)" "view (brelse p t) c = view t c" for c
      by (rule brelse_spec [OF p]; assumption)+
    have "bystander s (brelse p t)" by (rule taken_released_bystander [OF t(2) R(1)]) (rule R(2))
    then show ?thesis using False True t(1) incore_cached [OF ok] by (simp add: read_ahead_def)
  next
    case nd: False
    then have dw: "B_DELWRI \<notin> bflags t p" using p(5) by blast
    obtain s3 where s3: "start_read 0 {B_READ, B_ASYNC} p t = Some (iodone p s3)"
      and T: "let u = clr_bflags p {} (or_bflags p {B_DONE} s3) in
        bflags s3 p = bflags t p \<union> {B_READ, B_ASYNC} \<and> bflags u p = insert B_DONE (bflags t p \<union> {B_READ, B_ASYNC}) - {}
        \<and> b_dev (v7_buf u p) = 0 \<and> b_blkno (v7_buf u p) = rab \<and> cache_ok u \<and> busy u = busy t
        \<and> undisturbed t u (busy t - {p}) \<and> pristine u p \<and> (\<forall>c. dsk_inrange t c \<longrightarrow> view u c = view t c)
        \<and> (dsk_inrange t rab \<longrightarrow> trunc_blk (bdata u p) = view t rab)"
      using start_read_spec [OF p(1,2) t(3,4) nd dw, of "{B_READ, B_ASYNC}" "{}"] by blast
    let ?u = "or_bflags p {B_DONE} s3"
    have id: "clr_bflags p {} x = x" for x by (simp add: clr_bflags_def upd_buf_def)
    have u: "cache_ok ?u" "p \<in> busy ?u" "pristine ?u p" "B_ERROR \<notin> bflags ?u p"
      "B_DELWRI \<in> bflags ?u p \<Longrightarrow> B_DONE \<in> bflags ?u p \<and> b_dev (v7_buf ?u p) = 0"
      using T p dw unfolding id by (simp_all add: Let_def)
    note R = brelse_spec [OF u]
    have io: "iodone p s3 = brelse p ?u" using T by (simp add: iodone_def Let_def)
    have fr: "io_frame s t" using t(2) by (simp add: taken_def undisturbed_def)
    have rel: "released t p (brelse p ?u)"
    proof -
      have "undisturbed t (brelse p ?u) (busy t - {p})"
        using T R(1) undisturbed_trans [of t ?u "busy t - {p}" "brelse p ?u" "busy t - {p}"]
        unfolding id by (simp add: released_def Let_def)
      then show ?thesis using R(1) T unfolding id by (simp add: released_def Let_def)
    qed
    have v: "view (brelse p ?u) c = view t c" if "dsk_inrange s c" for c
      using T R(2) [of c] that io_frame_inrange [OF fr] unfolding id by (simp add: Let_def)
    have "bystander s (brelse p ?u)" by (rule taken_released_bystander [OF t(2) rel v])
    then show ?thesis using False nd t(1) s3 incore_cached [OF ok] by (simp add: read_ahead_def io)
  qed
qed

lemma breada_unfold:
  "breada 0 b rab s = do {
     here \<leftarrow> incore 0 b s;
     (obp, s) \<leftarrow> (if \<not> here then do {
         (bp, s) \<leftarrow> getblk 0 b s;
         s \<leftarrow> (if B_DONE \<notin> bflags s bp then start_read 0 {B_READ} bp s else Some s);
         Some (Some bp, s) }
       else Some (None, s));
     s \<leftarrow> read_ahead rab s;
     case obp of
       None \<Rightarrow> bread 0 b s
     | Some bp \<Rightarrow> do { s \<leftarrow> iowait bp s; Some (bp, s) } }"
  by (simp add: breada_def read_ahead_def)

text \<open>\<open>bread\<close> before the wait: with no error there is nothing to wait for.\<close>

lemma bread_parts:
  assumes "bread 0 b s = Some (p, t)" "B_ERROR \<notin> bflags t p"
  shows "\<exists>s1. getblk 0 b s = Some (p, s1) \<and> (if B_DONE \<notin> bflags s1 p then start_read 0 {B_READ} p s1 else Some s1) = Some t"
proof -
  obtain s1 where g: "getblk 0 b s = Some (p, s1)" using assms(1) by (auto simp: bread_def bind_eq_Some_conv split: if_splits)
  show ?thesis
  proof (cases "B_DONE \<in> bflags s1 p")
    case False
    then obtain s2 where s2: "start_read 0 {B_READ} p s1 = Some s2" "B_DONE \<in> bflags s2 p" "geterror p s2 = t"
      using assms(1) g by (auto simp: bread_def bind_eq_Some_conv iowait_def split: if_splits)
    have "v7_buf (geterror p s2) = v7_buf s2" by (simp add: geterror_def set_error_def upd_u_def Let_def)
    then have "B_ERROR \<notin> bflags s2 p" using assms(2) unfolding s2(3) by simp
    then have "t = s2" using s2(3) by (simp add: geterror_def)
    then show ?thesis using False g s2(1) by simp
  qed (use assms(1) g in \<open>simp add: bread_def\<close>)
qed

lemma breada_spec:
  assumes ok: "cache_ok s" and r: "room s b" and two: "\<And>p. insert p (busy s) \<noteq> pool"
  shows "\<exists>p s'. breada 0 b rab s = Some (p, s') \<and> taken s p s' \<and> b_dev (v7_buf s' p) = 0 \<and> b_blkno (v7_buf s' p) = b
    \<and> B_DONE \<in> bflags s' p \<and> (dsk_inrange s b \<longrightarrow> trunc_blk (bdata s' p) = view s b)"
proof (cases "cached s b")
  case None
  obtain p t where t: "bread 0 b s = Some (p, t)" "taken s p t" "b_dev (v7_buf t p) = 0" "b_blkno (v7_buf t p) = b"
    "B_DONE \<in> bflags t p" "dsk_inrange s b \<longrightarrow> trunc_blk (bdata t p) = view s b"
    using bread_spec [OF ok r] by blast
  have p: "cache_ok t" "busy t = insert p (busy s)" "B_ERROR \<notin> bflags t p" using t(2) by (simp_all add: taken_def)
  obtain s1 where g: "getblk 0 b s = Some (p, s1)"
    "(if B_DONE \<notin> bflags s1 p then start_read 0 {B_READ} p s1 else Some s1) = Some t"
    using bread_parts [OF t(1) p(3)] by blast
  have "busy t \<noteq> pool" using two p(2) by simp
  then obtain u where u: "read_ahead rab t = Some u" "bystander t u" using read_ahead_bystander [OF p(1)] by blast
  note U = taken_bystander [OF t(2) u(2)]
  note C = bcoreD [OF U(2)]
  have "breada 0 b rab s = Some (p, u)"
    using None g u(1) C t(5) p(3) incore_cached [OF ok] by (simp add: breada_unfold iowait_def geterror_def)
  then show ?thesis using U(1) C t(3-6) by auto
next
  case (Some q)
  have "busy s \<noteq> pool" using r room_iff [OF ok] by blast
  then obtain t where t: "read_ahead rab s = Some t" "bystander s t" using read_ahead_bystander [OF ok] by blast
  have fr: "io_frame s t" using t(2) by (simp add: bystander_def undisturbed_def)
  have "room t b" using room_cong [OF ok] t(2) undisturbed_tag r by (auto simp: bystander_def)
  then obtain p u where u: "bread 0 b t = Some (p, u)" "taken t p u" "b_dev (v7_buf u p) = 0" "b_blkno (v7_buf u p) = b"
    "B_DONE \<in> bflags u p" "dsk_inrange t b \<longrightarrow> trunc_blk (bdata u p) = view t b"
    using bread_spec [of t b] t(2) by (auto simp: bystander_def)
  have "breada 0 b rab s = Some (p, u)" using Some t(1) u(1) incore_cached [OF ok] by (simp add: breada_unfold)
  then show ?thesis
    using bystander_taken [OF t(2) u(2)] u(3-6) t(2) io_frame_inrange [OF fr] by (auto simp: bystander_def)
qed

end
