(* ===== verification/Readi_Spec.thy ===== *)
theory Readi_Spec
  imports Rdwri_Spec Bio_Ahead
begin

text \<open>
  \<open>readi\<close> on a regular file or a directory delivers the bytes of the file: the contents that the
  inode's addresses, the indirect blocks and the data blocks define, with zeros for the holes, as far
  as the size of the file.
\<close>

section \<open>The contents of a file\<close>

definition file_byte :: "(int \<Rightarrow> block) \<Rightarrow> (nat \<Rightarrow> int) \<Rightarrow> int \<Rightarrow> byte" where
  "file_byte V ad off = (let b = file_block V ad (off div 512) in if b < 0 then 0 else V b (nat (off mod 512)))"

text \<open>A file block can be read: it has a path, and what lies on the path can be taken.\<close>

definition block_readable :: "kernel \<Rightarrow> (nat \<Rightarrow> int) \<Rightarrow> int \<Rightarrow> bool" where
  "block_readable s ad bn \<longleftrightarrow> bmap_path bn \<noteq> None \<and> file_block_ok s ad bn
     \<and> (let b = file_block (view s) ad bn in 0 \<le> b \<longrightarrow> room s b \<and> dsk_inrange s b)"

lemma file_block_alike:
  assumes "file_block_ok s ad bn" "alike s t"
  shows "file_block (view t) ad bn = file_block (view s) ad bn" "file_block_ok t ad bn"
  using assms follow_alike [OF _ assms(2)]
  by (auto simp: file_block_def file_block_ok_def split: option.splits)

lemma block_readable_alike:
  assumes "block_readable s ad bn" "alike s t"
  shows "block_readable t ad bn" "bn = off div 512 \<Longrightarrow> file_byte (view t) ad off = file_byte (view s) ad off"
proof -
  have ok: "file_block_ok s ad bn" using assms(1) by (simp add: block_readable_def)
  note F = file_block_alike [OF ok assms(2)]
  show "block_readable t ad bn" using assms F by (simp add: block_readable_def alike_def Let_def)
  show "bn = off div 512 \<Longrightarrow> file_byte (view t) ad off = file_byte (view s) ad off"
    using assms F by (simp add: block_readable_def alike_def file_byte_def Let_def)
qed


section \<open>The buffer of a file block\<close>

lemma clrbuf_upd_data:
  assumes "cache_ok t" "p \<in> busy t"
  shows "clrbuf p t = upd_data p (\<lambda>d. copy_bytes BSIZE 0 d 0 zeroblk) t"
  using taken_resid [OF assms] by (simp add: clrbuf_def upd_data_def upd_buf_def fun_eq_iff)

lemma readi_buf_ok:
  assumes ok: "cache_ok s" and two: "\<And>p. insert p (busy s) \<noteq> pool" and b: "0 \<le> b \<Longrightarrow> room s b \<and> dsk_inrange s b"
  shows "\<exists>p t. readi_buf ip 0 lbn b s = Some (p, t) \<and> taken s p t \<and> trunc_blk (bdata t p) = (if b < 0 then zeroblk else view s b)"
proof (cases "b < 0")
  case True
  have np: "busy s \<noteq> pool" using two by (metis insert_absorb insert_not_empty all_not_in_conv pool_nonempty)
  obtain p t where t: "geteblk s = Some (p, t)" "taken s p t" "b_dev (v7_buf t p) = NODEV"
    using geteblk_spec [OF ok np] by blast
  have p: "cache_ok t" "p \<in> busy t" using t(2) by (simp_all add: taken_def)
  let ?g = "\<lambda>d. copy_bytes BSIZE 0 d 0 zeroblk"
  note u = upd_data_spec [OF p, of ?g]
  have e: "clrbuf p t = upd_data p ?g t" by (rule clrbuf_upd_data [OF p])
  have fl: "bflags (upd_data p ?g t) p = bflags t p" "b_dev (v7_buf (upd_data p ?g t) p) = NODEV"
    using t(3) by (simp_all add: upd_data_def v7_buf_upd_buf)
  have "undisturbed s (upd_data p ?g t) (busy s)"
    using undisturbed_trans [of s t "busy s" _ "busy t - {p}"] u(3) t(2) by (auto simp: taken_def)
  then have "taken s p (upd_data p ?g t)"
    using t(2,3) u(1,2,4) fl by (simp add: taken_def pristine_def)
  then show ?thesis using True t(1) clrbuf_spec(4) [OF p] by (simp add: readi_buf_def e)
next
  case False
  then show ?thesis
    using b bread_spec [OF ok, of b] breada_spec [OF ok _ two, of b "v7_rablock s"] by (auto simp: readi_buf_def)
qed


section \<open>One round of the loop\<close>

lemma v7_min_small: "0 \<le> a \<Longrightarrow> a \<le> 512 \<Longrightarrow> 0 \<le> b \<Longrightarrow> b < 65536 \<Longrightarrow> v7_min a b = min a b"
  by (auto simp: v7_min_def u16_id s16_id min_def)

lemma bmap_frame_alike:
  assumes "bmap_frame s t"
  shows "alike s t" "v7_u t = v7_u s" "v7_inode t = v7_inode s" "v7_file t = v7_file s" "v7_mount t = v7_mount s"
    "h_umem (host t) = h_umem (host s)"
proof -
  note f = assms [unfolded bmap_frame_def]
  show "alike s t" using same_reads_alike [OF f] by (simp add: alike_def)
  show "v7_u t = v7_u s" "v7_inode t = v7_inode s" "v7_file t = v7_file s" "v7_mount t = v7_mount s"
    "h_umem (host t) = h_umem (host s)"
    using f by (simp_all add: same_reads_def same_room_def io_frame_def)
qed

text \<open>The transfer of one piece: the buffer is filled, copied from and released.\<close>

lemma iomove_release:
  assumes ok: "cache_ok s" and t: "taken s p t" and b: "u_base (v7_u t) = Umem a"
  shows "let u = brelse p (iomove p on n True (upd_inode ip f t)) in
    alike s u \<and> v7_inode u = (v7_inode s)(ip := f (v7_inode s ip)) \<and> v7_file u = v7_file s \<and> v7_mount u = v7_mount s
    \<and> v7_u u = (v7_u s)\<lparr>u_base := Umem (a + n), u_offset := s32 (u_offset (v7_u s) + int n), u_count := u16 (u_count (v7_u s) - int n)\<rparr>
    \<and> h_umem (host u) = copy_bytes n a (h_umem (host s)) on (bdata t p)"
proof -
  let ?x = "iomove p on n True (upd_inode ip f t)"
  have fr: "io_frame s t" using t by (simp add: taken_def undisturbed_def)
  note F = io_frame_fields [OF fr]
  have x: "v7_buf ?x = v7_buf t" "v7_nblkdev ?x = v7_nblkdev t" "dsk ?x = dsk t" "h_file (host ?x) = h_file (host t)"
    "h_len (host ?x) = h_len (host t)" "h_fault (host ?x) = h_fault (host t)" "v7_file ?x = v7_file t" "v7_mount ?x = v7_mount t"
    "v7_inode ?x = (v7_inode t)(ip := f (v7_inode t ip))"
    "v7_u ?x = (v7_u t)\<lparr>u_base := Umem (a + n), u_offset := s32 (u_offset (v7_u t) + int n), u_count := u16 (u_count (v7_u t) - int n)\<rparr>"
    "h_umem (host ?x) = copy_bytes n a (h_umem (host t)) on (bdata t p)"
    using b by (simp_all add: iomove_def ubase_get_def ubase_put_def ubase_add_def upd_inode_def upd_u_def Let_def)
  note C = cache_ok_cong [OF x(1-6)]
  have db: "dsk_block ?x c = dsk_block t c" for c using x(3,4) by (simp add: dsk_block_def dsk_pos_def)
  have p: "cache_ok ?x" "p \<in> busy ?x" "pristine ?x p" "B_ERROR \<notin> bflags ?x p"
    "B_DELWRI \<in> bflags ?x p \<Longrightarrow> B_DONE \<in> bflags ?x p \<and> b_dev (v7_buf ?x p) = 0"
    using t C x(1) db by (auto simp: taken_def pristine_def)
  let ?u = "brelse p ?x"
  have rel: "released ?x p ?u" "view ?u c = view ?x c" for c by (rule brelse_spec [OF p]; assumption)+
  have fu: "io_frame ?x ?u" using rel(1) by (simp add: released_def undisturbed_def)
  note G = io_frame_fields [OF fu]
  have bu: "busy ?u = busy s" "cache_ok ?u" using rel(1) C t by (auto simp: released_def taken_def)
  have tg: "buf_tag ?u q = buf_tag s q" if "q \<in> busy s" for q
    using that undisturbed_tag [of ?x ?u "busy ?x - {p}" q] undisturbed_tag [of s t "busy s" q] rel(1) C t
    by (auto simp: released_def taken_def)
  have rm: "room ?u c = room s c" for c by (rule room_cong [OF ok bu(2,1) tg])
  have ir: "dsk_inrange ?u c = dsk_inrange s c" for c
    using io_frame_inrange [OF fu] io_frame_inrange [OF fr] C by simp
  have vw: "view ?u c = view s c" if "dsk_inrange s c" for c using rel(2) [of c] C t that by (simp add: taken_def)
  have "h_umem (host ?u) = h_umem (host ?x)" "v7_mount ?u = v7_mount ?x" "h_umem (host t) = h_umem (host s)" "v7_mount t = v7_mount s"
    using fu fr by (simp_all add: io_frame_def)
  then show ?thesis
    using bu rm ir vw x(7-11) F G by (simp add: Let_def alike_def)
qed


text \<open>What a read of \<open>k\<close> bytes at \<open>off\<close> leaves in the caller's memory.\<close>

definition filled :: "(int \<Rightarrow> byte) \<Rightarrow> nat \<Rightarrow> nat \<Rightarrow> int \<Rightarrow> block \<Rightarrow> block" where
  "filled f a k off m = (\<lambda>i. if a \<le> i \<and> i < a + k then f (off + int (i - a)) else m i)"

lemma filled_append:
  "filled f (a + j) k (off + int j) (filled f a j off m) = filled f a (j + k) off m"
  by (auto simp: filled_def fun_eq_iff of_nat_diff)

lemma filled_cong:
  "(\<And>i. 0 \<le> i \<Longrightarrow> i < int k \<Longrightarrow> f (off + i) = g (off + i)) \<Longrightarrow> filled f a k off m = filled g a k off m"
  by (auto simp: filled_def fun_eq_iff)

lemma off_in_block:
  assumes "0 \<le> (off::int)" "int k < 512 - off mod 512"
  shows "(off + int k) div 512 = off div 512" "(off + int k) mod 512 = off mod 512 + int k"
proof -
  define x q where "x = off mod 512 + int k" and "q = off div 512"
  have x: "0 \<le> x" "x < 512" "off + int k = x + q * 512"
    using assms(2) div_mult_mod_eq [of off 512] by (auto simp: x_def q_def)
  show "(off + int k) div 512 = off div 512" "(off + int k) mod 512 = off mod 512 + int k"
    unfolding x(3) using x(1,2) by (simp_all flip: x_def q_def)
qed

lemma piece_filled:
  assumes "0 \<le> off" "int n \<le> 512 - off mod 512"
    "trunc_blk d = (if b < 0 then zeroblk else V b)" "b = file_block V ad (off div 512)"
  shows "copy_bytes n a m (nat (off mod 512)) d = filled (file_byte V ad) a n off m"
proof
  fix i
  show "copy_bytes n a m (nat (off mod 512)) d i = filled (file_byte V ad) a n off m i"
  proof (cases "a \<le> i \<and> i < a + n")
    case True
    let ?k = "i - a"
    have k: "int ?k < 512 - off mod 512" "nat (off mod 512) + ?k < 512" using True assms(2) by linarith+
    have "d (nat (off mod 512) + ?k) = trunc_blk d (nat (off mod 512) + ?k)" using k(2) by simp
    also have "\<dots> = file_byte V ad (off + int ?k)"
      using assms(3,4) off_in_block [OF assms(1) k(1)] by (simp add: file_byte_def Let_def zeroblk_def nat_add_distrib)
    finally show ?thesis using True by (simp add: copy_bytes_def filled_def)
  qed (auto simp: copy_bytes_def filled_def)
qed

text \<open>What a read changes besides the memory and the position.\<close>

definition read_to :: "nat \<Rightarrow> nat \<Rightarrow> nat \<Rightarrow> kernel \<Rightarrow> kernel \<Rightarrow> bool" where
  "read_to ip a k s t \<longleftrightarrow> alike s t \<and> (\<exists>x. v7_inode t = (v7_inode s)(ip := (v7_inode s ip)\<lparr>i_lastr := x\<rparr>))
     \<and> v7_file t = v7_file s \<and> v7_mount t = v7_mount s
     \<and> v7_u t = (v7_u s)\<lparr>u_base := Umem (a + k), u_offset := u_offset (v7_u s) + int k, u_count := u_count (v7_u s) - int k\<rparr>
     \<and> h_umem (host t) = filled (file_byte (view s) (i_addr (v7_inode s ip))) a k (u_offset (v7_u s)) (h_umem (host s))"

lemma readi_round:
  assumes ok: "cache_ok s" and two: "\<And>p. insert p (busy s) \<noteq> pool"
    and i: "i_dev (v7_inode s ip) = 0" "i_size (v7_inode s ip) = sz" "type \<noteq> IFBLK" "type \<noteq> IFMPB"
    and u: "uerror s = 0" "u_base (v7_u s) = Umem a" "u_offset (v7_u s) = off" "u_count (v7_u s) = cnt"
    and r: "0 \<le> off" "off < sz" "sz < 2147483648" "0 < cnt" "cnt < 65536"
    and br: "block_readable s (i_addr (v7_inode s ip)) (off div 512)"
    and n: "n = min (min (512 - off mod 512) cnt) (sz - off)"
  shows "\<exists>t d. readi_loop ip dev type s = (if cnt - n \<noteq> 0 then readi_loop ip d type t else Some t) \<and> read_to ip a (nat n) s t"
proof -
  let ?ad = "i_addr (v7_inode s ip)" and ?bn = "off div 512"
  let ?b = "file_block (view s) ?ad ?bn"
  have n1: "1 \<le> n" "n \<le> 512 - off mod 512" "n \<le> 512" "n \<le> cnt" "off + n \<le> sz" using r n pos_mod_bound [of 512 off] pos_mod_sign [of 512 off] by (auto simp: min_def)
  have dd: "s32 (sz - off) = sz - off" using r by (simp add: s32_id)
  have m: "0 \<le> 512 - off mod 512" "512 - off mod 512 \<le> 512" using pos_mod_bound [of 512 off] pos_mod_sign [of 512 off] by simp_all
  have mm: "v7_min (512 - off mod 512) cnt = min (512 - off mod 512) cnt" using v7_min_small [OF m, of cnt] r by simp
  have nn: "(if sz - off < min (512 - off mod 512) cnt then s16 (sz - off) else min (512 - off mod 512) cnt) = n"
    using r m n by (auto simp: s16_id min_def)
  have bo: "file_block_ok s ?ad ?bn" "0 \<le> ?b \<Longrightarrow> room s ?b \<and> dsk_inrange s ?b" using br by (simp_all add: block_readable_def Let_def)
  obtain q where q: "bmap_path ?bn = Some q" using br by (auto simp: block_readable_def)
  obtain s1 where s1: "bmap ip ?bn True s = Some (?b, s1)" "bmap_frame s s1" using bmap_read [OF ok i(1) bo(1) q] by blast
  note A = bmap_frame_alike [OF s1(2)]
  have al: "cache_ok s1" "\<And>p. insert p (busy s1) \<noteq> pool" "0 \<le> ?b \<Longrightarrow> room s1 ?b \<and> dsk_inrange s1 ?b"
    using A(1) two bo(2) by (auto simp: alike_def)
  obtain p s2 where s2: "readi_buf ip 0 ?bn ?b s1 = Some (p, s2)" "taken s1 p s2"
    "trunc_blk (bdata s2 p) = (if ?b < 0 then zeroblk else view s1 ?b)" using readi_buf_ok [OF al] by blast
  have map: "readi_map ip dev type s = Some (Some (n, ?b, 0), s1)"
    using i u r mm dd s1(1) A(2,3) nn by (auto simp: readi_map_def Let_def split: if_splits)
  let ?f = "\<lambda>p. p\<lparr>i_lastr := ?bn\<rparr>"
  have rs: "b_resid (v7_buf s2 p) = 0" using taken_resid [of s2 p] s2(2) by (simp add: taken_def)
  have ub: "v7_buf (upd_inode ip f x) = v7_buf x" for f x by (simp add: upd_inode_def)
  have n2: "v7_min n 512 = n" using v7_min_small [of n 512] n1 by simp
  define t where "t = brelse p (iomove p (nat (off mod 512)) (nat n) True (upd_inode ip ?f s2))"
  have bs: "u_base (v7_u s2) = Umem a" using s2(2) A(2) u(2) io_frame_fields(1) [of s1 s2] by (simp add: taken_def undisturbed_def)
  note T = iomove_release [OF al(1) s2(2) bs, of "nat (off mod 512)" "nat n" ip ?f, folded t_def, unfolded Let_def]
  have T': "alike s1 t" "v7_inode t = (v7_inode s)(ip := ?f (v7_inode s ip))" "v7_file t = v7_file s" "v7_mount t = v7_mount s"
    "v7_u t = (v7_u s)\<lparr>u_base := Umem (a + nat n), u_offset := off + n, u_count := cnt - n\<rparr>"
    "h_umem (host t) = copy_bytes (nat n) a (h_umem (host s)) (nat (off mod 512)) (bdata s2 p)"
    using T A u n1 r by (simp_all add: s32_id u16_id)
  have run: "readi_loop ip dev type s = (if cnt - n \<noteq> 0 then readi_loop ip 0 type t else Some t)"
    using n1(1) T'(5) u
    by (subst readi_loop.simps) (simp add: map s2(1) rs n2 ub u(3) Let_def t_def [symmetric])
  have d1: "trunc_blk (bdata s2 p) = (if ?b < 0 then zeroblk else view s ?b)" using s2(3) A(1) bo(2) by (auto simp: alike_def)
  have "h_umem (host t) = filled (file_byte (view s) ?ad) a (nat n) off (h_umem (host s))"
    unfolding T'(6) by (rule piece_filled [OF r(1) _ d1 refl]) (use n1 in simp)
  then have "read_to ip a (nat n) s t"
    unfolding read_to_def using alike_trans [OF A(1) T'(1)] T' u n1 by auto
  then show ?thesis using run by blast
qed


section \<open>The whole read\<close>

definition file_readable :: "kernel \<Rightarrow> nat \<Rightarrow> int \<Rightarrow> int \<Rightarrow> bool" where
  "file_readable s ip off k \<longleftrightarrow> (\<forall>i. off \<le> i \<longrightarrow> i < off + k \<longrightarrow> block_readable s (i_addr (v7_inode s ip)) (i div 512))"

lemma read_to_refl: "cache_ok s \<Longrightarrow> u_base (v7_u s) = Umem a \<Longrightarrow> read_to ip a 0 s s"
  by (auto simp: read_to_def alike_def filled_def fun_eq_iff intro!: exI [of _ "i_lastr (v7_inode s ip)"])

lemma read_to_trans:
  assumes "read_to ip a j s t" "read_to ip (a + j) k t u" "u_offset (v7_u s) = off"
    "file_readable s ip (off + int j) (int k)"
  shows "read_to ip a (j + k) s u"
proof -
  have al: "alike s t" and ad: "i_addr (v7_inode t ip) = i_addr (v7_inode s ip)" using assms(1) by (auto simp: read_to_def)
  have fb: "file_byte (view t) (i_addr (v7_inode s ip)) (off + int j + i) = file_byte (view s) (i_addr (v7_inode s ip)) (off + int j + i)"
    if "0 \<le> i" "i < int k" for i
    using assms(4) that block_readable_alike(2) [OF _ al refl] by (simp add: file_readable_def)
  have "h_umem (host u) = filled (file_byte (view t) (i_addr (v7_inode s ip))) (a + j) k (off + int j) (h_umem (host t))"
    using assms(1-3) ad by (simp add: read_to_def)
  also have "\<dots> = filled (file_byte (view s) (i_addr (v7_inode s ip))) (a + j) k (off + int j) (h_umem (host t))"
    by (rule filled_cong) (rule fb)
  also have "\<dots> = filled (file_byte (view s) (i_addr (v7_inode s ip))) a (j + k) off (h_umem (host s))"
    using assms(1,3) by (simp add: read_to_def filled_append)
  finally have "h_umem (host u) = filled (file_byte (view s) (i_addr (v7_inode s ip))) a (j + k) off (h_umem (host s))" .
  then show ?thesis
    using assms(1-3) alike_trans [OF al] by (auto simp: read_to_def add.assoc)
qed

lemma readi_loop_ok:
  assumes "cache_ok s" "\<And>p. insert p (busy s) \<noteq> pool"
    "i_dev (v7_inode s ip) = 0" "i_size (v7_inode s ip) = sz" "type \<noteq> IFBLK" "type \<noteq> IFMPB"
    "uerror s = 0" "u_base (v7_u s) = Umem a" "u_offset (v7_u s) = off" "u_count (v7_u s) = cnt"
    "0 \<le> off" "sz < 2147483648" "0 < cnt" "cnt < 65536" "file_readable s ip off (min cnt (sz - off))"
    "off < 2147483648" "0 \<le> sz"
  shows "\<exists>t. readi_loop ip dev type s = Some t \<and> read_to ip a (nat (min cnt (sz - off))) s t"
  using assms
proof (induction "nat cnt" arbitrary: s a off cnt dev rule: less_induct)
  case less
  note i = less.prems(3-6) and u = less.prems(7-10) and r = less.prems(11-14)
  show ?case
  proof (cases "off < sz")
    case False
    then have "s32 (sz - off) \<le> 0" using less.prems(16,17) by (simp add: s32_id)
    then have "readi_loop ip dev type s = Some s"
      using i u by (subst readi_loop.simps) (simp add: readi_map_def Let_def)
    then show ?thesis using False read_to_refl [OF less.prems(1) u(2)] by (simp add: min_def)
  next
    case True
    define n where "n = min (min (512 - off mod 512) cnt) (sz - off)"
    have m: "0 < 512 - off mod 512" using pos_mod_bound [of 512 off] by simp
    have n: "1 \<le> n" "n \<le> cnt" "n \<le> sz - off" using True r(3) m by (auto simp: n_def)
    have br: "block_readable s (i_addr (v7_inode s ip)) (off div 512)"
      using less.prems(15) n unfolding file_readable_def by (auto simp: min_def split: if_splits)
    obtain t d where t: "readi_loop ip dev type s = (if cnt - n \<noteq> 0 then readi_loop ip d type t else Some t)" "read_to ip a (nat n) s t"
      using readi_round [OF less.prems(1,2) i u r(1) True r(2-4) br n_def, of dev] by blast
    show ?thesis
    proof (cases "cnt - n = 0")
      case True
      then show ?thesis using t n by (simp add: min_def)
    next
      case False
      have al: "alike s t" "v7_u t = (v7_u s)\<lparr>u_base := Umem (a + nat n), u_offset := off + n, u_count := cnt - n\<rparr>"
        "i_addr (v7_inode t ip) = i_addr (v7_inode s ip)" "i_dev (v7_inode t ip) = 0" "i_size (v7_inode t ip) = sz"
        using t(2) n u i by (auto simp: read_to_def)
      have c: "cache_ok t" "\<And>p. insert p (busy t) \<noteq> pool" using al(1) less.prems(2) by (simp_all add: alike_def)
      have mn: "min (cnt - n) (sz - (off + n)) = min cnt (sz - off) - n" by simp
      have fr: "file_readable t ip (off + n) (min (cnt - n) (sz - (off + n)))"
        using less.prems(15) n al(3) block_readable_alike(1) [OF _ al(1)] unfolding mn by (auto simp: file_readable_def)
      obtain v where v: "readi_loop ip d type t = Some v" "read_to ip (a + nat n) (nat (min (cnt - n) (sz - (off + n)))) t v"
        using less.hyps [OF _ c al(4,5) i(3,4), of "cnt - n" "a + nat n" "off + n" d] al(2) u r n False fr less.prems(17) by auto
      have nk: "nat n + nat (min (cnt - n) (sz - (off + n))) = nat (min cnt (sz - off))" unfolding mn using n by (simp add: nat_diff_distrib)
      have "file_readable s ip (off + int (nat n)) (int (nat (min (cnt - n) (sz - (off + n)))))"
        using less.prems(15) n unfolding mn file_readable_def by auto
      then have "read_to ip a (nat (min cnt (sz - off))) s v" using read_to_trans [OF t(2) v(2) u(3)] nk by simp
      then show ?thesis using t(1) v(1) False by simp
    qed
  qed
qed

end
