(* ===== verification/File_Tree.thy ===== *)
theory File_Tree
  imports Readi_Spec
begin

text \<open>
  The blocks of a file as a tree. The root has the 13 addresses of the inode, an indirect block has 128, and a
  place in the tree is the slot of the inode with the indices below it; \<open>tnode\<close> is the block at a place, 0 where
  there is none. Adding a zeroed block at an empty place, in the inode or in an indirect block, changes \<open>tnode\<close> at
  that place only, and the bytes of the file not at all.
\<close>

section \<open>Places\<close>

type_synonym place = "nat \<times> nat list"

definition depth :: "nat \<Rightarrow> nat" where
  "depth i = (if i < 10 then 0 else i - 9)"

definition tpaths :: "place set" where
  "tpaths = {(i, is). i < NADDR \<and> length is \<le> depth i \<and> (\<forall>k \<in> set is. k < NINDIR)}"

definition tleaf :: "place \<Rightarrow> bool" where
  "tleaf q \<longleftrightarrow> length (snd q) = depth (fst q)"

definition addr_at :: "(int \<Rightarrow> block) \<Rightarrow> int \<Rightarrow> nat \<Rightarrow> int" where
  "addr_at V b k = wswap_int32 (ld32 (V b) (4 * k))"

fun walk :: "(int \<Rightarrow> block) \<Rightarrow> int \<Rightarrow> nat list \<Rightarrow> int" where
  "walk V nb [] = nb"
| "walk V nb (k # ks) = (if nb = 0 then 0 else walk V (addr_at V nb k) ks)"

definition tnode :: "(int \<Rightarrow> block) \<Rightarrow> (nat \<Rightarrow> int) \<Rightarrow> place \<Rightarrow> int" where
  "tnode V ad q = walk V (ad (fst q)) (snd q)"

lemma walk_snoc: "walk V nb (ks @ [k]) = (if walk V nb ks = 0 then 0 else addr_at V (walk V nb ks) k)"
  by (induction ks arbitrary: nb) auto

lemma tnode_Nil [simp]: "tnode V ad (i, []) = ad i"
  by (simp add: tnode_def)

lemma tnode_snoc: "tnode V ad (i, ks @ [k]) = (if tnode V ad (i, ks) = 0 then 0 else addr_at V (tnode V ad (i, ks)) k)"
  by (simp add: tnode_def walk_snoc)

lemma tpaths_snoc: "(i, ks @ [k]) \<in> tpaths \<Longrightarrow> (i, ks) \<in> tpaths \<and> k < NINDIR \<and> \<not> tleaf (i, ks)"
  by (auto simp: tpaths_def tleaf_def)

lemma tpaths_Nil: "(i, []) \<in> tpaths \<longleftrightarrow> i < NADDR"
  by (simp add: tpaths_def)

lemma follow_walk: "nb \<noteq> 0 \<Longrightarrow> follow V nb ks = (if walk V nb ks = 0 then - 1 else walk V nb ks)"
proof (induction ks arbitrary: nb)
  case (Cons k ks)
  have z: "walk V 0 ks = 0" by (cases ks) auto
  show ?case using Cons z by (auto simp: addr_at_def Let_def)
qed simp

lemma file_block_tnode:
  "file_block V ad bn = (case bmap_path bn of None \<Rightarrow> 0 | Some q \<Rightarrow> if tnode V ad q = 0 then - 1 else tnode V ad q)"
proof (cases "bmap_path bn")
  case (Some q)
  obtain i ks where q: "q = (i, ks)" by (cases q)
  have "walk V 0 ks = 0" by (cases ks) auto
  then show ?thesis using Some q follow_walk [of "ad i" V ks] by (auto simp: file_block_def tnode_def)
qed (simp add: file_block_def)

lemma bmap_path_leaf: "bmap_path bn = Some q \<Longrightarrow> q \<in> tpaths \<and> tleaf q"
  using bmap_path_bounds [of bn "fst q" "snd q"] by (cases q) (auto simp: tpaths_def tleaf_def depth_def)

text \<open>A function on places that fits the addresses is \<open>tnode\<close>.\<close>

lemma tnode_unique:
  assumes "\<And>i. i < NADDR \<Longrightarrow> W (i, []) = ad i"
    and "\<And>i ks k. (i, ks @ [k]) \<in> tpaths \<Longrightarrow> W (i, ks @ [k]) = (if W (i, ks) = 0 then 0 else addr_at V (W (i, ks)) k)"
    and "q \<in> tpaths"
  shows "tnode V ad q = W q"
proof -
  obtain i ks where q: "q = (i, ks)" by (cases q)
  have "(i, ks) \<in> tpaths \<Longrightarrow> tnode V ad (i, ks) = W (i, ks)"
  proof (induction ks rule: rev_induct)
    case Nil
    then show ?case using assms(1) by (simp add: tpaths_def)
  next
    case (snoc k ks)
    then have "tnode V ad (i, ks) = W (i, ks)" using tpaths_snoc by blast
    then show ?case using assms(2) [OF snoc.prems] by (simp add: tnode_snoc)
  qed
  then show ?thesis using assms(3) q by simp
qed


section \<open>Trees without sharing\<close>

definition unshared :: "(int \<Rightarrow> block) \<Rightarrow> (nat \<Rightarrow> int) \<Rightarrow> bool" where
  "unshared V ad \<longleftrightarrow> (\<forall>q \<in> tpaths. \<forall>r \<in> tpaths. tnode V ad q \<noteq> 0 \<longrightarrow> tnode V ad q = tnode V ad r \<longrightarrow> q = r)"

definition tblocks :: "(int \<Rightarrow> block) \<Rightarrow> (nat \<Rightarrow> int) \<Rightarrow> int set" where
  "tblocks V ad = tnode V ad ` tpaths - {0}"

lemma unsharedD: "unshared V ad \<Longrightarrow> q \<in> tpaths \<Longrightarrow> r \<in> tpaths \<Longrightarrow> tnode V ad q \<noteq> 0 \<Longrightarrow> tnode V ad q = tnode V ad r \<Longrightarrow> q = r"
  by (simp add: unshared_def)

lemma tblocksI: "q \<in> tpaths \<Longrightarrow> tnode V ad q \<noteq> 0 \<Longrightarrow> tnode V ad q \<in> tblocks V ad"
  by (auto simp: tblocks_def)

lemma addr_at_zero [simp]: "V b = zeroblk \<Longrightarrow> addr_at V b k = 0"
  by (simp add: addr_at_def zeroblk_def ld32_def s32_def)

lemma addr_at_store:
  assumes "V' p = trunc_blk (st32 (4 * k) (wswap_int32 b) (V p))" "k < NINDIR" "j < NINDIR" "0 \<le> b" "b < 2147483648"
  shows "addr_at V' p j = (if j = k then b else addr_at V p j)"
proof (cases "j = k")
  case True
  then show ?thesis using assms by (simp add: addr_at_def mem_simps s32_id)
next
  case False
  then have "4 * j + 3 < 4 * k \<or> 4 * k + 3 < 4 * j" by linarith
  then show ?thesis using False assms by (simp add: addr_at_def mem_simps ld32_st32_other)
qed

text \<open>The data of a leaf changes.\<close>

lemma tnode_leaf:
  assumes "unshared V ad" "q \<in> tpaths" "tleaf q" "\<And>c. c \<in> tblocks V ad \<Longrightarrow> c \<noteq> tnode V ad q \<Longrightarrow> V' c = V c" "r \<in> tpaths"
  shows "tnode V' ad r = tnode V ad r"
proof (rule tnode_unique [OF _ _ assms(5)])
  fix i ks k assume p: "(i, ks @ [k]) \<in> tpaths"
  note P = tpaths_snoc [OF p]
  show "tnode V ad (i, ks @ [k]) = (if tnode V ad (i, ks) = 0 then 0 else addr_at V' (tnode V ad (i, ks)) k)"
  proof (cases "tnode V ad (i, ks) = 0")
    case False
    have "(i, ks) \<noteq> q" using P assms(3) by auto
    then have "tnode V ad (i, ks) \<noteq> tnode V ad q" using unsharedD [OF assms(1) _ assms(2) False] P by auto
    then have "V' (tnode V ad (i, ks)) = V (tnode V ad (i, ks))" using assms(4) tblocksI [OF _ False] P by auto
    then show ?thesis using False by (simp add: tnode_snoc addr_at_def)
  qed (simp add: tnode_snoc)
qed simp

text \<open>A new block in the inode.\<close>

lemma tnode_slot:
  assumes "ad i = 0" "b \<noteq> 0" "V' b = zeroblk" "\<And>c. c \<in> tblocks V ad \<Longrightarrow> V' c = V c" "r \<in> tpaths"
  shows "tnode V' (ad(i := b)) r = ((tnode V ad)((i, []) := b)) r"
proof (rule tnode_unique [OF _ _ assms(5)])
  fix j ks k assume p: "(j, ks @ [k]) \<in> tpaths"
  note P = tpaths_snoc [OF p]
  have z: "tnode V ad (i, ks) = 0" for ks using assms(1) by (cases ks) (simp_all add: tnode_def)
  show "((tnode V ad)((i, []) := b)) (j, ks @ [k])
    = (if ((tnode V ad)((i, []) := b)) (j, ks) = 0 then 0 else addr_at V' (((tnode V ad)((i, []) := b)) (j, ks)) k)"
  proof (cases "j = i \<and> ks = []")
    case True
    then show ?thesis using z [of "[k]"] assms(2,3) by simp
  next
    case False
    then show ?thesis using tblocksI [of "(j, ks)" V ad] P assms(4) [of "tnode V ad (j, ks)"]
      by (auto simp: tnode_snoc addr_at_def)
  qed
qed simp

text \<open>A new block in an indirect block.\<close>

lemma tnode_indir:
  assumes u: "unshared V ad" and p: "(i, js @ [k]) \<in> tpaths" "tnode V ad (i, js) = a" "a \<noteq> 0" "tnode V ad (i, js @ [k]) = 0"
    and b: "0 < b" "b < 2147483648" "b \<notin> tblocks V ad" "V' b = zeroblk" "V' a = trunc_blk (st32 (4 * k) (wswap_int32 b) (V a))"
    and o: "\<And>c. c \<in> tblocks V ad \<Longrightarrow> c \<noteq> a \<Longrightarrow> V' c = V c" and r: "r \<in> tpaths"
  shows "tnode V' ad r = ((tnode V ad)((i, js @ [k]) := b)) r"
proof (rule tnode_unique [OF _ _ r])
  let ?W = "(tnode V ad)((i, js @ [k]) := b)"
  fix l ks m assume q: "(l, ks @ [m]) \<in> tpaths"
  note P = tpaths_snoc [OF p(1)] and Q = tpaths_snoc [OF q]
  show "?W (l, ks @ [m]) = (if ?W (l, ks) = 0 then 0 else addr_at V' (?W (l, ks)) m)"
  proof (cases "(l, ks) = (i, js @ [k])")
    case True
    then show ?thesis using b(1,4) p(4) by (simp add: tnode_snoc [of _ _ i "js @ [k]", simplified])
  next
    case new: False
    show ?thesis
    proof (cases "tnode V ad (l, ks) = 0")
      case True
      have "(l, ks) \<noteq> (i, js)" using True p(2,3) by auto
      then show ?thesis using True new by (auto simp: tnode_snoc)
    next
      case False
      show ?thesis
      proof (cases "(l, ks) = (i, js)")
        case True
        then show ?thesis using p(2,3) addr_at_store [where V = V and V' = V' and p = a, OF b(5), of m] P Q b(1,2) new by (auto simp: tnode_snoc)
      next
        case other: False
        have "tnode V ad (l, ks) \<noteq> a" using unsharedD [OF u _ _ False, of "(i, js)"] other P Q p(2) by auto
        then have "V' (tnode V ad (l, ks)) = V (tnode V ad (l, ks))" using o tblocksI [OF _ False] Q by auto
        then show ?thesis using False new other by (auto simp: tnode_snoc addr_at_def)
      qed
    qed
  qed
qed simp

text \<open>A tree stays without sharing when a new block is added.\<close>

lemma unshared_new:
  assumes "unshared V ad" "b \<notin> tblocks V ad" "b \<noteq> 0" "\<And>r. r \<in> tpaths \<Longrightarrow> tnode V' ad' r = ((tnode V ad)(q := b)) r"
  shows "unshared V' ad'"
proof -
  have "b \<noteq> tnode V ad r" if "r \<in> tpaths" for r using assms(2,3) tblocksI [OF that] by metis
  then show ?thesis using assms(1,4) by (auto simp: unshared_def)
qed

lemma tblocks_new:
  assumes "\<And>r. r \<in> tpaths \<Longrightarrow> tnode V' ad' r = ((tnode V ad)(q := b)) r"
  shows "tblocks V' ad' \<subseteq> insert b (tblocks V ad)"
  unfolding tblocks_def using assms by force


section \<open>The bytes of the file\<close>

definition leaf_data :: "(int \<Rightarrow> block) \<Rightarrow> (nat \<Rightarrow> int) \<Rightarrow> place \<Rightarrow> block" where
  "leaf_data V ad q = (if tnode V ad q = 0 then zeroblk else V (tnode V ad q))"

lemma file_byte_leaf:
  assumes "bmap_path (off div 512) = Some q" "\<And>r. r \<in> tpaths \<Longrightarrow> 0 \<le> tnode V ad r"
  shows "file_byte V ad off = leaf_data V ad q (nat (off mod 512))"
  using assms(1) assms(2) [of q] bmap_path_leaf [OF assms(1)]
  by (auto simp: file_byte_def leaf_data_def file_block_tnode zeroblk_def Let_def)

end
