(* ===== verification/File_Grow.thy ===== *)
theory File_Grow
  imports File_Tree "HOL-Library.Sublist"
begin

text \<open>
  \<open>bmap\<close> for writing. A file system with a free list and a file without sharing is kept: a missing block on the
  way to a file block is taken from the list and hung into the inode or an indirect block, and neither the bytes
  of the file nor any other block change.
\<close>

section \<open>The invariant\<close>

abbreviation tn :: "kernel \<Rightarrow> nat \<Rightarrow> place \<Rightarrow> int" where
  "tn s ip \<equiv> tnode (view s) (i_addr (v7_inode s ip))"

abbreviation tb :: "kernel \<Rightarrow> nat \<Rightarrow> int set" where
  "tb s ip \<equiv> tblocks (view s) (i_addr (v7_inode s ip))"

abbreviation ld :: "kernel \<Rightarrow> nat \<Rightarrow> place \<Rightarrow> block" where
  "ld s ip \<equiv> leaf_data (view s) (i_addr (v7_inode s ip))"

text \<open>
  The free list is \<open>xs\<close>; the blocks of the file belong to the file system, are not free and not in use twice; there
  is a free block for each of the places \<open>Q\<close> that is empty.
\<close>

definition file_inv :: "bufp \<Rightarrow> nat \<Rightarrow> place set \<Rightarrow> int list \<Rightarrow> kernel \<Rightarrow> bool" where
  "file_inv fp ip Q xs s \<longleftrightarrow> cache_ok s \<and> (\<forall>p. insert p (busy s) \<noteq> pool) \<and> freelist s fp xs \<and> i_dev (v7_inode s ip) = 0
     \<and> unshared (view s) (i_addr (v7_inode s ip)) \<and> (\<forall>c \<in> tb s ip. fs_mine fp s xs c)
     \<and> Q \<subseteq> tpaths \<and> finite Q \<and> card {q \<in> Q. tn s ip q = 0} \<le> length xs"

text \<open>Equal but for the addresses, the flags and the size.\<close>

definition sibling :: "inode \<Rightarrow> inode \<Rightarrow> bool" where
  "sibling i j \<longleftrightarrow> j = i\<lparr>i_addr := i_addr j, i_flag := i_flag j, i_size := i_size j\<rparr>"

lemma sibling_refl [simp]: "sibling i i"
  by (simp add: sibling_def)

lemma sibling_trans: "sibling i j \<Longrightarrow> sibling j k \<Longrightarrow> sibling i k"
  unfolding sibling_def by (cases i, cases j, cases k) simp

lemma sibling_upd [simp]: "sibling i (i\<lparr>i_addr := ad, i_flag := fl\<rparr>)" "sibling i (i\<lparr>i_flag := fl\<rparr>)" "sibling i (i\<lparr>i_size := sz\<rparr>)"
  by (simp_all add: sibling_def)

text \<open>What a step of a write does to the rest: nothing.\<close>

definition within :: "nat \<Rightarrow> int list \<Rightarrow> int list \<Rightarrow> kernel \<Rightarrow> kernel \<Rightarrow> bool" where
  "within ip xs xs' s t \<longleftrightarrow> busy t = busy s \<and> (\<forall>c. unheld t c = unheld s c \<and> dsk_inrange t c = dsk_inrange s c)
     \<and> suffix xs' xs \<and> (\<forall>q \<in> tpaths. tn s ip q \<noteq> 0 \<longrightarrow> tn t ip q = tn s ip q) \<and> tb t ip \<subseteq> tb s ip \<union> set xs
     \<and> (\<forall>c. dsk_inrange s c \<longrightarrow> c \<notin> set xs \<longrightarrow> c \<notin> tb s ip \<longrightarrow> view t c = view s c)
     \<and> v7_mount t = v7_mount s \<and> (\<forall>j. j \<noteq> ip \<longrightarrow> v7_inode t j = v7_inode s j)
     \<and> sibling (v7_inode s ip) (v7_inode t ip)"

definition grown :: "nat \<Rightarrow> int list \<Rightarrow> int list \<Rightarrow> kernel \<Rightarrow> kernel \<Rightarrow> bool" where
  "grown ip xs xs' s t \<longleftrightarrow> within ip xs xs' s t \<and> (\<forall>q \<in> tpaths. tleaf q \<longrightarrow> ld t ip q = ld s ip q)
     \<and> i_size (v7_inode t ip) = i_size (v7_inode s ip) \<and> v7_u t = v7_u s \<and> v7_file t = v7_file s \<and> h_umem (host t) = h_umem (host s)"

lemma within_trans:
  assumes "within ip xs ys s t" "within ip ys zs t u"
  shows "within ip xs zs s u"
proof -
  have sub: "set ys \<subseteq> set xs" using assms(1) by (auto simp: within_def dest: set_mono_suffix)
  have "view u c = view s c" if "dsk_inrange s c" "c \<notin> set xs" "c \<notin> tb s ip" for c
    using that assms sub by (auto simp: within_def)
  moreover have "tn u ip q = tn s ip q" if "q \<in> tpaths" "tn s ip q \<noteq> 0" for q
    using that assms by (simp add: within_def)
  moreover have "tb u ip \<subseteq> tb s ip \<union> set xs" using assms sub unfolding within_def by blast
  moreover have "sibling (v7_inode s ip) (v7_inode u ip)" using assms sibling_trans by (auto simp: within_def)
  ultimately show ?thesis using assms unfolding within_def by (auto intro: suffix_order.trans)
qed

lemma grown_trans: "grown ip xs ys s t \<Longrightarrow> grown ip ys zs t u \<Longrightarrow> grown ip xs zs s u"
  using within_trans [of ip xs ys s t zs u] by (simp add: grown_def)

lemma within_refl: "within ip xs xs s s"
  by (simp add: within_def)

lemma grown_refl: "grown ip xs xs s s"
  by (simp add: grown_def within_refl)

lemma file_invD:
  assumes "file_inv fp ip Q xs s"
  shows "cache_ok s" "insert p (busy s) \<noteq> pool" "busy s \<noteq> pool" "freelist s fp xs" "i_dev (v7_inode s ip) = 0"
    "unshared (view s) (i_addr (v7_inode s ip))" "c \<in> tb s ip \<Longrightarrow> fs_mine fp s xs c"
    "Q \<subseteq> tpaths" "finite Q" "card {q \<in> Q. tn s ip q = 0} \<le> length xs" "fp \<in> busy s"
proof -
  have two: "insert p (busy s) \<noteq> pool" for p using assms by (simp add: file_inv_def)
  then show "insert p (busy s) \<noteq> pool" .
  show "busy s \<noteq> pool" using two by (metis insert_absorb insert_not_empty all_not_in_conv pool_nonempty)
  show "fp \<in> busy s" using assms by (simp add: file_inv_def freelist_def super_def)
qed (use assms in \<open>auto simp: file_inv_def\<close>)

lemma tnode_mine:
  assumes "file_inv fp ip Q xs s" "q \<in> tpaths" "tn s ip q \<noteq> 0"
  shows "fs_mine fp s xs (tn s ip q)" "0 < tn s ip q" "dsk_inrange s (tn s ip q)" "room s (tn s ip q)" "tn s ip q \<notin> set xs"
proof -
  show m: "fs_mine fp s xs (tn s ip q)" using assms(1) tblocksI [OF assms(2,3)] by (rule file_invD(7))
  have f: "freelist s fp xs" by (rule file_invD(4) [OF assms(1)])
  show "0 < tn s ip q" using m f data_block_range [of s fp "tn s ip q"] by (simp add: fs_mine_def freelist_def)
  show "dsk_inrange s (tn s ip q)" "tn s ip q \<notin> set xs" using m by (simp_all add: fs_mine_def data_block_def)
  show "room s (tn s ip q)" using m file_invD(1,3) [OF assms(1)] unheld_room by (simp add: fs_mine_def)
qed

lemma tnode_nonneg: "file_inv fp ip Q xs s \<Longrightarrow> q \<in> tpaths \<Longrightarrow> 0 \<le> tn s ip q"
  using tnode_mine(2) [of fp ip Q xs s q] by (cases "tn s ip q = 0") auto


section \<open>Steps that leave the disk alone\<close>

definition same_store :: "kernel \<Rightarrow> kernel \<Rightarrow> bool" where
  "same_store s t \<longleftrightarrow> v7_buf t = v7_buf s \<and> v7_nblkdev t = v7_nblkdev s \<and> dsk t = dsk s \<and> h_file (host t) = h_file (host s)
     \<and> h_len (host t) = h_len (host s) \<and> h_fault (host t) = h_fault (host s) \<and> v7_mount t = v7_mount s"

lemma same_store_cong:
  assumes "same_store s t"
  shows "cache_ok t = cache_ok s" "view t = view s" "busy t = busy s" "buf_tag t = buf_tag s" "dsk_inrange t = dsk_inrange s"
    "unheld t = unheld s" "data_block t = data_block s" "freelist t = freelist s" "fs_mine fp t = fs_mine fp s"
proof -
  note a = assms [unfolded same_store_def]
  show C: "cache_ok t = cache_ok s" "view t = view s" "busy t = busy s" "buf_tag t = buf_tag s" "dsk_inrange t = dsk_inrange s"
    by (rule cache_ok_cong; use a in simp)+
  show u: "unheld t = unheld s" "data_block t = data_block s"
    using C a by (simp_all add: unheld_def data_block_def fun_eq_iff)
  show "freelist t = freelist s"
    by (intro ext) (use C a u in \<open>simp add: freelist_def super_def off_disk_def\<close>)
  show "fs_mine fp t = fs_mine fp s" using u by (simp add: fs_mine_def fun_eq_iff)
qed

lemma file_inv_store:
  assumes "same_store s t" "i_addr (v7_inode t ip) = i_addr (v7_inode s ip)" "i_dev (v7_inode t ip) = i_dev (v7_inode s ip)"
  shows "file_inv fp ip Q xs t = file_inv fp ip Q xs s"
  using same_store_cong [OF assms(1)] assms(2,3) by (simp add: file_inv_def)


text \<open>A step that keeps the tree keeps the invariant.\<close>

lemma file_inv_tree:
  assumes I: "file_inv fp ip Q xs s" and t: "cache_ok t" "busy t = busy s" "freelist t fp xs" "\<And>c. unheld t c = unheld s c"
      "\<And>c. data_block t fp c = data_block s fp c"
    and n: "\<And>r. r \<in> tpaths \<Longrightarrow> tn t ip r = tn s ip r" and d: "i_dev (v7_inode t ip) = i_dev (v7_inode s ip)"
  shows "file_inv fp ip Q xs t" "tb t ip = tb s ip"
proof -
  show tbs: "tb t ip = tb s ip" using n by (auto simp: tblocks_def image_def)
  have us: "unshared (view t) (i_addr (v7_inode t ip))" using file_invD(6) [OF I] n by (auto simp: unshared_def)
  have "{q \<in> Q. tn t ip q = 0} = {q \<in> Q. tn s ip q = 0}" using n file_invD(8) [OF I] by auto
  then show "file_inv fp ip Q xs t" using t us tbs d I by (auto simp: file_inv_def fs_mine_def)
qed


section \<open>The free list during a transaction\<close>

lemma freelist_step:
  assumes "freelist s fp xs" "io_frame s t" "fp \<in> busy t" "buf_tag t fp = buf_tag s fp" "bdata t fp = bdata s fp"
    "\<And>c. c \<in> set xs \<Longrightarrow> view t c = view s c" "\<And>c. c \<in> set xs \<Longrightarrow> unheld t c"
  shows "freelist t fp xs"
proof -
  have "super t fp"
    using assms(1,3) io_frame_fields(2) [OF assms(2)] off_disk_cong [OF assms(2,4)] by (simp add: freelist_def super_def)
  moreover have "chain (view t) (sb_count (bdata s fp)) (sb_entry (bdata s fp)) xs"
    by (rule chain_cong [of "view s"]) (use assms(1,6) in \<open>auto simp: freelist_def\<close>)
  moreover have "data_block t fp c = data_block s fp c" for c
    using data_block_cong [OF _ assms(2)] assms(5) by (simp add: sb_same_def)
  ultimately show ?thesis using assms(1,5,7) by (auto simp: freelist_def)
qed

lemma undisturbed_buf:
  assumes "undisturbed s t B" "q \<in> B"
  shows "bdata t q = bdata s q" "bflags t q = bflags s q" "buf_tag t q = buf_tag s q"
  using assms bcoreD [of "v7_buf t q" "v7_buf s q"] undisturbed_tag [OF assms] by (auto simp: undisturbed_def)

lemma freelist_taken:
  assumes "freelist s fp xs" "taken s p t" "buf_tag t p = Some b" "b \<notin> set xs"
  shows "freelist t fp xs"
proof -
  have fp: "fp \<in> busy s" using assms(1) by (simp add: freelist_def super_def)
  have u: "undisturbed s t (busy s)" "busy t = insert p (busy s)" using assms(2) by (simp_all add: taken_def)
  show ?thesis
  proof (rule freelist_step [OF assms(1)])
    show "unheld t c" if "c \<in> set xs" for c
      using that assms(1,3,4) u undisturbed_buf(3) [OF u(1)] by (auto simp: unheld_def freelist_def)
    show "view t c = view s c" if "c \<in> set xs" for c
      using that assms(1,2) by (simp add: taken_def freelist_def data_block_def)
  qed (use u fp undisturbed_buf [OF u(1) fp] in \<open>simp_all add: undisturbed_def\<close>)
qed

text \<open>A buffer that was taken is written: only its block changes.\<close>

lemma released_written:
  assumes ok: "cache_ok s" and f: "freelist s fp xs" and p: "taken s p t" "buf_tag t p = Some b" "b \<notin> set xs"
    and u: "cache_ok u" "busy u = busy t" "undisturbed t u (busy t - {fp})" "buf_tag u fp = buf_tag t fp" "freelist u fp ys" "set ys \<subseteq> set xs"
    and g: "bdwrite p (upd_data p g u) = Some v"
  shows "cache_ok v" "busy v = busy s" "freelist v fp ys" "\<And>c. unheld v c = unheld s c" "io_frame s v"
    "\<And>c. view v c = (if c = b then trunc_blk (g (bdata t p)) else view u c)"
    "bdata v fp = bdata u fp"
proof -
  have fp: "fp \<in> busy s" "fp \<noteq> p" and tk: "undisturbed s t (busy s)" "busy t = insert p (busy s)" "p \<notin> busy s"
    using f p(1) by (auto simp: freelist_def super_def taken_def)
  have pu: "p \<in> busy u" "p \<in> busy t - {fp}" using u(2) tk fp by auto
  note pb = undisturbed_buf [OF u(3) pu(2)]
  let ?w = "upd_data p g u"
  note w = upd_data_spec [OF u(1) pu(1), of g]
  have bt: "b_dev (v7_buf u p) = 0" "b_blkno (v7_buf u p) = b" using pb(3) p(2) by (auto simp: buf_tag_def split: if_splits)
  have pw: "p \<in> busy ?w" "b_dev (v7_buf ?w p) = 0" "B_ERROR \<notin> bflags ?w p" "b_blkno (v7_buf ?w p) = b"
    using w(2) pu(1) bt pb(2) p(1) by (simp_all add: taken_def)
  have rel: "released ?w p v" and vw: "\<And>c. view v c = (if c = b then trunc_blk (g (bdata u p)) else view ?w c)"
    using bdwrite_spec [OF w(1) pw(1-3)] g pw(4) by auto
  show "cache_ok v" using rel by (simp add: released_def)
  show bv: "busy v = busy s" using rel w(2) u(2) tk by (auto simp: released_def)
  show "view v c = (if c = b then trunc_blk (g (bdata t p)) else view u c)" for c
    using vw w(4) [of c] bt(2) pb(1) by simp
  have ua: "undisturbed t ?w (busy s - {fp})"
    by (rule undisturbed_trans [of t u _ ?w "busy u - {p}"])
      (use u(2,3) w(3) tk in \<open>auto simp: undisturbed_def\<close>)
  have uv: "undisturbed s v (busy s - {fp})"
  proof (rule undisturbed_trans)
    show "undisturbed s ?w (busy s - {fp})"
      by (rule undisturbed_trans [OF _ ua]) (use tk in \<open>auto simp: undisturbed_def\<close>)
    show "undisturbed ?w v (busy ?w - {p})" using rel by (simp add: released_def)
  qed (use w(2) u(2) tk in auto)
  then show fr: "io_frame s v" by (simp add: undisturbed_def)
  have fw: "fp \<in> busy ?w - {p}" using w(2) u(2) tk fp by simp
  have un: "undisturbed ?w v (busy ?w - {p})" using rel by (simp add: released_def)
  note fb = undisturbed_buf [OF un fw]
  have tu: "buf_tag ?w q = buf_tag u q" for q by (simp add: buf_tag_def)
  show bd: "bdata v fp = bdata u fp" using fb(1) fp(2) by simp
  have tv: "buf_tag v q = buf_tag s q" if "q \<in> busy s" for q
  proof (cases "q = fp")
    case True
    then show ?thesis using fb(3) tu u(4) undisturbed_buf(3) [OF tk(1) fp(1)] by simp
  next
    case False
    then show ?thesis using undisturbed_buf(3) [OF uv] that by simp
  qed
  show uh: "unheld v c = unheld s c" for c using tv bv by (simp add: unheld_def)
  show "freelist v fp ys"
  proof (rule freelist_step [OF u(5)])
    show "io_frame u v" using un w(3) io_frame_trans by (auto simp: undisturbed_def)
    show "view v c = view u c" if "c \<in> set ys" for c using that vw w(4) [of c] bt(2) p(3) u(6) by auto
    show "unheld v c" if "c \<in> set ys" for c using that uh u(6) f by (auto simp: freelist_def)
  qed (use bv fp bd fb(3) tu in simp_all)
qed


section \<open>A block is added\<close>

text \<open>The step from \<open>s\<close> to \<open>t\<close> hangs the free block \<open>b\<close> at the place \<open>q\<close>; \<open>A\<close> holds at most an indirect block.\<close>

lemma grown_node:
  assumes I: "file_inv fp ip Q (b # xs) s" and q: "q \<in> Q" "tn s ip q = 0"
    and t: "cache_ok t" "busy t = busy s" "freelist t fp xs" "\<And>c. unheld t c = unheld s c" "\<And>c. data_block t fp c = data_block s fp c"
    and n: "\<And>r. r \<in> tpaths \<Longrightarrow> tn t ip r = ((tn s ip)(q := b)) r" "view t b = zeroblk"
    and A: "\<And>a. a \<in> A \<Longrightarrow> \<exists>r \<in> tpaths. \<not> tleaf r \<and> tn s ip r = a \<and> a \<noteq> 0"
      "\<And>c. dsk_inrange s c \<Longrightarrow> c \<noteq> b \<Longrightarrow> c \<notin> A \<Longrightarrow> view t c = view s c"
    and fr: "dsk_inrange t = dsk_inrange s" "v7_file t = v7_file s" "v7_mount t = v7_mount s" "\<And>j. j \<noteq> ip \<Longrightarrow> v7_inode t j = v7_inode s j"
      "v7_inode t ip = (v7_inode s ip)\<lparr>i_addr := ad, i_flag := fl\<rparr>" "v7_u t = v7_u s" "h_umem (host t) = h_umem (host s)"
  shows "file_inv fp ip Q xs t" "grown ip (b # xs) xs s t"
proof -
  have Qp: "Q \<subseteq> tpaths" "finite Q" "card {q \<in> Q. tn s ip q = 0} \<le> Suc (length xs)" using file_invD(8-10) [OF I] by simp_all
  have f: "b \<notin> set xs" "data_block s fp b" "unheld s b" "0 < b" "b < 2147483648"
    using file_invD(4) [OF I] data_block_range [of s fp b] by (simp_all add: freelist_def)
  have bt: "b \<notin> tb s ip" using file_invD(7) [OF I, of b] by (auto simp: fs_mine_def)
  have qp: "q \<in> tpaths" using q(1) Qp(1) by blast
  have us: "unshared (view t) (i_addr (v7_inode t ip))" by (rule unshared_new [OF file_invD(6) [OF I] bt _ n(1)]) (use f in simp_all)
  have tbs: "tb t ip \<subseteq> insert b (tb s ip)" by (rule tblocks_new) (rule n(1))
  have mine: "fs_mine fp t xs c" if "c \<in> tb t ip" for c
    using that tbs f t(4,5) file_invD(7) [OF I, of c] by (auto simp: fs_mine_def)
  have "tn t ip r = 0 \<longleftrightarrow> tn s ip r = 0 \<and> r \<noteq> q" if "r \<in> Q" for r using n(1) [of r] Qp(1) f(4) that by (auto split: if_splits)
  then have eq: "{r \<in> Q. tn t ip r = 0} = {r \<in> Q. tn s ip r = 0} - {q}" by blast
  have "card {r \<in> Q. tn t ip r = 0} \<le> length xs"
    unfolding eq using Qp(2,3) q by (simp add: card_Diff_singleton)
  then show "file_inv fp ip Q xs t"
    using t(1-3) us mine file_invD(2,5) [OF I] Qp fr(5) by (simp add: file_inv_def)
  have "view t c = view s c" if "dsk_inrange s c" "c \<notin> set (b # xs)" "c \<notin> tb s ip" for c
  proof -
    have "c \<notin> A" using A(1) [of c] that(3) tblocksI by metis
    then show ?thesis using A(2) that by simp
  qed
  moreover have "tn t ip r = tn s ip r" if "r \<in> tpaths" "tn s ip r \<noteq> 0" for r using n(1) [OF that(1)] that(2) q(2) by auto
  ultimately have w: "within ip (b # xs) xs s t"
    unfolding within_def using t(2,4) fr tbs by (auto simp: suffix_ConsI)
  have "ld t ip r = ld s ip r" if r: "r \<in> tpaths" "tleaf r" for r
  proof (cases "tn s ip r = 0")
    case True
    then show ?thesis using n(1) [OF r(1)] n(2) by (auto simp: leaf_data_def)
  next
    case False
    let ?c = "tn s ip r"
    have "?c \<notin> A"
    proof
      assume "?c \<in> A"
      then obtain r' where r': "r' \<in> tpaths" "\<not> tleaf r'" "tn s ip r' = ?c" using A(1) by blast
      then have "r = r'" using unsharedD [OF file_invD(6) [OF I] r(1) r'(1) False] by simp
      then show False using r r' by simp
    qed
    moreover have "?c \<noteq> b" using bt tblocksI [OF r(1) False] by auto
    ultimately have "view t ?c = view s ?c" using A(2) tnode_mine(3) [OF I r(1) False] by blast
    then show ?thesis using n(1) [OF r(1)] False q(2) by (auto simp: leaf_data_def)
  qed
  then show "grown ip (b # xs) xs s t" using w fr(2,5-7) by (simp add: grown_def)
qed

text \<open>An empty place means that there is a free block for it.\<close>

lemma file_inv_funded:
  assumes "file_inv fp ip Q xs s" "q \<in> Q" "tn s ip q = 0"
  obtains b ys where "xs = b # ys"
proof -
  have "q \<in> {q \<in> Q. tn s ip q = 0}" "finite {q \<in> Q. tn s ip q = 0}" using assms(2,3) file_invD(9) [OF assms(1)] by simp_all
  then have "0 < card {q \<in> Q. tn s ip q = 0}" by (metis card_gt_0_iff empty_iff)
  then have "xs \<noteq> []" using file_invD(10) [OF assms(1)] by auto
  then show thesis using that by (cases xs) auto
qed

end
