(* ===== verification/Bmap_Write.thy ===== *)
theory Bmap_Write
  imports File_Grow
begin

text \<open>
  \<open>bmap\<close> for writing finds the block of every file block inside its range, with the missing blocks on the way
  added from the free list: one step for the slot of the inode, one for each indirect block.
\<close>

section \<open>The slot of the inode\<close>

text \<open>The places on the way to a place.\<close>

definition upto_place :: "place \<Rightarrow> place set" where
  "upto_place q = {(fst q, take m (snd q)) | m. True}"

lemma upto_place_take: "(i, take m ks) \<in> upto_place (i, ks)"
  by (auto simp: upto_place_def)

lemma upto_place_ends: "(i, []) \<in> upto_place (i, ks)" "(i, ks) \<in> upto_place (i, ks)"
  using upto_place_take [of i 0 ks] upto_place_take [of i "length ks" ks] by simp_all

lemma bmap_slot_write:
  assumes I: "file_inv fp ip Q xs s" and q: "(i, []) \<in> Q"
  shows "\<exists>t xs'. bmap_slot ip i 0 False s = Some (Some (tn t ip (i, [])), t) \<and> file_inv fp ip Q xs' t \<and> grown ip xs xs' s t
    \<and> tn t ip (i, []) \<noteq> 0"
proof (cases "i_addr (v7_inode s ip) i = 0")
  case False
  then show ?thesis using I grown_refl by (auto simp: bmap_slot_def)
next
  case True
  then have z: "tn s ip (i, []) = 0" by simp
  obtain b ys where xs: "xs = b # ys" by (rule file_inv_funded [OF I q z])
  have f: "freelist s fp (b # ys)" using file_invD(4) [OF I] xs by simp
  obtain p u v where v: "alloc 0 s = Some (Some p, u)" "b_blkno (v7_buf u p) = b" "bdwrite p u = Some v" "added fp b ys s v"
    using alloc_fresh [OF file_invD(1,3) [OF I] f] by blast
  let ?t = "or_iflag ip {IUPD, ICHG} (upd_inode ip (\<lambda>p. p\<lparr>i_addr := (i_addr p)(i := b)\<rparr>) v)"
  have run: "bmap_slot ip i 0 False s = Some (Some b, ?t)" using True v by (simp add: bmap_slot_def)
  have st: "same_store v ?t" by (simp add: same_store_def or_iflag_def upd_inode_def)
  note C = same_store_cong [OF st]
  have a: "cache_ok v" "busy v = busy s" "freelist v fp ys" "view v b = zeroblk" "\<And>c. dsk_inrange s c \<Longrightarrow> c \<noteq> b \<Longrightarrow> view v c = view s c"
    and fr: "io_frame s v" using v(4) by (simp_all add: added_def undisturbed_def)
  note F = io_frame_fields [OF fr]
  have b: "b \<noteq> 0" using f data_block_range [of s fp b] by (simp add: freelist_def)
  have b_tb: "b \<notin> tb s ip" using file_invD(7) [OF I, of b] xs by (auto simp: fs_mine_def)
  have ad: "i_addr (v7_inode ?t ip) = (i_addr (v7_inode s ip))(i := b)" using F(3) by (simp add: or_iflag_def upd_inode_def)
  have n: "tn ?t ip r = ((tn s ip)((i, []) := b)) r" if "r \<in> tpaths" for r
    unfolding ad C(2)
  proof (rule tnode_slot [where ad = "i_addr (v7_inode s ip)" and V = "view s" and V' = "view v" and i = i and b = b])
    show "view v c = view s c" if "c \<in> tb s ip" for c
      using a(5) [of c] file_invD(7) [OF I that] that b_tb by (auto simp: fs_mine_def data_block_def)
  qed (use True b a(4) that in simp_all)
  have tt: "tn ?t ip (i, []) = b" using ad by simp
  have I': "file_inv fp ip Q (b # ys) s" using I xs by simp
  have ino: "v7_inode ?t ip = (v7_inode s ip)\<lparr>i_addr := (i_addr (v7_inode s ip))(i := b), i_flag := i_flag (v7_inode s ip) \<union> {IUPD, ICHG}\<rparr>"
    using F(3) by (simp add: or_iflag_def upd_inode_def)
  have frame: "dsk_inrange ?t = dsk_inrange s" "v7_file ?t = v7_file s" "v7_mount ?t = v7_mount s" "\<And>j. j \<noteq> ip \<Longrightarrow> v7_inode ?t j = v7_inode s j"
    "v7_u ?t = v7_u s" "h_umem (host ?t) = h_umem (host s)"
    using C(5) io_frame_inrange [OF fr] F by (auto simp: or_iflag_def upd_inode_def)
  note G = grown_node [OF I' q z _ _ _ _ _ n _ _ _ frame(1-4) ino frame(5,6), where A = "{}"]
  have "file_inv fp ip Q ys ?t" "grown ip (b # ys) ys s ?t"
    by (rule G; use C a added_unheld [OF v(4)] added_data_block [OF v(4)] in simp)+
  then show ?thesis using run tt b xs by auto
qed


section \<open>The indirect blocks\<close>

lemma trunc_st32: "a + 4 \<le> 512 \<Longrightarrow> trunc_blk (st32 a v (trunc_blk d)) = trunc_blk (st32 a v d)"
  by (rule trunc_blk_eqI) (simp add: st32_def)

lemma bread_release_inv:
  assumes I: "file_inv fp ip Q xs s" and b: "room s b"
    and t: "bread 0 b s = Some (p, t)"
  shows "file_inv fp ip Q xs (brelse p t)" "grown ip xs xs s (brelse p t)" "view (brelse p t) c = view s c \<or> \<not> dsk_inrange s c"
proof -
  let ?u = "brelse p t"
  have u: "cache_ok ?u" "same_room s ?u" "\<And>c. dsk_inrange s c \<Longrightarrow> view ?u c = view s c"
    using bread_brelse [OF file_invD(1) [OF I] b] t by auto
  have tk: "taken s p t" using bread_spec [OF file_invD(1) [OF I] b] t by auto
  then show "view ?u c = view s c \<or> \<not> dsk_inrange s c" using u(3) by blast
  have fr: "io_frame s ?u" "busy ?u = busy s" using u(2) by (simp_all add: same_room_def)
  note F = io_frame_fields [OF fr(1)]
  have h: "p \<in> busy t" "pristine t p" "B_ERROR \<notin> bflags t p" "cache_ok t"
    "B_DELWRI \<in> bflags t p \<Longrightarrow> B_DONE \<in> bflags t p \<and> b_dev (v7_buf t p) = 0" using tk by (auto simp: taken_def)
  have rel: "released t p ?u" by (rule brelse_spec [OF h(4,1-3,5)])
  have tg: "buf_tag ?u q = buf_tag s q" "bdata ?u q = bdata s q" if "q \<in> busy s" for q
    using that tk rel undisturbed_buf [of s t "busy s" q] undisturbed_buf [of t ?u "busy t - {p}" q] by (auto simp: taken_def released_def)
  have uh: "unheld ?u c = unheld s c" for c using tg(1) fr(2) by (simp add: unheld_def)
  have fl: "freelist ?u fp xs"
    by (rule freelist_step [OF file_invD(4) [OF I] fr(1)])
      (use file_invD(4,11) [OF I] fr(2) tg uh u(3) in \<open>auto simp: freelist_def data_block_def\<close>)
  have db: "data_block ?u fp c = data_block s fp c" for c
    using data_block_cong [OF _ fr(1)] tg(2) file_invD(11) [OF I] by (simp add: sb_same_def)
  have vt: "view ?u c = view s c" if "c \<in> tb s ip" for c
    using that u(3) file_invD(7) [OF I that] by (simp add: fs_mine_def data_block_def)
  have n: "tn ?u ip r = tn s ip r" if "r \<in> tpaths" for r
  proof -
    have "tnode (view ?u) (i_addr (v7_inode s ip)) r = tn s ip r"
    proof (rule tnode_unique [OF _ _ that])
      fix j ks k assume "(j, ks @ [k]) \<in> tpaths"
      then show "tn s ip (j, ks @ [k]) = (if tn s ip (j, ks) = 0 then 0 else addr_at (view ?u) (tn s ip (j, ks)) k)"
        using vt tblocksI [of "(j, ks)" "view s"] tpaths_snoc by (auto simp: tnode_snoc addr_at_def)
    qed simp
    then show ?thesis using F(3) by simp
  qed
  have dv: "i_dev (v7_inode ?u ip) = i_dev (v7_inode s ip)" using F(3) by simp
  note T = file_inv_tree [OF I u(1) fr(2) fl uh db n dv]
  show "file_inv fp ip Q xs ?u" by (rule T(1))
  have "ld ?u ip q = ld s ip q" if "q \<in> tpaths" for q
    using n [OF that] vt tblocksI [OF that, of "view s"] by (auto simp: leaf_data_def)
  then show "grown ip xs xs s ?u"
    using fr F n T(2) uh u(3) io_frame_inrange [OF fr(1)] by (auto simp: grown_def within_def)
qed


text \<open>An address is added to an indirect block while its buffer is held.\<close>

lemma indir_add:
  assumes I: "file_inv fp ip Q xs s" and q: "(i, js @ [k]) \<in> Q" "tn s ip (i, js @ [k]) = 0" "tn s ip (i, js) = a" "a \<noteq> 0"
    and t: "bread 0 a s = Some (p, t)"
  shows "\<exists>np u v w b ys. xs = b # ys \<and> alloc 0 t = Some (Some np, u) \<and> b_blkno (v7_buf u np) = b \<and> bdwrite np u = Some v
    \<and> bdwrite p (upd_data p (st32 (4 * k) (wswap_int32 b)) v) = Some w
    \<and> file_inv fp ip Q ys w \<and> grown ip xs ys s w \<and> tn w ip (i, js @ [k]) = b \<and> b \<noteq> 0"
proof -
  have P: "(i, js @ [k]) \<in> tpaths" using q(1) file_invD(8) [OF I] by blast
  note P' = tpaths_snoc [OF P]
  have na: "tn s ip (i, js) \<noteq> 0" using q(3,4) by simp
  note A = tnode_mine [OF I _ na, unfolded q(3)]
  have am: "room s a" "dsk_inrange s a" "a \<notin> set xs" using A P' by simp_all
  obtain b ys where xs: "xs = b # ys" by (rule file_inv_funded [OF I q(1,2)])
  have tk: "taken s p t" "buf_tag t p = Some a" "trunc_blk (bdata t p) = view s a"
    using bread_spec [OF file_invD(1) [OF I] am(1)] t am(2) by (auto simp: buf_tag_def)
  have ft: "freelist t fp (b # ys)" using freelist_taken [OF file_invD(4) [OF I] tk(1,2) am(3)] xs by simp
  have ct: "cache_ok t" "busy t = insert p (busy s)" "busy t \<noteq> pool" using tk(1) file_invD(2) [OF I] by (simp_all add: taken_def)
  obtain np u v where v: "alloc 0 t = Some (Some np, u)" "b_blkno (v7_buf u np) = b" "bdwrite np u = Some v" "added fp b ys t v"
    using alloc_fresh [OF ct(1,3) ft] by blast
  have av: "cache_ok v" "busy v = busy t" "undisturbed t v (busy t - {fp})" "freelist v fp ys" "buf_tag v fp = buf_tag t fp"
    "view v b = zeroblk" "\<And>c. dsk_inrange t c \<Longrightarrow> c \<noteq> b \<Longrightarrow> view v c = view t c" "sb_same (bdata t fp) (bdata v fp)"
    using v(4) file_invD(11) [OF I] ct(2) by (auto simp: added_def)
  let ?g = "st32 (4 * k) (wswap_int32 b)"
  let ?x = "upd_data p ?g v"
  have pfp: "p \<noteq> fp" "p \<in> busy v" "p \<in> busy t - {fp}" using tk(1) file_invD(11) [OF I] av(2) ct(2) by (auto simp: taken_def)
  note pv = undisturbed_buf [OF av(3) pfp(3)]
  have "b_dev (v7_buf ?x p) = 0" "B_ERROR \<notin> bflags ?x p" "p \<in> busy ?x"
    using pv(2,3) tk upd_data_spec(2) [OF av(1) pfp(2)] pfp(2) by (auto simp: taken_def buf_tag_def split: if_splits)
  then obtain w where w: "bdwrite p ?x = Some w" using bdwrite_spec [of ?x p] upd_data_spec(1) [OF av(1) pfp(2)] by blast
  have sub: "set ys \<subseteq> set xs" using xs by auto
  note W = released_written [OF file_invD(1,4) [OF I] tk(1,2) am(3) av(1,2,3,5,4) sub w]
  have fb: "b \<notin> set ys" "dsk_inrange s b" "0 < b" "b < 2147483648"
    using file_invD(4) [OF I] data_block_range [of s fp b] xs by (auto simp: freelist_def data_block_def)
  have ab: "a \<noteq> b" using am(3) xs by auto
  have vs: "view w c = view s c" if "dsk_inrange s c" "c \<noteq> a" "c \<noteq> b" for c
  proof -
    have "dsk_inrange t c" "view t c = view s c" using that(1) tk(1) io_frame_inrange [of s t c] by (simp_all add: taken_def undisturbed_def)
    then show ?thesis using W(6) [of c] av(7) [of c] that by simp
  qed
  have wb: "view w b = zeroblk" using W(6) [of b] ab av(6) by simp
  have wa: "view w a = trunc_blk (?g (view s a))" using W(6) [of a] tk(3) P' trunc_st32 [of "4 * k" "wswap_int32 b" "bdata t p"] by simp
  have b_tb: "b \<notin> tb s ip" using file_invD(7) [OF I, of b] xs by (auto simp: fs_mine_def)
  note F = io_frame_fields [OF W(5)]
  have n: "tn w ip r = ((tn s ip)((i, js @ [k]) := b)) r" if "r \<in> tpaths" for r
    unfolding F(3)
  proof (rule tnode_indir [OF file_invD(6) [OF I] P q(3,4,2) fb(3,4) b_tb wb wa _ that])
    show "view w c = view s c" if "c \<in> tb s ip" "c \<noteq> a" for c
      using vs [of c] file_invD(7) [OF I that(1)] that b_tb by (auto simp: fs_mine_def data_block_def)
  qed
  have db: "data_block w fp c = data_block s fp c" for c
  proof (rule data_block_cong [OF _ W(5)])
    have "bdata t fp = bdata s fp" using undisturbed_buf(1) [of s t "busy s" fp] tk(1) file_invD(11) [OF I] by (simp add: taken_def)
    then show "sb_same (bdata s fp) (bdata w fp)" using av(8) W(7) by simp
  qed
  have I': "file_inv fp ip Q (b # ys) s" using I xs by simp
  have ino: "v7_inode w ip = (v7_inode s ip)\<lparr>i_addr := i_addr (v7_inode s ip), i_flag := i_flag (v7_inode s ip)\<rparr>" using F(3) by simp
  have inr: "dsk_inrange w = dsk_inrange s" using io_frame_inrange [OF W(5)] by auto
  have A: "\<exists>r \<in> tpaths. \<not> tleaf r \<and> tn s ip r = a' \<and> a' \<noteq> 0" if "a' \<in> {a}" for a' using that P' q(3,4) by blast
  have V: "view w c = view s c" if "dsk_inrange s c" "c \<noteq> b" "c \<notin> {a}" for c using vs that by simp
  have oth: "v7_inode w j = v7_inode s j" if "j \<noteq> ip" for j using F(3) by simp
  note G = grown_node [OF I' q(1,2) W(1,2,3,4) db n wb A V inr F(4,2) oth ino F(1,15)]
  have inv: "file_inv fp ip Q ys w" by (rule G(1))
  have gr: "grown ip xs ys s w" unfolding xs by (rule G(2))
  have tw: "tn w ip (i, js @ [k]) = b" using n [OF P] by simp
  have nz: "b \<noteq> 0" using fb(3) by simp
  from xs v(1-3) w inv gr tw nz show ?thesis by (intro exI conjI)
qed

lemma bmap_indir_write:
  assumes "file_inv fp ip Q xs s" "(i, js @ indices k bn sh) \<in> tpaths" "upto_place (i, js @ indices k bn sh) \<subseteq> Q"
    "tn s ip (i, js) = nb" "nb \<noteq> 0"
  shows "\<exists>at' t xs'. bmap_indir k 0 False bn sh nb at s = Some (Inr (tn t ip (i, js @ indices k bn sh), at'), t)
    \<and> file_inv fp ip Q xs' t \<and> grown ip xs xs' s t \<and> tn t ip (i, js @ indices k bn sh) \<noteq> 0"
  using assms
proof (induction k arbitrary: js nb at s xs sh)
  case 0
  then show ?case using grown_refl by auto
next
  case (Suc k)
  note I = Suc.prems(1)
  let ?j = "nat (bn div 2 ^ (sh - NSHIFT) mod int NINDIR)" and ?is = "indices k bn (sh - NSHIFT)"
  have all: "js @ indices (Suc k) bn sh = (js @ [?j]) @ ?is" by simp
  have tp: "(i, (js @ [?j]) @ ?is) \<in> tpaths" "upto_place (i, (js @ [?j]) @ ?is) \<subseteq> Q" using Suc.prems(2,3) by simp_all
  have q: "(i, js @ [?j]) \<in> Q" using tp(2) upto_place_take [of i "length (js @ [?j])" "(js @ [?j]) @ ?is"] by auto
  have p: "(i, js @ [?j]) \<in> tpaths" using q file_invD(8) [OF I] by blast
  note P = tpaths_snoc [OF p]
  have nz: "tn s ip (i, js) \<noteq> 0" using Suc.prems(4,5) by simp
  have m: "room s nb" "dsk_inrange s nb" using tnode_mine(3,4) [OF I _ nz] P Suc.prems(4) by simp_all
  obtain bp t where t: "bread 0 nb s = Some (bp, t)" "trunc_blk (bdata t bp) = view s nb" "B_ERROR \<notin> bflags t bp"
    using bread_spec [OF file_invD(1) [OF I] m(1)] m(2) by (auto simp: taken_def)
  have e: "wswap_int32 (ld32 (bdata t bp) (4 * ?j)) = tn s ip (i, js @ [?j])"
    using P nz t(2) Suc.prems(4,5) by (simp add: tnode_snoc addr_at_def flip: t(2)) (simp add: mem_simps)
  show ?case
  proof (cases "tn s ip (i, js @ [?j]) = 0")
    case True
    obtain np u v w b ys where w: "xs = b # ys" "alloc 0 t = Some (Some np, u)" "b_blkno (v7_buf u np) = b" "bdwrite np u = Some v"
      "bdwrite bp (upd_data bp (st32 (4 * ?j) (wswap_int32 b)) v) = Some w"
      "file_inv fp ip Q ys w" "grown ip xs ys s w" "tn w ip (i, js @ [?j]) = b" "b \<noteq> 0"
      using indir_add [OF I q True Suc.prems(4,5) t(1)] by blast
    obtain at' x zs where x: "bmap_indir k 0 False bn (sh - NSHIFT) b (Some (bp, ?j)) w = Some (Inr (tn x ip (i, (js @ [?j]) @ ?is), at'), x)"
      "file_inv fp ip Q zs x" "grown ip ys zs w x" "tn x ip (i, (js @ [?j]) @ ?is) \<noteq> 0"
      using Suc.IH [OF w(6) tp w(8,9)] by blast
    have "bmap_indir (Suc k) 0 False bn sh nb at s = Some (Inr (tn x ip (i, js @ indices (Suc k) bn sh), at'), x)"
      using t(1,3) e True w(2-5) x(1) by (simp add: Let_def)
    then show ?thesis using x(2,4) grown_trans [OF w(7) x(3)] unfolding all by blast
  next
    case False
    let ?r = "brelse bp t"
    note R = bread_release_inv [OF I m(1) t(1)]
    have tr: "tn ?r ip (i, js @ [?j]) = tn s ip (i, js @ [?j])" using R(2) False p by (simp add: grown_def within_def)
    have nr: "tn ?r ip (i, js @ [?j]) \<noteq> 0" using tr False by simp
    obtain at' x zs where x: "bmap_indir k 0 False bn (sh - NSHIFT) (tn s ip (i, js @ [?j])) (Some (bp, ?j)) ?r
        = Some (Inr (tn x ip (i, (js @ [?j]) @ ?is), at'), x)"
      "file_inv fp ip Q zs x" "grown ip xs zs ?r x" "tn x ip (i, (js @ [?j]) @ ?is) \<noteq> 0"
      using Suc.IH [OF R(1) tp tr False] by blast
    have "bmap_indir (Suc k) 0 False bn sh nb at s = Some (Inr (tn x ip (i, js @ indices (Suc k) bn sh), at'), x)"
      using t(1,3) e False x(1) by (simp add: Let_def)
    then show ?thesis using x(2,4) grown_trans [OF R(2) x(3)] unfolding all by blast
  qed
qed


section \<open>\<open>bmap\<close> for writing\<close>

lemma rablock_inv:
  "file_inv fp ip Q xs (s\<lparr>v7_rablock := x\<rparr>) = file_inv fp ip Q xs s" "grown ip xs ys (s\<lparr>v7_rablock := x\<rparr>) t = grown ip xs ys s t"
  "grown ip xs ys s (t\<lparr>v7_rablock := x\<rparr>) = grown ip xs ys s t"
proof -
  have S: "same_store y (y\<lparr>v7_rablock := x\<rparr>)" for y by (simp add: same_store_def)
  show "file_inv fp ip Q xs (s\<lparr>v7_rablock := x\<rparr>) = file_inv fp ip Q xs s" by (rule file_inv_store [OF S]) simp_all
  show "grown ip xs ys (s\<lparr>v7_rablock := x\<rparr>) t = grown ip xs ys s t" "grown ip xs ys s (t\<lparr>v7_rablock := x\<rparr>) = grown ip xs ys s t"
    using same_store_cong [OF S [of s]] same_store_cong [OF S [of t]] by (simp_all add: grown_def within_def)
qed

lemma bmap_write:
  assumes I: "file_inv fp ip Q xs s" and q: "bmap_path bn = Some q" "upto_place q \<subseteq> Q"
  shows "\<exists>t xs'. bmap ip bn False s = Some (tn t ip q, t) \<and> file_inv fp ip Q xs' t \<and> grown ip xs xs' s t \<and> tn t ip q \<noteq> 0"
proof -
  obtain i ks where qi: "q = (i, ks)" by (cases q)
  let ?s = "s\<lparr>v7_rablock := 0\<rparr>"
  have I0: "file_inv fp ip Q xs ?s" using I by (simp add: rablock_inv)
  have qQ: "(i, []) \<in> Q" using q(2) upto_place_ends(1) [of i ks] qi by blast
  obtain t ys where t: "bmap_slot ip i 0 False ?s = Some (Some (tn t ip (i, [])), t)" "file_inv fp ip Q ys t" "grown ip xs ys ?s t"
    "tn t ip (i, []) \<noteq> 0" using bmap_slot_write [OF I0 qQ] by blast
  have dev: "i_dev (v7_inode s ip) = 0" by (rule file_invD(5) [OF I])
  have bn: "0 \<le> bn" using q(1) by (auto simp: bmap_path_def split: if_splits)
  show ?thesis
  proof (cases "bn < 10")
    case True
    then have e: "i = nat bn" "ks = []" using q(1) qi bn by (simp_all add: bmap_path_def)
    have "\<exists>x. bmap ip bn False s = Some (tn t ip q, t\<lparr>v7_rablock := x\<rparr>)"
    proof (cases "i < 9")
      case True
      then show ?thesis using t(1) e qi dev bn \<open>bn < 10\<close> by (auto simp: bmap_def Let_def)
    next
      case False
      then show ?thesis using t(1) e qi dev bn \<open>bn < 10\<close> by (auto simp: bmap_def Let_def intro!: exI [of _ "v7_rablock t"])
    qed
    then show ?thesis using t(2-4) e qi rablock_inv same_store_cong(2) [of t "t\<lparr>v7_rablock := _\<rparr>"] by (auto simp: same_store_def)
  next
    case False
    then obtain j sh n where l: "bmap_level 3 0 1 (bn - 10) = Some (j, sh, n)" "i = 13 - j" "ks = indices (4 - j) n sh"
      using q(1) qi bmap_path_indices [of bn] by (auto split: option.splits)
    have tp: "(i, [] @ indices (4 - j) n sh) \<in> tpaths" "upto_place (i, [] @ indices (4 - j) n sh) \<subseteq> Q"
      using bmap_path_leaf [OF q(1)] q(2) qi l(3) by simp_all
    obtain at' u zs where u: "bmap_indir (4 - j) 0 False n sh (tn t ip (i, [])) None t = Some (Inr (tn u ip (i, [] @ indices (4 - j) n sh), at'), u)"
      "file_inv fp ip Q zs u" "grown ip ys zs t u" "tn u ip (i, [] @ indices (4 - j) n sh) \<noteq> 0"
      using bmap_indir_write [OF t(2) tp refl t(4)] by blast
    have run: "\<exists>x. bmap ip bn False s = Some (tn u ip q, u\<lparr>v7_rablock := x\<rparr>)"
    proof -
      have "\<exists>x. (case at' of Some (bp, i) \<Rightarrow> if i < NINDIR - 1 then u\<lparr>v7_rablock := wswap_int32 (ld32 (bdata u bp) (4 * (i + 1)))\<rparr> else u
          | None \<Rightarrow> u) = u\<lparr>v7_rablock := x\<rparr>"
        by (auto split: option.split intro: exI [of _ "v7_rablock u"])
      then show ?thesis using False bn dev l t(1) u(1) qi by (auto simp: bmap_def Let_def)
    qed
    have "grown ip xs zs ?s u" by (rule grown_trans [OF t(3) u(3)])
    then show ?thesis using run u(2,4) l(3) qi rablock_inv same_store_cong(2) [of u "u\<lparr>v7_rablock := _\<rparr>"] by (auto simp: same_store_def)
  qed
qed

end
