(* ===== verification/Writei_Spec.thy ===== *)
theory Writei_Spec
  imports Bmap_Write
begin

text \<open>
  \<open>writei\<close> on a regular file or a directory, with enough free blocks for the places it fills: afterwards the file
  has the bytes of the caller's memory in the range, and all other bytes as before; the size grows to the end of
  the range where it was smaller.
\<close>

section \<open>The block of a piece\<close>

text \<open>The caller's position moves on while the buffer is held.\<close>

lemma taken_upd_u:
  assumes "taken s p t"
  shows "taken (upd_u f s) p (upd_u f t)"
proof -
  have S: "same_store x (upd_u f x)" for x by (simp add: same_store_def upd_u_def)
  note C = same_store_cong [OF S]
  have B: "v7_buf (upd_u f x) = v7_buf x" "dsk_block (upd_u f x) c = dsk_block x c" for x c
    by (simp_all add: upd_u_def dsk_block_def dsk_pos_def)
  have P: "pristine (upd_u f x) q = pristine x q" for x q using C(5) by (simp add: pristine_def B)
  have F: "io_frame (upd_u f s) (upd_u f t)" using assms by (simp add: taken_def undisturbed_def io_frame_def upd_u_def)
  then show ?thesis using assms C P B(1) by (simp add: taken_def undisturbed_def)
qed

text \<open>What \<open>iomove\<close> leaves in the buffer, as a function of the data before.\<close>

definition patched :: "nat \<Rightarrow> nat \<Rightarrow> block \<Rightarrow> nat \<Rightarrow> block \<Rightarrow> block" where
  "patched on n m a d = (\<lambda>i. if on \<le> i \<and> i < on + n then m (a + (i - on)) else d i)"

lemma leaf_written:
  assumes I: "file_inv fp ip Q xs s" and q: "q \<in> tpaths" "tleaf q" "tn s ip q = b" "b \<noteq> 0"
    and t: "taken s p t" "buf_tag t p = Some b" and u: "u_base (v7_u s) = Umem a" and n: "on + n \<le> 512"
    and d: "\<And>i. i < 512 \<Longrightarrow> i < on \<or> on + n \<le> i \<Longrightarrow> bdata t p i = view s b i"
  shows "\<exists>v. bdwrite p (iomove p on n False t) = Some v \<and> file_inv fp ip Q xs v \<and> within ip xs xs s v \<and> v7_inode v = v7_inode s \<and> v7_file v = v7_file s
    \<and> v7_u v = (v7_u s)\<lparr>u_base := Umem (a + n), u_offset := s32 (u_offset (v7_u s) + int n), u_count := u16 (u_count (v7_u s) - int n)\<rparr>
    \<and> h_umem (host v) = h_umem (host s)
    \<and> (\<forall>r \<in> tpaths. tleaf r \<longrightarrow> (\<forall>i < 512. ld v ip r i = (if r = q then patched on n (h_umem (host s)) a (ld s ip q) i else ld s ip r i)))"
proof -
  let ?m = "h_umem (host s)"
  let ?f = "\<lambda>u. u\<lparr>u_base := ubase_add n (u_base u), u_offset := s32 (u_offset u + int n), u_count := u16 (u_count u - int n)\<rparr>"
  let ?g = "\<lambda>d. copy_bytes n on d a ?m" and ?s = "upd_u ?f s" and ?t = "upd_u ?f t"
  have fr: "io_frame s t" using t(1) by (simp add: taken_def undisturbed_def)
  have io: "iomove p on n False t = upd_data p ?g ?t"
    using u io_frame_fields(1,15) [OF fr] by (simp add: iomove_def ubase_get_def upd_data_def upd_buf_def upd_u_def Let_def)
  have S: "same_store x (upd_u ?f x)" for x by (simp add: same_store_def upd_u_def)
  note C = same_store_cong [OF S]
  have ino: "v7_inode ?s = v7_inode s" "v7_buf ?t = v7_buf t" by (simp_all add: upd_u_def)
  have I': "file_inv fp ip Q xs ?s" using file_inv_store [OF S] I ino by simp
  have nz: "tn s ip q \<noteq> 0" using q by simp
  note bm = tnode_mine(3,5) [OF I q(1) nz, unfolded q(3)]
  have tk: "taken ?s p ?t" "buf_tag ?t p = Some b" using taken_upd_u [OF t(1)] t(2) C(4) by simp_all
  have ft: "freelist ?t fp xs" by (rule freelist_taken [OF file_invD(4) [OF I'] tk bm(2)])
  have ct: "cache_ok ?t" "p \<in> busy ?t" "undisturbed ?t ?t (busy ?t - {fp})" using tk(1) by (auto simp: taken_def undisturbed_def io_frame_def)
  have "b_dev (v7_buf (upd_data p ?g ?t) p) = 0" "B_ERROR \<notin> bflags (upd_data p ?g ?t) p" "p \<in> busy (upd_data p ?g ?t)"
    using tk upd_data_spec(2) [OF ct(1,2)] ct(2) by (auto simp: taken_def buf_tag_def split: if_splits)
  then obtain v where v: "bdwrite p (upd_data p ?g ?t) = Some v" using bdwrite_spec upd_data_spec(1) [OF ct(1,2)] by blast
  note W = released_written [OF file_invD(1,4) [OF I'] tk bm(2) ct(1) refl ct(3) refl ft subset_refl v]
  note F = io_frame_fields [OF W(5)]
  have vw: "view v c = view s c" if "dsk_inrange s c" "c \<noteq> b" for c using W(6) [of c] that tk(1) C(2,5) by (simp add: taken_def)
  have vt: "view v c = view s c" if "c \<in> tb s ip" "c \<noteq> tn s ip q" for c
    using vw [of c] that q(3) file_invD(7) [OF I that(1)] by (simp add: fs_mine_def data_block_def)
  have nd: "tn v ip r = tn s ip r" if "r \<in> tpaths" for r
    unfolding F(3) ino by (rule tnode_leaf [OF file_invD(6) [OF I] q(1,2) vt that])
  have db: "data_block v fp c = data_block s fp c" for c
  proof -
    have "bdata t fp = bdata s fp" using undisturbed_buf(1) [of s t "busy s" fp] t(1) file_invD(11) [OF I] by (simp add: taken_def)
    then have "data_block v fp c = data_block ?s fp c" using data_block_cong [OF _ W(5)] W(7) by (simp add: sb_same_def upd_u_def)
    then show ?thesis using C(7) by simp
  qed
  have uh: "unheld v c = unheld s c" for c using W(4) C(6) by simp
  have dv: "i_dev (v7_inode v ip) = i_dev (v7_inode s ip)" "busy v = busy s" using F(3) ino W(2) C(3) by simp_all
  note T = file_inv_tree [OF I W(1) dv(2) W(3) uh db nd dv(1)]
  have inr: "dsk_inrange v c = dsk_inrange s c" for c using io_frame_inrange [OF W(5)] C(5) by simp
  have b_tb: "b \<in> tb s ip" using tblocksI [OF q(1) nz] q(3) by simp
  have vo: "view v c = view s c" if "dsk_inrange s c" "c \<notin> tb s ip" for c using vw [OF that(1)] that(2) b_tb by blast
  have wi: "within ip xs xs s v" unfolding within_def using dv(2) uh inr nd T(2) vo F(2-4) ino by (simp add: upd_u_def)
  have vu: "v7_u v = (v7_u s)\<lparr>u_base := Umem (a + n), u_offset := s32 (u_offset (v7_u s) + int n), u_count := u16 (u_count (v7_u s) - int n)\<rparr>"
    "h_umem (host v) = ?m" "v7_inode v = v7_inode s" "v7_file v = v7_file s" using F u by (simp_all add: upd_u_def ubase_add_def)
  have lq: "ld v ip q i = patched on n ?m a (ld s ip q) i" if "i < 512" for i
  proof -
    have "ld v ip q i = ?g (bdata t p) i" using W(6) [of b] nd [OF q(1)] q(3,4) ino that by (simp add: leaf_data_def)
    also have "\<dots> = patched on n ?m a (view s b) i" using d that by (auto simp: copy_bytes_def patched_def)
    finally show ?thesis using q(3,4) by (simp add: leaf_data_def)
  qed
  have lo: "ld v ip r = ld s ip r" if "r \<in> tpaths" "r \<noteq> q" for r
  proof (cases "tn s ip r = 0")
    case False
    then have "tn s ip r \<noteq> tn s ip q" using unsharedD [OF file_invD(6) [OF I] that(1) q(1) False] that(2) by auto
    then show ?thesis using nd [OF that(1)] vt [OF tblocksI [OF that(1) False]] by (simp add: leaf_data_def)
  qed (use nd [OF that(1)] in \<open>simp add: leaf_data_def\<close>)
  have "\<forall>r \<in> tpaths. tleaf r \<longrightarrow> (\<forall>i < 512. ld v ip r i = (if r = q then patched on n ?m a (ld s ip q) i else ld s ip r i))"
    using lq lo by simp
  then show ?thesis unfolding io using v T(1) wi vu by blast
qed


section \<open>One round of the loop\<close>

text \<open>The file after \<open>k\<close> bytes of the memory \<open>m\<close> from \<open>a\<close> on were written at \<open>off\<close>.\<close>

definition rewritten :: "nat \<Rightarrow> block \<Rightarrow> nat \<Rightarrow> nat \<Rightarrow> int \<Rightarrow> kernel \<Rightarrow> kernel \<Rightarrow> bool" where
  "rewritten ip m a k off s t \<longleftrightarrow>
     i_size (v7_inode t ip) = (if k = 0 then i_size (v7_inode s ip) else max (i_size (v7_inode s ip)) (off + int k))
     \<and> (k \<noteq> 0 \<longrightarrow> {IUPD, ICHG} \<subseteq> i_flag (v7_inode t ip))
     \<and> (\<forall>x. bmap_path (x div 512) \<noteq> None \<longrightarrow> file_byte (view t) (i_addr (v7_inode t ip)) x
         = (if off \<le> x \<and> x < off + int k then m (a + nat (x - off)) else file_byte (view s) (i_addr (v7_inode s ip)) x))"

text \<open>From \<open>s\<close> to \<open>t\<close> the next \<open>k\<close> bytes of the caller's memory from \<open>a\<close> on went to the file.\<close>

definition wrote :: "nat \<Rightarrow> nat \<Rightarrow> nat \<Rightarrow> int list \<Rightarrow> int list \<Rightarrow> kernel \<Rightarrow> kernel \<Rightarrow> bool" where
  "wrote ip a k xs ys s t \<longleftrightarrow> within ip xs ys s t \<and> h_umem (host t) = h_umem (host s) \<and> v7_file t = v7_file s
     \<and> v7_u t = (v7_u s)\<lparr>u_base := Umem (a + k), u_offset := u_offset (v7_u s) + int k, u_count := u_count (v7_u s) - int k\<rparr>
     \<and> rewritten ip (h_umem (host s)) a k (u_offset (v7_u s)) s t"

lemma same_block:
  assumes "0 \<le> (off::int)" "n \<le> 512 - off mod 512" "x div 512 = off div 512"
  shows "nat (off mod 512) \<le> nat (x mod 512) \<and> nat (x mod 512) < nat (off mod 512) + nat n \<longleftrightarrow> off \<le> x \<and> x < off + n"
    "off \<le> x \<Longrightarrow> nat (x mod 512) - nat (off mod 512) = nat (x - off)"
proof -
  define q y z where "q = off div 512" and "y = x mod 512" and "z = off mod 512"
  have e: "x = q * 512 + y" "off = q * 512 + z" "0 \<le> y" "0 \<le> z"
    using div_mult_mod_eq [of x 512] div_mult_mod_eq [of off 512] assms(3) by (simp_all add: q_def y_def z_def)
  have "nat z \<le> nat y \<and> nat y < nat z + nat n \<longleftrightarrow> off \<le> x \<and> x < off + n" "off \<le> x \<Longrightarrow> nat y - nat z = nat (x - off)"
    using e by auto
  then show "nat (off mod 512) \<le> nat (x mod 512) \<and> nat (x mod 512) < nat (off mod 512) + nat n \<longleftrightarrow> off \<le> x \<and> x < off + n"
    "off \<le> x \<Longrightarrow> nat (x mod 512) - nat (off mod 512) = nat (x - off)"
    by (simp_all add: y_def z_def)
qed

lemma in_block:
  assumes "0 \<le> (off::int)" "n \<le> 512 - off mod 512" "off \<le> x" "x < off + n"
  shows "x div 512 = off div 512"
  using off_in_block(1) [OF assms(1), of "nat (x - off)"] assms(2-4) by simp

lemma patched_bytes:
  assumes I: "file_inv fp ip Q xs s" "file_inv fp ip Q ys t" and q: "bmap_path (off div 512) = Some q"
    and o: "0 \<le> off" "n \<le> 512 - off mod 512"
    and l: "\<And>r i. r \<in> tpaths \<Longrightarrow> tleaf r \<Longrightarrow> i < 512 \<Longrightarrow>
        ld t ip r i = (if r = q then patched (nat (off mod 512)) (nat n) m a (ld s ip q) i else ld s ip r i)"
    and x: "bmap_path (x div 512) \<noteq> None"
  shows "file_byte (view t) (i_addr (v7_inode t ip)) x
    = (if off \<le> x \<and> x < off + n then m (a + nat (x - off)) else file_byte (view s) (i_addr (v7_inode s ip)) x)"
proof -
  obtain r where r: "bmap_path (x div 512) = Some r" using x by blast
  have lx: "nat (x mod 512) < 512" by (simp add: nat_less_iff)
  have fs: "file_byte (view s) (i_addr (v7_inode s ip)) x = ld s ip r (nat (x mod 512))" by (rule file_byte_leaf [OF r tnode_nonneg [OF I(1)]])
  have ft: "file_byte (view t) (i_addr (v7_inode t ip)) x = ld t ip r (nat (x mod 512))" by (rule file_byte_leaf [OF r tnode_nonneg [OF I(2)]])
  note L = l [OF bmap_path_leaf [OF r, THEN conjunct1] bmap_path_leaf [OF r, THEN conjunct2] lx]
  show ?thesis
  proof (cases "r = q")
    case True
    then have "x div 512 = off div 512" using bmap_path_inj [of "x div 512" q "off div 512"] r q by simp
    then show ?thesis using True L fs ft same_block [OF o, of x] by (auto simp: patched_def)
  next
    case False
    then have "\<not> (off \<le> x \<and> x < off + n)" using in_block [OF o, of x] r q by auto
    then show ?thesis using False L fs ft by (simp only: if_False)
  qed
qed

lemma iomove_u: "u_base (v7_u s) = Umem a \<Longrightarrow> v7_u (iomove p on n False s)
  = (v7_u s)\<lparr>u_base := Umem (a + n), u_offset := s32 (u_offset (v7_u s) + int n), u_count := u16 (u_count (v7_u s) - int n)\<rparr>"
  by (simp add: iomove_def ubase_get_def ubase_add_def upd_data_def upd_buf_def upd_u_def Let_def)

text \<open>The buffer of a piece: its old contents are read only where a part of them stays.\<close>

lemma piece_buffer:
  assumes "cache_ok s" "room s b" "dsk_inrange s b" "on + n \<le> 512"
  shows "\<exists>p t. (if int n = 512 then getblk 0 b s else bread 0 b s) = Some (p, t) \<and> taken s p t \<and> buf_tag t p = Some b
    \<and> (\<forall>i < 512. i < on \<or> on + n \<le> i \<longrightarrow> bdata t p i = view s b i)"
proof (cases "n = 512")
  case True
  obtain p t where "getblk 0 b s = Some (p, t)" "taken s p t" "buf_tag t p = Some b"
    using getblk_spec [OF assms(1,2)] by (auto simp: buf_tag_def)
  then show ?thesis using True assms(4) by auto
next
  case False
  obtain p t where t: "bread 0 b s = Some (p, t)" "taken s p t" "buf_tag t p = Some b" "trunc_blk (bdata t p) = view s b"
    using bread_spec [OF assms(1,2)] assms(3) by (auto simp: buf_tag_def)
  have "bdata t p i = view s b i" if "i < 512" for i using t(4) [symmetric] that by simp
  then show ?thesis using False t by auto
qed

lemma writei_round:
  assumes I: "file_inv fp ip Q xs s" and ty: "type = IFREG \<or> type = IFDIR"
    and u: "uerror s = 0" "u_base (v7_u s) = Umem a" "u_offset (v7_u s) = off" "u_count (v7_u s) = cnt"
    and r: "0 \<le> off" "0 < cnt" "cnt < 65536" "off + cnt < 2147483648"
    and q: "bmap_path (off div 512) = Some q" "upto_place q \<subseteq> Q" and n: "n = min (512 - off mod 512) cnt"
  shows "\<exists>t ys. writei_loop ip dev type s = (if cnt - n \<noteq> 0 then writei_loop ip 0 type t else Some t)
    \<and> wrote ip a (nat n) xs ys s t \<and> file_inv fp ip Q ys t"
proof -
  let ?bn = "off div 512" and ?on = "nat (off mod 512)"
  have m: "0 < 512 - off mod 512" "512 - off mod 512 \<le> 512" using pos_mod_bound [of 512 off] pos_mod_sign [of 512 off] by simp_all
  have n1: "1 \<le> n" "n \<le> 512 - off mod 512" "n \<le> 512" "n \<le> cnt" "off + n < 2147483648" using r m by (auto simp: n)
  have mm: "v7_min (512 - off mod 512) cnt = n" using v7_min_small [of "512 - off mod 512" cnt] m r n by simp
  have on: "?on + nat n \<le> 512" using n1 m by simp
  obtain s1 ys where s1: "bmap ip ?bn False s = Some (tn s1 ip q, s1)" "file_inv fp ip Q ys s1" "grown ip xs ys s s1" "tn s1 ip q \<noteq> 0"
    using bmap_write [OF I q] by blast
  note L = bmap_path_leaf [OF q(1)]
  let ?b = "tn s1 ip q"
  note bm = tnode_mine [OF s1(2) L [THEN conjunct1] s1(4)]
  have g: "within ip xs ys s s1" "\<And>r. r \<in> tpaths \<Longrightarrow> tleaf r \<Longrightarrow> ld s1 ip r = ld s ip r" "v7_u s1 = v7_u s"
    "h_umem (host s1) = h_umem (host s)" "i_size (v7_inode s1 ip) = i_size (v7_inode s ip)" "v7_file s1 = v7_file s"
    using s1(3) by (simp_all add: grown_def)
  obtain p s2 where s2: "(if int (nat n) = 512 then getblk 0 ?b s1 else bread 0 ?b s1) = Some (p, s2)" "taken s1 p s2" "buf_tag s2 p = Some ?b"
    "\<And>i. i < 512 \<Longrightarrow> i < ?on \<or> ?on + nat n \<le> i \<Longrightarrow> bdata s2 p i = view s1 ?b i"
    using piece_buffer [OF file_invD(1) [OF s1(2)] bm(4,3) on] by blast
  have ub: "u_base (v7_u s1) = Umem a" "u_base (v7_u s2) = Umem a" "v7_u s2 = v7_u s"
    using g(3) u(2) s2(2) io_frame_fields(1) [of s1 s2] by (simp_all add: taken_def undisturbed_def)
  obtain v where v: "bdwrite p (iomove p ?on (nat n) False s2) = Some v" "file_inv fp ip Q ys v" "within ip ys ys s1 v" "v7_inode v = v7_inode s1"
    "v7_u v = (v7_u s1)\<lparr>u_base := Umem (a + nat n), u_offset := s32 (u_offset (v7_u s1) + int (nat n)), u_count := u16 (u_count (v7_u s1) - int (nat n))\<rparr>"
    "h_umem (host v) = h_umem (host s1)" "v7_file v = v7_file s1"
    "\<And>r i. r \<in> tpaths \<Longrightarrow> tleaf r \<Longrightarrow> i < 512 \<Longrightarrow> ld v ip r i = (if r = q then patched ?on (nat n) (h_umem (host s1)) a (ld s1 ip q) i else ld s1 ip r i)"
    using leaf_written [OF s1(2) L [THEN conjunct1] L [THEN conjunct2] refl s1(4) s2(2,3) ub(1) on s2(4)] by blast
  have vu: "v7_u v = (v7_u s)\<lparr>u_base := Umem (a + nat n), u_offset := off + n, u_count := cnt - n\<rparr>"
    using v(5) g(3) u r n1 by (simp add: s32_id u16_id)
  let ?z = "(if off + n > i_size (v7_inode v ip) then upd_inode ip (\<lambda>p. p\<lparr>i_size := off + n\<rparr>) v else v)"
  define t where "t = or_iflag ip {IUPD, ICHG} ?z"
  have S: "same_store v t" by (simp add: t_def same_store_def or_iflag_def upd_inode_def)
  note C = same_store_cong [OF S]
  have ti: "v7_inode t ip = (v7_inode v ip)\<lparr>i_size := max (i_size (v7_inode v ip)) (off + n), i_flag := i_flag (v7_inode v ip) \<union> {IUPD, ICHG}\<rparr>"
    "v7_file t = v7_file v" "v7_mount t = v7_mount v" "\<And>j. j \<noteq> ip \<Longrightarrow> v7_inode t j = v7_inode v j" "v7_u t = v7_u v" "host t = host v"
    by (auto simp: t_def or_iflag_def upd_inode_def max_def)
  have "file_inv fp ip Q ys t" using file_inv_store [OF S] v(2) ti(1) by simp
  moreover have "wrote ip a (nat n) xs ys s t"
  proof -
    have "within ip ys ys v t" using C ti by (simp add: within_def sibling_def)
    then have w: "within ip xs ys s t" using within_trans [OF within_trans [OF g(1) v(3)]] by blast
    have "file_byte (view t) (i_addr (v7_inode t ip)) x
      = (if off \<le> x \<and> x < off + n then h_umem (host s) (a + nat (x - off)) else file_byte (view s) (i_addr (v7_inode s ip)) x)"
      if x: "bmap_path (x div 512) \<noteq> None" for x
    proof -
      have "file_byte (view v) (i_addr (v7_inode v ip)) x
        = (if off \<le> x \<and> x < off + n then h_umem (host s) (a + nat (x - off)) else file_byte (view s) (i_addr (v7_inode s ip)) x)"
        by (rule patched_bytes [OF I v(2) q(1) r(1) n1(2) _ x]) (use v(8) g L in auto)
      then show ?thesis using C(2) ti(1) by simp
    qed
    then show ?thesis using w vu v(4,6,7) g(4-6) ti u(3,4) n1(1) by (simp add: wrote_def rewritten_def)
  qed
  moreover have "writei_loop ip dev type s = (if cnt - n \<noteq> 0 then writei_loop ip 0 type t else Some t)"
  proof -
    have d: "i_dev (v7_inode s1 ip) = 0" "\<not> ?b < 0" using file_invD(5) [OF s1(2)] bm(2) by simp_all
    have e: "uerror (iomove p ?on (nat n) False s2) = 0" using iomove_u [OF ub(2)] ub(3) u(1) by simp
    have b: "(if n = 512 then getblk 0 ?b s1 else bread 0 ?b s1) = Some (p, s2)" using s2(1) n1(1) by simp
    have tt: "type \<noteq> IFBLK \<and> type \<noteq> IFMPB" using ty by auto
    have z: "(if u_offset (v7_u v) > i_size (v7_inode v ip) \<and> (type = IFDIR \<or> type = IFREG)
        then upd_inode ip (\<lambda>p. p\<lparr>i_size := u_offset (v7_u v)\<rparr>) v else v) = ?z" using vu ty by auto
    have tu: "uerror t = 0" "u_count (v7_u t) = cnt - n" using ti(5) vu u(1) by simp_all
    show ?thesis
      using tt d e z tu
      by (subst writei_loop.simps) (simp add: u(3,4) mm s1(1) b v(1) t_def [symmetric] Let_def)
  qed
  ultimately show ?thesis by blast
qed


section \<open>The whole write\<close>

text \<open>The places in \<open>Q\<close> are enough for the bytes from \<open>off\<close> on.\<close>

definition covers :: "place set \<Rightarrow> int \<Rightarrow> int \<Rightarrow> bool" where
  "covers Q off k \<longleftrightarrow> (\<forall>x. off \<le> x \<longrightarrow> x < off + k \<longrightarrow> (\<exists>q. bmap_path (x div 512) = Some q \<and> upto_place q \<subseteq> Q))"

lemma covers_mono: "covers Q off k \<Longrightarrow> off \<le> off' \<Longrightarrow> off' + k' \<le> off + k \<Longrightarrow> covers Q off' k'"
  by (auto simp: covers_def)

lemma rewritten_trans:
  assumes "rewritten ip m a j off s t" "rewritten ip m (a + j) k (off + int j) t u" "k \<noteq> 0 \<or> j = 0"
  shows "rewritten ip m a (j + k) off s u"
proof -
  have "file_byte (view u) (i_addr (v7_inode u ip)) x
    = (if off \<le> x \<and> x < off + int (j + k) then m (a + nat (x - off)) else file_byte (view s) (i_addr (v7_inode s ip)) x)"
    if x: "bmap_path (x div 512) \<noteq> None" for x
  proof -
    have t: "file_byte (view t) (i_addr (v7_inode t ip)) x
      = (if off \<le> x \<and> x < off + int j then m (a + nat (x - off)) else file_byte (view s) (i_addr (v7_inode s ip)) x)"
      using assms(1) x by (simp add: rewritten_def)
    have u: "file_byte (view u) (i_addr (v7_inode u ip)) x
      = (if off + int j \<le> x \<and> x < off + int j + int k then m (a + j + nat (x - (off + int j))) else file_byte (view t) (i_addr (v7_inode t ip)) x)"
      using assms(2) x by (simp add: rewritten_def)
    show ?thesis
    proof (cases "off + int j \<le> x")
      case True
      then have e: "a + j + nat (x - (off + int j)) = a + nat (x - off)" by linarith
      show ?thesis using True t u unfolding e by (simp add: add.assoc)
    qed (use t u in auto)
  qed
  then show ?thesis using assms by (auto simp: rewritten_def)
qed

lemma wrote_trans:
  assumes "wrote ip a j xs ys s t" "wrote ip (a + j) k ys zs t u" "k \<noteq> 0"
  shows "wrote ip a (j + k) xs zs s u"
proof -
  have "rewritten ip (h_umem (host s)) a j (u_offset (v7_u s)) s t" "rewritten ip (h_umem (host s)) (a + j) k (u_offset (v7_u s) + int j) t u"
    using assms(1,2) by (simp_all add: wrote_def)
  then have "rewritten ip (h_umem (host s)) a (j + k) (u_offset (v7_u s)) s u" using rewritten_trans assms(3) by blast
  moreover have "within ip xs zs s u" using assms within_trans by (auto simp: wrote_def)
  ultimately show ?thesis using assms by (simp add: wrote_def add.assoc)
qed

lemma writei_loop_ok:
  assumes "file_inv fp ip Q xs s" "type = IFREG \<or> type = IFDIR" "uerror s = 0" "u_base (v7_u s) = Umem a" "u_offset (v7_u s) = off"
    "u_count (v7_u s) = cnt" "0 \<le> off" "0 < cnt" "cnt < 65536" "off + cnt < 2147483648" "covers Q off cnt"
  shows "\<exists>t ys. writei_loop ip dev type s = Some t \<and> wrote ip a (nat cnt) xs ys s t \<and> file_inv fp ip Q ys t"
  using assms
proof (induction "nat cnt" arbitrary: s a off cnt dev xs rule: less_induct)
  case less
  note u = less.prems(3-6) and r = less.prems(7-10)
  define n where "n = min (512 - off mod 512) cnt"
  have m: "0 < 512 - off mod 512" using pos_mod_bound [of 512 off] by simp
  have n: "1 \<le> n" "n \<le> cnt" using r m by (auto simp: n_def)
  obtain q where q: "bmap_path (off div 512) = Some q" "upto_place q \<subseteq> Q" using less.prems(11) r by (auto simp: covers_def)
  obtain t ys where t: "writei_loop ip dev type s = (if cnt - n \<noteq> 0 then writei_loop ip 0 type t else Some t)"
    "wrote ip a (nat n) xs ys s t" "file_inv fp ip Q ys t" using writei_round [OF less.prems(1,2) u r q n_def, of dev] by blast
  show ?case
  proof (cases "cnt - n = 0")
    case True
    then show ?thesis using t by auto
  next
    case False
    have vu: "v7_u t = (v7_u s)\<lparr>u_base := Umem (a + nat n), u_offset := off + n, u_count := cnt - n\<rparr>"
      using t(2) n u by (simp add: wrote_def)
    have "covers Q (off + n) (cnt - n)" by (rule covers_mono [OF less.prems(11)]) (use n in simp_all)
    then obtain v zs where v: "writei_loop ip 0 type t = Some v" "wrote ip (a + nat n) (nat (cnt - n)) ys zs t v" "file_inv fp ip Q zs v"
      using less.hyps [OF _ t(3) less.prems(2), of "cnt - n" "a + nat n" "off + n" 0] vu u r n False by auto
    have "nat n + nat (cnt - n) = nat cnt" using n by linarith
    then show ?thesis using t(1) v(1,3) False wrote_trans [OF t(2) v(2)] n by auto
  qed
qed

lemma wrote_0: "u_base (v7_u s) = Umem a \<Longrightarrow> wrote ip a 0 xs xs s s"
  by (auto simp: wrote_def rewritten_def within_refl)

lemma writei_ok:
  assumes "file_inv fp ip Q xs s" "i_mode (v7_inode s ip) AND IFMT = IFREG \<or> i_mode (v7_inode s ip) AND IFMT = IFDIR"
    "uerror s = 0" "u_base (v7_u s) = Umem a" "u_offset (v7_u s) = off" "u_count (v7_u s) = cnt"
    "0 \<le> off" "0 \<le> cnt" "cnt < 65536" "off + cnt < 2147483648" "covers Q off cnt"
  shows "\<exists>t ys. writei ip s = Some t \<and> wrote ip a (nat cnt) xs ys s t \<and> file_inv fp ip Q ys t"
proof -
  have ty: "i_mode (v7_inode s ip) AND IFMT \<noteq> IFCHR" "i_mode (v7_inode s ip) AND IFMT \<noteq> IFMPC" using assms(2) by auto
  show ?thesis
  proof (cases "cnt = 0")
    case True
    then have "writei ip s = Some s" using assms(5-7) ty by (simp add: writei_def Let_def)
    then show ?thesis using True assms(1) wrote_0 [OF assms(4)] by auto
  next
    case False
    then show ?thesis
      using writei_loop_ok [OF assms(1-7) _ assms(9-11), of "i_rdev (v7_inode s ip)"] assms(5-8) ty by (simp add: writei_def Let_def)
  qed
qed


section \<open>The places of a write\<close>

text \<open>All places on the way to the blocks of a range.\<close>

definition write_places :: "int \<Rightarrow> int \<Rightarrow> place set" where
  "write_places off k = (\<Union>bn \<in> {off div 512 .. (off + k - 1) div 512}. case bmap_path bn of None \<Rightarrow> {} | Some q \<Rightarrow> upto_place q)"

lemma bmap_path_inside: "0 \<le> x \<Longrightarrow> x < 1082201088 \<Longrightarrow> bmap_path (x div 512) \<noteq> None"
proof -
  assume "0 \<le> x" "x < 1082201088"
  then have "0 \<le> x div 512" "x div 512 < 2113674" by linarith+
  then show ?thesis by (simp add: bmap_path_def)
qed

lemma covers_write_places:
  assumes "0 \<le> off" "off + k \<le> 1082201088"
  shows "covers (write_places off k) off k"
  unfolding covers_def
proof (intro allI impI)
  fix x assume x: "off \<le> x" "x < off + k"
  then obtain q where q: "bmap_path (x div 512) = Some q" using bmap_path_inside [of x] assms by auto
  have "off div 512 \<le> x div 512" "x div 512 \<le> (off + k - 1) div 512" using x by (auto intro: zdiv_mono1)
  then have "upto_place q \<subseteq> write_places off k" using q by (force simp: write_places_def)
  then show "\<exists>q. bmap_path (x div 512) = Some q \<and> upto_place q \<subseteq> write_places off k" using q by blast
qed


section \<open>Past the largest file\<close>

text \<open>
  \<open>bmap\<close> returns block 0 with \<open>EFBIG\<close>, and \<open>writei\<close> goes on with it: the buffer of block 0 gets the bytes, and the size of
  the file is set, before the loop ends.
\<close>

lemma writei_efbig:
  assumes ok: "cache_ok s" "room s 0" and i: "i_dev (v7_inode s ip) = 0" "i_size (v7_inode s ip) < off"
      "i_mode (v7_inode s ip) AND IFMT = IFREG \<or> i_mode (v7_inode s ip) AND IFMT = IFDIR"
    and u: "u_base (v7_u s) = Umem a" "u_offset (v7_u s) = off" "u_count (v7_u s) = cnt"
    and r: "1082201088 \<le> off" "0 < cnt" "cnt < 65536" "off + cnt < 2147483648" and n: "n = min (512 - off mod 512) cnt"
  shows "\<exists>t. writei ip s = Some t \<and> uerror t = EFBIG \<and> u_count (v7_u t) = cnt - n \<and> i_size (v7_inode t ip) = off + n
    \<and> (n < 512 \<longrightarrow> (\<exists>p \<in> pool. buf_tag t p = Some 0 \<and> B_DONE \<in> bflags t p \<and> B_BUSY \<notin> bflags t p
        \<and> (\<forall>j < nat n. bdata t p (nat (off mod 512) + j) = h_umem (host s) (a + j))))"
proof -
  let ?on = "nat (off mod 512)" and ?ty = "i_mode (v7_inode s ip) AND IFMT"
  have m: "0 < 512 - off mod 512" "512 - off mod 512 \<le> 512" using pos_mod_bound [of 512 off] pos_mod_sign [of 512 off] by simp_all
  have n1: "1 \<le> n" "n \<le> 512 - off mod 512" "n \<le> cnt" using r m by (auto simp: n)
  have mm: "v7_min (512 - off mod 512) cnt = n" using v7_min_small [of "512 - off mod 512" cnt] m r n by simp
  have "2113674 \<le> off div 512" using r(1) by linarith
  then have "bmap_path (off div 512) = None" by (simp add: bmap_path_def)
  then obtain x where "bmap ip (off div 512) False s = Some (0, set_error EFBIG (s\<lparr>v7_rablock := x\<rparr>))" using bmap_efbig by blast
  then obtain s1 where s1: "bmap ip (off div 512) False s = Some (0, s1)" "s1 = set_error EFBIG (s\<lparr>v7_rablock := x\<rparr>)" by blast
  have S: "same_store s s1" by (simp add: s1(2) same_store_def set_error_def upd_u_def)
  have f1: "v7_inode s1 = v7_inode s" "v7_u s1 = (v7_u s)\<lparr>u_error := EFBIG\<rparr>" "h_umem (host s1) = h_umem (host s)" "v7_buf s1 = v7_buf s"
    by (simp_all add: s1(2) set_error_def upd_u_def)
  note C = same_store_cong [OF S]
  have ok1: "cache_ok s1" "room s1 0" using ok C(1,3) f1(4) by (simp_all add: room_def cached_def split: option.splits)
  obtain p s2 where s2: "(if n = 512 then getblk 0 0 s1 else bread 0 0 s1) = Some (p, s2)" "taken s1 p s2" "buf_tag s2 p = Some 0"
    "n \<noteq> 512 \<longrightarrow> B_DONE \<in> bflags s2 p"
    using getblk_spec [OF ok1] bread_spec [OF ok1] by (cases "n = 512") (auto simp: buf_tag_def)
  have fr: "io_frame s1 s2" "p \<in> pool" "B_ERROR \<notin> bflags s2 p" using s2(2) by (simp_all add: taken_def undisturbed_def)
  note F = io_frame_fields [OF fr(1)]
  let ?x = "iomove p ?on (nat n) False s2" and ?g = "\<lambda>d. copy_bytes (nat n) ?on d a (h_umem (host s))"
  have ub: "u_base (v7_u s2) = Umem a" using F(1) f1(2) u(1) by simp
  have xu: "v7_u ?x = (v7_u s)\<lparr>u_error := EFBIG, u_base := Umem (a + nat n), u_offset := off + n, u_count := cnt - n\<rparr>"
    using iomove_u [OF ub, of p ?on "nat n"] F(1) f1(2) u r n1 by (simp add: s32_id u16_id)
  have xb: "v7_inode ?x = v7_inode s" "bflags ?x p = bflags s2 p" "b_dev (v7_buf ?x p) = b_dev (v7_buf s2 p)" "b_blkno (v7_buf ?x p) = b_blkno (v7_buf s2 p)"
    "bdata ?x p = ?g (bdata s2 p)"
    using ub F(3,15) f1(1,3) by (simp_all add: iomove_def ubase_get_def upd_data_def upd_buf_def upd_u_def Let_def)
  have br: "v7_u (brelse p ?x) = v7_u ?x" "v7_inode (brelse p ?x) = v7_inode ?x"
    using brelse_buf_only [of ?x p] by (auto simp: buf_only_def)
  define t where "t = or_iflag ip {IUPD, ICHG} (upd_inode ip (\<lambda>p. p\<lparr>i_size := off + n\<rparr>) (brelse p ?x))"
  have T: "v7_u t = v7_u ?x" "i_size (v7_inode t ip) = off + n" "v7_buf t = v7_buf (brelse p ?x)"
    using br by (simp_all add: t_def or_iflag_def upd_inode_def)
  have tt: "?ty \<noteq> IFBLK \<and> ?ty \<noteq> IFMPB" "?ty \<noteq> IFCHR" "?ty \<noteq> IFMPC" using i(3) by auto
  have lt: "i_size (v7_inode s ip) < off + n" using i(2) n1 by simp
  have e: "uerror ?x = EFBIG" "u_offset (v7_u ?x) = off + n" "uerror t = EFBIG" using xu T(1) by simp_all
  have run: "writei_loop ip d ty s = Some t" if "ty = IFREG \<or> ty = IFDIR" for d ty
    using that
    by (elim disjE; subst writei_loop.simps) (simp_all add: u(2,3) mm s1(1) s2(1) i(1) f1(1) br xb(1) e lt t_def [symmetric] Let_def)
  have "writei ip s = Some t" using run [OF i(3)] tt u r by (simp add: writei_def Let_def)
  moreover have "\<exists>p \<in> pool. buf_tag t p = Some 0 \<and> B_DONE \<in> bflags t p \<and> B_BUSY \<notin> bflags t p
      \<and> (\<forall>j < nat n. bdata t p (?on + j) = h_umem (host s) (a + j))" if "n < 512"
  proof (intro bexI [of _ p] conjI)
    note B = brelse_fields [OF fr(2), where s = ?x]
    show "buf_tag t p = Some 0" using s2(3) B(2,3) T(3) xb fr(3) by (simp add: buf_tag_def split: if_splits)
    show "B_DONE \<in> bflags t p" "B_BUSY \<notin> bflags t p" using s2(4) that B(1) T(3) xb(2) by simp_all
    show "\<forall>j < nat n. bdata t p (?on + j) = h_umem (host s) (a + j)" using B(4) T(3) xb(5) by (simp add: copy_bytes_def)
  qed (rule fr(2))
  ultimately show ?thesis using T xu by auto
qed

end
