(* ===== verification/Fio.thy ===== *)
theory Fio
  imports Rdwri
begin

text \<open>
  \<open>sys/fio.c\<close>: file descriptors, permissions, and opening and closing of special files. The
  character device switch is empty, the block device switch has one row whose \<open>d_open\<close> and
  \<open>d_close\<close> do nothing; a call through any other row has no result. \<open>owner\<close> follows
  \<open>namei\<close> in \<open>Nami\<close>.
\<close>

definition getf :: "int \<Rightarrow> kernel \<Rightarrow> nat option \<times> kernel" where
  "getf f s =
     (case (if 0 \<le> f \<and> f < int NOFILE then u_ofile (v7_u s) (nat f) else None) of
        Some fp \<Rightarrow> (Some fp, s)
      | None \<Rightarrow> (None, set_error EBADF s))"

text \<open>\<open>bdevsw[major(dev)].d_close\<close> and \<open>.d_open\<close>.\<close>

definition bdev_call :: "int \<Rightarrow> kernel \<Rightarrow> kernel option" where
  "bdev_call dev s = do { _ \<leftarrow> d_tab (major dev); Some s }"

definition closef :: "nat option \<Rightarrow> kernel \<Rightarrow> kernel option" where
  "closef fpo s =
     (case fpo of
        None \<Rightarrow> Some s
      | Some fp \<Rightarrow>
          let f = v7_file s fp in
          if f_count f > 1 then Some (upd_file fp (\<lambda>f. f\<lparr>f_count := s8 (f_count f - 1)\<rparr>) s)
          else do {
            let ip = f_inode f;
            let flag = f_flag f;
            let dev = i_rdev (v7_inode s ip);
            let mode = i_mode (v7_inode s ip);
            let s = upd_file fp (\<lambda>f. f\<lparr>f_count := 0\<rparr>) s;
            let s = (if FPIPE \<in> flag then
                upd_inode ip (\<lambda>p. p\<lparr>i_mode := i_mode p AND NOT (IREAD OR IWRITE)\<rparr>) s else s);
            s \<leftarrow> iput ip s;
            let ty = mode AND IFMT;
            let busy = (FMPX \<notin> flag \<and> FMPY \<notin> flag
              \<and> list_ex (\<lambda>j. f_count (v7_file s j) \<noteq> 0 \<and> f_inode (v7_file s j) = ip) [0..<NFILE]);
            if ty = IFCHR \<or> ty = IFMPC then (if busy then Some s else None)
            else if ty = IFBLK \<or> ty = IFMPB then (if busy then Some s else bdev_call dev s)
            else Some s })"

definition openi :: "nat \<Rightarrow> bool \<Rightarrow> kernel \<Rightarrow> kernel option" where
  "openi ip rw s =
     (let dev = i_rdev (v7_inode s ip);
          maj = u16 (major dev);
          ty = i_mode (v7_inode s ip) AND IFMT
      in if ty = IFCHR \<or> ty = IFMPC then
           (if maj \<ge> v7_nchrdev s then Some (set_error ENXIO s) else None)
         else if ty = IFBLK \<or> ty = IFMPB then
           (if maj \<ge> v7_nblkdev s then Some (set_error ENXIO s) else bdev_call dev s)
         else Some s)"

text \<open>\<open>access\<close>: true where the access is refused. \<open>xrele\<close> does nothing.\<close>

definition access :: "nat \<Rightarrow> int \<Rightarrow> kernel \<Rightarrow> (bool \<times> kernel) option" where
  "access ip mode s = do {
     (r, s) \<leftarrow>
       (if mode = IWRITE then do {
          (fp, s) \<leftarrow> getfs (i_dev (v7_inode s ip)) s;
          if s_ronly (bdata s fp) \<noteq> 0 then Some (True, set_error EROFS s)
          else if ITEXT \<in> i_flag (v7_inode s ip) then Some (True, set_error ETXTBSY s)
          else Some (False, s) }
        else Some (False, s));
     if r then Some (True, s)
     else if u_uid (v7_u s) = 0 then Some (False, s)
     else
       let m = (if u_uid (v7_u s) \<noteq> i_uid (v7_inode s ip) then
            (if u_gid (v7_u s) \<noteq> i_gid (v7_inode s ip) then mode div 8 div 8 else mode div 8)
          else mode)
       in if i_mode (v7_inode s ip) AND m \<noteq> 0 then Some (False, s)
          else Some (True, set_error EACCES s) }"

definition suser :: "kernel \<Rightarrow> bool \<times> kernel" where
  "suser s =
     (if u_uid (v7_u s) = 0 then (True, upd_u (\<lambda>u. u\<lparr>u_acflag := True\<rparr>) s)
      else (False, set_error EPERM s))"

definition ufalloc :: "kernel \<Rightarrow> nat option \<times> kernel" where
  "ufalloc s =
     (case find (\<lambda>i. u_ofile (v7_u s) i = None) [0..<NOFILE] of
        Some i \<Rightarrow> (Some i, upd_u (\<lambda>u. u\<lparr>r_val1 := int i, u_pofile := (u_pofile u)(i := 0)\<rparr>) s)
      | None \<Rightarrow> (None, set_error EMFILE s))"

definition falloc :: "kernel \<Rightarrow> nat option \<times> kernel" where
  "falloc s =
     (case ufalloc s of
        (None, s) \<Rightarrow> (None, s)
      | (Some i, s) \<Rightarrow>
          (case find (\<lambda>j. f_count (v7_file s j) = 0) [0..<NFILE] of
             Some fp \<Rightarrow>
               (Some fp, upd_file fp (\<lambda>f. f\<lparr>f_count := s8 (f_count f + 1), f_offset := 0\<rparr>)
                  (upd_u (\<lambda>u. u\<lparr>u_ofile := (u_ofile u)(i \<mapsto> fp)\<rparr>) s))
           | None \<Rightarrow> (None, set_error ENFILE (v7_printf ''no file'' s))))"

end
