(* ===== verification/Nami.thy ===== *)
theory Nami
  imports Fio
begin

text \<open>
  \<open>sys/nami.c\<close>: the walk along a path name, with \<open>schar\<close> and \<open>uchar\<close> of \<open>v7adapt.c\<close>, and
  \<open>owner\<close> of \<open>sys/fio.c\<close>. The character function is an argument, as in the code. \<open>mpxip\<close> is
  the null pointer throughout, so the two tests on it have no trace.
\<close>

section \<open>Characters of the path\<close>

definition next_char :: "kernel \<Rightarrow> int \<times> kernel" where
  "next_char s =
     (case u_dirp (v7_u s) of
        Some (c # cs) \<Rightarrow>
          if c \<noteq> CHR 0x00 then (s8 (of_char c), upd_u (\<lambda>u. u\<lparr>u_dirp := Some cs\<rparr>) s)
          else (0, upd_u (\<lambda>u. u\<lparr>u_dirp := None\<rparr>) s)
      | _ \<Rightarrow> (0, upd_u (\<lambda>u. u\<lparr>u_dirp := None\<rparr>) s))"

definition schar :: "kernel \<Rightarrow> int \<times> kernel" where "schar = next_char"

definition uchar :: "kernel \<Rightarrow> int \<times> kernel" where "uchar = next_char"

abbreviation "SLASH \<equiv> 47 :: int"

text \<open>The loop that skips slashes; the character is kept in a \<open>uint16_t\<close>.\<close>

partial_function (option) skip_slashes :: "(kernel \<Rightarrow> int \<times> kernel) \<Rightarrow> int \<Rightarrow> kernel \<Rightarrow> (int \<times> kernel) option" where
  "skip_slashes func c s =
     (if c = SLASH then skip_slashes func (u16 (fst (func s))) (snd (func s)) else Some (c, s))"

text \<open>The loop that gathers a component into \<open>u_dbuf\<close>; \<open>k\<close> is \<open>cp - u_dbuf\<close>.\<close>

partial_function (option) gather :: "(kernel \<Rightarrow> int \<times> kernel) \<Rightarrow> int \<Rightarrow> nat \<Rightarrow> kernel \<Rightarrow> (int \<times> nat \<times> kernel) option" where
  "gather func c k s =
     (if c \<noteq> SLASH \<and> c \<noteq> 0 \<and> uerror s = 0 then
        let s = (if k < DIRSIZ then upd_u (\<lambda>u. u\<lparr>u_dbuf := (u_dbuf u)(k := word_of_int c)\<rparr>) s else s)
        in gather func (u16 (fst (func s))) (if k < DIRSIZ then k + 1 else k) (snd (func s))
      else Some (c, k, s))"

definition pad_dbuf :: "nat \<Rightarrow> kernel \<Rightarrow> kernel" where
  "pad_dbuf k = upd_u (\<lambda>u. u\<lparr>u_dbuf := (\<lambda>i. if k \<le> i \<and> i < DIRSIZ then 0 else u_dbuf u i)\<rparr>)"


section \<open>The search of one directory\<close>

text \<open>
  How a search ends: at \<open>out\<close>, with a return of \<open>NULL\<close> and \<open>u_pdir\<close> set for a creation, or
  with a match, whose entry is in \<open>u_dent\<close>.
\<close>

datatype nsearch = N_out | N_create | N_found "bufp option"

definition release :: "bufp option \<Rightarrow> kernel \<Rightarrow> kernel" where
  "release bp s = (case bp of Some b \<Rightarrow> brelse b s | None \<Rightarrow> s)"

definition search_end :: "nat \<Rightarrow> int \<Rightarrow> int \<Rightarrow> int \<Rightarrow> kernel \<Rightarrow> (nsearch \<times> kernel) option" where
  "search_end dp flag c eo s =
     (if flag = 1 \<and> c = 0 then do {
        (refused, s) \<leftarrow> access dp IWRITE s;
        if refused then Some (N_out, s)
        else
          let s = upd_u (\<lambda>u. u\<lparr>u_pdir := Some dp\<rparr>) s in
          Some (N_create, if eo \<noteq> 0 then upd_u (\<lambda>u. u\<lparr>u_offset := s32 (eo - int DIRECTSZ)\<rparr>) s
                          else or_iflag dp {IUPD, ICHG} s) }
      else Some (N_out, set_error ENOENT s))"

text \<open>The block of the directory at a block boundary: \<open>None\<close> after a read error.\<close>

definition search_block :: "nat \<Rightarrow> bufp option \<Rightarrow> kernel \<Rightarrow> (bufp option option \<times> kernel) option" where
  "search_block dp bp s =
     (if u_offset (v7_u s) mod int BSIZE = 0 then do {
        let s = release bp s;
        (bn, s) \<leftarrow> bmap dp (u_offset (v7_u s) div int BSIZE) True s;
        (b, s) \<leftarrow> bread (i_dev (v7_inode s dp)) bn s;
        if B_ERROR \<in> bflags s b then Some (None, brelse b s) else Some (Some (Some b), s) }
      else Some (Some bp, s))"

definition name_eq :: "kernel \<Rightarrow> bool" where
  "name_eq s = list_all (\<lambda>i. u_dbuf (v7_u s) i = d_name (u_dent (v7_u s)) i) [0..<DIRSIZ]"

partial_function (option) eloop :: "nat \<Rightarrow> int \<Rightarrow> int \<Rightarrow> int \<Rightarrow> bufp option \<Rightarrow> kernel \<Rightarrow> (nsearch \<times> kernel) option" where
  "eloop dp flag c eo bp s =
     (if u_offset (v7_u s) \<ge> i_size (v7_inode s dp) then search_end dp flag c eo (release bp s)
      else Option.bind (search_block dp bp s) (\<lambda>(r, s).
        case r of
          None \<Rightarrow> Some (N_out, s)
        | Some bp \<Rightarrow>
            Option.bind bp (\<lambda>b.
              let off = nat (u_offset (v7_u s) mod int BSIZE);
                  s = upd_u (\<lambda>u. u\<lparr>u_dent := copy_bytes DIRECTSZ 0 (u_dent u) off (bdata s b)\<rparr>) s;
                  s = upd_u (\<lambda>u. u\<lparr>u_offset := s32 (u_offset u + int DIRECTSZ)\<rparr>) s
              in if d_ino (u_dent (v7_u s)) = 0 then
                   eloop dp flag c (if eo = 0 then u_offset (v7_u s) else eo) bp s
                 else if name_eq s then Some (N_found bp, s)
                 else eloop dp flag c eo bp s)))"


section \<open>The walk\<close>

datatype nlabel = Cloop | Seloop

text \<open>From \<open>cloop\<close> to \<open>seloop\<close>: return \<open>dp\<close>, go to \<open>out\<close>, or search for the component.\<close>

datatype cstep = C_return | C_out | C_search int

definition namei_comp :: "(kernel \<Rightarrow> int \<times> kernel) \<Rightarrow> int \<Rightarrow> kernel \<Rightarrow> (cstep \<times> kernel) option" where
  "namei_comp func c s =
     (if uerror s \<noteq> 0 then Some (C_out, s)
      else if c = 0 then Some (C_return, s)
      else do {
        (c, k, s) \<leftarrow> gather func c 0 s;
        (c, s) \<leftarrow> skip_slashes func c (pad_dbuf k s);
        Some (C_search c, s) })"

text \<open>
  From \<open>seloop\<close> on: \<open>Inl\<close> the value returned (\<open>None\<close> with \<open>dp\<close> still to be put where the
  code goes to \<open>out\<close>), \<open>Inr\<close> the label and the inode the walk goes on with.
\<close>

definition namei_search :: "int \<Rightarrow> nat \<Rightarrow> int \<Rightarrow> kernel
    \<Rightarrow> ((nat option + (nlabel \<times> nat)) \<times> kernel) option" where
  "namei_search flag dp c s = do {
     let s = (if i_mode (v7_inode s dp) AND IFMT \<noteq> IFDIR then set_error ENOTDIR s else s);
     (_, s) \<leftarrow> access dp IEXEC s;
     if uerror s \<noteq> 0 then do { s \<leftarrow> iput dp s; Some (Inl None, s) }
     else do {
       let s = upd_u (\<lambda>u. u\<lparr>u_offset := 0, u_segflg := 1\<rparr>) s;
       (r, s) \<leftarrow> eloop dp flag c 0 None s;
       case r of
         N_out \<Rightarrow> do { s \<leftarrow> iput dp s; Some (Inl None, s) }
       | N_create \<Rightarrow> Some (Inl None, s)
       | N_found bp \<Rightarrow> do {
           let s = release bp s;
           if flag = 2 \<and> c = 0 then do {
             (refused, s) \<leftarrow> access dp IWRITE s;
             if refused then do { s \<leftarrow> iput dp s; Some (Inl None, s) }
             else Some (Inl (Some dp), s) }
           else do {
             let d = i_dev (v7_inode s dp);
             let up = (if wswap_int16 (d_ino (u_dent (v7_u s))) = ROOTINO
                  \<and> i_number (v7_inode s dp) = ROOTINO \<and> d_name (u_dent (v7_u s)) 1 = 46
                then find (\<lambda>m. m_bufp (v7_mount s m) \<noteq> None \<and> m_dev (v7_mount s m) = d) [1..<NMOUNT]
                else None);
             s \<leftarrow> iput dp s;
             case up of
               Some m \<Rightarrow> do {
                 ip \<leftarrow> m_inodp (v7_mount s m);
                 Some (Inr (Seloop, ip), upd_inode ip (\<lambda>p. p\<lparr>i_count := s8 (i_count p + 1)\<rparr>) s) }
             | None \<Rightarrow> do {
                 (r, s) \<leftarrow> iget d (u16 (wswap_int16 (d_ino (u_dent (v7_u s))))) s;
                 case r of
                   None \<Rightarrow> Some (Inl None, s)
                 | Some ip \<Rightarrow> Some (Inr (Cloop, ip), s) } } } } }"

partial_function (option) namei_loop :: "(kernel \<Rightarrow> int \<times> kernel) \<Rightarrow> int \<Rightarrow> nlabel \<Rightarrow> nat \<Rightarrow> int \<Rightarrow> kernel
    \<Rightarrow> (nat option \<times> kernel) option" where
  "namei_loop func flag lab dp c s =
     Option.bind (if lab = Cloop then namei_comp func c s else Some (C_search c, s)) (\<lambda>(r, s).
       case r of
         C_return \<Rightarrow> Some (Some dp, s)
       | C_out \<Rightarrow> Option.bind (iput dp s) (\<lambda>s. Some (None, s))
       | C_search c \<Rightarrow>
           Option.bind (namei_search flag dp c s) (\<lambda>(q, s).
             case q of
               Inl res \<Rightarrow> Some (res, s)
             | Inr (lab, dp) \<Rightarrow> namei_loop func flag lab dp c s))"

text \<open>The start of the walk: the inode it begins with is referenced and locked by \<open>iget\<close>.\<close>

definition namei :: "(kernel \<Rightarrow> int \<times> kernel) \<Rightarrow> int \<Rightarrow> kernel \<Rightarrow> (nat option \<times> kernel) option" where
  "namei func flag s = do {
     let dp0 = u_cdir (v7_u s);
     let (c, s) = func s;
     let c = u16 c;
     dp \<leftarrow> (if c = SLASH then
              (case u_rdir (v7_u s) of Some d \<Rightarrow> Some d | None \<Rightarrow> v7_rootdir s)
            else dp0);
     (_, s) \<leftarrow> iget (i_dev (v7_inode s dp)) (i_number (v7_inode s dp)) s;
     (c, s) \<leftarrow> skip_slashes func c s;
     let s = (if c = 0 \<and> flag \<noteq> 0 then set_error ENOENT s else s);
     namei_loop func flag Cloop dp c s }"

definition owner :: "kernel \<Rightarrow> (nat option \<times> kernel) option" where
  "owner s = do {
     (r, s) \<leftarrow> namei uchar 0 s;
     case r of
       None \<Rightarrow> Some (None, s)
     | Some ip \<Rightarrow>
         if u_uid (v7_u s) = i_uid (v7_inode s ip) then Some (Some ip, s)
         else case suser s of
           (True, s) \<Rightarrow> Some (Some ip, s)
         | (False, s) \<Rightarrow> do { s \<leftarrow> iput ip s; Some (None, s) } }"

end
