(* ===== verification/Sys.thy ===== *)
theory Sys
  imports Nami
begin

text \<open>
  The system calls of \<open>sys/sys2.c\<close>, \<open>sys/sys3.c\<close> and \<open>sys/sys4.c\<close>, with \<open>maknode\<close> and
  \<open>wdir\<close> of \<open>sys/iget.c\<close> and \<open>iinit\<close> of \<open>sys/main.c\<close>. What a call finds through
  \<open>u.u_ap\<close> is its argument here.
\<close>

section \<open>Directory entries\<close>

definition wdir :: "nat \<Rightarrow> kernel \<Rightarrow> kernel option" where
  "wdir ip s = do {
     pd \<leftarrow> u_pdir (v7_u s);
     s \<leftarrow>
       (if i_nlink (v7_inode s pd) \<le> 0 then Some (set_error ENOTDIR s)
        else do {
          let s = upd_u (\<lambda>u. u\<lparr>u_dent := set_d_ino (wswap_int16 (i_number (v7_inode s ip))) (u_dent u)\<rparr>) s;
          let s = upd_u (\<lambda>u. u\<lparr>u_dent := copy_bytes DIRSIZ 2 (u_dent u) 0 (u_dbuf u)\<rparr>) s;
          let s = upd_u (\<lambda>u. u\<lparr>u_count := int DIRECTSZ, u_segflg := 1, u_base := Udent 0\<rparr>) s;
          writei pd s });
     pd \<leftarrow> u_pdir (v7_u s);
     iput pd s }"

definition maknode :: "int \<Rightarrow> kernel \<Rightarrow> (nat option \<times> kernel) option" where
  "maknode mode s = do {
     pd \<leftarrow> u_pdir (v7_u s);
     (r, s) \<leftarrow> ialloc (i_dev (v7_inode s pd)) s;
     case r of
       None \<Rightarrow> do { s \<leftarrow> iput pd s; Some (None, s) }
     | Some ip \<Rightarrow> do {
         let s = or_iflag ip {IACC, IUPD, ICHG} s;
         let mode = (if mode AND IFMT = 0 then mode OR IFREG else mode);
         let s = upd_inode ip (\<lambda>p. p\<lparr>i_mode := u16 (mode AND NOT (u_cmask (v7_u s))), i_nlink := 1,
                   i_uid := u_uid (v7_u s), i_gid := u_gid (v7_u s)\<rparr>) s;
         s \<leftarrow> wdir ip s;
         if uerror s \<noteq> 0 then do {
           let s = upd_inode ip (\<lambda>p. p\<lparr>i_nlink := s16 (i_nlink p - 1)\<rparr>) s;
           s \<leftarrow> iput ip s;
           Some (None, s) }
         else Some (Some ip, s) } }"


section \<open>Open files\<close>

datatype rwmode = Rd | Wr

definition mode_flag :: "rwmode \<Rightarrow> fflag" where
  "mode_flag m = (case m of Rd \<Rightarrow> FREAD | Wr \<Rightarrow> FWRITE)"

definition rdwr :: "rwmode \<Rightarrow> int \<Rightarrow> ubase \<Rightarrow> int \<Rightarrow> kernel \<Rightarrow> kernel option" where
  "rdwr mode fdes cbuf count s =
     (case getf fdes s of
        (None, s) \<Rightarrow> Some s
      | (Some fp, s) \<Rightarrow>
          if mode_flag mode \<notin> f_flag (v7_file s fp) then Some (set_error EBADF s)
          else do {
            let s = upd_u (\<lambda>u. u\<lparr>u_base := cbuf, u_count := count, u_segflg := 0\<rparr>) s;
            let fl = f_flag (v7_file s fp);
            let fmp = (FMPX \<in> fl \<or> FMPY \<in> fl);
            s \<leftarrow> (if FPIPE \<in> fl then Some s
              else do {
                let ip = f_inode (v7_file s fp);
                let s = upd_u (\<lambda>u. u\<lparr>u_offset := (if fmp then 0 else f_offset (v7_file s fp))\<rparr>) s;
                s \<leftarrow> (case mode of Rd \<Rightarrow> readi ip s | Wr \<Rightarrow> writei ip s);
                let s = (if i_mode (v7_inode s ip) AND (IFCHR AND IFBLK) = 0 then prele ip s else s);
                Some (if fmp then s
                  else upd_file fp (\<lambda>f. f\<lparr>f_offset := s32 (f_offset f + (count - u_count (v7_u s)))\<rparr>) s) });
            Some (upd_u (\<lambda>u. u\<lparr>r_val1 := s16 (count - u_count u)\<rparr>) s) })"

text \<open>\<open>open1\<close>; \<open>trf\<close> is 1 to truncate and 2 after a creation.\<close>

definition open1 :: "nat \<Rightarrow> fflag set \<Rightarrow> int \<Rightarrow> kernel \<Rightarrow> kernel option" where
  "open1 ip mode trf s = do {
     s \<leftarrow> (if trf \<noteq> 2 then do {
         (_, s) \<leftarrow> (if FREAD \<in> mode then access ip IREAD s else Some (False, s));
         if FWRITE \<in> mode then do {
           (_, s) \<leftarrow> access ip IWRITE s;
           Some (if i_mode (v7_inode s ip) AND IFMT = IFDIR then set_error EISDIR s else s) }
         else Some s }
       else Some s);
     if uerror s \<noteq> 0 then iput ip s
     else do {
       s \<leftarrow> (if trf = 1 then itrunc ip s else Some s);
       case falloc (prele ip s) of
         (None, s) \<Rightarrow> iput ip s
       | (Some fp, s) \<Rightarrow> do {
           let s = upd_file fp (\<lambda>f. f\<lparr>f_flag := mode \<inter> {FREAD, FWRITE}, f_inode := ip\<rparr>) s;
           let i = nat (r_val1 (v7_u s));
           s \<leftarrow> openi ip (FWRITE \<in> mode) s;
           if uerror s = 0 then Some s
           else do {
             let s = upd_u (\<lambda>u. u\<lparr>u_ofile := (u_ofile u)(i := None)\<rparr>) s;
             let s = upd_file fp (\<lambda>f. f\<lparr>f_count := s8 (f_count f - 1)\<rparr>) s;
             iput ip s } } } }"

definition close :: "int \<Rightarrow> kernel \<Rightarrow> kernel option" where
  "close fdes s =
     (case getf fdes s of
        (None, s) \<Rightarrow> Some s
      | (Some fp, s) \<Rightarrow>
          closef (Some fp) (upd_u (\<lambda>u. u\<lparr>u_ofile := (u_ofile u)(nat fdes := None)\<rparr>) s))"


section \<open>Links\<close>

definition link :: "string \<Rightarrow> kernel \<Rightarrow> kernel option" where
  "link linkname s = do {
     (r, s) \<leftarrow> namei uchar 0 s;
     case r of
       None \<Rightarrow> Some s
     | Some ip \<Rightarrow> do {
         let (ok, s) = (if i_mode (v7_inode s ip) AND IFMT = IFDIR then suser s else (True, s));
         if \<not> ok then iput ip s
         else do {
           let s = prele ip s;
           let s = upd_u (\<lambda>u. u\<lparr>u_dirp := Some linkname\<rparr>) s;
           (x, s) \<leftarrow> namei uchar 1 s;
           case x of
             Some xp \<Rightarrow> do {
               s \<leftarrow> iput xp (set_error EEXIST s);
               iput ip s }
           | None \<Rightarrow>
               if uerror s \<noteq> 0 then iput ip s
               else do {
                 pd \<leftarrow> u_pdir (v7_u s);
                 if i_dev (v7_inode s pd) \<noteq> i_dev (v7_inode s ip) then do {
                   s \<leftarrow> iput pd s;
                   iput ip (set_error EXDEV s) }
                 else do {
                   s \<leftarrow> wdir ip s;
                   iput ip (if uerror s = 0 then
                     or_iflag ip {ICHG} (upd_inode ip (\<lambda>p. p\<lparr>i_nlink := s16 (i_nlink p + 1)\<rparr>) s)
                     else s) } } } } }"

definition mknod :: "int \<Rightarrow> int \<Rightarrow> kernel \<Rightarrow> kernel option" where
  "mknod fmode dev s = do {
     let (su, s) = suser s;
     (r, s) \<leftarrow> (if su then namei uchar 1 s else Some (None, s));
     case r of
       Some ip \<Rightarrow> iput ip (set_error EEXIST s)
     | None \<Rightarrow>
         if uerror s \<noteq> 0 then Some s
         else do {
           (q, s) \<leftarrow> maknode fmode s;
           case q of
             None \<Rightarrow> Some s
           | Some ip \<Rightarrow> iput ip (upd_inode ip (\<lambda>p. p\<lparr>i_addr := (i_addr p)(0 := dev)\<rparr>) s) } }"

definition unlink :: "kernel \<Rightarrow> kernel option" where
  "unlink s = do {
     (r, s) \<leftarrow> namei uchar 2 s;
     case r of
       None \<Rightarrow> Some s
     | Some pp \<Rightarrow> do {
         let ino = wswap_int16 (d_ino (u_dent (v7_u s)));
         (q, s) \<leftarrow>
           (if i_number (v7_inode s pp) = ino
            then Some (Some pp, upd_inode pp (\<lambda>p. p\<lparr>i_count := s8 (i_count p + 1)\<rparr>) s)
            else iget (i_dev (v7_inode s pp)) (u16 ino) s);
         case q of
           None \<Rightarrow> iput pp s
         | Some ip \<Rightarrow> do {
             let (ok, s) = (if i_mode (v7_inode s ip) AND IFMT = IFDIR then suser s else (True, s));
             s \<leftarrow>
               (if \<not> ok then Some s
                else if i_dev (v7_inode s ip) \<noteq> i_dev (v7_inode s pp) then Some (set_error EBUSY s)
                else if ITEXT \<in> i_flag (v7_inode s ip) \<and> i_nlink (v7_inode s ip) = 1
                then Some (set_error ETXTBSY s)
                else do {
                  let s = upd_u (\<lambda>u. u\<lparr>u_offset := s32 (u_offset u - int DIRECTSZ), u_base := Udent 0,
                            u_count := int DIRECTSZ, u_dent := set_d_ino 0 (u_dent u)\<rparr>) s;
                  s \<leftarrow> writei pp s;
                  Some (or_iflag ip {ICHG} (upd_inode ip (\<lambda>p. p\<lparr>i_nlink := s16 (i_nlink p - 1)\<rparr>) s)) });
             s \<leftarrow> iput ip s;
             iput pp s } } }"


section \<open>Status and mode\<close>

record v7_stat =
  v7st_dev :: int
  v7st_ino :: int
  v7st_mode :: int
  v7st_nlink :: int
  v7st_uid :: int
  v7st_gid :: int
  v7st_rdev :: int
  v7st_size :: int
  v7st_atime :: int
  v7st_mtime :: int
  v7st_ctime :: int

definition stat1 :: "nat \<Rightarrow> int \<Rightarrow> kernel \<Rightarrow> (v7_stat \<times> kernel) option" where
  "stat1 ip pipeadj s = do {
     s \<leftarrow> iupdat ip Time Time s;
     let i = v7_inode s ip;
     (bp, s) \<leftarrow> bread (i_dev i) (itod (i_number i)) s;
     let a = 64 * itoo (i_number i);
     let ds = \<lparr>v7st_dev = i_dev i, v7st_ino = i_number i, v7st_mode = i_mode i, v7st_nlink = i_nlink i,
        v7st_uid = i_uid i, v7st_gid = i_gid i, v7st_rdev = i_rdev i, v7st_size = s32 (i_size i - pipeadj),
        v7st_atime = wswap_int32 (di_atime (bdata s bp) a),
        v7st_mtime = wswap_int32 (di_mtime (bdata s bp) a),
        v7st_ctime = wswap_int32 (di_ctime (bdata s bp) a)\<rparr>;
     Some (ds, brelse bp s) }"

definition chmod :: "int \<Rightarrow> kernel \<Rightarrow> kernel option" where
  "chmod fmode s = do {
     (r, s) \<leftarrow> owner s;
     case r of
       None \<Rightarrow> Some s
     | Some ip \<Rightarrow>
         iput ip (or_iflag ip {ICHG} (upd_inode ip (\<lambda>p. p\<lparr>i_mode :=
           (i_mode p AND NOT 0xFFF) OR (fmode AND 0xFFF)\<rparr>) s)) }"


section \<open>The root file system\<close>

definition iinit :: "kernel \<Rightarrow> kernel option" where
  "iinit s = do {
     s \<leftarrow> bdev_call (v7_rootdev s) s;
     (bp, s) \<leftarrow> bread (v7_rootdev s) SUPERB s;
     (cp, s) \<leftarrow> geteblk s;
     if uerror s \<noteq> 0 then None
     else do {
       let s = upd_data cp (\<lambda>d. copy_bytes 440 0 d 0 (bdata s bp)) s;
       let s = brelse bp s;
       let s = s\<lparr>v7_mount := (v7_mount s)(0 := (v7_mount s 0)\<lparr>m_bufp := Some cp, m_dev := v7_rootdev s\<rparr>)\<rparr>;
       let s = upd_data cp (set_s_flock 0) s;
       let s = upd_data cp (set_s_ilock 0) s;
       let s = upd_data cp (set_s_ronly 0) s;
       Some (s\<lparr>v7_time := wswap_int32 (s_time (bdata s cp))\<rparr>) } }"

end
