(* ===== verification/V7fs.thy ===== *)
theory V7fs
  imports Sys
begin

text \<open>
  \<open>v7fs.c\<close>: the functions a client of the library calls, but for \<open>v7fs_mkfs\<close>, which is in
  \<open>Mkfs\<close>. Each returns the value the C function returns with the new state; \<open>None\<close> where the
  kernel below it does not return. Host ids are unsigned 32-bit values. The lower layers
  keep the ids of the current user in \<open>v7_u\<close>. \<open>malloc\<close> and \<open>strdup\<close> find memory.
\<close>

section \<open>Shared parts\<close>

abbreviation "NOID \<equiv> 4294967295 :: int"

definition u64 :: "int \<Rightarrow> int" where
  "u64 x = x mod 2 ^ 64"

definition v7fs_maphostuid :: "int \<Rightarrow> kernel \<Rightarrow> int option" where
  "v7fs_maphostuid uid s = do { i \<leftarrow> idmap_tofsid (v7fs_uidmap s) uid; Some (s16 i) }"

definition v7fs_maphostgid :: "int \<Rightarrow> kernel \<Rightarrow> int option" where
  "v7fs_maphostgid gid s = do { i \<leftarrow> idmap_tofsid (v7fs_gidmap s) gid; Some (s16 i) }"

definition v7fs_mapv7uid :: "int \<Rightarrow> kernel \<Rightarrow> int option" where
  "v7fs_mapv7uid v7uid s = idmap_tohostid (v7fs_uidmap s) (u32 v7uid)"

definition v7fs_mapv7gid :: "int \<Rightarrow> kernel \<Rightarrow> int option" where
  "v7fs_mapv7gid v7gid s = idmap_tohostid (v7fs_gidmap s) (u32 v7gid)"

text \<open>The two statements most functions begin with, and the path they look up.\<close>

definition begin_call :: "kernel \<Rightarrow> kernel" where
  "begin_call s = set_error 0 (v7_refreshclock s)"

definition set_dirp :: "string \<Rightarrow> kernel \<Rightarrow> kernel" where
  "set_dirp p = upd_u (\<lambda>u. u\<lparr>u_dirp := Some p\<rparr>)"

definition set_uid :: "int \<Rightarrow> kernel \<Rightarrow> kernel" where
  "set_uid i = upd_u (\<lambda>u. u\<lparr>u_uid := i\<rparr>)"

record hstat =
  st_dev :: int
  st_ino :: int
  st_mode :: int
  st_nlink :: int
  st_uid :: int
  st_gid :: int
  st_rdev :: int
  st_size :: int
  st_blocks :: int
  st_atime :: int
  st_mtime :: int
  st_ctime :: int

definition v7fs_convertstat :: "v7_stat \<Rightarrow> kernel \<Rightarrow> hstat option" where
  "v7fs_convertstat v s = do {
     uid \<leftarrow> v7fs_mapv7uid (v7st_uid v) s;
     gid \<leftarrow> v7fs_mapv7gid (v7st_gid v) s;
     let ty = v7st_mode v AND IFMT;
     let (fmt, rdev) =
       (if ty = IFDIR then (IFDIR, 0)
        else if ty = IFCHR \<or> ty = IFMPC then (IFCHR, u64 (v7st_rdev v))
        else if ty = IFBLK \<or> ty = IFMPB then (IFBLK, u64 (v7st_rdev v))
        else (IFREG, 0));
     Some \<lparr>st_dev = u64 (v7st_dev v), st_ino = v7st_ino v,
       st_mode = fmt OR (v7st_mode v AND 0xFFF), st_nlink = u64 (v7st_nlink v),
       st_uid = uid, st_gid = gid, st_rdev = rdev, st_size = v7st_size v,
       st_blocks = (v7st_size v + 511) div 512,
       st_atime = v7st_atime v, st_mtime = v7st_mtime v, st_ctime = v7st_ctime v\<rparr> }"

definition v7fs_isdirlinkpath :: "string \<Rightarrow> bool" where
  "v7fs_isdirlinkpath pathname =
     (let p = after_last_slash pathname in p = ''.'' \<or> p = ''..'')"


section \<open>Starting and stopping\<close>

definition v7fs_sync :: "kernel \<Rightarrow> (int \<times> kernel) option" where
  "v7fs_sync s = do {
     s \<leftarrow> update (begin_call s);
     let (res, s) = dsk_flush s;
     Some (if uerror s \<noteq> 0 then - uerror s else res, s) }"

definition v7fs_init :: "bool \<Rightarrow> kernel \<Rightarrow> (int \<times> kernel) option" where
  "v7fs_init readonly s =
     (if v7fs_initialized s then Some (- EBUSY, s)
      else do {
        let s = v7_zerocore s;
        let s = s\<lparr>v7_rootdev := makedev 0 0\<rparr>;
        let s = binit (set_error 0 s);
        if uerror s \<noteq> 0 then Some (- uerror s, s)
        else do {
          s \<leftarrow> iinit s;
          if uerror s \<noteq> 0 then Some (- uerror s, s)
          else do {
            (fs, s) \<leftarrow> getfs (v7_rootdev s) s;
            let fsize = wswap_int32 (s_fsize (bdata s fs));
            let s = (if dsk_getsize s = 0 \<or> dsk_getsize s > fsize then dsk_setsize fsize s else s);
            let s = (if readonly then upd_data fs (set_s_ronly 1) s else s);
            (r, s) \<leftarrow> iget (v7_rootdev s) ROOTINO s;
            rd \<leftarrow> r;
            let s = clr_iflag rd {ILOCK} (s\<lparr>v7_rootdir := Some rd\<rparr>);
            (c, s) \<leftarrow> iget (v7_rootdev s) ROOTINO s;
            cd \<leftarrow> c;
            let s = clr_iflag cd {ILOCK} (upd_u (\<lambda>u. u\<lparr>u_cdir := Some cd, u_rdir := None\<rparr>) s);
            Some (0, s\<lparr>v7fs_initialized := True\<rparr>) } } })"

definition v7fs_shutdown :: "kernel \<Rightarrow> (int \<times> kernel) option" where
  "v7fs_shutdown s =
     (if v7fs_initialized s then do {
        (res, s) \<leftarrow> v7fs_sync s;
        Some (res, (v7_zerocore s)\<lparr>v7fs_initialized := False\<rparr>) }
      else Some (0, s))"


section \<open>Files\<close>

definition v7fs_open :: "string \<Rightarrow> oflag set \<Rightarrow> int \<Rightarrow> kernel \<Rightarrow> (int \<times> kernel) option" where
  "v7fs_open name flags mode s = do {
     let s = begin_call s;
     let m = (if O_RDWR \<in> flags then {FREAD, FWRITE}
              else if O_WRONLY \<in> flags then {FWRITE} else {FREAD});
     (r, s) \<leftarrow> namei schar (if O_CREAT \<in> flags then 1 else 0) (set_dirp name s);
     (ret, s) \<leftarrow>
       (case r of
          None \<Rightarrow>
            if O_CREAT \<notin> flags then Some (Some (- uerror s), s)
            else if uerror s \<noteq> 0 then Some (Some (- uerror s), s)
            else do {
              (q, s) \<leftarrow> maknode (mode AND 0xFFF AND NOT ISVTX) s;
              case q of
                None \<Rightarrow> Some (Some (- uerror s), s)
              | Some ip \<Rightarrow> do { s \<leftarrow> open1 ip m 2 s; Some (None, s) } }
        | Some ip \<Rightarrow>
            if O_CREAT \<in> flags \<and> O_EXCL \<in> flags then do {
              s \<leftarrow> iput ip s;
              Some (Some (- EEXIST), s) }
            else do {
              s \<leftarrow> open1 ip m (if O_TRUNC \<in> flags then 1 else 0) s;
              Some (None, s) });
     case ret of
       Some v \<Rightarrow> Some (v, s)
     | None \<Rightarrow> Some (if uerror s \<noteq> 0 then - uerror s else r_val1 (v7_u s), s) }"

definition v7fs_close :: "int \<Rightarrow> kernel \<Rightarrow> (int \<times> kernel) option" where
  "v7fs_close fd s =
     (let s = begin_call s in
      if fd < 0 \<or> fd > 32767 then Some (- EBADF, s)
      else do { s \<leftarrow> close fd s; Some (0, s) })"

datatype whence = SEEK_SET | SEEK_CUR | SEEK_END | SEEK_DATA | SEEK_HOLE | SEEK_other

definition v7fs_seek :: "int \<Rightarrow> int \<Rightarrow> whence \<Rightarrow> kernel \<Rightarrow> int \<times> kernel" where
  "v7fs_seek fd offset wh s =
     (let s = begin_call s in
      if fd < 0 \<or> fd > 32767 then (- EBADF, s)
      else case getf fd s of
        (None, s) \<Rightarrow> (- uerror s, s)
      | (Some fp, s) \<Rightarrow>
          if f_flag (v7_file s fp) \<inter> {FPIPE, FMPX, FMPY} \<noteq> {} then (- ESPIPE, s)
          else
            let curSize = i_size (v7_inode s (f_inode (v7_file s fp)));
                curPos = f_offset (v7_file s fp)
            in case (case wh of
                  SEEK_SET \<Rightarrow> Inr offset
                | SEEK_CUR \<Rightarrow> Inr (offset + curPos)
                | SEEK_END \<Rightarrow> Inr (offset + curSize)
                | SEEK_DATA \<Rightarrow> if offset \<ge> curSize then Inl (- ENXIO) else Inr offset
                | SEEK_HOLE \<Rightarrow> if offset \<ge> curSize then Inl (- ENXIO) else Inr curSize
                | SEEK_other \<Rightarrow> Inl (- EINVAL)) of
                Inl e \<Rightarrow> (e, s)
              | Inr off \<Rightarrow>
                  if off < 0 \<or> off > 2147483647 then (- EINVAL, s)
                  else (off, upd_file fp (\<lambda>f. f\<lparr>f_offset := off\<rparr>) s))"

text \<open>
  The loops of \<open>v7fs_read\<close> and \<open>v7fs_write\<close>: at most 65535 bytes at a time.
\<close>

partial_function (option) v7fs_read_loop :: "int \<Rightarrow> ubase \<Rightarrow> nat \<Rightarrow> int \<Rightarrow> kernel \<Rightarrow> (int \<times> kernel) option" where
  "v7fs_read_loop fd buf count tot s =
     (if count > 0 then
        Option.bind (rdwr Rd (s16 fd) buf (int (min count 65535)) (set_error 0 s)) (\<lambda>s.
          if uerror s \<noteq> 0 then Some (- uerror s, s)
          else let readRes = u16 (r_val1 (v7_u s)) in
            if readRes = 0 then Some (tot, s)
            else v7fs_read_loop fd (ubase_add (nat readRes) buf) (count - nat readRes) (tot + readRes) s)
      else Some (tot, s))"

definition v7fs_read :: "int \<Rightarrow> ubase \<Rightarrow> nat \<Rightarrow> kernel \<Rightarrow> (int \<times> kernel) option" where
  "v7fs_read fd buf count s = v7fs_read_loop fd buf count 0 (v7_refreshclock s)"

definition v7fs_pread :: "int \<Rightarrow> ubase \<Rightarrow> nat \<Rightarrow> int \<Rightarrow> kernel \<Rightarrow> (int \<times> kernel) option" where
  "v7fs_pread fd buf count offset s =
     (case v7fs_seek fd offset SEEK_SET s of (seekRes, s) \<Rightarrow>
        if seekRes < 0 then Some (seekRes, s) else v7fs_read fd buf count s)"

partial_function (option) v7fs_write_loop :: "int \<Rightarrow> ubase \<Rightarrow> nat \<Rightarrow> int \<Rightarrow> kernel \<Rightarrow> (int \<times> kernel) option" where
  "v7fs_write_loop fd buf count tot s =
     (if count > 0 then
        let writeSize = int (min count 65535) in
        Option.bind (rdwr Wr (s16 fd) buf writeSize (set_error 0 s)) (\<lambda>s.
          if uerror s \<noteq> 0 then Some (- uerror s, s)
          else let writeRes = u16 (r_val1 (v7_u s)) in
            if writeRes \<noteq> writeSize then Some (tot + writeRes, s)
            else v7fs_write_loop fd (ubase_add (nat writeRes) buf) (count - nat writeRes) (tot + writeRes) s)
      else Some (tot, s))"

definition v7fs_write :: "int \<Rightarrow> ubase \<Rightarrow> nat \<Rightarrow> kernel \<Rightarrow> (int \<times> kernel) option" where
  "v7fs_write fd buf count s = v7fs_write_loop fd buf count 0 (v7_refreshclock s)"

definition v7fs_pwrite :: "int \<Rightarrow> ubase \<Rightarrow> nat \<Rightarrow> int \<Rightarrow> kernel \<Rightarrow> (int \<times> kernel) option" where
  "v7fs_pwrite fd buf count offset s =
     (case v7fs_seek fd offset SEEK_SET s of (seekRes, s) \<Rightarrow>
        if seekRes < 0 then Some (seekRes, s) else v7fs_write fd buf count s)"

definition v7fs_truncate :: "string \<Rightarrow> int \<Rightarrow> kernel \<Rightarrow> (int \<times> kernel) option" where
  "v7fs_truncate pathname len s = do {
     (r, s) \<leftarrow> namei schar 0 (set_dirp pathname (begin_call s));
     case r of
       None \<Rightarrow> Some (- uerror s, s)
     | Some ip \<Rightarrow> do {
         (res, s) \<leftarrow> (if len = 0 then do { s \<leftarrow> itrunc ip s; Some (- uerror s, s) }
                    else Some (- EINVAL, s));
         s \<leftarrow> iput ip s;
         Some (res, s) } }"


section \<open>Names\<close>

definition v7fs_link :: "string \<Rightarrow> string \<Rightarrow> kernel \<Rightarrow> (int \<times> kernel) option" where
  "v7fs_link oldpath newpath s = do {
     s \<leftarrow> link newpath (set_dirp oldpath (begin_call s));
     Some (- uerror s, s) }"

definition v7fs_unlink :: "string \<Rightarrow> kernel \<Rightarrow> (int \<times> kernel) option" where
  "v7fs_unlink pathname s = do {
     s \<leftarrow> unlink (set_dirp pathname (begin_call s));
     Some (- uerror s, s) }"

text \<open>\<open>v7fs_mknod\<close>; \<open>maj\<close> and \<open>mnr\<close> are what the host's macros extract from \<open>dev\<close>.\<close>

definition v7fs_mknod :: "string \<Rightarrow> int \<Rightarrow> int \<Rightarrow> int \<Rightarrow> kernel \<Rightarrow> (int \<times> kernel) option" where
  "v7fs_mknod pathname mode maj mnr s =
     (let ty = mode AND IFMT;
          (kind, s) =
            (if ty = 0 \<or> ty = IFREG then (Inr (IFREG, 0), s)
             else if ty = IFBLK \<or> ty = IFCHR then
               (case suser s of
                  (False, s) \<Rightarrow> (Inl (- EPERM), s)
                | (True, s) \<Rightarrow> (Inr (if ty = IFBLK then IFBLK else IFCHR,
                    makedev (maj AND 0xFF) (mnr AND 0xFF)), s))
             else (Inl (- EEXIST), s))
      in case kind of
        Inl e \<Rightarrow> Some (e, s)
      | Inr (fmt, fsdev) \<Rightarrow> do {
          let fsmode = s16 (fmt OR (mode AND 0xFFF));
          (r, s) \<leftarrow> namei uchar 1 (set_dirp pathname (begin_call s));
          case r of
            Some ip \<Rightarrow> do { s \<leftarrow> iput ip s; Some (- EEXIST, s) }
          | None \<Rightarrow>
              if uerror s \<noteq> 0 then Some (- uerror s, s)
              else do {
                (q, s) \<leftarrow> maknode fsmode s;
                case q of
                  None \<Rightarrow> Some (- uerror s, s)
                | Some ip \<Rightarrow> do {
                    s \<leftarrow> iput ip (upd_inode ip (\<lambda>p. p\<lparr>i_addr := (i_addr p)(0 := fsdev)\<rparr>) s);
                    Some (- uerror s, s) } } })"

definition v7fs_stat :: "string \<Rightarrow> kernel \<Rightarrow> (int \<times> hstat option \<times> kernel) option" where
  "v7fs_stat pathname s = do {
     (r, s) \<leftarrow> namei schar 0 (set_dirp pathname (begin_call s));
     case r of
       None \<Rightarrow> Some (- uerror s, None, s)
     | Some ip \<Rightarrow> do {
         (v, s) \<leftarrow> stat1 ip 0 s;
         if uerror s \<noteq> 0 then do {
           s \<leftarrow> iput ip s;
           Some (- uerror s, None, s) }
         else do {
           st \<leftarrow> v7fs_convertstat v s;
           s \<leftarrow> iput ip s;
           Some (0, Some st, s) } } }"

definition v7fs_chmod :: "string \<Rightarrow> int \<Rightarrow> kernel \<Rightarrow> (int \<times> kernel) option" where
  "v7fs_chmod pathname mode s = do {
     s \<leftarrow> chmod (s16 (mode AND 0xFFF)) (set_dirp pathname (begin_call s));
     Some (- uerror s, s) }"

definition v7fs_chown :: "string \<Rightarrow> int \<Rightarrow> int \<Rightarrow> kernel \<Rightarrow> (int \<times> kernel) option" where
  "v7fs_chown pathname own grp s = do {
     uid \<leftarrow> v7fs_maphostuid own s;
     gid \<leftarrow> v7fs_maphostgid grp s;
     let v7uid = s8 uid;
     let v7gid = s8 gid;
     (r, s) \<leftarrow> namei uchar 0 (set_dirp pathname (begin_call s));
     case r of
       None \<Rightarrow> Some (- uerror s, s)
     | Some ip \<Rightarrow> do {
         let (res, s) =
           (if own = NOID \<and> grp = NOID then (0, s)
            else
              let (ok, s) = (if own \<noteq> NOID \<and> i_uid (v7_inode s ip) \<noteq> v7uid then suser s else (True, s))
              in if \<not> ok then (- EPERM, s)
                 else
                   let (ok, s) =
                     (if grp \<noteq> NOID \<and> i_gid (v7_inode s ip) \<noteq> v7gid then
                        (let (su, s) = suser s in (su \<or> u_uid (v7_u s) = i_uid (v7_inode s ip), s))
                      else (True, s))
                   in if \<not> ok then (- EPERM, s)
                      else
                        let s = (if own \<noteq> NOID then upd_inode ip (\<lambda>p. p\<lparr>i_uid := v7uid\<rparr>) s else s);
                            s = (if grp \<noteq> NOID then upd_inode ip (\<lambda>p. p\<lparr>i_gid := v7gid\<rparr>) s else s)
                        in (0, or_iflag ip {IACC} s));
         s \<leftarrow> iput ip s;
         Some (res, s) } }"

datatype nsec = UTIME_NOW | UTIME_OMIT | Nsec int

definition utime_val :: "int \<times> nsec \<Rightarrow> kernel \<Rightarrow> int" where
  "utime_val t s = (case t of (sec, Nsec _) \<Rightarrow> s32 sec | _ \<Rightarrow> v7_time s)"

definition v7fs_utimens :: "string \<Rightarrow> ((int \<times> nsec) \<times> (int \<times> nsec)) option \<Rightarrow> kernel
    \<Rightarrow> (int \<times> kernel) option" where
  "v7fs_utimens pathname tms s = do {
     let (t0, t1) = (case tms of None \<Rightarrow> ((0, UTIME_NOW), (0, UTIME_NOW)) | Some t \<Rightarrow> t);
     (r, s) \<leftarrow> namei schar 0 (set_dirp pathname (begin_call s));
     case r of
       None \<Rightarrow> Some (- uerror s, s)
     | Some ip \<Rightarrow> do {
         (res, s) \<leftarrow>
           (if snd t0 = UTIME_OMIT \<and> snd t1 = UTIME_OMIT then Some (0, s)
            else do {
              let setBothNow = (snd t0 = UTIME_NOW \<and> snd t1 = UTIME_NOW);
              let s = set_error (if setBothNow then EACCES else EPERM) s;
              (refused, s) \<leftarrow>
                (if u_uid (v7_u s) \<noteq> 0 \<and> u_uid (v7_u s) \<noteq> i_uid (v7_inode s ip) then
                   (if \<not> setBothNow then Some (True, s) else access ip IWRITE s)
                 else Some (False, s));
              if refused then Some (- uerror s, s)
              else do {
                let s = v7_refreshclock s;
                let atime = utime_val t0 s;
                let mtime = utime_val t1 s;
                let s = (if snd t0 \<noteq> UTIME_OMIT then or_iflag ip {IACC} s else s);
                let s = (if snd t1 \<noteq> UTIME_OMIT then or_iflag ip {IUPD} s else s);
                s \<leftarrow> iupdat ip (TimeVar atime) (TimeVar mtime) (set_error 0 s);
                Some (- uerror s, clr_iflag ip {IACC, IUPD} s) } });
         s \<leftarrow> iput ip s;
         Some (res, s) } }"

datatype amode = R_OK | W_OK | X_OK

definition v7fs_access :: "string \<Rightarrow> amode set \<Rightarrow> kernel \<Rightarrow> (int \<times> kernel) option" where
  "v7fs_access pathname mode s = do {
     (r, s) \<leftarrow> namei schar 0 (set_dirp pathname (begin_call s));
     case r of
       None \<Rightarrow> Some (- uerror s, s)
     | Some ip \<Rightarrow> do {
         (r1, s) \<leftarrow> (if R_OK \<in> mode then access ip IREAD s else Some (False, s));
         let res = (if r1 then - uerror s else 0);
         (r2, s) \<leftarrow> (if W_OK \<in> mode then access ip IWRITE s else Some (False, s));
         let res = (if r2 then - uerror s else res);
         (r3, s) \<leftarrow> (if X_OK \<in> mode then access ip IEXEC s else Some (False, s));
         let res = (if r3 then - uerror s else res);
         s \<leftarrow> iput ip s;
         Some (res, s) } }"

definition v7fs_setreuid :: "int \<Rightarrow> int \<Rightarrow> kernel \<Rightarrow> (int \<times> kernel) option" where
  "v7fs_setreuid ruid euid s = do {
     s \<leftarrow> (if ruid \<noteq> NOID then do { i \<leftarrow> v7fs_maphostuid ruid s; Some (upd_u (\<lambda>u. u\<lparr>u_ruid := i\<rparr>) s) }
          else Some s);
     s \<leftarrow> (if euid \<noteq> NOID then do { i \<leftarrow> v7fs_maphostuid euid s; Some (set_uid i s) } else Some s);
     Some (0, s) }"

definition v7fs_setregid :: "int \<Rightarrow> int \<Rightarrow> kernel \<Rightarrow> (int \<times> kernel) option" where
  "v7fs_setregid rgid egid s = do {
     s \<leftarrow> (if rgid \<noteq> NOID then do { i \<leftarrow> v7fs_maphostgid rgid s; Some (upd_u (\<lambda>u. u\<lparr>u_rgid := i\<rparr>) s) }
          else Some s);
     s \<leftarrow> (if egid \<noteq> NOID then do { i \<leftarrow> v7fs_maphostgid egid s; Some (upd_u (\<lambda>u. u\<lparr>u_gid := i\<rparr>) s) }
          else Some s);
     Some (0, s) }"

definition v7fs_adduidmap :: "bool \<Rightarrow> int \<Rightarrow> int \<Rightarrow> kernel \<Rightarrow> int \<times> kernel" where
  "v7fs_adduidmap mem hostuid fsuid s =
     (let (r, m) = idmap_addidmap mem hostuid fsuid (v7fs_uidmap s) in (r, s\<lparr>v7fs_uidmap := m\<rparr>))"

definition v7fs_addgidmap :: "bool \<Rightarrow> int \<Rightarrow> int \<Rightarrow> kernel \<Rightarrow> int \<times> kernel" where
  "v7fs_addgidmap mem hostgid fsgid s =
     (let (r, m) = idmap_addidmap mem hostgid fsgid (v7fs_gidmap s) in (r, s\<lparr>v7fs_gidmap := m\<rparr>))"

end
