(* ===== verification/File_Read.thy ===== *)
theory File_Read
  imports Readi_Spec V7fs
begin

text \<open>
  Reading through a descriptor: \<open>readi\<close>, \<open>rdwr\<close>, \<open>v7fs_read\<close> and \<open>v7fs_pread\<close> deliver the
  bytes of the file from the position of the descriptor, as many as asked for and the file has.
\<close>

text \<open>What a read leaves of an inode.\<close>

definition same_inode :: "inode \<Rightarrow> inode \<Rightarrow> bool" where
  "same_inode i j \<longleftrightarrow> i_count j = i_count i \<and> i_dev j = i_dev i \<and> i_number j = i_number i \<and> i_mode j = i_mode i
     \<and> i_nlink j = i_nlink i \<and> i_uid j = i_uid i \<and> i_gid j = i_gid i \<and> i_size j = i_size i \<and> i_addr j = i_addr i"

definition is_file :: "inode \<Rightarrow> bool" where
  "is_file i \<longleftrightarrow> i_dev i = 0 \<and> (i_mode i AND IFMT = IFREG \<or> i_mode i AND IFMT = IFDIR) \<and> 0 \<le> i_size i \<and> i_size i < 2147483648"

lemma same_inode_refl [simp]: "same_inode i i"
  by (simp add: same_inode_def)

lemma same_inode_trans: "same_inode i j \<Longrightarrow> same_inode j k \<Longrightarrow> same_inode i k"
  by (simp add: same_inode_def)

lemma filled_0 [simp]: "filled f a 0 off m = m"
  by (rule ext) (auto simp: filled_def)

lemma filled_alike:
  assumes "file_readable s ip off m" "alike s t" "int k \<le> m \<or> k = 0"
  shows "filled (file_byte (view t) (i_addr (v7_inode s ip))) a k off d = filled (file_byte (view s) (i_addr (v7_inode s ip))) a k off d"
proof (rule filled_cong)
  fix x assume "0 \<le> x" "x < int k"
  then have "block_readable s (i_addr (v7_inode s ip)) ((off + x) div 512)" using assms(1,3) by (auto simp: file_readable_def)
  then show "file_byte (view t) (i_addr (v7_inode s ip)) (off + x) = file_byte (view s) (i_addr (v7_inode s ip)) (off + x)"
    by (rule block_readable_alike(2) [OF _ assms(2) refl])
qed

lemma alike_step:
  assumes "cache_ok s" "v7_buf t = v7_buf s" "v7_nblkdev t = v7_nblkdev s" "dsk t = dsk s"
    "h_file (host t) = h_file (host s)" "h_len (host t) = h_len (host s)" "h_fault (host t) = h_fault (host s)"
  shows "alike s t"
proof -
  note C = cache_ok_cong [OF assms(2-7)]
  have "room t c = room s c" for c by (rule room_cong) (use C assms(1) in simp_all)
  then show ?thesis using C assms(1) by (simp add: alike_def)
qed

lemma readi_ok:
  assumes ok: "cache_ok s" and two: "\<And>p. insert p (busy s) \<noteq> pool" and i: "v7_inode s ip = i" "is_file i"
    and u: "uerror s = 0" "u_base (v7_u s) = Umem a" "u_offset (v7_u s) = off" "u_count (v7_u s) = cnt"
    and r: "0 \<le> off" "off < 2147483648" "0 \<le> cnt" "cnt < 65536" "file_readable s ip off (min cnt (i_size i - off))"
    and k: "k = nat (min cnt (i_size i - off))"
  shows "\<exists>t. readi ip s = Some t \<and> alike s t \<and> same_inode i (v7_inode t ip) \<and> (\<forall>j. j \<noteq> ip \<longrightarrow> v7_inode t j = v7_inode s j)
    \<and> v7_file t = v7_file s \<and> v7_mount t = v7_mount s
    \<and> v7_u t = (v7_u s)\<lparr>u_base := Umem (a + k), u_offset := off + int k, u_count := cnt - int k\<rparr>
    \<and> h_umem (host t) = filled (file_byte (view s) (i_addr i)) a k off (h_umem (host s))"
proof (cases "cnt = 0")
  case True
  have "alike s s" using ok by (simp add: alike_def)
  then show ?thesis using True u i(1) k by (simp add: readi_def)
next
  case False
  let ?s = "or_iflag ip {IACC} s" and ?ty = "s16 (i_mode i AND IFMT)"
  have f: "v7_inode ?s ip = i\<lparr>i_flag := insert IACC (i_flag i)\<rparr>" "\<And>j. j \<noteq> ip \<Longrightarrow> v7_inode ?s j = v7_inode s j"
    "v7_u ?s = v7_u s" "v7_file ?s = v7_file s" "v7_mount ?s = v7_mount s" "h_umem (host ?s) = h_umem (host s)"
    using i(1) by (simp_all add: or_iflag_def upd_inode_def)
  have al: "alike s ?s" by (rule alike_step [OF ok]) (simp_all add: or_iflag_def upd_inode_def)
  have ty: "?ty \<noteq> IFCHR" "?ty \<noteq> IFMPC" "?ty \<noteq> IFBLK" "?ty \<noteq> IFMPB" using i(2) by (auto simp: is_file_def s16_def)
  have c: "cache_ok ?s" "\<And>p. insert p (busy ?s) \<noteq> pool" using al two by (simp_all add: alike_def)
  have fr: "file_readable ?s ip off (min cnt (i_size i - off))"
    using r(5) f(1) i(1) block_readable_alike(1) [OF _ al] by (simp add: file_readable_def)
  obtain t where t: "readi_loop ip (i_rdev (v7_inode ?s ip)) ?ty ?s = Some t" "read_to ip a k ?s t"
    using readi_loop_ok [OF c _ _ ty(3,4), of ip "i_size i" a off cnt] f i(2) u r False fr k by (auto simp: is_file_def)
  have fb: "filled (file_byte (view ?s) (i_addr i)) a k off m = filled (file_byte (view s) (i_addr i)) a k off m" for m
    unfolding i(1) [symmetric] by (rule filled_alike [OF r(5) [folded i(1)] al]) (use k i(1) in auto)
  have "readi ip s = Some t" using False u r t(1) f(1) ty by (simp add: readi_def Let_def)
  moreover have "alike s t" using t(2) alike_trans [OF al] by (simp add: read_to_def)
  ultimately show ?thesis using t(2) f u fb by (auto simp: read_to_def same_inode_def)
qed


section \<open>Reading through a descriptor\<close>

text \<open>A descriptor open for reading on a file.\<close>

definition open_for_read :: "kernel \<Rightarrow> int \<Rightarrow> nat \<Rightarrow> nat \<Rightarrow> bool" where
  "open_for_read s fd fp ip \<longleftrightarrow> 0 \<le> fd \<and> fd < int NOFILE \<and> u_ofile (v7_u s) (nat fd) = Some fp
     \<and> FREAD \<in> f_flag (v7_file s fp) \<and> f_flag (v7_file s fp) \<inter> {FPIPE, FMPX, FMPY} = {}
     \<and> f_inode (v7_file s fp) = ip \<and> is_file (v7_inode s ip)"

text \<open>From \<open>s\<close> to \<open>t\<close> the next \<open>k\<close> bytes were read to address \<open>a\<close>.\<close>

definition read_done :: "nat \<Rightarrow> nat \<Rightarrow> nat \<Rightarrow> nat \<Rightarrow> kernel \<Rightarrow> kernel \<Rightarrow> bool" where
  "read_done fp ip a k s t \<longleftrightarrow> alike s t \<and> same_inode (v7_inode s ip) (v7_inode t ip)
     \<and> (\<forall>j. j \<noteq> ip \<longrightarrow> v7_inode t j = v7_inode s j) \<and> v7_mount t = v7_mount s \<and> u_ofile (v7_u t) = u_ofile (v7_u s)
     \<and> v7_file t = (v7_file s)(fp := (v7_file s fp)\<lparr>f_offset := f_offset (v7_file s fp) + int k\<rparr>)
     \<and> h_umem (host t) = filled (file_byte (view s) (i_addr (v7_inode s ip))) a k (f_offset (v7_file s fp)) (h_umem (host s))"

lemma prele_fields:
  "same_inode (v7_inode s ip) (v7_inode (prele ip s) ip)"
  "j \<noteq> ip \<Longrightarrow> v7_inode (prele ip s) j = v7_inode s j" "v7_u (prele ip s) = v7_u s" "v7_file (prele ip s) = v7_file s"
  "v7_mount (prele ip s) = v7_mount s" "host (prele ip s) = host s" "v7_buf (prele ip s) = v7_buf s"
  "v7_nblkdev (prele ip s) = v7_nblkdev s" "dsk (prele ip s) = dsk s"
  by (auto simp: prele_def Let_def clr_iflag_def upd_inode_def same_inode_def)

lemma dev_bit: "is_file i \<Longrightarrow> i_mode i AND (IFCHR AND IFBLK) = 0"
proof -
  assume "is_file i"
  then have m: "i_mode i AND IFMT = IFREG \<or> i_mode i AND IFMT = IFDIR" by (simp add: is_file_def)
  have "IFCHR AND IFBLK = IFMT AND 0x2000" by simp
  then have "i_mode i AND (IFCHR AND IFBLK) = (i_mode i AND IFMT) AND 0x2000" by (simp add: and.assoc)
  then show "i_mode i AND (IFCHR AND IFBLK) = 0" using m by auto
qed

lemma rdwr_read:
  assumes ok: "cache_ok s" and two: "\<And>p. insert p (busy s) \<noteq> pool" and o: "open_for_read s fd fp ip"
    and e: "uerror s = 0" and off: "f_offset (v7_file s fp) = off" "0 \<le> off" "off < 2147483648"
    and c: "0 \<le> cnt" "cnt < 65536" "file_readable s ip off (min cnt (i_size (v7_inode s ip) - off))"
    and k: "k = nat (min cnt (i_size (v7_inode s ip) - off))"
  shows "\<exists>t. rdwr Rd fd (Umem a) cnt s = Some t \<and> read_done fp ip a k s t \<and> uerror t = 0 \<and> r_val1 (v7_u t) = s16 (int k)"
proof -
  let ?i = "v7_inode s ip"
  let ?s = "upd_u (\<lambda>u. u\<lparr>u_base := Umem a, u_count := cnt, u_segflg := 0, u_offset := off\<rparr>) s"
  have f: "v7_u ?s = (v7_u s)\<lparr>u_base := Umem a, u_count := cnt, u_segflg := 0, u_offset := off\<rparr>" "v7_inode ?s = v7_inode s"
    "v7_file ?s = v7_file s" "v7_mount ?s = v7_mount s" "host ?s = host s" by (simp_all add: upd_u_def)
  have al: "alike s ?s" by (rule alike_step [OF ok]) (simp_all add: upd_u_def)
  have cs: "cache_ok ?s" "\<And>p. insert p (busy ?s) \<noteq> pool" using al two by (simp_all add: alike_def)
  have isf: "is_file ?i" using o by (simp add: open_for_read_def)
  have fr: "file_readable ?s ip off (min cnt (i_size ?i - off))"
    using c(3) f(2) block_readable_alike(1) [OF _ al] by (simp add: file_readable_def)
  obtain t where t: "readi ip ?s = Some t" "alike ?s t" "same_inode ?i (v7_inode t ip)" "\<And>j. j \<noteq> ip \<Longrightarrow> v7_inode t j = v7_inode s j"
    "v7_file t = v7_file s" "v7_mount t = v7_mount s"
    "v7_u t = (v7_u ?s)\<lparr>u_base := Umem (a + k), u_offset := off + int k, u_count := cnt - int k\<rparr>"
    "h_umem (host t) = filled (file_byte (view ?s) (i_addr ?i)) a k off (h_umem (host s))"
    using readi_ok [OF cs _ isf, of ip a off cnt k] f e off c fr k by auto
  have vs: "view ?s = view s" by (rule cache_ok_cong; simp add: upd_u_def)
  have ist: "is_file (v7_inode t ip)" using t(3) isf by (simp add: same_inode_def is_file_def)
  have kc: "cnt - (cnt - int k) = int k" "0 \<le> int k" "off + int k < 2147483648"
    using k isf off by (auto simp: is_file_def)
  let ?w = "upd_u (\<lambda>u. u\<lparr>r_val1 := s16 (int k)\<rparr>) (upd_file fp (\<lambda>f. f\<lparr>f_offset := off + int k\<rparr>) (prele ip t))"
  have run: "rdwr Rd fd (Umem a) cnt s = Some ?w"
  proof -
    have "upd_u (\<lambda>u. u\<lparr>u_offset := off\<rparr>) (upd_u (\<lambda>u. u\<lparr>u_base := Umem a, u_count := cnt, u_segflg := 0\<rparr>) s) = ?s"
      by (simp add: upd_u_def)
    moreover have "getf fd s = (Some fp, s)" "FREAD \<in> f_flag (v7_file s fp)" "FPIPE \<notin> f_flag (v7_file s fp)"
      "FMPX \<notin> f_flag (v7_file s fp)" "FMPY \<notin> f_flag (v7_file s fp)" "f_inode (v7_file s fp) = ip"
      using o by (auto simp: getf_def open_for_read_def)
    ultimately show ?thesis
      using off kc t(1,5,7) dev_bit [OF ist]
      by (simp add: rdwr_def mode_flag_def upd_u_def upd_file_def prele_fields s32_id)
  qed
  have "alike t ?w" by (rule alike_step) (use t(2) in \<open>simp_all add: alike_def upd_u_def upd_file_def prele_fields\<close>)
  then have "alike s ?w" using alike_trans [OF alike_trans [OF al t(2)]] by blast
  moreover have "v7_inode ?w = v7_inode (prele ip t)" "v7_mount ?w = v7_mount s" "u_ofile (v7_u ?w) = u_ofile (v7_u s)" "uerror ?w = 0"
    "r_val1 (v7_u ?w) = s16 (int k)" "v7_file ?w = (v7_file s)(fp := (v7_file s fp)\<lparr>f_offset := off + int k\<rparr>)" "host ?w = host t"
    using t(5-7) f(1) e by (simp_all add: upd_u_def upd_file_def prele_fields)
  moreover have "same_inode ?i (v7_inode (prele ip t) ip)" by (rule same_inode_trans [OF t(3) prele_fields(1)])
  ultimately have "read_done fp ip a k s ?w" "uerror ?w = 0" "r_val1 (v7_u ?w) = s16 (int k)"
    using t(4,8) vs off(1) by (simp_all add: read_done_def prele_fields)
  then show ?thesis using run by blast
qed


section \<open>Reading any number of bytes\<close>

lemma read_done_trans:
  assumes "read_done fp ip a j s t" "read_done fp ip (a + j) k t u"
    "file_readable s ip (f_offset (v7_file s fp) + int j) (int k)"
  shows "read_done fp ip a (j + k) s u"
proof -
  let ?off = "f_offset (v7_file s fp)" and ?ad = "i_addr (v7_inode s ip)"
  have al: "alike s t" and ad: "i_addr (v7_inode t ip) = ?ad" and of: "f_offset (v7_file t fp) = ?off + int j"
    using assms(1) by (auto simp: read_done_def same_inode_def)
  have "h_umem (host u) = filled (file_byte (view t) ?ad) (a + j) k (?off + int j) (h_umem (host t))"
    using assms(2) ad of by (simp add: read_done_def)
  also have "\<dots> = filled (file_byte (view s) ?ad) (a + j) k (?off + int j) (h_umem (host t))"
    by (rule filled_alike [OF assms(3) al]) simp
  also have "\<dots> = filled (file_byte (view s) ?ad) a (j + k) ?off (h_umem (host s))"
    using assms(1) by (simp add: read_done_def filled_append)
  finally have "h_umem (host u) = filled (file_byte (view s) ?ad) a (j + k) ?off (h_umem (host s))" .
  moreover have "same_inode (v7_inode s ip) (v7_inode u ip)"
    using assms(1,2) same_inode_trans by (auto simp: read_done_def)
  ultimately show ?thesis
    using assms(1,2) alike_trans [OF al] of by (simp add: read_done_def add.assoc)
qed

lemma read_done_open:
  assumes "read_done fp ip a k s t" "open_for_read s fd fp ip"
  shows "open_for_read t fd fp ip"
  using assms by (auto simp: read_done_def open_for_read_def same_inode_def is_file_def)

lemma read_done_0:
  assumes "cache_ok s" "cache_ok s \<Longrightarrow> alike s t" "v7_inode t = v7_inode s" "v7_file t = v7_file s" "v7_mount t = v7_mount s"
    "u_ofile (v7_u t) = u_ofile (v7_u s)" "h_umem (host t) = h_umem (host s)"
  shows "read_done fp ip a 0 s t"
  using assms by (simp add: read_done_def)

lemma set_error_done: "cache_ok s \<Longrightarrow> read_done fp ip a 0 s (set_error e s)"
  by (rule read_done_0) (simp_all add: set_error_def alike_step)

lemma refreshclock_done: "cache_ok s \<Longrightarrow> read_done fp ip a 0 s (v7_refreshclock s)"
  by (rule read_done_0) (simp_all add: v7_refreshclock_def Let_def alike_step split: option.split)

lemma v7fs_read_loop_ok:
  assumes "cache_ok s" "\<And>p. insert p (busy s) \<noteq> pool" "open_for_read s fd fp ip"
    "f_offset (v7_file s fp) = off" "0 \<le> off" "off < 2147483648"
    "file_readable s ip off (min (int n) (i_size (v7_inode s ip) - off))" "k = nat (min (int n) (i_size (v7_inode s ip) - off))"
  shows "\<exists>t. v7fs_read_loop fd (Umem a) n tot s = Some (tot + int k, t) \<and> read_done fp ip a k s t"
  using assms
proof (induction n arbitrary: s a off tot k rule: less_induct)
  case (less n)
  let ?sz = "i_size (v7_inode s ip)"
  show ?case
  proof (cases "n = 0")
    case True
    have "read_done fp ip a 0 s s" by (rule read_done_0) (use less.prems(1) in \<open>simp_all add: alike_def\<close>)
    then show ?thesis using True less.prems(8) by (subst v7fs_read_loop.simps) (simp add: min_def)
  next
    case False
    let ?c = "min (int n) 65535"
    define j where "j = nat (min ?c (?sz - off))"
    let ?s = "set_error 0 s"
    have e: "uerror ?s = 0" "v7_file ?s = v7_file s" "v7_inode ?s = v7_inode s" by (simp_all add: set_error_def)
    note d0 = set_error_done [OF less.prems(1), of fp ip a 0]
    have al: "alike s ?s" using d0 by (simp add: read_done_def)
    have c: "cache_ok ?s" "\<And>p. insert p (busy ?s) \<noteq> pool" using al less.prems(2) by (simp_all add: alike_def)
    have cb: "0 \<le> ?c" "?c < 65536" by simp_all
    have ef: "f_offset (v7_file ?s fp) = off" and jd: "j = nat (min ?c (i_size (v7_inode ?s ip) - off))"
      using e less.prems(4) by (simp_all add: j_def)
    have fr: "file_readable ?s ip off (min ?c (i_size (v7_inode ?s ip) - off))"
      using less.prems(7) e(3) block_readable_alike(1) [OF _ al] by (simp add: file_readable_def)
    obtain t where t: "rdwr Rd fd (Umem a) ?c ?s = Some t" "read_done fp ip a j ?s t" "uerror t = 0" "r_val1 (v7_u t) = s16 (int j)"
      using rdwr_read [OF c read_done_open [OF d0 less.prems(3)] e(1) ef less.prems(5,6) cb fr jd, of a] by blast
    have "int j < 65536" using j_def by auto
    then have jj: "u16 (s16 (int j)) = int j" by (simp add: u16_def s16_def mod_diff_left_eq)
    have fd: "s16 fd = fd" using less.prems(3) by (simp add: open_for_read_def s16_id)
    have st: "read_done fp ip a j s t"
      using read_done_trans [OF d0, of j t] t(2) less.prems(4,7) j_def by (simp add: file_readable_def)
    have step: "v7fs_read_loop fd (Umem a) n tot s = (if j = 0 then Some (tot, t)
        else v7fs_read_loop fd (Umem (a + j)) (n - j) (tot + int j) t)"
      using False t(1,3,4) jj fd by (subst v7fs_read_loop.simps) (simp add: ubase_add_def of_nat_min)
    show ?thesis
    proof (cases "j = 0")
      case True
      then have "k = 0" using less.prems(8) False j_def by auto
      then show ?thesis using step True st by simp
    next
      case nz: False
      have jk: "j \<le> n" "int j \<le> ?sz - off" using j_def nz by auto
      have o: "f_offset (v7_file t fp) = off + int j" "i_size (v7_inode t ip) = ?sz" "i_addr (v7_inode t ip) = i_addr (v7_inode s ip)"
        "alike s t" using st less.prems(4) by (auto simp: read_done_def same_inode_def)
      have sz: "?sz < 2147483648" using less.prems(3) by (simp add: open_for_read_def is_file_def)
      define k' where "k' = nat (min (int (n - j)) (?sz - (off + int j)))"
      have kk: "j + k' = k" "min (int (n - j)) (?sz - (off + int j)) = min (int n) (?sz - off) - int j"
        using jk less.prems(8) by (auto simp: k'_def min_def)
      have fr': "file_readable t ip (off + int j) (min (int (n - j)) (i_size (v7_inode t ip) - (off + int j)))"
        using less.prems(7) kk(2) o block_readable_alike(1) [OF _ o(4)] by (auto simp: file_readable_def)
      have c': "cache_ok t" "\<And>p. insert p (busy t) \<noteq> pool" using o(4) less.prems(2) by (simp_all add: alike_def)
      obtain u where u: "v7fs_read_loop fd (Umem (a + j)) (n - j) (tot + int j) t = Some (tot + int j + int k', u)"
        "read_done fp ip (a + j) k' t u"
        using less.IH [OF _ c' read_done_open [OF st less.prems(3)] o(1) _ _ fr', of k' "a + j" "tot + int j"]
          nz jk less.prems(5) sz o(2) k'_def by auto
      have "file_readable s ip (f_offset (v7_file s fp) + int j) (int k')"
        using less.prems(4,7) kk k'_def by (auto simp: file_readable_def)
      then have "read_done fp ip a k s u" using read_done_trans [OF st u(2)] kk(1) by simp
      then show ?thesis using step nz u(1) kk(1) by (simp add: add.assoc)
    qed
  qed
qed


lemma v7fs_read_ok:
  assumes "cache_ok s" "\<And>p. insert p (busy s) \<noteq> pool" "open_for_read s fd fp ip"
    "f_offset (v7_file s fp) = off" "0 \<le> off" "off < 2147483648"
    "file_readable s ip off (min (int n) (i_size (v7_inode s ip) - off))" "k = nat (min (int n) (i_size (v7_inode s ip) - off))"
  shows "\<exists>t. v7fs_read fd (Umem a) n s = Some (int k, t) \<and> read_done fp ip a k s t"
proof -
  let ?s = "v7_refreshclock s"
  note d0 = refreshclock_done [OF assms(1), of fp ip a]
  have f: "alike s ?s" "v7_file ?s = v7_file s" "i_size (v7_inode ?s ip) = i_size (v7_inode s ip)"
    "i_addr (v7_inode ?s ip) = i_addr (v7_inode s ip)"
    using d0 by (auto simp: read_done_def same_inode_def)
  have c: "cache_ok ?s" "\<And>p. insert p (busy ?s) \<noteq> pool" using f(1) assms(2) by (simp_all add: alike_def)
  have fr: "file_readable ?s ip off (min (int n) (i_size (v7_inode ?s ip) - off))"
    using assms(7) f block_readable_alike(1) [OF _ f(1)] by (simp add: file_readable_def)
  obtain t where t: "v7fs_read_loop fd (Umem a) n 0 ?s = Some (0 + int k, t)" "read_done fp ip a k ?s t"
    using v7fs_read_loop_ok [OF c read_done_open [OF d0 assms(3)] _ assms(5,6) fr, of k a 0] f assms(4,8) by auto
  have "read_done fp ip a (0 + k) s t" by (rule read_done_trans [OF d0]) (use t(2) assms(4,7,8) in \<open>simp_all add: file_readable_def\<close>)
  then show ?thesis using t(1) by (simp add: v7fs_read_def)
qed

lemma begin_call_fields:
  "v7_inode (begin_call s) = v7_inode s" "v7_file (begin_call s) = v7_file s" "u_ofile (v7_u (begin_call s)) = u_ofile (v7_u s)"
  "h_umem (host (begin_call s)) = h_umem (host s)" "h_file (host (begin_call s)) = h_file (host s)" "h_len (host (begin_call s)) = h_len (host s)"
  "h_fault (host (begin_call s)) = h_fault (host s)" "v7_buf (begin_call s) = v7_buf s" "v7_nblkdev (begin_call s) = v7_nblkdev s"
  "dsk (begin_call s) = dsk s" "v7_mount (begin_call s) = v7_mount s"
  by (simp_all add: begin_call_def set_error_def v7_refreshclock_def Let_def split: option.split)

lemma seek_start:
  assumes "0 \<le> fd" "fd < int NOFILE" "u_ofile (v7_u s) (nat fd) = Some fp" "f_flag (v7_file s fp) \<inter> {FPIPE, FMPX, FMPY} = {}"
    "0 \<le> off" "off < 2147483648"
  shows "v7fs_seek fd off SEEK_SET s = (off, upd_file fp (\<lambda>f. f\<lparr>f_offset := off\<rparr>) (begin_call s))"
proof -
  have "fd \<le> 32767" "getf fd (begin_call s) = (Some fp, begin_call s)" using assms(1-3) by (simp_all add: getf_def begin_call_fields)
  then show ?thesis using assms by (simp add: v7fs_seek_def begin_call_fields Let_def)
qed

text \<open>\<open>v7fs_pread\<close> moves the position first.\<close>

lemma v7fs_pread_ok:
  assumes ok: "cache_ok s" "\<And>p. insert p (busy s) \<noteq> pool" and o: "open_for_read s fd fp ip"
    and off: "0 \<le> off" "off < 2147483648" and r: "file_readable s ip off (min (int n) (i_size (v7_inode s ip) - off))"
    and k: "k = nat (min (int n) (i_size (v7_inode s ip) - off))"
  shows "\<exists>t. v7fs_pread fd (Umem a) n off s = Some (int k, t) \<and> alike s t \<and> same_inode (v7_inode s ip) (v7_inode t ip)
    \<and> f_offset (v7_file t fp) = off + int k
    \<and> h_umem (host t) = filled (file_byte (view s) (i_addr (v7_inode s ip))) a k off (h_umem (host s))"
proof -
  let ?b = "begin_call s" and ?g = "\<lambda>f. f\<lparr>f_offset := off\<rparr>"
  let ?s = "upd_file fp ?g ?b"
  note b = begin_call_fields [of s]
  have al: "alike s ?s" by (rule alike_step [OF ok(1)]) (use b in \<open>simp_all add: upd_file_def\<close>)
  have sk: "v7fs_seek fd off SEEK_SET s = (off, ?s)" using seek_start [OF _ _ _ _ off] o by (simp add: open_for_read_def)
  have op: "open_for_read ?s fd fp ip" using o b by (simp add: open_for_read_def upd_file_def)
  have c: "cache_ok ?s" "\<And>p. insert p (busy ?s) \<noteq> pool" using al ok(2) by (simp_all add: alike_def)
  have i: "v7_inode ?s = v7_inode s" "f_offset (v7_file ?s fp) = off" "h_umem (host ?s) = h_umem (host s)"
    using b by (simp_all add: upd_file_def)
  have fr: "file_readable ?s ip off (min (int n) (i_size (v7_inode ?s ip) - off))"
    using r i(1) block_readable_alike(1) [OF _ al] by (simp add: file_readable_def)
  have k': "k = nat (min (int n) (i_size (v7_inode ?s ip) - off))" using k i(1) by simp
  obtain t where t: "v7fs_read fd (Umem a) n ?s = Some (int k, t)" "read_done fp ip a k ?s t"
    using v7fs_read_ok [OF c op i(2) off fr k'] by blast
  have "filled (file_byte (view ?s) (i_addr (v7_inode s ip))) a k off m = filled (file_byte (view s) (i_addr (v7_inode s ip))) a k off m" for m
    by (rule filled_alike [OF r al]) (use k in auto)
  then show ?thesis
    using t(2) i alike_trans [OF al] off by (auto simp: v7fs_pread_def sk t(1) read_done_def)
qed

text \<open>The results of \<open>v7fs_seek\<close>: positions from 0 to \<open>2147483647\<close>, and \<open>EINVAL\<close>.\<close>

lemma seek_sets_position:
  assumes "0 \<le> fd" "fd < int NOFILE" "u_ofile (v7_u s) (nat fd) = Some fp" "f_flag (v7_file s fp) \<inter> {FPIPE, FMPX, FMPY} = {}"
    "wh = SEEK_SET \<and> new = off \<or> wh = SEEK_CUR \<and> new = off + f_offset (v7_file s fp)
       \<or> wh = SEEK_END \<and> new = off + i_size (v7_inode s (f_inode (v7_file s fp)))"
  shows "\<exists>t. v7fs_seek fd off wh s = (if 0 \<le> new \<and> new \<le> 2147483647 then new else - EINVAL, t)
    \<and> v7_file t = (if 0 \<le> new \<and> new \<le> 2147483647 then (v7_file s)(fp := (v7_file s fp)\<lparr>f_offset := new\<rparr>) else v7_file s)"
proof -
  have "getf fd (begin_call s) = (Some fp, begin_call s)" "fd \<le> 32767" using assms(1-3) by (simp_all add: getf_def begin_call_fields)
  then show ?thesis using assms by (auto simp: v7fs_seek_def begin_call_fields Let_def upd_file_def)
qed

end
