(* ===== verification/File_Write.thy ===== *)
theory File_Write
  imports Writei_Spec File_Read
begin

text \<open>
  Writing through a descriptor: \<open>rdwr\<close>, \<open>v7fs_write\<close> and \<open>v7fs_pwrite\<close> put the caller's bytes into the file, any
  number of them, and what was written can be read.
\<close>

section \<open>A file that satisfies the invariant can be read\<close>

lemma follow_ok_tnode:
  assumes I: "file_inv fp ip Q xs s"
  shows "(i, js @ ks) \<in> tpaths \<Longrightarrow> tn s ip (i, js) = nb \<Longrightarrow> nb \<noteq> 0 \<Longrightarrow> follow_ok s nb ks"
proof (induction ks arbitrary: js nb)
  case (Cons k ks)
  have p: "(i, js @ [k]) \<in> tpaths" "(i, (js @ [k]) @ ks) \<in> tpaths" using Cons.prems(1) by (auto simp: tpaths_def)
  note P = tpaths_snoc [OF p(1)]
  have m: "room s nb" "dsk_inrange s nb" using tnode_mine(3,4) [OF I, of "(i, js)"] P Cons.prems by auto
  have e: "tn s ip (i, js @ [k]) = wswap_int32 (ld32 (view s nb) (4 * k))" using Cons.prems by (simp add: tnode_snoc addr_at_def)
  then show ?case using m P Cons.IH [OF p(2) e] by (simp add: Let_def)
qed simp

lemma file_inv_readable:
  assumes I: "file_inv fp ip Q xs s" and bn: "bmap_path bn \<noteq> None"
  shows "block_readable s (i_addr (v7_inode s ip)) bn"
proof -
  obtain i ks where q: "bmap_path bn = Some (i, ks)" using bn by auto
  have p: "(i, [] @ ks) \<in> tpaths" using bmap_path_leaf [OF q] by simp
  have "file_block_ok s (i_addr (v7_inode s ip)) bn"
    using follow_ok_tnode [OF I p] q by (auto simp: file_block_ok_def)
  then show ?thesis
    using q tnode_mine(3,4) [OF I, of "(i, ks)"] p by (auto simp: block_readable_def file_block_tnode Let_def)
qed


section \<open>Writing through a descriptor\<close>

definition open_for_write :: "kernel \<Rightarrow> int \<Rightarrow> nat \<Rightarrow> nat \<Rightarrow> bool" where
  "open_for_write s fd f ip \<longleftrightarrow> 0 \<le> fd \<and> fd < int NOFILE \<and> u_ofile (v7_u s) (nat fd) = Some f
     \<and> FWRITE \<in> f_flag (v7_file s f) \<and> f_flag (v7_file s f) \<inter> {FPIPE, FMPX, FMPY} = {}
     \<and> f_inode (v7_file s f) = ip \<and> is_file (v7_inode s ip)"

definition write_done :: "nat \<Rightarrow> nat \<Rightarrow> nat \<Rightarrow> nat \<Rightarrow> int list \<Rightarrow> int list \<Rightarrow> kernel \<Rightarrow> kernel \<Rightarrow> bool" where
  "write_done f ip a k xs ys s t \<longleftrightarrow> within ip xs ys s t \<and> h_umem (host t) = h_umem (host s) \<and> u_ofile (v7_u t) = u_ofile (v7_u s)
     \<and> v7_file t = (v7_file s)(f := (v7_file s f)\<lparr>f_offset := f_offset (v7_file s f) + int k\<rparr>)
     \<and> rewritten ip (h_umem (host s)) a k (f_offset (v7_file s f)) s t"

lemma write_done_trans:
  assumes "write_done f ip a j xs ys s t" "write_done f ip (a + j) k ys zs t u" "k \<noteq> 0 \<or> j = 0"
  shows "write_done f ip a (j + k) xs zs s u"
proof -
  let ?off = "f_offset (v7_file s f)"
  have "rewritten ip (h_umem (host s)) a j ?off s t" "rewritten ip (h_umem (host s)) (a + j) k (?off + int j) t u"
    using assms(1,2) by (simp_all add: write_done_def)
  then have "rewritten ip (h_umem (host s)) a (j + k) ?off s u" using rewritten_trans assms(3) by blast
  moreover have "within ip xs zs s u" using assms(1,2) within_trans by (auto simp: write_done_def)
  ultimately show ?thesis using assms(1,2) by (simp add: write_done_def add.assoc)
qed

lemma write_done_open:
  assumes "write_done f ip a k xs ys s t" "open_for_write s fd f ip" "f_offset (v7_file s f) + int k < 2147483648"
  shows "open_for_write t fd f ip"
proof -
  have sb: "sibling (v7_inode s ip) (v7_inode t ip)" using assms(1) by (simp add: write_done_def within_def)
  have "i_mode (v7_inode t ip) = i_mode (v7_inode s ip)" "i_dev (v7_inode t ip) = i_dev (v7_inode s ip)"
    by (subst sb [unfolded sibling_def]; simp)+
  then show ?thesis using assms by (auto simp: write_done_def rewritten_def open_for_write_def is_file_def)
qed

lemma same_store_within: "same_store s t \<Longrightarrow> v7_inode t = v7_inode s \<Longrightarrow> within ip xs xs s t"
  using same_store_cong [of s t] by (simp add: within_def same_store_def)

text \<open>Steps before and between the pieces.\<close>

lemma write_done_0:
  assumes "same_store s t" "v7_inode t = v7_inode s" "v7_file t = v7_file s" "u_ofile (v7_u t) = u_ofile (v7_u s)"
    "h_umem (host t) = h_umem (host s)"
  shows "write_done f ip a 0 xs xs s t" "file_inv fp ip Q ys t = file_inv fp ip Q ys s"
proof -
  show "write_done f ip a 0 xs xs s t"
    using same_store_within [OF assms(1,2)] same_store_cong(2) [OF assms(1)] assms(2-5) by (auto simp: write_done_def rewritten_def)
  show "file_inv fp ip Q ys t = file_inv fp ip Q ys s" by (rule file_inv_store [OF assms(1)]) (use assms(2) in simp_all)
qed

lemma set_error_wrote: "write_done f ip a 0 xs xs s (set_error e s)" "file_inv fp ip Q ys (set_error e s) = file_inv fp ip Q ys s"
  by (rule write_done_0; simp add: set_error_def same_store_def)+

lemma refreshclock_wrote:
  "write_done f ip a 0 xs xs s (v7_refreshclock s)" "file_inv fp ip Q ys (v7_refreshclock s) = file_inv fp ip Q ys s"
  by (rule write_done_0; simp add: v7_refreshclock_def same_store_def Let_def split: option.split)+

lemma prele_flags: "i_flag (v7_inode (prele ip s) ip) = i_flag (v7_inode s ip) - {ILOCK, IWANT}"
  "v7_inode (prele ip s) ip = (v7_inode s ip)\<lparr>i_flag := i_flag (v7_inode (prele ip s) ip)\<rparr>"
  by (auto simp: prele_def Let_def clr_iflag_def upd_inode_def)

lemma prele_within:
  shows "same_store s (prele ip s)" "within ip xs xs s (prele ip s)"
proof -
  show S: "same_store s (prele ip s)" by (simp add: same_store_def prele_fields)
  have "sibling (v7_inode s ip) (v7_inode (prele ip s) ip)" by (subst prele_flags(2)) simp
  then show "within ip xs xs s (prele ip s)"
    using same_store_cong [OF S] prele_fields [where s = s and ip = ip] by (simp add: within_def same_inode_def)
qed

lemma rdwr_write:
  assumes I: "file_inv fp ip Q xs s" and o: "open_for_write s fd f ip"
    and e: "uerror s = 0" and off: "f_offset (v7_file s f) = off" "0 \<le> off" "off + cnt < 2147483648"
    and c: "0 \<le> cnt" "cnt < 65536" "covers Q off cnt"
  shows "\<exists>t ys. rdwr Wr fd (Umem a) cnt s = Some t \<and> write_done f ip a (nat cnt) xs ys s t \<and> file_inv fp ip Q ys t
    \<and> uerror t = 0 \<and> r_val1 (v7_u t) = s16 cnt"
proof -
  define s' where "s' = upd_u (\<lambda>u. u\<lparr>u_base := Umem a, u_count := cnt, u_segflg := 0, u_offset := off\<rparr>) s"
  have F: "v7_u s' = (v7_u s)\<lparr>u_base := Umem a, u_count := cnt, u_segflg := 0, u_offset := off\<rparr>" "v7_inode s' = v7_inode s"
    "v7_file s' = v7_file s" "host s' = host s" by (simp_all add: s'_def upd_u_def)
  have S: "same_store s s'" by (simp add: s'_def same_store_def upd_u_def)
  have I': "file_inv fp ip Q xs s'" using file_inv_store [OF S] I F(2) by simp
  have isf: "is_file (v7_inode s ip)" using o by (simp add: open_for_write_def)
  obtain t ys where t: "writei ip s' = Some t" "wrote ip a (nat cnt) xs ys s' t" "file_inv fp ip Q ys t"
    using writei_ok [OF I', of a off cnt] F isf e off c by (auto simp: is_file_def)
  have T: "v7_file t = v7_file s" "v7_u t = (v7_u s')\<lparr>u_base := Umem (a + nat cnt), u_offset := off + cnt, u_count := 0\<rparr>"
    "h_umem (host t) = h_umem (host s)" "within ip xs ys s' t"
    using t(2) c F by (simp_all add: wrote_def)
  have vs: "view s' = view s" by (rule same_store_cong(2) [OF S])
  have rw: "rewritten ip (h_umem (host s)) a (nat cnt) off s t"
  proof -
    have "rewritten ip (h_umem (host s)) a (nat cnt) off s' t" using t(2) F by (simp add: wrote_def)
    then show ?thesis unfolding rewritten_def vs F(2) .
  qed
  have sb: "sibling (v7_inode s ip) (v7_inode t ip)" using T(4) F(2) by (simp add: within_def)
  have "i_mode (v7_inode t ip) = i_mode (v7_inode s ip)" by (subst sb [unfolded sibling_def]) simp
  then have db: "i_mode (v7_inode t ip) AND (IFCHR AND IFBLK) = 0" using dev_bit [OF isf] by simp
  let ?w = "upd_u (\<lambda>u. u\<lparr>r_val1 := s16 cnt\<rparr>) (upd_file f (\<lambda>f. f\<lparr>f_offset := off + cnt\<rparr>) (prele ip t))"
  have run: "rdwr Wr fd (Umem a) cnt s = Some ?w"
  proof -
    have "upd_u (\<lambda>u. u\<lparr>u_offset := off\<rparr>) (upd_u (\<lambda>u. u\<lparr>u_base := Umem a, u_count := cnt, u_segflg := 0\<rparr>) s) = s'"
      by (simp add: s'_def upd_u_def)
    moreover have "getf fd s = (Some f, s)" "FWRITE \<in> f_flag (v7_file s f)" "FPIPE \<notin> f_flag (v7_file s f)"
      "FMPX \<notin> f_flag (v7_file s f)" "FMPY \<notin> f_flag (v7_file s f)" "f_inode (v7_file s f) = ip"
      using o by (auto simp: getf_def open_for_write_def)
    ultimately show ?thesis
      using off c t(1) T db by (simp add: rdwr_def mode_flag_def upd_u_def upd_file_def prele_fields s32_id)
  qed
  have w: "v7_inode ?w = v7_inode (prele ip t)" "u_ofile (v7_u ?w) = u_ofile (v7_u s)" "uerror ?w = 0" "r_val1 (v7_u ?w) = s16 cnt"
    "v7_file ?w = (v7_file s)(f := (v7_file s f)\<lparr>f_offset := off + cnt\<rparr>)" "host ?w = host t" and S2: "same_store (prele ip t) ?w"
    using T F(1) e by (simp_all add: upd_u_def upd_file_def prele_fields same_store_def)
  have W: "within ip xs ys s ?w"
    using within_trans [OF same_store_within [OF S F(2)] within_trans [OF T(4) within_trans [OF prele_within(2) same_store_within [OF S2 w(1)]]]] .
  have vw: "view ?w = view t" "i_addr (v7_inode ?w ip) = i_addr (v7_inode t ip)" "i_size (v7_inode ?w ip) = i_size (v7_inode t ip)"
    "i_dev (v7_inode ?w ip) = i_dev (v7_inode t ip)"
    using same_store_cong(2) [OF S2] same_store_cong(2) [OF prele_within(1)] w(1) prele_fields(1) [where s = t and ip = ip] by (simp_all add: same_inode_def)
  have "rewritten ip (h_umem (host s)) a (nat cnt) off s ?w"
    using rw vw w(1) prele_flags(1) by (auto simp: rewritten_def)
  then have "write_done f ip a (nat cnt) xs ys s ?w" using W w(2,5,6) T(3) off(1) c(1) by (simp add: write_done_def)
  moreover have "same_store t ?w" using S2 prele_within(1) [of t ip] by (simp add: same_store_def)
  then have "file_inv fp ip Q ys ?w" using file_inv_store t(3) vw by blast
  ultimately show ?thesis using run w(3,4) by blast
qed


section \<open>Writing any number of bytes\<close>

lemma v7fs_write_loop_ok:
  assumes "file_inv fp ip Q xs s" "open_for_write s fd f ip" "f_offset (v7_file s f) = off" "0 \<le> off" "off + int n < 2147483648"
    "covers Q off (int n)"
  shows "\<exists>t ys. v7fs_write_loop fd (Umem a) n tot s = Some (tot + int n, t) \<and> write_done f ip a n xs ys s t \<and> file_inv fp ip Q ys t"
  using assms
proof (induction n arbitrary: s a off tot xs rule: less_induct)
  case (less n)
  show ?case
  proof (cases "n = 0")
    case True
    have "write_done f ip a 0 xs xs s s" by (rule write_done_0) (simp_all add: same_store_def)
    then show ?thesis using True less.prems(1) by (subst v7fs_write_loop.simps) auto
  next
    case False
    define j where "j = min n 65535"
    have j: "0 < j" "j \<le> n" "int j < 65536" "nat (int j) = j" using False by (auto simp: j_def)
    let ?s = "set_error 0 s"
    have e: "uerror ?s = 0" "f_offset (v7_file ?s f) = off" using less.prems(3) by (simp_all add: set_error_def)
    have I: "file_inv fp ip Q xs ?s" using set_error_wrote(2) less.prems(1) by simp
    have o: "open_for_write ?s fd f ip" using less.prems(2) by (simp add: open_for_write_def set_error_def)
    have cv: "covers Q off (int j)" by (rule covers_mono [OF less.prems(6)]) (use j in simp_all)
    obtain t ys where t: "rdwr Wr fd (Umem a) (int j) ?s = Some t" "write_done f ip a j xs ys ?s t" "file_inv fp ip Q ys t" "uerror t = 0"
      "r_val1 (v7_u t) = s16 (int j)"
      using rdwr_write [OF I o e less.prems(4) _ _ j(3) cv, of a] less.prems(5) j by auto
    have jj: "u16 (s16 (int j)) = int j" using j(3) by (simp add: u16_def s16_def mod_diff_left_eq)
    have fd: "s16 fd = fd" using less.prems(2) by (simp add: open_for_write_def s16_id)
    have d0: "write_done f ip a 0 xs xs s ?s" by (rule set_error_wrote(1))
    have st: "write_done f ip a j xs ys s t" using write_done_trans [OF d0, of j ys t] t(2) by simp
    have step: "v7fs_write_loop fd (Umem a) n tot s = v7fs_write_loop fd (Umem (a + j)) (n - j) (tot + int j) t"
      using False t(1,4,5) jj fd j(1) by (subst v7fs_write_loop.simps) (simp add: ubase_add_def Let_def flip: j_def)
    have ot: "open_for_write t fd f ip" by (rule write_done_open [OF st less.prems(2)]) (use less.prems(3,5) j in simp)
    have of: "f_offset (v7_file t f) = off + int j" using st less.prems(3) by (simp add: write_done_def)
    have cv2: "covers Q (off + int j) (int (n - j))" by (rule covers_mono [OF less.prems(6)]) (use j in simp_all)
    have dec: "n - j < n" "0 \<le> off + int j" "off + int j + int (n - j) < 2147483648" using j less.prems(4,5) by simp_all
    obtain u zs where u: "v7fs_write_loop fd (Umem (a + j)) (n - j) (tot + int j) t = Some (tot + int j + int (n - j), u)"
      "write_done f ip (a + j) (n - j) ys zs t u" "file_inv fp ip Q zs u"
      using less.IH [OF dec(1) t(3) ot of dec(2,3) cv2] by blast
    show ?thesis
    proof (cases "n = j")
      case True
      then have "v7fs_write_loop fd (Umem a) n tot s = Some (tot + int n, t)" using step by (subst (asm) (2) v7fs_write_loop.simps) simp
      then show ?thesis using st t(3) True by blast
    next
      case ne: False
      then have "n - j \<noteq> 0" using j by simp
      then have "write_done f ip a (j + (n - j)) xs zs s u" using write_done_trans [OF st u(2)] by blast
      then show ?thesis using step u(1,3) j(2) by (auto simp: of_nat_diff)
    qed
  qed
qed

lemma v7fs_write_ok:
  assumes "file_inv fp ip Q xs s" "open_for_write s fd f ip" "f_offset (v7_file s f) = off" "0 \<le> off" "off + int n < 2147483648"
    "covers Q off (int n)"
  shows "\<exists>t ys. v7fs_write fd (Umem a) n s = Some (int n, t) \<and> write_done f ip a n xs ys s t \<and> file_inv fp ip Q ys t"
proof -
  let ?s = "v7_refreshclock s"
  have d0: "write_done f ip a 0 xs xs s ?s" by (rule refreshclock_wrote(1))
  have f: "v7_file ?s = v7_file s" using d0 by (simp add: write_done_def)
  have I: "file_inv fp ip Q xs ?s" using refreshclock_wrote(2) assms(1) by simp
  have o: "open_for_write ?s fd f ip" by (rule write_done_open [OF d0 assms(2)]) (use assms(3,5) in simp)
  obtain t ys where t: "v7fs_write_loop fd (Umem a) n 0 ?s = Some (0 + int n, t)" "write_done f ip a n xs ys ?s t" "file_inv fp ip Q ys t"
    using v7fs_write_loop_ok [OF I o _ assms(4-6)] f assms(3) by fastforce
  have "write_done f ip a n xs ys s t" using write_done_trans [OF d0, of n ys t] t(2) by simp
  then show ?thesis using t(1,3) by (auto simp: v7fs_write_def)
qed

lemma v7fs_pwrite_ok:
  assumes I: "file_inv fp ip Q xs s" and o: "open_for_write s fd f ip" and off: "0 \<le> off" "off + int n < 2147483648"
    and c: "covers Q off (int n)"
  shows "\<exists>t ys. v7fs_pwrite fd (Umem a) n off s = Some (int n, t) \<and> file_inv fp ip Q ys t \<and> within ip xs ys s t
    \<and> h_umem (host t) = h_umem (host s) \<and> u_ofile (v7_u t) = u_ofile (v7_u s)
    \<and> v7_file t = (v7_file s)(f := (v7_file s f)\<lparr>f_offset := off + int n\<rparr>) \<and> rewritten ip (h_umem (host s)) a n off s t"
proof -
  define s' where "s' = upd_file f (\<lambda>f. f\<lparr>f_offset := off\<rparr>) (begin_call s)"
  have s': "v7_inode s' = v7_inode s" "v7_file s' = (v7_file s)(f := (v7_file s f)\<lparr>f_offset := off\<rparr>)" "u_ofile (v7_u s') = u_ofile (v7_u s)"
    "h_umem (host s') = h_umem (host s)" "same_store s s'"
    by (simp_all add: s'_def upd_file_def same_store_def begin_call_fields)
  have sk: "v7fs_seek fd off SEEK_SET s = (off, s')" unfolding s'_def
    by (rule seek_start) (use o off in \<open>auto simp: open_for_write_def\<close>)
  have I': "file_inv fp ip Q xs s'" using file_inv_store [OF s'(5)] I s'(1) by simp
  have o': "open_for_write s' fd f ip" using o s' by (simp add: open_for_write_def)
  have of: "f_offset (v7_file s' f) = off" using s'(2) by simp
  obtain t ys where t: "v7fs_write fd (Umem a) n s' = Some (int n, t)" "write_done f ip a n xs ys s' t" "file_inv fp ip Q ys t"
    using v7fs_write_ok [OF I' o' of off c] by blast
  have vs: "view s' = view s" by (rule same_store_cong(2) [OF s'(5)])
  have "rewritten ip (h_umem (host s)) a n off s' t" using t(2) s' by (simp add: write_done_def)
  then have rw: "rewritten ip (h_umem (host s)) a n off s t" unfolding rewritten_def vs s'(1) .
  have wi: "within ip xs ys s t" using within_trans [OF same_store_within [OF s'(5,1)]] t(2) by (simp add: write_done_def)
  have "v7fs_pwrite fd (Umem a) n off s = Some (int n, t)" using sk off t(1) by (simp add: v7fs_pwrite_def)
  then show ?thesis using t(2,3) rw wi s' by (auto simp: write_done_def)
qed

text \<open>The descriptor can be read after a write when it could before.\<close>

lemma rewritten_open:
  assumes "rewritten ip m a k off s t" "within ip xs ys s t" "u_ofile (v7_u t) = u_ofile (v7_u s)"
    "v7_file t = (v7_file s)(f := (v7_file s f)\<lparr>f_offset := p\<rparr>)" "open_for_read s fd f ip" "off + int k < 2147483648"
  shows "open_for_read t fd f ip"
proof -
  have sb: "sibling (v7_inode s ip) (v7_inode t ip)" using assms(2) by (simp add: within_def)
  have "i_mode (v7_inode t ip) = i_mode (v7_inode s ip)" "i_dev (v7_inode t ip) = i_dev (v7_inode s ip)"
    by (subst sb [unfolded sibling_def]; simp)+
  then show ?thesis using assms by (auto simp: rewritten_def open_for_read_def is_file_def)
qed


section \<open>Two blocks of a file\<close>

lemma write_places_block: "bmap_path bn = Some q \<Longrightarrow> write_places (512 * bn) 1 = upto_place q"
  by (simp add: write_places_def)

lemma grown_kept: "grown ip xs xs' s t \<Longrightarrow> q \<in> tpaths \<Longrightarrow> tn s ip q \<noteq> 0 \<Longrightarrow> tn t ip q = tn s ip q"
  by (simp add: grown_def within_def)

lemma bmap_read_node:
  assumes I: "file_inv fp ip Q xs s" and q: "bmap_path bn = Some q" "tn s ip q \<noteq> 0"
  shows "\<exists>t. bmap ip bn True s = Some (tn s ip q, t)"
  using bmap_read [OF file_invD(1,5) [OF I] _ q(1)] file_inv_readable [OF I, of bn] q
  by (auto simp: block_readable_def file_block_tnode)

lemma bmap_two_blocks:
  assumes I: "file_inv fp ip (write_places (512 * m) 1 \<union> write_places (512 * n) 1) xs s"
    and mn: "bmap_path m \<noteq> None" "bmap_path n \<noteq> None" "m \<noteq> n"
  shows "\<exists>a b t u v w. bmap ip m False s = Some (a, t) \<and> bmap ip n False t = Some (b, u) \<and> 0 < a \<and> 0 < b \<and> a \<noteq> b
    \<and> bmap ip m True u = Some (a, v) \<and> bmap ip n True u = Some (b, w)"
proof -
  obtain q r where p: "bmap_path m = Some q" "bmap_path n = Some r" using mn(1,2) by blast
  then have "q \<noteq> r" using bmap_path_inj [of m r n] mn(3) by auto
  note qr = p this
  let ?Q = "write_places (512 * m) 1 \<union> write_places (512 * n) 1"
  have sub: "upto_place q \<subseteq> ?Q" "upto_place r \<subseteq> ?Q" using write_places_block qr by auto
  have P: "q \<in> tpaths" "r \<in> tpaths" using bmap_path_leaf qr by auto
  obtain t ys where t: "bmap ip m False s = Some (tn t ip q, t)" "file_inv fp ip ?Q ys t" "tn t ip q \<noteq> 0"
    using bmap_write [OF I qr(1) sub(1)] by blast
  obtain u zs where u: "bmap ip n False t = Some (tn u ip r, u)" "file_inv fp ip ?Q zs u" "grown ip ys zs t u" "tn u ip r \<noteq> 0"
    using bmap_write [OF t(2) qr(2) sub(2)] by blast
  have k: "tn u ip q = tn t ip q" by (rule grown_kept [OF u(3) P(1) t(3)])
  then have "tn t ip q \<noteq> tn u ip r" using unsharedD [OF file_invD(6) [OF u(2)] P] t(3) qr(3) by auto
  moreover obtain v w where "bmap ip m True u = Some (tn t ip q, v)" "bmap ip n True u = Some (tn u ip r, w)"
    using bmap_read_node [OF u(2) qr(1)] bmap_read_node [OF u(2) qr(2) u(4)] k t(3) by auto
  ultimately show ?thesis using t(1) u(1) tnode_mine(2) [OF t(2) P(1) t(3)] tnode_mine(2) [OF u(2) P(2) u(4)] by blast
qed

end
