(* ===== verification/Demo.thy ===== *)
theory Demo
  imports File_Write
begin

text \<open>
  Concrete states: a kernel over an image of 64 blocks of zeros just after \<open>binit\<close>, and the same with a
  mounted file system whose free list holds block 10. The statements about states are applied to
  them.
\<close>

definition demo_buf :: buf where
  "demo_buf = \<lparr>b_flags = {}, b_forw = Bfreelist, b_back = Bfreelist, av_forw = Bfreelist, av_back = Bfreelist,
     b_dev = 0, b_bcount = 0, b_addr = zeroblk, b_blkno = 0, b_error = 0, b_resid = 0\<rparr>"

definition demo_host :: host where
  "demo_host = \<lparr>h_file = zeroblk, h_len = 32768, h_fault = (\<lambda>_. None), h_op = 0, h_now = (\<lambda>_. 0), h_tick = 0,
     h_epoch = None, h_umem = zeroblk, h_local = zeroblk, h_stderr = []\<rparr>"

definition demo_core :: kernel where
  "demo_core =
     (let mp = \<lparr>entries = None, entrycount = 0, maxfsid = 32767, defaulthostid = 65534, defaultfsid = 32767\<rparr> in
      \<lparr>v7_u = zero_user, v7_mount = (\<lambda>_. zero_mount), v7_inode = (\<lambda>_. zero_inode), v7_buf = (\<lambda>_. demo_buf),
     v7_file = (\<lambda>_. zero_file), v7_rootdev = 0, v7_nblkdev = 0, v7_nchrdev = 0, v7_rootdir = None, v7_time = 0,
     v7_updlock = 0, v7_rablock = 0,
     dsk = \<lparr>dsk_fd = 3, dsk_size = 64, dsk_start = 0, dsk_end = 32768, dsk_isblkdev = False\<rparr>,
     v7fs_initialized = False, v7fs_uidmap = mp, v7fs_gidmap = mp, host = demo_host\<rparr>)"

text \<open>The same over a disk that refuses every call.\<close>

definition demo_refusing :: kernel where
  "demo_refusing = demo_core\<lparr>host := demo_host\<lparr>h_fault := (\<lambda>_. Some (Errno EIO))\<rparr>\<rparr>"

definition demo :: kernel where
  "demo = binit demo_core"

lemma demo_binit:
  "bio_inv demo" "busy demo = {}" "cached demo b = None" "dsk demo = dsk demo_core" "v7_mount demo = (\<lambda>_. zero_mount)"
  "h_fault (host demo) = (\<lambda>_. None)" "32768 \<le> h_len (host demo)" "v7_u demo = zero_user" "v7_inode demo = (\<lambda>_. zero_inode)"
  "v7_rootdev demo = 0" "dsk_block demo b = zeroblk"
proof -
  have c: "v7_nblkdev demo_core = 0" "\<And>p. b_left (v7_buf demo_core p) = (0, 0)" "B_TAPE \<notin> bflags demo_core Rootdsktab"
    by (simp_all add: demo_core_def Let_def demo_buf_def)
  note B = binit_spec [OF c]
  show "bio_inv demo" "busy demo = {}" "cached demo b = None" using B(1-3) by (simp_all add: demo_def)
  show "dsk demo = dsk demo_core" "v7_mount demo = (\<lambda>_. zero_mount)" "h_fault (host demo) = (\<lambda>_. None)"
    "32768 \<le> h_len (host demo)" "v7_u demo = zero_user" "v7_inode demo = (\<lambda>_. zero_inode)"
    using B(4) unfolding demo_def io_frame_def by (simp_all add: demo_core_def Let_def demo_host_def)
  show "v7_rootdev demo = 0" using B(4) unfolding demo_def io_frame_def by (simp add: demo_core_def Let_def)
  have "dsk_block demo_core b = zeroblk"
    by (simp add: dsk_block_def demo_core_def Let_def demo_host_def trunc_blk_def fun_eq_iff zeroblk_def)
  then show "dsk_block demo b = zeroblk" using B(5) [of b] by (simp add: demo_def)
qed

lemma demo_inrange: "dsk_inrange demo b \<longleftrightarrow> 0 \<le> b \<and> b < 64"
  by (auto simp: dsk_inrange_def demo_binit demo_core_def Let_def)

lemma demo_cache_ok: "cache_ok demo"
proof -
  have "coherent demo" using demo_binit(3) unfolding coherent_def cached_None by blast
  then show ?thesis
    using demo_binit(1,4,6,7) by (simp add: cache_ok_def dsk_wf_def host_ok_def demo_core_def Let_def)
qed

lemma demo_room: "room demo b"
  using pool_nonempty by (simp add: room_def demo_binit)

text \<open>The mounted file system.\<close>

definition demo_super :: "block \<Rightarrow> block" where
  "demo_super d = set_s_tfree (wswap_int32 1) (set_s_free 1 (wswap_int32 10) (set_s_free 0 0 (set_s_nfree (wswap_int16 2)
     (set_s_flock 0 (set_s_ronly 0 (set_s_ninode 0 (set_s_fsize (wswap_int32 64) (set_s_isize (wswap_int16 4) d))))))))"

definition demo_fp :: bufp where
  "demo_fp = (case geteblk demo of Some (p, s) \<Rightarrow> p | None \<Rightarrow> Bfreelist)"

definition demo_fs :: kernel where
  "demo_fs = (case geteblk demo of Some (p, s) \<Rightarrow>
       upd_data p demo_super (s\<lparr>v7_mount := (v7_mount s)(0 := \<lparr>m_dev = 0, m_bufp = Some p, m_inodp = None\<rparr>)\<rparr>)
     | None \<Rightarrow> demo)"

lemma demo_super_fields:
  "sb_count (demo_super d) = 2" "sb_entry (demo_super d) 0 = 0" "sb_entry (demo_super d) 1 = 10"
  "s_flock (demo_super d) = 0" "s_ninode (demo_super d) = 0" "wswap_int32 (s_tfree (demo_super d)) = 1"
  "wswap_int16 (s_isize (demo_super d)) = 4" "wswap_int32 (s_fsize (demo_super d)) = 64" "s_ronly (demo_super d) = 0"
  by (simp_all add: demo_super_def sb_count_def sb_entry_def filsys_defs mem_simps s8_id s16_id s32_id)

lemma demo_fs_facts:
  "cache_ok demo_fs" "busy demo_fs = {demo_fp}" "super demo_fs demo_fp" "dsk_inrange demo_fs b \<longleftrightarrow> 0 \<le> b \<and> b < 64"
  "\<exists>d. bdata demo_fs demo_fp = demo_super d" "v7_u demo_fs = zero_user" "v7_inode demo_fs = (\<lambda>_. zero_inode)"
proof -
  have "busy demo \<noteq> pool" using demo_binit(2) pool_nonempty by simp
  then obtain p s where g: "geteblk demo = Some (p, s)" "taken demo p s" "b_dev (v7_buf s p) = NODEV"
    using geteblk_spec [OF demo_cache_ok] by blast
  let ?s = "s\<lparr>v7_mount := (v7_mount s)(0 := \<lparr>m_dev = 0, m_bufp = Some p, m_inodp = None\<rparr>)\<rparr>"
  have C: "cache_ok ?s = cache_ok s" "busy ?s = busy s" "dsk_inrange ?s = dsk_inrange s" by (rule cache_ok_cong; simp)+
  have t: "cache_ok ?s" "busy ?s = {p}" "p \<in> busy ?s" and fr: "io_frame demo s"
    using g(2) C demo_binit(2) by (simp_all add: taken_def undisturbed_def)
  note u = upd_data_spec [OF t(1,3), of demo_super]
  have d: "demo_fs = upd_data p demo_super ?s" "demo_fp = p" by (simp_all add: demo_fs_def demo_fp_def g(1))
  have uf: "v7_mount (upd_data p demo_super ?s) = v7_mount ?s" "v7_u (upd_data p demo_super ?s) = v7_u s"
    "v7_inode (upd_data p demo_super ?s) = v7_inode s" by (simp_all add: upd_data_def upd_buf_def)
  show "cache_ok demo_fs" "busy demo_fs = {demo_fp}" using u(1,2) t(2) d by simp_all
  show "super demo_fs demo_fp" using u(2) t(3) uf(1) g(3) unfolding d super_def by (simp add: off_disk_def buf_tag_def)
  have "io_frame ?s (upd_data p demo_super ?s)" using u(3) by (simp add: undisturbed_def)
  then show "dsk_inrange demo_fs b \<longleftrightarrow> 0 \<le> b \<and> b < 64"
    using io_frame_inrange [of ?s] C(3) io_frame_inrange [OF fr] demo_inrange [of b] by (simp add: d)
  show "\<exists>e. bdata demo_fs demo_fp = demo_super e" unfolding d by (rule exI) (simp add: upd_data_fields)
  show "v7_u demo_fs = zero_user" "v7_inode demo_fs = (\<lambda>_. zero_inode)"
    using uf io_frame_fields [OF fr] demo_binit d by simp_all
qed

lemma demo_unheld: "0 \<le> b \<Longrightarrow> b < 64 \<Longrightarrow> unheld demo_fs b"
  using demo_fs_facts(2,3) demo_fs_facts(4) [of b] by (auto simp: unheld_def super_def off_disk_def)

lemma demo_fs_inv: "fs_inv demo_fp demo_fs [10]"
proof -
  obtain d where d: "bdata demo_fs demo_fp = demo_super d" using demo_fs_facts(5) by blast
  have "chain (view demo_fs) 1 (sb_entry (demo_super d)) []" by (rule chain_end) (rule demo_super_fields)
  then have "chain (view demo_fs) (1 + 1) (sb_entry (demo_super d)) (sb_entry (demo_super d) (nat 1) # [])"
    by (rule chain_entry) simp_all
  then have "chain (view demo_fs) 2 (sb_entry (demo_super d)) [10]" using demo_super_fields(3) [of d] by simp
  moreover have "busy demo_fs \<noteq> pool" using demo_fs_facts(2) pool_not_single by simp
  moreover have "unheld demo_fs 10" by (rule demo_unheld) simp_all
  ultimately show ?thesis
    using demo_fs_facts(1,3) demo_fs_facts(4) [of 10]
    by (simp add: fs_inv_def freelist_def d demo_super_fields data_block_def)
qed

lemma demo_fs_mine: "fs_mine demo_fp demo_fs [10] 11"
  using demo_fs_facts(5) demo_fs_facts(4) [of 11] demo_unheld [of 11]
  by (auto simp: fs_mine_def data_block_def demo_super_fields)

lemma demo_view: "0 \<le> b \<Longrightarrow> b < 64 \<Longrightarrow> view demo_fs b = zeroblk"
proof -
  assume b: "0 \<le> b" "b < 64"
  have "busy demo \<noteq> pool" using demo_binit(2) pool_nonempty by simp
  then obtain p s where g: "geteblk demo = Some (p, s)" "taken demo p s" "b_dev (v7_buf s p) = NODEV"
    using geteblk_spec [OF demo_cache_ok] by blast
  let ?s = "s\<lparr>v7_mount := (v7_mount s)(0 := \<lparr>m_dev = 0, m_bufp = Some p, m_inodp = None\<rparr>)\<rparr>"
  have C: "cache_ok ?s = cache_ok s" "view ?s = view s" "busy ?s = busy s" by (rule cache_ok_cong; simp)+
  have t: "cache_ok ?s" "p \<in> busy ?s" using g(2) C by (simp_all add: taken_def)
  have "view demo_fs b = view ?s b" using upd_data_spec(4) [OF t, of demo_super] g(3) by (simp add: demo_fs_def g(1))
  also have "\<dots> = view demo b" using g(2) C(2) b demo_inrange [of b] by (simp add: taken_def)
  also have "\<dots> = zeroblk" by (simp add: view_def demo_binit)
  finally show ?thesis .
qed

text \<open>An inode in core, changed since it was read: a file with a block and a single indirect block.\<close>

definition demo_inode :: inode where
  "demo_inode = zero_inode\<lparr>i_flag := {IUPD, ICHG}, i_count := 1, i_dev := 0, i_number := 3, i_mode := 33188, i_nlink := 1,
     i_uid := 7, i_gid := 8, i_size := 5632, i_addr := (\<lambda>_. 0)(0 := 12, 10 := 13)\<rparr>"

definition demo_ino :: kernel where
  "demo_ino = upd_inode 0 (\<lambda>_. demo_inode) demo_fs"

lemma demo_ino_facts:
  "cache_ok demo_ino" "busy demo_ino = {demo_fp}" "super demo_ino demo_fp" "dsk_inrange demo_ino b \<longleftrightarrow> 0 \<le> b \<and> b < 64"
  "bdata demo_ino p = bdata demo_fs p" "v7_inode demo_ino = (\<lambda>_. zero_inode)(0 := demo_inode)" "view demo_ino = view demo_fs"
  "0 \<le> c \<Longrightarrow> c < 64 \<Longrightarrow> room demo_ino c"
proof -
  note S = inode_step_upd(1) [where ip = 0 and s = demo_fs and f = "\<lambda>_. demo_inode"]
  note C = inode_step_cache [OF S, folded demo_ino_def]
  show ok: "cache_ok demo_ino" and bu: "busy demo_ino = {demo_fp}" and "dsk_inrange demo_ino b \<longleftrightarrow> 0 \<le> b \<and> b < 64"
    "view demo_ino = view demo_fs" using C demo_fs_facts by simp_all
  show "bdata demo_ino p = bdata demo_fs p" "v7_inode demo_ino = (\<lambda>_. zero_inode)(0 := demo_inode)"
    using demo_fs_facts(7) by (simp_all add: demo_ino_def upd_inode_def fun_eq_iff)
  show "super demo_ino demo_fp"
    using demo_fs_facts(3) C by (simp add: super_def off_disk_def demo_ino_def upd_inode_def)
  show "room demo_ino c" if "0 \<le> c" "c < 64"
    using demo_unheld [OF that] bu C pool_not_single [of demo_fp] by (simp add: room_iff [OF ok] unheld_def demo_fs_facts(2))
qed

lemma demo_fs_rootdev: "v7_rootdev demo_fs = 0"
proof -
  have "busy demo \<noteq> pool" using demo_binit(2) pool_nonempty by simp
  then obtain p s where g: "geteblk demo = Some (p, s)" "taken demo p s"
    using geteblk_spec [OF demo_cache_ok] by blast
  have "v7_rootdev s = 0" using g(2) io_frame_fields(5) [of demo s] demo_binit(10) by (simp add: taken_def undisturbed_def)
  then show ?thesis by (simp add: demo_fs_def g(1) upd_data_def upd_buf_def)
qed

lemma demo_not_initialized: "\<not> v7fs_initialized demo"
proof -
  have c: "v7_nblkdev demo_core = 0" "\<And>p. b_left (v7_buf demo_core p) = (0, 0)" "B_TAPE \<notin> bflags demo_core Rootdsktab"
    by (simp_all add: demo_core_def Let_def demo_buf_def)
  show ?thesis using binit_spec(4) [OF c] unfolding io_frame_def demo_def by (simp add: demo_core_def Let_def)
qed

lemma demo_files: "v7_file demo = (\<lambda>_. zero_file)"
proof -
  have c: "v7_nblkdev demo_core = 0" "\<And>p. b_left (v7_buf demo_core p) = (0, 0)" "B_TAPE \<notin> bflags demo_core Rootdsktab"
    by (simp_all add: demo_core_def Let_def demo_buf_def)
  show ?thesis using binit_spec(4) [OF c] unfolding io_frame_def demo_def by (simp add: demo_core_def Let_def)
qed

lemma demo_super_at: obtains d where "bdata demo_fs demo_fp = demo_super d"
  using demo_fs_facts(5) by blast

lemma pool_not_pair: "insert p {q} \<noteq> pool"
proof
  assume e: "insert p {q} = pool"
  have "{Buf 0, Buf 1, Buf 2} \<subseteq> pool" by (simp add: pool_def)
  then have "card {Buf 0, Buf 1, Buf 2} \<le> card (insert p {q})" unfolding e by (rule card_mono [OF pool_simps(3)])
  moreover have "card (insert p {q}) \<le> 2" by (simp add: card_insert_if)
  ultimately show False by simp
qed

text \<open>The file open for reading and writing.\<close>

definition demo_open :: kernel where
  "demo_open = upd_file 0 (\<lambda>f. f\<lparr>f_flag := {FREAD, FWRITE}, f_count := 1, f_inode := 0, f_offset := 0\<rparr>)
     (upd_u (\<lambda>u. u\<lparr>u_ofile := (u_ofile u)(0 \<mapsto> 0)\<rparr>) demo_ino)"

lemma demo_open_alike: "alike demo_ino demo_open"
  by (rule alike_step [OF demo_ino_facts(1)]) (simp_all add: demo_open_def upd_file_def upd_u_def)

lemma demo_open_facts:
  "cache_ok demo_open" "insert p (busy demo_open) \<noteq> pool" "open_for_read demo_open 0 0 0"
  "v7_inode demo_open = (\<lambda>_. zero_inode)(0 := demo_inode)"
proof -
  show i: "v7_inode demo_open = (\<lambda>_. zero_inode)(0 := demo_inode)"
    using demo_ino_facts(6) by (simp add: demo_open_def upd_file_def upd_u_def)
  show "cache_ok demo_open" using demo_open_alike by (simp add: alike_def)
  show "insert p (busy demo_open) \<noteq> pool"
    using demo_open_alike demo_ino_facts(2) pool_not_pair [of p demo_fp] by (simp add: alike_def)
  show "open_for_read demo_open 0 0 0"
    using i by (simp add: open_for_read_def demo_open_def upd_file_def upd_u_def is_file_def demo_inode_def)
qed

lemma demo_readable:
  assumes "0 \<le> bn" "bn < 11"
  shows "block_readable demo_open (i_addr demo_inode) bn"
proof -
  have ir: "dsk_inrange demo_open b \<longleftrightarrow> 0 \<le> b \<and> b < 64" "0 \<le> b \<Longrightarrow> b < 64 \<Longrightarrow> room demo_open b"
    "0 \<le> b \<Longrightarrow> b < 64 \<Longrightarrow> view demo_open b = zeroblk" for b
    using demo_open_alike demo_ino_facts(4,8) [of b] demo_ino_facts(7) demo_view [of b] by (auto simp: alike_def)
  have ad: "i_addr demo_inode k = (if k = 0 then 12 else if k = 10 then 13 else 0)" for k by (simp add: demo_inode_def)
  consider "bn = 0" | "1 \<le> bn" "bn < 10" | "bn = 10" using assms by linarith
  then show ?thesis
    by cases (simp_all add: block_readable_def file_block_ok_def file_block_def bmap_path_def ad ir Let_def)
qed

lemma demo_tnode:
  assumes "r \<in> tpaths"
  shows "tn demo_open 0 r = (if r = (0, []) then 12 else if r = (10, []) then 13 else 0)"
proof (rule tnode_unique [OF _ _ assms])
  have v: "view demo_open 12 = zeroblk" "view demo_open 13 = zeroblk"
    using demo_open_alike demo_ino_facts(4,7) demo_view [of 12] demo_view [of 13] by (auto simp: alike_def)
  fix i ks k assume "(i, ks @ [k]) \<in> tpaths"
  show "(if (i, ks @ [k]) = (0, []) then 12 else if (i, ks @ [k]) = (10, []) then 13 else 0)
    = (if (if (i, ks) = (0, []) then 12 else if (i, ks) = (10, []) then 13 else 0) = (0::int) then 0
       else addr_at (view demo_open) (if (i, ks) = (0, []) then 12 else if (i, ks) = (10, []) then 13 else 0) k)"
    using v by auto
qed (use demo_open_facts(4) in \<open>simp add: demo_inode_def\<close>)

text \<open>A write of 100 bytes at 500 is in the blocks 0 and 1 of the file, and the second is missing.\<close>

lemma demo_places: "write_places 500 100 = {(0, []), (1, [])}"
proof -
  have "{(500::int) div 512 .. (500 + 100 - 1) div 512} = {0, 1}" by auto
  then show ?thesis by (auto simp: write_places_def bmap_path_def upto_place_def)
qed

lemma demo_file_inv_at:
  assumes Q: "Q \<subseteq> tpaths" "finite Q" "card {q \<in> Q. tn demo_open 0 q = 0} \<le> 1"
  shows "file_inv demo_fp 0 Q [10] demo_open"
proof -
  have S: "same_store demo_fs demo_open" by (simp add: same_store_def demo_open_def demo_ino_def upd_file_def upd_u_def upd_inode_def)
  note C = same_store_cong [OF S]
  have "tb demo_open 0 \<subseteq> {12, 13}" using demo_tnode by (auto simp: tblocks_def split: if_splits)
  moreover have "fs_mine demo_fp demo_fs [10] c" if "c \<in> {12, 13}" for c
    using that demo_fs_facts(5) demo_fs_facts(4) [of c] demo_unheld [of c] by (auto simp: fs_mine_def data_block_def demo_super_fields)
  ultimately have m: "\<forall>c \<in> tb demo_open 0. fs_mine demo_fp demo_open [10] c" using C(9) by auto
  have us: "unshared (view demo_open) (i_addr (v7_inode demo_open 0))" using demo_tnode by (auto simp: unshared_def split: if_splits)
  have f: "freelist demo_open demo_fp [10]" using demo_fs_inv C(8) by (simp add: fs_inv_def)
  have d: "i_dev (v7_inode demo_open 0) = 0" using demo_open_facts(4) by (simp add: demo_inode_def)
  show ?thesis unfolding file_inv_def using demo_open_facts(1,2) f d us m Q by auto
qed

lemma demo_file_inv: "file_inv demo_fp 0 {(0, []), (1, [])} [10] demo_open"
proof (rule demo_file_inv_at)
  have P: "(0, []) \<in> tpaths" "(1, []) \<in> tpaths" by (simp_all add: tpaths_Nil)
  then show "{(0, []), (1, [])} \<subseteq> tpaths" by simp
  have "{q \<in> {(0, []), (1, [])}. tn demo_open 0 q = 0} = {(1, [])}" using demo_tnode [OF P(1)] demo_tnode [OF P(2)] by auto
  then show "card {q \<in> {(0, []), (1, [])}. tn demo_open 0 q = 0} \<le> 1" by simp
qed simp

text \<open>The blocks 0 and 10 of the file: the second is missing in an indirect block that is there.\<close>

lemma demo_file_inv_indirect: "file_inv demo_fp 0 (write_places (512 * 0) 1 \<union> write_places (512 * 10) 1) [10] demo_open"
proof -
  have u: "upto_place (0, []) = {(0, [])}" "upto_place (10, [0]) = {(10, []), (10, [0])}"
    by (auto simp: upto_place_def take_Cons')
  have P: "(0, []) \<in> tpaths" "(10, []) \<in> tpaths" "(10, [0]) \<in> tpaths" by (simp_all add: tpaths_def depth_def)
  let ?Q = "{(0, []), (10, []), (10, [0])}"
  have "{q \<in> ?Q. tn demo_open 0 q = 0} = {(10, [0])}"
    using demo_tnode [OF P(1)] demo_tnode [OF P(2)] demo_tnode [OF P(3)] by auto
  then have "file_inv demo_fp 0 ?Q [10] demo_open" using P by (intro demo_file_inv_at) simp_all
  moreover have "write_places (512 * 0) 1 = {(0, [])}" "write_places (512 * 10) 1 = {(10, []), (10, [0])}"
    using write_places_block [of 0] write_places_block [of 10] u by (simp_all add: bmap_path_def)
  ultimately show ?thesis by (simp add: insert_commute)
qed

lemma demo_open_write: "open_for_write demo_open 0 0 0"
  using demo_open_facts(4) by (simp add: open_for_write_def demo_open_def upd_file_def upd_u_def is_file_def demo_inode_def)

end
