(* ===== verification/V7fs_Dirs.thy ===== *)
theory V7fs_Dirs
  imports V7fs
begin

text \<open>
  The directory operations of \<open>v7fs.c\<close>: \<open>v7fs_enumdir\<close>, \<open>v7fs_mkdir\<close>, \<open>v7fs_rmdir\<close>,
  \<open>v7fs_rename\<close> with its helpers, and \<open>v7fs_statfs\<close>. The function an enumeration calls for
  each entry is an argument; it works on a context of its own.
\<close>

section \<open>Enumerating a directory\<close>

text \<open>The directory entry in the local variable, and its name as a C string.\<close>

definition local_ino :: "kernel \<Rightarrow> int" where
  "local_ino s = d_ino (h_local (host s))"

definition local_name :: "kernel \<Rightarrow> string" where
  "local_name s = map (\<lambda>b. char_of (unat b))
     (takeWhile (\<lambda>b. b \<noteq> 0) (map (d_name (h_local (host s))) [0..<DIRSIZ]))"

definition clear_local :: "kernel \<Rightarrow> kernel" where
  "clear_local s = s\<lparr>host := (host s)\<lparr>h_local := copy_bytes 17 0 (h_local (host s)) 0 zeroblk\<rparr>\<rparr>"

text \<open>The loop: the last \<open>readRes\<close>, the inode that is still referenced, and the context.\<close>

partial_function (option) enum_loop :: "int \<Rightarrow> (string \<Rightarrow> hstat \<Rightarrow> 'c \<Rightarrow> int \<times> 'c) \<Rightarrow> 'c \<Rightarrow> kernel
    \<Rightarrow> (int \<times> nat option \<times> 'c \<times> kernel) option" where
  "enum_loop fd f ctx s =
     Option.bind (v7fs_read fd (Ulocal 0) DIRECTSZ s) (\<lambda>(readRes, s).
       if readRes \<le> 0 then Some (readRes, None, ctx, s)
       else if readRes < int DIRECTSZ then Some (0, None, ctx, s)
       else if local_ino s = 0 then enum_loop fd f ctx s
       else Option.bind (iget (v7_rootdev s) (u16 (wswap_int16 (local_ino s))) (set_error 0 s)) (\<lambda>(r, s).
         case r of
           None \<Rightarrow> Some (- uerror s, None, ctx, s)
         | Some ip \<Rightarrow>
             Option.bind (stat1 ip 0 (set_error 0 s)) (\<lambda>(v, s).
               if uerror s \<noteq> 0 then Some (- uerror s, Some ip, ctx, s)
               else Option.bind (v7fs_convertstat v s) (\<lambda>st.
                 let (res, ctx) = f (local_name s) st ctx in
                 if res < 0 then Some (res, Some ip, ctx, s)
                 else Option.bind (iput ip s) (\<lambda>s. enum_loop fd f ctx s)))))"

definition v7fs_enumdir :: "string \<Rightarrow> (string \<Rightarrow> hstat \<Rightarrow> 'c \<Rightarrow> int \<times> 'c) \<Rightarrow> 'c \<Rightarrow> kernel
    \<Rightarrow> (int \<times> 'c \<times> kernel) option" where
  "v7fs_enumdir pathname f ctx s = do {
     (fd, s) \<leftarrow> v7fs_open pathname {O_RDONLY} 0 (clear_local (begin_call s));
     if fd < 0 then Some (fd, ctx, s)
     else do {
       (res, ip, ctx, s) \<leftarrow> enum_loop fd f ctx s;
       s \<leftarrow> (case ip of Some i \<Rightarrow> iput i s | None \<Rightarrow> Some s);
       (_, s) \<leftarrow> v7fs_close fd s;
       Some (res, ctx, s) } }"

definition v7fs_failnonemptydir :: "string \<Rightarrow> hstat \<Rightarrow> unit \<Rightarrow> int \<times> unit" where
  "v7fs_failnonemptydir name st ctx =
     (if st_mode st AND IFMT = IFDIR \<and> (name = ''.'' \<or> name = ''..'') then (0, ctx)
      else (- ENOTEMPTY, ctx))"


section \<open>Making and removing directories\<close>

text \<open>
  A sequence of calls that stops at the first result that \<open>stop\<close> holds of.
\<close>

definition andthen :: "(int \<Rightarrow> bool) \<Rightarrow> (int \<times> kernel) option \<Rightarrow> (kernel \<Rightarrow> (int \<times> kernel) option)
    \<Rightarrow> (int \<times> kernel) option" where
  "andthen stop c k = do { (res, s) \<leftarrow> c; if stop res then Some (res, s) else k s }"

text \<open>The part of \<open>v7fs_mkdir\<close> after the directory's inode exists.\<close>

definition mkdir_fill :: "string \<Rightarrow> int \<Rightarrow> nat \<Rightarrow> kernel \<Rightarrow> (int \<times> kernel) option" where
  "mkdir_fill pathname mode ip s =
     andthen (\<lambda>r. r < 0) (do { s \<leftarrow> iput ip s; Some (- uerror s, s) }) (\<lambda>s.
     andthen (\<lambda>r. r < 0) (v7fs_link pathname (pathname @ ''/.'') s) (\<lambda>s.
     andthen (\<lambda>r. r < 0) (v7fs_link (dirname pathname) (pathname @ ''/..'') s) (\<lambda>s.
       do {
         (r, s) \<leftarrow> namei uchar 0 (set_dirp pathname (set_error 0 s));
         case r of
           None \<Rightarrow> Some (- uerror s, s)
         | Some ip \<Rightarrow>
             andthen (\<lambda>r. r < 0)
               (do {
                  let s = upd_inode ip (\<lambda>p. p\<lparr>i_uid := u_ruid (v7_u s)\<rparr>) s;
                  s \<leftarrow> iput ip (or_iflag ip {IUPD} s);
                  Some (- uerror s, s) })
               (\<lambda>s. v7fs_chmod pathname (mode AND 0xFFF) s) })))"

definition mkdir_undo :: "string \<Rightarrow> kernel \<Rightarrow> kernel option" where
  "mkdir_undo pathname s = do {
     (_, s) \<leftarrow> v7fs_unlink (pathname @ ''/..'') s;
     (_, s) \<leftarrow> v7fs_unlink (pathname @ ''/.'') s;
     (_, s) \<leftarrow> v7fs_unlink pathname s;
     Some s }"

definition v7fs_mkdir :: "string \<Rightarrow> int \<Rightarrow> kernel \<Rightarrow> (int \<times> kernel) option" where
  "v7fs_mkdir pathname mode s = do {
     let preveuid = s8 (u_uid (v7_u s));
     (r, s) \<leftarrow> namei uchar 1 (set_dirp pathname (begin_call s));
     (res, s) \<leftarrow>
       (case r of
          Some ip \<Rightarrow> do { s \<leftarrow> iput ip s; Some (- EEXIST, s) }
        | None \<Rightarrow>
            if - uerror s < 0 then Some (- uerror s, s)
            else do {
              (q, s) \<leftarrow> maknode (IFDIR OR 0x1C0) (set_uid 0 s);
              case q of
                None \<Rightarrow> Some (- uerror s, s)
              | Some ip \<Rightarrow> do {
                  (res, s) \<leftarrow> mkdir_fill pathname mode ip s;
                  s \<leftarrow> (if res \<noteq> 0 then mkdir_undo pathname s else Some s);
                  Some (res, s) } });
     Some (res, set_uid preveuid s) }"

definition v7fs_rmdir :: "string \<Rightarrow> kernel \<Rightarrow> (int \<times> kernel) option" where
  "v7fs_rmdir pathname s = do {
     let preveuid = s8 (u_uid (v7_u s));
     (res, st, s) \<leftarrow> v7fs_stat pathname s;
     (res, s) \<leftarrow>
       (if res < 0 then Some (res, s)
        else do {
          st \<leftarrow> st;
          if st_mode st AND IFMT \<noteq> IFDIR then Some (- ENOTDIR, s)
          else do {
            rd \<leftarrow> v7_rootdir s;
            if st_ino st = i_number (v7_inode s rd) then Some (- EBUSY, s)
            else do {
            (res, _, s) \<leftarrow> v7fs_enumdir pathname v7fs_failnonemptydir () s;
            if res < 0 then Some (res, s)
            else if basename pathname = ''.'' \<or> basename pathname = ''..'' then Some (- EINVAL, s)
            else
              andthen (\<lambda>r. r \<noteq> 0) (v7fs_unlink (pathname @ ''/..'') (set_uid 0 s)) (\<lambda>s.
              andthen (\<lambda>r. r \<noteq> 0) (v7fs_unlink (pathname @ ''/.'') s) (\<lambda>s.
                v7fs_unlink pathname s)) } } });
     Some (res, set_uid preveuid s) }"


section \<open>Renaming\<close>

text \<open>\<open>v7fs_isindir\<close>: the walk up the directories of a path.\<close>

partial_function (option) v7fs_isindir :: "string \<Rightarrow> int \<Rightarrow> kernel \<Rightarrow> (int \<times> kernel) option" where
  "v7fs_isindir pathname dirnum s =
     (let p = dirname pathname in
      Option.bind (namei uchar 1 (set_dirp p s)) (\<lambda>(r, s).
        Option.bind
          (case r of
             Some ip \<Rightarrow> Option.bind (iput ip s) (\<lambda>s'. Some (of_bool (i_number (v7_inode s ip) = dirnum), s'))
           | None \<Rightarrow> if uerror s \<noteq> ENOENT then Some (- uerror s, s) else Some (0, s)) (\<lambda>(res, s).
          if res = 0 \<and> p \<noteq> ''/'' \<and> p \<noteq> ''.'' then v7fs_isindir p dirnum s else Some (res, s))))"

text \<open>The scan of \<open>v7fs_reparentdir\<close> for the \<open>..\<close> entry.\<close>

partial_function (option) dotdot_loop :: "int \<Rightarrow> kernel \<Rightarrow> (int \<times> kernel) option" where
  "dotdot_loop fd s =
     Option.bind (v7fs_read fd (Ulocal 0) DIRECTSZ s) (\<lambda>(res, s).
       if res < 0 then Some (res, s)
       else if res < int DIRECTSZ then Some (- EIO, s)
       else let d = h_local (host s) in
         if d_name d 0 = 46 \<and> d_name d 1 = 46 \<and> d_name d 2 = 0 then Some (0, s)
         else dotdot_loop fd s)"

text \<open>The rewriting of the entry once it is found; the second result is \<open>oldparentip\<close>.\<close>

definition reparent_entry :: "int \<Rightarrow> nat \<Rightarrow> kernel \<Rightarrow> (int \<times> nat option \<times> kernel) option" where
  "reparent_entry fd np s =
     (if wswap_int16 (local_ino s) = i_number (v7_inode s np) then Some (0, None, s)
      else do {
        (r, s) \<leftarrow> iget (i_dev (v7_inode s np)) (u16 (wswap_int16 (local_ino s))) s;
        case r of
          None \<Rightarrow> Some (- EIO, None, s)
        | Some op \<Rightarrow> do {
            let s = or_iflag op {IACC} (upd_inode op (\<lambda>p. p\<lparr>i_nlink := s16 (i_nlink p - 1)\<rparr>) s);
            s \<leftarrow> iupdat op Time Time s;
            if uerror s \<noteq> 0 then Some (- uerror s, Some op, s)
            else do {
              let s = s\<lparr>host := (host s)\<lparr>h_local :=
                    set_d_ino (wswap_int16 (i_number (v7_inode s np))) (h_local (host s))\<rparr>\<rparr>;
              let (res, s) = v7fs_seek fd (- int DIRECTSZ) SEEK_CUR s;
              if res < 0 then Some (res, Some op, s)
              else do {
                (res, s) \<leftarrow> v7fs_write fd (Ulocal 0) DIRECTSZ s;
                if res < 0 then Some (res, Some op, s)
                else if res < int DIRECTSZ then Some (- EIO, Some op, s)
                else do {
                  let s = or_iflag np {IACC} (upd_inode np (\<lambda>p. p\<lparr>i_nlink := s16 (i_nlink p + 1)\<rparr>) s);
                  s \<leftarrow> iupdat np Time Time s;
                  Some (- uerror s, Some op, s) } } } } })"

definition v7fs_reparentdir :: "string \<Rightarrow> kernel \<Rightarrow> (int \<times> kernel) option" where
  "v7fs_reparentdir pathname s = do {
     (r, s) \<leftarrow> namei uchar 0 (set_dirp (dirname pathname) s);
     case r of
       None \<Rightarrow> Some (- uerror s, s)
     | Some np \<Rightarrow> do {
         (fd, s) \<leftarrow> v7fs_open pathname {O_RDONLY} 0 (clr_iflag np {ILOCK} s);
         (res, op, s) \<leftarrow>
           (if fd < 0 then Some (fd, None, s)
            else do {
              fp \<leftarrow> u_ofile (v7_u s) (nat fd);
              let s = upd_file fp (\<lambda>f. f\<lparr>f_flag := f_flag f \<union> {FWRITE}\<rparr>) s;
              (res, s) \<leftarrow> dotdot_loop fd s;
              if res < 0 then Some (res, None, s) else reparent_entry fd np s });
         s \<leftarrow> (if fd \<noteq> - 1 then do { (_, s) \<leftarrow> v7fs_close fd s; Some s } else Some s);
         s \<leftarrow> iput np s;
         s \<leftarrow> (case op of Some i \<Rightarrow> iput i s | None \<Rightarrow> Some s);
         Some (res, s) } }"

text \<open>
  \<open>v7fs_rename\<close> in three parts: the checks, with what they found (the destination to remove
  first) or the result to return with the inodes still held; then the changes.
\<close>

datatype rn_new = New_none | New_rmdir | New_unlink

definition rename_dest :: "nat \<Rightarrow> bool \<Rightarrow> string \<Rightarrow> kernel
    \<Rightarrow> ((int \<times> nat option + rn_new) \<times> kernel) option" where
  "rename_dest oldip isdir newpath s = do {
     (r, s) \<leftarrow> namei schar 0 (set_dirp newpath s);
     case r of
       None \<Rightarrow> Some (Inr New_none, s)
     | Some newip \<Rightarrow>
         if i_number (v7_inode s oldip) = i_number (v7_inode s newip) then Some (Inl (0, Some newip), s)
         else if i_mode (v7_inode s newip) AND IFMT = IFDIR then
           (if i_mode (v7_inode s oldip) AND IFMT \<noteq> IFDIR then Some (Inl (- EISDIR, Some newip), s)
            else do { s \<leftarrow> iput newip s; Some (Inr New_rmdir, s) })
         else if isdir then Some (Inl (- ENOTDIR, Some newip), s)
         else do { s \<leftarrow> iput newip s; Some (Inr New_unlink, s) } }"

definition rename_apply :: "string \<Rightarrow> string \<Rightarrow> bool \<Rightarrow> rn_new \<Rightarrow> kernel \<Rightarrow> (int \<times> kernel) option" where
  "rename_apply oldpath newpath isdir new s =
     andthen (\<lambda>r. r < 0)
       (case new of New_none \<Rightarrow> Some (0, s) | New_rmdir \<Rightarrow> v7fs_rmdir newpath s
          | New_unlink \<Rightarrow> v7fs_unlink newpath s) (\<lambda>s.
     andthen (\<lambda>r. r < 0) (v7fs_link oldpath newpath (set_uid 0 s)) (\<lambda>s.
     andthen (\<lambda>r. r < 0 \<or> \<not> isdir) (v7fs_unlink oldpath s) (\<lambda>s.
       v7fs_reparentdir newpath s)))"

definition put_opt :: "nat option \<Rightarrow> kernel \<Rightarrow> kernel option" where
  "put_opt ip s = (case ip of Some i \<Rightarrow> iput i s | None \<Rightarrow> Some s)"

definition v7fs_rename :: "string \<Rightarrow> string \<Rightarrow> kernel \<Rightarrow> (int \<times> kernel) option" where
  "v7fs_rename oldpath newpath s = do {
     let preveuid = s8 (u_uid (v7_u s));
     (r, s) \<leftarrow> namei schar 0 (set_dirp oldpath (begin_call s));
     (res, s) \<leftarrow>
       (case r of
          None \<Rightarrow> Some (- uerror s, s)
        | Some oldip \<Rightarrow> do {
            let s = clr_iflag oldip {ILOCK} s;
            let isdir = (i_mode (v7_inode s oldip) AND IFMT = IFDIR);
            if i_number (v7_inode s oldip) = ROOTINO \<or> v7fs_isdirlinkpath oldpath
               \<or> v7fs_isdirlinkpath newpath then do {
              s \<leftarrow> iput oldip s;
              Some (- EBUSY, s) }
            else do {
              (d, s) \<leftarrow> rename_dest oldip isdir newpath s;
              case d of
                Inl (res, newip) \<Rightarrow> do {
                  s \<leftarrow> iput oldip s;
                  s \<leftarrow> put_opt newip s;
                  Some (res, s) }
              | Inr new \<Rightarrow> do {
                  (res, s) \<leftarrow> (if isdir then v7fs_isindir newpath (s16 (i_number (v7_inode s oldip))) s
                             else Some (0, s));
                  s \<leftarrow> iput oldip s;
                  if res < 0 then Some (res, s)
                  else if res \<noteq> 0 then Some (- EINVAL, s)
                  else rename_apply oldpath newpath isdir new s } } });
     Some (res, set_uid preveuid s) }"


section \<open>Statistics of the file system\<close>

record statvfs =
  f_bsize :: int
  f_frsize :: int
  f_blocks :: int
  f_bfree :: int
  f_bavail :: int
  f_files :: int
  f_ffree :: int
  f_favail :: int
  f_namemax :: int

text \<open>
  The walk along the chain of the free list: \<open>Inl\<close> the error returned, \<open>Inr\<close> the number of
  free blocks.
\<close>

partial_function (option) count_free :: "bufp \<Rightarrow> int \<Rightarrow> int \<Rightarrow> int \<Rightarrow> int \<Rightarrow> kernel
    \<Rightarrow> ((int + int) \<times> kernel) option" where
  "count_free fp nfree nextfblk len bfree s =
     (if nfree < 0 \<or> nfree > NICFREE
      then Some (Inl (- EIO), v7_printf ''V7FS ERROR: bad free count in free list'' s)
      else
        let bfree = (if nfree > 0 then bfree + (if nextfblk \<noteq> 0 then nfree else nfree - 1) else bfree) in
        if nfree = 0 \<or> nextfblk = 0 then Some (Inr bfree, s)
        else if len + 1 > wswap_int32 (s_fsize (bdata s fp))
        then Some (Inl (- EIO), v7_printf ''V7FS ERROR: loop detected in free list'' s)
        else if fst (badblock fp nextfblk (v7_rootdev s) s)
        then Some (Inl (- EIO), v7_printf ''V7FS ERROR: invalid block number on free list''
               (snd (badblock fp nextfblk (v7_rootdev s) s)))
        else Option.bind (bread (v7_rootdev s) nextfblk s) (\<lambda>(bp, s).
          let s = geterror bp s in
          if uerror s \<noteq> 0 then Some (Inl (- uerror s), s)
          else count_free fp (wswap_int16 (df_nfree (bdata s bp))) (wswap_int32 (df_free (bdata s bp) 0))
                 (len + 1) bfree (brelse bp s)))"

partial_function (option) count_ifree :: "bufp \<Rightarrow> int \<Rightarrow> int \<Rightarrow> kernel \<Rightarrow> ((int + int) \<times> kernel) option" where
  "count_ifree fp blk ffree s =
     (if blk < wswap_int16 (s_isize (bdata s fp)) then
        Option.bind (bread (v7_rootdev s) blk s) (\<lambda>(bp, s).
          let s = geterror bp s in
          if uerror s \<noteq> 0 then Some (Inl (- uerror s), s)
          else
            let k = length (filter (\<lambda>i. di_mode (bdata s bp) (64 * i) = 0) [0..<INOPB]) in
            count_ifree fp (blk + 1) (ffree + int k) (brelse bp s))
      else Some (Inr ffree, s))"

definition v7fs_statfs :: "string \<Rightarrow> kernel \<Rightarrow> (int \<times> statvfs option \<times> kernel) option" where
  "v7fs_statfs pathname s = do {
     s \<leftarrow> update (begin_call s);
     (fp, s) \<leftarrow> getfs (v7_rootdev s) s;
     let blocks = u64 (wswap_int32 (s_fsize (bdata s fp)));
     let files = u64 ((wswap_int16 (s_isize (bdata s fp)) - 2) * int INOPB);
     (r, s) \<leftarrow> count_free fp (wswap_int16 (s_nfree (bdata s fp))) (wswap_int32 (s_free (bdata s fp) 0)) 0 0 s;
     case r of
       Inl e \<Rightarrow> Some (e, None, s)
     | Inr bfree \<Rightarrow> do {
         (q, s) \<leftarrow> count_ifree fp 2 0 s;
         case q of
           Inl e \<Rightarrow> Some (e, None, s)
         | Inr ffree \<Rightarrow>
             Some (0, Some \<lparr>f_bsize = 512, f_frsize = 512, f_blocks = blocks, f_bfree = bfree,
               f_bavail = bfree, f_files = files, f_ffree = ffree, f_favail = ffree,
               f_namemax = int DIRSIZ\<rparr>, s) } }"

end
