(* ===== verification/Statfs_Spec.thy ===== *)
theory Statfs_Spec
  imports V7fs_Dirs Alloc_Spec
begin

text \<open>
  The walk of \<open>v7fs_statfs\<close> along the chain of tables counts the free list: it returns, leaves the
  cache as it was, and its result is the length of the list that \<open>alloc\<close> and \<open>free\<close> work on.
\<close>

text \<open>A chain by tables instead of by entries.\<close>

lemma chain_tables:
  assumes "chain V n e xs"
  shows "n = 0 \<and> xs = [] \<or> 1 \<le> n \<and> e 0 = 0 \<and> int (length xs) = n - 1
    \<or> (\<exists>b pre ys. 1 \<le> n \<and> e 0 = b \<and> b \<noteq> 0 \<and> xs = pre @ b # ys \<and> int (length pre) = n - 1
        \<and> 1 \<le> fb_count (V b) \<and> chain V (fb_count (V b)) (fb_entry (V b)) ys)"
  using assms
proof (induction rule: chain.induct)
  case (chain_entry n e xs)
  then consider "e 0 = 0" "int (length xs) = n - 1"
    | b pre ys where "e 0 = b" "b \<noteq> 0" "xs = pre @ b # ys" "int (length pre) = n - 1"
      "1 \<le> fb_count (V b)" "chain V (fb_count (V b)) (fb_entry (V b)) ys"
    by auto
  then show ?case
  proof cases
    case 1
    then show ?thesis using chain_entry.hyps(2) by simp
  next
    case 2
    then have "e (nat n) # xs = (e (nat n) # pre) @ b # ys" "int (length (e (nat n) # pre)) = (n + 1) - 1" by simp_all
    then show ?thesis using 2(1,2,5,6) chain_entry.hyps(2) by fastforce
  qed
qed fastforce+

lemma count_free_ok:
  assumes "cache_ok s" "super s fp" "busy s \<noteq> pool" "v7_rootdev s = 0" "uerror s = 0" "chain (view s) n e xs"
    "\<forall>b \<in> set xs. data_block s fp b \<and> unheld s b" "xs = [] \<or> len + int (length xs) \<le> wswap_int32 (s_fsize (bdata s fp))"
  shows "\<exists>t. count_free fp n (e 0) len acc s = Some (Inr (acc + int (length xs)), t) \<and> quiet fp {} s t
    \<and> bdata t fp = bdata s fp"
  using assms
proof (induction "length xs" arbitrary: s n e xs len acc rule: less_induct)
  case less
  note n = chain_count [OF less.prems(6)]
  have qs: "quiet fp {} s s" using less.prems(1) by (simp add: quiet_def undisturbed_def)
  consider "n = 0 \<or> e 0 = 0" "int (length xs) = (if n = 0 then 0 else n - 1)"
    | b pre ys where "1 \<le> n" "e 0 = b" "b \<noteq> 0" "xs = pre @ b # ys" "int (length pre) = n - 1"
      "1 \<le> fb_count (view s b)" "chain (view s) (fb_count (view s b)) (fb_entry (view s b)) ys"
    using chain_tables [OF less.prems(6)] by auto
  then show ?case
  proof cases
    case 1
    then show ?thesis using qs n by (subst count_free.simps) auto
  next
    case 2
    have b: "data_block s fp b" "unheld s b" using less.prems(7) 2(4) by simp_all
    have rm: "room s b" "dsk_inrange s b"
      using unheld_room [OF less.prems(1,3) b(2)] b(1) by (simp_all add: data_block_def)
    obtain p t where t: "bread 0 b s = Some (p, t)" "B_ERROR \<notin> bflags t p" "trunc_blk (bdata t p) = view s b"
      "p \<noteq> fp" "bdata t fp = bdata s fp" and g: "\<And>g. quiet fp {} s (brelse p (upd_data fp g t))"
      "\<And>g. bdata (brelse p (upd_data fp g t)) fp = g (bdata s fp)"
      by (rule read_table [OF less.prems(1,2) rm]) blast
    let ?u = "brelse p t"
    have q: "quiet fp {} s ?u" "bdata ?u fp = bdata s fp" using g(1,2) [of "\<lambda>d. d"] by (simp_all add: upd_data_id)
    have tb: "wswap_int16 (df_nfree (bdata t p)) = fb_count (view s b)" "wswap_int32 (df_free (bdata t p) 0) = fb_entry (view s b) 0"
      using t(3) table_trunc(1) [of "bdata t p"] table_trunc(2) [of 0 "bdata t p"] by (simp_all add: fb_count_def fb_entry_def)
    have u: "cache_ok ?u" "super ?u fp" "busy ?u \<noteq> pool" "v7_rootdev ?u = 0" "uerror ?u = 0" "v7_rootdev s = 0"
      using q(1) quiet_super [OF less.prems(2) q(1)] less.prems(3-5) io_frame_fields [OF quiet_frame [OF q(1)]]
      by (simp_all add: quiet_def)
    have "v7_u t = v7_u s"
      using bread_spec [OF less.prems(1) rm(1)] t(1) io_frame_fields(1) by (auto simp: taken_def undisturbed_def)
    then have ue: "uerror t = 0" using less.prems(5) by simp
    have vy: "view ?u c = view s c" if "c \<in> set ys" for c
      using that q(1) less.prems(7) 2(4) by (auto simp: quiet_def data_block_def)
    have cy: "chain (view ?u) (fb_count (view s b)) (fb_entry (view s b)) ys" by (rule chain_cong [OF 2(7)]) (use vy in auto)
    have dy: "\<forall>c \<in> set ys. data_block ?u fp c \<and> unheld ?u c"
      using less.prems(7) 2(4) q(2) data_block_cong [of s fp ?u] quiet_frame [OF q(1)] unheld_quiet [OF q(1)]
      by (simp add: sb_same_def)
    have ln: "length ys < length xs" "ys = [] \<or> len + 1 + int (length ys) \<le> wswap_int32 (s_fsize (bdata ?u fp))"
      using 2(4) less.prems(8) q(2) by simp_all
    obtain v where v: "count_free fp (fb_count (view s b)) (fb_entry (view s b) 0) (len + 1) (acc + n) ?u
        = Some (Inr (acc + n + int (length ys)), v)" "quiet fp {} ?u v" "bdata v fp = bdata ?u fp"
      using less.hyps [OF ln(1) u(1-5) cy dy ln(2)] by blast
    have nb: "badblock fp b 0 s = (False, s)" using b(1) by (simp add: badblock_def data_block_def)
    have "count_free fp n (e 0) len acc s
        = count_free fp (fb_count (view s b)) (fb_entry (view s b) 0) (len + 1) (acc + n) ?u"
      using 2(1-3) n less.prems(8) 2(4) t(1,2) tb ue nb u(6)
      by (subst count_free.simps) (simp add: Let_def geterror_def)
    then show ?thesis using v q 2(4,5) quiet_trans [OF q(1) v(2)] by simp
  qed
qed

lemma freelist_size:
  assumes "freelist s fp xs"
  shows "xs = [] \<or> int (length xs) \<le> wswap_int32 (s_fsize (bdata s fp))"
proof (cases xs)
  case (Cons b ys)
  let ?i = "wswap_int16 (s_isize (bdata s fp))" and ?f = "wswap_int32 (s_fsize (bdata s fp))"
  have S: "set xs \<subseteq> {?i..<?f}" and i: "0 < ?i" "distinct xs" using assms by (auto simp: freelist_def data_block_def)
  have "card (set xs) \<le> nat (?f - ?i)" using card_mono [OF _ S] by simp
  moreover have "?i < ?f" using S Cons by auto
  ultimately show ?thesis using i distinct_card [of xs] by linarith
qed simp

end
