(* ===== verification/Mkfs.thy ===== *)
theory Mkfs
  imports V7fs
begin

text \<open>
  \<open>v7fs_mkfs\<close> and \<open>v7fs_initfreelist\<close> of \<open>v7fs.c\<close>: a new file system with its free list laid
  out with an interleave of \<open>m\<close> blocks in groups of \<open>n\<close>.
\<close>

abbreviation "V7FS_MAXFN \<equiv> 500 :: nat"

section \<open>The free list\<close>

text \<open>
  The loop that computes \<open>adr\<close>: from position \<open>i\<close>, the next one that is not flagged; \<open>j\<close>
  counts the entries that are left.
\<close>

partial_function (option) next_unflagged :: "(nat \<Rightarrow> bool) \<Rightarrow> nat \<Rightarrow> nat \<Rightarrow> nat option" where
  "next_unflagged flg n i = (if flg i then next_unflagged flg n ((i + 1) mod n) else Some i)"

fun interleave_loop :: "nat \<Rightarrow> nat \<Rightarrow> nat \<Rightarrow> (nat \<Rightarrow> bool) \<Rightarrow> nat \<Rightarrow> nat list option" where
  "interleave_loop n m 0 flg i = Some []"
| "interleave_loop n m (Suc j) flg i = do {
     i \<leftarrow> next_unflagged flg n i;
     adr \<leftarrow> interleave_loop n m j (flg(i := True)) ((i + m) mod n);
     Some ((i + 1) # adr) }"

text \<open>
  \<open>flg\<close> and \<open>adr\<close> have \<open>V7FS_MAXFN\<close> entries. The first loop clears the entries of \<open>flg\<close> below \<open>n\<close>, so a
  larger \<open>n\<close> stores outside of the array there, which is \<open>None\<close>. With \<open>n\<close> within the bound the other
  loops index below \<open>n\<close>, and the values of the \<open>int16_t\<close> variables \<open>i\<close> and \<open>j\<close> and of the entries
  of \<open>adr\<close> are at most \<open>n\<close>: the sums are taken as \<open>int\<close> and reduced by \<open>n\<close> before the store.
\<close>

definition interleave :: "16 word \<Rightarrow> 16 word \<Rightarrow> nat list option" where
  "interleave n m =
     (if unat n > V7FS_MAXFN then None
      else interleave_loop (unat n) (unat m) (unat n) (\<lambda>_. False) 0)"

text \<open>
  \<open>while (d % n) d++\<close>, where \<open>d\<close> is an \<open>int32_t\<close>: a value outside of its range is the overflow of the
  subtraction before the loop or of an increment, and the remainder by 0 is undefined.
\<close>

partial_function (option) round_up :: "nat \<Rightarrow> int \<Rightarrow> int option" where
  "round_up n d =
     (if n = 0 \<or> d < - 2147483648 \<or> d > 2147483647 then None
      else if d mod int n \<noteq> 0 then round_up n (d + 1) else Some d)"

definition initfree_one :: "bufp \<Rightarrow> int \<Rightarrow> nat \<Rightarrow> kernel \<Rightarrow> kernel option" where
  "initfree_one fp d a s =
     (let f = d - int a in
      if f < wswap_int32 (s_fsize (bdata s fp)) \<and> f \<ge> wswap_int16 (s_isize (bdata s fp))
      then free (v7_rootdev s) f s else Some s)"

partial_function (option) initfree_groups :: "bufp \<Rightarrow> nat \<Rightarrow> nat list \<Rightarrow> int \<Rightarrow> kernel \<Rightarrow> kernel option" where
  "initfree_groups fp n adr d s =
     (if d > 0 then
        Option.bind (for_each (initfree_one fp d) adr s) (\<lambda>s. initfree_groups fp n adr (d - int n) s)
      else Some s)"

definition v7fs_initfreelist :: "bufp \<Rightarrow> 16 word \<Rightarrow> 16 word \<Rightarrow> kernel \<Rightarrow> kernel option" where
  "v7fs_initfreelist fp n m s = do {
     adr \<leftarrow> interleave n m;
     d \<leftarrow> round_up (unat n) (wswap_int32 (s_fsize (bdata s fp)) - 1);
     initfree_groups fp (unat n) adr d s }"


section \<open>The parameters\<close>

definition mkfs_isize :: "int \<Rightarrow> int \<Rightarrow> int" where
  "mkfs_isize fssize isize =
     (if isize = 0 then
        let i = fssize div 25; i = (if i = 0 then 1 else i)
        in if i > 8187 then 8187 else i
      else isize)"

definition mkfs_fn :: "int \<Rightarrow> int" where
  "mkfs_fn fn = (if fn = 0 \<or> fn \<ge> int V7FS_MAXFN then int V7FS_MAXFN else fn)"

definition mkfs_fm :: "int \<Rightarrow> int \<Rightarrow> int" where
  "mkfs_fm fn fm = (if fm = 0 \<or> fm > mkfs_fn fn then 3 else fm)"


section \<open>The file system\<close>

definition mkfs_super :: "int \<Rightarrow> int \<Rightarrow> int \<Rightarrow> int \<Rightarrow> int \<Rightarrow> block \<Rightarrow> block" where
  "mkfs_super fssize isize fn fm now d =
     (let d = set_s_isize (wswap_int16 (isize + 2)) d;
          d = set_s_fsize (wswap_int32 fssize) d;
          d = set_s_n (wswap_int16 fn) d;
          d = set_s_m (wswap_int16 fm) d;
          d = set_s_tfree 0 d;
          d = set_s_tinode 0 d;
          d = set_s_time (wswap_int32 now) d
      in set_s_fmod 1 d)"

text \<open>The entries \<open>.\<close> and \<open>..\<close> of the root directory.\<close>

definition mkfs_rootdir :: "block \<Rightarrow> block" where
  "mkfs_rootdir d =
     (let d = d(2 := 46);
          d = st16 0 (wswap_int16 ROOTINO) d;
          d = d(18 := 46, 19 := 46)
      in st16 16 (wswap_int16 ROOTINO) d)"

text \<open>The first two inodes: the bad block file and the root directory.\<close>

definition mkfs_inodes :: "int \<Rightarrow> int \<Rightarrow> int \<Rightarrow> int \<Rightarrow> block \<Rightarrow> block" where
  "mkfs_inodes uid gid rootblk now d =
     (let d = st16 0 (wswap_int16 IFREG) d;
          d = st16 2 0 d;
          d = st16 4 0 d;
          d = st16 6 0 d;
          d = st32 8 0 d;
          d = st32 52 (wswap_int32 now) (st32 56 (wswap_int32 now) (st32 60 (wswap_int32 now) d));
          d = st16 64 (wswap_int16 (IFDIR OR 0x1FF)) d;
          d = st16 66 (wswap_int16 2) d;
          d = st16 68 (wswap_int16 uid) d;
          d = st16 70 (wswap_int16 gid) d;
          d = st32 72 (wswap_int32 32) d;
          d = d(76 := word_of_int (rootblk div 65536), 77 := word_of_int (rootblk div 256),
                78 := word_of_int rootblk)
      in st32 116 (wswap_int32 now) (st32 120 (wswap_int32 now) (st32 124 (wswap_int32 now) d)))"

text \<open>The loop over the blocks of the inode table; the first result is true after an error.\<close>

fun mkfs_itable :: "bufp \<Rightarrow> int \<Rightarrow> int list \<Rightarrow> kernel \<Rightarrow> (bool \<times> kernel) option" where
  "mkfs_itable fp rootblk [] s = Some (False, s)"
| "mkfs_itable fp rootblk (iblk # iblks) s = do {
     (bp, s) \<leftarrow> getblk (v7_rootdev s) (iblk + 2) s;
     let s = clrbuf bp s;
     let s = upd_data fp (\<lambda>d. set_s_tinode (wswap_int16 (wswap_int16 (s_tinode d) + int INOPB)) d) s;
     let s = (if iblk = 0 then
         (let s = upd_data bp (mkfs_inodes (u_uid (v7_u s)) (u_gid (v7_u s)) rootblk (v7_time s)) s
          in upd_data fp (\<lambda>d. set_s_tinode (wswap_int16 (wswap_int16 (s_tinode d) - 2)) d) s)
       else s);
     s \<leftarrow> bwrite bp s;
     if B_ERROR \<in> bflags s bp then Some (True, s) else mkfs_itable fp rootblk iblks s }"

definition mkfs_clear_free :: "bufp \<Rightarrow> kernel \<Rightarrow> kernel" where
  "mkfs_clear_free fp s =
     fold (\<lambda>i. upd_data fp (set_s_free i 0)) [nat (wswap_int16 (s_nfree (bdata s fp)))..<nat NICFREE] s"

text \<open>The superblock in memory, in the buffer of block \<open>-1\<close>, and mounted.\<close>

definition mkfs_mount :: "int \<Rightarrow> int \<Rightarrow> int \<Rightarrow> int \<Rightarrow> kernel \<Rightarrow> (bufp \<times> kernel) option" where
  "mkfs_mount fssize isize fn fm s = do {
     (fp, s) \<leftarrow> getblk (v7_rootdev s) (- 1) s;
     let s = clrbuf fp s;
     let s = upd_data fp (mkfs_super fssize isize fn fm (v7_time s)) s;
     Some (fp, s\<lparr>v7_mount := (v7_mount s)(0 := (v7_mount s 0)\<lparr>m_bufp := Some fp, m_dev := v7_rootdev s\<rparr>)\<rparr>) }"

text \<open>From there to the jump to \<open>exit\<close>.\<close>

definition mkfs_build :: "int \<Rightarrow> int \<Rightarrow> int \<Rightarrow> int \<Rightarrow> kernel \<Rightarrow> kernel option" where
  "mkfs_build fssize isize fn fm s = do {
     (fp, s) \<leftarrow> mkfs_mount fssize isize fn fm s;
     s \<leftarrow> v7fs_initfreelist fp (word_of_int fn) (word_of_int fm) s;
     if uerror s \<noteq> 0 then Some s
     else do {
       (r, s) \<leftarrow> alloc (v7_rootdev s) s;
       case r of
         None \<Rightarrow> Some s
       | Some bp \<Rightarrow> do {
           let rootblk = b_blkno (v7_buf s bp);
           s \<leftarrow> bwrite bp (upd_data bp mkfs_rootdir s);
           if B_ERROR \<in> bflags s bp then Some s
           else do {
             (err, s) \<leftarrow> mkfs_itable fp rootblk [0..isize - 1] s;
             if err then Some s else update (mkfs_clear_free fp s) } } } }"

text \<open>The clock, the cleared core, the device number of the root and the buffers, with no error.\<close>

definition mkfs_core :: "kernel \<Rightarrow> kernel" where
  "mkfs_core s =
     (let s = v7_zerocore (v7_refreshclock s);
          s = s\<lparr>v7_rootdev := makedev 0 0\<rparr>
      in set_error 0 (binit s))"

definition v7fs_mkfs :: "int \<Rightarrow> int \<Rightarrow> int \<Rightarrow> int \<Rightarrow> kernel \<Rightarrow> (int \<times> kernel) option" where
  "v7fs_mkfs fssize isize0 fln flm s =
     (let isize = mkfs_isize fssize isize0 in
      if v7fs_initialized s then Some (- EBUSY, s)
      else if fssize < 5 \<or> fssize > 16777215 then Some (- EINVAL, s)
      else if isize < 1 \<or> isize > 8192 \<or> isize > fssize - 4 then Some (- EINVAL, s)
      else do {
        s \<leftarrow> mkfs_build fssize isize (mkfs_fn fln) (mkfs_fm fln flm) (mkfs_core s);
        let s = v7_zerocore s;
        Some (- uerror s, s) })"

end
