(* ===== verification/Mkfs_Spec.thy ===== *)
theory Mkfs_Spec
  imports Mkfs Alloc_Spec
begin

text \<open>
  The free list that \<open>v7fs_initfreelist\<close> lays out. The interleave table is a permutation of the
  positions of a group, so every block of the data area that a group covers is freed once, and the
  list holds each of them exactly once.
\<close>

section \<open>The interleave table\<close>

lemma next_unflagged_ok:
  assumes "i < n" "\<exists>k < n. \<not> flg k"
  shows "\<exists>k < n. next_unflagged flg n i = Some k \<and> \<not> flg k"
proof -
  obtain k where k: "k < n" "\<not> flg k" using assms(2) by blast
  have ex: "\<exists>d. \<not> flg ((i + d) mod n)"
  proof (cases "i \<le> k")
    case True
    then show ?thesis using k by (intro exI [of _ "k - i"]) simp
  next
    case False
    then show ?thesis using k assms(1) by (intro exI [of _ "n + k - i"]) simp
  qed
  have "\<exists>k < n. next_unflagged flg n i = Some k \<and> \<not> flg k" if "\<not> flg ((i + d) mod n)" "i < n" for d i
    using that
  proof (induction d arbitrary: i)
    case 0
    then show ?case by (subst next_unflagged.simps) auto
  next
    case (Suc d)
    show ?case
    proof (cases "flg i")
      case True
      have "\<not> flg (((i + 1) mod n + d) mod n)" using Suc.prems(1) by (simp add: mod_add_left_eq)
      then show ?thesis using Suc.IH [of "(i + 1) mod n"] Suc.prems(2) True
        by (subst next_unflagged.simps) simp
    next
      case False
      then show ?thesis using Suc.prems(2) by (subst next_unflagged.simps) auto
    qed
  qed
  then show ?thesis using ex assms(1) by blast
qed

lemma interleave_loop_ok:
  assumes "i < n" "j = card {k. k < n \<and> \<not> flg k}"
  shows "\<exists>adr. interleave_loop n m j flg i = Some adr \<and> distinct adr \<and> set adr = Suc ` {k. k < n \<and> \<not> flg k}"
  using assms
proof (induction j arbitrary: flg i)
  case 0
  then have "{k. k < n \<and> \<not> flg k} = {}" by simp
  then show ?case by simp
next
  case (Suc j)
  let ?U = "{k. k < n \<and> \<not> flg k}"
  have "?U \<noteq> {}" using Suc.prems(2) by (metis card.empty nat.distinct(1))
  then obtain k where k: "k < n" "next_unflagged flg n i = Some k" "\<not> flg k"
    using next_unflagged_ok [OF Suc.prems(1), of flg] by blast
  have U: "?U = insert k {x. x < n \<and> \<not> (flg(k := True)) x}" using k by auto
  have "card ?U = Suc (card {x. x < n \<and> \<not> (flg(k := True)) x})" unfolding U by (subst card_insert_disjoint) auto
  then have c: "j = card {x. x < n \<and> \<not> (flg(k := True)) x}" using Suc.prems(2) by simp
  have "(k + m) mod n < n" using k(1) by simp
  from Suc.IH [OF this c] obtain adr where a: "interleave_loop n m j (flg(k := True)) ((k + m) mod n) = Some adr"
    "distinct adr" "set adr = Suc ` {x. x < n \<and> \<not> (flg(k := True)) x}" by blast
  then show ?case unfolding U using k(2) by auto
qed

lemma interleave_perm:
  assumes "unat n \<le> V7FS_MAXFN"
  shows "\<exists>adr. interleave n m = Some adr \<and> distinct adr \<and> set adr = {1..unat n}"
proof (cases "unat n = 0")
  case False
  have "{k. k < unat n} = {..<unat n}" by auto
  then have "Suc ` {k. k < unat n} = {1..unat n}" by (simp only: image_Suc_lessThan)
  then show ?thesis using interleave_loop_ok [of 0 "unat n" "unat n" "\<lambda>_. False" "unat m"] False assms by (simp add: interleave_def)
qed (use assms in \<open>simp add: interleave_def\<close>)

text \<open>The cycle length that \<open>v7fs_mkfs\<close> takes from a 16-bit parameter fits the tables.\<close>

lemma mkfs_fn_bounds:
  assumes "0 \<le> fln" "fln < 65536"
  shows "0 < unat (word_of_int (mkfs_fn fln) :: 16 word) \<and> unat (word_of_int (mkfs_fn fln) :: 16 word) \<le> V7FS_MAXFN"
proof -
  have "0 < mkfs_fn fln" "mkfs_fn fln \<le> 500" using assms by (simp_all add: mkfs_fn_def)
  moreover from this have "uint (word_of_int (mkfs_fn fln) :: 16 word) = mkfs_fn fln"
    by (simp add: uint_word_of_int)
  ultimately show ?thesis by (simp add: unat_eq_nat_uint)
qed

lemma round_up_ok:
  assumes "0 < n" "- 2147483648 \<le> d" "d + (- d) mod int n \<le> 2147483647"
  shows "round_up n d = Some (d + (- d) mod int n)"
  using assms(2,3)
proof (induction "nat ((- d) mod int n)" arbitrary: d)
  case 0
  then have z: "(- d) mod int n = 0" using assms by (simp add: order_antisym)
  then have "d mod int n = 0" by (simp add: mod_eq_0_iff_dvd)
  then show ?case using assms(1) z 0 by (subst round_up.simps) simp
next
  case (Suc k)
  have p: "0 \<le> (- d) mod int n" "(- d) mod int n < int n" using assms by simp_all
  then have nz: "(- d) mod int n = int k + 1" using Suc.hyps(2) by linarith
  have "(- (d + 1)) mod int n = (- d mod int n - 1) mod int n" by (simp add: mod_diff_left_eq)
  then have s: "(- (d + 1)) mod int n = int k" using nz p(2) by simp
  have "d mod int n \<noteq> 0" using nz by (auto simp: zmod_zminus1_eq_if split: if_splits)
  moreover have "d \<le> 2147483647" using Suc.prems(2) p(1) by linarith
  ultimately have "round_up n d = round_up n (d + 1)" using assms(1) Suc.prems(1) by (subst round_up.simps) simp
  also have "\<dots> = Some (d + 1 + (- (d + 1)) mod int n)" using Suc.hyps(1) [of "d + 1"] Suc.prems s nz by simp
  finally show ?case using s nz by simp
qed


section \<open>Freeing every block\<close>

definition fl_inv :: "bufp \<Rightarrow> int \<Rightarrow> int \<Rightarrow> kernel \<Rightarrow> int list \<Rightarrow> bool" where
  "fl_inv fp I F s xs \<longleftrightarrow> fs_inv fp s xs \<and> v7_rootdev s = 0 \<and> wswap_int16 (s_isize (bdata s fp)) = I
     \<and> wswap_int32 (s_fsize (bdata s fp)) = F \<and> (\<forall>b. I \<le> b \<longrightarrow> b < F \<longrightarrow> dsk_inrange s b \<and> unheld s b)"

lemma initfree_one_ok:
  assumes "fl_inv fp I F s xs" "d - int a \<notin> set xs"
  shows "\<exists>t. initfree_one fp d a s = Some t
    \<and> fl_inv fp I F t (if I \<le> d - int a \<and> d - int a < F then (d - int a) # xs else xs)"
proof (cases "I \<le> d - int a \<and> d - int a < F")
  case True
  let ?f = "d - int a"
  have A: "cache_ok s" "busy s \<noteq> pool" "freelist s fp xs" "v7_rootdev s = 0" "wswap_int16 (s_isize (bdata s fp)) = I"
    "wswap_int32 (s_fsize (bdata s fp)) = F" "data_block s fp ?f" "unheld s ?f"
    using assms(1) True by (simp_all add: fl_inv_def fs_inv_def data_block_def)
  obtain t where t: "free 0 ?f s = Some t" "quiet fp {?f} s t" "freelist t fp (?f # xs)" "sb_same (bdata s fp) (bdata t fp)"
    using free_spec [OF A(1,3,7,8) assms(2) A(2)] by blast
  have fr: "io_frame s t" by (rule quiet_frame [OF t(2)])
  have "fl_inv fp I F t (?f # xs)"
    using assms(1) t A unheld_quiet [OF t(2)] io_frame_inrange [OF fr] io_frame_fields(5) [OF fr]
    by (simp add: fl_inv_def fs_inv_def quiet_def sb_same_def)
  then show ?thesis using t(1) A True by (simp add: initfree_one_def Let_def)
next
  case False
  then show ?thesis using assms(1) by (auto simp: initfree_one_def fl_inv_def Let_def)
qed

lemma initfree_group_ok:
  assumes "fl_inv fp I F s xs" "distinct adr" "\<forall>a \<in> set adr. d - int a \<notin> set xs"
  shows "\<exists>t ys. for_each (initfree_one fp d) adr s = Some t \<and> fl_inv fp I F t ys
    \<and> set ys = set xs \<union> {b. I \<le> b \<and> b < F \<and> (\<exists>a \<in> set adr. b = d - int a)}"
  using assms
proof (induction adr arbitrary: s xs)
  case (Cons a adr)
  let ?xs = "if I \<le> d - int a \<and> d - int a < F then (d - int a) # xs else xs"
  obtain t where t: "initfree_one fp d a s = Some t" "fl_inv fp I F t ?xs"
    using initfree_one_ok [OF Cons.prems(1), of d a] Cons.prems(3) by auto
  have "\<forall>x \<in> set adr. d - int x \<notin> set ?xs" using Cons.prems(2,3) by auto
  then obtain u ys where u: "for_each (initfree_one fp d) adr t = Some u" "fl_inv fp I F u ys"
    "set ys = set ?xs \<union> {b. I \<le> b \<and> b < F \<and> (\<exists>a \<in> set adr. b = d - int a)}"
    using Cons.IH [OF t(2)] Cons.prems(2) by auto
  have "set ys = set xs \<union> {b. I \<le> b \<and> b < F \<and> (\<exists>x \<in> set (a # adr). b = d - int x)}"
    unfolding u(3) by (auto split: if_splits)
  then show ?case using t(1) u(1,2) by auto
qed auto

lemma initfree_groups_ok:
  assumes "fl_inv fp I F s xs" "distinct adr" "set adr = {1..n}" "0 < n" "\<forall>b \<in> set xs. int k * int n \<le> b"
  shows "\<exists>t ys. initfree_groups fp n adr (int k * int n) s = Some t \<and> fl_inv fp I F t ys
    \<and> set ys = set xs \<union> {b. I \<le> b \<and> b < F \<and> 0 \<le> b \<and> b < int k * int n}"
  using assms(1,5)
proof (induction k arbitrary: s xs)
  case 0
  then show ?case by (subst initfree_groups.simps) auto
next
  case (Suc k)
  let ?d = "int (Suc k) * int n"
  have d: "?d = int k * int n + int n" by (simp add: algebra_simps)
  have "\<forall>a \<in> set adr. ?d - int a \<notin> set xs" using Suc.prems(2) assms(3,4) by force
  then obtain t ys where t: "for_each (initfree_one fp ?d) adr s = Some t" "fl_inv fp I F t ys"
    "set ys = set xs \<union> {b. I \<le> b \<and> b < F \<and> (\<exists>a \<in> set adr. b = ?d - int a)}"
    using initfree_group_ok [OF Suc.prems(1) assms(2)] by blast
  have g: "(\<exists>a \<in> set adr. b = ?d - int a) \<longleftrightarrow> int k * int n \<le> b \<and> b < ?d" for b
  proof
    assume "int k * int n \<le> b \<and> b < ?d"
    then show "\<exists>a \<in> set adr. b = ?d - int a" using d unfolding assms(3) by (intro bexI [of _ "nat (?d - b)"]) auto
  qed (use d assms(3) in auto)
  have ge: "\<forall>b \<in> set ys. int k * int n \<le> b" using Suc.prems(2) d unfolding t(3) g by auto
  obtain u zs where u: "initfree_groups fp n adr (int k * int n) t = Some u" "fl_inv fp I F u zs"
    "set zs = set ys \<union> {b. I \<le> b \<and> b < F \<and> 0 \<le> b \<and> b < int k * int n}"
    using Suc.IH [OF t(2) ge] by blast
  have "0 < ?d" using assms(4) by simp
  moreover have "?d - int n = int k * int n" using d by simp
  ultimately have "initfree_groups fp n adr ?d s = Some u" using t(1) u(1) by (subst initfree_groups.simps) simp
  moreover have "set zs = set xs \<union> {b. I \<le> b \<and> b < F \<and> 0 \<le> b \<and> b < ?d}"
  proof -
    have "0 \<le> int k * int n" by simp
    then have "0 \<le> b" if "int k * int n \<le> b" for b using that by linarith
    then show ?thesis unfolding u(3) t(3) g using d by auto
  qed
  ultimately show ?case using u(2) by blast
qed

text \<open>The whole layout: all data blocks up to the last full group, each once.\<close>

lemma initfreelist_ok:
  assumes "fl_inv fp I F s []" "0 < unat n" "unat n \<le> V7FS_MAXFN" "0 < F" "F \<le> 16777215"
  shows "\<exists>t xs. v7fs_initfreelist fp n m s = Some t \<and> fl_inv fp I F t xs \<and> distinct xs
    \<and> set xs = {b. I \<le> b \<and> b < F \<and> b < F - 1 + (1 - F) mod int (unat n)}"
proof -
  obtain adr where adr: "interleave n m = Some adr" "distinct adr" "set adr = {1..unat n}" using interleave_perm [OF assms(3)] by blast
  define N where "N = unat n"
  let ?d = "F - 1 + (1 - F) mod int N"
  have N: "0 < N" "N \<le> 500" using assms(2,3) by (simp_all add: N_def)
  have "(1 - F) mod int N < int N" using N(1) by simp
  then have r: "round_up N (F - 1) = Some ?d" using round_up_ok [OF N(1), of "F - 1"] N(2) assms(4,5) by simp
  have "?d mod int N = 0" by (simp add: mod_add_right_eq)
  moreover have d0: "0 \<le> ?d" using N(1) assms(4) by simp
  ultimately obtain k where k: "?d = int k * int N"
    by (metis mod_0_imp_dvd dvd_def mult.commute zero_le_imp_eq_int int_dvd_int_iff of_nat_mult)
  obtain t ys where t: "initfree_groups fp N adr (int k * int N) s = Some t" "fl_inv fp I F t ys"
    "set ys = set [] \<union> {b. I \<le> b \<and> b < F \<and> 0 \<le> b \<and> b < int k * int N}"
    using initfree_groups_ok [OF assms(1) adr(2,3) assms(2), of k] by (auto simp: N_def)
  have "0 < I" "wswap_int32 (s_fsize (bdata s fp)) = F" "distinct ys"
    using assms(1) t(2) by (simp_all add: fl_inv_def fs_inv_def freelist_def)
  then show ?thesis
    using t adr(1) r k unfolding v7fs_initfreelist_def N_def [symmetric] by auto
qed


section \<open>The new superblock\<close>

lemma mkfs_super_fields:
  assumes "0 \<le> isize" "isize \<le> 8192" "0 \<le> fssize" "fssize \<le> 16777215"
  shows "wswap_int16 (s_isize (mkfs_super fssize isize fn fm now d)) = isize + 2"
    "wswap_int32 (s_fsize (mkfs_super fssize isize fn fm now d)) = fssize"
    "s_nfree (mkfs_super fssize isize fn fm now d) = s_nfree d" "s_flock (mkfs_super fssize isize fn fm now d) = s_flock d"
    "s_ninode (mkfs_super fssize isize fn fm now d) = s_ninode d" "s_tfree (mkfs_super fssize isize fn fm now d) = 0"
  using assms by (simp_all add: mkfs_super_def Let_def filsys_defs mem_simps s16_id s32_id)

lemma cleared_super: "s_nfree (copy_bytes 512 0 d 0 zeroblk) = 0" "s_flock (copy_bytes 512 0 d 0 zeroblk) = 0"
  "s_ninode (copy_bytes 512 0 d 0 zeroblk) = 0"
  by (simp_all add: filsys_defs mem_simps)

lemma mkfs_mount_ok:
  assumes ok: "cache_ok s" "busy s = {}" "v7_rootdev s = 0" and r: "\<And>b. 0 \<le> b \<Longrightarrow> b < fssize \<Longrightarrow> dsk_inrange s b"
    and z: "0 \<le> isize" "isize \<le> 8192" "0 \<le> fssize" "fssize \<le> 16777215"
  shows "\<exists>fp t. mkfs_mount fssize isize fn fm s = Some (fp, t) \<and> fl_inv fp (isize + 2) fssize t []"
proof -
  have rm: "room s (- 1)" unfolding room_iff [OF ok(1)] using ok(2) pool_nonempty by simp
  obtain p t where t: "getblk 0 (- 1) s = Some (p, t)" "taken s p t" "b_dev (v7_buf t p) = 0" "b_blkno (v7_buf t p) = - 1"
    using getblk_spec [OF ok(1) rm] by blast
  have p: "cache_ok t" "busy t = {p}" "p \<in> busy t" "io_frame s t" using t(2) ok(2) by (simp_all add: taken_def undisturbed_def)
  let ?v = "clrbuf p t"
  note v = clrbuf_spec [OF p(1,3)]
  have pv: "p \<in> busy ?v" using v(2) p(3) by simp
  let ?g = "mkfs_super fssize isize fn fm (v7_time ?v)"
  let ?w = "upd_data p ?g ?v"
  note w = upd_data_spec [OF v(1) pv, of ?g]
  let ?u = "?w\<lparr>v7_mount := (v7_mount ?w)(0 := (v7_mount ?w 0)\<lparr>m_bufp := Some p, m_dev := v7_rootdev ?w\<rparr>)\<rparr>"
  have C: "cache_ok ?u = cache_ok ?w" "view ?u = view ?w" "busy ?u = busy ?w" "buf_tag ?u = buf_tag ?w" "dsk_inrange ?u = dsk_inrange ?w"
    by (rule cache_ok_cong; simp)+
  have fr: "io_frame s ?v" "io_frame ?v ?w" using v(3) w(3) io_frame_trans [OF p(4)] by (simp_all add: undisturbed_def)
  have rd: "v7_rootdev ?w = 0" using io_frame_fields(5) [OF fr(1)] io_frame_fields(5) [OF fr(2)] ok(3) by simp
  have ri: "dsk_inrange ?u b = dsk_inrange s b" for b
    using C(5) io_frame_inrange [OF fr(1)] io_frame_inrange [OF fr(2)] by simp
  have tg: "buf_tag ?u p = Some (- 1)" using C(4) v(5) [of p] t(3,4) by (simp add: buf_tag_def split: if_splits)
  have bu: "busy ?u = {p}" using C(3) w(2) v(2) p(2) by simp
  have un: "unheld ?u b" if "0 \<le> b" for b using that bu tg by (simp add: unheld_def)
  have d: "bdata ?u p = ?g (copy_bytes 512 0 (bdata t p) 0 zeroblk)" by (simp add: clrbuf_def v7_buf_upd_buf)
  note S = mkfs_super_fields [OF z, of fn fm "v7_time ?v"] cleared_super [of "bdata t p"]
  have "super ?u p" using bu tg rd ri [of "- 1"] by (simp add: super_def off_disk_def dsk_inrange_def)
  then have "freelist ?u p []"
    using S z(1) unfolding freelist_def d by (simp add: sb_count_def chain_empty)
  then have "fl_inv p (isize + 2) fssize ?u []"
    using C(1) w(1) bu rd S r ri un pool_not_single z unfolding fl_inv_def fs_inv_def d by (auto simp: d)
  moreover have "mkfs_mount fssize isize fn fm s = Some (p, ?u)"
    using t(1) ok(3) by (simp add: mkfs_mount_def Let_def)
  ultimately show ?thesis by blast
qed

text \<open>The blocks on the list as an interval.\<close>

lemma initfreelist_range:
  assumes "(0::int) < k"
  shows "{b. i \<le> b \<and> b < F \<and> b < F - 1 + (1 - F) mod k} = {i..<(if (F - 1) mod k = 0 then F - 1 else F)}"
proof -
  have z: "(1 - F) mod k = 0 \<longleftrightarrow> (F - 1) mod k = 0"
    using dvd_diff_commute [of k 1 F] by (simp add: mod_eq_0_iff_dvd)
  show ?thesis
  proof (cases "(F - 1) mod k = 0")
    case False
    then have "1 \<le> (1 - F) mod k" using z pos_mod_sign [OF assms, of "1 - F"] by linarith
    then show ?thesis using False by auto
  qed (use z in auto)
qed

end
