(* ===== verification/Mkfs_Fault.thy ===== *)
theory Mkfs_Fault
  imports Mkfs_Spec
begin

text \<open>
  \<open>v7fs_mkfs\<close> on a disk that cannot be written. The contract of the cache in \<open>Bio_View\<close> is for a host
  that does not fail; here the buffers are followed through their rings alone, up to the first
  write and the error it leaves.
\<close>

section \<open>A buffer from the list, and a write that fails\<close>

text \<open>The next available buffer is given to a block that has none; no call on the host.\<close>

lemma getblk_clean:
  assumes st: "bio_st s (p # avs) devs nos" and c: "cached s b = None" "B_DELWRI \<notin> bflags s p"
  shows "getblk 0 b s = Some (p, assign p b (notavail p s))"
    "bio_st (assign p b (notavail p s)) avs (p # remove1 p devs) (remove1 p nos)"
proof -
  note D = bio_stD [OF st]
  have p: "avf s Bfreelist = p" "p \<noteq> Bfreelist" "p \<in> pool" using ring_hd [OF D(1)] D(6) by auto
  have "bflags (notavail p s) p = insert B_BUSY (bflags s p)" by (simp add: notavail_fields)
  then show "getblk 0 b s = Some (p, assign p b (notavail p s))"
    using p c D(14) dev_find_cached [OF st, of b] by (subst getblk.simps) (simp add: d_tab_def Let_def assign_def)
  have n: "bio_st (notavail p s) avs devs nos" using notavail_st [OF st, of p] by simp
  moreover have "p \<notin> set avs" using ring_distinct [OF D(1)] by simp
  ultimately show "bio_st (assign p b (notavail p s)) avs (p # remove1 p devs) (remove1 p nos)"
    using c(1) p(3) unfolding cached_None by (intro reassign_st(1)) (auto simp: notavail_fields)
qed

lemma getblk_clean_fields:
  "b_dev (v7_buf (assign p b (notavail p s)) p) = 0" "b_blkno (v7_buf (assign p b (notavail p s)) p) = b"
  "bflags (assign p b (notavail p s)) p = {B_BUSY}"
  "x \<noteq> p \<Longrightarrow> b_dev (v7_buf (assign p b (notavail p s)) x) = b_dev (v7_buf s x)"
  "x \<noteq> p \<Longrightarrow> bflags (assign p b (notavail p s)) x = bflags s x"
  using assign_fields [of p b "notavail p s"] assign_core [of p b "notavail p s" x]
  by (simp_all add: notavail_fields bcore_def)

text \<open>A write that the host refuses: the buffer has the error, the process too, and the file is as before.\<close>

lemma bwrite_fault:
  assumes b: "q \<noteq> Bfreelist" "b_dev (v7_buf s q) = 0" "B_ASYNC \<notin> bflags s q" "b_error (v7_buf s q) = 0"
    and w: "0 \<le> b_blkno (v7_buf s q)" "dsk_inrange s (b_blkno (v7_buf s q))" "0 \<le> dsk_fd (dsk s)"
    and e: "h_fault (host s) (h_op (host s)) = Some (Errno e)" "e \<noteq> 0"
  shows "\<exists>t. bwrite q s = Some t \<and> B_ERROR \<in> bflags t q \<and> uerror t = EIO \<and> h_file (host t) = h_file (host s)"
proof -
  let ?s1 = "upd_buf q (\<lambda>b. b\<lparr>b_bcount := int BSIZE\<rparr>) (clr_bflags q {B_READ, B_DONE, B_ERROR, B_DELWRI, B_AGE} s)"
  have w1: "dsk_write (b_blkno (v7_buf s q)) d 512 ?s1 = (- e, ?s1\<lparr>host := (host s)\<lparr>h_op := h_op (host s) + 1\<rparr>\<rparr>)" for d
    using w e by (simp add: dsk_write_def host_pwrite_def dsk_inrange_def Let_def clr_bflags_def upd_buf_def)
  let ?h = "?s1\<lparr>host := (host s)\<lparr>h_op := h_op (host s) + 1\<rparr>\<rparr>"
  let ?r = "v7_refreshclock (or_bflags q {B_ERROR} ?h)"
  have r: "v7_buf ?r = v7_buf (or_bflags q {B_ERROR} ?s1)" "h_file (host ?r) = h_file (host s)"
    by (auto simp: v7_refreshclock_def Let_def or_bflags_def clr_bflags_def upd_buf_def split: option.splits prod.splits)
  have st: "v7_dsk_strategy q ?s1 = iodone q ?r"
    unfolding v7_dsk_strategy_def Let_def using w1 e(2) by (simp add: v7_buf_upd_buf clr_bflags_def)
  let ?i = "clr_bflags q {B_WANTED} (or_bflags q {B_DONE} ?r)"
  have i: "iodone q ?r = ?i" unfolding iodone_def Let_def using b(3) r(1) by (simp add: v7_buf_upd_buf or_bflags_def clr_bflags_def)
  have f: "B_DONE \<in> bflags ?i q" "B_ERROR \<in> bflags ?i q" "b_error (v7_buf ?i q) = 0" "h_file (host ?i) = h_file (host s)"
    using b r by (simp_all add: v7_buf_upd_buf or_bflags_def clr_bflags_def) (simp_all add: upd_buf_def)
  have "bwrite q s = Some (brelse q (set_error EIO ?i))"
    unfolding bwrite_def Let_def d_strategy_def using b f st i
    by (simp add: d_tab_def iowait_def geterror_def v7_buf_upd_buf clr_bflags_def)
  moreover have "B_ERROR \<in> bflags (brelse q (set_error EIO ?i)) q" "uerror (brelse q (set_error EIO ?i)) = EIO"
    "h_file (host (brelse q (set_error EIO ?i))) = h_file (host s)"
    using f b(1) brelse_core [of q "set_error EIO ?i" q] buf_only_fields [OF brelse_buf_only [of "set_error EIO ?i" q]]
    by (simp_all add: set_error_def bcore_def)
  ultimately show ?thesis by blast
qed


section \<open>The smallest file system on a disk that refuses to be written\<close>

text \<open>
  Five blocks, one of them for inodes, in groups of two: block 3 is the only one on the list, and
  the root directory goes there. Nothing is read or written before that.
\<close>

text \<open>A state with the superblock in the buffer \<open>p\<close>, the only one in use, and \<open>q\<close> next in line.\<close>

definition mounted :: "bufp \<Rightarrow> bufp \<Rightarrow> kernel \<Rightarrow> bool" where
  "mounted p q s \<longleftrightarrow> super s p \<and> p \<noteq> q \<and> (\<exists>avs devs nos. bio_st s (q # avs) devs nos) \<and> (\<forall>b \<ge> 0. cached s b = None)
     \<and> B_DELWRI \<notin> bflags s q \<and> wswap_int16 (s_ninode (bdata s p)) = 0 \<and> s_flock (bdata s p) = 0
     \<and> wswap_int16 (s_isize (bdata s p)) = 3 \<and> wswap_int32 (s_fsize (bdata s p)) = 5"

lemma mounted_upd:
  assumes "mounted p q s" "s_ninode (g (bdata s p)) = s_ninode (bdata s p)" "s_flock (g (bdata s p)) = s_flock (bdata s p)"
    "s_isize (g (bdata s p)) = s_isize (bdata s p)" "s_fsize (g (bdata s p)) = s_fsize (bdata s p)"
  shows "mounted p q (upd_data p g s)"
proof -
  obtain avs devs nos where st: "bio_st s (q # avs) devs nos" using assms(1) by (auto simp: mounted_def)
  have p: "p \<in> pool" "p \<notin> set (q # avs)"
    using assms(1) bio_stD(7) [OF st] by (auto simp: mounted_def super_def busy_def)
  have "bio_st (upd_data p g s) (q # avs) devs nos" by (rule bio_st_flags(4) [OF st p])
  moreover have "cached (upd_data p g s) b = cached s b" for b by (rule cached_cong) simp
  moreover have "super (upd_data p g s) p"
    using assms(1) by (simp add: mounted_def super_def off_disk_def busy_def buf_tag_def dsk_inrange_def upd_data_def upd_buf_def)
  ultimately show ?thesis using assms by (auto simp: mounted_def)
qed

lemma mkfs_free_3:
  assumes m: "mounted p q s" and n: "sb_count (bdata s p) = 0" and r: "dsk_inrange s 3"
  shows "\<exists>g. free 0 3 s = Some (upd_data p g s) \<and> mounted p q (upd_data p g s)
    \<and> sb_count (g (bdata s p)) = 2 \<and> sb_entry (g (bdata s p)) 1 = 3"
proof -
  let ?d = "bdata s p"
  have i: "free_init ?d = set_s_free 0 0 (set_s_nfree (wswap_int16 1) (set_s_fmod 1 ?d))"
    using n by (simp add: free_init_def sb_count_def)
  have c: "sb_count (free_init ?d) = 1" "s_flock (free_init ?d) = s_flock ?d" "sb_same ?d (free_init ?d)"
    by (simp_all add: i sb_count_def sb_same_def super_simps s16_id)
  note P = sb_push_fields [of "free_init ?d" 3]
  have "free 0 3 s = map_option (upd_data p (sb_push 3)) (free_table p 3 (upd_data p free_init s))"
    using m n r by (intro free_split) (simp_all add: mounted_def data_block_def)
  also have "free_table p 3 (upd_data p free_init s) = Some (upd_data p free_init s)"
    using c(1) by (simp add: free_table_def sb_count_def)
  finally have f: "free 0 3 s = Some (upd_data p (\<lambda>d. sb_push 3 (free_init d)) s)" by (simp add: upd_data_comp)
  moreover have "mounted p q (upd_data p (\<lambda>d. sb_push 3 (free_init d)) s)"
    using P c by (intro mounted_upd [OF m]) (simp_all add: sb_same_def)
  moreover have "sb_count (sb_push 3 (free_init ?d)) = 2" "sb_entry (sb_push 3 (free_init ?d)) 1 = 3"
    using P(1) P(2) [of 1] c(1) by simp_all
  ultimately show ?thesis by blast
qed

lemma mkfs_list_3:
  assumes m: "mounted p q s" and n: "sb_count (bdata s p) = 0" and r: "dsk_inrange s 3" "v7_rootdev s = 0"
  shows "v7fs_initfreelist p 2 1 s = free 0 3 s"
proof -
  have nx: "next_unflagged flg k i = Some i" if "\<not> flg i" for flg k i using that by (subst next_unflagged.simps) simp
  have "interleave_loop 2 1 (Suc (Suc 0)) (\<lambda>_. False) 0 = Some [1, 2]" by (simp add: nx)
  then have il: "interleave 2 1 = Some [1, 2]" by (simp add: interleave_def flip: numeral_2_eq_2)
  have ru: "round_up 2 4 = Some 4" by (subst round_up.simps) simp
  have F: "wswap_int16 (s_isize (bdata t p)) = 3 \<and> wswap_int32 (s_fsize (bdata t p)) = 5" if "mounted p q t" for t
    using that by (simp add: mounted_def)
  obtain g where g: "free 0 3 s = Some (upd_data p g s)" "mounted p q (upd_data p g s)"
    using mkfs_free_3 [OF m n r(1)] by blast
  have g0: "initfree_groups p 2 [1, 2] 0 t = Some t" for t by (subst initfree_groups.simps) simp
  have g2: "initfree_groups p 2 [1, 2] 2 t = Some t" if "mounted p q t" for t
    using F [OF that] g0 by (subst initfree_groups.simps) (simp add: initfree_one_def)
  have "initfree_groups p 2 [1, 2] 4 s = free 0 3 s"
    using F [OF m] F [OF g(2)] g2 [OF g(2)] g(1) r(2)
    by (subst initfree_groups.simps) (simp add: initfree_one_def)
  then show ?thesis using F [OF m] il ru by (simp add: v7fs_initfreelist_def)
qed

lemma mkfs_alloc_3:
  assumes m: "mounted p q s" and n: "sb_count (bdata s p) = 2" "sb_entry (bdata s p) 1 = 3" and r: "dsk_inrange s 3"
  shows "\<exists>t. alloc 0 s = Some (Some q, t) \<and> b_dev (v7_buf t q) = 0 \<and> b_blkno (v7_buf t q) = 3 \<and> bflags t q = {B_BUSY}
    \<and> b_error (v7_buf t q) = 0 \<and> q \<noteq> Bfreelist \<and> host t = host s \<and> dsk t = dsk s"
proof -
  define s1 where "s1 = upd_data p (set_s_nfree (wswap_int16 1)) s"
  have m1: "mounted p q s1" unfolding s1_def by (rule mounted_upd [OF m]) (simp_all add: super_simps)
  obtain avs devs nos where st: "bio_st s1 (q # avs) devs nos" and c: "cached s1 3 = None" "B_DELWRI \<notin> bflags s1 q"
    using m1 by (auto simp: mounted_def)
  define s2 where "s2 = assign q 3 (notavail q s1)"
  have g: "getblk 0 3 s1 = Some (q, s2)" using getblk_clean(1) [OF st c] by (simp add: s2_def)
  have q: "q \<in> pool" "q \<noteq> p" "q \<noteq> Bfreelist" using bio_stD(6) [OF st] m by (auto simp: mounted_def)
  have e: "b_left (v7_buf s2 q) = (0, 0)"
    using bio_stD(10) [OF getblk_clean(2) [OF st c] q(1)] by (simp add: s2_def)
  have bo: "buf_only s s2" unfolding s2_def s1_def upd_data_def
    by (rule buf_only_trans [OF buf_only_trans [OF buf_only_upd_buf notavail_buf_only] assign_buf_only(1)])
  define F where "F = (\<lambda>d. if wswap_int32 (s_tfree d) \<noteq> 0 then set_s_tfree (wswap_int32 (wswap_int32 (s_tfree d) - 1)) d else d)"
  define t where "t = upd_data p (set_s_fmod 1) (upd_data p F (clrbuf q s2))"
  have "alloc_pick p 0 s = (Some 3, s1)"
    using alloc_pick_entry [of s p 3] m n r by (simp add: s1_def mounted_def data_block_def)
  moreover have "alloc_table p 3 s1 = Some (False, s1)"
    by (simp add: alloc_table_def s1_def super_simps s16_id)
  moreover have "alloc_grant p 3 s1 = Some (Some q, t)"
    using g by (simp add: alloc_grant_def t_def F_def Let_def upd_data_def upd_buf_def)
  ultimately have "alloc 0 s = Some (Some q, t)" using m n by (subst alloc_split [where fp = p]) (simp_all add: mounted_def)
  moreover have "b_dev (v7_buf t q) = 0" "b_blkno (v7_buf t q) = 3" "bflags t q = {B_BUSY}" "b_error (v7_buf t q) = 0"
    "host t = host s2" "dsk t = dsk s2"
    using q(2) assign_fields [of q 3 "notavail q s1"] e
    by (simp_all add: t_def upd_data_def v7_buf_upd_buf clrbuf_def s2_def) (simp_all add: upd_buf_def)
  ultimately show ?thesis using q(3) buf_only_fields [OF bo] by auto
qed

lemma mkfs_mount_3:
  assumes s: "bio_inv s" "busy s = {}" "\<And>b. cached s b = None" "v7_rootdev s = 0"
  shows "\<exists>p q t. mkfs_mount 5 1 2 1 s = Some (p, t) \<and> mounted p q t \<and> sb_count (bdata t p) = 0
    \<and> v7_u t = v7_u s \<and> v7_rootdev t = 0 \<and> host t = host s \<and> dsk t = dsk s"
proof -
  obtain avs devs nos where st0: "bio_st s avs devs nos" using s(1) by (auto simp: bio_inv_def)
  have av: "set avs = pool" using bio_stD(6) [OF st0] busy_iff [OF st0] s(2) by auto
  obtain p avs1 where a1: "avs = p # avs1" using av pool_nonempty by (cases avs) auto
  obtain q avs2 where a2: "avs1 = q # avs2" using av pool_not_single [of p] a1 by (cases avs1) auto
  have st: "bio_st s (p # q # avs2) devs nos" using st0 a1 a2 by simp
  note D = bio_stD [OF st]
  have nd: "b_dev (v7_buf s x) \<noteq> 0" if "x \<in> pool" for x using s(3) that unfolding cached_None by blast
  have pq: "p \<in> pool" "q \<in> pool" "p \<noteq> q" using D(6) ring_distinct [OF D(1)] by auto
  have dw: "B_DELWRI \<notin> bflags s x" if "x \<in> {p, q}" for x using D(12) [of x] nd [of x] that pq by (auto simp: free_ok_def)
  define t where "t = assign p (- 1) (notavail p s)"
  have g: "getblk 0 (- 1) s = Some (p, t)" and tst: "bio_st t (q # avs2) (p # remove1 p devs) (remove1 p nos)"
    using getblk_clean [OF st s(3)] dw [of p] by (simp_all add: t_def)
  note tf = getblk_clean_fields [where p = p and b = "- 1" and s = s, folded t_def]
  have bo: "buf_only s t" unfolding t_def by (rule buf_only_trans [OF notavail_buf_only assign_buf_only(1)])
  let ?g = "\<lambda>d. mkfs_super 5 1 2 1 (v7_time t) (copy_bytes 512 0 d 0 zeroblk)"
  define u where "u = upd_data p ?g t"
  define w where "w = u\<lparr>v7_mount := (v7_mount u)(0 := (v7_mount u 0)\<lparr>m_bufp := Some p, m_dev := v7_rootdev u\<rparr>)\<rparr>"
  have cl: "clrbuf p t = upd_data p (\<lambda>d. copy_bytes 512 0 d 0 zeroblk) t"
    using bio_stD(10) [OF tst pq(1)] by (simp add: clrbuf_def upd_data_def upd_buf_def fun_eq_iff)
  have uu: "upd_data p (mkfs_super 5 1 2 1 (v7_time (clrbuf p t))) (clrbuf p t) = u"
    unfolding cl by (simp add: u_def upd_data_comp) (simp add: upd_data_def upd_buf_def)
  have m: "mkfs_mount 5 1 2 1 s = Some (p, w)"
    using g s(4) uu by (simp add: mkfs_mount_def Let_def w_def)
  have pn: "p \<notin> set (q # avs2)" using ring_distinct [OF D(1)] by simp
  have wb: "v7_buf w = v7_buf u" "v7_nblkdev w = v7_nblkdev u" by (simp_all add: w_def)
  have "bio_st u (q # avs2) (p # remove1 p devs) (remove1 p nos)" unfolding u_def by (rule bio_st_flags(4) [OF tst pq(1) pn])
  then have "bio_st w (q # avs2) (p # remove1 p devs) (remove1 p nos)" using bio_st_cong [OF wb] by simp
  moreover have "cached w b = None" if "b \<ge> 0" for b
    unfolding cached_None wb
  proof
    fix x assume "x \<in> pool"
    then show "\<not> (b_dev (v7_buf u x) = 0 \<and> b_blkno (v7_buf u x) = b)"
      using nd [of x] tf(1,2) tf(4) that by (cases "x = p") (simp_all add: u_def)
  qed
  moreover have "bdata w p = ?g (bdata t p)" "B_DELWRI \<notin> bflags w q" using tf(5) dw [of q] pq(3) by (simp_all add: wb u_def)
  moreover have "super w p"
  proof -
    have "v7_rootdev u = 0" using buf_only_fields [OF bo] s(4) by (simp add: u_def upd_data_def upd_buf_def)
    then have "m_bufp (v7_mount w 0) = Some p" "m_dev (v7_mount w 0) = 0" by (simp_all add: w_def)
    then show ?thesis using tf(1-3) pq(1) by (simp add: super_def busy_def wb off_disk_def buf_tag_def dsk_inrange_def u_def)
  qed
  moreover have "v7_u w = v7_u s \<and> v7_rootdev w = 0 \<and> host w = host s \<and> dsk w = dsk s"
    using buf_only_fields [OF bo] s(4) by (simp add: w_def u_def upd_data_def upd_buf_def)
  ultimately show ?thesis
    using m pq(3) mkfs_super_fields [of 1 5 2 1 "v7_time t"] cleared_super [of "bdata t p"]
    by (intro exI [of _ p] exI [of _ q] exI [of _ w]) (auto simp: mounted_def sb_count_def)
qed

lemma mkfs_build_fault:
  assumes s: "bio_inv s" "busy s = {}" "\<And>b. cached s b = None" "v7_rootdev s = 0" "uerror s = 0"
    and w: "dsk_inrange s 3" "0 \<le> dsk_fd (dsk s)"
    and e: "h_fault (host s) (h_op (host s)) = Some (Errno e)" "e \<noteq> 0"
  shows "\<exists>u. mkfs_build 5 1 2 1 s = Some u \<and> uerror u = EIO \<and> h_file (host u) = h_file (host s)"
proof -
  obtain p q t where t: "mkfs_mount 5 1 2 1 s = Some (p, t)" "mounted p q t" "sb_count (bdata t p) = 0"
    "v7_u t = v7_u s" "v7_rootdev t = 0" "host t = host s" "dsk t = dsk s"
    using mkfs_mount_3 [OF s(1-4)] by blast
  have r: "dsk_inrange t 3" using w(1) t(7) by (simp add: dsk_inrange_def)
  obtain g where g: "free 0 3 t = Some (upd_data p g t)" "mounted p q (upd_data p g t)"
    "sb_count (g (bdata t p)) = 2" "sb_entry (g (bdata t p)) 1 = 3"
    using mkfs_free_3 [OF t(2,3) r] by blast
  let ?x = "upd_data p g t"
  have x: "v7_u ?x = v7_u s" "v7_rootdev ?x = 0" "host ?x = host s" "dsk ?x = dsk s"
    using t by (simp_all add: upd_data_def upd_buf_def)
  obtain a where a: "alloc 0 ?x = Some (Some q, a)" "b_dev (v7_buf a q) = 0" "b_blkno (v7_buf a q) = 3" "bflags a q = {B_BUSY}"
    "b_error (v7_buf a q) = 0" "q \<noteq> Bfreelist" "host a = host ?x" "dsk a = dsk ?x"
    using mkfs_alloc_3 [OF g(2)] g(3,4) r x(4) t(7) by (auto simp: dsk_inrange_def)
  let ?y = "upd_data q mkfs_rootdir a"
  have y: "host ?y = host s" "dsk ?y = dsk s" "b_error (v7_buf ?y q) = 0"
    using a(5,7,8) x by (simp_all add: upd_data_def v7_buf_upd_buf) (simp_all add: upd_buf_def)
  obtain u where u: "bwrite q ?y = Some u" "B_ERROR \<in> bflags u q" "uerror u = EIO" "h_file (host u) = h_file (host ?y)"
    using bwrite_fault [of q ?y e] a(2-6) y w e by (auto simp: dsk_inrange_def)
  have "v7fs_initfreelist p 2 1 t = Some ?x" using mkfs_list_3 [OF t(2,3) r t(5)] g(1) by simp
  then have "mkfs_build 5 1 2 1 s = Some u"
    using t(1) x s(5) a(1) u(1,2) by (simp add: mkfs_build_def Let_def)
  then show ?thesis using u y by auto
qed

lemma binit_host: "host (binit s) = host s"
proof -
  have "host (binit_one i t) = host t" for i t
    using buf_only_fields [OF brelse_buf_only] by (simp add: binit_one_def Let_def set_b_forw_def set_b_back_def upd_buf_def)
  then have "host (fold binit_one xs t) = host t" for xs t by (induction xs arbitrary: t) simp_all
  then show ?thesis by (simp add: binit_def Let_def upd_buf_def)
qed

text \<open>The whole call, from the state in which the library is not in use.\<close>

lemma mkfs_fault:
  assumes i: "\<not> v7fs_initialized s" and b: "\<And>p. b_left (v7_buf s p) = (0, 0)" "B_TAPE \<notin> bflags s Rootdsktab"
    and w: "dsk_inrange s 3" "0 \<le> dsk_fd (dsk s)"
    and e: "h_fault (host s) (h_op (host s)) = Some (Errno e)" "e \<noteq> 0"
  shows "\<exists>u. mkfs_build 5 1 2 1 (mkfs_core s) = Some u
    \<and> uerror u = EIO \<and> v7fs_mkfs 5 1 2 1 s = Some (0, v7_zerocore u) \<and> h_file (host u) = h_file (host s)"
proof -
  define z where "z = (v7_zerocore (v7_refreshclock s))\<lparr>v7_rootdev := makedev 0 0\<rparr>"
  have r: "v7_buf (v7_refreshclock s) = v7_buf s" "dsk (v7_refreshclock s) = dsk s" "h_file (host (v7_refreshclock s)) = h_file (host s)"
    "h_fault (host (v7_refreshclock s)) = h_fault (host s)" "h_op (host (v7_refreshclock s)) = h_op (host s)"
    by (auto simp: v7_refreshclock_def Let_def split: option.splits prod.splits)
  have z: "v7_nblkdev z = 0" "b_left (v7_buf z p) = (0, 0)" "B_TAPE \<notin> bflags z Rootdsktab" "v7_rootdev z = 0"
    "dsk z = dsk s" "h_file (host z) = h_file (host s)" "h_fault (host z) = h_fault (host s)" "h_op (host z) = h_op (host s)" for p
    using b r by (auto simp: z_def v7_zerocore_def zero_buf_def makedev_def s16_id split: bufp.splits)
  note B = binit_spec [OF z(1-3)]
  let ?s = "set_error 0 (binit z)"
  have c: "v7_buf ?s = v7_buf (binit z)" "v7_nblkdev ?s = v7_nblkdev (binit z)" by (simp_all add: set_error_def)
  have "bio_inv ?s" using B(1) bio_st_cong [OF c] by (simp add: bio_inv_def)
  moreover have "busy ?s = {}" using B(2) by (simp add: busy_def c)
  moreover have "cached ?s x = None" for x using B(3) [of x] by (simp add: cached_def c)
  moreover have "v7_rootdev ?s = 0" "dsk ?s = dsk s" "uerror ?s = 0" using B(4) z by (simp_all add: io_frame_def set_error_def)
  moreover have "host ?s = host z" by (simp add: set_error_def binit_host)
  ultimately obtain u where u: "mkfs_build 5 1 2 1 ?s = Some u" "uerror u = EIO" "h_file (host u) = h_file (host s)"
    using mkfs_build_fault [of ?s e] w e z by (auto simp: dsk_inrange_def)
  have "mkfs_isize 5 1 = 1" "mkfs_fn 2 = 2" "mkfs_fm 2 1 = 1" by (simp_all add: mkfs_isize_def mkfs_fn_def mkfs_fm_def)
  then have "v7fs_mkfs 5 1 2 1 s = Some (0, v7_zerocore u)"
    using u(1) i by (simp add: v7fs_mkfs_def mkfs_core_def Let_def z_def) (simp add: v7_zerocore_def zero_user_def)
  then show ?thesis using u by (simp add: z_def mkfs_core_def)
qed

end
