(* ===== verification/Nami_Spec.thy ===== *)
theory Nami_Spec
  imports Nami Inode_Spec
begin

text \<open>
  How \<open>namei\<close> reads a path: the component at its head goes to \<open>u_dbuf\<close>, cut at 14 characters and padded
  with zeros, and the slashes after it are skipped.
\<close>

section \<open>The character that was read and those to come\<close>

definition char_code :: "char \<Rightarrow> int" where
  "char_code x = u16 (s8 (of_char x))"

definition head_code :: "string \<Rightarrow> int" where
  "head_code xs = (case xs of [] \<Rightarrow> 0 | x # _ \<Rightarrow> char_code x)"

text \<open>The first character of \<open>xs\<close> has been taken; past the end \<open>u_dirp\<close> is the null pointer.\<close>

definition set_path :: "string \<Rightarrow> kernel \<Rightarrow> kernel" where
  "set_path xs = upd_u (\<lambda>u. u\<lparr>u_dirp := (case xs of [] \<Rightarrow> None | _ # ys \<Rightarrow> Some ys)\<rparr>)"

definition at_path :: "string \<Rightarrow> kernel \<Rightarrow> bool" where
  "at_path xs s \<longleftrightarrow> u_dirp (v7_u s) = (case xs of [] \<Rightarrow> None | _ # ys \<Rightarrow> Some ys)"

lemma of_char_bounds: "0 \<le> (of_char x :: int)" "(of_char x :: int) < 256"
proof -
  have "(of_char x :: int) mod 256 = of_char x" by simp
  then show "0 \<le> (of_char x :: int)" "(of_char x :: int) < 256"
    using pos_mod_bound [of 256 "of_char x :: int"] pos_mod_sign [of 256 "of_char x :: int"] by simp_all
qed

lemma char_code_cases: "char_code x = (if of_char x < (128::int) then of_char x else of_char x + 65280)"
proof (cases "of_char x < (128::int)")
  case False
  let ?v = "of_char x :: int"
  have "(?v + 128) mod 256 = ?v - 128" using False of_char_bounds [of x] by (subst mod_pos_geq) simp_all
  then have "s8 ?v = ?v - 256" by (simp add: s8_def)
  moreover have "(?v - 256) mod 65536 = ?v + 65280"
    using False of_char_bounds [of x] mod_add_self2 [of "?v - 256" 65536] by (simp add: mod_pos_pos_trivial)
  ultimately show ?thesis using False by (simp add: char_code_def u16_def)
qed (use of_char_bounds [of x] in \<open>simp add: char_code_def s8_id u16_id\<close>)

lemma char_code_special: "char_code x = 47 \<longleftrightarrow> x = CHR ''/''" "char_code x = 0 \<longleftrightarrow> x = CHR 0x00"
proof -
  have "(of_char x :: int) = of_char y \<longleftrightarrow> x = y" for y by simp
  from this [of "CHR ''/''"] this [of "CHR 0x00"] show "char_code x = 47 \<longleftrightarrow> x = CHR ''/''" "char_code x = 0 \<longleftrightarrow> x = CHR 0x00"
    using of_char_bounds [of x] by (auto simp: char_code_cases)
qed

lemma char_code_byte: "(word_of_int (char_code x) :: byte) = word_of_int (of_char x)"
proof -
  have "(word_of_int (of_char x + 65280) :: byte) = word_of_int (of_char x)"
    by (simp add: word_of_int_eq_iff take_bit_eq_mod)
  then show ?thesis by (simp add: char_code_cases)
qed

lemma next_char_step:
  assumes "at_path (x # xs) s" "CHR 0x00 \<notin> set xs"
  shows "u16 (fst (schar s)) = head_code xs" "snd (schar s) = set_path xs s" "at_path xs (set_path xs s)"
proof -
  have d: "u_dirp (v7_u s) = Some xs" using assms(1) by (simp add: at_path_def)
  have "u16 (fst (schar s)) = head_code xs \<and> snd (schar s) = set_path xs s"
  proof (cases xs)
    case Nil
    then have "schar s = (0, set_path xs s)" unfolding schar_def next_char_def d set_path_def by simp
    then show ?thesis using Nil by (simp add: head_code_def u16_def)
  next
    case (Cons y ys)
    then have "schar s = (s8 (of_char y), set_path xs s)"
      using assms(2) unfolding schar_def next_char_def d set_path_def by auto
    then show ?thesis using Cons by (simp add: head_code_def char_code_def)
  qed
  then show "u16 (fst (schar s)) = head_code xs" "snd (schar s) = set_path xs s" by blast+
  show "at_path xs (set_path xs s)" by (simp add: at_path_def set_path_def upd_u_def)
qed

lemma set_path_frame [simp]:
  "uerror (set_path xs s) = uerror s" "set_path xs (set_path ys s) = set_path xs s"
  "u_dbuf (v7_u (set_path xs s)) = u_dbuf (v7_u s)" "at_path ys (set_path ys s)"
  by (simp_all add: set_path_def upd_u_def at_path_def)

lemma skip_slashes_path:
  assumes "at_path (replicate m (CHR ''/'') @ rest) s" "CHR 0x00 \<notin> set rest" "rest = [] \<or> hd rest \<noteq> CHR ''/''"
  shows "skip_slashes schar (head_code (replicate m (CHR ''/'') @ rest)) s = Some (head_code rest, if m = 0 then s else set_path rest s)"
  using assms
proof (induction m arbitrary: s)
  case 0
  then have "head_code rest \<noteq> 47" by (cases rest) (simp_all add: head_code_def char_code_special)
  then show ?case by (subst skip_slashes.simps) simp
next
  case (Suc m)
  let ?xs = "replicate m (CHR ''/'') @ rest"
  have n: "CHR 0x00 \<notin> set ?xs" using Suc.prems(2) by simp
  note N = next_char_step [OF _ n, of "CHR ''/''" s]
  have h: "head_code (replicate (Suc m) (CHR ''/'') @ rest) = 47" by (simp add: head_code_def char_code_special)
  have "skip_slashes schar 47 s = skip_slashes schar (head_code ?xs) (set_path ?xs s)"
    using N Suc.prems(1) by (subst skip_slashes.simps) simp
  also have "\<dots> = Some (head_code rest, set_path rest s)"
    using Suc.IH [of "set_path ?xs s"] Suc.prems(2,3) by simp
  finally show ?case unfolding h by simp
qed

text \<open>The name field after the characters \<open>nm\<close> from position \<open>k\<close> on.\<close>

definition name_put :: "string \<Rightarrow> nat \<Rightarrow> block \<Rightarrow> block" where
  "name_put nm k d = (\<lambda>i. if k \<le> i \<and> i < k + length nm \<and> i < DIRSIZ then word_of_int (of_char (nm ! (i - k))) else d i)"

definition set_dbuf :: "block \<Rightarrow> kernel \<Rightarrow> kernel" where
  "set_dbuf d = upd_u (\<lambda>u. u\<lparr>u_dbuf := d\<rparr>)"

lemma set_dbuf_frame [simp]:
  "uerror (set_dbuf d s) = uerror s" "u_dbuf (v7_u (set_dbuf d s)) = d" "set_dbuf d (set_dbuf e s) = set_dbuf d s"
  "set_path xs (set_dbuf d s) = set_dbuf d (set_path xs s)" "at_path xs (set_dbuf d s) = at_path xs s"
  by (simp_all add: set_dbuf_def set_path_def upd_u_def at_path_def)

lemma name_put_Nil [simp]: "name_put [] k d = d"
  by (rule ext) (auto simp: name_put_def)

lemma name_put_step:
  "name_put (x # nm) k d = (if k < DIRSIZ then name_put nm (k + 1) (d(k := word_of_int (char_code x))) else name_put nm k d)"
proof (cases "k < DIRSIZ")
  case True
  have "name_put (x # nm) k d i = name_put nm (k + 1) (d(k := word_of_int (char_code x))) i" for i
    using True by (cases "i = k") (auto simp: name_put_def char_code_byte nth_Cons' Suc_diff_Suc)
  then show ?thesis using True by auto
next
  case False
  have "name_put (x # nm) k d i = name_put nm k d i" for i using False by (auto simp: name_put_def)
  then show ?thesis using False by auto
qed

lemma gather_path:
  assumes "at_path (nm @ rest) s" "CHR 0x00 \<notin> set (nm @ rest)" "CHR ''/'' \<notin> set nm" "rest = [] \<or> hd rest = CHR ''/''"
    "uerror s = 0"
  shows "gather schar (head_code (nm @ rest)) k s
    = Some (head_code rest, if k < DIRSIZ then min DIRSIZ (k + length nm) else k,
        if nm = [] then s else set_dbuf (name_put nm k (u_dbuf (v7_u s))) (set_path rest s))"
  using assms
proof (induction nm arbitrary: k s)
  case Nil
  then have "head_code rest = 47 \<or> head_code rest = 0" by (auto simp: head_code_def char_code_special split: list.splits)
  then show ?case by (subst gather.simps) auto
next
  case (Cons x nm)
  have x: "head_code ((x # nm) @ rest) = char_code x" "char_code x \<noteq> 47" "char_code x \<noteq> 0"
    using Cons.prems(2,3) by (auto simp: head_code_def char_code_special)
  let ?d = "if k < DIRSIZ then (u_dbuf (v7_u s))(k := word_of_int (char_code x)) else u_dbuf (v7_u s)"
  let ?s = "set_dbuf ?d s"
  have es: "(if k < DIRSIZ then upd_u (\<lambda>u. u\<lparr>u_dbuf := (u_dbuf u)(k := word_of_int (char_code x))\<rparr>) s else s) = ?s"
    by (simp add: set_dbuf_def upd_u_def)
  have n: "CHR 0x00 \<notin> set (nm @ rest)" using Cons.prems(2) by simp
  have ap: "at_path (x # nm @ rest) ?s" using Cons.prems(1) by simp
  note N = next_char_step [OF ap n]
  let ?k = "if k < DIRSIZ then k + 1 else k"
  have "gather schar (char_code x) k s = gather schar (head_code (nm @ rest)) ?k (set_path (nm @ rest) ?s)"
    using x Cons.prems(5) N es by (subst gather.simps) (simp add: Let_def)
  also have "\<dots> = Some (head_code rest, if ?k < DIRSIZ then min DIRSIZ (?k + length nm) else ?k,
      if nm = [] then set_path (nm @ rest) ?s else set_dbuf (name_put nm ?k ?d) (set_path rest ?s))"
    using Cons.IH [of "set_path (nm @ rest) ?s" ?k] Cons.prems(2-5) by simp
  also have "\<dots> = Some (head_code rest, if k < DIRSIZ then min DIRSIZ (k + length (x # nm)) else k,
      set_dbuf (name_put (x # nm) k (u_dbuf (v7_u s))) (set_path rest s))"
    by (auto simp: name_put_step)
  finally show ?case using x(1) by simp
qed

text \<open>One component.\<close>

definition padded :: "string \<Rightarrow> block \<Rightarrow> block" where
  "padded nm d = (\<lambda>i. if i < DIRSIZ then (if i < length nm then word_of_int (of_char (nm ! i)) else 0) else d i)"

lemma namei_comp_path:
  assumes "at_path (nm @ replicate m (CHR ''/'') @ rest) s" "nm \<noteq> []" "CHR ''/'' \<notin> set nm"
    "CHR 0x00 \<notin> set (nm @ rest)" "0 < m \<or> rest = []" "rest = [] \<or> hd rest \<noteq> CHR ''/''" "uerror s = 0"
  shows "namei_comp schar (head_code (nm @ replicate m (CHR ''/'') @ rest)) s
    = Some (C_search (head_code rest), set_dbuf (padded nm (u_dbuf (v7_u s))) (set_path rest s))"
proof -
  let ?r = "replicate m (CHR ''/'') @ rest"
  have nz: "head_code (nm @ ?r) \<noteq> 0" using assms(2,4) by (cases nm) (auto simp: head_code_def char_code_special)
  have r: "?r = [] \<or> hd ?r = CHR ''/''" "CHR 0x00 \<notin> set (nm @ ?r)" using assms(4-6) by (auto simp: hd_append)
  let ?d = "name_put nm 0 (u_dbuf (v7_u s))"
  have g: "gather schar (head_code (nm @ ?r)) 0 s = Some (head_code ?r, min DIRSIZ (length nm), set_dbuf ?d (set_path ?r s))"
    using gather_path [OF assms(1) r(2) assms(3) r(1) assms(7), of 0] assms(2) by simp
  have p: "pad_dbuf (min DIRSIZ (length nm)) (set_dbuf ?d (set_path ?r s)) = set_dbuf (padded nm (u_dbuf (v7_u s))) (set_path ?r s)"
  proof -
    have "(\<lambda>i. if min DIRSIZ (length nm) \<le> i \<and> i < DIRSIZ then 0 else ?d i) = padded nm (u_dbuf (v7_u s))"
      by (auto simp: name_put_def padded_def fun_eq_iff)
    moreover have "pad_dbuf k (set_dbuf d x) = set_dbuf (\<lambda>i. if k \<le> i \<and> i < DIRSIZ then 0 else d i) x" for k d x
      by (simp add: pad_dbuf_def set_dbuf_def upd_u_def fun_eq_iff)
    ultimately show ?thesis by simp
  qed
  let ?s = "set_dbuf (padded nm (u_dbuf (v7_u s))) (set_path ?r s)"
  have "skip_slashes schar (head_code ?r) ?s = Some (head_code rest, if m = 0 then ?s else set_path rest ?s)"
    by (rule skip_slashes_path) (use assms(4,6) in auto)
  then show ?thesis using g p nz assms(5,7) by (auto simp: namei_comp_def)
qed

text \<open>The empty path is the current directory for a lookup, and no place for a creation.\<close>

lemma namei_empty:
  assumes "u_dirp (v7_u s) = Some []" "u_cdir (v7_u s) = Some dp" "inode_find (i_dev (v7_inode s dp)) (i_number (v7_inode s dp)) s = Some dp"
    "i_flag (v7_inode s dp) \<inter> {ILOCK, IMOUNT} = {}" "1 \<le> i_count (v7_inode s dp)" "i_count (v7_inode s dp) < 127" "flag \<noteq> 0"
  shows "\<exists>t. namei uchar flag s = Some (None, t) \<and> uerror t = ENOENT"
proof -
  let ?s = "upd_u (\<lambda>u. u\<lparr>u_dirp := None\<rparr>) s"
  let ?f = "\<lambda>p. p\<lparr>i_count := s8 (i_count p + 1), i_flag := insert ILOCK (i_flag p)\<rparr>"
  have n: "uchar s = (0, ?s)" using assms(1) by (simp add: uchar_def next_char_def)
  have i: "v7_inode ?s = v7_inode s" "inode_find d j ?s = inode_find d j s" for d j by (simp_all add: upd_u_def inode_find_def)
  have g: "iget (i_dev (v7_inode s dp)) (i_number (v7_inode s dp)) ?s = Some (Some dp, upd_inode dp ?f ?s)"
    using iget_hit [of "i_dev (v7_inode s dp)" "i_number (v7_inode s dp)" ?s dp] assms(3,4) i by auto
  let ?t = "set_error ENOENT (upd_inode dp ?f ?s)"
  have c: "i_count (v7_inode ?t dp) \<noteq> 1" using assms(5,6) by (simp add: set_error_def upd_inode_def upd_u_def s8_id)
  obtain u where u: "iput dp ?t = Some u" "v7_u u = v7_u ?t"
    using c by (simp add: iput_def prele_def Let_def clr_iflag_def upd_inode_def)
  have sk: "skip_slashes uchar 0 x = Some (0, x)" for x by (subst skip_slashes.simps) simp
  have "namei_loop uchar flag Cloop dp 0 ?t = Some (None, u)"
    using u(1) by (subst namei_loop.simps) (simp add: namei_comp_def set_error_def)
  then have "namei uchar flag s = Some (None, u)"
    using assms(2,7) n i g sk by (simp add: namei_def u16_id)
  then show ?thesis using u(2) by (simp add: set_error_def)
qed

end
