(* ===== verification/Fio_Spec.thy ===== *)
theory Fio_Spec
  imports Fio Alloc_Spec
begin

text \<open>
  Permissions as bits of the mode, and the table of open files: every entry counts the descriptors that
  point at it.
\<close>

section \<open>Permissions\<close>

lemma and_power_bit: "(m::int) AND 2 ^ j \<noteq> 0 \<longleftrightarrow> bit m j"
  by (simp add: and_exp_eq_0_iff_not_bit)

text \<open>The class of the caller: 2 the owner, 1 the group, 0 the others; and the bit that \<open>access\<close> asks for.\<close>

definition caller_class :: "kernel \<Rightarrow> nat \<Rightarrow> nat" where
  "caller_class s ip = (if u_uid (v7_u s) = i_uid (v7_inode s ip) then 2
     else if u_gid (v7_u s) = i_gid (v7_inode s ip) then 1 else 0)"

definition may :: "nat \<Rightarrow> kernel \<Rightarrow> nat \<Rightarrow> bool" where
  "may k s ip \<longleftrightarrow> u_uid (v7_u s) = 0 \<or> bit (i_mode (v7_inode s ip)) (3 * caller_class s ip + k)"

lemma access_bits:
  assumes k: "k < 3" and w: "k = 1 \<Longrightarrow> getfs (i_dev (v7_inode s ip)) s = Some (fp, s) \<and> s_ronly (bdata s fp) = 0
    \<and> ITEXT \<notin> i_flag (v7_inode s ip)"
  shows "access ip (2 ^ (6 + k)) s = Some (\<not> may k s ip, if may k s ip then s else set_error EACCES s)"
proof -
  have k3: "k = 0 \<or> k = 1 \<or> k = 2" using k by linarith
  have iw: "(2::int) ^ (6 + k) = IWRITE \<longleftrightarrow> k = 1" using k3 by auto
  have dv: "(2::int) ^ (6 + k) div 8 = 2 ^ (3 + k)" "(2::int) ^ (3 + k) div 8 = 2 ^ k" using k3 by auto
  let ?m = "if u_uid (v7_u s) \<noteq> i_uid (v7_inode s ip) then
     (if u_gid (v7_u s) \<noteq> i_gid (v7_inode s ip) then (2::int) ^ (6 + k) div 8 div 8 else 2 ^ (6 + k) div 8) else 2 ^ (6 + k)"
  have m: "?m = 2 ^ (3 * caller_class s ip + k)" unfolding dv caller_class_def by simp
  have r: "access ip (2 ^ (6 + k)) s = (if u_uid (v7_u s) = 0 then Some (False, s)
      else if i_mode (v7_inode s ip) AND ?m \<noteq> 0 then Some (False, s) else Some (True, set_error EACCES s))"
    using w iw unfolding access_def by (cases "k = 1") (simp_all add: Let_def)
  show ?thesis unfolding r m and_power_bit may_def by simp
qed

text \<open>A write to a file system mounted read-only is refused to everybody.\<close>

lemma access_readonly:
  assumes "getfs (i_dev (v7_inode s ip)) s = Some (fp, s)" "s_ronly (bdata s fp) \<noteq> 0"
  shows "access ip IWRITE s = Some (True, set_error EROFS s)"
  using assms by (simp add: access_def)


section \<open>Open files\<close>

definition fd_count :: "kernel \<Rightarrow> nat \<Rightarrow> nat" where
  "fd_count s j = card {i. i < NOFILE \<and> u_ofile (v7_u s) i = Some j}"

definition files_ok :: "kernel \<Rightarrow> bool" where
  "files_ok s \<longleftrightarrow> (\<forall>j < NFILE. f_count (v7_file s j) = int (fd_count s j))
     \<and> (\<forall>i < NOFILE. \<forall>j. u_ofile (v7_u s) i = Some j \<longrightarrow> j < NFILE)"

lemma find_upt_None: "find P [0..<n] = None \<longleftrightarrow> (\<forall>i < n. \<not> P i)"
  by (auto simp: find_None_iff)

lemma find_upt_Some: "find P [0..<n] = Some i \<longleftrightarrow> i < n \<and> P i \<and> (\<forall>j < i. \<not> P j)"
  by (auto simp: find_Some_iff)

lemma fd_count_put:
  assumes "i < NOFILE" "u_ofile (v7_u s) i = None" "u_ofile (v7_u t) = (u_ofile (v7_u s))(i \<mapsto> fp)"
  shows "fd_count t j = (if j = fp then fd_count s j + 1 else fd_count s j)"
proof -
  have "{k. k < NOFILE \<and> u_ofile (v7_u t) k = Some j}
      = (if j = fp then insert i {k. k < NOFILE \<and> u_ofile (v7_u s) k = Some j} else {k. k < NOFILE \<and> u_ofile (v7_u s) k = Some j})"
    using assms by auto
  then show ?thesis using assms(2) by (simp add: fd_count_def)
qed

lemma falloc_ok:
  assumes inv: "files_ok s" and r: "falloc s = (Some fp, t)"
  shows "files_ok t \<and> (\<exists>i < NOFILE. r_val1 (v7_u t) = int i \<and> u_ofile (v7_u s) i = None \<and> (\<forall>j < i. u_ofile (v7_u s) j \<noteq> None)
      \<and> u_ofile (v7_u t) = (u_ofile (v7_u s))(i \<mapsto> fp)) \<and> fp < NFILE \<and> fd_count s fp = 0 \<and> f_offset (v7_file t fp) = 0"
proof -
  obtain i where i: "find (\<lambda>i. u_ofile (v7_u s) i = None) [0..<NOFILE] = Some i"
    using r by (auto simp: falloc_def ufalloc_def split: option.splits)
  let ?s = "upd_u (\<lambda>u. u\<lparr>r_val1 := int i, u_pofile := (u_pofile u)(i := 0)\<rparr>) s"
  have fp: "find (\<lambda>j. f_count (v7_file ?s j) = 0) [0..<NFILE] = Some fp"
    and t: "t = upd_file fp (\<lambda>f. f\<lparr>f_count := s8 (f_count f + 1), f_offset := 0\<rparr>) (upd_u (\<lambda>u. u\<lparr>u_ofile := (u_ofile u)(i \<mapsto> fp)\<rparr>) ?s)"
    using r i by (auto simp: falloc_def ufalloc_def split: option.splits)
  have i': "i < NOFILE" "u_ofile (v7_u s) i = None" "\<forall>j < i. u_ofile (v7_u s) j \<noteq> None" using i by (auto simp: find_upt_Some)
  have f': "fp < NFILE" "f_count (v7_file s fp) = 0" using fp by (auto simp: find_upt_Some upd_u_def)
  have tf: "v7_file t = (v7_file s)(fp := (v7_file s fp)\<lparr>f_count := 1, f_offset := 0\<rparr>)"
    "u_ofile (v7_u t) = (u_ofile (v7_u s))(i \<mapsto> fp)" "r_val1 (v7_u t) = int i"
    using f'(2) by (simp_all add: t upd_file_def upd_u_def s8_id)
  note c = fd_count_put [OF i'(1,2) tf(2)]
  have z: "fd_count s fp = 0" using inv f' by (simp add: files_ok_def)
  have "files_ok t" using inv f' c z tf by (auto simp: files_ok_def)
  then show ?thesis using i' f' tf z by auto
qed

lemma falloc_fails:
  assumes "falloc s = (None, t)"
  shows "v7_file t = v7_file s \<and> u_ofile (v7_u t) = u_ofile (v7_u s)
    \<and> (uerror t = EMFILE \<and> (\<forall>i < NOFILE. u_ofile (v7_u s) i \<noteq> None)
       \<or> uerror t = ENFILE \<and> (\<forall>j < NFILE. f_count (v7_file s j) \<noteq> 0))"
  using assms
  by (auto simp: falloc_def ufalloc_def find_upt_None upd_u_def set_error_def v7_printf_def split: option.splits)

end
