(* ===== verification/Hostfs.thy ===== *)
theory Hostfs
  imports V7fs_Dirs Mkfs
begin

text \<open>
  What the command-line tools ask of the host besides the disk image: the files and
  directories they copy from, as one record that is an argument of their definitions.
\<close>

datatype hkind = H_DIR | H_REG | H_LNK | H_SPECIAL

text \<open>
  \<open>hf_read p\<close>: the error of \<open>open\<close>, or the bytes \<open>read\<close> delivers and the error it ends with,
  if any. \<open>hf_list p\<close>: the error of \<open>opendir\<close> or the names \<open>readdir\<close> returns, in order.
  \<open>hf_lstat p\<close>: the error of \<open>lstat\<close> or kind, mode and size.
\<close>

record hostfs =
  hf_read :: "string \<Rightarrow> int + (byte list \<times> int option)"
  hf_list :: "string \<Rightarrow> int + string list"
  hf_lstat :: "string \<Rightarrow> int + (hkind \<times> int \<times> int)"

text \<open>The pieces that successive calls of \<open>read\<close> with a buffer of 65536 bytes return.\<close>

function chunks :: "byte list \<Rightarrow> byte list list" where
  "chunks bs = (if bs = [] then [] else take 65536 bs # chunks (drop 65536 bs))"
  by pat_completeness auto
termination by (relation "measure length") auto

declare chunks.simps [simp del]

text \<open>The local array \<open>buf\<close> is the caller's memory from address 0 on.\<close>

definition load_buf :: "byte list \<Rightarrow> kernel \<Rightarrow> kernel" where
  "load_buf bs s = s\<lparr>host := (host s)\<lparr>h_umem :=
     (\<lambda>i. if i < length bs then bs ! i else h_umem (host s) i)\<rparr>\<rparr>"

text \<open>
  The inner loop of both copying functions, which writes \<open>n\<close> bytes of the buffer: the
  negative result it stopped at, or 0.
\<close>

partial_function (option) write_all :: "int \<Rightarrow> nat \<Rightarrow> nat \<Rightarrow> kernel \<Rightarrow> (int \<times> kernel) option" where
  "write_all out n pos s =
     (if pos < n then
        Option.bind (v7fs_write out (Umem pos) (n - pos) s) (\<lambda>(nw, s).
          if nw < 0 then Some (nw, s) else write_all out n (pos + nat nw) s)
      else Some (0, s))"

lemma chunks_Nil [simp]: "chunks [] = []"
  by (simp add: chunks.simps)

lemma concat_chunks: "concat (chunks bs) = bs"
proof (induction bs rule: chunks.induct)
  case (1 bs)
  then show ?case by (cases "bs = []") (simp_all add: chunks.simps [of bs])
qed

lemma chunks_bounds: "c \<in> set (chunks bs) \<Longrightarrow> c \<noteq> [] \<and> length c \<le> 65536"
proof (induction bs rule: chunks.induct)
  case (1 bs)
  then show ?case by (cases "bs = []") (auto simp: chunks.simps [of bs])
qed

end
