(* ===== verification/Mkv7img.thy ===== *)
theory Mkv7img
  imports Hostfs
begin

text \<open>
  \<open>mkv7img.c\<close>: a file system image built from directories of the host. Files with equal size
  and hash become hard links.
\<close>

record dedup_ent =
  de_size :: int
  de_hash :: "64 word"
  de_fspath :: string

text \<open>The statics of the tool, beside the kernel it works on.\<close>

record imgst =
  img :: kernel
  g_errors :: int
  g_links :: int
  g_ded :: "dedup_ent list"

definition count_error :: "imgst \<Rightarrow> imgst" where
  "count_error t = t\<lparr>g_errors := g_errors t + 1\<rparr>"

text \<open>FNV-1a over the bytes read; the second result is \<open>ok\<close>.\<close>

definition fnv1a :: "64 word \<Rightarrow> byte \<Rightarrow> 64 word" where
  "fnv1a h b = (h XOR ucast b) * 1099511628211"

definition hash_file :: "hostfs \<Rightarrow> string \<Rightarrow> 64 word \<times> bool" where
  "hash_file env hostpath =
     (case hf_read env hostpath of
        Inl e \<Rightarrow> (0, False)
      | Inr (bs, err) \<Rightarrow> (fold (\<lambda>b h. fnv1a h b) bs 1469598103934665603, err = None))"

definition dedup_lookup :: "int \<Rightarrow> 64 word \<Rightarrow> imgst \<Rightarrow> string option" where
  "dedup_lookup sz hash t =
     map_option de_fspath (find (\<lambda>e. de_size e = sz \<and> de_hash e = hash) (g_ded t))"

definition dedup_add :: "int \<Rightarrow> 64 word \<Rightarrow> string \<Rightarrow> imgst \<Rightarrow> imgst" where
  "dedup_add sz hash fspath t =
     t\<lparr>g_ded := g_ded t @ [\<lparr>de_size = sz, de_hash = hash, de_fspath = fspath\<rparr>]\<rparr>"

definition skip_name :: "string \<Rightarrow> bool" where
  "skip_name n \<longleftrightarrow> n = ''.'' \<or> n = ''..'' \<or> take 2 n = ''._'' \<or> n = ''.DS_Store''"

text \<open>The outer loop of \<open>copy_file\<close>: an error ends the inner loop only.\<close>

fun copy_chunks :: "int \<Rightarrow> byte list list \<Rightarrow> imgst \<Rightarrow> imgst option" where
  "copy_chunks out [] t = Some t"
| "copy_chunks out (c # cs) t = do {
     (w, s) \<leftarrow> write_all out (length c) 0 (load_buf c (img t));
     let t = t\<lparr>img := s\<rparr>;
     copy_chunks out cs (if w < 0 then count_error t else t) }"

text \<open>The attempt to link to an identical file: true where the file is done.\<close>

definition try_link :: "hostfs \<Rightarrow> string \<Rightarrow> string \<Rightarrow> int \<Rightarrow> imgst \<Rightarrow> (bool \<times> imgst) option" where
  "try_link env hostpath fspath sz t =
     (if sz > 0 \<and> snd (hash_file env hostpath) then
        (case dedup_lookup sz (fst (hash_file env hostpath)) t of
           None \<Rightarrow> Some (False, t)
         | Some target \<Rightarrow> do {
             (lr, s) \<leftarrow> v7fs_link target fspath (img t);
             let t = t\<lparr>img := s\<rparr>;
             if lr = 0 then Some (True, t\<lparr>g_links := g_links t + 1\<rparr>) else Some (False, t) })
      else Some (False, t))"

definition copy_file :: "hostfs \<Rightarrow> string \<Rightarrow> string \<Rightarrow> int \<Rightarrow> int \<Rightarrow> imgst \<Rightarrow> imgst option" where
  "copy_file env hostpath fspath mode sz t = do {
     (linked, t) \<leftarrow> try_link env hostpath fspath sz t;
     if linked then Some t
     else case hf_read env hostpath of
       Inl e \<Rightarrow> Some (count_error t)
     | Inr (bs, err) \<Rightarrow> do {
         (out, s) \<leftarrow> v7fs_open fspath {O_CREAT, O_WRONLY, O_TRUNC} (mode AND 0xFFF) (img t);
         let t = t\<lparr>img := s\<rparr>;
         if out < 0 then Some (count_error t)
         else do {
           t \<leftarrow> copy_chunks out (chunks bs) t;
           (_, s) \<leftarrow> v7fs_close out (img t);
           (_, s) \<leftarrow> v7fs_chown fspath 0 0 s;
           let t = t\<lparr>img := s\<rparr>;
           Some (if sz > 0 \<and> snd (hash_file env hostpath)
                 then dedup_add sz (fst (hash_file env hostpath)) fspath t else t) } } }"

text \<open>
  \<open>copy_tree\<close> descends into a directory before it goes on with its siblings: the argument is
  the list of entries still to be copied, each with the directories it is copied from and to.
  Paths are cut to the size of the local arrays.
\<close>

definition join_fs :: "string \<Rightarrow> string \<Rightarrow> string" where
  "join_fs fsdir name = take 4095 (fsdir @ (if fsdir = ''/'' then [] else ''/'') @ name)"

definition open_tree :: "hostfs \<Rightarrow> string \<Rightarrow> string \<Rightarrow> imgst \<Rightarrow> (string \<times> string \<times> string) list \<times> imgst" where
  "open_tree env hostdir fsdir t =
     (case hf_list env hostdir of
        Inl e \<Rightarrow> ([], count_error t)
      | Inr names \<Rightarrow> (map (\<lambda>n. (hostdir, fsdir, n)) names, t))"

partial_function (option) copy_entries :: "hostfs \<Rightarrow> (string \<times> string \<times> string) list \<Rightarrow> imgst \<Rightarrow> imgst option" where
  "copy_entries env work t =
     (case work of
        [] \<Rightarrow> Some t
      | (hostdir, fsdir, name) # rest \<Rightarrow>
          if skip_name name then copy_entries env rest t
          else
            let hp = take 4095 (hostdir @ ''/'' @ name); fp = join_fs fsdir name in
            case hf_lstat env hp of
              Inl e \<Rightarrow> copy_entries env rest (count_error t)
            | Inr (kind, mode, sz) \<Rightarrow>
                (case kind of
                   H_DIR \<Rightarrow>
                     Option.bind (v7fs_mkdir fp (mode AND 0xFFF) (img t)) (\<lambda>(r, s).
                       if r < 0 \<and> r \<noteq> - EEXIST then copy_entries env rest (count_error (t\<lparr>img := s\<rparr>))
                       else Option.bind (v7fs_chown fp 0 0 s) (\<lambda>(_, s).
                         let (sub, t) = open_tree env hp fp (t\<lparr>img := s\<rparr>)
                         in copy_entries env (sub @ rest) t))
                 | H_REG \<Rightarrow> Option.bind (copy_file env hp fp mode sz t) (\<lambda>t. copy_entries env rest t)
                 | _ \<Rightarrow> copy_entries env rest t))"

definition copy_tree :: "hostfs \<Rightarrow> string \<Rightarrow> string \<Rightarrow> imgst \<Rightarrow> imgst option" where
  "copy_tree env hostdir fsdir t =
     (let (work, t) = open_tree env hostdir fsdir t in copy_entries env work t)"

fun copy_args :: "hostfs \<Rightarrow> (string \<times> string) list \<Rightarrow> imgst \<Rightarrow> imgst option" where
  "copy_args env [] t = Some t"
| "copy_args env ((src, dst) # rest) t = do {
     t \<leftarrow> (if dst \<noteq> ''/'' then do {
         (_, s) \<leftarrow> v7fs_mkdir dst 0x1ED (img t);
         (_, s) \<leftarrow> v7fs_chown dst 0 0 s;
         Some (t\<lparr>img := s\<rparr>) }
       else Some t);
     t \<leftarrow> copy_tree env src dst t;
     copy_args env rest t }"

text \<open>
  \<open>main\<close> with its arguments converted; \<open>created\<close> is the result of creating and sizing the
  image file where that is asked for. The result is the exit status.
\<close>

definition mkv7img_main :: "hostfs \<Rightarrow> openenv \<Rightarrow> int option \<Rightarrow> int \<Rightarrow> int \<Rightarrow> bool
    \<Rightarrow> (string \<times> string) list \<Rightarrow> kernel \<Rightarrow> (int \<times> kernel) option" where
  "mkv7img_main env oenv created fssize offset create args s =
     (if create \<and> created \<noteq> None then Some (1, s)
      else
        let (r, s) = dsk_open oenv fssize offset False False False s in
        if r \<noteq> 0 then Some (1, s)
        else do {
          (r, s) \<leftarrow> v7fs_mkfs fssize 0 224 16 s;
          if r \<noteq> 0 then Some (1, s)
          else do {
            (r, s) \<leftarrow> v7fs_init False s;
            if r \<noteq> 0 then Some (1, s)
            else do {
              (_, s) \<leftarrow> v7fs_setreuid 0 0 s;
              (_, s) \<leftarrow> v7fs_setregid 0 0 s;
              t \<leftarrow> copy_args env args \<lparr>img = s, g_errors = 0, g_links = 0, g_ded = []\<rparr>;
              (_, s) \<leftarrow> v7fs_sync (img t);
              (_, s) \<leftarrow> v7fs_shutdown s;
              let (_, s) = dsk_flush s;
              let (_, s) = dsk_close s;
              Some (if g_errors t \<noteq> 0 then 1 else 0, s) } } })"

text \<open>
  The table links a file to the first file recorded with its size and hash: a record added is found unless an
  older one with the same key hides it, and no other lookup changes.
\<close>

lemma dedup_lookup_after_add:
  "dedup_lookup sz h (dedup_add sz' h' p t) = (case dedup_lookup sz h t of Some q \<Rightarrow> Some q
     | None \<Rightarrow> if sz = sz' \<and> h = h' then Some p else None)"
  by (auto simp: dedup_lookup_def dedup_add_def find_append split: option.splits)

end
