(* ===== verification/Taperestore.thy ===== *)
theory Taperestore
  imports Hostfs
begin

text \<open>
  \<open>taperestore.c\<close>, which replays a manifest made from the dump files of a tape, and
  \<open>mkdev.c\<close>, which makes device nodes from a list.
\<close>

section \<open>The manifest\<close>

record entry =
  e_kind :: char
  e_mode :: int
  e_uid :: int
  e_gid :: int
  e_atime :: int
  e_mtime :: int
  e_aux :: string
  e_path :: string

text \<open>
  The part of a string before a character, and the part after it where the character occurs:
  what \<open>strchr\<close> and the store of a NUL leave.
\<close>

definition cut_at :: "char \<Rightarrow> string \<Rightarrow> string \<times> string option" where
  "cut_at c s = (takeWhile (\<lambda>x. x \<noteq> c) s,
     if c \<in> set s then Some (tl (dropWhile (\<lambda>x. x \<noteq> c) s)) else None)"

text \<open>The first \<open>n\<close> fields, each ended by a tab, and the rest of the line.\<close>

fun tab_fields :: "nat \<Rightarrow> string \<Rightarrow> (string list \<times> string) option" where
  "tab_fields 0 s = Some ([], s)"
| "tab_fields (Suc n) s =
     (case cut_at (CHR 0x09) s of
        (f, Some r) \<Rightarrow> do { (fs, r) \<leftarrow> tab_fields n r; Some (f # fs, r) }
      | (f, None) \<Rightarrow> None)"

definition parse_entry :: "string \<Rightarrow> entry option" where
  "parse_entry line = do {
     (fs, last) \<leftarrow> tab_fields 7 line;
     Some \<lparr>e_kind = (case fs ! 0 of [] \<Rightarrow> CHR 0x00 | c # _ \<Rightarrow> c),
       e_mode = u32 (fst (strtoul (fs ! 1) 8)), e_uid = u32 (fst (strtoul (fs ! 2) 10)),
       e_gid = u32 (fst (strtoul (fs ! 3) 10)), e_atime = strtoll (fs ! 4),
       e_mtime = strtoll (fs ! 5), e_aux = fs ! 6, e_path = fst (cut_at (CHR 0x0A) last)\<rparr> }"

text \<open>The loop over the lines of the manifest: \<open>None\<close> where \<open>main\<close> exits with status 1.\<close>

fun read_manifest :: "string list \<Rightarrow> entry list option" where
  "read_manifest [] = Some []"
| "read_manifest (line # rest) =
     (if line \<noteq> [] \<and> (hd line = CHR ''#'' \<or> hd line = CHR 0x0A) then read_manifest rest
      else do { e \<leftarrow> parse_entry line; es \<leftarrow> read_manifest rest; Some (e # es) })"


section \<open>Restoring\<close>

text \<open>The kernel with the static \<open>failures\<close>.\<close>

record restst =
  rst :: kernel
  failures :: int

definition fail :: "restst \<Rightarrow> restst" where
  "fail t = t\<lparr>failures := failures t + 1\<rparr>"

text \<open>Running a function of the library, and counting a failure when it reports one.\<close>

definition run_call :: "(kernel \<Rightarrow> (int \<times> kernel) option) \<Rightarrow> restst \<Rightarrow> (int \<times> restst) option" where
  "run_call f t = do { (r, s) \<leftarrow> f (rst t); Some (r, t\<lparr>rst := s\<rparr>) }"

definition checked :: "(kernel \<Rightarrow> (int \<times> kernel) option) \<Rightarrow> restst \<Rightarrow> (int \<times> restst) option" where
  "checked f t = do { (r, t) \<leftarrow> run_call f t; Some (r, if r < 0 then fail t else t) }"

fun restore_chunks :: "int \<Rightarrow> byte list list \<Rightarrow> kernel \<Rightarrow> (int \<times> kernel) option" where
  "restore_chunks out [] s = Some (0, s)"
| "restore_chunks out (c # cs) s = do {
     (w, s) \<leftarrow> write_all out (length c) 0 (load_buf c s);
     if w < 0 then Some (w, s) else restore_chunks out cs s }"

definition tape_copy_file :: "hostfs \<Rightarrow> string \<Rightarrow> string \<Rightarrow> int \<Rightarrow> kernel \<Rightarrow> (int \<times> kernel) option" where
  "tape_copy_file env source pathname mode s =
     (case hf_read env source of
        Inl e \<Rightarrow> Some (- e, s)
      | Inr (bs, err) \<Rightarrow> do {
          (out, s) \<leftarrow> v7fs_open pathname {O_CREAT, O_WRONLY, O_TRUNC} (mode AND 0xFFF) s;
          if out < 0 then Some (out, s)
          else do {
            (result, s) \<leftarrow> restore_chunks out (chunks bs) s;
            let result = (if result \<ge> 0 then (case err of Some e \<Rightarrow> - e | None \<Rightarrow> 0) else result);
            (c, s) \<leftarrow> v7fs_close out s;
            Some (if c < 0 \<and> result = 0 then - EIO else result, s) } })"

definition set_metadata :: "entry \<Rightarrow> restst \<Rightarrow> restst option" where
  "set_metadata e t = do {
     (_, t) \<leftarrow> checked (v7fs_chown (e_path e) (e_uid e) (e_gid e)) t;
     (_, t) \<leftarrow> checked (v7fs_chmod (e_path e) (e_mode e AND 0xFFF)) t;
     (_, t) \<leftarrow> checked (v7fs_utimens (e_path e) (Some ((e_atime e, Nsec 0), (e_mtime e, Nsec 0)))) t;
     Some t }"

text \<open>
  The body of the loop over the entries. The device number is split by the tool and put
  together by the host's \<open>makedev\<close>, which its \<open>major\<close> and \<open>minor\<close> undo.
\<close>

definition restore_entry :: "hostfs \<Rightarrow> entry \<Rightarrow> restst \<Rightarrow> restst option" where
  "restore_entry env e t = do {
     (r, t) \<leftarrow>
       (if e_kind e = CHR ''d'' then
          (if e_path e \<noteq> ''/'' then do {
             (r, t) \<leftarrow> run_call (v7fs_mkdir (e_path e) 0x1C0) t;
             Some (r, if r < 0 \<and> r \<noteq> - EEXIST then fail t else t) }
           else Some (0, t))
        else if e_kind e = CHR ''f'' then checked (tape_copy_file env (e_aux e) (e_path e) (e_mode e)) t
        else if e_kind e = CHR ''b'' \<or> e_kind e = CHR ''c'' then
          (let vd = fst (strtoul (e_aux e) 0);
               ty = (if e_kind e = CHR ''b'' then IFBLK else IFCHR)
           in checked (v7fs_mknod (e_path e) (ty OR (e_mode e AND 0xFFF))
                (vd div 256 AND 0xFF) (vd AND 0xFF)) t)
        else if e_kind e = CHR ''h'' then checked (v7fs_link (e_aux e) (e_path e)) t
        else if e_kind e = CHR ''u'' then checked (v7fs_unlink (e_path e)) t
        else Some (0, fail t));
     if e_kind e \<noteq> CHR ''h'' \<and> e_kind e \<noteq> CHR ''u'' \<and> r \<ge> 0 then set_metadata e t else Some t }"

definition restore_all :: "hostfs \<Rightarrow> entry list \<Rightarrow> restst \<Rightarrow> restst option" where
  "restore_all env es t = do {
     t \<leftarrow> for_each (restore_entry env) es t;
     for_each set_metadata (filter (\<lambda>e. e_kind e = CHR ''d'') (rev es)) t }"

datatype action = Act_mkfs | Act_restore "string list option" | Act_other

text \<open>\<open>main\<close>: the manifest is the lines of the file, \<open>None\<close> where it cannot be opened.\<close>

definition taperestore_main :: "hostfs \<Rightarrow> openenv \<Rightarrow> int \<Rightarrow> int \<Rightarrow> int \<Rightarrow> int \<Rightarrow> action \<Rightarrow> kernel
    \<Rightarrow> (int \<times> kernel) option" where
  "taperestore_main env oenv fssize offset flm fln act s =
     (case (case act of
          Act_restore None \<Rightarrow> Inl 1
        | Act_restore (Some lines) \<Rightarrow>
            (case read_manifest lines of None \<Rightarrow> Inl 1 | Some es \<Rightarrow> Inr es)
        | Act_mkfs \<Rightarrow> Inr []
        | Act_other \<Rightarrow> Inl 2) of
        Inl status \<Rightarrow> Some (status, s)
      | Inr es \<Rightarrow>
          let (r, s) = dsk_open oenv fssize offset False False False s in
          if r < 0 then Some (1, s)
          else if act = Act_mkfs then do {
            (r, s) \<leftarrow> v7fs_mkfs fssize 0 fln flm s;
            if r < 0 then Some (1, s)
            else let (_, s) = dsk_flush s; (_, s) = dsk_close s in Some (0, s) }
          else do {
            (r, s) \<leftarrow> v7fs_init False s;
            if r < 0 then Some (1, s)
            else do {
              (_, s) \<leftarrow> v7fs_setreuid 0 0 s;
              (_, s) \<leftarrow> v7fs_setregid 0 0 s;
              t \<leftarrow> restore_all env es \<lparr>rst = s, failures = 0\<rparr>;
              (_, s) \<leftarrow> v7fs_sync (rst t);
              (_, s) \<leftarrow> v7fs_shutdown s;
              let (_, s) = dsk_flush s;
              let (_, s) = dsk_close s;
              Some (if failures t \<noteq> 0 then 1 else 0, s) } })"


section \<open>Device nodes\<close>

definition v7makedev :: "int \<Rightarrow> int \<Rightarrow> int" where
  "v7makedev maj mnr = push_bit 8 maj OR (mnr AND 0xFF)"

text \<open>The fields of a line of the list, as \<open>sscanf\<close> finds them.\<close>

definition scan_dev :: "string \<Rightarrow> (string \<times> char \<times> int \<times> int \<times> int) option" where
  "scan_dev line = do {
     (p, r) \<leftarrow> scan_s 127 line;
     (ty, r) \<leftarrow> scan_c r;
     (maj, r) \<leftarrow> scan_num 10 r;
     (mnr, r) \<leftarrow> scan_num 10 r;
     (mode, r) \<leftarrow> scan_num 8 r;
     Some (p, ty, maj, mnr, mode) }"

text \<open>
  The loop over the lines; \<open>hmajor\<close> and \<open>hminor\<close> are the host's macros that \<open>v7fs_mknod\<close>
  applies to the number. The counts are \<open>made\<close> and \<open>err\<close>.
\<close>

fun mkdev_lines :: "(int \<Rightarrow> int) \<Rightarrow> (int \<Rightarrow> int) \<Rightarrow> string list \<Rightarrow> int \<Rightarrow> int \<Rightarrow> kernel
    \<Rightarrow> (int \<times> int \<times> kernel) option" where
  "mkdev_lines hmajor hminor [] made err s = Some (made, err, s)"
| "mkdev_lines hmajor hminor (line # rest) made err s =
     (if line \<noteq> [] \<and> (hd line = CHR ''#'' \<or> hd line = CHR 0x0A)
      then mkdev_lines hmajor hminor rest made err s
      else case scan_dev line of
        None \<Rightarrow> mkdev_lines hmajor hminor rest made err s
      | Some (p, ty, maj, mnr, mode) \<Rightarrow> do {
          let m = (mode AND 0xFFF) OR (if ty = CHR ''b'' then IFBLK else IFCHR);
          let d = v7makedev maj mnr;
          (_, s) \<leftarrow> v7fs_unlink p s;
          (e, s) \<leftarrow> v7fs_mknod p m (hmajor d) (hminor d) s;
          if e < 0 then mkdev_lines hmajor hminor rest made (err + 1) s
          else do {
            (_, s) \<leftarrow> v7fs_chown p 0 0 s;
            mkdev_lines hmajor hminor rest (made + 1) err s } })"

definition mkdev_main :: "(int \<Rightarrow> int) \<Rightarrow> (int \<Rightarrow> int) \<Rightarrow> openenv \<Rightarrow> int \<Rightarrow> int \<Rightarrow> string list option
    \<Rightarrow> kernel \<Rightarrow> (int \<times> kernel) option" where
  "mkdev_main hmajor hminor oenv fssize offset devs s =
     (let (r, s) = dsk_open oenv fssize offset False False False s in
      if r \<noteq> 0 then Some (1, s)
      else do {
        (r, s) \<leftarrow> v7fs_init False s;
        if r \<noteq> 0 then Some (1, s)
        else do {
          (_, s) \<leftarrow> v7fs_setreuid 0 0 s;
          (_, s) \<leftarrow> v7fs_setregid 0 0 s;
          (_, s) \<leftarrow> v7fs_mkdir ''/dev'' 0x1ED s;
          (_, s) \<leftarrow> v7fs_chown ''/dev'' 0 0 s;
          case devs of
            None \<Rightarrow> Some (1, s)
          | Some lines \<Rightarrow> do {
              (made, err, s) \<leftarrow> mkdev_lines hmajor hminor lines 0 0 s;
              (_, s) \<leftarrow> v7fs_sync s;
              (_, s) \<leftarrow> v7fs_shutdown s;
              let (_, s) = dsk_flush s;
              let (_, s) = dsk_close s;
              Some (if err \<noteq> 0 then 1 else 0, s) } } })"


section \<open>Lines and fields\<close>

lemma cut_at_field: "c \<notin> set f \<Longrightarrow> cut_at c (f @ c # r) = (f, Some r)"
  by (simp add: cut_at_def takeWhile_append dropWhile_append)

lemma tab_fields_join:
  assumes "\<forall>f \<in> set fs. CHR 0x09 \<notin> set f"
  shows "tab_fields (length fs) (concat (map (\<lambda>f. f @ [CHR 0x09]) fs) @ r) = Some (fs, r)"
  using assms by (induction fs) (simp_all add: cut_at_field)

end
