(* ===== verification/Regexp.thy ===== *)
theory Regexp
  imports V7_Prelude
begin

text \<open>
  \<open>include/regexp.h\<close> of the ZEUS tape: \<open>compile\<close> turns the text of a pattern into a byte code and
  \<open>step\<close> and \<open>advance\<close> run it over a line. The macros \<open>GETC\<close>, \<open>PEEKC\<close> and \<open>UNGETC\<close> that read the
  pattern belong to the program that includes the file and are an argument here; \<open>RETURN\<close> and \<open>ERROR\<close>
  leave \<open>compile\<close>.

  A line is a list of bytes with the null byte after it; a pointer into it is an index. The compiled
  code is read forwards only, so \<open>ep\<close> in \<open>advance\<close> is the list of bytes that are left. A read past
  the null byte or past the code has no result. \<open>char\<close> is signed or unsigned as the argument \<open>sg\<close> says;
  only \<open>getrnge\<close> depends on it. \<open>low\<close> and \<open>size\<close> just carry the result of \<open>getrnge\<close> to the loops after
  it, and are local here.
\<close>

section \<open>Constants and globals\<close>

abbreviation "CBRA \<equiv> 2 :: byte"
abbreviation "CCHR \<equiv> 4 :: byte"
abbreviation "CDOT \<equiv> 8 :: byte"
abbreviation "CCL \<equiv> 12 :: byte"
abbreviation "CDOL \<equiv> 20 :: byte"
abbreviation "CCEOF \<equiv> 22 :: byte"
abbreviation "CKET \<equiv> 24 :: byte"
abbreviation "CBACK \<equiv> 36 :: byte"
abbreviation "STAR \<equiv> 1 :: byte"
abbreviation "RNGE \<equiv> 3 :: byte"
abbreviation "NBRA \<equiv> 9 :: nat"

definition bittab :: "byte list" where
  "bittab = [1, 2, 4, 8, 16, 32, 64, 128]"

record re_globals =
  braslist :: "nat \<Rightarrow> nat option"
  braelist :: "nat \<Rightarrow> nat option"
  nbra :: int
  ebra :: int
  loc1 :: "nat option"
  loc2 :: "nat option"
  locs :: "nat option"
  sed :: int
  nodelim :: int
  circf :: int


section \<open>Matching\<close>

text \<open>\<open>*lp\<close>.\<close>

definition line_at :: "byte list \<Rightarrow> nat \<Rightarrow> byte option" where
  "line_at s p = (if p < length s then Some (s ! p) else if p = length s then Some 0 else None)"

definition char_val :: "bool \<Rightarrow> byte \<Rightarrow> int" where
  "char_val sg b = (if sg then sint b else uint b)"

definition getrnge :: "bool \<Rightarrow> byte \<Rightarrow> byte \<Rightarrow> int \<times> int" where
  "getrnge sg a b = (uint a, if char_val sg b = 255 then 20000 else uint b - uint a)"

primrec ecmp :: "byte list \<Rightarrow> nat \<Rightarrow> nat \<Rightarrow> nat \<Rightarrow> bool option" where
  "ecmp s a b 0 = Some True"
| "ecmp s a b (Suc n) = do {
     x \<leftarrow> line_at s a;
     y \<leftarrow> line_at s b;
     if x \<noteq> y then Some False else ecmp s (a + 1) (b + 1) n }"

definition ISTHERE :: "byte list \<Rightarrow> byte \<Rightarrow> bool" where
  "ISTHERE ep c = (ep ! (unat c div 8) AND bittab ! (unat c mod 8) \<noteq> 0)"

text \<open>The test of \<open>CCL\<close> on \<open>*lp\<close>.\<close>

definition in_class :: "byte list \<Rightarrow> byte \<Rightarrow> bool" where
  "in_class ep x = ISTHERE ep (x AND 127)"

text \<open>\<open>while(*lp++ ...)\<close>: one past the first character that fails the test.\<close>

function run_past :: "(byte \<Rightarrow> bool) \<Rightarrow> byte list \<Rightarrow> nat \<Rightarrow> nat option" where
  "run_past P s lp =
     (case line_at s lp of
        None \<Rightarrow> None
      | Some x \<Rightarrow> if P x then run_past P s (lp + 1) else Some (lp + 1))"
  by pat_completeness auto
termination
  by (relation "measure (\<lambda>(P, s, lp). length s + 1 - lp)") (auto simp: line_at_def split: if_splits)

text \<open>\<open>while(low--)\<close>: \<open>None\<close> inside stands for the return of 0.\<close>

primrec run_low :: "(byte \<Rightarrow> bool) \<Rightarrow> byte list \<Rightarrow> nat \<Rightarrow> nat \<Rightarrow> nat option option" where
  "run_low P s 0 lp = Some (Some lp)"
| "run_low P s (Suc n) lp = do { x \<leftarrow> line_at s lp; if P x then run_low P s n (lp + 1) else Some None }"

text \<open>
  \<open>while(size--) ... if(size < 0) lp++\<close>, for the 16-bit counter \<open>size\<close> taken modulo \<open>2 ^ 16\<close>: after the
  loop runs out it is \<open>-1\<close>; after a \<open>break\<close> it is \<open>n\<close>, which is negative from 32768 on.
\<close>

primrec run_size :: "(byte \<Rightarrow> bool) \<Rightarrow> byte list \<Rightarrow> nat \<Rightarrow> nat \<Rightarrow> nat option" where
  "run_size P s 0 lp = Some (lp + 1)"
| "run_size P s (Suc n) lp = do {
     x \<leftarrow> line_at s lp;
     if P x then run_size P s n (lp + 1) else Some (if n < 32768 then lp + 1 else lp + 2) }"

text \<open>The label \<open>star\<close>: back up from \<open>lp\<close> to \<open>curlp\<close> until the rest of the code matches.\<close>

primrec star_loop :: "(nat \<Rightarrow> re_globals \<Rightarrow> (bool \<times> re_globals) option) \<Rightarrow> nat \<Rightarrow> nat \<Rightarrow> re_globals
    \<Rightarrow> (bool \<times> re_globals) option" where
  "star_loop adv curlp 0 g = None"
| "star_loop adv curlp (Suc lp) g =
     (if locs g = Some lp then Some (False, g)
      else do {
        (r, g) \<leftarrow> adv lp g;
        if r then Some (True, g)
        else if lp > curlp then star_loop adv curlp lp g else Some (False, g) })"

text \<open>The two loops of \<open>CBACK|STAR\<close>. The first never ends when the group is empty.\<close>

partial_function (option) back_run :: "byte list \<Rightarrow> nat \<Rightarrow> nat \<Rightarrow> nat \<Rightarrow> nat option" where
  "back_run s bbeg ct lp =
     Option.bind (ecmp s bbeg lp ct) (\<lambda>e. if e then back_run s bbeg ct (lp + ct) else Some lp)"

function back_loop :: "(nat \<Rightarrow> re_globals \<Rightarrow> (bool \<times> re_globals) option) \<Rightarrow> nat \<Rightarrow> nat \<Rightarrow> nat \<Rightarrow> re_globals
    \<Rightarrow> (bool \<times> re_globals) option" where
  "back_loop adv curlp ct lp g =
     (if lp < curlp then Some (False, g)
      else do {
        (r, g) \<leftarrow> adv lp g;
        if r then Some (True, g)
        else if ct = 0 then None
        else if lp < ct then Some (False, g) else back_loop adv curlp ct (lp - ct) g })"
  by pat_completeness auto
termination
  by (relation "measure (\<lambda>(adv, curlp, ct, lp, g). lp)") auto

text \<open>
  A group's start and the number of its characters, from \<open>braslist\<close> and \<open>braelist\<close>; no result for a null
  pointer. \<open>compile\<close> lets a back reference follow the end of its group only, so the end is never before
  the start.
\<close>

definition re_group :: "nat \<Rightarrow> re_globals \<Rightarrow> (nat \<times> nat) option" where
  "re_group k g =
     (case (braslist g k, braelist g k) of
        (Some b, Some e) \<Rightarrow> if k < NBRA \<and> b \<le> e then Some (b, e - b) else None
      | _ \<Rightarrow> None)"

text \<open>The three cases with \<open>RNGE\<close>, which differ in the test of a character.\<close>

definition range_case :: "bool \<Rightarrow> (byte \<Rightarrow> bool) \<Rightarrow> byte list \<Rightarrow> byte \<Rightarrow> byte
    \<Rightarrow> (nat \<Rightarrow> re_globals \<Rightarrow> (bool \<times> re_globals) option) \<Rightarrow> nat \<Rightarrow> re_globals \<Rightarrow> (bool \<times> re_globals) option" where
  "range_case sg P s a b adv lp g =
     (let (low, size) = getrnge sg a b in do {
        q \<leftarrow> run_low P s (nat low) lp;
        case q of
          None \<Rightarrow> Some (False, g)
        | Some curlp \<Rightarrow> do {
            lp \<leftarrow> run_size P s (nat (u16 size)) curlp;
            star_loop adv curlp lp g } })"

text \<open>Any other code byte is skipped: the \<open>switch\<close> has no default.\<close>

function advance :: "bool \<Rightarrow> byte list \<Rightarrow> byte list \<Rightarrow> nat \<Rightarrow> re_globals \<Rightarrow> (bool \<times> re_globals) option" where
  "advance sg s [] lp g = None"
| "advance sg s (opc # ep) lp g =
     (if opc = CCHR then
        (case ep of [] \<Rightarrow> None
         | c # ep \<Rightarrow> do { x \<leftarrow> line_at s lp; if c = x then advance sg s ep (lp + 1) g else Some (False, g) })
      else if opc = CDOT then
        do { x \<leftarrow> line_at s lp; if x \<noteq> 0 then advance sg s ep (lp + 1) g else Some (False, g) }
      else if opc = CDOL then
        do { x \<leftarrow> line_at s lp; if x = 0 then advance sg s ep lp g else Some (False, g) }
      else if opc = CCEOF then Some (True, g\<lparr>loc2 := Some lp\<rparr>)
      else if opc = CCL then
        (if length ep < 16 then None
         else do { x \<leftarrow> line_at s lp;
           if in_class ep x then advance sg s (drop 16 ep) (lp + 1) g else Some (False, g) })
      else if opc = CBRA then
        (case ep of [] \<Rightarrow> None
         | k # ep \<Rightarrow> if unat k < NBRA
             then advance sg s ep lp (g\<lparr>braslist := (braslist g)(unat k := Some lp)\<rparr>) else None)
      else if opc = CKET then
        (case ep of [] \<Rightarrow> None
         | k # ep \<Rightarrow> if unat k < NBRA
             then advance sg s ep lp (g\<lparr>braelist := (braelist g)(unat k := Some lp)\<rparr>) else None)
      else if opc = CCHR OR RNGE then
        (case ep of c # a # b # ep \<Rightarrow> range_case sg (\<lambda>x. x = c) s a b (advance sg s ep) lp g | _ \<Rightarrow> None)
      else if opc = CDOT OR RNGE then
        (case ep of a # b # ep \<Rightarrow> range_case sg (\<lambda>x. x \<noteq> 0) s a b (advance sg s ep) lp g | _ \<Rightarrow> None)
      else if opc = CCL OR RNGE then
        (if length ep < 18 then None
         else range_case sg (in_class ep) s (ep ! 16) (ep ! 17) (advance sg s (drop 18 ep)) lp g)
      else if opc = CBACK then
        (case ep of [] \<Rightarrow> None
         | k # ep \<Rightarrow> do {
             (bbeg, ct) \<leftarrow> re_group (unat k) g;
             e \<leftarrow> ecmp s bbeg lp ct;
             if e then advance sg s ep (lp + ct) g else Some (False, g) })
      else if opc = CBACK OR STAR then
        (case ep of [] \<Rightarrow> None
         | k # ep \<Rightarrow> do {
             (bbeg, ct) \<leftarrow> re_group (unat k) g;
             e \<leftarrow> back_run s bbeg ct lp;
             back_loop (advance sg s ep) lp ct e g })
      else if opc = CDOT OR STAR then
        do { e \<leftarrow> run_past (\<lambda>x. x \<noteq> 0) s lp; star_loop (advance sg s ep) lp e g }
      else if opc = CCHR OR STAR then
        (case ep of [] \<Rightarrow> None
         | c # ep \<Rightarrow> do { e \<leftarrow> run_past (\<lambda>x. x = c) s lp; star_loop (advance sg s ep) lp e g })
      else if opc = CCL OR STAR then
        (if length ep < 16 then None
         else do { e \<leftarrow> run_past (in_class ep) s lp; star_loop (advance sg s (drop 16 ep)) lp e g })
      else advance sg s ep lp g)"
  by pat_completeness auto
termination
  by (relation "measure (\<lambda>(sg, s, ep, lp, g). length ep)") auto

text \<open>The two loops of \<open>step\<close>; \<open>f\<close> is the test before \<open>advance\<close> in the fast one.\<close>

function step_loop :: "bool \<Rightarrow> (byte \<Rightarrow> bool) \<Rightarrow> byte list \<Rightarrow> byte list \<Rightarrow> nat \<Rightarrow> re_globals
    \<Rightarrow> (bool \<times> re_globals) option" where
  "step_loop sg f s p2 p1 g =
     (case line_at s p1 of
        None \<Rightarrow> None
      | Some x \<Rightarrow> do {
          (r, g) \<leftarrow> (if f x then advance sg s p2 p1 g else Some (False, g));
          if r then Some (True, g\<lparr>loc1 := Some p1\<rparr>)
          else if x \<noteq> 0 then step_loop sg f s p2 (p1 + 1) g else Some (False, g) })"
  by pat_completeness auto
termination
  by (relation "measure (\<lambda>(sg, f, s, p2, p1, g). length s + 1 - p1)") (auto simp: line_at_def split: if_splits)

definition step :: "bool \<Rightarrow> byte list \<Rightarrow> byte list \<Rightarrow> nat \<Rightarrow> re_globals \<Rightarrow> (bool \<times> re_globals) option" where
  "step sg s p2 p1 g =
     (if circf g \<noteq> 0 then advance sg s p2 p1 (g\<lparr>loc1 := Some p1\<rparr>)
      else case p2 of
        opc # c # _ \<Rightarrow> if opc = CCHR then step_loop sg (\<lambda>x. x = c) s p2 p1 g else step_loop sg (\<lambda>x. True) s p2 p1 g
      | _ \<Rightarrow> step_loop sg (\<lambda>x. True) s p2 p1 g)"


section \<open>Compiling\<close>

text \<open>
  The macros of the including program. A read outside the text, or past the end of the input, has no
  result.
\<close>

record 'i source =
  GETC :: "'i \<Rightarrow> (int \<times> 'i) option"
  PEEKC :: "'i \<Rightarrow> int option"
  UNGETC :: "int \<Rightarrow> 'i \<Rightarrow> 'i option"

text \<open>
  The variables of \<open>compile\<close>. \<open>cbuf\<close> is the memory around \<open>expbuf\<close>, \<open>cep\<close> the address \<open>ep\<close>; \<open>bracket\<close> is
  the array with its stack pointer.
\<close>

record 'i comp =
  inp :: 'i
  cbuf :: "int \<Rightarrow> byte"
  cep :: int
  lastep :: "int option"
  bracket :: "int list"
  closed :: int
  cglob :: re_globals

text \<open>A statement goes on with a value, or leaves by \<open>ERROR\<close> or \<open>RETURN\<close>.\<close>

datatype ('i, 'a) cres = Go 'a "'i comp" | ERROR int "'i comp" | RETURN int "'i comp"

definition re_put :: "int \<Rightarrow> 'i comp \<Rightarrow> 'i comp" where
  "re_put c st = st\<lparr>cbuf := (cbuf st)(cep st := word_of_int c), cep := cep st + 1\<rparr>"

definition re_op :: "byte \<Rightarrow> 'i comp \<Rightarrow> 'i comp" where
  "re_op b st = st\<lparr>cbuf := (cbuf st)(cep st := b), cep := cep st + 1\<rparr>"

definition re_getc :: "'i source \<Rightarrow> 'i comp \<Rightarrow> (int \<times> 'i comp) option" where
  "re_getc io st = do { (c, i) \<leftarrow> GETC io (inp st); Some (c, st\<lparr>inp := i\<rparr>) }"

definition re_ungetc :: "'i source \<Rightarrow> int \<Rightarrow> 'i comp \<Rightarrow> 'i comp option" where
  "re_ungetc io c st = do { i \<leftarrow> UNGETC io c (inp st); Some (st\<lparr>inp := i\<rparr>) }"

definition PLACE :: "int \<Rightarrow> 'i comp \<Rightarrow> 'i comp" where
  "PLACE c st = st\<lparr>cbuf := (cbuf st)(cep st + c div 8 := cbuf st (cep st + c div 8) OR bittab ! nat (c mod 8))\<rparr>"

definition defchar :: "int \<Rightarrow> 'i comp \<Rightarrow> 'i comp" where
  "defchar c st = re_put c (re_op CCHR (st\<lparr>lastep := Some (cep st)\<rparr>))"

definition or_last :: "byte \<Rightarrow> int \<Rightarrow> 'i comp \<Rightarrow> 'i comp" where
  "or_last b p st = st\<lparr>cbuf := (cbuf st)(p := cbuf st p OR b)\<rparr>"

text \<open>The loop over the characters of a class. The character after \<open>-\<close> is not checked.\<close>

partial_function (option) class_loop :: "'i source \<Rightarrow> int \<Rightarrow> int \<Rightarrow> 'i comp \<Rightarrow> ('i, unit) cres option" where
  "class_loop io c lc st =
     (if c = 0 \<or> c = 10 then Some (ERROR 49 st)
      else if c = 45 \<and> lc \<noteq> 0 then
        Option.bind (re_getc io st) (\<lambda>(c, st).
          if c = 93 then Some (Go () (PLACE 45 st))
          else Option.bind (re_getc io (PLACE c (fold PLACE [lc..c - 1] st))) (\<lambda>(d, st).
            if d \<noteq> 93 then class_loop io d c st else Some (Go () st)))
      else Option.bind (re_getc io (PLACE c st)) (\<lambda>(d, st).
        if d \<noteq> 93 then class_loop io d c st else Some (Go () st)))"

definition class_start :: "'i comp \<Rightarrow> 'i comp" where
  "class_start st = (let st = re_op CCL st
     in st\<lparr>cbuf := (\<lambda>a. if cep st \<le> a \<and> a < cep st + 16 then 0 else cbuf st a)\<rparr>)"

definition class_end :: "bool \<Rightarrow> 'i comp \<Rightarrow> 'i comp" where
  "class_end neg st =
     (let st = (if neg then
          (let st = st\<lparr>cbuf := (\<lambda>a. if cep st \<le> a \<and> a < cep st + 16 then cbuf st a XOR - 1 else cbuf st a)\<rparr>
           in st\<lparr>cbuf := (cbuf st)(cep st := cbuf st (cep st) AND 254)\<rparr>)
        else st)
      in st\<lparr>cep := cep st + 16\<rparr>)"

definition compile_class :: "'i source \<Rightarrow> int \<Rightarrow> 'i comp \<Rightarrow> ('i, unit) cres option" where
  "compile_class io endbuf st =
     (if cep st + 17 \<ge> endbuf then Some (ERROR 50 st)
      else do {
        (c, st) \<leftarrow> re_getc io (class_start st);
        (neg, c, st) \<leftarrow> (if c = 94 then do { (c, st) \<leftarrow> re_getc io st; Some (True, c, st) } else Some (False, c, st));
        r \<leftarrow> class_loop io c 0 st;
        case r of
          Go _ st \<Rightarrow> Some (Go () (class_end neg st))
        | ERROR e st \<Rightarrow> Some (ERROR e st)
        | RETURN p st \<Rightarrow> Some (RETURN p st) })"

text \<open>The digits of a number in a 16-bit \<open>int\<close>, and the character after them.\<close>

partial_function (option) number_loop :: "'i source \<Rightarrow> int \<Rightarrow> int \<Rightarrow> 'i comp \<Rightarrow> ('i, int \<times> int) cres option" where
  "number_loop io c i st =
     (if 48 \<le> c \<and> c \<le> 57 then
        Option.bind (re_getc io st) (\<lambda>(d, st).
          if d \<noteq> 92 \<and> d \<noteq> 44 then number_loop io d (s16 (10 * i + c - 48)) st
          else Some (Go (s16 (10 * i + c - 48), d) st))
      else Some (ERROR 16 st))"

text \<open>What follows the numbers.\<close>

definition range_end :: "'i source \<Rightarrow> bool \<Rightarrow> int \<Rightarrow> 'i comp \<Rightarrow> ('i, unit) cres option" where
  "range_end io cflg i st = do {
     (d, st) \<leftarrow> re_getc io st;
     if d \<noteq> 125 then Some (ERROR 45 st)
     else if \<not> cflg then Some (Go () (re_put i st))
     else if uint (cbuf st (cep st - 1)) < uint (cbuf st (cep st - 2)) then Some (ERROR 46 st)
     else Some (Go () st) }"

partial_function (option) nlim :: "'i source \<Rightarrow> bool \<Rightarrow> 'i comp \<Rightarrow> ('i, unit) cres option" where
  "nlim io cflg st =
     Option.bind (re_getc io st) (\<lambda>(c, st).
     Option.bind (number_loop io c 0 st) (\<lambda>r.
       case r of
         ERROR e st \<Rightarrow> Some (ERROR e st)
       | RETURN p st \<Rightarrow> Some (RETURN p st)
       | Go v st \<Rightarrow>
           if fst v > 255 then Some (ERROR 11 st)
           else let st = re_put (fst v) st in
             if snd v = 44 then
               (if cflg then Some (ERROR 44 st)
                else Option.bind (re_getc io st) (\<lambda>(d, st).
                  if d = 92 then range_end io True (fst v) (re_put 255 st)
                  else Option.bind (re_ungetc io d st) (\<lambda>st. nlim io True st)))
             else range_end io cflg (fst v) st))"

text \<open>The characters after a backslash.\<close>

definition compile_escape :: "'i source \<Rightarrow> 'i comp \<Rightarrow> ('i, unit) cres option" where
  "compile_escape io st = do {
     (c, st) \<leftarrow> re_getc io st;
     let g = cglob st;
     if c = 40 then
       (if nbra g \<ge> int NBRA then Some (ERROR 43 st)
        else Some (Go () (re_put (nbra g) (re_op CBRA
          (st\<lparr>bracket := nbra g # bracket st, cglob := g\<lparr>nbra := nbra g + 1\<rparr>\<rparr>)))))
     else if c = 41 then
       (case bracket st of
          [] \<Rightarrow> Some (ERROR 42 st)
        | k # ks \<Rightarrow>
            let st = st\<lparr>cglob := g\<lparr>ebra := ebra g + 1\<rparr>\<rparr> in
            if ebra g + 1 \<noteq> nbra g then Some (ERROR 42 st)
            else Some (Go () (re_put k (re_op CKET (st\<lparr>bracket := ks, closed := closed st + 1\<rparr>)))))
     else if c = 123 then
       (case lastep st of
          None \<Rightarrow> Some (Go () (defchar c st))
        | Some p \<Rightarrow> nlim io False (or_last RNGE p st))
     else if c = 10 then Some (ERROR 36 st)
     else if c = 110 then Some (Go () (defchar 10 st))
     else if 49 \<le> c \<and> c \<le> 57 then
       (if c - 49 \<ge> closed st then Some (ERROR 25 st) else Some (Go () (re_put (c - 49) (re_op CBACK st))))
     else Some (Go () (defchar c st)) }"

text \<open>The statements of the loop after \<open>lastep\<close> is set.\<close>

definition compile_char :: "'i source \<Rightarrow> int \<Rightarrow> int \<Rightarrow> int \<Rightarrow> 'i comp \<Rightarrow> ('i, unit) cres option" where
  "compile_char io endbuf eof c st =
     (if c = eof then let st = re_op CCEOF st in Some (RETURN (cep st) st)
      else if c = 46 then Some (Go () (re_op CDOT st))
      else if c = 10 then
        (if sed (cglob st) = 0 then do {
           st \<leftarrow> re_ungetc io c st;
           let st = (re_op CCEOF st)\<lparr>cglob := (cglob st)\<lparr>nodelim := 1\<rparr>\<rparr>;
           Some (RETURN (cep st) st) }
         else Some (ERROR 36 st))
      else if c = 42 then
        (case lastep st of
           None \<Rightarrow> Some (Go () (defchar c st))
         | Some p \<Rightarrow> if cbuf st p = CBRA \<or> cbuf st p = CKET then Some (Go () (defchar c st))
                    else Some (Go () (or_last STAR p st)))
      else if c = 36 then do {
        d \<leftarrow> PEEKC io (inp st);
        if d \<noteq> eof \<and> d \<noteq> 10 then Some (Go () (defchar c st)) else Some (Go () (re_op CDOL st)) }
      else if c = 91 then compile_class io endbuf st
      else if c = 92 then compile_escape io st
      else Some (Go () (defchar c st)))"

definition compile_step :: "'i source \<Rightarrow> int \<Rightarrow> int \<Rightarrow> 'i comp \<Rightarrow> ('i, unit) cres option" where
  "compile_step io endbuf eof st =
     (if cep st \<ge> endbuf then Some (ERROR 50 st)
      else do {
        (c, st) \<leftarrow> re_getc io st;
        keep \<leftarrow> (if c = 42 then Some True
          else if c \<noteq> 92 then Some False
          else do { d \<leftarrow> PEEKC io (inp st); Some (d = 123) });
        compile_char io endbuf eof c (if keep then st else st\<lparr>lastep := Some (cep st)\<rparr>) })"

partial_function (option) compile_loop :: "'i source \<Rightarrow> int \<Rightarrow> int \<Rightarrow> 'i comp \<Rightarrow> ((int + int) \<times> 'i comp) option" where
  "compile_loop io endbuf eof st =
     Option.bind (compile_step io endbuf eof st) (\<lambda>r.
       case r of
         Go u st \<Rightarrow> compile_loop io endbuf eof st
       | ERROR e st \<Rightarrow> Some (Inl e, st)
       | RETURN p st \<Rightarrow> Some (Inr p, st))"

text \<open>\<open>Inl\<close> is the number given to \<open>ERROR\<close>, \<open>Inr\<close> the pointer given to \<open>RETURN\<close>.\<close>

definition re_compile :: "'i source \<Rightarrow> 'i \<Rightarrow> (int \<Rightarrow> byte) \<Rightarrow> int \<Rightarrow> int \<Rightarrow> int \<Rightarrow> re_globals
    \<Rightarrow> ((int + int) \<times> 'i comp) option" where
  "re_compile io i buf ep endbuf eof g = do {
     let st = \<lparr>inp = i, cbuf = buf, cep = ep, lastep = None, bracket = [], closed = 0, cglob = g\<rparr>;
     (c, st) \<leftarrow> re_getc io st;
     if c = eof \<or> c = 10 then do {
       st \<leftarrow> (if c = 10 then do { st \<leftarrow> re_ungetc io c st; Some (st\<lparr>cglob := (cglob st)\<lparr>nodelim := 1\<rparr>\<rparr>) }
             else Some st);
       if cbuf st ep = 0 \<and> sed (cglob st) = 0 then Some (Inl 41, st) else Some (Inr ep, st) }
     else do {
       let st = st\<lparr>cglob := (cglob st)\<lparr>circf := (if c = 94 then 1 else 0), nbra := 0, ebra := 0\<rparr>\<rparr>;
       st \<leftarrow> (if c = 94 then Some st else re_ungetc io c st);
       compile_loop io endbuf eof st } }"

declare run_past.simps [simp del] back_loop.simps [simp del] step_loop.simps [simp del] advance.simps(2) [simp del]

end
