(* ===== verification/Regexp_Spec.thy ===== *)
theory Regexp_Spec
  imports Regexp
begin

text \<open>
  The meaning of patterns. A pattern is a list of nodes; \<open>matches\<close> says which parts of a line it
  matches, without any order of trying, and \<open>rcode\<close> is the code \<open>compile\<close> makes of it. \<open>advance\<close> on this
  code always returns, finds a match where there is one, and only then; \<open>step\<close> finds the leftmost.
\<close>

section \<open>Patterns and what they match\<close>

datatype atom = AChr byte | ADot | ACls bool "byte list"

datatype node = One atom | Star atom | Rng atom nat nat | Dol | Bra nat | Ket nat

fun atom_test :: "atom \<Rightarrow> byte \<Rightarrow> bool" where
  "atom_test (AChr c) x \<longleftrightarrow> x = c"
| "atom_test ADot x \<longleftrightarrow> x \<noteq> 0"
| "atom_test (ACls neg cs) x \<longleftrightarrow> (if neg then x AND 127 \<noteq> 0 \<and> x AND 127 \<notin> set cs else x AND 127 \<in> set cs)"

text \<open>\<open>n\<close> characters from \<open>i\<close> on pass the test.\<close>

definition reps :: "(byte \<Rightarrow> bool) \<Rightarrow> byte list \<Rightarrow> nat \<Rightarrow> nat \<Rightarrow> bool" where
  "reps P s i n \<longleftrightarrow> i + n \<le> length s \<and> (\<forall>k < n. P (s ! (i + k)))"

text \<open>The largest count of a range. \<open>\{m,\}\<close> is stored as 255, which only an unsigned \<open>char\<close> can have.\<close>

definition rng_max :: "bool \<Rightarrow> nat \<Rightarrow> nat \<Rightarrow> nat" where
  "rng_max sg lo hi = (if hi = 255 \<and> \<not> sg then lo + 20000 else hi)"

fun matches :: "bool \<Rightarrow> byte list \<Rightarrow> node list \<Rightarrow> nat \<Rightarrow> nat \<Rightarrow> bool" where
  "matches sg s [] i j \<longleftrightarrow> j = i"
| "matches sg s (One a # r) i j \<longleftrightarrow> reps (atom_test a) s i 1 \<and> matches sg s r (i + 1) j"
| "matches sg s (Star a # r) i j \<longleftrightarrow> (\<exists>n. reps (atom_test a) s i n \<and> matches sg s r (i + n) j)"
| "matches sg s (Rng a lo hi # r) i j \<longleftrightarrow>
     (\<exists>n. lo \<le> n \<and> n \<le> rng_max sg lo hi \<and> reps (atom_test a) s i n \<and> matches sg s r (i + n) j)"
| "matches sg s (Dol # r) i j \<longleftrightarrow> i = length s \<and> matches sg s r i j"
| "matches sg s (Bra k # r) i j \<longleftrightarrow> matches sg s r i j"
| "matches sg s (Ket k # r) i j \<longleftrightarrow> matches sg s r i j"

fun atom_ok :: "atom \<Rightarrow> bool" where
  "atom_ok (AChr c) \<longleftrightarrow> c \<noteq> 0"
| "atom_ok ADot \<longleftrightarrow> True"
| "atom_ok (ACls neg cs) \<longleftrightarrow> (\<forall>c \<in> set cs. c \<noteq> 0 \<and> c < 128)"

fun node_ok :: "node \<Rightarrow> bool" where
  "node_ok (One a) \<longleftrightarrow> atom_ok a"
| "node_ok (Star a) \<longleftrightarrow> atom_ok a"
| "node_ok (Rng a lo hi) \<longleftrightarrow> atom_ok a \<and> lo \<le> hi \<and> hi \<le> 255"
| "node_ok Dol \<longleftrightarrow> True"
| "node_ok (Bra k) \<longleftrightarrow> k < NBRA"
| "node_ok (Ket k) \<longleftrightarrow> k < NBRA"


section \<open>The code\<close>

definition class_set :: "byte \<Rightarrow> byte list \<Rightarrow> byte list" where
  "class_set c d = d[unat c div 8 := d ! (unat c div 8) OR bittab ! (unat c mod 8)]"

definition class_code :: "bool \<Rightarrow> byte list \<Rightarrow> byte list" where
  "class_code neg cs =
     (let d = fold class_set cs (replicate 16 0);
          e = map (\<lambda>b. b XOR - 1) d
      in if neg then e[0 := e ! 0 AND 254] else d)"

fun atom_op :: "atom \<Rightarrow> byte" where
  "atom_op (AChr c) = CCHR"
| "atom_op ADot = CDOT"
| "atom_op (ACls neg cs) = CCL"

fun atom_arg :: "atom \<Rightarrow> byte list" where
  "atom_arg (AChr c) = [c]"
| "atom_arg ADot = []"
| "atom_arg (ACls neg cs) = class_code neg cs"

fun ncode :: "node \<Rightarrow> byte list" where
  "ncode (One a) = atom_op a # atom_arg a"
| "ncode (Star a) = (atom_op a OR STAR) # atom_arg a"
| "ncode (Rng a lo hi) = (atom_op a OR RNGE) # atom_arg a @ [of_nat lo, of_nat hi]"
| "ncode Dol = [CDOL]"
| "ncode (Bra k) = [CBRA, of_nat k]"
| "ncode (Ket k) = [CKET, of_nat k]"

definition rcode :: "node list \<Rightarrow> byte list" where
  "rcode r = concat (map ncode r) @ [CCEOF]"

lemma rcode_simps: "rcode [] = [CCEOF]" "rcode (n # r) = ncode n @ rcode r"
  by (simp_all add: rcode_def)

lemma length_class_set [simp]: "length (class_set c d) = length d"
  by (simp add: class_set_def)

lemma length_class_sets [simp]: "length (fold class_set cs d) = length d"
  by (induction cs arbitrary: d) auto

lemma length_class_code [simp]: "length (class_code neg cs) = 16"
  by (simp add: class_code_def Let_def)


section \<open>Classes\<close>

text \<open>The bit of a character in a table of 16 bytes.\<close>

definition class_bit :: "byte list \<Rightarrow> nat \<Rightarrow> bool" where
  "class_bit d k = bit (d ! (k div 8)) (k mod 8)"

lemma less_8_cases: "k < 8 \<Longrightarrow> k = 0 \<or> k = 1 \<or> k = 2 \<or> k = 3 \<or> k = 4 \<or> k = 5 \<or> k = 6 \<or> (k :: nat) = 7"
  by linarith

lemma bittab_exp: "k < 8 \<Longrightarrow> bittab ! k = push_bit k 1"
  by (drule less_8_cases) (auto simp: bittab_def push_bit_eq_mult)

lemma ISTHERE_bit: "ISTHERE d c = class_bit d (unat c)"
proof -
  have k: "unat c mod 8 < 8" by simp
  show ?thesis unfolding ISTHERE_def class_bit_def bittab_exp [OF k]
    by (simp add: bit_iff_and_push_bit_not_eq_0)
qed

lemma class_bit_set:
  assumes "k < 128" "unat c < 128" "length d = 16"
  shows "class_bit (class_set c d) k \<longleftrightarrow> class_bit d k \<or> k = unat c"
proof (cases "k div 8 = unat c div 8")
  case True
  have m: "unat c mod 8 < 8" by simp
  have "k mod 8 = unat c mod 8 \<longleftrightarrow> k = unat c" using True by (metis div_mult_mod_eq)
  moreover have "k div 8 < 16" using assms(1) by simp
  ultimately show ?thesis using True assms(3)
    by (simp add: class_bit_def class_set_def bittab_exp [OF m] bit_or_iff bit_push_bit_iff)
       (auto simp: bit_simps)
next
  case False
  then show ?thesis by (auto simp: class_bit_def class_set_def)
qed

lemma class_bit_sets:
  assumes "k < 128" "\<forall>c \<in> set cs. unat c < 128" "length d = 16"
  shows "class_bit (fold class_set cs d) k \<longleftrightarrow> class_bit d k \<or> k \<in> unat ` set cs"
  using assms by (induction cs arbitrary: d) (auto simp: class_bit_set)

lemma class_bit_zero: "k < 128 \<Longrightarrow> \<not> class_bit (replicate 16 0) k"
  by (simp add: class_bit_def)

lemma class_bit_neg:
  assumes "k < 128" "length d = 16"
  shows "class_bit ((map (\<lambda>b. b XOR - 1) d)[0 := map (\<lambda>b. b XOR - 1) d ! 0 AND 254]) k \<longleftrightarrow> k \<noteq> 0 \<and> \<not> class_bit d k"
proof -
  have b: "bit (254 :: byte) n \<longleftrightarrow> n \<noteq> 0" if "n < 8" for n
    using less_8_cases [OF that] by (auto simp: bit_iff_odd_drop_bit)
  have m: "k mod 8 < 8" by simp
  have d: "k div 8 < 16" using assms(1) by simp
  show ?thesis
  proof (cases "k div 8 = 0")
    case True
    then show ?thesis using assms d b [OF m]
      by (auto simp: class_bit_def bit_simps)
  next
    case False
    then have "k \<noteq> 0" by auto
    then show ?thesis using False assms d m by (auto simp: class_bit_def bit_simps)
  qed
qed

lemma and_127: "unat (x AND 127 :: byte) < 128"
proof -
  have "x AND 127 = take_bit 7 x" by (simp add: take_bit_eq_mask mask_eq_exp_minus_1)
  then have "unat (x AND 127) = take_bit 7 (unat x)" by (simp add: unsigned_take_bit_eq)
  then show ?thesis by (simp add: take_bit_eq_mod)
qed

lemma in_class_code:
  assumes "\<forall>c \<in> set cs. c < 128"
  shows "in_class (class_code neg cs @ r) x = atom_test (ACls neg cs) x"
proof -
  let ?k = "unat (x AND 127)"
  have c: "\<forall>c \<in> set cs. unat c < 128" using assms by (auto simp: word_less_nat_alt)
  have k: "?k < 128" by (rule and_127)
  then have "?k div 8 < 16" by simp
  then have "class_bit (class_code neg cs @ r) ?k = class_bit (class_code neg cs) ?k"
    by (simp add: class_bit_def nth_append)
  moreover have "class_bit (class_code neg cs) ?k
      \<longleftrightarrow> (if neg then ?k \<noteq> 0 \<and> ?k \<notin> unat ` set cs else ?k \<in> unat ` set cs)"
    using class_bit_sets [OF k c, of "replicate 16 0"] class_bit_zero [OF k] class_bit_neg [OF k, of "fold class_set cs (replicate 16 0)"]
    by (auto simp: class_code_def Let_def)
  moreover have "?k \<in> unat ` set cs \<longleftrightarrow> x AND 127 \<in> set cs" by (rule inj_image_mem_iff) (simp add: inj_def word_unat_eq_iff)
  moreover have "?k = 0 \<longleftrightarrow> x AND 127 = 0" by (simp add: unat_eq_0)
  ultimately show ?thesis by (simp add: in_class_def ISTHERE_bit)
qed


section \<open>Runs of characters\<close>

text \<open>The number of characters from \<open>i\<close> on that pass the test.\<close>

definition run :: "(byte \<Rightarrow> bool) \<Rightarrow> byte list \<Rightarrow> nat \<Rightarrow> nat" where
  "run P s i = length (takeWhile P (drop i s))"

lemma run_step:
  assumes "i \<le> length s"
  shows "run P s i = (if i < length s \<and> P (s ! i) then run P s (i + 1) + 1 else 0)"
  using assms by (cases "i < length s") (auto simp: run_def Cons_nth_drop_Suc [symmetric])

lemma run_end [simp]: "run P s (length s) = 0"
  by (simp add: run_def)

lemma run_le: "i \<le> length s \<Longrightarrow> i + run P s i \<le> length s"
  using length_takeWhile_le [of P "drop i s"] by (simp add: run_def)

lemma reps_run:
  assumes "i \<le> length s"
  shows "reps P s i n \<longleftrightarrow> n \<le> run P s i"
  using assms
proof (induction n arbitrary: i)
  case (Suc n)
  have "reps P s i (Suc n) \<longleftrightarrow> i < length s \<and> P (s ! i) \<and> reps P s (i + 1) n"
    by (auto simp: reps_def less_Suc_eq_0_disj)
  then show ?case using Suc.IH [of "i + 1"] Suc.prems run_step [of i s P] by auto
qed (simp add: reps_def)

lemma line_at_in: "p < length s \<Longrightarrow> line_at s p = Some (s ! p)"
  by (simp add: line_at_def)

lemma line_at_end: "line_at s (length s) = Some 0"
  by (simp add: line_at_def)

lemma line_at_ex: "p \<le> length s \<Longrightarrow> \<exists>x. line_at s p = Some x"
  by (cases "p = length s") (auto simp: line_at_def)

lemma line_at_zero:
  assumes "0 \<notin> set s" "line_at s i = Some x"
  shows "x = 0 \<longleftrightarrow> i = length s"
proof (cases "i < length s")
  case True
  then have "x \<in> set s" using assms(2) nth_mem by (auto simp: line_at_def)
  then show ?thesis using True assms(1) by auto
qed (use assms(2) in \<open>auto simp: line_at_def split: if_splits\<close>)

lemma run_past_run:
  assumes "i \<le> length s" "\<not> P 0"
  shows "run_past P s i = Some (i + run P s i + 1)"
  using assms
proof (induction "length s - i" arbitrary: i)
  case 0
  then have "i = length s" by simp
  then show ?case using 0 by (simp add: run_past.simps line_at_end run_step)
next
  case (Suc n)
  then have "i < length s" by simp
  then show ?case using Suc by (auto simp: run_past.simps [of P s i] line_at_in run_step [of i])
qed

lemma run_low_run:
  assumes "i \<le> length s" "\<not> P 0"
  shows "run_low P s n i = Some (if n \<le> run P s i then Some (i + n) else None)"
  using assms
proof (induction n arbitrary: i)
  case (Suc n)
  then show ?case by (cases "i = length s") (auto simp: line_at_in line_at_end run_step [of i s])
qed simp

lemma run_size_run:
  assumes "i \<le> length s" "\<not> P 0" "n \<le> 32768"
  shows "run_size P s n i = Some (i + min n (run P s i) + 1)"
  using assms
proof (induction n arbitrary: i)
  case (Suc n)
  then show ?case by (cases "i = length s") (auto simp: line_at_in line_at_end run_step [of i s])
qed simp


section \<open>The matcher decides the meaning\<close>

text \<open>
  A part of the matcher decides \<open>Q\<close>: it returns, with true just where some end satisfies \<open>Q\<close>, and then
  \<open>loc2\<close> is such an end.
\<close>

definition decides :: "(nat \<Rightarrow> bool) \<Rightarrow> (re_globals \<Rightarrow> (bool \<times> re_globals) option) \<Rightarrow> bool" where
  "decides Q f \<longleftrightarrow> (\<forall>g. locs g = None \<longrightarrow> (\<exists>b h. f g = Some (b, h) \<and> locs h = None \<and> loc1 h = loc1 g
     \<and> (if b then \<exists>j. loc2 h = Some j \<and> Q j else \<forall>j. \<not> Q j)))"

lemma decidesE:
  assumes "decides Q f" "locs g = None"
  obtains b h where "f g = Some (b, h)" "locs h = None" "loc1 h = loc1 g" "if b then \<exists>j. loc2 h = Some j \<and> Q j else \<forall>j. \<not> Q j"
  using assms unfolding decides_def by blast

lemma decides_fail: "(\<And>j. \<not> Q j) \<Longrightarrow> decides Q (\<lambda>g. Some (False, g))"
  by (auto simp: decides_def)

lemma decides_cong:
  assumes "decides Q f" "\<And>j. Q j = R j" "\<And>g. f g = h g"
  shows "decides R h"
proof -
  have "Q = R" "f = h" using assms(2,3) by (auto simp: fun_eq_iff)
  then show ?thesis using assms(1) by simp
qed

lemma decides_pre: "decides Q f \<Longrightarrow> (\<And>g. locs (h g) = locs g \<and> loc1 (h g) = loc1 g) \<Longrightarrow> decides Q (\<lambda>g. f (h g))"
  unfolding decides_def by metis

text \<open>Backing up from \<open>i + m\<close> to \<open>i\<close> tries every position.\<close>

lemma star_loop_decides:
  assumes "\<And>k. k \<le> m \<Longrightarrow> decides (Q (i + k)) (adv (i + k))"
  shows "decides (\<lambda>j. \<exists>n \<le> m. Q (i + n) j) (star_loop adv i (i + m + 1))"
  using assms
proof (induction m)
  case 0
  show ?case unfolding decides_def
  proof (intro allI impI)
    fix g :: re_globals assume g: "locs g = None"
    show "\<exists>b h. star_loop adv i (i + 0 + 1) g = Some (b, h) \<and> locs h = None \<and> loc1 h = loc1 g
        \<and> (if b then \<exists>j. loc2 h = Some j \<and> (\<exists>n\<le>0. Q (i + n) j) else \<forall>j. \<not> (\<exists>n\<le>0. Q (i + n) j))"
      using 0 [of 0] g by (auto elim!: decidesE [OF _ g] split: if_splits)
  qed
next
  case (Suc m)
  have ih: "decides (\<lambda>j. \<exists>n \<le> m. Q (i + n) j) (star_loop adv i (i + m + 1))" by (rule Suc.IH) (simp add: Suc.prems)
  show ?case unfolding decides_def
  proof (intro allI impI)
    fix g :: re_globals assume g: "locs g = None"
    obtain b h where h: "adv (i + Suc m) g = Some (b, h)" "locs h = None" "loc1 h = loc1 g"
      "if b then \<exists>j. loc2 h = Some j \<and> Q (i + Suc m) j else \<forall>j. \<not> Q (i + Suc m) j"
      using Suc.prems [of "Suc m"] g by (auto elim: decidesE)
    obtain c k where k: "star_loop adv i (i + m + 1) h = Some (c, k)" "locs k = None" "loc1 k = loc1 h"
      "if c then \<exists>j. loc2 k = Some j \<and> (\<exists>n \<le> m. Q (i + n) j) else \<forall>j. \<not> (\<exists>n \<le> m. Q (i + n) j)"
      using ih h(2) by (auto elim: decidesE)
    have e: "star_loop adv i (i + Suc m + 1) g = (if b then Some (True, h) else star_loop adv i (i + m + 1) h)"
      using g h(1) by simp
    have l: "(\<exists>n \<le> Suc m. Q (i + n) j) \<longleftrightarrow> Q (i + Suc m) j \<or> (\<exists>n \<le> m. Q (i + n) j)" for j
      by (auto simp: le_Suc_eq)
    show "\<exists>b h. star_loop adv i (i + Suc m + 1) g = Some (b, h) \<and> locs h = None \<and> loc1 h = loc1 g
        \<and> (if b then \<exists>j. loc2 h = Some j \<and> (\<exists>n \<le> Suc m. Q (i + n) j) else \<forall>j. \<not> (\<exists>n \<le> Suc m. Q (i + n) j))"
      unfolding e l using h k by (cases b; cases c) auto
  qed
qed

lemma getrnge_max:
  assumes "lo \<le> hi" "hi \<le> 255"
  shows "getrnge sg (of_nat lo) (of_nat hi) = (int lo, int (rng_max sg lo hi - lo))"
proof -
  have u: "uint (of_nat lo :: byte) = int lo" "uint (of_nat hi :: byte) = int hi"
    using assms by (simp_all add: uint_nat unat_of_nat)
  have "sint b < 255" for b :: byte using sint_lt [of b] by simp
  then show ?thesis using assms u by (auto simp: getrnge_def char_val_def rng_max_def less_le)
qed

lemma range_decides:
  assumes "i \<le> length s" "\<not> P 0" "lo \<le> hi" "hi \<le> 255"
    and "\<And>k. k \<le> length s \<Longrightarrow> decides (Q k) (adv k)"
  shows "decides (\<lambda>j. \<exists>n. lo \<le> n \<and> n \<le> rng_max sg lo hi \<and> reps P s i n \<and> Q (i + n) j)
     (range_case sg P s (of_nat lo) (of_nat hi) adv i)"
proof (cases "lo \<le> run P s i")
  case False
  have "range_case sg P s (of_nat lo) (of_nat hi) adv i g = Some (False, g)" for g
    using False assms(1,2) by (simp add: range_case_def getrnge_max [OF assms(3,4)] run_low_run)
  moreover have "\<not> (lo \<le> n \<and> reps P s i n)" for n using False reps_run [OF assms(1)] by (meson le_trans)
  ultimately show ?thesis by (intro decides_cong [OF decides_fail [of "\<lambda>_. False"]]) auto
next
  case True
  let ?sz = "rng_max sg lo hi - lo" and ?m = "min (rng_max sg lo hi - lo) (run P s (i + lo))"
  have le: "i + lo \<le> length s" using True run_le [OF assms(1), of P] by linarith
  have sz: "?sz \<le> 20000" using assms(4) by (auto simp: rng_max_def)
  then have u: "nat (u16 (int ?sz)) = ?sz" using u16_id [of "int ?sz"] by simp
  have r: "run P s (i + lo) = run P s i - lo"
    using True le
  proof (induction lo)
    case (Suc k)
    then show ?case using run_step [of "i + k" s P] by (simp split: if_splits)
  qed simp
  have e: "range_case sg P s (of_nat lo) (of_nat hi) adv i g = star_loop adv (i + lo) (i + lo + ?m + 1) g" for g
    using True assms(1,2) le sz
    by (simp add: range_case_def getrnge_max [OF assms(3,4)] run_low_run u run_size_run del: star_loop.simps)
  have d: "decides (\<lambda>j. \<exists>n \<le> ?m. Q (i + lo + n) j) (star_loop adv (i + lo) (i + lo + ?m + 1))"
    by (rule star_loop_decides, rule assms(5)) (use run_le [OF le, of P] in auto)
  have mx: "lo \<le> rng_max sg lo hi" using assms(3) by (simp add: rng_max_def)
  have "(\<exists>n \<le> ?m. Q (i + lo + n) j) \<longleftrightarrow> (\<exists>n. lo \<le> n \<and> n \<le> rng_max sg lo hi \<and> reps P s i n \<and> Q (i + n) j)" for j
  proof
    assume "\<exists>n \<le> ?m. Q (i + lo + n) j"
    then obtain n where "n \<le> ?m" "Q (i + lo + n) j" by auto
    then show "\<exists>n. lo \<le> n \<and> n \<le> rng_max sg lo hi \<and> reps P s i n \<and> Q (i + n) j"
      using r True mx reps_run [OF assms(1)] by (intro exI [of _ "lo + n"]) (auto simp: add.assoc)
  next
    assume "\<exists>n. lo \<le> n \<and> n \<le> rng_max sg lo hi \<and> reps P s i n \<and> Q (i + n) j"
    then obtain n where n: "lo \<le> n" "n \<le> rng_max sg lo hi" "n \<le> run P s i" "Q (i + n) j"
      using reps_run [OF assms(1)] by auto
    then show "\<exists>n \<le> ?m. Q (i + lo + n) j" using r by (intro exI [of _ "n - lo"]) auto
  qed
  then show ?thesis using decides_cong [OF d] e by simp
qed


section \<open>The code of a node\<close>

lemma atom_test_zero: "atom_ok a \<Longrightarrow> \<not> atom_test a 0"
  by (cases a) auto

lemma drop_class [simp]: "drop 16 (class_code neg cs @ r) = r" "drop 18 (class_code neg cs @ x # y # r) = r"
  by simp_all

lemma nth_class [simp]:
  "(class_code neg cs @ x # y # r) ! 16 = x" "(class_code neg cs @ x # y # r) ! 17 = y"
  by (simp_all add: nth_append)

lemma advance_one:
  assumes "atom_ok a"
  shows "advance sg s (ncode (One a) @ ep) i g =
    do { x \<leftarrow> line_at s i; if atom_test a x then advance sg s ep (i + 1) g else Some (False, g) }"
proof (cases a)
  case (AChr c)
  then show ?thesis by (simp add: advance.simps(2) eq_commute [of c])
next
  case ADot
  then show ?thesis by (simp add: advance.simps(2))
next
  case (ACls neg cs)
  then have c: "in_class (class_code neg cs @ ep) = atom_test a" using assms in_class_code by (auto simp: fun_eq_iff)
  show ?thesis using ACls c by (simp add: advance.simps(2) cong: if_cong del: atom_test.simps)
qed

lemma advance_star:
  assumes "atom_ok a"
  shows "advance sg s (ncode (Star a) @ ep) i g =
    do { e \<leftarrow> run_past (atom_test a) s i; star_loop (advance sg s ep) i e g }"
proof (cases a)
  case (AChr c)
  then have "atom_test a = (\<lambda>x. x = c)" by (auto simp: fun_eq_iff)
  with AChr show ?thesis by (simp add: advance.simps(2) del: atom_test.simps)
next
  case ADot
  then have "atom_test a = (\<lambda>x. x \<noteq> 0)" by (auto simp: fun_eq_iff)
  with ADot show ?thesis by (simp add: advance.simps(2) del: atom_test.simps)
next
  case (ACls neg cs)
  then have c: "in_class (class_code neg cs @ ep) = atom_test a" using assms in_class_code by (auto simp: fun_eq_iff)
  show ?thesis using ACls c by (simp add: advance.simps(2) del: atom_test.simps)
qed

lemma advance_rng:
  assumes "atom_ok a"
  shows "advance sg s (ncode (Rng a lo hi) @ ep) i g =
    range_case sg (atom_test a) s (of_nat lo) (of_nat hi) (advance sg s ep) i g"
proof (cases a)
  case (AChr c)
  then have "atom_test a = (\<lambda>x. x = c)" by (auto simp: fun_eq_iff)
  with AChr show ?thesis by (simp add: advance.simps(2) del: atom_test.simps)
next
  case ADot
  then have "atom_test a = (\<lambda>x. x \<noteq> 0)" by (auto simp: fun_eq_iff)
  with ADot show ?thesis by (simp add: advance.simps(2) del: atom_test.simps)
next
  case (ACls neg cs)
  then have c: "in_class (class_code neg cs @ [of_nat lo, of_nat hi] @ ep) = atom_test a"
    using assms in_class_code by (auto simp: fun_eq_iff)
  show ?thesis using ACls c by (simp add: advance.simps(2) del: atom_test.simps)
qed

lemma unat_group: "k < NBRA \<Longrightarrow> unat (of_nat k :: byte) = k"
  by (simp add: unat_of_nat)

lemma advance_plain:
  "advance sg s (CCEOF # ep) i g = Some (True, g\<lparr>loc2 := Some i\<rparr>)"
  "advance sg s (CDOL # ep) i g = do { x \<leftarrow> line_at s i; if x = 0 then advance sg s ep i g else Some (False, g) }"
  "k < NBRA \<Longrightarrow> advance sg s (CBRA # of_nat k # ep) i g = advance sg s ep i (g\<lparr>braslist := (braslist g)(k := Some i)\<rparr>)"
  "k < NBRA \<Longrightarrow> advance sg s (CKET # of_nat k # ep) i g = advance sg s ep i (g\<lparr>braelist := (braelist g)(k := Some i)\<rparr>)"
  by (simp_all add: advance.simps(2) unat_group)

theorem advance_decides:
  assumes "0 \<notin> set s" "\<forall>n \<in> set r. node_ok n" "i \<le> length s"
  shows "decides (matches sg s r i) (advance sg s (rcode r) i)"
  using assms
proof (induction r arbitrary: i)
  case Nil
  show ?case by (auto simp: rcode_simps decides_def advance_plain)
next
  case (Cons n r)
  have ih: "decides (matches sg s r k) (advance sg s (rcode r) k)" if "k \<le> length s" for k
    using Cons.IH [OF Cons.prems(1) _ that] Cons.prems(2) by simp
  show ?case
  proof (cases n)
    case (One a)
    then have a: "atom_ok a" using Cons.prems(2) by simp
    note e = advance_one [OF a, of sg s "rcode r" i]
    show ?thesis
    proof (cases "i < length s \<and> atom_test a (s ! i)")
      case True
      then show ?thesis using ih [of "i + 1"] One
        by (intro decides_cong [OF ih [of "i + 1"]]) (simp_all add: reps_def rcode_simps e line_at_in del: ncode.simps)
    next
      case False
      have "advance sg s (rcode (n # r)) i g = Some (False, g)" for g
        using False One Cons.prems(3) atom_test_zero [OF a]
        by (cases "i = length s") (auto simp: rcode_simps advance_one [OF a] line_at_in line_at_end simp del: ncode.simps)
      then show ?thesis using False One
        by (intro decides_cong [OF decides_fail [of "\<lambda>_. False"]]) (auto simp: reps_def)
    qed
  next
    case (Star a)
    then have a: "atom_ok a" using Cons.prems(2) by simp
    let ?m = "run (atom_test a) s i"
    have d: "decides (\<lambda>j. \<exists>n \<le> ?m. matches sg s r (i + n) j) (star_loop (advance sg s (rcode r)) i (i + ?m + 1))"
      by (rule star_loop_decides, rule ih) (use run_le [OF Cons.prems(3), of "atom_test a"] in linarith)
    show ?thesis
      by (rule decides_cong [OF d])
        (use Star in \<open>auto simp: reps_run [OF Cons.prems(3)] rcode_simps advance_star [OF a]
          run_past_run [where P = "atom_test a", OF Cons.prems(3) atom_test_zero [OF a]] simp del: ncode.simps star_loop.simps\<close>)
  next
    case (Rng a lo hi)
    then have a: "atom_ok a" "lo \<le> hi" "hi \<le> 255" using Cons.prems(2) by simp_all
    show ?thesis
      by (rule decides_cong [OF range_decides [where P = "atom_test a" and Q = "matches sg s r", OF Cons.prems(3) atom_test_zero [OF a(1)] a(2,3) ih]])
        (use Rng in \<open>auto simp: rcode_simps advance_rng [OF a(1)] simp del: ncode.simps\<close>)
  next
    case Dol
    obtain x where x: "line_at s i = Some x" using line_at_ex [OF Cons.prems(3)] by auto
    show ?thesis
    proof (cases "i = length s")
      case True
      then show ?thesis using Dol ih [OF Cons.prems(3)] line_at_zero [OF Cons.prems(1) x]
        by (intro decides_cong [OF ih [OF Cons.prems(3)]]) (simp_all add: rcode_simps advance_plain line_at_end)
    next
      case False
      then show ?thesis using Dol line_at_zero [OF Cons.prems(1) x]
        by (intro decides_cong [OF decides_fail [of "\<lambda>_. False"]]) (simp_all add: rcode_simps advance_plain x)
    qed
  next
    case (Bra k)
    then show ?thesis using Cons.prems(2)
      by (intro decides_cong [OF decides_pre [OF ih [OF Cons.prems(3)],
            of "\<lambda>g. g\<lparr>braslist := (braslist g)(k := Some i)\<rparr>"]]) (simp_all add: rcode_simps advance_plain)
  next
    case (Ket k)
    then show ?thesis using Cons.prems(2)
      by (intro decides_cong [OF decides_pre [OF ih [OF Cons.prems(3)],
            of "\<lambda>g. g\<lparr>braelist := (braelist g)(k := Some i)\<rparr>"]]) (simp_all add: rcode_simps advance_plain)
  qed
qed


section \<open>The leftmost match\<close>

text \<open>What a search from \<open>i\<close> on finds.\<close>

definition leftmost :: "bool \<Rightarrow> byte list \<Rightarrow> node list \<Rightarrow> nat \<Rightarrow> bool \<times> re_globals \<Rightarrow> bool" where
  "leftmost sg s r i res \<longleftrightarrow>
     (case res of (b, h) \<Rightarrow>
        if b then \<exists>k j. loc1 h = Some k \<and> loc2 h = Some j \<and> i \<le> k \<and> k \<le> length s \<and> matches sg s r k j
          \<and> (\<forall>m. i \<le> m \<and> m < k \<longrightarrow> (\<forall>j. \<not> matches sg s r m j))
        else \<forall>k j. i \<le> k \<and> k \<le> length s \<longrightarrow> \<not> matches sg s r k j)"

lemma leftmost_later:
  assumes "leftmost sg s r (i + 1) res" "\<forall>j. \<not> matches sg s r i j"
  shows "leftmost sg s r i res"
proof -
  obtain b h where r: "res = (b, h)" by (cases res)
  have i: "i \<le> m \<longleftrightarrow> m = i \<or> i + 1 \<le> m" for m by auto
  show ?thesis
  proof (cases b)
    case True
    obtain k j where k: "loc1 h = Some k" "loc2 h = Some j" "i + 1 \<le> k" "k \<le> length s" "matches sg s r k j"
      "\<forall>m. i + 1 \<le> m \<and> m < k \<longrightarrow> (\<forall>j. \<not> matches sg s r m j)"
      using assms(1) True r by (auto simp: leftmost_def)
    have "\<forall>m. i \<le> m \<and> m < k \<longrightarrow> (\<forall>j. \<not> matches sg s r m j)" using k(6) assms(2) i by metis
    then show ?thesis using k True r by (auto simp: leftmost_def intro!: exI [of _ k] exI [of _ j])
  next
    case False
    then have "\<forall>k j. i + 1 \<le> k \<and> k \<le> length s \<longrightarrow> \<not> matches sg s r k j" using assms(1) r by (simp add: leftmost_def)
    then have "\<forall>k j. i \<le> k \<and> k \<le> length s \<longrightarrow> \<not> matches sg s r k j" using assms(2) i by metis
    then show ?thesis using False r by (simp add: leftmost_def)
  qed
qed

lemma step_loop_leftmost:
  assumes "0 \<notin> set s" "\<forall>n \<in> set r. node_ok n" "i \<le> length s" "locs g = None"
    and "\<And>k x j. line_at s k = Some x \<Longrightarrow> \<not> f x \<Longrightarrow> \<not> matches sg s r k j"
  shows "\<exists>res. step_loop sg f s (rcode r) i g = Some res \<and> leftmost sg s r i res"
  using assms(3,4)
proof (induction "length s - i" arbitrary: i g rule: less_induct)
  case less
  obtain x where x: "line_at s i = Some x" using line_at_ex [OF less.prems(1)] by auto
  have z: "x = 0 \<longleftrightarrow> i = length s" by (rule line_at_zero [OF assms(1) x])
  obtain b h where h: "(if f x then advance sg s (rcode r) i g else Some (False, g)) = Some (b, h)" "locs h = None"
    "if b then \<exists>j. loc2 h = Some j \<and> matches sg s r i j else \<forall>j. \<not> matches sg s r i j"
  proof (cases "f x")
    case True
    then show ?thesis using decidesE [OF advance_decides [OF assms(1,2) less.prems(1)] less.prems(2)] that by metis
  next
    case False
    then show ?thesis using that [of False g] assms(5) [OF x] less.prems(2) by simp
  qed
  note e = step_loop.simps [of sg f s "rcode r" i g]
  show ?case
  proof (cases "b \<or> x = 0")
    case True
    then have "step_loop sg f s (rcode r) i g = Some (b, if b then h\<lparr>loc1 := Some i\<rparr> else h)"
      using x h(1) True by (auto simp: e)
    moreover have "leftmost sg s r i (b, if b then h\<lparr>loc1 := Some i\<rparr> else h)"
      using True h(3) z less.prems(1) by (auto simp: leftmost_def split: if_splits)
    ultimately show ?thesis by blast
  next
    case False
    then have lt: "i < length s" using z less.prems(1) by auto
    have "step_loop sg f s (rcode r) i g = step_loop sg f s (rcode r) (i + 1) h" using x h(1) False by (simp add: e)
    moreover obtain res where "step_loop sg f s (rcode r) (i + 1) h = Some res" "leftmost sg s r (i + 1) res"
      using less.hyps [of "i + 1" h, OF _ _ h(2)] lt diff_less_mono2 [of i "i + 1" "length s"] by auto
    ultimately show ?thesis using leftmost_later h(3) False by auto
  qed
qed

lemma rcode_fast:
  assumes "rcode r = CCHR # c # ep"
  shows "\<exists>q. r = One (AChr c) # q"
proof (cases r)
  case (Cons n q)
  then have "ncode n @ rcode q = CCHR # c # ep" using assms by (simp add: rcode_simps)
  then show ?thesis using Cons
  proof (cases n)
    case (One a)
    then show ?thesis using Cons \<open>ncode n @ rcode q = _\<close> by (cases a) auto
  next
    case (Star a)
    then show ?thesis using \<open>ncode n @ rcode q = _\<close> by (cases a) auto
  next
    case (Rng a lo hi)
    then show ?thesis using \<open>ncode n @ rcode q = _\<close> by (cases a) auto
  qed auto
qed (use assms in \<open>simp add: rcode_simps\<close>)

theorem step_leftmost:
  assumes "0 \<notin> set s" "\<forall>n \<in> set r. node_ok n" "i \<le> length s" "locs g = None" "circf g = 0"
  shows "\<exists>res. step sg s (rcode r) i g = Some res \<and> leftmost sg s r i res"
proof (cases "\<exists>c ep. rcode r = CCHR # c # ep")
  case True
  then obtain c ep where c: "rcode r = CCHR # c # ep" by auto
  then obtain q where q: "r = One (AChr c) # q" using rcode_fast by blast
  have n: "\<not> matches sg s r k j" if "line_at s k = Some x" "x \<noteq> c" for k x j
    using that q by (auto simp: line_at_def reps_def split: if_splits)
  have "step sg s (rcode r) i g = step_loop sg (\<lambda>x. x = c) s (rcode r) i g" using assms(5) c by (simp add: step_def)
  moreover have "\<exists>res. step_loop sg (\<lambda>x. x = c) s (rcode r) i g = Some res \<and> leftmost sg s r i res"
    by (rule step_loop_leftmost [OF assms(1-4)]) (rule n)
  ultimately show ?thesis by simp
next
  case False
  then have "step sg s (rcode r) i g = step_loop sg (\<lambda>x. True) s (rcode r) i g"
    using assms(5) by (auto simp: step_def split: list.split)
  moreover have "\<exists>res. step_loop sg (\<lambda>x. True) s (rcode r) i g = Some res \<and> leftmost sg s r i res"
    by (rule step_loop_leftmost [OF assms(1-4)]) simp
  ultimately show ?thesis by simp
qed

text \<open>An anchored pattern is tried at the start only.\<close>

lemma step_anchored:
  assumes "0 \<notin> set s" "\<forall>n \<in> set r. node_ok n" "i \<le> length s" "locs g = None" "circf g \<noteq> 0"
  shows "\<exists>b h. step sg s (rcode r) i g = Some (b, h)
    \<and> (if b then \<exists>j. loc1 h = Some i \<and> loc2 h = Some j \<and> matches sg s r i j else \<forall>j. \<not> matches sg s r i j)"
proof -
  have "locs (g\<lparr>loc1 := Some i\<rparr>) = None" using assms(4) by simp
  from decidesE [OF advance_decides [OF assms(1-3), of sg] this] obtain b h
    where h: "advance sg s (rcode r) i (g\<lparr>loc1 := Some i\<rparr>) = Some (b, h)" "loc1 h = Some i"
      "if b then \<exists>j. loc2 h = Some j \<and> matches sg s r i j else \<forall>j. \<not> matches sg s r i j" by (metis re_globals.select_convs(5) re_globals.surjective re_globals.update_convs(5))
  then have "step sg s (rcode r) i g = Some (b, h)" using assms(5) by (simp add: step_def)
  then show ?thesis using h(2,3) by auto
qed

end
