(* ===== verification/Regexp_Comp.thy ===== *)
theory Regexp_Comp
  imports Regexp_Spec
begin

text \<open>
  \<open>compile\<close> on the text of a pattern. \<open>rtext\<close> writes a pattern down in the notation of \<open>ed\<close>; what the
  including program promises of \<open>GETC\<close>, \<open>PEEKC\<close> and \<open>UNGETC\<close> is the locale \<open>char_source\<close>, and inside it
  \<open>compile\<close> reads the text of a pattern and leaves its code in the buffer. The macros of \<open>grep\<close> are an
  instance.
\<close>

section \<open>The text of a pattern\<close>

definition esc :: "int \<Rightarrow> int \<Rightarrow> int list" where
  "esc eof c = (if c = 10 then [92, 110] else if c \<in> {36, 42, 46, 91, 92, 94, eof} then [92, c] else [c])"

fun atom_text :: "int \<Rightarrow> atom \<Rightarrow> int list" where
  "atom_text eof (AChr c) = esc eof (uint c)"
| "atom_text eof ADot = [46]"
| "atom_text eof (ACls neg cs) = 91 # (if neg then [94] else []) @ map uint cs @ [93]"

definition num_text :: "nat \<Rightarrow> int list" where
  "num_text n = (if n < 10 then [48 + int n]
     else if n < 100 then [48 + int n div 10, 48 + int n mod 10]
     else [48 + int n div 100, 48 + int n div 10 mod 10, 48 + int n mod 10])"

fun node_text :: "int \<Rightarrow> node \<Rightarrow> int list" where
  "node_text eof (One a) = atom_text eof a"
| "node_text eof (Star a) = atom_text eof a @ [42]"
| "node_text eof (Rng a lo hi) = atom_text eof a @ [92, 123] @ num_text lo @ [44] @ num_text hi @ [92, 125]"
| "node_text eof Dol = [36]"
| "node_text eof (Bra k) = [92, 40]"
| "node_text eof (Ket k) = [92, 41]"

definition rtext :: "int \<Rightarrow> node list \<Rightarrow> int list" where
  "rtext eof r = concat (map (node_text eof) r)"

text \<open>
  Patterns that can be written: the characters of a class are listed one by one, \<open>$\<close> stands last, groups
  are numbered in order and not nested.
\<close>

fun atom_plain :: "atom \<Rightarrow> bool" where
  "atom_plain (ACls neg cs) \<longleftrightarrow> cs \<noteq> [] \<and> (\<forall>c \<in> set cs. c \<noteq> 10 \<and> c \<noteq> 45 \<and> c \<noteq> 93) \<and> (neg \<or> hd cs \<noteq> 94)"
| "atom_plain a \<longleftrightarrow> True"

fun plain :: "nat \<Rightarrow> bool \<Rightarrow> node list \<Rightarrow> bool" where
  "plain k op [] \<longleftrightarrow> True"
| "plain k op (One a # r) \<longleftrightarrow> atom_plain a \<and> plain k op r"
| "plain k op (Star a # r) \<longleftrightarrow> atom_plain a \<and> plain k op r"
| "plain k op (Rng a lo hi # r) \<longleftrightarrow> atom_plain a \<and> plain k op r"
| "plain k op (Dol # r) \<longleftrightarrow> r = []"
| "plain k op (Bra m # r) \<longleftrightarrow> \<not> op \<and> m = k \<and> plain (k + 1) True r"
| "plain k op (Ket m # r) \<longleftrightarrow> op \<and> k = m + 1 \<and> plain k False r"

definition plain_eof :: "int \<Rightarrow> bool" where
  "plain_eof eof \<longleftrightarrow> eof \<notin> {10, 36, 40, 41, 42, 46, 91, 92, 94, 110, 123} \<and> \<not> (49 \<le> eof \<and> eof \<le> 57)"


section \<open>The buffer\<close>

definition wr :: "(int \<Rightarrow> byte) \<Rightarrow> int \<Rightarrow> byte list \<Rightarrow> int \<Rightarrow> byte" where
  "wr buf p bs = (\<lambda>a. if p \<le> a \<and> a < p + int (length bs) then bs ! nat (a - p) else buf a)"

lemma wr_Nil [simp]: "wr buf p [] = buf"
  by (auto simp: wr_def fun_eq_iff)

lemma wr_wr: "wr (wr buf p as) (p + int (length as)) bs = wr buf p (as @ bs)"
proof
  fix a
  have "nat (a - p) - length as = nat (a - (p + int (length as)))" by linarith
  then show "wr (wr buf p as) (p + int (length as)) bs a = wr buf p (as @ bs) a"
    by (auto simp: wr_def nth_append)
qed

lemma wr_one: "buf(p := b) = wr buf p [b]"
  by (auto simp: wr_def)

lemma wr_cons: "wr (wr buf p [b]) (p + 1) bs = wr buf p (b # bs)"
  using wr_wr [of buf p "[b]" bs] by simp

lemma wr_upd_first: "(wr buf p (b # bs))(p := c) = wr buf p (c # bs)"
  by (auto simp: wr_def)

lemma wr_first: "wr buf p (b # bs) p = b"
  by (simp add: wr_def)

lemma wr_read: "k < length bs \<Longrightarrow> wr buf p bs (p + int k) = bs ! k"
  by (simp add: wr_def)

text \<open>The state after a node: its code is in the buffer, and \<open>lastep\<close> points to it.\<close>

definition emit :: "byte list \<Rightarrow> 'i \<Rightarrow> 'i comp \<Rightarrow> 'i comp" where
  "emit bs i st = st\<lparr>inp := i, cbuf := wr (cbuf st) (cep st) bs, cep := cep st + int (length bs), lastep := Some (cep st)\<rparr>"

lemma emit_simps [simp]:
  "inp (emit bs i st) = i" "cbuf (emit bs i st) = wr (cbuf st) (cep st) bs" "cep (emit bs i st) = cep st + int (length bs)"
  "lastep (emit bs i st) = Some (cep st)" "bracket (emit bs i st) = bracket st" "closed (emit bs i st) = closed st"
  "cglob (emit bs i st) = cglob st"
  by (simp_all add: emit_def)

lemma emit_inp: "(emit bs i st)\<lparr>inp := j\<rparr> = emit bs j st"
  by (simp add: emit_def)

lemma op_emit: "re_op b (st\<lparr>inp := i, lastep := Some (cep st)\<rparr>) = emit [b] i st"
  by (simp add: re_op_def emit_def wr_one)

lemma put_emit: "re_put c (emit bs i st) = emit (bs @ [word_of_int c]) i st"
  by (simp add: re_put_def emit_def wr_one wr_wr)

lemma defchar_emit: "defchar c (st\<lparr>inp := i, lastep := x\<rparr>) = emit [CCHR, word_of_int c] i st"
proof -
  have "defchar c (st\<lparr>inp := i, lastep := x\<rparr>) = re_put c (re_op CCHR (st\<lparr>inp := i, lastep := Some (cep st)\<rparr>))"
    by (simp add: defchar_def)
  then show ?thesis by (simp add: op_emit put_emit)
qed

lemma defchar_emit': "defchar c (st\<lparr>lastep := x, inp := i\<rparr>) = emit [CCHR, word_of_int c] i st"
  by (simp add: defchar_def re_op_def re_put_def emit_def wr_one wr_cons)

lemma comp_swap: "st\<lparr>cbuf := b, inp := i\<rparr> = (st :: 'i comp)\<lparr>inp := i, cbuf := b\<rparr>"
  by (cases st) simp

lemma or_last_emit: "or_last x (cep st) (emit (b # bs) i st) = emit ((b OR x) # bs) i st"
  by (simp add: or_last_def emit_def wr_upd_first wr_first)


section \<open>Classes\<close>

lemma place_set:
  assumes "cbuf st = wr buf (cep st) d" "length d = 16" "c < 128"
  shows "PLACE (uint c) st = st\<lparr>cbuf := wr buf (cep st) (class_set c d)\<rparr>"
proof -
  have u: "uint c = int (unat c)" by simp
  have c: "unat c < 128" using assms(3) by (simp add: word_less_nat_alt)
  have d: "uint c div 8 = int (unat c div 8)" "uint c mod 8 = int (unat c mod 8)" unfolding u by (simp_all add: zdiv_int zmod_int)
  have k: "unat c div 8 < length d" using c assms(2) by simp
  have "(wr buf (cep st) d)(cep st + int (unat c div 8) := x) = wr buf (cep st) (d[unat c div 8 := x])" for x
    using k by (auto simp: wr_def fun_eq_iff nth_list_update)
  then show ?thesis using k by (simp add: PLACE_def d assms(1) wr_read class_set_def)
qed


lemma class_start_wr:
  "class_start st = st\<lparr>cbuf := wr (wr (cbuf st) (cep st) [CCL]) (cep st + 1) (replicate 16 0), cep := cep st + 1\<rparr>"
proof -
  have "(\<lambda>a. if p \<le> a \<and> a < p + 16 then 0 else buf a) = wr buf p (replicate 16 0)" for p buf
    by (auto simp: wr_def fun_eq_iff)
  then show ?thesis by (simp add: class_start_def re_op_def wr_one)
qed

lemma class_end_wr:
  assumes "cbuf st = wr buf (cep st) (fold class_set cs (replicate 16 0))"
  shows "class_end neg st = st\<lparr>cbuf := wr buf (cep st) (class_code neg cs), cep := cep st + 16\<rparr>"
proof -
  let ?d = "fold class_set cs (replicate 16 0)"
  have x: "(\<lambda>a. if p \<le> a \<and> a < p + 16 then NOT (wr buf p d a) else wr buf p d a) = wr buf p (map NOT d)"
    if "length d = 16" for p buf d
    using that by (auto simp: wr_def fun_eq_iff)
  have a: "(wr buf p (map NOT d))(p := wr buf p (map NOT d) p AND 254) = wr buf p ((map NOT d)[0 := NOT (d ! 0) AND 254])"
    if "length d = 16" for p buf d
    using that by (cases d) (auto simp: wr_upd_first wr_first)
  show ?thesis
    using x [of ?d "cep st" buf] a [of ?d buf "cep st"] assms
    by (simp add: class_end_def class_code_def Let_def cong: if_cong)
qed

lemma uint_code:
  "uint (c :: byte) = 0 \<longleftrightarrow> c = 0" "uint c = 10 \<longleftrightarrow> c = 10" "uint c = 45 \<longleftrightarrow> c = 45" "uint c = 93 \<longleftrightarrow> c = 93"
  "uint c = 94 \<longleftrightarrow> c = 94"
  by (simp_all add: word_uint_eq_iff)


lemma esc_code:
  assumes "plain_eof eof" "c \<in> {10, 36, 42, 46, 91, 92, 94, eof}" "x = (if c = 10 then 110 else c)"
  shows "x \<notin> {10, 40, 41, 123}" "\<not> (49 \<le> x \<and> x \<le> 57)" "x = 110 \<longleftrightarrow> c = 10" "x \<noteq> 110 \<Longrightarrow> x = c"
    "esc eof c = [92, x]"
  using assms by (auto simp: plain_eof_def esc_def)


section \<open>The including program\<close>

text \<open>
  The manual page: \<open>GETC\<close> returns the characters of the pattern one after the other, \<open>PEEKC\<close> the next one
  without taking it, and after \<open>UNGETC\<close> of the character read last it is the next again.
\<close>

locale char_source =
  fixes io :: "'i source" and rest :: "'i \<Rightarrow> int list"
  assumes getc: "rest i = c # t \<Longrightarrow> \<exists>j. GETC io i = Some (c, j) \<and> rest j = t"
    and peekc: "rest i = c # t \<Longrightarrow> PEEKC io i = Some c"
    and ungetc: "rest i = c # t \<Longrightarrow> GETC io i = Some (c, j) \<Longrightarrow> \<exists>k. UNGETC io c j = Some k \<and> rest k = c # t"
begin

lemma getcE:
  assumes "rest (inp st) = c # t"
  obtains i where "re_getc io st = Some (c, st\<lparr>inp := i\<rparr>)" "rest i = t" "GETC io (inp st) = Some (c, i)"
  using getc [OF assms] by (auto simp: re_getc_def)

lemma class_loop_ok:
  assumes "rest (inp st) = map uint cs @ 93 # t" "cbuf st = wr buf (cep st) d" "length d = 16"
    "\<forall>x \<in> set (c # cs). x \<noteq> 0 \<and> x < 128 \<and> x \<noteq> 10 \<and> x \<noteq> 45 \<and> x \<noteq> 93"
  shows "\<exists>i. class_loop io (uint c) lc st = Some (Go () (st\<lparr>inp := i, cbuf := wr buf (cep st) (fold class_set (c # cs) d)\<rparr>))
    \<and> rest i = t"
  using assms
proof (induction cs arbitrary: c lc st d)
  case Nil
  let ?s = "st\<lparr>cbuf := wr buf (cep st) (class_set c d)\<rparr>"
  have p: "PLACE (uint c) st = ?s" by (rule place_set [OF Nil(2,3)]) (use Nil(4) in simp)
  have r: "rest (inp ?s) = 93 # t" using Nil(1) by simp
  then obtain i where i: "re_getc io ?s = Some (93, ?s\<lparr>inp := i\<rparr>)" "rest i = t" by (rule getcE)
  show ?case using Nil(4) p i by (subst class_loop.simps) (auto simp: uint_code comp_swap)
next
  case (Cons b cs)
  let ?s = "st\<lparr>cbuf := wr buf (cep st) (class_set c d)\<rparr>"
  have p: "PLACE (uint c) st = ?s" by (rule place_set [OF Cons.prems(2,3)]) (use Cons.prems(4) in simp)
  have r: "rest (inp ?s) = uint b # map uint cs @ 93 # t" using Cons.prems(1) by simp
  then obtain i where i: "re_getc io ?s = Some (uint b, ?s\<lparr>inp := i\<rparr>)" "rest i = map uint cs @ 93 # t" by (rule getcE)
  obtain j where j: "class_loop io (uint b) (uint c) (?s\<lparr>inp := i\<rparr>)
      = Some (Go () (?s\<lparr>inp := i\<rparr>\<lparr>inp := j, cbuf := wr buf (cep st) (fold class_set (b # cs) (class_set c d))\<rparr>))" "rest j = t"
    using Cons.IH [of "?s\<lparr>inp := i\<rparr>" "class_set c d" b "uint c"] i(2) Cons.prems(3,4) by auto
  have "class_loop io (uint c) lc st = class_loop io (uint b) (uint c) (?s\<lparr>inp := i\<rparr>)"
    using Cons.prems(4) p i(1) by (subst class_loop.simps) (simp add: uint_code)
  then show ?case using j by (intro exI [of _ j]) simp
qed

lemma compile_class_ok:
  assumes "rest (inp st) = (if neg then [94] else []) @ map uint cs @ 93 # t" "cep st + 17 < endbuf" "lastep st = Some (cep st)"
    "atom_ok (ACls neg cs)" "atom_plain (ACls neg cs)"
  shows "\<exists>i. compile_class io endbuf st = Some (Go () (emit (CCL # class_code neg cs) i st)) \<and> rest i = t"
proof -
  obtain b bs where b: "cs = b # bs" using assms(5) by (cases cs) auto
  let ?s = "class_start st" and ?B = "wr (cbuf st) (cep st) [CCL]"
  have s: "cep ?s = cep st + 1" "inp ?s = inp st" "cbuf ?s = wr ?B (cep ?s) (replicate 16 0)" by (simp_all add: class_start_wr)
  obtain i where i: "rest i = map uint bs @ 93 # t"
    "compile_class io endbuf st = Option.bind (class_loop io (uint b) 0 (?s\<lparr>inp := i\<rparr>)) (\<lambda>r. case r of
       Go _ st \<Rightarrow> Some (Go () (class_end neg st)) | ERROR e st \<Rightarrow> Some (ERROR e st) | RETURN p st \<Rightarrow> Some (RETURN p st))"
  proof (cases neg)
    case True
    then have "rest (inp ?s) = 94 # uint b # map uint bs @ 93 # t" using assms(1) b s(2) by simp
    then obtain k where k: "re_getc io ?s = Some (94, ?s\<lparr>inp := k\<rparr>)" "rest k = uint b # map uint bs @ 93 # t" by (rule getcE)
    then have "rest (inp (?s\<lparr>inp := k\<rparr>)) = uint b # map uint bs @ 93 # t" by simp
    then obtain i where "re_getc io (?s\<lparr>inp := k\<rparr>) = Some (uint b, ?s\<lparr>inp := k\<rparr>\<lparr>inp := i\<rparr>)" "rest i = map uint bs @ 93 # t" by (rule getcE)
    then show ?thesis using that [of i] True k(1) assms(2) by (simp add: compile_class_def)
  next
    case False
    then have "rest (inp ?s) = uint b # map uint bs @ 93 # t" using assms(1) b s(2) by simp
    then obtain i where i: "re_getc io ?s = Some (uint b, ?s\<lparr>inp := i\<rparr>)" "rest i = map uint bs @ 93 # t" by (rule getcE)
    moreover have "uint b \<noteq> 94" using assms(5) False b by (simp add: uint_code)
    ultimately show ?thesis using that [of i] False assms(2) by (simp add: compile_class_def)
  qed
  obtain j where j: "class_loop io (uint b) 0 (?s\<lparr>inp := i\<rparr>)
      = Some (Go () (?s\<lparr>inp := i\<rparr>\<lparr>inp := j, cbuf := wr ?B (cep ?s) (fold class_set cs (replicate 16 0))\<rparr>))" "rest j = t"
    using class_loop_ok [of "?s\<lparr>inp := i\<rparr>" bs t ?B "replicate 16 0" b 0] i(1) s assms(4,5) b by auto
  have "emit (CCL # class_code neg cs) j st
      = class_end neg (?s\<lparr>inp := i\<rparr>\<lparr>inp := j, cbuf := wr ?B (cep ?s) (fold class_set cs (replicate 16 0))\<rparr>)"
    using assms(3) by (subst class_end_wr [where buf = ?B and cs = cs]) (simp_all add: emit_def class_start_wr wr_cons)
  then show ?thesis using i(2) j by (intro exI [of _ j]) simp
qed

lemma step_atom:
  assumes "rest (inp st) = atom_text eof a @ t" "atom_ok a" "atom_plain a" "plain_eof eof"
    "cep st + int (length (ncode (One a))) < endbuf"
  shows "\<exists>i. compile_step io endbuf eof st = Some (Go () (emit (ncode (One a)) i st)) \<and> rest i = t"
proof -
  have e: "cep st < endbuf" using assms(5) by simp
  show ?thesis
  proof (cases a)
    case ADot
    then have "rest (inp st) = 46 # t" using assms(1) by simp
    then obtain i where "re_getc io st = Some (46, st\<lparr>inp := i\<rparr>)" "rest i = t" by (rule getcE)
    then show ?thesis using e assms(4) ADot by (auto simp: compile_step_def compile_char_def plain_eof_def op_emit)
  next
    case (ACls neg cs)
    then have "rest (inp st) = 91 # (if neg then [94] else []) @ map uint cs @ 93 # t" using assms(1) by simp
    then obtain i where i: "re_getc io st = Some (91, st\<lparr>inp := i\<rparr>)" "rest i = (if neg then [94] else []) @ map uint cs @ 93 # t"
      by (rule getcE)
    let ?s = "st\<lparr>inp := i, lastep := Some (cep st)\<rparr>"
    have n: "compile_step io endbuf eof st = compile_class io endbuf ?s"
      using e assms(4) i(1) by (simp add: compile_step_def compile_char_def plain_eof_def)
    have "cep st + 17 < endbuf" using assms(5) ACls by simp
    then obtain j where "compile_class io endbuf ?s = Some (Go () (emit (CCL # class_code neg cs) j ?s))" "rest j = t"
      using compile_class_ok [of ?s neg cs t endbuf] i(2) assms(2,3) ACls by auto
    moreover have "emit (CCL # class_code neg cs) j ?s = emit (CCL # class_code neg cs) j st" by (simp add: emit_def)
    ultimately show ?thesis using n ACls by auto
  next
    case (AChr b)
    let ?c = "uint b"
    have b0: "?c \<noteq> 0" using assms(2) AChr by (simp add: uint_code)
    show ?thesis
    proof (cases "?c \<in> {10, 36, 42, 46, 91, 92, 94, eof}")
      case False
      then have "rest (inp st) = ?c # t" using assms(1) AChr by (simp add: esc_def)
      then obtain i where i: "re_getc io st = Some (?c, st\<lparr>inp := i\<rparr>)" "rest i = t" by (rule getcE)
      then show ?thesis using e False AChr by (auto simp: compile_step_def compile_char_def defchar_emit)
    next
      case True
      define x where "x = (if ?c = 10 then 110 else ?c)"
      note x = esc_code [OF assms(4) True x_def]
      have "rest (inp st) = 92 # x # t" using x(5) assms(1) AChr by simp
      then obtain i where i: "re_getc io st = Some (92, st\<lparr>inp := i\<rparr>)" "rest i = x # t" by (rule getcE)
      let ?s = "st\<lparr>inp := i, lastep := Some (cep st)\<rparr>"
      have "eof \<noteq> 92" using assms(4) by (simp add: plain_eof_def)
      then have n: "compile_step io endbuf eof st = compile_escape io ?s"
        using e i(1) peekc [OF i(2)] x(1) by (simp add: compile_step_def compile_char_def)
      have "rest (inp ?s) = x # t" using i(2) by simp
      then obtain j where j: "re_getc io ?s = Some (x, ?s\<lparr>inp := j\<rparr>)" "rest j = t" by (rule getcE)
      have "compile_escape io ?s = Some (Go () (emit [CCHR, word_of_int ?c] j st))"
        using j(1) x(1-4) by (cases "x = 110") (auto simp: compile_escape_def defchar_emit')
      then show ?thesis using n j(2) AChr by auto
    qed
  qed
qed

lemma getc_emitE:
  assumes "rest i = c # t"
  obtains j where "re_getc io (emit bs i st) = Some (c, emit bs j st)" "rest j = t" "GETC io i = Some (c, j)"
  using getc [OF assms] by (auto simp: re_getc_def emit_inp)

lemma digits_ok:
  assumes "rest i = map ((+) 48) ds @ d # t" "\<forall>e \<in> set (a # ds). 0 \<le> e \<and> e \<le> 9" "d = 44 \<or> d = 92"
  shows "\<exists>j. number_loop io (48 + a) x (emit bs i st) = Some (Go (foldl (\<lambda>x e. s16 (10 * x + e)) x (a # ds), d) (emit bs j st))
    \<and> rest j = t"
  using assms
proof (induction ds arbitrary: a x i)
  case Nil
  then have "rest i = d # t" by simp
  then obtain j where "re_getc io (emit bs i st) = Some (d, emit bs j st)" "rest j = t" by (rule getc_emitE)
  then show ?case using Nil(2,3) by (subst number_loop.simps) auto
next
  case (Cons e ds)
  then have "rest i = (48 + e) # map ((+) 48) ds @ d # t" by simp
  then obtain j where j: "re_getc io (emit bs i st) = Some (48 + e, emit bs j st)" "rest j = map ((+) 48) ds @ d # t"
    by (rule getc_emitE)
  have "48 + e \<noteq> 92 \<and> 48 + e \<noteq> 44" using Cons.prems(2) by auto
  then have "number_loop io (48 + a) x (emit bs i st) = number_loop io (48 + e) (s16 (10 * x + a)) (emit bs j st)"
    using j(1) Cons.prems(2) by (subst number_loop.simps) auto
  then show ?case using Cons.IH [OF j(2), of e "s16 (10 * x + a)"] Cons.prems(2,3) by simp
qed

end

text \<open>The digits of a count.\<close>

definition num_digits :: "nat \<Rightarrow> int list" where
  "num_digits n = (if n < 10 then [int n] else if n < 100 then [int n div 10, int n mod 10]
     else [int n div 100, int n div 10 mod 10, int n mod 10])"

lemma num_text_digits: "num_text n = map ((+) 48) (num_digits n)"
  by (simp add: num_text_def num_digits_def)

lemma num_digits_ok:
  assumes "n \<le> 255"
  shows "\<exists>a ds. num_digits n = a # ds \<and> (\<forall>e \<in> set (a # ds). 0 \<le> e \<and> e \<le> 9)
    \<and> foldl (\<lambda>x e. s16 (10 * x + e)) 0 (a # ds) = int n"
proof -
  have d: "int n div 10 \<le> 25" "int n div 100 \<le> 2" "n < 100 \<Longrightarrow> int n div 10 \<le> 9" "0 \<le> int n div 10" "0 \<le> int n div 100"
    using assms by linarith+
  have v: "s16 (int n div 10) = int n div 10" "s16 (int n div 100) = int n div 100" "s16 (int n) = int n"
    using assms d by (simp_all add: s16_id)
  have "int n div 100 = int n div 10 div 10" using zdiv_zmult2_eq [of 10 "int n" 10] by simp
  then have q: "10 * (int n div 100) + int n div 10 mod 10 = int n div 10" by simp
  have m: "int n mod 10 \<le> 9" "int n div 10 mod 10 \<le> 9"
    using pos_mod_bound [of 10 "int n"] pos_mod_bound [of 10 "int n div 10"] by auto
  show ?thesis using assms d v q m by (auto simp: num_digits_def)
qed

context char_source
begin

lemma number_ok:
  assumes "rest i = num_text n @ d # t" "n \<le> 255" "d = 44 \<or> d = 92"
  shows "\<exists>c j k. re_getc io (emit bs i st) = Some (c, emit bs j st) \<and> number_loop io c 0 (emit bs j st) = Some (Go (int n, d) (emit bs k st))
    \<and> rest k = t"
proof -
  obtain a ds where a: "num_digits n = a # ds" "\<forall>e \<in> set (a # ds). 0 \<le> e \<and> e \<le> 9" "foldl (\<lambda>x e. s16 (10 * x + e)) 0 (a # ds) = int n"
    using num_digits_ok [OF assms(2)] by blast
  have "rest i = (48 + a) # map ((+) 48) ds @ d # t" using assms(1) a(1) by (simp add: num_text_digits)
  then obtain j where j: "re_getc io (emit bs i st) = Some (48 + a, emit bs j st)" "rest j = map ((+) 48) ds @ d # t" by (rule getc_emitE)
  obtain k where "number_loop io (48 + a) 0 (emit bs j st) = Some (Go (int n, d) (emit bs k st))" "rest k = t"
    using digits_ok [OF j(2) a(2) assms(3), of 0 bs st] a(3) by auto
  then show ?thesis using j(1) by blast
qed

lemma num_head:
  assumes "n \<le> 255"
  shows "\<exists>c u. num_text n @ r = c # u \<and> c \<noteq> 92"
  using num_digits_ok [OF assms] by (auto simp: num_text_digits)

lemma uint_of_nat_byte: "n \<le> 255 \<Longrightarrow> uint (of_nat n :: byte) = int n"
  by (simp add: uint_nat unat_of_nat)

lemma range_end_ok:
  assumes "rest i = 125 # t" "lo \<le> hi" "hi \<le> 255"
  shows "\<exists>j. range_end io True x (emit (bs @ [of_nat lo, of_nat hi]) i st) = Some (Go () (emit (bs @ [of_nat lo, of_nat hi]) j st)) \<and> rest j = t"
proof -
  let ?b = "bs @ [of_nat lo, of_nat hi]"
  obtain j where j: "re_getc io (emit ?b i st) = Some (125, emit ?b j st)" "rest j = t" by (rule getc_emitE [OF assms(1)])
  have "cbuf (emit ?b j st) (cep (emit ?b j st) - 1) = of_nat hi" "cbuf (emit ?b j st) (cep (emit ?b j st) - 2) = of_nat lo"
    using wr_read [of "length bs + 1" ?b "cbuf st" "cep st"] wr_read [of "length bs" ?b "cbuf st" "cep st"]
    by (simp_all add: algebra_simps nth_append)
  then show ?thesis using j assms(2,3) by (simp add: range_end_def uint_of_nat_byte del: emit_simps) blast
qed

lemma nlim_ok:
  assumes "rest i = num_text lo @ 44 # num_text hi @ 92 # 125 # t" "lo \<le> hi" "hi \<le> 255"
  shows "\<exists>j. nlim io False (emit bs i st) = Some (Go () (emit (bs @ [of_nat lo, of_nat hi]) j st)) \<and> rest j = t"
proof -
  obtain c j k where c: "re_getc io (emit bs i st) = Some (c, emit bs j st)" "number_loop io c 0 (emit bs j st) = Some (Go (int lo, 44) (emit bs k st))"
    "rest k = num_text hi @ 92 # 125 # t" using number_ok [OF assms(1)] assms(2,3) by force
  obtain x u where x: "rest k = x # u" "x \<noteq> 92" using num_head [OF assms(3)] c(3) by metis
  let ?b = "bs @ [of_nat lo]"
  obtain l where l: "re_getc io (emit ?b k st) = Some (x, emit ?b l st)" "GETC io k = Some (x, l)" by (rule getc_emitE [OF x(1)]) blast
  obtain m where m: "UNGETC io x l = Some m" "rest m = num_text hi @ 92 # 125 # t" using ungetc [OF x(1) l(2)] c(3) x(1) by auto
  have first: "nlim io False (emit bs i st) = nlim io True (emit ?b m st)"
    using c(1,2) x(2) l(1) m(1) assms(2,3)
    by (subst nlim.simps) (simp add: put_emit re_ungetc_def emit_inp)
  obtain d n q where d: "re_getc io (emit ?b m st) = Some (d, emit ?b n st)" "number_loop io d 0 (emit ?b n st) = Some (Go (int hi, 92) (emit ?b q st))"
    "rest q = 125 # t" using number_ok [OF m(2) assms(3)] by force
  have "nlim io True (emit ?b m st) = range_end io True (int hi) (emit (bs @ [of_nat lo, of_nat hi]) q st)"
    using d(1,2) assms(3) by (subst nlim.simps) (simp add: put_emit)
  then show ?thesis using first range_end_ok [OF d(3) assms(2,3)] by auto
qed

text \<open>One turn of the loop, for the characters that follow an atom.\<close>

lemma step_star:
  assumes "rest i = 42 # t" "b \<noteq> CBRA" "b \<noteq> CKET" "cep st + int (length (b # bs)) < endbuf" "plain_eof eof"
  shows "\<exists>j. compile_step io endbuf eof (emit (b # bs) i st) = Some (Go () (emit ((b OR STAR) # bs) j st)) \<and> rest j = t"
proof -
  obtain j where "re_getc io (emit (b # bs) i st) = Some (42, emit (b # bs) j st)" "rest j = t" by (rule getc_emitE [OF assms(1)])
  then show ?thesis using assms(2-5)
    by (auto simp: compile_step_def compile_char_def plain_eof_def or_last_emit wr_first)
qed

lemma step_range:
  assumes "rest i = 92 # 123 # num_text lo @ 44 # num_text hi @ 92 # 125 # t" "lo \<le> hi" "hi \<le> 255"
    "cep st + int (length (b # bs)) < endbuf" "plain_eof eof"
  shows "\<exists>j. compile_step io endbuf eof (emit (b # bs) i st)
    = Some (Go () (emit ((b OR RNGE) # bs @ [of_nat lo, of_nat hi]) j st)) \<and> rest j = t"
proof -
  obtain j where j: "re_getc io (emit (b # bs) i st) = Some (92, emit (b # bs) j st)" "rest j = 123 # num_text lo @ 44 # num_text hi @ 92 # 125 # t"
    by (rule getc_emitE [OF assms(1)])
  obtain k where k: "re_getc io (emit (b # bs) j st) = Some (123, emit (b # bs) k st)" "rest k = num_text lo @ 44 # num_text hi @ 92 # 125 # t"
    by (rule getc_emitE [OF j(2)])
  have "compile_step io endbuf eof (emit (b # bs) i st) = compile_escape io (emit (b # bs) j st)"
    using j(1) peekc [OF j(2)] assms(4,5) by (simp add: compile_step_def compile_char_def plain_eof_def)
  also have "\<dots> = nlim io False (emit ((b OR RNGE) # bs) k st)"
    using k(1) by (simp add: compile_escape_def or_last_emit)
  finally show ?thesis using nlim_ok [OF k(2) assms(2,3), of "(b OR RNGE) # bs" st] by simp
qed

end


section \<open>The whole pattern\<close>

text \<open>The groups so far: \<open>k\<close> were opened, and the last may still be open.\<close>

definition gstate :: "nat \<Rightarrow> bool \<Rightarrow> 'i comp \<Rightarrow> bool" where
  "gstate k op st \<longleftrightarrow> nbra (cglob st) = int k \<and> ebra (cglob st) = (if op then int k - 1 else int k)
     \<and> closed st = ebra (cglob st) \<and> bracket st = (if op then [int k - 1] else [])"

lemma gstate_emit [simp]: "gstate k op (emit bs i st) = gstate k op st"
  by (simp add: gstate_def)

text \<open>The code \<open>bs\<close> was added.\<close>

definition added :: "byte list \<Rightarrow> 'i comp \<Rightarrow> 'i comp \<Rightarrow> bool" where
  "added bs st u \<longleftrightarrow> cbuf u = wr (cbuf st) (cep st) bs \<and> cep u = cep st + int (length bs)
     \<and> circf (cglob u) = circf (cglob st) \<and> locs (cglob u) = locs (cglob st)"

lemma added_emit: "added bs st (emit bs i st)"
  by (simp add: added_def)

lemma added_trans: "added as st u \<Longrightarrow> added bs u v \<Longrightarrow> added (as @ bs) st v"
  by (simp add: added_def wr_wr)

fun next_group :: "nat \<Rightarrow> bool \<Rightarrow> node \<Rightarrow> nat \<times> bool" where
  "next_group k op (Bra m) = (k + 1, True)"
| "next_group k op (Ket m) = (k, False)"
| "next_group k op n = (k, op)"

lemma plain_next:
  assumes "plain k op (n # r)" "n \<noteq> Dol"
  shows "plain (fst (next_group k op n)) (snd (next_group k op n)) r"
  using assms by (cases n) auto

lemma rtext_head:
  assumes "r \<noteq> []" "plain_eof eof"
  shows "\<exists>c u. rtext eof r @ v = c # u \<and> c \<noteq> eof \<and> c \<noteq> 10 \<and> c \<noteq> 94"
proof -
  have e: "\<exists>c u. esc eof d = c # u \<and> c \<noteq> eof \<and> c \<noteq> 10 \<and> c \<noteq> 94" for d
    using assms(2) by (auto simp: esc_def plain_eof_def)
  have a: "\<exists>c u. atom_text eof a = c # u \<and> c \<noteq> eof \<and> c \<noteq> 10 \<and> c \<noteq> 94" for a
    using e assms(2) by (cases a) (auto simp: plain_eof_def)
  have n: "\<exists>c u. node_text eof n = c # u \<and> c \<noteq> eof \<and> c \<noteq> 10 \<and> c \<noteq> 94" for n
  proof (cases n)
    case (One b)
    then show ?thesis using a [of b] by simp
  next
    case (Star b)
    then show ?thesis using a [of b] by auto
  next
    case (Rng b lo hi)
    then show ?thesis using a [of b] by auto
  qed (use assms(2) in \<open>auto simp: plain_eof_def\<close>)
  obtain m q where "r = m # q" using assms(1) by (cases r) auto
  then show ?thesis using n [of m] by (auto simp: rtext_def)
qed

context char_source
begin

lemma loop_go: "compile_step io endbuf eof st = Some (Go () u) \<Longrightarrow> compile_loop io endbuf eof st = compile_loop io endbuf eof u"
  by (subst compile_loop.simps) simp

text \<open>A backslash that no brace follows.\<close>

lemma step_backslash:
  assumes "rest (inp st) = 92 # c # t" "c \<noteq> 123" "plain_eof eof" "cep st < endbuf"
  shows "\<exists>i j. compile_step io endbuf eof st = compile_escape io (st\<lparr>inp := i, lastep := Some (cep st)\<rparr>)
    \<and> re_getc io (st\<lparr>inp := i, lastep := Some (cep st)\<rparr>) = Some (c, st\<lparr>inp := j, lastep := Some (cep st)\<rparr>) \<and> rest j = t"
proof -
  obtain i where i: "re_getc io st = Some (92, st\<lparr>inp := i\<rparr>)" "rest i = c # t" by (rule getcE [OF assms(1)])
  obtain j where "GETC io i = Some (c, j)" "rest j = t" using getc [OF i(2)] by auto
  then show ?thesis using i(1) peekc [OF i(2)] assms(2-4)
    by (intro exI [of _ i] exI [of _ j]) (simp add: compile_step_def compile_char_def plain_eof_def re_getc_def)
qed

lemma node_group:
  assumes "rest (inp st) = node_text eof n @ t" "n = Bra m \<or> n = Ket m" "plain k op (n # r)" "node_ok n" "gstate k op st"
    "plain_eof eof" "cep st < endbuf"
  shows "\<exists>u. compile_step io endbuf eof st = Some (Go () u) \<and> added (ncode n) st u \<and> rest (inp u) = t
    \<and> gstate (fst (next_group k op n)) (snd (next_group k op n)) u"
proof -
  let ?c = "if n = Bra m then 40 else 41 :: int"
  have "rest (inp st) = 92 # ?c # t" "?c \<noteq> 123" using assms(1,2) by auto
  from step_backslash [OF this assms(6,7)] obtain i j
    where c: "compile_step io endbuf eof st = compile_escape io (st\<lparr>inp := i, lastep := Some (cep st)\<rparr>)"
      "re_getc io (st\<lparr>inp := i, lastep := Some (cep st)\<rparr>) = Some (?c, st\<lparr>inp := j, lastep := Some (cep st)\<rparr>)" "rest j = t" by auto
  show ?thesis using assms(2)
  proof
    assume "n = Bra m"
    then show ?thesis using c assms(3-5)
      by (simp add: compile_escape_def gstate_def added_def re_op_def re_put_def wr_one wr_cons)
  next
    assume "n = Ket m"
    then show ?thesis using c assms(3-5)
      by (simp add: compile_escape_def gstate_def added_def re_op_def re_put_def wr_one wr_cons)
  qed
qed

lemma node_ok_loop:
  assumes "rest (inp st) = node_text eof n @ t" "node_ok n" "plain k op (n # r)" "plain_eof eof" "gstate k op st"
    "n = Dol \<Longrightarrow> \<exists>u. t = eof # u" "cep st + int (length (ncode n)) < endbuf"
  shows "\<exists>u. compile_loop io endbuf eof st = compile_loop io endbuf eof u \<and> added (ncode n) st u \<and> rest (inp u) = t
    \<and> (n \<noteq> Dol \<longrightarrow> gstate (fst (next_group k op n)) (snd (next_group k op n)) u)"
proof (cases n)
  case (One a)
  then obtain i where "compile_step io endbuf eof st = Some (Go () (emit (ncode (One a)) i st))" "rest i = t"
    using step_atom [of st eof a t endbuf] assms by auto
  then show ?thesis using loop_go added_emit assms(5) One by (intro exI [of _ "emit (ncode n) i st"]) (auto simp del: ncode.simps)
next
  case (Star a)
  then obtain i where i: "compile_step io endbuf eof st = Some (Go () (emit (ncode (One a)) i st))" "rest i = 42 # t"
    using step_atom [of st eof a "42 # t" endbuf] assms by auto
  obtain j where "compile_step io endbuf eof (emit (ncode (One a)) i st) = Some (Go () (emit (ncode n) j st))" "rest j = t"
    using step_star [OF i(2), of "atom_op a" st "atom_arg a" endbuf eof] assms(4,7) Star by (cases a) auto
  then show ?thesis using loop_go [OF i(1)] loop_go added_emit assms(5) Star
    by (intro exI [of _ "emit (ncode n) j st"]) (auto simp del: ncode.simps)
next
  case (Rng a lo hi)
  let ?t = "92 # 123 # num_text lo @ 44 # num_text hi @ 92 # 125 # t"
  obtain i where i: "compile_step io endbuf eof st = Some (Go () (emit (ncode (One a)) i st))" "rest i = ?t"
    using step_atom [of st eof a ?t endbuf] assms Rng by auto
  obtain j where "compile_step io endbuf eof (emit (ncode (One a)) i st) = Some (Go () (emit (ncode n) j st))" "rest j = t"
    using step_range [OF i(2), of st "atom_op a" "atom_arg a" endbuf eof] assms(2,4,7) Rng by auto
  then show ?thesis using loop_go [OF i(1)] loop_go added_emit assms(5) Rng
    by (intro exI [of _ "emit (ncode n) j st"]) (auto simp del: ncode.simps)
next
  case Dol
  then obtain v where v: "rest (inp st) = 36 # eof # v" "t = eof # v" using assms(1,6) by auto
  obtain i where i: "re_getc io st = Some (36, st\<lparr>inp := i\<rparr>)" "rest i = eof # v" by (rule getcE [OF v(1)])
  have "compile_step io endbuf eof st = Some (Go () (emit [CDOL] i st))"
    using i(1) peekc [OF i(2)] assms(4,7) Dol by (simp add: compile_step_def compile_char_def plain_eof_def op_emit)
  then show ?thesis using loop_go added_emit i(2) v(2) Dol by (intro exI [of _ "emit [CDOL] i st"]) auto
next
  case (Bra m)
  then have "cep st < endbuf" "n = Bra m \<or> n = Ket m" using assms(7) by simp_all
  from node_group [OF assms(1) this(2) assms(3,2,5,4) this(1)] show ?thesis using loop_go by blast
next
  case (Ket m)
  then have "cep st < endbuf" "n = Bra m \<or> n = Ket m" using assms(7) by simp_all
  from node_group [OF assms(1) this(2) assms(3,2,5,4) this(1)] show ?thesis using loop_go by blast
qed

lemma loop_eof:
  assumes "rest (inp st) = eof # t" "plain_eof eof" "cep st < endbuf"
  shows "\<exists>u. compile_loop io endbuf eof st = Some (Inr (cep st + 1), u) \<and> added [CCEOF] st u"
proof -
  obtain i where "re_getc io st = Some (eof, st\<lparr>inp := i\<rparr>)" by (rule getcE [OF assms(1)])
  then have "compile_step io endbuf eof st = Some (RETURN (cep st + 1) (emit [CCEOF] i st))"
    using assms(2,3) by (simp add: compile_step_def compile_char_def plain_eof_def op_emit)
  then show ?thesis using added_emit [of "[CCEOF]"] by (subst compile_loop.simps) simp
qed

lemma compile_loop_ok:
  assumes "rest (inp st) = rtext eof r @ eof # t" "\<forall>n \<in> set r. node_ok n" "plain k op r" "plain_eof eof" "gstate k op st"
    "cep st + int (length (rcode r)) \<le> endbuf"
  shows "\<exists>u. compile_loop io endbuf eof st = Some (Inr (cep st + int (length (rcode r))), u) \<and> added (rcode r) st u"
  using assms
proof (induction r arbitrary: k op st)
  case Nil
  then have "rest (inp st) = eof # t" by (simp add: rtext_def)
  then show ?case using loop_eof [of st eof t endbuf] Nil(4,6) by (auto simp: rcode_simps)
next
  case (Cons n r)
  have t: "rest (inp st) = node_text eof n @ rtext eof r @ eof # t" using Cons.prems(1) by (simp add: rtext_def)
  have d: "n = Dol \<Longrightarrow> r = []" using Cons.prems(3) by simp
  have dt: "n = Dol \<Longrightarrow> \<exists>u. rtext eof r @ eof # t = eof # u" using d by (simp add: rtext_def)
  have l: "cep st + int (length (ncode n)) < endbuf" using Cons.prems(6) by (simp add: rcode_simps) (simp add: rcode_def)
  from node_ok_loop [OF t _ Cons.prems(3-5) dt l] Cons.prems(2) obtain u
    where u: "compile_loop io endbuf eof st = compile_loop io endbuf eof u" "added (ncode n) st u" "rest (inp u) = rtext eof r @ eof # t"
      "n \<noteq> Dol \<longrightarrow> gstate (fst (next_group k op n)) (snd (next_group k op n)) u" by auto
  have c: "cep u + int (length (rcode r)) = cep st + int (length (rcode (n # r)))" using u(2) by (simp add: added_def rcode_simps)
  have n: "\<forall>n \<in> set r. node_ok n" using Cons.prems(2) by simp
  have "\<exists>v. compile_loop io endbuf eof u = Some (Inr (cep u + int (length (rcode r))), v) \<and> added (rcode r) u v"
  proof (cases "n = Dol")
    case True
    then have "rest (inp u) = eof # t" using d u(3) by (simp add: rtext_def)
    then show ?thesis using loop_eof [of u eof t endbuf] Cons.prems(4,6) c d True by (auto simp: rcode_simps)
  next
    case False
    show ?thesis by (rule Cons.IH [OF u(3) n plain_next [OF Cons.prems(3) False] Cons.prems(4)]) (use u(4) False c Cons.prems(6) in auto)
  qed
  then show ?case using u(1) c added_trans [OF u(2)] by (auto simp: rcode_simps)
qed

text \<open>
  \<open>compile\<close> of the text of a pattern, anchored or not, returns the end of the code and has the code in the
  buffer.
\<close>

theorem compile_ok:
  assumes "rest i = (if anch then [94] else []) @ rtext eof r @ eof # t" "r \<noteq> []" "\<forall>n \<in> set r. node_ok n" "plain 0 False r" "plain_eof eof"
    "ep + int (length (rcode r)) \<le> endbuf"
  shows "\<exists>u. re_compile io i buf ep endbuf eof g = Some (Inr (ep + int (length (rcode r))), u)
    \<and> cbuf u = wr buf ep (rcode r) \<and> circf (cglob u) = (if anch then 1 else 0) \<and> locs (cglob u) = locs g"
proof -
  let ?st = "\<lambda>j. \<lparr>inp = j, cbuf = buf, cep = ep, lastep = None, bracket = [], closed = 0,
    cglob = g\<lparr>circf := (if anch then 1 else 0), nbra := 0, ebra := 0\<rparr>\<rparr>"
  have "\<exists>j. re_compile io i buf ep endbuf eof g = compile_loop io endbuf eof (?st j) \<and> rest j = rtext eof r @ eof # t"
  proof (cases anch)
    case True
    then have "rest i = 94 # rtext eof r @ eof # t" using assms(1) by simp
    then obtain j where "GETC io i = Some (94, j)" "rest j = rtext eof r @ eof # t" using getc by blast
    then show ?thesis using True assms(5) by (auto simp: re_compile_def re_getc_def plain_eof_def)
  next
    case False
    then have ri: "rest i = rtext eof r @ eof # t" using assms(1) by simp
    have "\<exists>c u. rtext eof r @ eof # t = c # u \<and> c \<noteq> eof \<and> c \<noteq> 10 \<and> c \<noteq> 94"
      using assms(2,5) by (rule rtext_head)
    then obtain c u where c: "rest i = c # u" "c \<noteq> eof" "c \<noteq> 10" "c \<noteq> 94" using ri by auto
    obtain j where j: "GETC io i = Some (c, j)" using getc [OF c(1)] by auto
    obtain k where "UNGETC io c j = Some k" "rest k = rest i" using ungetc [OF c(1) j] c(1) by auto
    then show ?thesis using c(2-4) j False ri by (auto simp: re_compile_def re_getc_def re_ungetc_def)
  qed
  then obtain j where j: "re_compile io i buf ep endbuf eof g = compile_loop io endbuf eof (?st j)" "rest j = rtext eof r @ eof # t" by blast
  have "gstate 0 False (?st j)" by (simp add: gstate_def)
  from compile_loop_ok [OF _ assms(3-5) this] j assms(6) obtain u
    where "compile_loop io endbuf eof (?st j) = Some (Inr (ep + int (length (rcode r))), u)" "added (rcode r) (?st j) u" by auto
  then show ?thesis using j(1) by (auto simp: added_def)
qed

end


section \<open>The macros of grep\<close>

text \<open>As the manual page gives them: \<open>*sp++\<close>, \<open>*sp\<close> and \<open>--sp\<close> on a pointer into the pattern.\<close>

definition grep_source :: "int list \<Rightarrow> nat source" where
  "grep_source l = \<lparr>GETC = (\<lambda>sp. if sp < length l then Some (l ! sp, sp + 1) else None),
     PEEKC = (\<lambda>sp. if sp < length l then Some (l ! sp) else None),
     UNGETC = (\<lambda>c sp. if 0 < sp then Some (sp - 1) else None)\<rparr>"

lemma drop_eq_Cons: "drop i l = c # t \<longleftrightarrow> i < length l \<and> l ! i = c \<and> drop (i + 1) l = t"
  by (cases "i < length l") (auto simp: Cons_nth_drop_Suc [symmetric])

interpretation grep: char_source "grep_source l" "\<lambda>sp. drop sp l" for l
  by unfold_locales (auto simp: grep_source_def drop_eq_Cons split: if_splits)


section \<open>Compile and search\<close>

text \<open>
  What a search says of a line: the leftmost match, or that there is none. An anchored pattern is tried
  at the start only.
\<close>

definition found :: "bool \<Rightarrow> byte list \<Rightarrow> node list \<Rightarrow> bool \<Rightarrow> bool \<Rightarrow> re_globals \<Rightarrow> bool" where
  "found sg s r anch b h \<longleftrightarrow>
     (if b then \<exists>k j. loc1 h = Some k \<and> loc2 h = Some j \<and> k \<le> length s \<and> (anch \<longrightarrow> k = 0) \<and> matches sg s r k j
        \<and> (\<forall>m < k. \<forall>j. \<not> matches sg s r m j)
      else \<forall>k \<le> length s. (anch \<longrightarrow> k = 0) \<longrightarrow> (\<forall>j. \<not> matches sg s r k j))"

lemma wr_list: "map (\<lambda>k. wr buf 0 bs (int k)) [0..<length bs] = bs"
  by (rule nth_equalityI) (auto simp: wr_def)

lemma search_ok:
  assumes "0 \<notin> set s" "r \<noteq> []" "\<forall>n \<in> set r. node_ok n" "plain 0 False r" "plain_eof eof" "length (rcode r) \<le> esize" "locs g = None"
  shows "\<exists>u b h. re_compile (grep_source ((if anch then [94] else []) @ rtext eof r @ [eof])) 0 buf 0 (int esize) eof g
        = Some (Inr (int (length (rcode r))), u)
    \<and> step sg s (map (\<lambda>k. cbuf u (int k)) [0..<length (rcode r)]) 0 (cglob u) = Some (b, h) \<and> found sg s r anch b h"
proof -
  let ?l = "(if anch then [94] else []) @ rtext eof r @ [eof]"
  obtain u where u: "re_compile (grep_source ?l) 0 buf 0 (int esize) eof g = Some (Inr (int (length (rcode r))), u)"
    "cbuf u = wr buf 0 (rcode r)" "circf (cglob u) = (if anch then 1 else 0)" "locs (cglob u) = None"
    using grep.compile_ok [where l = ?l and i = 0 and anch = anch and eof = eof and r = r and t = "[]" and ep = 0
        and endbuf = "int esize" and buf = buf and g = g] assms(2-7) by auto
  have c: "map (\<lambda>k. cbuf u (int k)) [0..<length (rcode r)] = rcode r" unfolding u(2) by (rule wr_list)
  have "\<exists>b h. step sg s (rcode r) 0 (cglob u) = Some (b, h) \<and> found sg s r anch b h"
  proof (cases anch)
    case True
    then show ?thesis using step_anchored [OF assms(1,3) _ u(4), of 0 sg] u(3) by (auto simp: found_def split: if_splits)
  next
    case False
    then obtain b h where "step sg s (rcode r) 0 (cglob u) = Some (b, h)" "leftmost sg s r 0 (b, h)"
      using step_leftmost [OF assms(1,3) _ u(4), of 0 sg] u(3) by auto
    then show ?thesis using False by (auto simp: found_def leftmost_def)
  qed
  then show ?thesis using u(1) c by auto
qed

text \<open>A back reference to an empty group under \<open>*\<close>: the first loop of \<open>CBACK|STAR\<close> never ends.\<close>

lemma ecmp_differs: "ecmp s a b n = Some False \<Longrightarrow> n \<noteq> 0"
  by (cases n) auto

lemma back_run_empty: "back_run s b 0 lp = None"
proof (rule ccontr)
  assume "back_run s b 0 lp \<noteq> None"
  then obtain y where y: "back_run s b 0 lp = Some y" by blast
  have "ct \<noteq> 0" if "back_run s b ct lp = Some y" for ct
    using that by (induction rule: back_run.raw_induct [rotated, consumes 1]) (auto dest: ecmp_differs split: if_splits bind_splits)
  then show False using y by blast
qed

lemma backstar_empty: "re_group (unat k) g = Some (b, 0) \<Longrightarrow> advance sg s ((CBACK OR STAR) # k # ep) lp g = None"
  by (simp add: advance.simps(2) back_run_empty)

end
