(* ===== verification/Regexp_Bounds.thy ===== *)
theory Regexp_Bounds
  imports Regexp
begin

text \<open>
  Where \<open>compile\<close> writes. For any text of 7-bit characters and any outcome, every byte outside the buffer
  keeps its value, except the one right after it: the check at the head of the loop leaves room for one
  byte, and a character, a group, a back reference and a range are two.
\<close>

definition outside :: "int \<Rightarrow> int \<Rightarrow> (int \<Rightarrow> byte) \<Rightarrow> 'i comp \<Rightarrow> bool" where
  "outside lo hi buf st \<longleftrightarrow> (\<forall>a. a < lo \<or> hi < a \<longrightarrow> cbuf st a = buf a)"

text \<open>Between statements: \<open>ep\<close> is at most \<open>m\<close> and \<open>lastep\<close> inside.\<close>

definition bok :: "int \<Rightarrow> int \<Rightarrow> (int \<Rightarrow> byte) \<Rightarrow> int \<Rightarrow> 'i comp \<Rightarrow> bool" where
  "bok lo hi buf m st \<longleftrightarrow> outside lo hi buf st \<and> lo \<le> cep st \<and> cep st \<le> m
     \<and> (case lastep st of None \<Rightarrow> True | Some p \<Rightarrow> lo \<le> p \<and> p \<le> hi)"

fun res_ok :: "int \<Rightarrow> int \<Rightarrow> (int \<Rightarrow> byte) \<Rightarrow> int \<Rightarrow> ('i, 'a) cres \<Rightarrow> bool" where
  "res_ok lo hi buf m (Go v st) \<longleftrightarrow> bok lo hi buf m st"
| "res_ok lo hi buf m (ERROR e st) \<longleftrightarrow> outside lo hi buf st"
| "res_ok lo hi buf m (RETURN p st) \<longleftrightarrow> outside lo hi buf st"

definition ascii :: "'i source \<Rightarrow> bool" where
  "ascii io \<longleftrightarrow> (\<forall>i c j. GETC io i = Some (c, j) \<longrightarrow> 0 \<le> c \<and> c < 128)"

lemma bok_outside: "bok lo hi buf m st \<Longrightarrow> outside lo hi buf st"
  by (simp add: bok_def)

lemma bok_mono: "bok lo hi buf m st \<Longrightarrow> m \<le> n \<Longrightarrow> bok lo hi buf n st"
  by (auto simp: bok_def)

lemma bok_put:
  assumes "bok lo hi buf m st" "m \<le> hi"
  shows "bok lo hi buf (m + 1) (re_put c st)" "bok lo hi buf (m + 1) (re_op b st)"
  using assms by (auto simp: bok_def outside_def re_put_def re_op_def split: option.splits)

lemma bok_free:
  assumes "bok lo hi buf m st" "cbuf u = cbuf st" "cep u = cep st" "lastep u = lastep st"
  shows "bok lo hi buf m u"
  using assms by (simp add: bok_def outside_def)

lemma bok_getc: "bok lo hi buf m st \<Longrightarrow> re_getc io st = Some (c, u) \<Longrightarrow> bok lo hi buf m u"
  by (auto simp: re_getc_def do_Some intro: bok_free)

lemma getc_ascii: "ascii io \<Longrightarrow> re_getc io st = Some (c, u) \<Longrightarrow> 0 \<le> c \<and> c < 128"
  by (auto simp: re_getc_def do_Some ascii_def)

lemma bok_ungetc: "bok lo hi buf m st \<Longrightarrow> re_ungetc io c st = Some u \<Longrightarrow> bok lo hi buf m u"
  by (auto simp: re_ungetc_def do_Some intro: bok_free)

lemma bok_or_last: "bok lo hi buf m st \<Longrightarrow> lastep st = Some p \<Longrightarrow> bok lo hi buf m (or_last b p st)"
  by (auto simp: bok_def outside_def or_last_def)

lemma bok_defchar:
  assumes "bok lo hi buf m st" "m + 1 \<le> hi"
  shows "bok lo hi buf (m + 2) (defchar c st)"
proof -
  have "bok lo hi buf m (st\<lparr>lastep := Some (cep st)\<rparr>)" using assms by (auto simp: bok_def outside_def)
  then have "bok lo hi buf (m + 1 + 1) (defchar c st)" using assms(2) unfolding defchar_def by (intro bok_put) auto
  then show ?thesis by (simp add: add.assoc)
qed


section \<open>Classes\<close>

lemma bok_place:
  assumes "bok lo hi buf m st" "m + 15 \<le> hi" "0 \<le> c" "c < 128"
  shows "bok lo hi buf m (PLACE c st)"
proof -
  have "0 \<le> c div 8" "c div 8 \<le> 15" using assms(3,4) by auto
  then show ?thesis using assms(1,2) by (auto simp: bok_def outside_def PLACE_def split: option.splits)
qed

lemma bok_places:
  assumes "bok lo hi buf m st" "m + 15 \<le> hi" "\<forall>c \<in> set cs. 0 \<le> c \<and> c < 128"
  shows "bok lo hi buf m (fold PLACE cs st)"
  using assms by (induction cs arbitrary: st) (auto intro: bok_place)

lemma class_loop_bok:
  assumes "class_loop io c lc st = Some r" "ascii io" "0 \<le> c" "c < 128" "0 \<le> lc" "bok lo hi buf m st" "m + 15 \<le> hi"
  shows "res_ok lo hi buf m r"
  using assms(1-6)
proof (induction rule: class_loop.raw_induct [rotated, consumes 1])
  case (1 f io c lc st r)
  have rec: "res_ok lo hi buf m r"
    if "re_getc io u = Some (d, v)" "(if d \<noteq> 93 then f io d e v else Some (Go () v)) = Some r" "bok lo hi buf m u" "0 \<le> e" for u d v e
    using that 1(1) [of io d e v r] 1(3) bok_getc [OF that(3,1)] getc_ascii [OF 1(3) that(1)] by (auto split: if_splits)
  consider "c = 0 \<or> c = 10" | "c \<noteq> 0" "c \<noteq> 10" "c = 45 \<and> lc \<noteq> 0" | "c \<noteq> 0" "c \<noteq> 10" "\<not> (c = 45 \<and> lc \<noteq> 0)" by blast
  then show ?case
  proof cases
    case 1
    then show ?thesis using \<open>_ = Some r\<close> \<open>bok lo hi buf m st\<close> by (auto simp: bok_outside)
  next
    case 2
    then obtain d u where u: "re_getc io st = Some (d, u)" using \<open>_ = Some r\<close> by (auto simp: do_Some)
    have ub: "bok lo hi buf m u" "0 \<le> d \<and> d < 128"
      using bok_getc [OF \<open>bok lo hi buf m st\<close> u] getc_ascii [OF \<open>ascii io\<close> u] by auto
    show ?thesis
    proof (cases "d = 93")
      case True
      then have "r = Go () (PLACE 45 u)" using 2 u \<open>_ = Some r\<close> by auto
      then show ?thesis using bok_place [OF ub(1) assms(7), of 45] by simp
    next
      case False
      let ?v = "PLACE d (fold PLACE [lc..d - 1] u)"
      have "bok lo hi buf m ?v" by (intro bok_place bok_places ub(1) assms(7)) (use ub(2) \<open>0 \<le> lc\<close> in auto)
      moreover obtain e v where "re_getc io ?v = Some (e, v)" "(if e \<noteq> 93 then f io e d v else Some (Go () v)) = Some r"
        using False 2 u \<open>_ = Some r\<close> by (auto simp: do_Some)
      ultimately show ?thesis using rec ub(2) by blast
    qed
  next
    case 3
    have "bok lo hi buf m (PLACE c st)" by (intro bok_place \<open>bok lo hi buf m st\<close> assms(7) \<open>0 \<le> c\<close> \<open>c < 128\<close>)
    moreover obtain e v where "re_getc io (PLACE c st) = Some (e, v)" "(if e \<noteq> 93 then f io e c v else Some (Go () v)) = Some r"
      using 3 \<open>_ = Some r\<close> by (auto simp: do_Some)
    ultimately show ?thesis using rec \<open>0 \<le> c\<close> by blast
  qed
qed

lemma compile_class_bok:
  assumes "compile_class io hi st = Some r" "ascii io" "bok lo hi buf m st" "lo \<le> cep st"
  shows "res_ok lo hi buf hi r"
proof (cases "cep st + 17 \<ge> hi")
  case True
  then show ?thesis using assms(1,3) by (auto simp: compile_class_def bok_outside)
next
  case False
  let ?m = "cep st + 1"
  have s: "bok lo hi buf ?m (class_start st)"
    using assms(3) False by (auto simp: bok_def outside_def class_start_def re_op_def Let_def)
  have hi: "?m + 15 \<le> hi" using False by simp
  obtain c u neg d v q where u: "re_getc io (class_start st) = Some (c, u)"
    "(if c = 94 then Option.bind (re_getc io u) (\<lambda>(c, st). Some (True, c, st)) else Some (False, c, u)) = Some (neg, d, v)"
    "class_loop io d 0 v = Some q"
    "(case q of Go _ st \<Rightarrow> Some (Go () (class_end neg st)) | ERROR e st \<Rightarrow> Some (ERROR e st) | RETURN p st \<Rightarrow> Some (RETURN p st)) = Some r"
    using assms(1) False by (auto simp: compile_class_def do_Some split del: if_split)
  have ub: "bok lo hi buf ?m u" "0 \<le> c \<and> c < 128" using bok_getc [OF s u(1)] getc_ascii [OF assms(2) u(1)] by auto
  have vb: "bok lo hi buf ?m v \<and> 0 \<le> d \<and> d < 128"
    using u(2) ub bok_getc [OF ub(1)] getc_ascii [OF assms(2), of u] by (auto simp: do_Some split: if_splits)
  have q: "res_ok lo hi buf ?m q" using class_loop_bok [OF u(3) assms(2) _ _ _ _ hi] vb by auto
  have e: "bok lo hi buf hi (class_end neg w)" if "bok lo hi buf ?m w" for w
    using that False by (auto simp: bok_def outside_def class_end_def Let_def)
  show ?thesis using q u(4) e by (cases q) auto
qed


section \<open>Ranges\<close>

lemma number_loop_bok:
  assumes "number_loop io c i st = Some r" "bok lo hi buf m st"
  shows "res_ok lo hi buf m r"
  using assms
proof (induction rule: number_loop.raw_induct [rotated, consumes 1])
  case (1 f io c i st r)
  show ?case
  proof (cases "48 \<le> c \<and> c \<le> 57")
    case True
    then obtain d u where u: "re_getc io st = Some (d, u)"
      "(if d \<noteq> 92 \<and> d \<noteq> 44 then f io d (s16 (10 * i + c - 48)) u else Some (Go (s16 (10 * i + c - 48), d) u)) = Some r"
      using 1(2) by (auto simp: do_Some split del: if_split)
    then show ?thesis using 1(1) [of io d "s16 (10 * i + c - 48)" u r] bok_getc [OF 1(3) u(1)] by (auto split: if_splits)
  next
    case False
    then show ?thesis using 1(2,3) by (auto simp: bok_outside split: if_splits)
  qed
qed

lemma range_end_bok:
  assumes "range_end io cflg i st = Some r" "bok lo hi buf m st" "m \<le> hi \<or> cflg" "m \<le> hi + 1"
  shows "res_ok lo hi buf (hi + 1) r"
proof -
  obtain d u where u: "re_getc io st = Some (d, u)" "bok lo hi buf m u"
    "(if d \<noteq> 125 then Some (ERROR 45 u) else if \<not> cflg then Some (Go () (re_put i u))
      else if uint (cbuf u (cep u - 1)) < uint (cbuf u (cep u - 2)) then Some (ERROR 46 u) else Some (Go () u)) = Some r"
    using assms(1) bok_getc [OF assms(2)] by (auto simp: range_end_def do_Some split del: if_split)
  have "m \<le> hi \<Longrightarrow> bok lo hi buf (hi + 1) (re_put i u)" by (rule bok_mono [OF bok_put(1) [OF u(2)]]) simp_all
  then show ?thesis using u(3) assms(3,4) bok_outside [OF u(2)] bok_mono [OF u(2), of "hi + 1"]
    by (auto split: if_splits)
qed

lemma nlim_bok:
  assumes "nlim io cflg st = Some r" "bok lo hi buf (if cflg then hi else hi - 1) st"
  shows "res_ok lo hi buf (hi + 1) r"
  using assms
proof (induction rule: nlim.raw_induct [rotated, consumes 1])
  case (1 f io cflg st r)
  let ?m = "if cflg then hi else hi - 1"
  obtain c u q where u: "re_getc io st = Some (c, u)" "number_loop io c 0 u = Some q" using 1(2) by (auto simp: do_Some)
  have q: "res_ok lo hi buf ?m q" by (rule number_loop_bok [OF u(2) bok_getc [OF 1(3) u(1)]])
  show ?case
  proof (cases q)
    case (Go v w)
    then have w: "bok lo hi buf ?m w" using q by simp
    let ?w = "re_put (fst v) w"
    have pw: "bok lo hi buf (?m + 1) ?w" by (rule bok_put(1) [OF w]) simp
    have body: "(if fst v > 255 then Some (ERROR 11 w) else if snd v = 44 then
         (if cflg then Some (ERROR 44 ?w) else Option.bind (re_getc io ?w) (\<lambda>(d, st).
            if d = 92 then range_end io True (fst v) (re_put 255 st) else Option.bind (re_ungetc io d st) (\<lambda>st. f io True st)))
        else range_end io cflg (fst v) ?w) = Some r"
      using 1(2) [unfolded Let_def] u Go by simp
    consider "fst v > 255" | "fst v \<le> 255" "snd v = 44" "cflg" | "fst v \<le> 255" "snd v = 44" "\<not> cflg" | "fst v \<le> 255" "snd v \<noteq> 44" by linarith
    then show ?thesis
    proof cases
      case 3
      then obtain d x where x: "re_getc io ?w = Some (d, x)"
        "(if d = 92 then range_end io True (fst v) (re_put 255 x) else Option.bind (re_ungetc io d x) (\<lambda>st. f io True st)) = Some r"
        using body by (auto simp: do_Some split del: if_split)
      have xb: "bok lo hi buf hi x" using bok_getc [OF pw x(1)] 3 by simp
      show ?thesis
      proof (cases "d = 92")
        case True
        then show ?thesis using x(2) range_end_bok [OF _ bok_put(1) [OF xb]] by simp
      next
        case False
        then obtain y where "re_ungetc io d x = Some y" "f io True y = Some r" using x(2) by (auto simp: do_Some)
        then show ?thesis using 1(1) [of io True y r] bok_ungetc [OF xb] by simp
      qed
    next
      case 4
      then show ?thesis using body range_end_bok [OF _ pw, of io cflg "fst v" r] by (auto split: if_splits)
    qed (use body w pw in \<open>auto simp: bok_outside\<close>)
  qed (use 1(2) u q in auto)
qed


section \<open>The loop\<close>

lemma compile_escape_bok:
  assumes "compile_escape io st = Some r" "bok lo hi buf (hi - 1) st"
  shows "res_ok lo hi buf (hi + 1) r"
proof -
  obtain c u where u: "re_getc io st = Some (c, u)" using assms(1) by (auto simp: compile_escape_def do_Some)
  have b: "bok lo hi buf (hi - 1) u" by (rule bok_getc [OF assms(2) u])
  have two: "bok lo hi buf (hi + 1) (re_put k (re_op x w))" if "cbuf w = cbuf u" "cep w = cep u" "lastep w = lastep u" for k x w
    using bok_put(1) [OF bok_put(2) [OF bok_free [OF b that]], of k x] by simp
  have dc: "bok lo hi buf (hi + 1) (defchar k u)" for k using bok_defchar [OF b, of k] by (simp add: add.commute)
  have out: "outside lo hi buf w" if "cbuf w = cbuf u" for w using bok_outside [OF b] that by (simp add: outside_def)
  show ?thesis
  proof (cases "c = 123")
    case True
    show ?thesis
    proof (cases "lastep u")
      case None
      then show ?thesis using True assms(1) u dc by (auto simp: compile_escape_def)
    next
      case (Some p)
      then show ?thesis using True assms(1) u nlim_bok [of io False "or_last RNGE p u" r] bok_or_last [OF b Some]
        by (auto simp: compile_escape_def)
    qed
  next
    case False
    then show ?thesis using assms(1) u
      by (auto simp: compile_escape_def Let_def intro!: dc two out split: if_splits list.splits)
  qed
qed

lemma compile_step_bok:
  assumes "compile_step io hi eof st = Some r" "ascii io" "bok lo hi buf (hi + 1) st"
  shows "res_ok lo hi buf (hi + 1) r"
proof (cases "cep st \<ge> hi")
  case True
  then show ?thesis using assms(1,3) by (auto simp: compile_step_def bok_outside)
next
  case False
  have st: "bok lo hi buf (hi - 1) st" using assms(3) False by (auto simp: bok_def)
  obtain c u w where u: "re_getc io st = Some (c, u)" "compile_char io hi eof c w = Some r" "w = u \<or> w = u\<lparr>lastep := Some (cep u)\<rparr>"
    using assms(1) False by (auto simp: compile_step_def do_Some split: if_splits)
  have ub: "bok lo hi buf (hi - 1) u" by (rule bok_getc [OF st u(1)])
  have w: "bok lo hi buf (hi - 1) w" using u(3) ub by (auto simp: bok_def outside_def)
  have one: "bok lo hi buf (hi + 1) (re_op x w)" for x using bok_put(2) [OF w, of x] by (auto intro: bok_mono)
  have dc: "bok lo hi buf (hi + 1) (defchar k w)" for k using bok_defchar [OF w, of k] by (simp add: add.commute)
  have ou: "outside lo hi buf w" by (rule bok_outside [OF w])
  have or: "bok lo hi buf (hi + 1) (or_last x p w)" if "lastep w = Some p" for x p
    by (rule bok_mono [OF bok_or_last [OF w that]]) simp
  have un: "outside lo hi buf (re_op x v\<lparr>cglob := g\<rparr>)" if "re_ungetc io k w = Some v" for x k v g
    using bok_outside [OF bok_put(2) [OF bok_ungetc [OF w that], of x]] by (simp add: outside_def)
  have cl: "res_ok lo hi buf (hi + 1) r" if "compile_class io hi w = Some r"
    using compile_class_bok [OF that assms(2) w] w by (cases r) (auto simp: bok_def)
  have es: "res_ok lo hi buf (hi + 1) r" if "compile_escape io w = Some r" by (rule compile_escape_bok [OF that w])
  show ?thesis
    using u(2) cl es bok_outside [OF one [of CCEOF]]
    by (auto simp: compile_char_def Let_def do_Some intro!: one dc ou or intro: un split: if_splits option.splits)
qed

lemma compile_loop_bok:
  assumes "compile_loop io hi eof st = Some (res, u)" "ascii io" "bok lo hi buf (hi + 1) st"
  shows "outside lo hi buf u"
proof -
  have "\<forall>res u. r = (res, u) \<longrightarrow> ascii io \<longrightarrow> bok lo hi buf (hi + 1) st \<longrightarrow> outside lo hi buf u"
    if "compile_loop io hi eof st = Some r" for r
    using that
  proof (induction rule: compile_loop.raw_induct [rotated, consumes 1])
    case (1 f io hi eof st r)
    then obtain q where q: "compile_step io hi eof st = Some q"
      "(case q of Go u st \<Rightarrow> f io hi eof st | ERROR e st \<Rightarrow> Some (Inl e, st) | RETURN p st \<Rightarrow> Some (Inr p, st)) = Some r"
      by (auto simp: do_Some)
    show ?case using q(2) 1(1) compile_step_bok [OF q(1)] by (cases q) fastforce+
  qed
  then show ?thesis using assms by blast
qed

theorem compile_outside:
  assumes "re_compile io i buf ep endbuf eof g = Some (res, u)" "ascii io" "a < ep \<or> endbuf < a"
  shows "cbuf u a = buf a"
proof -
  have s: "outside ep endbuf buf u"
    if "compile_loop io endbuf eof w = Some (res, u)" "cbuf w = buf" "cep w = ep" "lastep w = None" for w
  proof (cases "ep < endbuf")
    case True
    then show ?thesis using compile_loop_bok [OF that(1) assms(2), of ep buf] that(2-4) by (simp add: bok_def outside_def)
  next
    case False
    then have "compile_loop io endbuf eof w = Some (Inl 50, w)" using that(3) by (subst compile_loop.simps) (simp add: compile_step_def)
    then show ?thesis using that(1,2) by (simp add: outside_def)
  qed
  obtain c j where c: "GETC io i = Some (c, j)" using assms(1) by (auto simp: re_compile_def re_getc_def do_Some)
  have "outside ep endbuf buf u"
  proof (cases "c = eof \<or> c = 10")
    case True
    then show ?thesis using assms(1) c
      by (auto simp: re_compile_def re_getc_def re_ungetc_def do_Some outside_def split: if_splits)
  next
    case False
    then obtain w where "compile_loop io endbuf eof w = Some (res, u)" "cbuf w = buf" "cep w = ep" "lastep w = None"
      using assms(1) c by (cases "c = 94") (auto simp: re_compile_def re_getc_def re_ungetc_def do_Some)
    then show ?thesis by (rule s)
  qed
  then show ?thesis using assms(3) by (auto simp: outside_def)
qed

end
