(* ===== verification/Lpr.thy ===== *)
theory Lpr
  imports V7_Prelude
begin

text \<open>
  \<open>sys/dev/lpr.c\<close> of the ZEUS tape: the driver of the line printers on the ports of Z-80 PIO circuits, with
  Centronics and Data Products interfaces.

  The code that is not in the repository is an argument: the character lists of the kernel (\<open>putc\<close>, \<open>getc\<close>
  and the count \<open>c_cc\<close>) as \<open>clist_ops\<close>, the characters that \<open>cpass\<close> fetches from the user as a list, and
  \<open>copyin\<close> and \<open>copyout\<close> by their result. The machine is part of the state: \<open>lp_status\<close> gives the value of
  the \<open>n\<close>-th \<open>inb\<close>, \<open>lp_irq\<close> tells at which of the points where the port's interrupt is enabled it arrives,
  and \<open>outs\<close> collects what \<open>outb\<close> writes. A sleeping process waits for interrupts; where none wakes it up,
  or the printer never takes a character, the call has no result.

  Three things are simpler than on the machine. The interrupt of a port comes at most once at each point after an
  \<open>ENABLE\<close> or a \<open>RAISE\<close>, not between any two instructions while it is enabled; \<open>lpr_int\<close> uses the queue, the flags and
  \<open>cyc_started\<close> of its port only. \<open>sleep\<close> ends with a wakeup only, although at the priority \<open>LPPRI\<close> a signal can end it too. And
  \<open>putc\<close> has no failure: \<open>lpr.c\<close> does not look at its result, so that characters are lost when the kernel has no block left
  for its lists, which the contract \<open>fifo\<close> of \<open>Lpr_Spec\<close> leaves out.
\<close>

section \<open>Constants\<close>

abbreviation "LPLOWAT \<equiv> 32 :: int"
abbreviation "LPHIWAT \<equiv> 64 :: int"
abbreviation "LINGER \<equiv> 25 :: nat"
abbreviation "MAXPORTS \<equiv> 3 :: int"
abbreviation "NLPT \<equiv> 3 :: int"
abbreviation "CENTRON \<equiv> 0 :: int"
abbreviation "DATAPROD \<equiv> 1 :: int"
abbreviation "RAWCENT \<equiv> 2 :: int"
abbreviation "RAWDATAP \<equiv> 3 :: int"
abbreviation "UNCONFIG \<equiv> 65535 :: int"
abbreviation "LPINACTIVE \<equiv> 255 :: int"
abbreviation "LPLOWER \<equiv> 7 :: int"
abbreviation "LPRAISE \<equiv> 15 :: int"
abbreviation "LPOPEN \<equiv> 8 :: byte"
abbreviation "NOCR \<equiv> 32 :: byte"
abbreviation "ASLP \<equiv> 64 :: byte"
abbreviation "FORM \<equiv> 12 :: int"
abbreviation "LPENABLE \<equiv> 231 :: int"
abbreviation "LPDISABLE \<equiv> 103 :: int"
abbreviation "ONLINE \<equiv> 32 :: byte"
abbreviation "INTVER \<equiv> 64 :: byte"
abbreviation "LPBUSY \<equiv> 16 :: byte"
abbreviation "DDEMAND \<equiv> 128 :: byte"

text \<open>\<open>EIO\<close>, \<open>ENXIO\<close>, \<open>EFAULT\<close> and \<open>EINVAL\<close> of \<open>sys/user.h\<close>.\<close>

abbreviation "LP_EIO \<equiv> 5 :: int"
abbreviation "LP_ENXIO \<equiv> 6 :: int"
abbreviation "LP_EFAULT \<equiv> 14 :: int"
abbreviation "LP_EINVAL \<equiv> 22 :: int"


section \<open>Data\<close>

record 'q clist_ops =
  putc :: "int \<Rightarrow> 'q \<Rightarrow> 'q"
  getc :: "'q \<Rightarrow> int \<times> 'q"
  c_cc :: "'q \<Rightarrow> int"

record 'q lp_dtype =
  lp_flag :: byte
  lp_ind :: int
  ccc :: int
  mcc :: int
  mlc :: int
  lp_line :: int
  lp_col :: int
  l_outq :: 'q

record 'q Port_struct =
  Lpr_type :: int
  Control :: int
  Output :: int
  ControlSel :: int
  OutputSel :: int
  cyc_started :: int
  lpr_data :: "'q lp_dtype"

record 'q lpr =
  Port :: "nat \<Rightarrow> 'q Port_struct"
  hpcpu :: bool
  lp_uerror :: int
  last_int_serv :: int
  lp_status :: "nat \<Rightarrow> int \<Rightarrow> byte"
  n_inb :: nat
  lp_irq :: "nat \<Rightarrow> bool"
  n_irq :: nat
  outs :: "(int \<times> int) list"

text \<open>The initial value of \<open>Port\<close>.\<close>

definition port_init :: "'q \<Rightarrow> nat \<Rightarrow> 'q Port_struct" where
  "port_init q n =
     (let a = (if n = 0 then 65465 else if n = 1 then 65401 else 65337)
      in \<lparr>Lpr_type = UNCONFIG, Control = a, Output = a + 2, ControlSel = a + 4, OutputSel = a + 6, cyc_started = 0,
          lpr_data = \<lparr>lp_flag = 0, lp_ind = 1, ccc = 0, mcc = 0, mlc = 0, lp_line = 66, lp_col = 130, l_outq = q\<rparr>\<rparr>)"

text \<open>\<open>LPRADR\<close> and \<open>MAXPORT\<close>.\<close>

definition lpradr :: "'q lpr \<Rightarrow> nat \<Rightarrow> nat" where
  "lpradr s n = (if hpcpu s then n + 1 else n)"

definition maxport :: "'q lpr \<Rightarrow> int" where
  "maxport s = (if hpcpu s then MAXPORTS - 1 else MAXPORTS)"

definition lp_minor :: "int \<Rightarrow> int" where
  "lp_minor dev = dev mod 256"

abbreviation lp_data :: "'q lpr \<Rightarrow> nat \<Rightarrow> 'q lp_dtype" where
  "lp_data s n \<equiv> lpr_data (Port s n)"

definition upd_port :: "nat \<Rightarrow> ('q Port_struct \<Rightarrow> 'q Port_struct) \<Rightarrow> 'q lpr \<Rightarrow> 'q lpr" where
  "upd_port n f s = s\<lparr>Port := (Port s)(n := f (Port s n))\<rparr>"

definition upd_lp :: "nat \<Rightarrow> ('q lp_dtype \<Rightarrow> 'q lp_dtype) \<Rightarrow> 'q lpr \<Rightarrow> 'q lpr" where
  "upd_lp n f = upd_port n (\<lambda>p. p\<lparr>lpr_data := f (lpr_data p)\<rparr>)"

definition outb :: "int \<Rightarrow> int \<Rightarrow> 'q lpr \<Rightarrow> 'q lpr" where
  "outb a v s = s\<lparr>outs := outs s @ [(a, v)]\<rparr>"

definition inb :: "int \<Rightarrow> 'q lpr \<Rightarrow> byte \<times> 'q lpr" where
  "inb a s = (lp_status s (n_inb s) a, s\<lparr>n_inb := n_inb s + 1\<rparr>)"

definition lp_putc :: "'q clist_ops \<Rightarrow> nat \<Rightarrow> int \<Rightarrow> 'q lpr \<Rightarrow> 'q lpr" where
  "lp_putc ops n c = upd_lp n (\<lambda>d. d\<lparr>l_outq := putc ops c (l_outq d)\<rparr>)"

definition is_cent :: "int \<Rightarrow> bool" where
  "is_cent ty \<longleftrightarrow> ty = CENTRON \<or> ty = RAWCENT"

definition is_raw :: "int \<Rightarrow> bool" where
  "is_raw ty \<longleftrightarrow> ty = RAWCENT \<or> ty = RAWDATAP"


section \<open>Sending characters\<close>

text \<open>Polling: at most \<open>n\<close> reads of the status until \<open>LPBUSY\<close> is seen; \<open>x\<close> is the status read last.\<close>

primrec lp_poll :: "nat \<Rightarrow> int \<Rightarrow> byte \<Rightarrow> 'q lpr \<Rightarrow> byte \<times> 'q lpr" where
  "lp_poll 0 a x s = (x, s)"
| "lp_poll (Suc n) a x s =
     (let (x, s) = inb a s in if x AND LPBUSY \<noteq> 0 then (x, s) else lp_poll n a x s)"

text \<open>A character from the list to the data channel; with a data strobe for Centronics.\<close>

definition send_char :: "nat \<Rightarrow> bool \<Rightarrow> int \<Rightarrow> 'q lpr \<Rightarrow> 'q lpr" where
  "send_char n strobe c s =
     (let hp = Port s (lpradr s n);
          s = (if c = 10 \<or> c = 13 \<or> c = FORM then upd_port n (\<lambda>p. p\<lparr>cyc_started := 1\<rparr>) s else s);
          s = outb (Output hp) c s
      in if strobe then outb (Control hp) 15 (outb (Control hp) 14 s) else s)"

partial_function (option) printc_cent :: "'q clist_ops \<Rightarrow> nat \<Rightarrow> 'q lpr \<Rightarrow> 'q lpr option" where
  "printc_cent ops n s =
     (let (x, s) = lp_poll LINGER (Control (Port s (lpradr s n))) 0 s in
      if x AND LPBUSY = 0 then Some s
      else let (c, q) = getc ops (l_outq (lp_data s n));
               s = upd_lp n (\<lambda>d. d\<lparr>l_outq := q\<rparr>) s
           in if c \<ge> 0 then printc_cent ops n (send_char n True c s) else Some s)"

partial_function (option) printc_data :: "'q clist_ops \<Rightarrow> nat \<Rightarrow> 'q lpr \<Rightarrow> 'q lpr option" where
  "printc_data ops n s =
     (let (x, s) = inb (Control (Port s (lpradr s n))) s in
      if x AND DDEMAND = 0 then Some s
      else let (c, q) = getc ops (l_outq (lp_data s n));
               s = upd_lp n (\<lambda>d. d\<lparr>l_outq := q\<rparr>) s
           in if c \<ge> 0 then printc_data ops n (send_char n False c s) else Some s)"

definition printc :: "'q clist_ops \<Rightarrow> nat \<Rightarrow> 'q lpr \<Rightarrow> 'q lpr option" where
  "printc ops n s = (if is_cent (Lpr_type (Port s n)) then printc_cent ops n s else printc_data ops n s)"


section \<open>Interrupts\<close>

text \<open>The port an interrupt vector belongs to; any other leaves \<open>port_no\<close> without a value.\<close>

definition lp_vector :: "int \<Rightarrow> nat option" where
  "lp_vector v = (if v mod 256 = 230 then Some 0 else if v mod 256 = 232 then Some 1
     else if v mod 256 = 238 then Some 2 else None)"

text \<open>\<open>reti0\<close>, \<open>reti1\<close>, \<open>evi\<close> and \<open>dvi\<close> act on the processor only.\<close>

definition lpr_int :: "'q clist_ops \<Rightarrow> int \<Rightarrow> 'q lpr \<Rightarrow> 'q lpr option" where
  "lpr_int ops eventid s =
     (let s = s\<lparr>last_int_serv := 9\<rparr> in
      do {
        n \<leftarrow> lp_vector eventid;
        let hp = Port s (lpradr s n);
        let s = outb (ControlSel hp) LPDISABLE s;
        let s = upd_port n (\<lambda>p. p\<lparr>cyc_started := 0\<rparr>) s;
        s \<leftarrow> printc ops n s;
        let d = lp_data s n;
        let s = (if c_cc ops (l_outq d) \<le> LPLOWAT \<and> lp_flag d AND ASLP \<noteq> 0
          then upd_lp n (\<lambda>d. d\<lparr>lp_flag := lp_flag d AND NOT ASLP\<rparr>) s else s);
        let s = outb (ControlSel hp) LPENABLE s;
        Some (if cyc_started (Port s n) \<noteq> 0
          then outb (Control hp) LPRAISE (outb (Control hp) LPLOWER s) else s) })"

text \<open>The vector \<open>lpr_init\<close> gives to a port.\<close>

definition intvec :: "nat \<Rightarrow> int" where
  "intvec n = (if n = 0 then 230 else if n = 1 then 232 else 238)"

text \<open>A point where the interrupt of the port is enabled, after \<open>ENABLE\<close> or \<open>RAISE\<close>: it arrives once or it does not.\<close>

definition lp_point :: "'q clist_ops \<Rightarrow> nat \<Rightarrow> 'q lpr \<Rightarrow> 'q lpr option" where
  "lp_point ops n s =
     (let k = n_irq s; s = s\<lparr>n_irq := k + 1\<rparr>
      in if lp_irq s k then lpr_int ops (intvec n) s else Some s)"

text \<open>\<open>sleep(lp_d_ptr, LPPRI)\<close>: interrupts until one wakes the process up, when no signal does.\<close>

partial_function (option) lp_sleep :: "'q clist_ops \<Rightarrow> nat \<Rightarrow> 'q lpr \<Rightarrow> 'q lpr option" where
  "lp_sleep ops n s =
     (if lp_flag (lp_data s n) AND ASLP = 0 then Some s
      else Option.bind (lpr_int ops (intvec n) s) (\<lambda>s. lp_sleep ops n s))"

text \<open>\<open>outb\<close> of \<open>ENABLE\<close>, then \<open>LOWER\<close> and \<open>RAISE\<close>, after which a waiting printer interrupts.\<close>

definition lp_kick :: "'q clist_ops \<Rightarrow> nat \<Rightarrow> 'q lpr \<Rightarrow> 'q lpr option" where
  "lp_kick ops n s =
     (let hp = Port s (lpradr s n) in
      do {
        s \<leftarrow> lp_point ops n (outb (ControlSel hp) LPENABLE s);
        lp_point ops n (outb (Control hp) LPRAISE (outb (Control hp) LPLOWER s)) })"

definition lp_disable :: "nat \<Rightarrow> 'q lpr \<Rightarrow> 'q lpr" where
  "lp_disable n s = outb (ControlSel (Port s (lpradr s n))) LPDISABLE s"


section \<open>Output\<close>

text \<open>The statements from the label \<open>'\r'\<close> on, and from \<open>FORM\<close> on, which fall through.\<close>

definition lp_cr :: "'q clist_ops \<Rightarrow> nat \<Rightarrow> int \<Rightarrow> 'q lpr \<Rightarrow> 'q lpr option" where
  "lp_cr ops n c s =
     (let s = upd_lp n (\<lambda>d. d\<lparr>ccc := lp_ind d\<rparr>) s;
          s = (if c = 13 then upd_lp n (\<lambda>d. d\<lparr>mcc := 0\<rparr>) (lp_putc ops n c s) else s)
      in do { s \<leftarrow> printc ops n (lp_disable n s); lp_kick ops n s })"

definition lp_form :: "'q clist_ops \<Rightarrow> nat \<Rightarrow> int \<Rightarrow> 'q lpr \<Rightarrow> 'q lpr option" where
  "lp_form ops n c s =
     (let s = upd_lp n (\<lambda>d. d\<lparr>mcc := 0\<rparr>) s;
          s = (if mlc (lp_data s n) \<noteq> 0 then
            (let s = (if c = FORM then
                  upd_lp n (\<lambda>d. d\<lparr>mlc := 0\<rparr>) (if Lpr_type (Port s n) = CENTRON then lp_putc ops n 13 s else s)
                else s)
             in lp_putc ops n c s)
          else s)
      in lp_cr ops n c s)"

text \<open>\<open>while(ccc > mcc)\<close>: blanks up to the current column.\<close>

primrec lp_blanks :: "'q clist_ops \<Rightarrow> nat \<Rightarrow> nat \<Rightarrow> 'q lpr \<Rightarrow> 'q lpr" where
  "lp_blanks ops n 0 s = s"
| "lp_blanks ops n (Suc k) s =
     lp_blanks ops n k (upd_lp n (\<lambda>d. d\<lparr>mcc := s16 (mcc d + 1)\<rparr>) (lp_putc ops n 32 s))"

definition lp_char :: "'q clist_ops \<Rightarrow> nat \<Rightarrow> int \<Rightarrow> 'q lpr \<Rightarrow> 'q lpr" where
  "lp_char ops n c s =
     (let d = lp_data s n in
      if ccc d < mcc d \<and> lp_flag d AND NOCR \<noteq> 0 then upd_lp n (\<lambda>d. d\<lparr>ccc := s16 (ccc d + 1)\<rparr>) s
      else
        let s = (if ccc d < mcc d then upd_lp n (\<lambda>d. d\<lparr>mcc := 0\<rparr>) (lp_putc ops n 13 s) else s);
            d = lp_data s n;
            s = (if ccc d < lp_col d then
                upd_lp n (\<lambda>d. d\<lparr>mcc := s16 (mcc d + 1)\<rparr>)
                  (lp_putc ops n c (lp_blanks ops n (nat (ccc d - mcc d)) s))
              else s)
        in upd_lp n (\<lambda>d. d\<lparr>ccc := s16 (ccc d + 1)\<rparr>) s)"

definition lp_output :: "'q clist_ops \<Rightarrow> nat \<Rightarrow> int \<Rightarrow> 'q lpr \<Rightarrow> 'q lpr option" where
  "lp_output ops n c s =
     (if is_raw (Lpr_type (Port s n)) then
        Some (upd_lp n (\<lambda>d. d\<lparr>mcc := s16 (mcc d + 1), ccc := s16 (ccc d + 1)\<rparr>) (lp_putc ops n c s))
      else if c = 9 then
        Some (upd_lp n (\<lambda>d. d\<lparr>ccc := s16 (s16 (ccc d + 8 - lp_ind d) div 8 * 8 + lp_ind d)\<rparr>) s)
      else if c = 10 then
        (let s = upd_lp n (\<lambda>d. d\<lparr>mlc := s16 (mlc d + 1)\<rparr>) s;
             d = lp_data s n
         in if lp_line d \<noteq> 0 \<and> mlc d \<ge> lp_line d then lp_form ops n FORM s
            else lp_form ops n 10 (if Lpr_type (Port s n) = CENTRON then lp_putc ops n 13 s else s))
      else if c = FORM then lp_form ops n FORM s
      else if c = 13 then lp_cr ops n 13 s
      else if c = 8 then
        Some (if ccc (lp_data s n) > lp_ind (lp_data s n) then upd_lp n (\<lambda>d. d\<lparr>ccc := s16 (ccc d - 1)\<rparr>) s else s)
      else if c = 32 then Some (upd_lp n (\<lambda>d. d\<lparr>ccc := s16 (ccc d + 1)\<rparr>) s)
      else Some (lp_char ops n c s))"

text \<open>\<open>while(l_outq.c_cc > LPHIWAT)\<close> of \<open>lp_write\<close>.\<close>

partial_function (option) lp_flood :: "'q clist_ops \<Rightarrow> nat \<Rightarrow> 'q lpr \<Rightarrow> 'q lpr option" where
  "lp_flood ops n s =
     (if c_cc ops (l_outq (lp_data s n)) \<le> LPHIWAT then Some s
      else Option.bind (printc ops n s) (\<lambda>s.
        let s = upd_lp n (\<lambda>d. d\<lparr>lp_flag := lp_flag d OR ASLP\<rparr>) s;
            hp = Port s (lpradr s n);
            s = outb (Control hp) LPRAISE (outb (Control hp) LPLOWER (outb (ControlSel hp) LPENABLE s))
        in Option.bind (lp_sleep ops n s) (\<lambda>s. lp_flood ops n (lp_disable n s))))"

text \<open>The loop over the characters of \<open>cpass\<close>.\<close>

primrec lp_chars :: "'q clist_ops \<Rightarrow> nat \<Rightarrow> int list \<Rightarrow> 'q lpr \<Rightarrow> 'q lpr option" where
  "lp_chars ops n [] s = Some s"
| "lp_chars ops n (c # cs) s = do {
     s \<leftarrow> lp_flood ops n (lp_disable n s);
     s \<leftarrow> lp_point ops n (outb (ControlSel (Port s (lpradr s n))) LPENABLE s);
     if c div 128 mod 2 \<noteq> 0 \<and> (Lpr_type (Port s n) = CENTRON \<or> Lpr_type (Port s n) = DATAPROD)
     then Some (s\<lparr>lp_uerror := LP_EFAULT\<rparr>)
     else do { s \<leftarrow> lp_output ops n c s; lp_chars ops n cs s } }"

definition lp_write :: "'q clist_ops \<Rightarrow> int \<Rightarrow> int list \<Rightarrow> 'q lpr \<Rightarrow> 'q lpr option" where
  "lp_write ops dev cs s =
     (let n = nat (lp_minor dev mod 4) in
      do {
        s \<leftarrow> lp_chars ops n cs s;
        s \<leftarrow> printc ops n (lp_disable n s);
        lp_kick ops n s })"


section \<open>Opening, closing and parameters\<close>

definition lpr_init :: "nat \<Rightarrow> int \<Rightarrow> 'q lpr \<Rightarrow> 'q lpr" where
  "lpr_init n ty s =
     (let s = upd_port n (\<lambda>p. p\<lparr>Lpr_type := ty\<rparr>) s;
          hp = Port s (lpradr s n);
          s = outb (OutputSel hp) 15 s;
          s = outb (OutputSel hp) 7 s;
          s = outb (Control hp) LPINACTIVE s;
          s = outb (ControlSel hp) 207 s;
          s = outb (ControlSel hp) 240 s;
          s = (if n \<le> 2 then outb (ControlSel hp) (intvec n) s else s);
          s = outb (ControlSel hp) 247 s
      in outb (ControlSel hp) (if is_cent ty then 231 else 119) s)"

text \<open>The test of the status on opening.\<close>

definition lp_ready :: "int \<Rightarrow> nat \<Rightarrow> 'q lpr \<Rightarrow> bool \<times> 'q lpr" where
  "lp_ready ty n s =
     (let a = Control (Port s (lpradr s n)) in
      if is_cent ty then
        (let (x, s) = lp_poll LINGER a 0 s
         in (x AND ONLINE \<noteq> 0 \<and> x AND INTVER \<noteq> 0 \<and> x AND LPBUSY \<noteq> 0, s))
      else
        (let (x, s) = inb a s
         in (x AND ONLINE \<noteq> 0 \<and> NOT x AND INTVER \<noteq> 0 \<and> x AND DDEMAND \<noteq> 0, s)))"

definition lp_open :: "'q clist_ops \<Rightarrow> int \<Rightarrow> 'q lpr \<Rightarrow> 'q lpr option" where
  "lp_open ops dev s =
     (let mn = lp_minor dev; n = nat (mn mod 4) in
      if int n \<ge> maxport s then Some (s\<lparr>lp_uerror := LP_EIO\<rparr>)
      else if Lpr_type (Port s n) = UNCONFIG \<and> mn div 4 \<ge> NLPT then Some (s\<lparr>lp_uerror := LP_ENXIO\<rparr>)
      else
        let s = (if Lpr_type (Port s n) = UNCONFIG then lpr_init n (mn div 4) s else s);
            ty = Lpr_type (Port s n)
        in if lp_flag (lp_data s n) \<noteq> 0 then Some (s\<lparr>lp_uerror := LP_EIO\<rparr>)
           else let (ok, s) = lp_ready ty n s in
             if \<not> ok then Some (s\<lparr>lp_uerror := LP_EIO\<rparr>)
             else
               let s = upd_lp n (\<lambda>d. d\<lparr>lp_flag := word_of_int dev AND 63 OR LPOPEN\<rparr>) s
               in if \<not> is_raw ty then lp_output ops n FORM s else Some s)"

definition lp_close :: "'q clist_ops \<Rightarrow> int \<Rightarrow> 'q lpr \<Rightarrow> 'q lpr option" where
  "lp_close ops dev s =
     (let n = nat (lp_minor dev mod 4) in
      do {
        s \<leftarrow> (if \<not> is_raw (Lpr_type (Port s n)) then lp_output ops n FORM s else Some s);
        Some (upd_lp n (\<lambda>d. d\<lparr>lp_flag := 0\<rparr>) s) })"

record lparms =
  lp_lines :: int
  lp_cols :: int
  lp_indent :: int

text \<open>
  \<open>lp_sgtty\<close>: the argument is what \<open>copyin\<close> fetches, or nothing where it or \<open>copyout\<close> fails; the result
  has the structure that \<open>copyout\<close> stores.
\<close>

definition lp_show :: "int \<Rightarrow> bool \<Rightarrow> 'q lpr \<Rightarrow> (int \<times> lparms option) \<times> 'q lpr" where
  "lp_show dev ok s =
     (let d = lp_data s (nat (lp_minor dev mod 4)) in
      if ok then ((1, Some \<lparr>lp_lines = lp_line d, lp_cols = lp_col d, lp_indent = lp_ind d\<rparr>), s)
      else ((0, None), s\<lparr>lp_uerror := LP_EFAULT\<rparr>))"

definition lp_set :: "int \<Rightarrow> lparms option \<Rightarrow> 'q lpr \<Rightarrow> int \<times> 'q lpr" where
  "lp_set dev arg s =
     (case arg of
        None \<Rightarrow> (0, s\<lparr>lp_uerror := LP_EFAULT\<rparr>)
      | Some m \<Rightarrow>
          if lp_cols m < 1 \<or> lp_lines m < 0 \<or> lp_cols m < lp_indent m then (0, s\<lparr>lp_uerror := LP_EINVAL\<rparr>)
          else (1, upd_lp (nat (lp_minor dev mod 4))
            (\<lambda>d. d\<lparr>lp_ind := s8 (lp_indent m), lp_line := lp_lines m, lp_col := lp_cols m\<rparr>) s))"

end
