(* ===== verification/Lpr_Spec.thy ===== *)
theory Lpr_Spec
  imports Lpr
begin

text \<open>
  What the printer gets. \<open>edit\<close> is the editing of one character without queue, printer and interrupts: a
  function from the position on the page to the characters to print. The driver implements it: whatever
  the printer's status and wherever interrupts arrive, the characters sent so far followed by those still
  in the queue are extended by what \<open>edit\<close> says, in order.
\<close>

section \<open>The contract of the character lists\<close>

definition fifo :: "'q clist_ops \<Rightarrow> ('q \<Rightarrow> int list) \<Rightarrow> bool" where
  "fifo ops cont \<longleftrightarrow>
     (\<forall>c q. cont (putc ops c q) = cont q @ [c mod 256]) \<and>
     (\<forall>q. cont q = [] \<longrightarrow> fst (getc ops q) < 0 \<and> cont (snd (getc ops q)) = []) \<and>
     (\<forall>q c cs. cont q = c # cs \<longrightarrow> fst (getc ops q) = c \<and> cont (snd (getc ops q)) = cs) \<and>
     (\<forall>q. c_cc ops q = int (length (cont q))) \<and>
     (\<forall>q. \<forall>c \<in> set (cont q). 0 \<le> c)"

lemma fifoD:
  assumes "fifo ops cont"
  shows "cont (putc ops c q) = cont q @ [c mod 256]"
    "cont q = [] \<Longrightarrow> fst (getc ops q) < 0" "cont q = [] \<Longrightarrow> cont (snd (getc ops q)) = []"
    "cont q = c # cs \<Longrightarrow> fst (getc ops q) = c \<and> cont (snd (getc ops q)) = cs"
    "c_cc ops q = int (length (cont q))"
  using assms unfolding fifo_def by blast+

lemma fifo_getc:
  assumes "fifo ops cont" "getc ops q = (c, r)"
  shows "c \<ge> 0 \<Longrightarrow> cont q = c # cont r" "c < 0 \<Longrightarrow> cont r = cont q"
proof -
  show "cont q = c # cont r" if "c \<ge> 0"
    using that assms fifoD(2,4) [OF assms(1), of q] by (cases "cont q") auto
  show "cont r = cont q" if "c < 0"
  proof (cases "cont q")
    case Nil
    then show ?thesis using fifoD(3) [OF assms(1), of q] assms(2) by simp
  next
    case (Cons d ds)
    then have "c = d" using fifoD(4) [OF assms(1), of q] assms(2) by simp
    moreover have "0 \<le> d" using assms(1) Cons unfolding fifo_def by (metis list.set_intros(1))
    ultimately show ?thesis using that by simp
  qed
qed


section \<open>The editing of characters\<close>

record fmt =
  f_type :: int
  f_nocr :: byte
  f_ind :: int
  f_ccc :: int
  f_mcc :: int
  f_mlc :: int
  f_line :: int
  f_col :: int

definition fmt_of :: "nat \<Rightarrow> 'q lpr \<Rightarrow> fmt" where
  "fmt_of n s = (let d = lp_data s n in
     \<lparr>f_type = Lpr_type (Port s n), f_nocr = lp_flag d AND NOCR, f_ind = lp_ind d, f_ccc = ccc d, f_mcc = mcc d,
      f_mlc = mlc d, f_line = lp_line d, f_col = lp_col d\<rparr>)"

definition edit_form :: "int \<Rightarrow> fmt \<Rightarrow> fmt \<times> int list" where
  "edit_form c f = (f\<lparr>f_mcc := 0, f_mlc := (if c = FORM then 0 else f_mlc f), f_ccc := f_ind f\<rparr>,
     if f_mlc f = 0 then [] else if c = FORM \<and> f_type f = CENTRON then [13, c] else [c])"

definition edit_char :: "int \<Rightarrow> fmt \<Rightarrow> fmt \<times> int list" where
  "edit_char c f =
     (let over = f_ccc f < f_mcc f; g = f\<lparr>f_ccc := s16 (f_ccc f + 1)\<rparr>; m = (if over then 0 else f_mcc f);
          cr = (if over then [13] else [])
      in if over \<and> f_nocr f \<noteq> 0 then (g, [])
         else if f_ccc f < f_col f then
           (g\<lparr>f_mcc := s16 (((\<lambda>m. s16 (m + 1)) ^^ nat (f_ccc f - m)) m + 1)\<rparr>, cr @ replicate (nat (f_ccc f - m)) 32 @ [c])
         else (g\<lparr>f_mcc := m\<rparr>, cr))"

definition edit :: "int \<Rightarrow> fmt \<Rightarrow> fmt \<times> int list" where
  "edit c f =
     (if is_raw (f_type f) then (f\<lparr>f_ccc := s16 (f_ccc f + 1), f_mcc := s16 (f_mcc f + 1)\<rparr>, [c])
      else if c = 9 then (f\<lparr>f_ccc := s16 (s16 (f_ccc f + 8 - f_ind f) div 8 * 8 + f_ind f)\<rparr>, [])
      else if c = 10 then
        (let g = f\<lparr>f_mlc := s16 (f_mlc f + 1)\<rparr>
         in if f_line g \<noteq> 0 \<and> f_mlc g \<ge> f_line g then edit_form FORM g
            else let (h, cs) = edit_form 10 g in (h, if f_type g = CENTRON then 13 # cs else cs))
      else if c = FORM then edit_form FORM f
      else if c = 13 then (f\<lparr>f_ccc := f_ind f, f_mcc := 0\<rparr>, [13])
      else if c = 8 then (if f_ccc f > f_ind f then f\<lparr>f_ccc := s16 (f_ccc f - 1)\<rparr> else f, [])
      else if c = 32 then (f\<lparr>f_ccc := s16 (f_ccc f + 1)\<rparr>, [])
      else edit_char c f)"

text \<open>The characters of a write; a set parity bit ends it, except on a raw port.\<close>

fun edits :: "int list \<Rightarrow> fmt \<Rightarrow> fmt \<times> int list" where
  "edits [] f = (f, [])"
| "edits (c # cs) f =
     (if c div 128 mod 2 \<noteq> 0 \<and> (f_type f = CENTRON \<or> f_type f = DATAPROD) then (f, [])
      else let (g, xs) = edit c f; (h, ys) = edits cs g in (h, xs @ ys))"


section \<open>What is sent and what waits\<close>

text \<open>The characters written to the data channel of the port.\<close>

definition sent :: "nat \<Rightarrow> 'q lpr \<Rightarrow> int list" where
  "sent n s = map snd (filter (\<lambda>(a, v). a = Output (Port s (lpradr s n))) (outs s))"

definition stream :: "('q \<Rightarrow> int list) \<Rightarrow> nat \<Rightarrow> 'q lpr \<Rightarrow> int list" where
  "stream cont n s = sent n s @ cont (l_outq (lp_data s n))"

text \<open>The data channel is a port of its own.\<close>

definition wired :: "nat \<Rightarrow> 'q lpr \<Rightarrow> bool" where
  "wired n s \<longleftrightarrow> (let hp = Port s (lpradr s n) in Control hp \<noteq> Output hp \<and> ControlSel hp \<noteq> Output hp)"

text \<open>The parts that no operation changes.\<close>

definition fixed :: "'q lpr \<Rightarrow> 'q lpr \<Rightarrow> bool" where
  "fixed s t \<longleftrightarrow> hpcpu t = hpcpu s \<and> lp_status t = lp_status s \<and> lp_irq t = lp_irq s
     \<and> (\<forall>k. Output (Port t k) = Output (Port s k) \<and> Control (Port t k) = Control (Port s k) \<and> ControlSel (Port t k) = ControlSel (Port s k))"

text \<open>\<open>t\<close> has the position \<open>f\<close> and \<open>xs\<close> was added to the stream.\<close>

definition gives :: "('q \<Rightarrow> int list) \<Rightarrow> nat \<Rightarrow> 'q lpr \<Rightarrow> fmt \<times> int list \<Rightarrow> 'q lpr \<Rightarrow> bool" where
  "gives cont n s r t \<longleftrightarrow> fixed s t \<and> fmt_of n t = fst r \<and> stream cont n t = stream cont n s @ map (\<lambda>c. c mod 256) (snd r)"

abbreviation keeps :: "('q \<Rightarrow> int list) \<Rightarrow> nat \<Rightarrow> 'q lpr \<Rightarrow> 'q lpr \<Rightarrow> bool" where
  "keeps cont n s \<equiv> gives cont n s (fmt_of n s, [])"

lemma fixed_refl [simp]: "fixed s s"
  by (simp add: fixed_def)

lemma fixed_trans: "fixed s t \<Longrightarrow> fixed t u \<Longrightarrow> fixed s u"
  by (simp add: fixed_def)

lemma fixed_lpradr: "fixed s t \<Longrightarrow> lpradr t n = lpradr s n"
  by (simp add: fixed_def lpradr_def)

lemma fixed_wired: "fixed s t \<Longrightarrow> wired n t = wired n s"
  using fixed_lpradr [of s t n] by (simp add: fixed_def wired_def Let_def)

lemma gives_wired: "gives cont n s r t \<Longrightarrow> wired n s \<Longrightarrow> wired n t"
  using fixed_wired [of s t n] by (simp add: gives_def)

lemma gives_trans:
  assumes "gives cont n s (f, xs) t" "gives cont n t (g, ys) u"
  shows "gives cont n s (g, xs @ ys) u"
  using assms by (auto simp: gives_def intro: fixed_trans)

lemma keeps_trans:
  assumes "gives cont n s r t" "keeps cont n t u"
  shows "gives cont n s r u"
  using assms by (auto simp: gives_def intro: fixed_trans)

lemma keeps_first:
  assumes "keeps cont n s t" "gives cont n t r u"
  shows "gives cont n s r u"
  using assms by (auto simp: gives_def intro: fixed_trans)

lemma port_simps [simp]:
  "Port (upd_port n f s) k = (if k = n then f (Port s n) else Port s k)" "hpcpu (upd_port n f s) = hpcpu s"
  "lp_status (upd_port n f s) = lp_status s" "lp_irq (upd_port n f s) = lp_irq s" "outs (upd_port n f s) = outs s"
  "Port (outb a v s) = Port s" "hpcpu (outb a v s) = hpcpu s" "lp_status (outb a v s) = lp_status s" "lp_irq (outb a v s) = lp_irq s"
  "outs (outb a v s) = outs s @ [(a, v)]" "lpradr (upd_port n f s) k = lpradr s k" "lpradr (outb a v s) k = lpradr s k"
  by (simp_all add: upd_port_def outb_def lpradr_def)

text \<open>Writing to another channel, and changing what is not part of the position.\<close>

lemma keeps_outb: "a \<noteq> Output (Port s (lpradr s n)) \<Longrightarrow> keeps cont n s (outb a v s)"
  by (simp add: gives_def fixed_def fmt_of_def stream_def sent_def Let_def)

lemma keeps_disable: "wired n s \<Longrightarrow> keeps cont n s (lp_disable n s)"
  unfolding lp_disable_def by (rule keeps_outb) (simp add: wired_def Let_def)

lemma keeps_other:
  assumes "Port t = Port s" "hpcpu t = hpcpu s" "lp_status t = lp_status s" "lp_irq t = lp_irq s" "outs t = outs s"
  shows "keeps cont n s t"
proof -
  have "lpradr t n = lpradr s n" using assms(2) by (simp add: lpradr_def)
  then show ?thesis using assms by (simp add: gives_def fixed_def fmt_of_def stream_def sent_def Let_def)
qed

lemma keeps_cyc: "keeps cont n s (upd_port n (\<lambda>p. p\<lparr>cyc_started := v\<rparr>) s)"
  by (simp add: gives_def fixed_def fmt_of_def stream_def sent_def Let_def)

lemma keeps_aslp:
  "keeps cont n s (upd_lp n (\<lambda>d. d\<lparr>lp_flag := lp_flag d AND NOT ASLP\<rparr>) s)"
  "keeps cont n s (upd_lp n (\<lambda>d. d\<lparr>lp_flag := lp_flag d OR ASLP\<rparr>) s)"
proof -
  have a: "(x AND - 65) AND 32 = x AND 32" for x :: byte by (simp add: and.assoc)
  have b: "(x OR ASLP) AND NOCR = x AND NOCR" for x :: byte
    by (simp add: bit.conj_disj_distrib2)
  show "keeps cont n s (upd_lp n (\<lambda>d. d\<lparr>lp_flag := lp_flag d AND NOT ASLP\<rparr>) s)"
    by (simp add: upd_lp_def gives_def fixed_def fmt_of_def stream_def sent_def Let_def a)
  show "keeps cont n s (upd_lp n (\<lambda>d. d\<lparr>lp_flag := lp_flag d OR ASLP\<rparr>) s)"
    by (simp add: upd_lp_def gives_def fixed_def fmt_of_def stream_def sent_def Let_def b)
qed

lemma keeps_poll: "lp_poll k a x s = (y, t) \<Longrightarrow> keeps cont n s t"
proof (induction k arbitrary: x s)
  case 0
  then show ?case by (auto intro: keeps_other)
next
  case (Suc k)
  have k: "keeps cont n s (snd (inb a s))" by (simp add: inb_def) (rule keeps_other, simp_all)
  show ?case
  proof (cases "fst (inb a s) AND LPBUSY = 0")
    case True
    then show ?thesis using Suc.prems Suc.IH [of "fst (inb a s)" "snd (inb a s)"] keeps_trans [OF k]
      by (simp add: case_prod_unfold Let_def)
  next
    case False
    then show ?thesis using Suc.prems k by (simp add: case_prod_unfold Let_def)
  qed
qed

text \<open>A character moves from the queue to the printer.\<close>

lemma send_char_simps:
  "hpcpu (send_char n b c s) = hpcpu s" "lp_status (send_char n b c s) = lp_status s" "lp_irq (send_char n b c s) = lp_irq s"
  "Output (Port (send_char n b c s) k) = Output (Port s k)" "Control (Port (send_char n b c s) k) = Control (Port s k)"
  "ControlSel (Port (send_char n b c s) k) = ControlSel (Port s k)" "Lpr_type (Port (send_char n b c s) k) = Lpr_type (Port s k)"
  "lpr_data (Port (send_char n b c s) k) = lpr_data (Port s k)"
  "outs (send_char n b c s) = outs s @ (Output (Port s (lpradr s n)), c) #
     (if b then [(Control (Port s (lpradr s n)), 14), (Control (Port s (lpradr s n)), 15)] else [])"
  by (simp_all add: send_char_def Let_def)

lemma upd_lp_simps [simp]:
  "hpcpu (upd_lp n f s) = hpcpu s" "lp_status (upd_lp n f s) = lp_status s" "lp_irq (upd_lp n f s) = lp_irq s"
  "Output (Port (upd_lp n f s) k) = Output (Port s k)" "Control (Port (upd_lp n f s) k) = Control (Port s k)"
  "ControlSel (Port (upd_lp n f s) k) = ControlSel (Port s k)" "Lpr_type (Port (upd_lp n f s) k) = Lpr_type (Port s k)"
  "lpr_data (Port (upd_lp n f s) k) = (if k = n then f (lp_data s n) else lpr_data (Port s k))" "outs (upd_lp n f s) = outs s"
  "lpradr (upd_lp n f s) k = lpradr s k"
  by (simp_all add: upd_lp_def)

lemma keeps_send:
  assumes "fifo ops cont" "wired n s" "getc ops (l_outq (lp_data s n)) = (c, q)" "c \<ge> 0"
  shows "keeps cont n s (send_char n b c (upd_lp n (\<lambda>d. d\<lparr>l_outq := q\<rparr>) s))" (is "keeps _ _ _ ?t")
proof -
  have q: "cont (l_outq (lp_data s n)) = c # cont q" using fifo_getc(1) [OF assms(1,3,4)] .
  have l: "lpradr ?t n = lpradr s n" by (simp add: lpradr_def send_char_simps)
  have "sent n ?t = sent n s @ [c]" using assms(2) unfolding sent_def l by (simp add: send_char_simps wired_def Let_def)
  then have "stream cont n ?t = stream cont n s" using q by (simp add: stream_def send_char_simps)
  then show ?thesis by (simp add: gives_def fixed_def fmt_of_def send_char_simps Let_def)
qed

lemma keeps_getc_none:
  assumes "fifo ops cont" "getc ops (l_outq (lp_data s n)) = (c, q)" "c < 0"
  shows "keeps cont n s (upd_lp n (\<lambda>d. d\<lparr>l_outq := q\<rparr>) s)"
  using fifo_getc(2) [OF assms]
  by (simp add: upd_lp_def gives_def fixed_def fmt_of_def stream_def sent_def Let_def)


section \<open>Sending keeps the stream\<close>

lemma keeps_refl: "keeps cont n s s"
  by (rule keeps_other) simp_all

text \<open>One turn of either loop of \<open>printc\<close>, after the status was read.\<close>

lemma keeps_turn:
  assumes "fifo ops cont" "keeps cont n s u" "wired n s" "getc ops (l_outq (lp_data u n)) = (c, q)"
    and "c \<ge> 0 \<Longrightarrow> wired n (send_char n b c (upd_lp n (\<lambda>d. d\<lparr>l_outq := q\<rparr>) u)) \<Longrightarrow> keeps cont n (send_char n b c (upd_lp n (\<lambda>d. d\<lparr>l_outq := q\<rparr>) u)) t"
    and "c < 0 \<Longrightarrow> t = upd_lp n (\<lambda>d. d\<lparr>l_outq := q\<rparr>) u"
  shows "keeps cont n s t"
proof -
  have w: "wired n u" by (rule gives_wired [OF assms(2,3)])
  show ?thesis
  proof (cases "c \<ge> 0")
    case True
    have k: "keeps cont n u (send_char n b c (upd_lp n (\<lambda>d. d\<lparr>l_outq := q\<rparr>) u))" by (rule keeps_send [OF assms(1) w assms(4) True])
    show ?thesis by (rule keeps_trans [OF keeps_trans [OF assms(2) k] assms(5) [OF True gives_wired [OF k w]]])
  next
    case False
    then have c: "c < 0" by simp
    show ?thesis unfolding assms(6) [OF c] by (rule keeps_trans [OF assms(2) keeps_getc_none [OF assms(1,4) c]])
  qed
qed

lemma printc_cent_keeps:
  assumes "printc_cent ops n s = Some t" "fifo ops cont" "wired n s"
  shows "keeps cont n s t"
  using assms
proof (induction rule: printc_cent.raw_induct [rotated, consumes 1])
  case (1 f ops n s t)
  obtain x u where u: "lp_poll LINGER (Control (Port s (lpradr s n))) 0 s = (x, u)" by fastforce
  have k: "keeps cont n s u" by (rule keeps_poll [OF u])
  obtain c q where c: "getc ops (l_outq (lp_data u n)) = (c, q)" by fastforce
  show ?case
  proof (cases "x AND LPBUSY = 0")
    case True
    then show ?thesis using 1(2) u k by simp
  next
    case False
    show ?thesis by (rule keeps_turn [OF 1(3) k 1(4) c, of True]) (use 1(1,2,3) u c False in \<open>auto split: if_splits\<close>)
  qed
qed

lemma printc_data_keeps:
  assumes "printc_data ops n s = Some t" "fifo ops cont" "wired n s"
  shows "keeps cont n s t"
  using assms
proof (induction rule: printc_data.raw_induct [rotated, consumes 1])
  case (1 f ops n s t)
  obtain x u where u: "inb (Control (Port s (lpradr s n))) s = (x, u)" by fastforce
  have k: "keeps cont n s u" using u by (auto simp: inb_def intro: keeps_other)
  obtain c q where c: "getc ops (l_outq (lp_data u n)) = (c, q)" by fastforce
  show ?case
  proof (cases "x AND DDEMAND = 0")
    case True
    then show ?thesis using 1(2) u k by simp
  next
    case False
    show ?thesis by (rule keeps_turn [OF 1(3) k 1(4) c, of False]) (use 1(1,2,3) u c False in \<open>auto split: if_splits\<close>)
  qed
qed

lemma printc_keeps: "printc ops n s = Some t \<Longrightarrow> fifo ops cont \<Longrightarrow> wired n s \<Longrightarrow> keeps cont n s t"
  by (auto simp: printc_def printc_cent_keeps printc_data_keeps split: if_splits)

lemma lp_vector_intvec: "n \<le> 2 \<Longrightarrow> lp_vector (intvec n) = Some n"
  by (auto simp: lp_vector_def intvec_def)

lemma wiredD: "wired n s \<Longrightarrow> Control (Port s (lpradr s n)) \<noteq> Output (Port s (lpradr s n))"
  "wired n s \<Longrightarrow> ControlSel (Port s (lpradr s n)) \<noteq> Output (Port s (lpradr s n))"
  by (simp_all add: wired_def Let_def)

lemma fixed_hp:
  assumes "fixed s t"
  shows "Control (Port t (lpradr t n)) = Control (Port s (lpradr s n))" "ControlSel (Port t (lpradr t n)) = ControlSel (Port s (lpradr s n))"
    "Output (Port t (lpradr t n)) = Output (Port s (lpradr s n))"
  using assms fixed_lpradr [OF assms, of n] by (simp_all add: fixed_def)

lemma keeps_then_outb:
  assumes "gives cont n s r u" "wired n s" "a = Control (Port s (lpradr s n)) \<or> a = ControlSel (Port s (lpradr s n))"
  shows "gives cont n s r (outb a v u)"
proof (rule keeps_trans [OF assms(1) keeps_outb])
  have "fixed s u" using assms(1) by (simp add: gives_def)
  then show "a \<noteq> Output (Port u (lpradr u n))" using assms(2,3) fixed_hp [of s u n] wiredD [of n s] by auto
qed

lemma lpr_int_keeps:
  assumes "lpr_int ops (intvec n) s = Some t" "n \<le> 2" "fifo ops cont" "wired n s"
  shows "keeps cont n s t"
proof -
  let ?C = "Control (Port s (lpradr s n))" and ?S = "ControlSel (Port s (lpradr s n))"
  let ?a = "s\<lparr>last_int_serv := 9\<rparr>"
  let ?b = "upd_port n (\<lambda>p. p\<lparr>cyc_started := 0\<rparr>) (outb ?S LPDISABLE ?a)"
  let ?d = "\<lambda>u. if c_cc ops (l_outq (lp_data u n)) \<le> LPLOWAT \<and> lp_flag (lp_data u n) AND ASLP \<noteq> 0
    then upd_lp n (\<lambda>d. d\<lparr>lp_flag := lp_flag d AND NOT ASLP\<rparr>) u else u"
  have l: "lpradr ?a n = lpradr s n" by (simp add: lpradr_def)
  obtain u where u: "printc ops n ?b = Some u"
    "t = (if cyc_started (Port (?d u) n) \<noteq> 0 then outb ?C LPRAISE (outb ?C LPLOWER (outb ?S LPENABLE (?d u))) else outb ?S LPENABLE (?d u))"
    using assms(1) by (auto simp: lpr_int_def lp_vector_intvec [OF assms(2)] do_Some l Let_def)
  have a: "keeps cont n s ?a" by (rule keeps_other) simp_all
  have b: "keeps cont n s ?b" by (rule keeps_trans [OF keeps_then_outb [OF a assms(4)] keeps_cyc]) simp
  have c: "keeps cont n s u" by (rule keeps_trans [OF b printc_keeps [OF u(1) assms(3) gives_wired [OF b assms(4)]]])
  have d: "keeps cont n s (?d u)" using c keeps_trans [OF c keeps_aslp(1)] by simp
  show ?thesis unfolding u(2) using d assms(4) by (auto intro!: keeps_then_outb)
qed

lemma lp_point_keeps:
  assumes "lp_point ops n s = Some t" "n \<le> 2" "fifo ops cont" "wired n s"
  shows "keeps cont n s t"
proof -
  let ?u = "s\<lparr>n_irq := n_irq s + 1\<rparr>"
  have u: "keeps cont n s ?u" by (rule keeps_other) simp_all
  show ?thesis
    using assms(1) u keeps_trans [OF u lpr_int_keeps [OF _ assms(2,3) gives_wired [OF u assms(4)]]]
    by (auto simp: lp_point_def Let_def split: if_splits)
qed

lemma lp_sleep_keeps:
  assumes "lp_sleep ops n s = Some t" "n \<le> 2" "fifo ops cont" "wired n s"
  shows "keeps cont n s t"
  using assms
proof (induction rule: lp_sleep.raw_induct [rotated, consumes 1])
  case (1 f ops n s t)
  show ?case
  proof (cases "lp_flag (lp_data s n) AND ASLP = 0")
    case True
    then show ?thesis using 1(2) keeps_refl by simp
  next
    case False
    then obtain u where u: "lpr_int ops (intvec n) s = Some u" "f ops n u = Some t" using 1(2) by (auto simp: do_Some)
    have k: "keeps cont n s u" by (rule lpr_int_keeps [OF u(1) 1(3-5)])
    show ?thesis by (rule keeps_trans [OF k 1(1) [OF u(2) 1(3,4) gives_wired [OF k 1(5)]]])
  qed
qed

lemma lp_kick_keeps:
  assumes "lp_kick ops n s = Some t" "n \<le> 2" "fifo ops cont" "wired n s"
  shows "keeps cont n s t"
proof -
  let ?C = "Control (Port s (lpradr s n))" and ?S = "ControlSel (Port s (lpradr s n))"
  obtain u where u: "lp_point ops n (outb ?S LPENABLE s) = Some u" "lp_point ops n (outb ?C LPRAISE (outb ?C LPLOWER u)) = Some t"
    using assms(1) by (auto simp: lp_kick_def Let_def do_Some)
  have a: "keeps cont n s (outb ?S LPENABLE s)" by (rule keeps_then_outb [OF keeps_refl assms(4)]) simp
  have b: "keeps cont n s u" by (rule keeps_trans [OF a lp_point_keeps [OF u(1) assms(2,3) gives_wired [OF a assms(4)]]])
  have c: "keeps cont n s (outb ?C LPRAISE (outb ?C LPLOWER u))" by (intro keeps_then_outb b assms(4)) simp_all
  show ?thesis by (rule keeps_trans [OF c lp_point_keeps [OF u(2) assms(2,3) gives_wired [OF c assms(4)]]])
qed

lemma lp_flood_keeps:
  assumes "lp_flood ops n s = Some t" "n \<le> 2" "fifo ops cont" "wired n s"
  shows "keeps cont n s t"
  using assms
proof (induction rule: lp_flood.raw_induct [rotated, consumes 1])
  case (1 f ops n s t)
  show ?case
  proof (cases "c_cc ops (l_outq (lp_data s n)) \<le> LPHIWAT")
    case True
    then show ?thesis using 1(2) keeps_refl by simp
  next
    case False
    then obtain u where u: "printc ops n s = Some u" using 1(2) by (auto simp: do_Some)
    let ?v = "upd_lp n (\<lambda>d. d\<lparr>lp_flag := lp_flag d OR ASLP\<rparr>) u"
    let ?C = "Control (Port ?v (lpradr ?v n))" and ?S = "ControlSel (Port ?v (lpradr ?v n))"
    let ?w = "outb ?C LPRAISE (outb ?C LPLOWER (outb ?S LPENABLE ?v))"
    obtain x where x: "lp_sleep ops n ?w = Some x" "f ops n (lp_disable n x) = Some t"
      using False 1(2) u by (auto simp: do_Some Let_def)
    have v: "keeps cont n s ?v" by (rule keeps_trans [OF printc_keeps [OF u 1(4,5)] keeps_aslp(2)])
    have wv: "wired n ?v" by (rule gives_wired [OF v 1(5)])
    have "keeps cont n ?v ?w" by (intro keeps_then_outb keeps_refl wv) simp_all
    then have w: "keeps cont n s ?w" by (rule keeps_trans [OF v])
    have xx: "keeps cont n s x" by (rule keeps_trans [OF w lp_sleep_keeps [OF x(1) 1(3,4) gives_wired [OF w 1(5)]]])
    have d: "keeps cont n s (lp_disable n x)" by (rule keeps_trans [OF xx keeps_disable [OF gives_wired [OF xx 1(5)]]])
    show ?thesis by (rule keeps_trans [OF d 1(1) [OF x(2) 1(3,4) gives_wired [OF d 1(5)]]])
  qed
qed


section \<open>The driver edits\<close>

lemma gives_same: "fmt_of n s = f \<Longrightarrow> gives cont n s (f, []) s"
  using keeps_refl [of cont n s] by simp

lemma gives_putc:
  assumes "gives cont n s (f, xs) u" "fifo ops cont"
  shows "gives cont n s (f, xs @ [c]) (lp_putc ops n c u)"
proof -
  have "gives cont n u (fmt_of n u, [c]) (lp_putc ops n c u)"
    using fifoD(1) [OF assms(2)] by (simp add: gives_def lp_putc_def fixed_def fmt_of_def stream_def sent_def Let_def)
  moreover have "fmt_of n u = f" using assms(1) by (simp add: gives_def)
  ultimately show ?thesis using gives_trans [OF assms(1), of f "[c]"] by simp
qed

text \<open>A change of the counters.\<close>

lemma gives_upd:
  assumes "gives cont n s (f, xs) u" "l_outq (h (lp_data u n)) = l_outq (lp_data u n)" "fmt_of n (upd_lp n h u) = g"
  shows "gives cont n s (g, xs) (upd_lp n h u)"
proof -
  have "gives cont n u (g, []) (upd_lp n h u)" using assms(2,3) by (simp add: gives_def fixed_def stream_def sent_def)
  then show ?thesis using gives_trans [OF assms(1), of g "[]"] by simp
qed

lemma fmt_upd:
  "fmt_of n (upd_lp n (\<lambda>d. d\<lparr>ccc := k d\<rparr>) u) = (fmt_of n u)\<lparr>f_ccc := k (lp_data u n)\<rparr>"
  "fmt_of n (upd_lp n (\<lambda>d. d\<lparr>mcc := k d\<rparr>) u) = (fmt_of n u)\<lparr>f_mcc := k (lp_data u n)\<rparr>"
  "fmt_of n (upd_lp n (\<lambda>d. d\<lparr>mlc := k d\<rparr>) u) = (fmt_of n u)\<lparr>f_mlc := k (lp_data u n)\<rparr>"
  by (simp_all add: fmt_of_def Let_def)

lemma fmt_simps:
  "Lpr_type (Port u n) = f_type (fmt_of n u)" "lp_flag (lp_data u n) AND NOCR = f_nocr (fmt_of n u)"
  "lp_ind (lp_data u n) = f_ind (fmt_of n u)" "ccc (lp_data u n) = f_ccc (fmt_of n u)" "mcc (lp_data u n) = f_mcc (fmt_of n u)"
  "mlc (lp_data u n) = f_mlc (fmt_of n u)" "lp_line (lp_data u n) = f_line (fmt_of n u)" "lp_col (lp_data u n) = f_col (fmt_of n u)"
  by (simp_all add: fmt_of_def Let_def)

lemma gives_fmt: "gives cont n s (f, xs) u \<Longrightarrow> fmt_of n u = f"
  by (simp add: gives_def)

lemma gives_ccc:
  assumes "gives cont n s (f, xs) u"
  shows "gives cont n s (f\<lparr>f_ccc := k (lp_data u n)\<rparr>, xs) (upd_lp n (\<lambda>d. d\<lparr>ccc := k d\<rparr>) u)"
    "gives cont n s (f\<lparr>f_mcc := k (lp_data u n)\<rparr>, xs) (upd_lp n (\<lambda>d. d\<lparr>mcc := k d\<rparr>) u)"
    "gives cont n s (f\<lparr>f_mlc := k (lp_data u n)\<rparr>, xs) (upd_lp n (\<lambda>d. d\<lparr>mlc := k d\<rparr>) u)"
  by (rule gives_upd [OF assms], simp_all add: fmt_upd gives_fmt [OF assms])+

lemma flush_gives:
  assumes "gives cont n s r u" "printc ops n (lp_disable n u) = Some v" "lp_kick ops n v = Some t" "n \<le> 2" "fifo ops cont" "wired n s"
  shows "gives cont n s r t"
proof -
  have wu: "wired n u" by (rule gives_wired [OF assms(1,6)])
  have d: "keeps cont n u (lp_disable n u)" by (rule keeps_disable [OF wu])
  have v: "keeps cont n u v" by (rule keeps_trans [OF d printc_keeps [OF assms(2,5) gives_wired [OF d wu]]])
  show ?thesis by (rule keeps_trans [OF keeps_trans [OF assms(1) v] lp_kick_keeps [OF assms(3-5) gives_wired [OF v wu]]])
qed

lemma lp_cr_gives:
  assumes "gives cont n s (f, xs) u" "lp_cr ops n c u = Some t" "n \<le> 2" "fifo ops cont" "wired n s"
  shows "gives cont n s (if c = 13 then (f\<lparr>f_ccc := f_ind f, f_mcc := 0\<rparr>, xs @ [13]) else (f\<lparr>f_ccc := f_ind f\<rparr>, xs)) t"
proof -
  let ?a = "upd_lp n (\<lambda>d. d\<lparr>ccc := lp_ind d\<rparr>) u"
  let ?b = "if c = 13 then upd_lp n (\<lambda>d. d\<lparr>mcc := 0\<rparr>) (lp_putc ops n c ?a) else ?a"
  obtain v where v: "printc ops n (lp_disable n ?b) = Some v" "lp_kick ops n v = Some t"
    using assms(2) by (auto simp: lp_cr_def Let_def do_Some)
  have a: "gives cont n s (f\<lparr>f_ccc := f_ind f\<rparr>, xs) ?a" using gives_ccc(1) [OF assms(1), of lp_ind] by (simp add: fmt_simps gives_fmt [OF assms(1)])
  have "gives cont n s (if c = 13 then (f\<lparr>f_ccc := f_ind f, f_mcc := 0\<rparr>, xs @ [13]) else (f\<lparr>f_ccc := f_ind f\<rparr>, xs)) ?b"
    using a gives_ccc(2) [OF gives_putc [OF a assms(4), of 13], of "\<lambda>_. 0"] by simp
  then show ?thesis by (rule flush_gives [OF _ v assms(3-5)])
qed

lemma lp_form_gives:
  assumes "gives cont n s (f, xs) u" "lp_form ops n c u = Some t" "c \<noteq> 13" "n \<le> 2" "fifo ops cont" "wired n s"
  shows "gives cont n s (fst (edit_form c f), xs @ snd (edit_form c f)) t"
proof -
  let ?a = "upd_lp n (\<lambda>d. d\<lparr>mcc := 0\<rparr>) u"
  have a: "gives cont n s (f\<lparr>f_mcc := 0\<rparr>, xs) ?a" using gives_ccc(2) [OF assms(1), of "\<lambda>_. 0"] by simp
  let ?x = "if Lpr_type (Port ?a n) = CENTRON then lp_putc ops n 13 ?a else ?a"
  let ?b = "if c = FORM then upd_lp n (\<lambda>d. d\<lparr>mlc := 0\<rparr>) ?x else ?a"
  let ?c = "if mlc (lp_data ?a n) \<noteq> 0 then lp_putc ops n c ?b else ?a"
  have t: "lp_cr ops n c ?c = Some t" using assms(2) unfolding lp_form_def Let_def .
  have ty: "Lpr_type (Port ?a n) = f_type f" "mlc (lp_data ?a n) = f_mlc f" using gives_fmt [OF assms(1)] by (auto simp: fmt_of_def Let_def)
  have x: "gives cont n s (f\<lparr>f_mcc := 0\<rparr>, xs @ (if f_type f = CENTRON then [13] else [])) ?x"
    using a gives_putc [OF a assms(5), of 13] ty by simp
  have b: "gives cont n s (if c = FORM then (f\<lparr>f_mcc := 0, f_mlc := 0\<rparr>, xs @ (if f_type f = CENTRON then [13] else [])) else (f\<lparr>f_mcc := 0\<rparr>, xs)) ?b"
    using a gives_ccc(3) [OF x, of "\<lambda>_. 0"] by simp
  let ?f = "f\<lparr>f_mcc := 0, f_mlc := (if c = FORM then 0 else f_mlc f)\<rparr>"
  have "gives cont n s (?f, xs @ snd (edit_form c f)) ?c"
  proof (cases "f_mlc f = 0")
    case True
    then have ff: "?f = f\<lparr>f_mcc := 0\<rparr>" by (cases f) simp
    show ?thesis unfolding ff using a ty True by (simp add: edit_form_def)
  next
    case False
    have ff: "f\<lparr>f_mcc := 0, f_mlc := f_mlc f\<rparr> = f\<lparr>f_mcc := 0\<rparr>" by (cases f) simp
    have "gives cont n s (?f, xs @ (if c = FORM \<and> f_type f = CENTRON then [13] else [])) ?b"
      using b by (simp add: ff split: if_splits)
    from gives_putc [OF this assms(5), of c] show ?thesis unfolding ty using False
      by (simp add: edit_form_def split: if_splits)
  qed
  from lp_cr_gives [OF this t assms(4-6)] assms(3) show ?thesis by (simp add: edit_form_def)
qed

lemma lp_blanks_gives:
  assumes "gives cont n s (f, xs) u" "fifo ops cont"
  shows "gives cont n s (f\<lparr>f_mcc := ((\<lambda>m. s16 (m + 1)) ^^ k) (f_mcc f)\<rparr>, xs @ replicate k 32) (lp_blanks ops n k u)"
  using assms(1)
proof (induction k arbitrary: u f xs)
  case (Suc k)
  let ?v = "lp_putc ops n 32 u"
  have v: "gives cont n s (f, xs @ [32]) ?v" by (rule gives_putc [OF Suc.prems assms(2)])
  have "mcc (lp_data ?v n) = f_mcc f" using gives_fmt [OF v] by (auto simp: fmt_of_def Let_def)
  then have w: "gives cont n s (f\<lparr>f_mcc := s16 (f_mcc f + 1)\<rparr>, xs @ [32]) (upd_lp n (\<lambda>d. d\<lparr>mcc := s16 (mcc d + 1)\<rparr>) ?v)"
    using gives_ccc(2) [OF v, of "\<lambda>d. s16 (mcc d + 1)"] by simp
  have r: "replicate (Suc k) (32 :: int) = 32 # replicate k 32" by simp
  have fs: "s16 (((\<lambda>m. s16 (m + 1)) ^^ k) x + 1) = ((\<lambda>m. s16 (m + 1)) ^^ k) (s16 (x + 1))" for x by (induction k) auto
  from Suc.IH [OF w] show ?case unfolding lp_blanks.simps r by (simp add: fs)
qed simp

lemma lp_char_gives:
  assumes "fifo ops cont" "f = fmt_of n s"
  shows "gives cont n s (edit_char c f) (lp_char ops n c s)"
proof -
  let ?over = "f_ccc f < f_mcc f"
  have s0: "gives cont n s (f, []) s" by (rule gives_same) (simp add: assms(2))
  have fs: "ccc (lp_data s n) = f_ccc f" "mcc (lp_data s n) = f_mcc f" "lp_flag (lp_data s n) AND NOCR = f_nocr f"
    by (simp_all add: assms(2) fmt_simps)
  have up: "gives cont n s (g\<lparr>f_ccc := s16 (f_ccc g + 1)\<rparr>, xs) (upd_lp n (\<lambda>d. d\<lparr>ccc := s16 (ccc d + 1)\<rparr>) u)"
    if "gives cont n s (g, xs) u" for g xs u
    using gives_ccc(1) [OF that, of "\<lambda>d. s16 (ccc d + 1)"] gives_fmt [OF that] by (simp add: fmt_simps)
  show ?thesis
  proof (cases "?over \<and> f_nocr f \<noteq> 0")
    case True
    then show ?thesis using up [OF s0] fs by (simp add: lp_char_def edit_char_def Let_def)
  next
    case False
    let ?m = "if ?over then 0 else f_mcc f" and ?cr = "if ?over then [13] else []"
    let ?u = "if ?over then upd_lp n (\<lambda>d. d\<lparr>mcc := 0\<rparr>) (lp_putc ops n 13 s) else s"
    let ?f = "f\<lparr>f_mcc := ?m\<rparr>"
    have sf: "f\<lparr>f_mcc := f_mcc f\<rparr> = f" by (cases f) simp
    have u: "gives cont n s (?f, ?cr) ?u"
      using s0 gives_ccc(2) [OF gives_putc [OF s0 assms(1), of 13], of "\<lambda>_. 0"] sf by simp
    have fu: "ccc (lp_data ?u n) = f_ccc f" "mcc (lp_data ?u n) = ?m" "lp_col (lp_data ?u n) = f_col f"
      using gives_fmt [OF u] by (simp_all add: fmt_simps del: upd_lp_simps)
    have e: "lp_char ops n c s = upd_lp n (\<lambda>d. d\<lparr>ccc := s16 (ccc d + 1)\<rparr>)
       (if f_ccc f < f_col f then upd_lp n (\<lambda>d. d\<lparr>mcc := s16 (mcc d + 1)\<rparr>) (lp_putc ops n c (lp_blanks ops n (nat (f_ccc f - ?m)) ?u)) else ?u)"
      using False unfolding lp_char_def Let_def fs fu by auto
    let ?k = "nat (f_ccc f - ?m)"
    let ?v = "lp_putc ops n c (lp_blanks ops n ?k ?u)"
    have v: "gives cont n s (?f\<lparr>f_mcc := ((\<lambda>m. s16 (m + 1)) ^^ ?k) ?m\<rparr>, ?cr @ replicate ?k 32 @ [c]) ?v"
      using gives_putc [OF lp_blanks_gives [OF u assms(1), of ?k] assms(1), of c] by simp
    have w: "gives cont n s (?f\<lparr>f_mcc := s16 (((\<lambda>m. s16 (m + 1)) ^^ ?k) ?m + 1)\<rparr>, ?cr @ replicate ?k 32 @ [c])
        (upd_lp n (\<lambda>d. d\<lparr>mcc := s16 (mcc d + 1)\<rparr>) ?v)"
      using gives_ccc(2) [OF v, of "\<lambda>d. s16 (mcc d + 1)"] gives_fmt [OF v] by (simp add: fmt_simps del: upd_lp_simps)
    have fc: "f\<lparr>f_ccc := a, f_mcc := b\<rparr> = f\<lparr>f_mcc := b, f_ccc := a\<rparr>" for a b by (cases f) simp
    show ?thesis
    proof (cases "f_ccc f < f_col f")
      case True
      then show ?thesis unfolding e edit_char_def Let_def fc using False up [OF w] by (auto simp: fc)
    next
      case False': False
      then show ?thesis unfolding e edit_char_def Let_def fc using False up [OF u] by (auto simp: fc)
    qed
  qed
qed


lemma lp_output_gives:
  assumes "lp_output ops n c s = Some t" "n \<le> 2" "fifo ops cont" "wired n s"
  shows "gives cont n s (edit c (fmt_of n s)) t"
proof -
  let ?f = "fmt_of n s"
  have s0: "gives cont n s (?f, []) s" by (rule gives_same) simp
  have pos: "Lpr_type (Port s n) = f_type ?f" "lp_ind (lp_data s n) = f_ind ?f" "ccc (lp_data s n) = f_ccc ?f"
    "mcc (lp_data s n) = f_mcc ?f" "mlc (lp_data s n) = f_mlc ?f"
    by (simp_all add: fmt_simps)
  consider (raw) "is_raw (f_type ?f)" | (tab) "\<not> is_raw (f_type ?f)" "c = 9" | (nl) "\<not> is_raw (f_type ?f)" "c = 10"
    | (form) "\<not> is_raw (f_type ?f)" "c = FORM" | (cr) "\<not> is_raw (f_type ?f)" "c = 13"
    | (bs) "\<not> is_raw (f_type ?f)" "c = 8" | (blank) "\<not> is_raw (f_type ?f)" "c = 32"
    | (char) "\<not> is_raw (f_type ?f)" "c \<notin> {9, 10, FORM, 13, 8, 32}" by blast
  then show ?thesis
  proof cases
    case raw
    then have t: "t = upd_lp n (\<lambda>d. d\<lparr>mcc := s16 (mcc d + 1), ccc := s16 (ccc d + 1)\<rparr>) (lp_putc ops n c s)"
      using assms(1) by (simp add: lp_output_def pos)
    show ?thesis unfolding t using raw
      by (simp add: edit_def) (rule gives_upd [OF gives_putc [OF s0 assms(3), of c, simplified]], simp_all add: fmt_of_def lp_putc_def Let_def)
  next
    case tab
    then show ?thesis using assms(1) gives_ccc(1) [OF s0, of "\<lambda>d. s16 (s16 (ccc d + 8 - lp_ind d) div 8 * 8 + lp_ind d)"]
      by (simp add: lp_output_def edit_def pos)
  next
    case nl
    let ?u = "upd_lp n (\<lambda>d. d\<lparr>mlc := s16 (mlc d + 1)\<rparr>) s" and ?g = "?f\<lparr>f_mlc := s16 (f_mlc ?f + 1)\<rparr>"
    have u: "gives cont n s (?g, []) ?u" using gives_ccc(3) [OF s0, of "\<lambda>d. s16 (mlc d + 1)"] by (simp add: pos)
    have pu: "lp_line (lp_data ?u n) = f_line ?g" "mlc (lp_data ?u n) = f_mlc ?g" "Lpr_type (Port ?u n) = f_type ?g"
      using gives_fmt [OF u] by (simp_all add: fmt_simps del: upd_lp_simps)
    show ?thesis
    proof (cases "f_line ?g \<noteq> 0 \<and> f_mlc ?g \<ge> f_line ?g")
      case True
      then have "lp_form ops n FORM ?u = Some t" using nl assms(1) unfolding lp_output_def Let_def pu pos by simp
      from lp_form_gives [OF u this _ assms(2-4)] show ?thesis using nl True by (simp add: edit_def Let_def)
    next
      case False
      let ?w = "if f_type ?g = CENTRON then lp_putc ops n 13 ?u else ?u"
      have w: "gives cont n s (?g, if f_type ?g = CENTRON then [13] else []) ?w"
        using u gives_putc [OF u assms(3), of 13] by simp
      have "lp_form ops n 10 ?w = Some t" using nl assms(1) False unfolding lp_output_def Let_def pu pos by auto
      from lp_form_gives [OF w this _ assms(2-4)] show ?thesis using nl False
        by (auto simp: edit_def Let_def case_prod_unfold)
    qed
  next
    case form
    then have "lp_form ops n FORM s = Some t" using assms(1) by (simp add: lp_output_def pos)
    from lp_form_gives [OF s0 this _ assms(2-4)] show ?thesis using form by (simp add: edit_def)
  next
    case cr
    then have "lp_cr ops n 13 s = Some t" using assms(1) by (simp add: lp_output_def pos)
    from lp_cr_gives [OF s0 this assms(2-4)] show ?thesis using cr by (simp add: edit_def)
  next
    case bs
    then show ?thesis using assms(1) s0 gives_ccc(1) [OF s0, of "\<lambda>d. s16 (ccc d - 1)"]
      by (auto simp: lp_output_def edit_def pos split: if_splits)
  next
    case blank
    then show ?thesis using assms(1) gives_ccc(1) [OF s0, of "\<lambda>d. s16 (ccc d + 1)"]
      by (simp add: lp_output_def edit_def pos)
  next
    case char
    then have "t = lp_char ops n c s" "edit c ?f = edit_char c ?f" using assms(1) by (auto simp: lp_output_def edit_def pos)
    then show ?thesis using lp_char_gives [OF assms(3) refl, of n s c] by simp
  qed
qed

lemma lp_chars_gives:
  assumes "lp_chars ops n cs s = Some t" "n \<le> 2" "fifo ops cont" "wired n s"
  shows "gives cont n s (edits cs (fmt_of n s)) t"
  using assms(1,4)
proof (induction cs arbitrary: s)
  case Nil
  then show ?case using keeps_refl [of cont n s] by simp
next
  case (Cons c cs)
  obtain u where u: "lp_flood ops n (lp_disable n s) = Some u" using Cons.prems(1) by (auto simp: do_Some)
  let ?e = "outb (ControlSel (Port u (lpradr u n))) LPENABLE u"
  obtain v where v: "lp_point ops n ?e = Some v" using Cons.prems(1) u by (auto simp: do_Some)
  have d: "keeps cont n s (lp_disable n s)" by (rule keeps_disable [OF Cons.prems(2)])
  have ku: "keeps cont n s u"
    by (rule keeps_trans [OF d lp_flood_keeps [OF u assms(2,3) gives_wired [OF d Cons.prems(2)]]])
  have "keeps cont n u ?e" by (rule keeps_then_outb [OF keeps_refl gives_wired [OF ku Cons.prems(2)]]) simp
  then have e: "keeps cont n s ?e" by (rule keeps_trans [OF ku])
  have kv: "keeps cont n s v"
    by (rule keeps_trans [OF e lp_point_keeps [OF v assms(2,3) gives_wired [OF e Cons.prems(2)]]])
  have fv: "fmt_of n v = fmt_of n s" using gives_fmt [OF kv] .
  have ty: "Lpr_type (Port v n) = f_type (fmt_of n s)" by (simp add: fv [symmetric] fmt_simps)
  have wv: "wired n v" by (rule gives_wired [OF kv Cons.prems(2)])
  show ?case
  proof (cases "c div 128 mod 2 \<noteq> 0 \<and> (f_type (fmt_of n s) = CENTRON \<or> f_type (fmt_of n s) = DATAPROD)")
    case True
    then have "t = v\<lparr>lp_uerror := LP_EFAULT\<rparr>" using Cons.prems(1) u v by (simp add: ty)
    moreover have "keeps cont n v (v\<lparr>lp_uerror := LP_EFAULT\<rparr>)" by (rule keeps_other) simp_all
    moreover have "edits (c # cs) (fmt_of n s) = (fmt_of n s, [])" using True by simp
    ultimately show ?thesis using keeps_trans [OF kv] by simp
  next
    case False
    then have "Option.bind (lp_output ops n c v) (lp_chars ops n cs) = Some t"
      using Cons.prems(1) u v by (auto simp: ty split: if_splits)
    then obtain w where w: "lp_output ops n c v = Some w" "lp_chars ops n cs w = Some t" by (auto simp: do_Some)
    have kw: "gives cont n s (edit c (fmt_of n s)) w"
      using keeps_first [OF kv lp_output_gives [OF w(1) assms(2,3) wv]] by (simp add: fv)
    have fw: "fmt_of n w = fst (edit c (fmt_of n s))" using kw by (simp add: gives_def)
    have "gives cont n w (edits cs (fst (edit c (fmt_of n s)))) t"
      using Cons.IH [OF w(2) gives_wired [OF kw Cons.prems(2)]] by (simp add: fw)
    then show ?thesis using False kw gives_trans [of cont n s "fst (edit c (fmt_of n s))" "snd (edit c (fmt_of n s))" w]
      by (auto simp: case_prod_unfold Let_def)
  qed
qed

lemma lp_write_gives:
  assumes "lp_write ops dev cs s = Some t" "n = nat (lp_minor dev mod 4)" "n \<le> 2" "fifo ops cont" "wired n s"
  shows "gives cont n s (edits cs (fmt_of n s)) t"
proof -
  obtain u v where u: "lp_chars ops n cs s = Some u" "printc ops n (lp_disable n u) = Some v" "lp_kick ops n v = Some t"
    using assms(1) unfolding lp_write_def Let_def assms(2) by (auto simp: do_Some)
  show ?thesis by (rule flush_gives [OF lp_chars_gives [OF u(1) assms(3-5)] u(2,3) assms(3-5)])
qed

end
