(* ===== verification/Lpr_Print.thy ===== *)
theory Lpr_Print
  imports Lpr_Spec
begin

text \<open>
  Two consequences of the editing: with a printer that is ready whenever it is asked, every call returns with
  an empty queue, so that all the characters are at the printer; and no character is printed past the last
  column.
\<close>

section \<open>A printer that is ready\<close>

definition lp_prompt :: "'q lpr \<Rightarrow> bool" where
  "lp_prompt s \<longleftrightarrow> (\<forall>k a. lp_status s k a AND LPBUSY \<noteq> 0 \<and> lp_status s k a AND DDEMAND \<noteq> 0)"

lemma lp_prompt_fixed: "fixed s t \<Longrightarrow> lp_prompt t = lp_prompt s"
  by (simp add: lp_prompt_def fixed_def)

lemma gives_prompt: "gives cont n s r t \<Longrightarrow> lp_prompt s \<Longrightarrow> lp_prompt t"
  using lp_prompt_fixed [of s t] by (simp add: gives_def)

lemma prompt_poll:
  assumes "lp_prompt s"
  shows "lp_poll (Suc k) a x s = (lp_status s (n_inb s) a, s\<lparr>n_inb := n_inb s + 1\<rparr>)"
  using assms by (simp add: lp_prompt_def inb_def Let_def)

lemma send_char_outq:
  "l_outq (lp_data (send_char n b c (upd_lp n (\<lambda>d. d\<lparr>l_outq := q\<rparr>) s)) n) = q"
  by (simp add: send_char_simps)

lemma send_char_prompt: "lp_prompt (send_char n b c (upd_lp n f s)) = lp_prompt s" "lp_prompt (s\<lparr>n_inb := k\<rparr>) = lp_prompt s"
  by (simp_all add: lp_prompt_def send_char_simps)

lemma fifo_getc_none:
  assumes "fifo ops cont" "getc ops q = (c, r)" "c < 0"
  shows "cont r = []"
proof (cases "cont q")
  case Nil
  then show ?thesis using fifo_getc(2) [OF assms] by simp
next
  case (Cons d ds)
  then have "0 \<le> d" "c = d" using assms(1) fifoD(4) [OF assms(1) Cons] assms(2) unfolding fifo_def by (metis list.set_intros(1), simp)
  then show ?thesis using assms(3) by simp
qed

lemma printc_cent_empties:
  assumes "fifo ops cont" "lp_prompt s"
  shows "\<exists>t. printc_cent ops n s = Some t \<and> cont (l_outq (lp_data t n)) = []"
  using assms(2)
proof (induction "length (cont (l_outq (lp_data s n)))" arbitrary: s rule: less_induct)
  case less
  let ?a = "Control (Port s (lpradr s n))" and ?u = "s\<lparr>n_inb := n_inb s + 1\<rparr>"
  obtain c q where c: "getc ops (l_outq (lp_data s n)) = (c, q)" by fastforce
  have e: "printc_cent ops n s = (let v = upd_lp n (\<lambda>d. d\<lparr>l_outq := q\<rparr>) ?u in
      if c \<ge> 0 then printc_cent ops n (send_char n True c v) else Some v)"
    using less.prems prompt_poll [OF less.prems, of 24 ?a 0] c
    by (subst printc_cent.simps) (simp add: Let_def lp_prompt_def eval_nat_numeral)
  show ?case
  proof (cases "c \<ge> 0")
    case True
    let ?w = "send_char n True c (upd_lp n (\<lambda>d. d\<lparr>l_outq := q\<rparr>) ?u)"
    have "length (cont (l_outq (lp_data ?w n))) < length (cont (l_outq (lp_data s n)))"
      unfolding send_char_outq using fifo_getc(1) [OF assms(1) c True] by simp
    from less.hyps [OF this] show ?thesis using e True less.prems by (simp add: send_char_prompt Let_def)
  next
    case False
    moreover have "cont q = []" by (rule fifo_getc_none [OF assms(1) c]) (use False in simp)
    ultimately show ?thesis using e by (simp add: Let_def)
  qed
qed

lemma printc_data_empties:
  assumes "fifo ops cont" "lp_prompt s"
  shows "\<exists>t. printc_data ops n s = Some t \<and> cont (l_outq (lp_data t n)) = []"
  using assms(2)
proof (induction "length (cont (l_outq (lp_data s n)))" arbitrary: s rule: less_induct)
  case less
  let ?u = "s\<lparr>n_inb := n_inb s + 1\<rparr>"
  obtain c q where c: "getc ops (l_outq (lp_data s n)) = (c, q)" by fastforce
  have e: "printc_data ops n s = (let v = upd_lp n (\<lambda>d. d\<lparr>l_outq := q\<rparr>) ?u in
      if c \<ge> 0 then printc_data ops n (send_char n False c v) else Some v)"
    using less.prems c by (subst printc_data.simps) (simp add: Let_def lp_prompt_def inb_def)
  show ?case
  proof (cases "c \<ge> 0")
    case True
    let ?w = "send_char n False c (upd_lp n (\<lambda>d. d\<lparr>l_outq := q\<rparr>) ?u)"
    have "length (cont (l_outq (lp_data ?w n))) < length (cont (l_outq (lp_data s n)))"
      unfolding send_char_outq using fifo_getc(1) [OF assms(1) c True] by simp
    from less.hyps [OF this] show ?thesis using e True less.prems by (simp add: send_char_prompt Let_def)
  next
    case False
    moreover have "cont q = []" by (rule fifo_getc_none [OF assms(1) c]) (use False in simp)
    ultimately show ?thesis using e by (simp add: Let_def)
  qed
qed

lemma printc_empties:
  assumes "fifo ops cont" "lp_prompt s"
  shows "\<exists>t. printc ops n s = Some t \<and> cont (l_outq (lp_data t n)) = []"
  using printc_cent_empties [OF assms] printc_data_empties [OF assms] by (simp add: printc_def)

lemma prompt_simps [simp]: "lp_prompt (outb a v s) = lp_prompt s" "lp_prompt (upd_port n f s) = lp_prompt s"
  "lp_prompt (upd_lp n g s) = lp_prompt s" "lp_prompt (lp_disable n s) = lp_prompt s" "lp_prompt (s\<lparr>last_int_serv := i\<rparr>) = lp_prompt s"
  "lp_prompt (s\<lparr>n_irq := k\<rparr>) = lp_prompt s"
  by (simp_all add: lp_prompt_def lp_disable_def)

text \<open>An interrupt empties the queue and wakes the process up.\<close>

lemma lpr_int_empties:
  assumes "fifo ops cont" "lp_prompt s" "n \<le> 2"
  shows "\<exists>t. lpr_int ops (intvec n) s = Some t \<and> cont (l_outq (lp_data t n)) = [] \<and> lp_flag (lp_data t n) AND ASLP = 0"
proof -
  let ?a = "s\<lparr>last_int_serv := 9\<rparr>"
  let ?b = "upd_port n (\<lambda>p. p\<lparr>cyc_started := 0\<rparr>) (outb (ControlSel (Port ?a (lpradr ?a n))) LPDISABLE ?a)"
  obtain u where u: "printc ops n ?b = Some u" "cont (l_outq (lp_data u n)) = []"
    using printc_empties [OF assms(1), of ?b n] assms(2) by auto
  have c: "c_cc ops (l_outq (lp_data u n)) = 0" using fifoD(5) [OF assms(1)] u(2) by simp
  have z: "(x AND NOT ASLP) AND ASLP = 0" for x :: byte by (simp add: and.assoc)
  show ?thesis using u c z by (simp add: lpr_int_def lp_vector_intvec [OF assms(3)] Let_def)
qed

text \<open>Both at once: the call returns, and it keeps the stream and the promptness.\<close>

lemma printc_prompt:
  assumes "fifo ops cont" "lp_prompt s" "wired n s"
  shows "\<exists>t. printc ops n s = Some t \<and> cont (l_outq (lp_data t n)) = [] \<and> lp_prompt t \<and> wired n t"
proof -
  obtain t where t: "printc ops n s = Some t" "cont (l_outq (lp_data t n)) = []" using printc_empties [OF assms(1,2)] by blast
  have k: "keeps cont n s t" by (rule printc_keeps [OF t(1) assms(1,3)])
  show ?thesis using t gives_prompt [OF k assms(2)] gives_wired [OF k assms(3)] by blast
qed

lemma lpr_int_prompt:
  assumes "fifo ops cont" "lp_prompt s" "wired n s" "n \<le> 2"
  shows "\<exists>t. lpr_int ops (intvec n) s = Some t \<and> cont (l_outq (lp_data t n)) = [] \<and> lp_flag (lp_data t n) AND ASLP = 0 \<and> lp_prompt t \<and> wired n t"
proof -
  obtain t where t: "lpr_int ops (intvec n) s = Some t" "cont (l_outq (lp_data t n)) = [] \<and> lp_flag (lp_data t n) AND ASLP = 0"
    using lpr_int_empties [OF assms(1,2,4)] by blast
  have k: "keeps cont n s t" by (rule lpr_int_keeps [OF t(1) assms(4,1,3)])
  show ?thesis using t gives_prompt [OF k assms(2)] gives_wired [OF k assms(3)] by blast
qed

definition idle :: "('q \<Rightarrow> int list) \<Rightarrow> nat \<Rightarrow> 'q lpr \<Rightarrow> bool" where
  "idle cont n s \<longleftrightarrow> cont (l_outq (lp_data s n)) = []"

lemma idle_simps [simp]: "idle cont n (outb a v s) = idle cont n s" "idle cont n (s\<lparr>n_irq := k\<rparr>) = idle cont n s"
  "idle cont n (lp_disable n s) = idle cont n s"
  by (simp_all add: idle_def lp_disable_def)

lemma wired_simps [simp]: "wired n (outb a v s) = wired n s" "wired n (s\<lparr>n_irq := k\<rparr>) = wired n s" "wired n (lp_disable n s) = wired n s"
  "wired n (upd_lp n f s) = wired n s"
  by (simp_all add: wired_def lp_disable_def lpradr_def Let_def)

lemma lp_point_prompt:
  assumes "fifo ops cont" "lp_prompt s" "wired n s" "n \<le> 2"
  shows "\<exists>t. lp_point ops n s = Some t \<and> (idle cont n s \<longrightarrow> idle cont n t) \<and> lp_prompt t \<and> wired n t"
  using lpr_int_prompt [OF assms(1), of "s\<lparr>n_irq := n_irq s + 1\<rparr>" n] assms(2-4)
  by (auto simp: lp_point_def Let_def idle_def)

lemma lp_kick_prompt:
  assumes "fifo ops cont" "lp_prompt s" "wired n s" "n \<le> 2"
  shows "\<exists>t. lp_kick ops n s = Some t \<and> (idle cont n s \<longrightarrow> idle cont n t) \<and> lp_prompt t \<and> wired n t"
proof -
  let ?C = "Control (Port s (lpradr s n))" and ?S = "ControlSel (Port s (lpradr s n))"
  obtain u where u: "lp_point ops n (outb ?S LPENABLE s) = Some u" "idle cont n s \<longrightarrow> idle cont n u" "lp_prompt u" "wired n u"
    using lp_point_prompt [OF assms(1), of "outb ?S LPENABLE s" n] assms(2-4) by auto
  obtain t where t: "lp_point ops n (outb ?C LPRAISE (outb ?C LPLOWER u)) = Some t" "idle cont n u \<longrightarrow> idle cont n t" "lp_prompt t" "wired n t"
    using lp_point_prompt [OF assms(1), of "outb ?C LPRAISE (outb ?C LPLOWER u)" n] u(3,4) assms(4) by auto
  show ?thesis using u t by (simp add: lp_kick_def Let_def)
qed

lemma lp_sleep_prompt:
  assumes "fifo ops cont" "lp_prompt s" "wired n s" "n \<le> 2" "idle cont n s"
  shows "\<exists>t. lp_sleep ops n s = Some t \<and> idle cont n t \<and> lp_prompt t \<and> wired n t"
proof (cases "lp_flag (lp_data s n) AND ASLP = 0")
  case True
  then show ?thesis using assms by (simp add: lp_sleep.simps)
next
  case False
  obtain t where t: "lpr_int ops (intvec n) s = Some t" "idle cont n t" "lp_flag (lp_data t n) AND ASLP = 0" "lp_prompt t" "wired n t"
    using lpr_int_prompt [OF assms(1-4)] by (auto simp: idle_def)
  then show ?thesis using False by (simp add: lp_sleep.simps [of ops n s] lp_sleep.simps [of ops n t])
qed

lemma lp_flood_prompt:
  assumes "fifo ops cont" "lp_prompt s" "wired n s" "n \<le> 2"
  shows "\<exists>t. lp_flood ops n s = Some t \<and> lp_prompt t \<and> wired n t"
proof (cases "c_cc ops (l_outq (lp_data s n)) \<le> LPHIWAT")
  case True
  then show ?thesis using assms by (simp add: lp_flood.simps)
next
  case False
  obtain u where u: "printc ops n s = Some u" "cont (l_outq (lp_data u n)) = []" "lp_prompt u" "wired n u"
    using printc_prompt [OF assms(1-3)] by blast
  let ?v = "upd_lp n (\<lambda>d. d\<lparr>lp_flag := lp_flag d OR ASLP\<rparr>) u"
  let ?C = "Control (Port ?v (lpradr ?v n))" and ?S = "ControlSel (Port ?v (lpradr ?v n))"
  let ?w = "outb ?C LPRAISE (outb ?C LPLOWER (outb ?S LPENABLE ?v))"
  have w: "idle cont n ?w" "lp_prompt ?w" "wired n ?w" using u by (simp_all add: idle_def)
  obtain x where x: "lp_sleep ops n ?w = Some x" "idle cont n x" "lp_prompt x" "wired n x"
    using lp_sleep_prompt [OF assms(1) w(2,3) assms(4) w(1)] by blast
  have "c_cc ops (l_outq (lp_data (lp_disable n x) n)) = 0" using fifoD(5) [OF assms(1)] x(2) by (simp add: idle_def lp_disable_def)
  then have "lp_flood ops n (lp_disable n x) = Some (lp_disable n x)" by (simp add: lp_flood.simps)
  then have "lp_flood ops n s = Some (lp_disable n x)" using False u(1) x(1) by (simp add: lp_flood.simps [of ops n s] Let_def)
  then show ?thesis using x by simp
qed

lemma lp_flush_prompt:
  assumes "fifo ops cont" "lp_prompt s" "wired n s" "n \<le> 2"
  shows "\<exists>u t. printc ops n (lp_disable n s) = Some u \<and> lp_kick ops n u = Some t \<and> idle cont n t \<and> lp_prompt t \<and> wired n t"
proof -
  obtain u where u: "printc ops n (lp_disable n s) = Some u" "idle cont n u" "lp_prompt u" "wired n u"
    using printc_prompt [OF assms(1), of "lp_disable n s" n] assms(2,3) by (auto simp: idle_def)
  then show ?thesis using lp_kick_prompt [OF assms(1) u(3,4) assms(4)] by blast
qed

lemma lp_putc_simps [simp]: "lp_prompt (lp_putc ops n c s) = lp_prompt s" "wired n (lp_putc ops n c s) = wired n s"
  by (simp_all add: lp_putc_def)

lemma lp_cr_prompt:
  assumes "fifo ops cont" "lp_prompt s" "wired n s" "n \<le> 2"
  shows "\<exists>t. lp_cr ops n c s = Some t"
proof -
  let ?a = "upd_lp n (\<lambda>d. d\<lparr>ccc := lp_ind d\<rparr>) s"
  let ?b = "if c = 13 then upd_lp n (\<lambda>d. d\<lparr>mcc := 0\<rparr>) (lp_putc ops n c ?a) else ?a"
  have "lp_prompt ?b" "wired n ?b" using assms(2,3) by auto
  from lp_flush_prompt [OF assms(1) this assms(4)] show ?thesis unfolding lp_cr_def Let_def by fastforce
qed

lemma lp_form_prompt:
  assumes "fifo ops cont" "lp_prompt s" "wired n s" "n \<le> 2"
  shows "\<exists>t. lp_form ops n c s = Some t"
  unfolding lp_form_def Let_def by (rule lp_cr_prompt [OF assms(1) _ _ assms(4)]) (use assms(2,3) in auto)

lemma lp_output_prompt:
  assumes "fifo ops cont" "lp_prompt s" "wired n s" "n \<le> 2"
  shows "\<exists>t. lp_output ops n c s = Some t"
  using lp_form_prompt [OF assms(1) _ _ assms(4)] lp_cr_prompt [OF assms(1) _ _ assms(4)] assms(2,3)
  unfolding lp_output_def Let_def by auto

lemma lp_chars_prompt:
  assumes "fifo ops cont" "lp_prompt s" "wired n s" "n \<le> 2"
  shows "\<exists>t. lp_chars ops n cs s = Some t \<and> lp_prompt t \<and> wired n t"
  using assms(2,3)
proof (induction cs arbitrary: s)
  case (Cons c cs)
  obtain u where u: "lp_flood ops n (lp_disable n s) = Some u" "lp_prompt u" "wired n u"
    using lp_flood_prompt [OF assms(1), of "lp_disable n s" n] Cons.prems assms(4) by auto
  let ?e = "outb (ControlSel (Port u (lpradr u n))) LPENABLE u"
  obtain v where v: "lp_point ops n ?e = Some v" "lp_prompt v" "wired n v"
    using lp_point_prompt [OF assms(1), of ?e n] u assms(4) by auto
  obtain w where w: "lp_output ops n c v = Some w" using lp_output_prompt [OF assms(1) v(2,3) assms(4)] by blast
  have k: "gives cont n v (edit c (fmt_of n v)) w" by (rule lp_output_gives [OF w assms(4,1) v(3)])
  have x: "lp_prompt (v\<lparr>lp_uerror := e\<rparr>)" "wired n (v\<lparr>lp_uerror := e\<rparr>)" for e
    using v(2,3) by (simp_all add: lp_prompt_def wired_def lpradr_def Let_def)
  show ?case using Cons.IH [OF gives_prompt [OF k v(2)] gives_wired [OF k v(3)]] u v(1) w x by simp
qed simp

lemma lp_write_prompt:
  assumes "fifo ops cont" "lp_prompt s" "wired n s" "n \<le> 2" "n = nat (lp_minor dev mod 4)"
  shows "\<exists>t. lp_write ops dev cs s = Some t \<and> idle cont n t"
proof -
  obtain u where u: "lp_chars ops n cs s = Some u" "lp_prompt u" "wired n u" using lp_chars_prompt [OF assms(1-4)] by blast
  then show ?thesis using lp_flush_prompt [OF assms(1) u(2,3) assms(4)] by (auto simp: lp_write_def Let_def assms(5))
qed


section \<open>The columns\<close>

text \<open>The position of the carriage, and that everything is printed left of the last column.\<close>

definition returns :: "int \<Rightarrow> bool" where
  "returns c \<longleftrightarrow> c = 10 \<or> c = FORM \<or> c = 13"

fun carriage :: "int \<Rightarrow> int list \<Rightarrow> int" where
  "carriage p [] = p"
| "carriage p (c # cs) = carriage (if returns c then 0 else p + 1) cs"

fun fits :: "int \<Rightarrow> int \<Rightarrow> int list \<Rightarrow> bool" where
  "fits col p [] = True"
| "fits col p (c # cs) = ((returns c \<or> p < col) \<and> fits col (if returns c then 0 else p + 1) cs)"

lemma carriage_append: "carriage p (xs @ ys) = carriage (carriage p xs) ys"
  by (induction xs arbitrary: p) auto

lemma fits_append: "fits col p (xs @ ys) = (fits col p xs \<and> fits col (carriage p xs) ys)"
  by (induction xs arbitrary: p) auto

lemma carriage_blanks: "carriage p (replicate k 32) = p + int k"
  by (induction k arbitrary: p) (auto simp: returns_def)

lemma fits_blanks: "p + int k \<le> col \<Longrightarrow> fits col p (replicate k 32)"
  by (induction k arbitrary: p) (auto simp: returns_def)

text \<open>A page with lines and columns, and the counters within them.\<close>

definition on_page :: "fmt \<Rightarrow> bool" where
  "on_page f \<longleftrightarrow> (f_type f = CENTRON \<or> f_type f = DATAPROD) \<and> 0 \<le> f_mcc f \<and> f_mcc f \<le> f_col f \<and> 1 \<le> f_col f \<and> f_col f < 32768
     \<and> 0 \<le> f_mlc f \<and> f_mlc f < f_line f \<and> f_line f < 32768"

lemma s16_iter: "0 \<le> m \<Longrightarrow> m + int k < 32768 \<Longrightarrow> ((\<lambda>m. s16 (m + 1)) ^^ k) m = m + int k"
  by (induction k) (auto simp: s16_id)

text \<open>What a step of the editing promises, from a position \<open>f\<close> where the carriage is at \<open>f_mcc f\<close>.\<close>

definition stays :: "fmt \<Rightarrow> fmt \<times> int list \<Rightarrow> bool" where
  "stays f r \<longleftrightarrow> on_page (fst r) \<and> f_col (fst r) = f_col f \<and> carriage (f_mcc f) (snd r) = f_mcc (fst r) \<and> fits (f_col f) (f_mcc f) (snd r)
     \<and> (\<forall>c \<in> set (snd r). 0 \<le> c \<and> c < 128)"

lemma stays_char:
  assumes "on_page f" "\<not> returns c" "0 \<le> c" "c < 128"
  shows "stays f (edit_char c f)"
proof (cases "f_ccc f < f_mcc f \<and> f_nocr f \<noteq> 0")
  case True
  then show ?thesis using assms by (simp add: edit_char_def stays_def on_page_def Let_def)
next
  case False
  let ?over = "f_ccc f < f_mcc f"
  let ?m = "if ?over then 0 else f_mcc f" and ?cr = "if ?over then [13 :: int] else []"
  have cr: "carriage (f_mcc f) ?cr = ?m" "fits (f_col f) (f_mcc f) ?cr" "\<forall>c \<in> set ?cr. 0 \<le> c \<and> c < 128" by (auto simp: returns_def)
  have m: "0 \<le> ?m" "?m \<le> f_col f" "f_col f < 32768" using assms(1) by (auto simp: on_page_def)
  show ?thesis
  proof (cases "f_ccc f < f_col f")
    case True
    let ?k = "nat (f_ccc f - ?m)"
    have k: "?m + int ?k < f_col f" using True m assms(1) by (auto simp: on_page_def)
    let ?g = "f\<lparr>f_ccc := s16 (f_ccc f + 1), f_mcc := ?m + int ?k + 1\<rparr>"
    have e: "edit_char c f = (?g, ?cr @ replicate ?k 32 @ [c])"
      using False True k m s16_iter [of ?m ?k] by (simp add: edit_char_def Let_def s16_id)
    have "on_page ?g" using assms(1) k m unfolding on_page_def by (simp del: nat_0_iff int_nat_eq)
    moreover have "fits (f_col f) ?m (replicate ?k 32)" by (rule fits_blanks) (use k in simp)
    ultimately show ?thesis unfolding e stays_def fst_conv snd_conv carriage_append fits_append cr(1) carriage_blanks
      using cr k assms(2-4) by auto
  next
    case False': False
    have e: "edit_char c f = (f\<lparr>f_ccc := s16 (f_ccc f + 1), f_mcc := ?m\<rparr>, ?cr)" using False False' by (simp add: edit_char_def Let_def)
    show ?thesis unfolding e stays_def fst_conv snd_conv using assms(1) cr m by (auto simp: on_page_def)
  qed
qed

lemma stays_form:
  assumes "on_page (g\<lparr>f_mlc := 0\<rparr>)" "f_mlc g \<noteq> 0" "c = FORM \<or> c = 10 \<and> 0 \<le> f_mlc g \<and> f_mlc g < f_line g"
  shows "stays g (edit_form c g)"
  using assms by (auto simp: edit_form_def stays_def on_page_def returns_def)

lemma stays_edit:
  assumes "on_page f" "c \<noteq> FORM" "0 \<le> c" "c < 128"
  shows "stays f (edit c f)"
proof -
  have raw: "\<not> is_raw (f_type f)" using assms(1) by (auto simp: on_page_def is_raw_def)
  consider "c = 9" | "c = 10" | "c = 13" | "c = 8" | "c = 32" | "c \<notin> {9, 10, FORM, 13, 8, 32}" using assms(2) by blast
  then show ?thesis
  proof cases
    case 2
    let ?g = "f\<lparr>f_mlc := f_mlc f + 1\<rparr>"
    have s: "s16 (f_mlc f + 1) = f_mlc f + 1" using assms(1) by (simp add: on_page_def s16_id)
    have g: "on_page (?g\<lparr>f_mlc := 0\<rparr>)" "f_mlc ?g \<noteq> 0" using assms(1) by (auto simp: on_page_def)
    show ?thesis
    proof (cases "f_line f \<noteq> 0 \<and> f_mlc ?g \<ge> f_line f")
      case True
      then have "edit c f = edit_form FORM ?g" using 2 raw by (simp add: edit_def Let_def s)
      then show ?thesis using stays_form [OF g, of FORM] by (simp add: stays_def)
    next
      case False
      then have e: "edit c f = (fst (edit_form 10 ?g), if f_type f = CENTRON then 13 # snd (edit_form 10 ?g) else snd (edit_form 10 ?g))"
        using 2 raw by (auto simp: edit_def Let_def s case_prod_unfold)
      have "stays ?g (edit_form 10 ?g)" by (rule stays_form [OF g]) (use False assms(1) in \<open>auto simp: on_page_def\<close>)
      then show ?thesis unfolding e using g(2) by (auto simp: stays_def edit_form_def returns_def)
    qed
  next
    case 6
    then have "edit c f = edit_char c f" using raw by (auto simp: edit_def)
    moreover have "stays f (edit_char c f)" by (rule stays_char [OF assms(1) _ assms(3,4)]) (use 6 in \<open>auto simp: returns_def\<close>)
    ultimately show ?thesis by simp
  qed (use assms raw in \<open>auto simp: edit_def stays_def on_page_def returns_def\<close>)
qed

lemma stays_edits:
  assumes "on_page f" "FORM \<notin> set cs" "\<forall>c \<in> set cs. 0 \<le> c \<and> c < 256"
  shows "stays f (edits cs f)"
  using assms
proof (induction cs arbitrary: f)
  case Nil
  then show ?case by (simp add: stays_def)
next
  case (Cons c cs)
  show ?case
  proof (cases "c div 128 mod 2 \<noteq> 0 \<and> (f_type f = CENTRON \<or> f_type f = DATAPROD)")
    case True
    then show ?thesis using Cons.prems by (simp add: stays_def)
  next
    case False
    have "c div 128 mod 2 = 0" using False Cons.prems(1) by (auto simp: on_page_def)
    moreover have "0 \<le> c" "c < 256" using Cons.prems(3) by simp_all
    ultimately have c: "c < 128" by (cases "c < 128") (auto simp: div_pos_geq)
    have e: "stays f (edit c f)" by (rule stays_edit [OF Cons.prems(1) _ _ c]) (use Cons.prems in auto)
    then have "stays (fst (edit c f)) (edits cs (fst (edit c f)))"
      using Cons.prems by (intro Cons.IH) (auto simp: stays_def)
    then show ?thesis using e False by (auto simp: stays_def case_prod_unfold Let_def carriage_append fits_append)
  qed
qed

text \<open>
  A form feed while \<open>mlc\<close> is zero is dropped, and \<open>mcc\<close> is reset all the same: the next line is printed on
  the same line of the paper, past the last column.
\<close>

lemma form_feed_dropped:
  assumes "\<not> is_raw (f_type f)" "f_mlc f = 0"
  shows "edit FORM f = (f\<lparr>f_mcc := 0, f_mlc := 0, f_ccc := f_ind f\<rparr>, [])"
  using assms by (simp add: edit_def edit_form_def)

lemma form_feed_runs_over:
  "\<exists>f cs. on_page f \<and> f_mlc f = 0 \<and> f_mcc f = 0 \<and> (\<forall>c \<in> set cs. 0 \<le> c \<and> c < 128) \<and> \<not> fits (f_col f) (f_mcc f) (snd (edits cs f))"
proof (intro exI conjI)
  let ?f = "\<lparr>f_type = CENTRON, f_nocr = 0, f_ind = 0, f_ccc = 0, f_mcc = 0, f_mlc = 0, f_line = 66, f_col = 1\<rparr>"
  show "on_page ?f" by (simp add: on_page_def)
  show "f_mlc ?f = 0" "f_mcc ?f = 0" by simp_all
  show "\<forall>c \<in> set [97, FORM, 98]. 0 \<le> c \<and> c < 128" by simp
  show "\<not> fits (f_col ?f) (f_mcc ?f) (snd (edits [97, FORM, 98] ?f))"
    by (simp add: edit_def edit_char_def edit_form_def is_raw_def returns_def s16_id)
qed

text \<open>Type 3, the raw Data Products printer, is refused: \<open>NLPT\<close> is 3.\<close>

lemma raw_dataprod_refused:
  assumes "int (nat (lp_minor dev mod 4)) < maxport s" "Lpr_type (Port s (nat (lp_minor dev mod 4))) = UNCONFIG" "lp_minor dev div 4 = RAWDATAP"
  shows "lp_open ops dev s = Some (s\<lparr>lp_uerror := LP_ENXIO\<rparr>)"
  using assms by (simp add: lp_open_def Let_def)


section \<open>Character lists as lists of bytes\<close>

definition byte_ops :: "byte list clist_ops" where
  "byte_ops = \<lparr>putc = (\<lambda>c q. q @ [word_of_int c]), getc = (\<lambda>q. case q of [] \<Rightarrow> (- 1, []) | b # r \<Rightarrow> (uint b, r)), c_cc = (\<lambda>q. int (length q))\<rparr>"

lemma byte_ops_fifo: "fifo byte_ops (map uint)"
  by (auto simp: fifo_def byte_ops_def uint_word_of_int)

text \<open>A Centronics printer that is ready, with an interrupt at every second point.\<close>

definition lp_start :: "int \<Rightarrow> byte list lpr" where
  "lp_start ty = \<lparr>Port = (\<lambda>n. (port_init [] n)\<lparr>Lpr_type := ty\<rparr>), hpcpu = False, lp_uerror = 0, last_int_serv = 0, lp_status = (\<lambda>_ _. 240),
     n_inb = 0, lp_irq = even, n_irq = 0, outs = []\<rparr>"

lemma lp_start_ok: "wired n (lp_start ty)" "lp_prompt (lp_start ty)" "maxport (lp_start ty) = 3" "stream (map uint) n (lp_start ty) = []"
  "fmt_of n (lp_start ty) = \<lparr>f_type = ty, f_nocr = 0, f_ind = 1, f_ccc = 0, f_mcc = 0, f_mlc = 0, f_line = 66, f_col = 130\<rparr>"
  by (simp_all add: wired_def lp_start_def port_init_def lp_prompt_def maxport_def stream_def sent_def fmt_of_def Let_def)

end
