(* ===== verification/Remote.thy ===== *)
theory Remote
  imports V7_Prelude
begin

text \<open>
  \<open>src/remote.c\<close> of the ZEUS tape: the program on the user's side of a serial line to a second system. It
  passes characters through and, on requests of the second system, receives (\<open>load\<close>) or sends (\<open>send\<close>) a
  file in records with a checksum.

  The line is a list of events: a character, a silence that is longer than the alarm, or an abort request of
  the user, which \<open>watch_for_abort\<close> turns into a signal. As the system calls of ZEUS are not restarted, a
  signal ends \<open>read\<close> without a character, and the variable keeps its value. Where the events end, a \<open>read\<close>
  without alarm does not return. Writes to the line succeed. \<open>junk\<close> gives the values of local variables that are
  used without being set.
\<close>

section \<open>Constants\<close>

abbreviation "FS \<equiv> 28 :: byte"
abbreviation "SOH \<equiv> 1 :: byte"
abbreviation "STX \<equiv> 2 :: byte"
abbreviation "ETX \<equiv> 3 :: byte"
abbreviation "EOT \<equiv> 4 :: byte"
abbreviation "ACK \<equiv> 6 :: byte"
abbreviation "NAK \<equiv> 21 :: byte"
abbreviation "CAN \<equiv> 24 :: byte"
abbreviation "ESC \<equiv> 27 :: byte"
abbreviation "NAMSIZ \<equiv> 14 :: nat"
abbreviation "RECSIZ \<equiv> 512 :: nat"
abbreviation "XFERSIZ \<equiv> 64 :: nat"

abbreviation "BINARY \<equiv> 1 :: byte"
abbreviation "QUERY \<equiv> 2 :: byte"
abbreviation "FATAL \<equiv> 4 :: byte"
abbreviation "ALLBIN \<equiv> 8 :: byte"
abbreviation "EXEC \<equiv> 16 :: byte"


section \<open>State\<close>

datatype event = Rx byte | Silence | Stop_one | Stop_all

text \<open>
  \<open>rx\<close> is what the line will bring, \<open>tx\<close> what was written to it, \<open>scr\<close> and \<open>keys\<close> are the user's terminal. \<open>rbuf\<close>
  and \<open>bufptr\<close> are the static variables of \<open>getrec\<close>. \<open>dfile\<close> is the file that is written, \<open>creats\<close> the calls of
  \<open>creat\<close>, and \<open>wrres\<close> the result of the \<open>n\<close>-th \<open>write\<close> of a file, given the count.
\<close>

record rem =
  rx :: "event list"
  tx :: "byte list"
  scr :: "byte list"
  keys :: "byte list"
  onestop :: bool
  allstop :: bool
  r_timeout :: bool
  printmsg :: bool
  rbuf :: "byte list"
  bufptr :: int
  dfile :: "byte list"
  creats :: "(byte list \<times> int) list"
  wrres :: "nat \<Rightarrow> nat \<Rightarrow> int"
  n_wr :: nat
  junk :: "nat \<Rightarrow> byte"
  n_junk :: nat

definition fresh :: "rem \<Rightarrow> byte \<times> rem" where
  "fresh s = (junk s (n_junk s), s\<lparr>n_junk := n_junk s + 1\<rparr>)"

definition wline :: "byte \<Rightarrow> rem \<Rightarrow> rem" where
  "wline c s = s\<lparr>tx := tx s @ [c]\<rparr>"

definition rputchar :: "byte \<Rightarrow> rem \<Rightarrow> rem" where
  "rputchar c s = s\<lparr>scr := scr s @ [c]\<rparr>"

definition str :: "string \<Rightarrow> byte list" where
  "str cs = map of_char cs"

definition say :: "byte list \<Rightarrow> rem \<Rightarrow> rem" where
  "say bs s = s\<lparr>scr := scr s @ bs\<rparr>"

abbreviation "crlf \<equiv> [10, 13] :: byte list"

text \<open>\<open>getchar\<close> from the user's terminal.\<close>

definition getkey :: "rem \<Rightarrow> (byte \<times> rem) option" where
  "getkey s = (case keys s of [] \<Rightarrow> None | k # ks \<Rightarrow> Some (k, s\<lparr>keys := ks\<rparr>))"

text \<open>\<open>read(pterm, &c, 1)\<close>, and \<open>aread\<close>.\<close>

fun next_event :: "event list \<Rightarrow> (event \<times> event list) option" where
  "next_event [] = None"
| "next_event (Silence # es) = next_event es"
| "next_event (e # es) = Some (e, es)"

fun take_event :: "event \<Rightarrow> byte \<Rightarrow> rem \<Rightarrow> byte \<times> rem" where
  "take_event (Rx b) c s = (b, s)"
| "take_event Silence c s = (c, s\<lparr>r_timeout := True\<rparr>)"
| "take_event Stop_one c s = (c, s\<lparr>onestop := True\<rparr>)"
| "take_event Stop_all c s = (c, s\<lparr>allstop := True\<rparr>)"

definition rdline :: "byte \<Rightarrow> rem \<Rightarrow> (byte \<times> rem) option" where
  "rdline c s = do { (e, es) \<leftarrow> next_event (rx s); Some (take_event e c (s\<lparr>rx := es\<rparr>)) }"

definition aread :: "byte \<Rightarrow> rem \<Rightarrow> byte \<times> rem" where
  "aread c s =
     (let s = s\<lparr>r_timeout := False\<rparr> in
      case rx s of
        [] \<Rightarrow> take_event Silence c s
      | e # es \<Rightarrow> take_event e c (s\<lparr>rx := es\<rparr>))"

text \<open>\<open>write(fd, buffer, n)\<close>: the result of the call, and the bytes that reach the file.\<close>

definition wfile :: "bool \<Rightarrow> byte list \<Rightarrow> rem \<Rightarrow> int \<times> rem" where
  "wfile open_fd bs s =
     (let r = (if open_fd then wrres s (n_wr s) (length bs) else - 1)
      in (r, s\<lparr>n_wr := n_wr s + 1, dfile := dfile s @ take (nat r) bs\<rparr>))"


section \<open>Passing characters through\<close>

partial_function (option) unix_loop :: "byte \<Rightarrow> rem \<Rightarrow> (byte \<times> rem) option" where
  "unix_loop c s = Option.bind (rdline c s) (\<lambda>(c, s).
     if c = SOH then
       Option.bind (rdline c s) (\<lambda>(c, s).
         if c = ESC then
           Option.bind (rdline c s) (\<lambda>(c, s).
             if c = 81 \<or> c = 76 \<or> c = 83 \<or> c = 75 then Some (c, s)
             else unix_loop c (rputchar c (rputchar ESC (rputchar SOH s))))
         else unix_loop c (rputchar c (rputchar SOH s)))
     else unix_loop c (rputchar c s))"

definition unix_to_term :: "rem \<Rightarrow> (byte \<times> rem) option" where
  "unix_to_term s = (let (c, s) = fresh s in unix_loop c s)"

text \<open>\<open>term_to_unix\<close>, up to the character that ends the session.\<close>

fun term_to_unix :: "byte list \<Rightarrow> rem \<Rightarrow> (byte list \<times> rem) option" where
  "term_to_unix [] s = None"
| "term_to_unix (c # ks) s = (if c AND 127 = FS then Some (ks, s) else term_to_unix ks (wline c s))"

text \<open>\<open>watch_for_abort\<close>: the signals for the keys of the user.\<close>

fun watch_for_abort :: "byte list \<Rightarrow> event list" where
  "watch_for_abort [] = []"
| "watch_for_abort (c # ks) =
     (if c AND 127 = ESC then [Stop_all] else []) @ (if c AND 127 = CAN then [Stop_one] else []) @ watch_for_abort ks"


section \<open>Receiving\<close>

partial_function (option) message_loop :: "byte \<Rightarrow> rem \<Rightarrow> rem option" where
  "message_loop c s = Option.bind (rdline c s) (\<lambda>(c, s). if c = ETX then Some s else message_loop c (rputchar c s))"

definition message :: "rem \<Rightarrow> rem option" where
  "message s = (let (c, s) = fresh s in message_loop c s)"

text \<open>The loop of \<open>wait_etx\<close> starts with a variable without a value.\<close>

partial_function (option) wait_loop :: "byte \<Rightarrow> rem \<Rightarrow> (byte \<times> rem) option" where
  "wait_loop c s = (if c = ETX then Some (c, s) else Option.bind (rdline c s) (\<lambda>(c, s). wait_loop c s))"

definition wait_etx :: "rem \<Rightarrow> rem option" where
  "wait_etx s = (let (c, s) = fresh s in do { (c, s) \<leftarrow> wait_loop c s; (c, s) \<leftarrow> rdline c s; Some s })"

text \<open>
  The characters of a name: the \<open>for\<close> loop has \<open>n\<close> turns left. The result is the name and whether the
  checksum is right, or nothing after \<open>NAMSIZ + 1\<close> characters.
\<close>

primrec name_loop :: "nat \<Rightarrow> byte list \<Rightarrow> byte \<Rightarrow> byte \<Rightarrow> rem \<Rightarrow> ((byte list \<times> bool) option \<times> byte \<times> rem) option" where
  "name_loop 0 name c csum s = Some (None, c, s)"
| "name_loop (Suc n) name c csum s = do {
     (c, s) \<leftarrow> rdline c s;
     if c = ETX then do { (c, s) \<leftarrow> rdline c s; Some (Some (name, c = csum), c, s) }
     else name_loop n (name @ [c]) c (csum XOR c) s }"

text \<open>The result \<open>None\<close> stands for \<open>-1\<close>.\<close>

partial_function (option) getname_loop :: "byte \<Rightarrow> rem \<Rightarrow> (byte list option \<times> rem) option" where
  "getname_loop c s = Option.bind (rdline c s) (\<lambda>(c, s).
     if c = CAN then Some (None, s)
     else if c = ESC then Option.bind (message s) (\<lambda>s. getname_loop c s)
     else if c = STX then
       Option.bind (name_loop (NAMSIZ + 1) [] c 0 s) (\<lambda>(r, c, s).
         case r of
           Some (name, ok) \<Rightarrow>
             if ok then Some (Some name, s)
             else getname_loop c (wline NAK (if printmsg s then say (str ''checksum error ... retry'' @ crlf) s else s))
         | None \<Rightarrow>
             Option.bind (wait_etx (say (crlf @ str ''file name too long'' @ crlf) s)) (\<lambda>s. getname_loop c (wline CAN s)))
     else
       Option.bind (wait_etx (say (crlf @ str ''illegal first character of file name sequence'' @ crlf) s))
         (\<lambda>s. getname_loop c (wline CAN s)))"

definition getname :: "rem \<Rightarrow> (byte list option \<times> rem) option" where
  "getname s = (let (c, s) = fresh s in getname_loop c s)"

text \<open>\<open>buffer[bufptr++] = c\<close>; an index outside of the array has no result.\<close>

definition put_buf :: "byte \<Rightarrow> rem \<Rightarrow> rem option" where
  "put_buf c s =
     (if 0 \<le> bufptr s \<and> bufptr s < int (2 * RECSIZ)
      then Some (s\<lparr>rbuf := (rbuf s)[nat (bufptr s) := c], bufptr := bufptr s + 1\<rparr>) else None)"

text \<open>The data of a record, with \<open>n\<close> characters to come and \<open>n_read\<close> received; it ends early on a timeout.\<close>

primrec data_loop :: "nat \<Rightarrow> int \<Rightarrow> byte \<Rightarrow> byte \<Rightarrow> rem \<Rightarrow> (int \<times> byte \<times> byte \<times> rem) option" where
  "data_loop 0 n_read csum c s = Some (n_read, csum, c, s)"
| "data_loop (Suc n) n_read csum c s =
     (let (c, s) = aread c s in
      if r_timeout s then Some (n_read, csum, c, s)
      else do { s \<leftarrow> put_buf c s; data_loop n (n_read + 1) (csum XOR c) c s })"

definition buf_back :: "int \<Rightarrow> rem \<Rightarrow> rem" where
  "buf_back n s = s\<lparr>bufptr := bufptr s - n\<rparr>"

text \<open>A full buffer goes to the file; \<open>None\<close> for a write error.\<close>

definition flush_rec :: "bool \<Rightarrow> rem \<Rightarrow> bool \<times> rem" where
  "flush_rec fd s =
     (if bufptr s > int RECSIZ then
        (let (n_written, s) = wfile fd (take RECSIZ (rbuf s)) s in
         if n_written \<noteq> int RECSIZ then (False, say (str ''disk write error'' @ crlf) s)
         else (True, s\<lparr>rbuf := take RECSIZ (drop RECSIZ (rbuf s)) @ drop RECSIZ (rbuf s), bufptr := bufptr s - int RECSIZ\<rparr>))
      else (True, s))"

text \<open>A record after its data: the end mark, the checksum, and what is done with it.\<close>

definition rec_end :: "bool \<Rightarrow> int \<Rightarrow> int \<Rightarrow> byte \<Rightarrow> byte \<Rightarrow> rem \<Rightarrow> (nat \<times> rem) option" where
  "rec_end fd n_to_read n_read csum c s =
     (if n_read < n_to_read then Some (1, buf_back n_read s)
      else
        let (c, s) = aread c s in
        if r_timeout s then Some (1, buf_back n_read s)
        else if c \<noteq> ETX then Some (1, buf_back n_read s)
        else
          let (c, s) = aread c s in
          if r_timeout s then Some (1, buf_back n_read s)
          else if c \<noteq> csum then
            Some (1, let s = buf_back n_to_read s in if printmsg s then say (str ''checksum error ... retry'' @ crlf) s else s)
          else
            let (ok, s) = flush_rec fd s in
            if \<not> ok then Some (4, s)
            else if onestop s then Some (4, s)
            else if allstop s then Some (5, s)
            else Some (0, s))"

definition getrec :: "bool \<Rightarrow> rem \<Rightarrow> (nat \<times> rem) option" where
  "getrec fd s = do {
     let (c, s) = fresh s;
     (c, s) \<leftarrow> rdline c s;
     if c = ESC then do { s \<leftarrow> message s; Some (2, s) }
     else if c = CAN then
       Some (3, if bufptr s > 0 then (snd (wfile fd (take (nat (bufptr s)) (rbuf s)) s))\<lparr>bufptr := 0\<rparr> else s)
     else if c = STX then do {
       (high_count, s) \<leftarrow> rdline c s;
       (low_count, s) \<leftarrow> rdline high_count s;
       let n_to_read = s16 (sint high_count * 256 + sint low_count);
       (n_read, csum, c, s) \<leftarrow> data_loop (nat n_to_read) 0 0 low_count s;
       rec_end fd n_to_read n_read csum c s }
     else Some (4, say (crlf @ str ''illegal first character in block transfer sequence'' @ crlf) s) }"

text \<open>The loop of \<open>load\<close> over the records.\<close>

partial_function (option) load_loop :: "bool \<Rightarrow> rem \<Rightarrow> rem option" where
  "load_loop fd s = Option.bind (getrec fd (s\<lparr>r_timeout := False\<rparr>)) (\<lambda>(r, s).
     if r = 0 then load_loop fd (wline ACK (rputchar 46 s))
     else if r = 1 then load_loop fd (wline NAK s)
     else if r = 2 then load_loop fd s
     else if r = 3 then Some (wline ACK (say crlf s))
     else if r = 4 then load_loop fd (wline CAN s)
     else load_loop fd (wline ESC s))"

text \<open>The question whether to replace a file: \<open>y\<close> or the user's answer.\<close>

definition ask_replace :: "(byte list \<Rightarrow> bool) \<Rightarrow> byte \<Rightarrow> byte list \<Rightarrow> rem \<Rightarrow> (byte \<times> rem) option" where
  "ask_replace exists flags fname s =
     (if flags AND QUERY \<noteq> 0 \<and> exists fname then do {
        (c, s) \<leftarrow> getkey (say (str ''replace '' @ fname @ str '' (y/n)?'') s);
        Some (c AND 127, say ([c AND 127] @ crlf) s) }
      else Some (121, s))"

text \<open>From \<open>creat\<close> on.\<close>

definition receive :: "(byte list \<Rightarrow> bool) \<Rightarrow> byte \<Rightarrow> byte list \<Rightarrow> rem \<Rightarrow> rem option" where
  "receive can_creat flags fname s =
     (let s = say (crlf @ fname) s;
          pmode = (if flags AND EXEC \<noteq> 0 then 493 else 420);
          fd = can_creat fname;
          s = (if fd then wline ACK (s\<lparr>creats := creats s @ [(fname, pmode)], dfile := []\<rparr>)
            else wline CAN (say (str '' ... unable to open file on local system'') s))
      in load_loop fd ((say crlf s)\<lparr>allstop := False, onestop := False\<rparr>))"

text \<open>
  \<open>exists\<close> and \<open>can_creat\<close> are the results of \<open>open\<close> and \<open>creat\<close> for a name. When the user does not want to
  replace the file, the call \<open>write(pterm &ack, 1)\<close>, with a missing comma, has another descriptor, the
  address 1 and no count; \<open>stray\<close> is what it sends to the line.
\<close>

definition load :: "(byte list \<Rightarrow> bool) \<Rightarrow> (byte list \<Rightarrow> bool) \<Rightarrow> byte list \<Rightarrow> rem \<Rightarrow> rem option" where
  "load exists can_creat stray s = do {
     let (flags, s) = fresh s;
     (flags, s) \<leftarrow> rdline flags (wline ACK s);
     let s = (wline ACK s)\<lparr>printmsg := (flags AND FATAL = 0)\<rparr>;
     (r, s) \<leftarrow> getname s;
     case r of
       None \<Rightarrow> Some s
     | Some fname \<Rightarrow> do {
         (c, s) \<leftarrow> ask_replace exists flags fname s;
         if c \<noteq> 121 then let (c, s) = aread c (wline CAN s) in Some (s\<lparr>tx := tx s @ stray\<rparr>)
         else receive can_creat flags fname s } }"


section \<open>Sending\<close>

definition frame :: "byte list \<Rightarrow> byte list" where
  "frame bs = [STX, word_of_nat (length bs div 256), word_of_nat (length bs - length bs div 256 * 256)] @ bs @ [ETX, foldl (XOR) 0 bs]"

partial_function (option) send_try :: "byte list \<Rightarrow> rem \<Rightarrow> (byte \<times> rem) option" where
  "send_try buffer s =
     Option.bind (rdline NAK (s\<lparr>tx := tx s @ frame buffer\<rparr>)) (\<lambda>(c, s).
       if c = NAK then send_try buffer (if printmsg s then say (str ''checksum error ... retry'' @ crlf) s else s)
       else Some (c, s))"

text \<open>The bytes of the file that are left, and the result 0 or 1 of \<open>sendrec\<close>.\<close>

definition sendrec :: "byte list \<Rightarrow> byte list \<Rightarrow> rem \<Rightarrow> (bool \<times> byte list \<times> rem) option" where
  "sendrec fname data s =
     (if data \<noteq> [] then do {
        (c, s) \<leftarrow> send_try (take XFERSIZ data) s;
        let rest = drop XFERSIZ data;
        let abort = crlf @ fname @ str '' ... transfer aborted'' @ crlf;
        if c = CAN \<or> onestop s then Some (True, rest, wline CAN (say abort s))
        else if allstop s then Some (True, rest, wline ESC (say abort s))
        else if c \<noteq> ACK then Some (True, rest, wline CAN (say (str ''illegal acknowledge character received'' @ crlf) s))
        else Some (False, rest, s) }
      else Some (True, data, wline EOT s))"

partial_function (option) send_loop :: "byte list \<Rightarrow> byte list \<Rightarrow> rem \<Rightarrow> rem option" where
  "send_loop fname data s = Option.bind (sendrec fname data s) (\<lambda>(r, data, s).
     if r then Some s else send_loop fname data (rputchar 46 s))"

text \<open>\<open>src\<close> gives the bytes of a file that \<open>open\<close> finds and whether it is executable.\<close>

definition send :: "(byte list \<Rightarrow> (byte list \<times> bool) option) \<Rightarrow> rem \<Rightarrow> rem option" where
  "send src s = do {
     let (flags, s) = fresh s;
     let (c0, s) = fresh s;
     (flags, s) \<leftarrow> rdline flags (wline ACK s);
     let s = (wline ACK s)\<lparr>printmsg := (flags AND FATAL = 0)\<rparr>;
     (r, s) \<leftarrow> getname s;
     case r of
       None \<Rightarrow> Some s
     | Some fname \<Rightarrow> do {
         let s = say (crlf @ fname) s;
         s \<leftarrow> (case src fname of
             None \<Rightarrow> do {
               (c, s) \<leftarrow> rdline c0 (wline CAN (say ([10, 10] @ str ''unable to open file on local system'' @ crlf) s));
               Some (if c \<noteq> CAN then say (str ''unexpected character received from remote system'' @ crlf) s else s) }
           | Some (data, executable) \<Rightarrow>
               if data \<noteq> [] then do {
                 let s = (say crlf (wline (if executable then EXEC else ACK) s))\<lparr>allstop := False, onestop := False\<rparr>;
                 s \<leftarrow> send_loop fname data s;
                 Some (say crlf s) }
               else do {
                 (c, s) \<leftarrow> rdline c0 (wline CAN (say (str '' on local system has length of zero'' @ [10]) s));
                 Some (if c \<noteq> CAN then say (str ''unexpected character received from remote system'' @ [10]) s else s) });
         Some (wline ACK s) } }"

end
