(* ===== verification/Putfile.thy ===== *)
theory Putfile
  imports Remote
begin

text \<open>
  \<open>src/putfile.c\<close> of the ZEUS tape: the program on the second system that sends files over its terminal line
  to the system where \<open>remote\<close> runs. Standard output is not buffered, as it is a terminal. The names of files
  and what \<open>open\<close>, \<open>fstat\<close> and \<open>read\<close> find are an argument. The program's terminal modes and its final report
  are left out; the counts of the report are part of the state.
\<close>

abbreviation "RETRIES \<equiv> 10 :: nat"

record pfile =
  is_dir :: bool
  is_exec :: bool
  contents :: "byte list"

record put =
  pin :: "event list"
  pout :: "byte list"
  pflags :: byte
  acknak :: byte
  p_timeout :: bool
  success :: int
  unsuccess :: int

definition pprint :: "byte list \<Rightarrow> put \<Rightarrow> put" where
  "pprint bs s = s\<lparr>pout := pout s @ bs\<rparr>"

text \<open>\<open>scanf("%c", &acknak)\<close>, and the same with an alarm set. A signal of the user ends the program.\<close>

definition scan :: "put \<Rightarrow> put option" where
  "scan s = do {
     (e, es) \<leftarrow> next_event (pin s);
     case e of Rx b \<Rightarrow> Some (s\<lparr>pin := es, acknak := b\<rparr>) | _ \<Rightarrow> None }"

definition alarm_scan :: "put \<Rightarrow> put option" where
  "alarm_scan s =
     (case pin s of
        [] \<Rightarrow> Some (s\<lparr>p_timeout := True\<rparr>)
      | Rx b # es \<Rightarrow> Some (s\<lparr>p_timeout := False, pin := es, acknak := b\<rparr>)
      | Silence # es \<Rightarrow> Some (s\<lparr>p_timeout := True, pin := es\<rparr>)
      | _ # es \<Rightarrow> None)"

text \<open>The part of the path name after the last slash, and its checksum.\<close>

fun strip :: "byte list \<Rightarrow> byte \<Rightarrow> byte list \<Rightarrow> byte list \<times> byte" where
  "strip fname checksum [] = (fname, checksum)"
| "strip fname checksum (c # cs) = (if c = 47 then strip cs 0 cs else strip fname (checksum XOR c) cs)"

text \<open>The loops over the attempts, with \<open>n\<close> left.\<close>

primrec name_tries :: "nat \<Rightarrow> byte list \<Rightarrow> byte \<Rightarrow> put \<Rightarrow> put option" where
  "name_tries 0 fname checksum s = Some s"
| "name_tries (Suc n) fname checksum s =
     (if acknak s = ACK then Some s
      else do {
        s \<leftarrow> scan (pprint ([STX] @ fname @ [ETX, checksum]) s);
        if acknak s = CAN then Some s else name_tries n fname checksum s })"

primrec block_tries :: "nat \<Rightarrow> byte list \<Rightarrow> put \<Rightarrow> put option" where
  "block_tries 0 buffer s = Some s"
| "block_tries (Suc n) buffer s =
     (if acknak s = ACK then Some s
      else do {
        s \<leftarrow> alarm_scan (pprint (frame buffer) s);
        if p_timeout s then block_tries n buffer s
        else if acknak s = CAN \<or> acknak s = ESC then Some s
        else block_tries n buffer s })"

definition new_to_ret :: "byte \<Rightarrow> byte list \<Rightarrow> byte list" where
  "new_to_ret flags bs = (if flags AND (BINARY OR ALLBIN) = 0 then map (\<lambda>b. if b = 10 then 13 else b) bs else bs)"

function put_blocks :: "byte list \<Rightarrow> byte list \<Rightarrow> put \<Rightarrow> put option" where
  "put_blocks fname data s =
     (if data = [] then Some s
      else Option.bind (block_tries RETRIES (new_to_ret (pflags s) (take XFERSIZ data)) (s\<lparr>acknak := NAK\<rparr>)) (\<lambda>s.
        if acknak s \<noteq> ACK then Some (pprint ([ESC] @ fname @ str '' ... transfer aborted'' @ [13, 10, ETX]) s)
        else put_blocks fname (drop XFERSIZ data) s))"
  by pat_completeness auto
termination by (relation "measure (\<lambda>(_, data, _). length data)") auto

text \<open>The request, the flag byte, and their acknowledgements.\<close>

definition put_hello :: "put \<Rightarrow> put option" where
  "put_hello s = do {
     s \<leftarrow> scan (pprint [SOH, ESC, 76] s);
     let s = (if pflags s AND ALLBIN \<noteq> 0 then s\<lparr>pflags := pflags s OR BINARY\<rparr> else s);
     scan (pprint [pflags s] s) }"

text \<open>The name and the records; the result also tells whether to go on with the next argument.\<close>

definition put_body :: "byte list \<Rightarrow> byte \<Rightarrow> byte list \<Rightarrow> put \<Rightarrow> (bool \<times> put) option" where
  "put_body fname checksum data s = do {
     s \<leftarrow> name_tries RETRIES fname checksum (s\<lparr>acknak := NAK\<rparr>);
     s \<leftarrow> (if acknak s = ACK then do {
         s \<leftarrow> put_blocks fname data s;
         Some (if acknak s = ACK then s\<lparr>success := success s + 1\<rparr> else s\<lparr>unsuccess := unsuccess s + 1\<rparr>) }
       else Some s);
     let s = pprint [CAN] s;
     if acknak s = ESC then do { s \<leftarrow> scan s; Some (False, s) }
     else do { s \<leftarrow> scan s; Some (True, s\<lparr>pflags := pflags s AND NOT (BINARY OR EXEC)\<rparr>) } }"

text \<open>A file of the command line.\<close>

definition put_file :: "(byte list \<Rightarrow> pfile option) \<Rightarrow> byte list \<Rightarrow> put \<Rightarrow> (bool \<times> put) option" where
  "put_file fs arg s =
     (case fs arg of
        None \<Rightarrow> Some (True, (pprint ([10] @ arg @ [10, 10] @ str ''unable to open file on remote system'' @ [13, 10]) s)\<lparr>unsuccess := unsuccess s + 1\<rparr>)
      | Some f \<Rightarrow>
          if is_dir f then Some (True, (pprint ([10] @ arg @ [10, 10] @ str ''unable to transfer directory file from remote system'' @ [13, 10]) s)\<lparr>unsuccess := unsuccess s + 1\<rparr>)
          else
            let s = (if is_exec f then s\<lparr>pflags := pflags s OR EXEC\<rparr> else s) in
            if contents f = [] then Some (True, pprint ([10] @ arg @ str '' on remote system has length of zero'' @ [10]) s)
            else do {
              s \<leftarrow> put_hello s;
              let (fname, checksum) = strip arg 0 arg;
              put_body fname checksum (contents f) s })"

definition put_option :: "byte list \<Rightarrow> put \<Rightarrow> put" where
  "put_option arg s =
     (let c = (if length arg > 1 then arg ! 1 else 0);
          f = (if c = 98 then BINARY else if c = 113 then QUERY else if c = 102 then FATAL else if c = 66 then ALLBIN else 0)
      in s\<lparr>pflags := pflags s OR f\<rparr>)"

primrec putfile_args :: "(byte list \<Rightarrow> pfile option) \<Rightarrow> byte list list \<Rightarrow> put \<Rightarrow> put option" where
  "putfile_args fs [] s = Some s"
| "putfile_args fs (arg # args) s =
     (if arg \<noteq> [] \<and> hd arg = 45 then putfile_args fs args (put_option arg s)
      else do { (more, s) \<leftarrow> put_file fs arg s; if more then putfile_args fs args s else Some s })"

definition putfile_main :: "(byte list \<Rightarrow> pfile option) \<Rightarrow> byte list list \<Rightarrow> event list \<Rightarrow> put option" where
  "putfile_main fs args es = putfile_args fs args
     \<lparr>pin = es, pout = [], pflags = 0, acknak = 0, p_timeout = False, success = 0, unsuccess = 0\<rparr>"

end
