(* ===== verification/Remote_Spec.thy ===== *)
theory Remote_Spec
  imports Putfile
begin

text \<open>
  The transfer of a file from \<open>putfile\<close> to \<open>remote\<close>. Records that arrive spoiled, in a way that the count, the
  end mark, the checksum or the alarm shows, are asked for again and leave no trace; the file that is written
  is what was sent.
\<close>

section \<open>Reading\<close>

lemma rdline_Rx: "rx s = Rx b # es \<Longrightarrow> rdline c s = Some (b, s\<lparr>rx := es\<rparr>)"
  by (simp add: rdline_def)

lemma aread_Rx: "rx s = Rx b # es \<Longrightarrow> aread c s = (b, s\<lparr>r_timeout := False, rx := es\<rparr>)"
  by (simp add: aread_def)

lemma aread_Silence: "rx s = Silence # es \<Longrightarrow> aread c s = (c, s\<lparr>r_timeout := True, rx := es\<rparr>)"
  by (simp add: aread_def)


section \<open>The buffer of a record\<close>

definition buf_ok :: "rem \<Rightarrow> bool" where
  "buf_ok s \<longleftrightarrow> length (rbuf s) = 2 * RECSIZ \<and> 0 \<le> bufptr s \<and> bufptr s \<le> int RECSIZ"

definition received :: "rem \<Rightarrow> byte list" where
  "received s = dfile s @ take (nat (bufptr s)) (rbuf s)"

text \<open>The state after \<open>bs\<close> was stored in the buffer and the line has \<open>es\<close> left.\<close>

definition stored :: "byte list \<Rightarrow> event list \<Rightarrow> rem \<Rightarrow> rem" where
  "stored bs es s = s\<lparr>rx := es, r_timeout := False, bufptr := bufptr s + int (length bs),
     rbuf := take (nat (bufptr s)) (rbuf s) @ bs @ drop (nat (bufptr s) + length bs) (rbuf s)\<rparr>"

lemma put_buf_stored:
  assumes "0 \<le> bufptr s" "bufptr s < int (length (rbuf s))" "length (rbuf s) = 2 * RECSIZ"
  shows "put_buf b (s\<lparr>r_timeout := False, rx := es\<rparr>) = Some (stored [b] es s)"
  using assms by (simp add: put_buf_def stored_def upd_conv_take_nth_drop)

lemma stored_stored:
  assumes "0 \<le> bufptr s" "bufptr s + int (length as) \<le> int (length (rbuf s))"
  shows "stored bs es (stored as es' s) = stored (as @ bs) es s"
proof -
  obtain p where p: "bufptr s = int p" using assms(1) nonneg_int_cases by blast
  have l: "p + length as \<le> length (rbuf s)" using assms(2) p by simp
  have e: "nat (int p + int (length as)) = p + length as" by simp
  show ?thesis unfolding stored_def p using l by (simp add: e min_absorb2 ac_simps)
qed

lemma stored_simps [simp]: "rx (stored bs es s) = es" "r_timeout (stored bs es s) = False" "bufptr (stored bs es s) = bufptr s + int (length bs)"
  by (simp_all add: stored_def)

lemma length_stored:
  assumes "0 \<le> bufptr s" "bufptr s + int (length bs) \<le> int (length (rbuf s))"
  shows "length (rbuf (stored bs es s)) = length (rbuf s)"
proof -
  obtain p where p: "bufptr s = int p" using assms(1) nonneg_int_cases by blast
  then show ?thesis using assms(2) unfolding stored_def by simp
qed

lemma data_loop_all:
  assumes "rx s = map Rx bs @ es" "0 \<le> bufptr s" "bufptr s + int (length bs) \<le> 2 * int RECSIZ" "length (rbuf s) = 2 * RECSIZ" "\<not> r_timeout s"
  shows "\<exists>c'. data_loop (length bs) k x c s = Some (k + int (length bs), foldl (XOR) x bs, c', stored bs es s)"
  using assms
proof (induction bs arbitrary: k x c s)
  case Nil
  have "stored [] es s = s" using Nil(1,5) by (cases s) (simp add: stored_def)
  then show ?case by simp
next
  case (Cons b bs)
  let ?u = "stored [b] (map Rx bs @ es) s"
  have a: "aread c s = (b, s\<lparr>r_timeout := False, rx := map Rx bs @ es\<rparr>)" using Cons.prems(1) by (intro aread_Rx) simp
  have u: "put_buf b (s\<lparr>r_timeout := False, rx := map Rx bs @ es\<rparr>) = Some ?u" by (rule put_buf_stored) (use Cons.prems in auto)
  have v: "stored bs es ?u = stored (b # bs) es s" using stored_stored [of s "[b]" bs es] Cons.prems by simp
  have "\<exists>c'. data_loop (length bs) (k + 1) (x XOR b) b ?u = Some (k + 1 + int (length bs), foldl (XOR) (x XOR b) bs, c', stored bs es ?u)"
    by (rule Cons.IH) (use Cons.prems length_stored [of s "[b]"] in auto)
  then show ?case using a u v by (simp add: add.assoc)
qed

lemma data_loop_silence:
  assumes "rx s = map Rx bs @ Silence # es" "0 \<le> bufptr s" "bufptr s + int (length bs) \<le> 2 * int RECSIZ" "length (rbuf s) = 2 * RECSIZ"
    "\<not> r_timeout s" "length bs < n"
  shows "\<exists>c' x'. data_loop n k x c s = Some (k + int (length bs), x', c', (stored bs es s)\<lparr>r_timeout := True\<rparr>)"
  using assms
proof (induction bs arbitrary: n k x c s)
  case Nil
  obtain m where m: "n = Suc m" using Nil(6) by (cases n) auto
  have a: "aread c s = (c, s\<lparr>r_timeout := True, rx := es\<rparr>)" using Nil(1) by (intro aread_Silence) simp
  have "(stored [] es s)\<lparr>r_timeout := True\<rparr> = s\<lparr>r_timeout := True, rx := es\<rparr>" by (cases s) (simp add: stored_def)
  then show ?case using a m by simp
next
  case (Cons b bs)
  obtain m where m: "n = Suc m" using Cons.prems(6) by (cases n) auto
  let ?u = "stored [b] (map Rx bs @ Silence # es) s"
  have a: "aread c s = (b, s\<lparr>r_timeout := False, rx := map Rx bs @ Silence # es\<rparr>)" using Cons.prems(1) by (intro aread_Rx) simp
  have u: "put_buf b (s\<lparr>r_timeout := False, rx := map Rx bs @ Silence # es\<rparr>) = Some ?u" by (rule put_buf_stored) (use Cons.prems in auto)
  have v: "stored bs es ?u = stored (b # bs) es s" using stored_stored [of s "[b]" bs es] Cons.prems by simp
  have "\<exists>c' x'. data_loop m (k + 1) (x XOR b) b ?u = Some (k + 1 + int (length bs), x', c', (stored bs es ?u)\<lparr>r_timeout := True\<rparr>)"
    by (rule Cons.IH) (use Cons.prems length_stored [of s "[b]"] m in auto)
  then show ?case using a u v m by (simp add: add.assoc)
qed


section \<open>Records\<close>

text \<open>The count in front of a record, and the attempts that fail.\<close>

definition head :: "nat \<Rightarrow> byte list" where
  "head n = [STX, word_of_nat (n div 256), word_of_nat (n - n div 256 * 256)]"

inductive spoiled :: "event list \<Rightarrow> bool" where
  lost: "length bs < n \<Longrightarrow> n < 128 \<Longrightarrow> spoiled (map Rx (head n @ bs) @ [Silence])"
| no_end: "length bs < 128 \<Longrightarrow> spoiled (map Rx (head (length bs) @ bs) @ [Silence])"
| bad_end: "length bs < 128 \<Longrightarrow> b \<noteq> ETX \<Longrightarrow> spoiled (map Rx (head (length bs) @ bs @ [b]))"
| no_sum: "length bs < 128 \<Longrightarrow> spoiled (map Rx (head (length bs) @ bs @ [ETX]) @ [Silence])"
| bad_sum: "length bs < 128 \<Longrightarrow> x \<noteq> foldl (XOR) 0 bs \<Longrightarrow> spoiled (map Rx (head (length bs) @ bs @ [ETX, x]))"

lemma sint_small: "n < 128 \<Longrightarrow> sint (word_of_nat n :: byte) = int n"
  by (simp add: signed_of_nat signed_take_bit_int_eq_self)

lemma getrec_head:
  assumes "rx s = map Rx (head n) @ es" "n < 128"
  shows "getrec fd s = Option.bind (data_loop n 0 0 (word_of_nat n) (s\<lparr>n_junk := n_junk s + 1, rx := es\<rparr>))
    (\<lambda>(n_read, csum, c, s). rec_end fd (int n) n_read csum c s)"
proof -
  have h: "n div 256 = 0" "n - n div 256 * 256 = n" using assms(2) by auto
  have x: "s16 (sint (word_of_nat n :: byte)) = int n" using assms(2) by (simp add: sint_small s16_id)
  show ?thesis using assms(1) x h by (simp add: getrec_def fresh_def rdline_Rx head_def Let_def)
qed

text \<open>The state for the data of a record, and after it.\<close>

definition ready :: "rem \<Rightarrow> bool" where
  "ready s \<longleftrightarrow> buf_ok s \<and> \<not> onestop s \<and> \<not> allstop s \<and> (\<forall>k n. wrres s k n = int n)"

lemma getrec_data:
  assumes "rx s = map Rx (head (length bs) @ bs) @ es" "length bs < 128" "ready s" "\<not> r_timeout s"
  shows "\<exists>c. getrec fd s = rec_end fd (int (length bs)) (int (length bs)) (foldl (XOR) 0 bs) c (stored bs es (s\<lparr>n_junk := n_junk s + 1\<rparr>))"
proof -
  let ?u = "s\<lparr>n_junk := n_junk s + 1, rx := map Rx bs @ es\<rparr>"
  have "\<exists>c'. data_loop (length bs) 0 0 (word_of_nat (length bs)) ?u = Some (0 + int (length bs), foldl (XOR) 0 bs, c', stored bs es ?u)"
    by (rule data_loop_all) (use assms in \<open>auto simp: ready_def buf_ok_def\<close>)
  moreover have "stored bs es ?u = stored bs es (s\<lparr>n_junk := n_junk s + 1\<rparr>)" by (simp add: stored_def)
  ultimately show ?thesis using getrec_head [of s "length bs" "map Rx bs @ es" fd] assms(1,2) by auto
qed

text \<open>The call went from \<open>s\<close> to \<open>t\<close>, received \<open>bs\<close>, answered \<open>ws\<close> and left \<open>es\<close> on the line.\<close>

definition went :: "rem \<Rightarrow> byte list \<Rightarrow> byte list \<Rightarrow> event list \<Rightarrow> rem \<Rightarrow> bool" where
  "went s bs ws es t \<longleftrightarrow> ready t \<and> rx t = es \<and> tx t = tx s @ ws \<and> creats t = creats s \<and> received t = received s @ bs"

abbreviation got :: "rem \<Rightarrow> byte list \<Rightarrow> event list \<Rightarrow> rem \<Rightarrow> bool" where
  "got s bs \<equiv> went s bs []"

lemma frame_head: "frame bs = head (length bs) @ bs @ [ETX, foldl (XOR) 0 bs]"
  by (simp add: frame_def head_def)

lemma received_stored:
  assumes "buf_ok s" "length bs \<le> RECSIZ"
  shows "take (nat (bufptr s)) (rbuf (stored bs es s)) = take (nat (bufptr s)) (rbuf s)"
    "take (nat (bufptr s) + length bs) (rbuf (stored bs es s)) = take (nat (bufptr s)) (rbuf s) @ bs"
    "length (rbuf (stored bs es s)) = 2 * RECSIZ"
  using assms length_stored [of s bs es] by (auto simp: buf_ok_def stored_def min_def)

text \<open>A record that is given up.\<close>

lemma got_back:
  assumes "ready s" "length bs \<le> RECSIZ"
  shows "got s [] es' (buf_back (int (length bs)) ((stored bs es (s\<lparr>n_junk := k\<rparr>))\<lparr>r_timeout := b, rx := es'\<rparr>))"
proof -
  have "buf_ok (s\<lparr>n_junk := k\<rparr>)" using assms(1) by (simp add: ready_def buf_ok_def)
  note r = received_stored [OF this assms(2)]
  have d: "dfile (stored bs es (s\<lparr>n_junk := k\<rparr>)) = dfile s" by (simp add: stored_def)
  show ?thesis using r assms(1) d
    by (simp add: went_def ready_def buf_back_def buf_ok_def received_def) (simp add: stored_def)
qed

lemma got_say: "got s bs es (say x t) = got s bs es t"
  by (simp add: went_def ready_def say_def buf_ok_def received_def)

lemma getrec_spoiled:
  assumes "spoiled as" "rx s = as @ es" "ready s" "\<not> r_timeout s"
  shows "\<exists>t. getrec fd s = Some (1, t) \<and> got s [] es t"
  using assms
proof (induction rule: spoiled.induct)
  case (lost bs n)
  let ?u = "s\<lparr>n_junk := n_junk s + 1, rx := map Rx bs @ Silence # es\<rparr>"
  have "\<exists>c' x'. data_loop n 0 0 (word_of_nat n) ?u = Some (0 + int (length bs), x', c', (stored bs es ?u)\<lparr>r_timeout := True\<rparr>)"
    by (rule data_loop_silence) (use lost in \<open>auto simp: ready_def buf_ok_def\<close>)
  then have "getrec fd s = Some (1, buf_back (int (length bs)) ((stored bs es ?u)\<lparr>r_timeout := True\<rparr>))"
    using getrec_head [of s n "map Rx bs @ Silence # es" fd] lost by (auto simp: rec_end_def)
  moreover have "(stored bs es ?u)\<lparr>r_timeout := True\<rparr> = (stored bs es (s\<lparr>n_junk := n_junk s + 1\<rparr>))\<lparr>r_timeout := True, rx := es\<rparr>"
    by (simp add: stored_def)
  ultimately show ?case using got_back [OF lost(4), where bs = bs and es = es and es' = es and k = "n_junk s + 1" and b = True] lost(1,2) by simp
next
  case (no_end bs)
  let ?t = "stored bs (Silence # es) (s\<lparr>n_junk := n_junk s + 1\<rparr>)"
  obtain c where c: "getrec fd s = rec_end fd (int (length bs)) (int (length bs)) (foldl (XOR) 0 bs) c ?t"
    using getrec_data [of s bs "Silence # es" fd] no_end by auto
  then show ?case using got_back [OF no_end(3), where bs = bs and es = "Silence # es" and es' = es and k = "n_junk s + 1" and b = True] no_end(1)
    by (simp add: rec_end_def aread_Silence)
next
  case (bad_end bs b)
  let ?t = "stored bs (Rx b # es) (s\<lparr>n_junk := n_junk s + 1\<rparr>)"
  obtain c where c: "getrec fd s = rec_end fd (int (length bs)) (int (length bs)) (foldl (XOR) 0 bs) c ?t"
    using getrec_data [of s bs "Rx b # es" fd] bad_end by auto
  then show ?case using got_back [OF bad_end(4), where bs = bs and es = "Rx b # es" and es' = es and k = "n_junk s + 1" and b = False] bad_end(1,2)
    by (simp add: rec_end_def aread_Rx)
next
  case (no_sum bs)
  let ?t = "stored bs (Rx ETX # Silence # es) (s\<lparr>n_junk := n_junk s + 1\<rparr>)"
  obtain c where c: "getrec fd s = rec_end fd (int (length bs)) (int (length bs)) (foldl (XOR) 0 bs) c ?t"
    using getrec_data [of s bs "Rx ETX # Silence # es" fd] no_sum by auto
  then show ?case using got_back [OF no_sum(3), where bs = bs and es = "Rx ETX # Silence # es" and es' = es and k = "n_junk s + 1" and b = True] no_sum(1)
    by (simp add: rec_end_def aread_Rx aread_Silence)
next
  case (bad_sum bs x)
  let ?t = "stored bs (Rx ETX # Rx x # es) (s\<lparr>n_junk := n_junk s + 1\<rparr>)"
  obtain c where c: "getrec fd s = rec_end fd (int (length bs)) (int (length bs)) (foldl (XOR) 0 bs) c ?t"
    using getrec_data [of s bs "Rx ETX # Rx x # es" fd] bad_sum by auto
  then show ?case using got_back [OF bad_sum(4), where bs = bs and es = "Rx ETX # Rx x # es" and es' = es and k = "n_junk s + 1" and b = False] bad_sum(1,2)
    by (simp add: rec_end_def aread_Rx Let_def got_say)
qed

lemma getrec_frame:
  assumes "rx s = map Rx (frame bs) @ es" "length bs < 128" "ready s" "\<not> r_timeout s"
  shows "\<exists>t. getrec True s = Some (0, t) \<and> got s bs es t"
proof -
  let ?t = "stored bs (Rx ETX # Rx (foldl (XOR) 0 bs) # es) (s\<lparr>n_junk := n_junk s + 1\<rparr>)"
  let ?u = "?t\<lparr>r_timeout := False, rx := es\<rparr>"
  obtain c where c: "getrec True s = rec_end True (int (length bs)) (int (length bs)) (foldl (XOR) 0 bs) c ?t"
    using getrec_data [of s bs "Rx ETX # Rx (foldl (XOR) 0 bs) # es" True] assms by (auto simp: frame_head)
  have f: "tx ?t = tx s" "creats ?t = creats s" "wrres ?t = wrres s" "onestop ?t = onestop s" "allstop ?t = allstop s" "dfile ?t = dfile s"
    by (simp_all add: stored_def)
  have "buf_ok (s\<lparr>n_junk := n_junk s + 1\<rparr>)" using assms(3) by (simp add: ready_def buf_ok_def)
  note r = received_stored [OF this, of bs "Rx ETX # Rx (foldl (XOR) 0 bs) # es"]
  have b: "0 \<le> bufptr s" "bufptr s \<le> int RECSIZ" using assms(3) by (simp_all add: ready_def buf_ok_def)
  show ?thesis
  proof (cases "bufptr s + int (length bs) > int RECSIZ")
    case False
    then have "getrec True s = Some (0, ?u)" using c f assms(3) by (simp add: rec_end_def aread_Rx flush_rec_def ready_def)
    moreover have "nat (bufptr s + int (length bs)) = nat (bufptr s) + length bs" using b by (simp add: nat_add_distrib)
    ultimately show ?thesis using False r b assms(2,3) f by (simp add: went_def ready_def buf_ok_def received_def)
  next
    case True
    let ?b = "rbuf ?t"
    let ?v = "?u\<lparr>n_wr := n_wr ?u + 1, dfile := dfile s @ take RECSIZ ?b, rbuf := take RECSIZ (drop RECSIZ ?b) @ drop RECSIZ ?b,
      bufptr := bufptr s + int (length bs) - int RECSIZ\<rparr>"
    have l: "length ?b = 2 * RECSIZ" using r(3) assms(2) by simp
    have "flush_rec True ?u = (True, ?v)"
      using True l f assms(3) by (simp add: flush_rec_def wfile_def ready_def Let_def)
    then have "getrec True s = Some (0, ?v)" using c f assms(3) by (simp add: rec_end_def aread_Rx ready_def)
    moreover obtain p where p: "bufptr s = int p" "p \<le> RECSIZ" using b nonneg_int_cases by fastforce
    have "take RECSIZ ?b @ take (p + length bs - RECSIZ) (drop RECSIZ ?b) = take (p + length bs) ?b"
      using True p take_add [of RECSIZ "p + length bs - RECSIZ" ?b] by simp
    then have "take RECSIZ ?b @ take (p + length bs - RECSIZ) (take RECSIZ (drop RECSIZ ?b) @ drop RECSIZ ?b) = take p (rbuf s) @ bs"
      using r(2) p assms(2) l by (simp add: min_def)
    moreover have "nat (int p + int (length bs) - int RECSIZ) = p + length bs - RECSIZ" by simp
    ultimately show ?thesis using True p l assms(2,3) f
      by (simp add: went_def ready_def buf_ok_def received_def)
  qed
qed

lemma went_trans: "went s as vs es t \<Longrightarrow> went t bs ws es' u \<Longrightarrow> went s (as @ bs) (vs @ ws) es' u"
  by (simp add: went_def)


section \<open>The loop over the records\<close>

lemma load_one_spoiled:
  assumes "spoiled a" "rx s = a @ es" "ready s"
  shows "\<exists>t. load_loop fd s = load_loop fd t \<and> went s [] [NAK] es t"
proof -
  let ?s = "s\<lparr>r_timeout := False\<rparr>"
  obtain t where t: "getrec fd ?s = Some (1, t)" "got ?s [] es t"
    using getrec_spoiled [OF assms(1), of ?s es fd] assms(2,3) by (auto simp: ready_def buf_ok_def)
  have "load_loop fd s = load_loop fd (wline NAK t)" using t(1) by (subst load_loop.simps) simp
  moreover have "went s [] [NAK] es (wline NAK t)" using t(2) by (simp add: went_def ready_def wline_def buf_ok_def received_def)
  ultimately show ?thesis by blast
qed

lemma load_frame:
  assumes "rx s = map Rx (frame bs) @ es" "length bs < 128" "ready s"
  shows "\<exists>t. load_loop True s = load_loop True t \<and> went s bs [ACK] es t"
proof -
  let ?s = "s\<lparr>r_timeout := False\<rparr>"
  obtain t where t: "getrec True ?s = Some (0, t)" "got ?s bs es t"
    using getrec_frame [of ?s bs es] assms by (auto simp: ready_def buf_ok_def)
  have "load_loop True s = load_loop True (wline ACK (rputchar 46 t))" using t(1) by (subst load_loop.simps) simp
  moreover have "went s bs [ACK] es (wline ACK (rputchar 46 t))"
    using t(2) by (simp add: went_def ready_def wline_def rputchar_def buf_ok_def received_def)
  ultimately show ?thesis by blast
qed

text \<open>Every record after its spoiled copies; the answers.\<close>

definition arriving :: "(event list list \<times> byte list) list \<Rightarrow> event list" where
  "arriving rs = concat (map (\<lambda>(as, bs). concat as @ map Rx (frame bs)) rs)"

definition answers :: "(event list list \<times> byte list) list \<Rightarrow> byte list" where
  "answers rs = concat (map (\<lambda>(as, bs). replicate (length as) NAK @ [ACK]) rs)"

text \<open>
  What the loop over the records relies on: a spoiled record is refused and leaves no trace, a good one is
  accepted. Then the loop gets through any sequence of records with any number of spoiled copies.
\<close>

locale record_receiver =
  fixes loop :: "'s \<Rightarrow> 's option" and moved :: "'s \<Rightarrow> byte list \<Rightarrow> byte list \<Rightarrow> event list \<Rightarrow> 's \<Rightarrow> bool"
    and wire :: "'s \<Rightarrow> event list" and fit :: "'s \<Rightarrow> bool" and bad :: "event list \<Rightarrow> bool" and good :: "byte list \<Rightarrow> bool"
  assumes refuse: "bad a \<Longrightarrow> wire s = a @ es \<Longrightarrow> fit s \<Longrightarrow> \<exists>t. loop s = loop t \<and> moved s [] [NAK] es t"
    and accept: "good bs \<Longrightarrow> wire s = map Rx (frame bs) @ es \<Longrightarrow> fit s \<Longrightarrow> \<exists>t. loop s = loop t \<and> moved s bs [ACK] es t"
    and moved_fit: "moved s bs ws es t \<Longrightarrow> fit t \<and> wire t = es"
    and moved_refl: "fit s \<Longrightarrow> moved s [] [] (wire s) s"
    and moved_trans: "moved s as vs es t \<Longrightarrow> moved t bs ws es' u \<Longrightarrow> moved s (as @ bs) (vs @ ws) es' u"
begin

lemma refuse_all:
  assumes "\<forall>a \<in> set as. bad a" "wire s = concat as @ es" "fit s"
  shows "\<exists>t. loop s = loop t \<and> moved s [] (replicate (length as) NAK) es t"
  using assms
proof (induction as arbitrary: s)
  case Nil
  then show ?case using moved_refl [of s] by auto
next
  case (Cons a as)
  obtain t where t: "loop s = loop t" "moved s [] [NAK] (concat as @ es) t" using refuse [of a s "concat as @ es"] Cons.prems by auto
  obtain u where u: "loop t = loop u" "moved t [] (replicate (length as) NAK) es u"
    using Cons.IH [of t] Cons.prems(1) moved_fit [OF t(2)] by auto
  show ?case using t(1) u(1) moved_trans [OF t(2) u(2)] by auto
qed

lemma accept_all:
  assumes "\<forall>(as, bs) \<in> set rs. (\<forall>a \<in> set as. bad a) \<and> good bs" "wire s = arriving rs @ es" "fit s"
  shows "\<exists>t. loop s = loop t \<and> moved s (concat (map snd rs)) (answers rs) es t"
  using assms
proof (induction rs arbitrary: s)
  case Nil
  then show ?case using moved_refl [of s] by (auto simp: arriving_def answers_def)
next
  case (Cons r rs)
  obtain as bs where r: "r = (as, bs)" by fastforce
  obtain t where t: "loop s = loop t" "moved s [] (replicate (length as) NAK) (map Rx (frame bs) @ arriving rs @ es) t"
    using refuse_all [of as s "map Rx (frame bs) @ arriving rs @ es"] Cons.prems r by (auto simp: arriving_def)
  obtain u where u: "loop t = loop u" "moved t bs [ACK] (arriving rs @ es) u"
    using accept [of bs t "arriving rs @ es"] Cons.prems(1) moved_fit [OF t(2)] r by auto
  obtain v where v: "loop u = loop v" "moved u (concat (map snd rs)) (answers rs) es v"
    using Cons.IH [of u] Cons.prems(1) moved_fit [OF u(2)] by auto
  show ?case using t(1) u(1) v(1) moved_trans [OF moved_trans [OF t(2) u(2)] v(2)] r by (auto simp: answers_def)
qed

end

interpretation remote: record_receiver "load_loop True" went rx ready spoiled "\<lambda>bs. length bs < 128"
proof
  show "\<exists>t. load_loop True s = load_loop True t \<and> went s [] [NAK] es t" if "spoiled a" "rx s = a @ es" "ready s" for a s es
    using load_one_spoiled [OF that] .
  show "\<exists>t. load_loop True s = load_loop True t \<and> went s bs [ACK] es t" if "length bs < 128" "rx s = map Rx (frame bs) @ es" "ready s" for bs s es
    using load_frame [OF that(2,1,3)] .
  show "ready t \<and> rx t = es" if "went s bs ws es t" for s bs ws es t using that by (simp add: went_def)
  show "went s [] [] (rx s) s" if "ready s" for s using that by (simp add: went_def)
  show "went s (as @ bs) (vs @ ws) es' u" if "went s as vs es t" "went t bs ws es' u" for s as vs es t bs ws es' u using went_trans [OF that] .
qed

text \<open>The end of the file.\<close>

lemma load_end:
  assumes "rx s = Rx CAN # es" "ready s"
  shows "\<exists>t. load_loop True s = Some t \<and> dfile t = received s \<and> tx t = tx s @ [ACK] \<and> rx t = es \<and> bufptr t = 0 \<and> ready t \<and> creats t = creats s"
proof -
  let ?s = "s\<lparr>r_timeout := False, n_junk := n_junk s + 1, rx := es\<rparr>"
  let ?t = "if bufptr s > 0 then (snd (wfile True (take (nat (bufptr s)) (rbuf s)) ?s))\<lparr>bufptr := 0\<rparr> else ?s"
  have "getrec True (s\<lparr>r_timeout := False\<rparr>) = Some (3, ?t)" using assms(1) by (simp add: getrec_def fresh_def rdline_Rx)
  then have "load_loop True s = Some (wline ACK (say crlf ?t))" by (subst load_loop.simps) simp
  moreover have "dfile ?t = received s" using assms(2) by (auto simp: ready_def buf_ok_def received_def wfile_def Let_def)
  ultimately show ?thesis using assms(2) by (auto simp: ready_def buf_ok_def wfile_def wline_def say_def Let_def)
qed

lemma load_loop_file:
  assumes "\<forall>(as, bs) \<in> set rs. (\<forall>a \<in> set as. spoiled a) \<and> length bs < 128" "rx s = arriving rs @ Rx CAN # es" "ready s"
  shows "\<exists>t. load_loop True s = Some t \<and> dfile t = received s @ concat (map snd rs) \<and> tx t = tx s @ answers rs @ [ACK] \<and> rx t = es
    \<and> bufptr t = 0 \<and> ready t \<and> creats t = creats s"
proof -
  obtain t where t: "load_loop True s = load_loop True t" "went s (concat (map snd rs)) (answers rs) (Rx CAN # es) t"
    using remote.accept_all [OF assms] by blast
  then show ?thesis using load_end [of t es] by (auto simp: went_def)
qed


section \<open>Names\<close>

text \<open>A name with a wrong checksum.\<close>

inductive spoiled_name :: "event list \<Rightarrow> bool" where
  "length cs \<le> NAMSIZ \<Longrightarrow> ETX \<notin> set cs \<Longrightarrow> x \<noteq> foldl (XOR) 0 cs \<Longrightarrow> spoiled_name (map Rx ([STX] @ cs @ [ETX, x]))"

lemma name_loop_name:
  assumes "length cs < n" "ETX \<notin> set cs" "rx s = map Rx (cs @ [ETX, x]) @ es"
  shows "name_loop n name c csum s = Some (Some (name @ cs, x = foldl (XOR) csum cs), x, s\<lparr>rx := es\<rparr>)"
  using assms
proof (induction cs arbitrary: n name c csum s)
  case Nil
  then show ?case by (cases n) (auto simp: rdline_Rx)
next
  case (Cons b cs)
  then obtain m where m: "n = Suc m" by (cases n) auto
  have "rdline c s = Some (b, s\<lparr>rx := map Rx (cs @ [ETX, x]) @ es\<rparr>)" using Cons.prems(3) by (intro rdline_Rx) simp
  moreover have "b \<noteq> ETX" using Cons.prems(2) by auto
  ultimately show ?case
    using Cons.IH [of m "s\<lparr>rx := map Rx (cs @ [ETX, x]) @ es\<rparr>" "name @ [b]" b "csum XOR b"] Cons.prems m by simp
qed

lemma getname_spoiled:
  assumes "\<forall>a \<in> set as. spoiled_name a" "rx s = concat as @ es"
  shows "\<exists>c' t. getname_loop c s = getname_loop c' t \<and> rx t = es \<and> tx t = tx s @ replicate (length as) NAK
    \<and> t = s\<lparr>rx := rx t, tx := tx t, scr := scr t\<rparr>"
  using assms
proof (induction as arbitrary: c s)
  case Nil
  then show ?case by (intro exI [of _ c] exI [of _ s]) simp
next
  case (Cons a as)
  obtain cs x where a: "a = map Rx ([STX] @ cs @ [ETX, x])" "length cs \<le> NAMSIZ" "ETX \<notin> set cs" "x \<noteq> foldl (XOR) 0 cs"
    using Cons.prems(1) by (auto elim: spoiled_name.cases)
  let ?s = "s\<lparr>rx := map Rx (cs @ [ETX, x]) @ concat as @ es\<rparr>" and ?t = "s\<lparr>rx := concat as @ es\<rparr>"
  let ?u = "wline NAK (if printmsg s then say (str ''checksum error ... retry'' @ crlf) ?t else ?t)"
  have r: "rdline c s = Some (STX, ?s)" using Cons.prems(2) a(1) by (intro rdline_Rx) simp
  have n: "name_loop (NAMSIZ + 1) [] STX 0 ?s = Some (Some (cs, x = foldl (XOR) 0 cs), x, ?t)"
    using name_loop_name [of cs "NAMSIZ + 1" ?s x "concat as @ es" "[]" STX 0] a(2,3) by simp
  have "getname_loop c s = getname_loop x ?u" using r n a(4) by (subst getname_loop.simps) simp
  moreover have "rx ?u = concat as @ es" "tx ?u = tx s @ [NAK]" by (auto simp: wline_def say_def)
  ultimately obtain c' v where v: "getname_loop c s = getname_loop c' v" "rx v = es" "tx v = (tx s @ [NAK]) @ replicate (length as) NAK"
    "v = ?u\<lparr>rx := rx v, tx := tx v, scr := scr v\<rparr>"
    using Cons.IH [of ?u x] Cons.prems(1) by auto
  have d: "v = s\<lparr>rx := rx v, tx := tx v, scr := scr v\<rparr>" using v(4) by (cases "printmsg s") (simp_all add: wline_def say_def)
  have "tx v = tx s @ replicate (length (a # as)) NAK" using v(3) by simp
  with v(1,2) d show ?case by blast
qed

lemma getname_name:
  assumes "\<forall>a \<in> set as. spoiled_name a" "rx s = concat as @ map Rx ([STX] @ name @ [ETX, foldl (XOR) 0 name]) @ es"
    "length name \<le> NAMSIZ" "ETX \<notin> set name"
  shows "\<exists>t. getname s = Some (Some name, t) \<and> rx t = es \<and> tx t = tx s @ replicate (length as) NAK
    \<and> t = s\<lparr>rx := rx t, tx := tx t, scr := scr t, n_junk := n_junk s + 1\<rparr>"
proof -
  let ?s = "s\<lparr>n_junk := n_junk s + 1\<rparr>"
  let ?n = "map Rx (name @ [ETX, foldl (XOR) 0 name]) @ es"
  obtain c t where t: "getname_loop (junk s (n_junk s)) ?s = getname_loop c t" "rx t = Rx STX # ?n"
    "tx t = tx s @ replicate (length as) NAK" "t = ?s\<lparr>rx := rx t, tx := tx t, scr := scr t\<rparr>"
    using getname_spoiled [OF assms(1), of ?s "Rx STX # ?n" "junk s (n_junk s)"] assms(2) by auto
  have n: "name_loop (NAMSIZ + 1) [] STX 0 (t\<lparr>rx := ?n\<rparr>) = Some (Some (name, True), foldl (XOR) 0 name, t\<lparr>rx := es\<rparr>)"
    using name_loop_name [of name "NAMSIZ + 1" "t\<lparr>rx := ?n\<rparr>" "foldl (XOR) 0 name" es "[]" STX 0] assms(3,4) by simp
  have "getname s = Some (Some name, t\<lparr>rx := es\<rparr>)" unfolding getname_def fresh_def using t(1) n rdline_Rx [OF t(2), of c]
    by (simp add: getname_loop.simps [of c t])
  moreover have "t\<lparr>rx := es\<rparr> = s\<lparr>rx := es, tx := tx t, scr := scr t, n_junk := n_junk s + 1\<rparr>" by (subst t(4)) simp
  ultimately show ?thesis using t(3) by (intro exI [of _ "t\<lparr>rx := es\<rparr>"]) auto
qed

section \<open>Loading a file\<close>

lemma unix_request:
  assumes "rx s = Rx SOH # Rx ESC # Rx c # es" "c = 81 \<or> c = 76 \<or> c = 83 \<or> c = 75"
  shows "unix_to_term s = Some (c, s\<lparr>n_junk := n_junk s + 1, rx := es\<rparr>)"
  using assms by (simp add: unix_to_term_def fresh_def unix_loop.simps rdline_Rx)

definition name_frame :: "byte list \<Rightarrow> byte list" where
  "name_frame name = [STX] @ name @ [ETX, foldl (XOR) 0 name]"

definition all_answers :: "event list list \<Rightarrow> (event list list \<times> byte list) list \<Rightarrow> byte list" where
  "all_answers nas rs = [ACK, ACK] @ replicate (length nas) NAK @ [ACK] @ answers rs @ [ACK]"

lemma load_file:
  assumes "rx s = Rx flags # concat nas @ map Rx (name_frame name) @ arriving rs @ Rx CAN # es"
    "\<forall>a \<in> set nas. spoiled_name a" "length name \<le> NAMSIZ" "ETX \<notin> set name"
    "\<forall>(as, bs) \<in> set rs. (\<forall>a \<in> set as. spoiled a) \<and> length bs < 128"
    "length (rbuf s) = 2 * RECSIZ" "bufptr s = 0" "\<forall>k n. wrres s k n = int n" "can_creat name" "flags AND QUERY = 0 \<or> \<not> exists name"
  shows "\<exists>t. load exists can_creat stray s = Some t \<and> dfile t = concat (map snd rs) \<and> tx t = tx s @ all_answers nas rs \<and> rx t = es
    \<and> creats t = creats s @ [(name, if flags AND EXEC \<noteq> 0 then 493 else 420)]"
proof -
  let ?r = "arriving rs @ Rx CAN # es"
  let ?s = "(wline ACK ((wline ACK (s\<lparr>n_junk := n_junk s + 1\<rparr>))\<lparr>rx := concat nas @ map Rx (name_frame name) @ ?r\<rparr>))\<lparr>printmsg := (flags AND FATAL = 0)\<rparr>"
  have "rx ?s = concat nas @ map Rx ([STX] @ name @ [ETX, foldl (XOR) 0 name]) @ ?r" by (simp add: wline_def name_frame_def)
  from getname_name [OF assms(2) this assms(3,4)]
  obtain t where t: "getname ?s = Some (Some name, t)" "rx t = ?r" "tx t = tx ?s @ replicate (length nas) NAK"
    "t = ?s\<lparr>rx := rx t, tx := tx t, scr := scr t, n_junk := n_junk ?s + 1\<rparr>" by blast
  have f: "rbuf t = rbuf s" "bufptr t = bufptr s" "wrres t = wrres s" "creats t = creats s" by (subst t(4), simp add: wline_def)+
  let ?m = "if flags AND EXEC \<noteq> 0 then 493 else 420"
  let ?u = "wline ACK ((say (crlf @ name) t)\<lparr>creats := creats t @ [(name, ?m)], dfile := []\<rparr>)"
  let ?v = "(say crlf ?u)\<lparr>allstop := False, onestop := False\<rparr>"
  have v: "rx ?v = arriving rs @ Rx CAN # es" "ready ?v" "received ?v = []" "tx ?v = tx s @ [ACK, ACK] @ replicate (length nas) NAK @ [ACK]"
    "creats ?v = creats s @ [(name, ?m)]"
    using t(2,3) f assms(6-8) by (simp_all add: wline_def say_def ready_def buf_ok_def received_def)
  obtain w where w: "load_loop True ?v = Some w" "dfile w = concat (map snd rs)" "tx w = tx ?v @ answers rs @ [ACK]" "rx w = es" "creats w = creats ?v"
    using load_loop_file [OF assms(5) v(1,2)] v(3) by auto
  have rv: "receive can_creat flags name t = Some w" using w(1) assms(9) by (simp add: receive_def Let_def say_def)
  have "ask_replace exists flags name t = Some (121, t)" using assms(10) by (auto simp: ask_replace_def)
  then have "load exists can_creat stray s = Some w"
    unfolding load_def fresh_def using rdline_Rx [of "wline ACK (s\<lparr>n_junk := n_junk s + 1\<rparr>)"] assms(1) t(1) rv
    by (simp add: wline_def)
  then show ?thesis using w v(4,5) by (simp add: all_answers_def)
qed

end
