(* ===== verification/Download.thy ===== *)
theory Download
  imports Remote_Spec
begin

text \<open>
  \<open>putfile\<close> driven by the answers of \<open>remote\<close>, and both together.
\<close>

section \<open>Sending with repetitions\<close>

lemma scan_Rx: "pin s = Rx b # es \<Longrightarrow> scan s = Some (s\<lparr>pin := es, acknak := b\<rparr>)"
  by (simp add: scan_def)

lemma name_tries_ok:
  assumes "pin s = map Rx (replicate k NAK @ [ACK]) @ es" "k < n" "acknak s \<noteq> ACK"
  shows "name_tries n name ck s = Some (s\<lparr>pin := es, acknak := ACK, pout := pout s @ concat (replicate (k + 1) ([STX] @ name @ [ETX, ck]))\<rparr>)"
  using assms
proof (induction k arbitrary: n s)
  case 0
  then obtain m where m: "n = Suc m" by (cases n) auto
  show ?case using 0 m by (cases m) (simp_all add: scan_def pprint_def)
next
  case (Suc k)
  then obtain m where m: "n = Suc m" by (cases n) auto
  let ?t = "s\<lparr>pout := pout s @ [STX] @ name @ [ETX, ck], pin := map Rx (replicate k NAK @ [ACK]) @ es, acknak := NAK\<rparr>"
  have "name_tries n name ck s = name_tries m name ck ?t" using Suc.prems m by (simp add: scan_def pprint_def)
  also have "\<dots> = Some (?t\<lparr>pin := es, acknak := ACK, pout := pout ?t @ concat (replicate (k + 1) ([STX] @ name @ [ETX, ck]))\<rparr>)"
    using Suc.prems m by (intro Suc.IH) simp_all
  finally show ?case by simp
qed

lemma block_tries_ok:
  assumes "pin s = map Rx (replicate k NAK @ [ACK]) @ es" "k < n" "acknak s \<noteq> ACK"
  shows "block_tries n bs s = Some (s\<lparr>p_timeout := False, pin := es, acknak := ACK, pout := pout s @ concat (replicate (k + 1) (frame bs))\<rparr>)"
  using assms
proof (induction k arbitrary: n s)
  case 0
  then obtain m where m: "n = Suc m" by (cases n) auto
  show ?case using 0 m by (cases m) (simp_all add: alarm_scan_def pprint_def)
next
  case (Suc k)
  then obtain m where m: "n = Suc m" by (cases n) auto
  let ?t = "s\<lparr>pout := pout s @ frame bs, p_timeout := False, pin := map Rx (replicate k NAK @ [ACK]) @ es, acknak := NAK\<rparr>"
  have "block_tries n bs s = block_tries m bs ?t" using Suc.prems m by (simp add: alarm_scan_def pprint_def)
  also have "\<dots> = Some (?t\<lparr>p_timeout := False, pin := es, acknak := ACK, pout := pout ?t @ concat (replicate (k + 1) (frame bs))\<rparr>)"
    using Suc.prems m by (intro Suc.IH) simp_all
  finally show ?case by simp
qed

text \<open>The blocks of a file.\<close>

function blocks :: "byte list \<Rightarrow> byte list list" where
  "blocks bs = (if bs = [] then [] else take XFERSIZ bs # blocks (drop XFERSIZ bs))"
  by pat_completeness auto
termination by (relation "measure length") auto

declare blocks.simps [simp del]
declare put_blocks.simps [simp del]

lemma blocks_concat: "concat (blocks bs) = bs"
  by (induction bs rule: blocks.induct) (subst blocks.simps, simp)

lemma blocks_short: "b \<in> set (blocks bs) \<Longrightarrow> length b \<le> XFERSIZ"
  by (induction bs rule: blocks.induct) (subst (asm) blocks.simps, auto split: if_splits)

text \<open>Each frame as often as it is asked for.\<close>

definition frames :: "(event list list \<times> byte list) list \<Rightarrow> byte list" where
  "frames rs = concat (map (\<lambda>(as, bs). concat (replicate (length as + 1) (frame bs))) rs)"

lemma put_blocks_ok:
  assumes "map snd rs = map (new_to_ret (pflags s)) (blocks data)" "\<forall>(as, bs) \<in> set rs. length as < RETRIES"
    "pin s = map Rx (answers rs) @ es" "acknak s = ACK" "\<not> p_timeout s"
  shows "put_blocks fname data s = Some (s\<lparr>pin := es, pout := pout s @ frames rs\<rparr>)"
  using assms
proof (induction rs arbitrary: data s)
  case Nil
  then have "data = []" by (cases "data = []") (auto simp: blocks.simps [of data])
  then show ?case using Nil by (simp add: put_blocks.simps answers_def frames_def)
next
  case (Cons r rs)
  obtain as bs where r: "r = (as, bs)" by fastforce
  have d: "data \<noteq> []" using Cons.prems(1) by (cases "data = []") (auto simp: blocks.simps [of "[]"])
  then have b: "bs = new_to_ret (pflags s) (take XFERSIZ data)" "map snd rs = map (new_to_ret (pflags s)) (blocks (drop XFERSIZ data))"
    using Cons.prems(1) r by (auto simp: blocks.simps [of data])
  let ?s = "s\<lparr>acknak := NAK\<rparr>"
  let ?t = "s\<lparr>pin := map Rx (answers rs) @ es, pout := pout s @ concat (replicate (length as + 1) (frame bs))\<rparr>"
  have "block_tries RETRIES bs ?s = Some (?s\<lparr>p_timeout := False, pin := map Rx (answers rs) @ es, acknak := ACK,
      pout := pout ?s @ concat (replicate (length as + 1) (frame bs))\<rparr>)"
    using Cons.prems r by (intro block_tries_ok) (auto simp: answers_def)
  moreover have "?s\<lparr>p_timeout := False, pin := map Rx (answers rs) @ es, acknak := ACK,
      pout := pout ?s @ concat (replicate (length as + 1) (frame bs))\<rparr> = ?t" using Cons.prems(4,5) by (cases s) simp
  ultimately have "put_blocks fname data s = put_blocks fname (drop XFERSIZ data) ?t"
    using d b(1) Cons.prems(4) by (subst put_blocks.simps) simp
  also have "\<dots> = Some (?t\<lparr>pin := es, pout := pout ?t @ frames rs\<rparr>)" using Cons.prems b(2) by (intro Cons.IH) auto
  finally show ?case using r by (simp add: frames_def)
qed


section \<open>The name\<close>

lemma strip_sum: "47 \<notin> set pre \<Longrightarrow> ck = foldl (XOR) 0 pre \<Longrightarrow> strip (pre @ cs) ck cs = (name, x) \<Longrightarrow> x = foldl (XOR) 0 name"
proof (induction cs arbitrary: pre ck)
  case (Cons c cs)
  show ?case
  proof (cases "c = 47")
    case True
    then show ?thesis using Cons.IH [of "[]" 0] Cons.prems(3) by simp
  next
    case False
    then show ?thesis using Cons.IH [of "pre @ [c]" "ck XOR c"] Cons.prems by simp
  qed
qed auto

lemma strip_checksum: "strip arg 0 arg = (name, x) \<Longrightarrow> x = foldl (XOR) 0 name"
  using strip_sum [of "[]" 0 arg name x] by simp


section \<open>A file\<close>

text \<open>The flag byte of a file.\<close>

definition file_flags :: "byte \<Rightarrow> pfile \<Rightarrow> byte" where
  "file_flags fl f = (let fl = (if is_exec f then fl OR EXEC else fl) in if fl AND ALLBIN \<noteq> 0 then fl OR BINARY else fl)"

lemma put_body_ok:
  assumes "map snd rs = map (new_to_ret (pflags p)) (blocks data)" "\<forall>(as, bs) \<in> set rs. length as < RETRIES" "length nas < RETRIES"
    "pin p = map Rx (replicate (length nas) NAK @ [ACK]) @ map Rx (answers rs @ [ACK]) @ es" "\<not> p_timeout p"
  shows "\<exists>q. put_body name (foldl (XOR) 0 name) data p = Some (True, q) \<and> success q = success p + 1 \<and> unsuccess q = unsuccess p \<and> pin q = es
    \<and> pout q = pout p @ concat (replicate (length nas + 1) (name_frame name)) @ frames rs @ [CAN]"
proof -
  let ?s = "p\<lparr>acknak := NAK\<rparr>"
  let ?t = "?s\<lparr>pin := map Rx (answers rs @ [ACK]) @ es, acknak := ACK, pout := pout ?s @ concat (replicate (length nas + 1) (name_frame name))\<rparr>"
  have t: "name_tries RETRIES name (foldl (XOR) 0 name) ?s = Some ?t"
    unfolding name_frame_def using assms(3,4) by (intro name_tries_ok) simp_all
  have u: "put_blocks name data ?t = Some (?t\<lparr>pin := map Rx [ACK] @ es, pout := pout ?t @ frames rs\<rparr>)"
    using assms(1,2,5) by (intro put_blocks_ok) simp_all
  show ?thesis using t u by (simp add: put_body_def scan_def pprint_def)
qed

lemma put_hello_ok:
  assumes "pin p = Rx a # Rx b # es"
  shows "put_hello p = Some (p\<lparr>pflags := (if pflags p AND ALLBIN \<noteq> 0 then pflags p OR BINARY else pflags p), pin := es, acknak := b,
    pout := pout p @ [SOH, ESC, 76, if pflags p AND ALLBIN \<noteq> 0 then pflags p OR BINARY else pflags p]\<rparr>)"
  using assms by (cases p) (simp add: put_hello_def scan_def pprint_def Let_def)

lemma put_file_ok:
  assumes "fs arg = Some f" "\<not> is_dir f" "contents f \<noteq> []" "fst (strip arg 0 arg) = name" "flags = file_flags (pflags p) f"
    "map snd rs = map (new_to_ret flags) (blocks (contents f))" "\<forall>(as, bs) \<in> set rs. length as < RETRIES" "length nas < RETRIES"
    "pin p = map Rx (all_answers nas rs) @ es" "\<not> p_timeout p"
  shows "\<exists>q. put_file fs arg p = Some (True, q) \<and> success q = success p + 1 \<and> unsuccess q = unsuccess p \<and> pin q = es
    \<and> pout q = pout p @ [SOH, ESC, 76, flags] @ concat (replicate (length nas + 1) (name_frame name)) @ frames rs @ [CAN]"
proof -
  have n: "strip arg 0 arg = (name, foldl (XOR) 0 name)" using assms(4) strip_checksum by (cases "strip arg 0 arg") auto
  let ?a = "map Rx (replicate (length nas) NAK @ [ACK]) @ map Rx (answers rs @ [ACK]) @ es"
  let ?p = "if is_exec f then p\<lparr>pflags := pflags p OR EXEC\<rparr> else p"
  let ?s = "?p\<lparr>pflags := flags, pin := ?a, acknak := ACK, pout := pout p @ [SOH, ESC, 76, flags]\<rparr>"
  have "pin ?p = Rx ACK # Rx ACK # ?a" using assms(9) by (simp add: all_answers_def)
  from put_hello_ok [OF this] have h: "put_hello ?p = Some ?s" using assms(5) by (auto simp: file_flags_def Let_def)
  have "put_file fs arg p = put_body name (foldl (XOR) 0 name) (contents f) ?s" using assms(1-3) n h by (simp add: put_file_def Let_def)
  moreover have "\<exists>q. put_body name (foldl (XOR) 0 name) (contents f) ?s = Some (True, q) \<and> success q = success ?s + 1 \<and> unsuccess q = unsuccess ?s
      \<and> pin q = es \<and> pout q = pout ?s @ concat (replicate (length nas + 1) (name_frame name)) @ frames rs @ [CAN]"
    using assms(6-8,10) by (intro put_body_ok) simp_all
  ultimately show ?thesis by (cases "is_exec f") simp_all
qed


section \<open>Both programs\<close>

lemma new_to_ret_concat: "concat (map (new_to_ret fl) bss) = new_to_ret fl (concat bss)"
  by (induction bss) (auto simp: new_to_ret_def)

lemma records_short:
  assumes "map snd rs = map (new_to_ret fl) (blocks data)" "(as, bs) \<in> set rs"
  shows "length bs < 128"
proof -
  have "bs \<in> set (map (new_to_ret fl) (blocks data))" using assms by (metis image_eqI image_set snd_conv)
  then obtain b where "b \<in> set (blocks data)" "bs = new_to_ret fl b" by auto
  then show ?thesis using blocks_short [of b data] by (simp add: new_to_ret_def split: if_splits)
qed

lemma records_concat:
  assumes "map snd rs = map (new_to_ret fl) (blocks data)"
  shows "concat (map snd rs) = new_to_ret fl data"
  unfolding assms by (simp add: new_to_ret_concat blocks_concat)

text \<open>The user does not want the file to be replaced.\<close>

lemma load_refused:
  assumes "rx s = Rx flags # map Rx (name_frame name) @ Rx CAN # es" "length name \<le> NAMSIZ" "ETX \<notin> set name"
    "flags AND QUERY \<noteq> 0" "exists name" "keys s = k # ks" "k AND 127 \<noteq> 121"
  shows "\<exists>t. load exists can_creat stray s = Some t \<and> tx t = tx s @ [ACK, ACK, CAN] @ stray \<and> creats t = creats s"
proof -
  let ?r = "Rx CAN # es"
  let ?s = "(wline ACK ((wline ACK (s\<lparr>n_junk := n_junk s + 1\<rparr>))\<lparr>rx := map Rx (name_frame name) @ ?r\<rparr>))\<lparr>printmsg := (flags AND FATAL = 0)\<rparr>"
  have "rx ?s = concat [] @ map Rx ([STX] @ name @ [ETX, foldl (XOR) 0 name]) @ ?r" by (simp add: wline_def name_frame_def)
  from getname_name [OF _ this assms(2,3)]
  obtain t where t: "getname ?s = Some (Some name, t)" "rx t = ?r" "tx t = tx ?s"
    "t = ?s\<lparr>rx := rx t, tx := tx t, scr := scr t, n_junk := n_junk ?s + 1\<rparr>" by auto
  have f: "keys t = k # ks" "creats t = creats s" by (subst t(4), simp add: wline_def assms(6))+
  obtain u where u: "ask_replace exists flags name t = Some (k AND 127, u)" "rx u = rx t" "tx u = tx t" "creats u = creats t"
    using assms(4,5) f(1) by (auto simp: ask_replace_def getkey_def say_def)
  have "load exists can_creat stray s = (let (c, s) = aread (k AND 127) (wline CAN u) in Some (s\<lparr>tx := tx s @ stray\<rparr>))"
    unfolding load_def fresh_def using rdline_Rx [of "wline ACK (s\<lparr>n_junk := n_junk s + 1\<rparr>)"] assms(1,7) t(1) u(1)
    by (simp add: wline_def)
  also have "aread (k AND 127) (wline CAN u) = (CAN, (wline CAN u)\<lparr>r_timeout := False, rx := es\<rparr>)"
    using u(2) t(2) by (intro aread_Rx) (simp add: wline_def)
  finally show ?thesis using u(3,4) t(3) f(2) by (simp add: wline_def)
qed

lemma put_refused:
  assumes "fs arg = Some f" "\<not> is_dir f" "contents f \<noteq> []" "pin p = map Rx [ACK, ACK, CAN]"
  shows "put_file fs arg p = None"
proof -
  let ?p = "if is_exec f then p\<lparr>pflags := pflags p OR EXEC\<rparr> else p"
  obtain name ck where n: "strip arg 0 arg = (name, ck)" by fastforce
  have "pin ?p = Rx ACK # Rx ACK # [Rx CAN]" using assms(4) by simp
  from put_hello_ok [OF this] obtain s where s: "put_hello ?p = Some s" "pin s = [Rx CAN]" by auto
  have "name_tries RETRIES name ck (s\<lparr>acknak := NAK\<rparr>) = Some (s\<lparr>pout := pout s @ [STX] @ name @ [ETX, ck], pin := [], acknak := CAN\<rparr>)"
    using s(2) name_tries.simps(2) [of 9 name ck "s\<lparr>acknak := NAK\<rparr>"] by (simp add: scan_def pprint_def)
  then have "put_body name ck (contents f) s = None" by (simp add: put_body_def scan_def pprint_def)
  then show ?thesis using assms(1-3) n s(1) by (simp add: put_file_def Let_def)
qed

end
