(* ===== verification/Getfile.thy ===== *)
theory Getfile
  imports Putfile
begin

text \<open>
  \<open>src/getfile.c\<close> of the ZEUS tape: the program on the second system that asks \<open>remote\<close> for files, and \<open>src/local.c\<close>,
  which ends the session. A character that an alarm interrupts is read as \<open>EOF\<close>, the byte 255. The record goes
  to an array of 64 characters; an index outside of it has no result.
\<close>

record get =
  gin :: "event list"
  gout :: "byte list"
  gflags :: byte
  gc :: byte
  gack :: byte
  g_timeout :: bool
  gbuf :: "byte list"
  gfile :: "byte list"
  gcreats :: "(byte list \<times> int) list"
  gwrres :: "nat \<Rightarrow> nat \<Rightarrow> int"
  gn_wr :: nat
  gsuccess :: int
  gunsuccess :: int

definition gprint :: "byte list \<Rightarrow> get \<Rightarrow> get" where
  "gprint bs s = s\<lparr>gout := gout s @ bs\<rparr>"

text \<open>\<open>getchar\<close> and \<open>scanf\<close> without and with an alarm.\<close>

definition gchar :: "get \<Rightarrow> (byte \<times> get) option" where
  "gchar s = do {
     (e, es) \<leftarrow> next_event (gin s);
     case e of Rx b \<Rightarrow> Some (b, s\<lparr>gin := es\<rparr>) | _ \<Rightarrow> None }"

definition alarm_gchar :: "get \<Rightarrow> (byte \<times> get) option" where
  "alarm_gchar s =
     (case gin s of
        [] \<Rightarrow> Some (255, s\<lparr>g_timeout := True\<rparr>)
      | Rx b # es \<Rightarrow> Some (b, s\<lparr>g_timeout := False, gin := es\<rparr>)
      | Silence # es \<Rightarrow> Some (255, s\<lparr>g_timeout := True, gin := es\<rparr>)
      | _ # es \<Rightarrow> None)"

definition garead :: "get \<Rightarrow> get option" where
  "garead s = do { (b, s) \<leftarrow> alarm_gchar s; Some (s\<lparr>gc := b\<rparr>) }"

definition gscan_ack :: "get \<Rightarrow> get option" where
  "gscan_ack s = do { (b, s) \<leftarrow> gchar s; Some (s\<lparr>gack := b\<rparr>) }"

definition gscan :: "get \<Rightarrow> get option" where
  "gscan s = do { (b, s) \<leftarrow> gchar s; Some (s\<lparr>gc := b\<rparr>) }"

partial_function (option) look_for_etx :: "get \<Rightarrow> get option" where
  "look_for_etx s =
     (if gc s = ETX then garead s
      else Option.bind (garead s) (\<lambda>s. if g_timeout s then Some s else look_for_etx s))"

definition ret_to_new :: "byte \<Rightarrow> byte \<Rightarrow> byte" where
  "ret_to_new flags b = (if b = 13 \<and> flags AND (BINARY OR ALLBIN) = 0 then 10 else b)"

text \<open>The data of a record, with \<open>n\<close> characters to come at index \<open>j\<close>.\<close>

primrec get_data :: "nat \<Rightarrow> nat \<Rightarrow> byte \<Rightarrow> get \<Rightarrow> (byte \<times> get) option" where
  "get_data 0 j checksum s = Some (checksum, s)"
| "get_data (Suc n) j checksum s = do {
     (b, s) \<leftarrow> alarm_gchar s;
     if j \<ge> XFERSIZ then None
     else if g_timeout s then Some (checksum, s\<lparr>gbuf := (gbuf s)[j := b]\<rparr>)
     else get_data n (j + 1) (checksum XOR b) (s\<lparr>gbuf := (gbuf s)[j := ret_to_new (gflags s) b]\<rparr>) }"

definition gwrite :: "byte list \<Rightarrow> get \<Rightarrow> int \<times> get" where
  "gwrite bs s =
     (let r = gwrres s (gn_wr s) (length bs)
      in (r, s\<lparr>gn_wr := gn_wr s + 1, gfile := gfile s @ take (nat r) bs\<rparr>))"

text \<open>A record after its count; the result tells whether a write failed.\<close>

definition attempt_data :: "nat \<Rightarrow> get \<Rightarrow> (bool \<times> get) option" where
  "attempt_data n s = do {
     (checksum, s) \<leftarrow> get_data n 0 0 s;
     if g_timeout s then Some (False, s)
     else do {
       s \<leftarrow> garead s;
       if \<not> g_timeout s \<and> gc s \<noteq> ETX then do { s \<leftarrow> look_for_etx s; Some (False, s) }
       else do {
         s \<leftarrow> garead s;
         if \<not> g_timeout s \<and> gc s = checksum then
           let (n_written, s) = gwrite (take n (gbuf s)) s in
           if n_written \<noteq> int n then Some (True, gprint ([CAN] @ str ''disk write error'' @ crlf) s)
           else Some (False, s\<lparr>gack := ACK\<rparr>)
         else Some (False, s) } } }"

text \<open>A record after its first character.\<close>

definition get_attempt :: "get \<Rightarrow> (bool \<times> get) option" where
  "get_attempt s =
     (if gc s \<noteq> STX then do { s \<leftarrow> look_for_etx s; Some (False, s) }
      else do {
        (high_count, s) \<leftarrow> gchar s;
        (low_count, s) \<leftarrow> gchar s;
        attempt_data (unat high_count * 256 + unat low_count) s })"

text \<open>\<open>NAK\<close> until a character comes.\<close>

partial_function (option) nak_loop :: "get \<Rightarrow> get option" where
  "nak_loop s = Option.bind (garead (gprint [gack s] s)) (\<lambda>s. if g_timeout s then nak_loop s else Some s)"

text \<open>The attempts for a record, with \<open>n\<close> left.\<close>

primrec get_tries :: "nat \<Rightarrow> get \<Rightarrow> get option" where
  "get_tries 0 s = Some s"
| "get_tries (Suc n) s =
     (if gack s = ACK then Some s
      else do {
        (failed, s) \<leftarrow> get_attempt s;
        if failed then Some s
        else if gack s = ACK then get_tries n (gprint [ACK] s)
        else if n > 0 then do { s \<leftarrow> nak_loop s; get_tries n s }
        else Some (gprint [CAN] s) })"

partial_function (option) get_records :: "get \<Rightarrow> get option" where
  "get_records s = Option.bind (gscan s) (\<lambda>s.
     if gc s = CAN \<or> gc s = ESC \<or> gc s = EOT then Some s
     else Option.bind (get_tries RETRIES (s\<lparr>gack := NAK\<rparr>)) get_records)"

primrec get_name_tries :: "nat \<Rightarrow> byte list \<Rightarrow> byte \<Rightarrow> get \<Rightarrow> get option" where
  "get_name_tries 0 fname checksum s = Some s"
| "get_name_tries (Suc n) fname checksum s =
     (if gack s = ACK \<or> gack s = EXEC then Some s
      else do {
        s \<leftarrow> gscan_ack (gprint ([STX] @ fname @ [ETX, checksum]) s);
        if gack s = CAN then Some s else get_name_tries n fname checksum s })"

text \<open>From the acknowledged name to the end of the file; the result tells whether to go on.\<close>

definition get_body :: "(byte list \<Rightarrow> bool) \<Rightarrow> byte list \<Rightarrow> get \<Rightarrow> (bool \<times> get) option" where
  "get_body can_creat fname s = do {
     s \<leftarrow> (if can_creat fname then
         get_records (s\<lparr>gcreats := gcreats s @ [(fname, if gack s AND EXEC \<noteq> 0 then 493 else 420)], gfile := []\<rparr>)
       else do {
         s \<leftarrow> look_for_etx s;
         gscan (gprint ([CAN, 10, 10] @ str ''unable to open file on remote system'' @ [13, 10]) s) });
     let s = (if gc s = EOT then s\<lparr>gsuccess := gsuccess s + 1\<rparr> else s\<lparr>gunsuccess := gunsuccess s + 1\<rparr>);
     if gc s = ESC then do { s \<leftarrow> gscan s; Some (False, s) }
     else do { s \<leftarrow> gscan s; Some (True, s) } }"

definition get_request :: "(byte list \<Rightarrow> bool) \<Rightarrow> byte list \<Rightarrow> get \<Rightarrow> (bool \<times> get) option" where
  "get_request can_creat arg s = do {
     s \<leftarrow> gscan_ack (gprint [SOH, ESC, 83] s);
     let s = (if gflags s AND ALLBIN \<noteq> 0 then s\<lparr>gflags := gflags s OR BINARY\<rparr> else s);
     s \<leftarrow> gscan_ack (gprint [gflags s] s);
     let (fname, checksum) = strip arg 0 arg;
     s \<leftarrow> get_name_tries RETRIES fname checksum (s\<lparr>gack := NAK\<rparr>);
     if gack s \<noteq> ACK \<and> gack s \<noteq> EXEC then do {
       s \<leftarrow> gscan ((gprint [CAN] s)\<lparr>gunsuccess := gunsuccess s + 1\<rparr>);
       Some (True, s) }
     else get_body can_creat fname s }"

text \<open>A file of the command line. The answer to the question comes from the same line.\<close>

definition get_file :: "(byte list \<Rightarrow> bool) \<Rightarrow> (byte list \<Rightarrow> bool) \<Rightarrow> byte list \<Rightarrow> get \<Rightarrow> (bool \<times> get) option" where
  "get_file exists can_creat arg s = do {
     (c, s) \<leftarrow> (if gflags s AND QUERY \<noteq> 0 \<and> exists arg then do {
         (b, s) \<leftarrow> gchar (gprint (str ''replace '' @ arg @ str '' (y/n)?'') s);
         Some (b AND 127, gprint [b AND 127, 13, 10] s) }
       else Some (121, s));
     let s = s\<lparr>gc := c\<rparr>;
     if c = 121 then do {
       (more, s) \<leftarrow> get_request can_creat arg s;
       if more then Some (True, s\<lparr>gflags := gflags s AND NOT BINARY\<rparr>) else Some (False, s) }
     else Some (True, s\<lparr>gflags := gflags s AND NOT BINARY\<rparr>) }"

definition get_option :: "byte list \<Rightarrow> get \<Rightarrow> get" where
  "get_option arg s =
     (let c = (if length arg > 1 then arg ! 1 else 0);
          f = (if c = 98 then BINARY else if c = 113 then QUERY else if c = 102 then FATAL else if c = 66 then ALLBIN else 0)
      in s\<lparr>gflags := gflags s OR f\<rparr>)"

primrec getfile_args :: "(byte list \<Rightarrow> bool) \<Rightarrow> (byte list \<Rightarrow> bool) \<Rightarrow> byte list list \<Rightarrow> get \<Rightarrow> get option" where
  "getfile_args exists can_creat [] s = Some s"
| "getfile_args exists can_creat (arg # args) s =
     (if arg \<noteq> [] \<and> hd arg = 45 then getfile_args exists can_creat args (get_option arg s)
      else do { (more, s) \<leftarrow> get_file exists can_creat arg s; if more then getfile_args exists can_creat args s else Some s })"

text \<open>
  \<open>local\<close>: what it writes to the line, given the characters that come back. \<open>login\<close> tells whether it runs in the
  login shell.
\<close>

definition local_main :: "bool \<Rightarrow> byte list list \<Rightarrow> byte list \<Rightarrow> byte list option" where
  "local_main login args answer =
     (if \<not> login then Some (str ''Not login shell'' @ [10])
      else case answer of
        [] \<Rightarrow> None
      | c # _ \<Rightarrow>
          if args \<noteq> [] \<and> take 2 (hd args) = [45, 108] then Some [SOH, ESC, 75, c] else Some [SOH, ESC, 81])"

end
