(* ===== verification/Upload.thy ===== *)
theory Upload
  imports Download Getfile
begin

text \<open>
  The transfer in the other direction: \<open>getfile\<close> asks, \<open>send\<close> of \<open>remote\<close> answers. A record that arrives spoiled is
  asked for again, at most nine times; the file that is written is the file that was sent, with the returns
  of a text turned into new lines.
\<close>

section \<open>Reading\<close>

definition gready :: "get \<Rightarrow> bool" where
  "gready s \<longleftrightarrow> length (gbuf s) = XFERSIZ \<and> (\<forall>k n. gwrres s k n = int n) \<and> \<not> g_timeout s"

text \<open>\<open>t\<close> differs from \<open>s\<close> in what a record changes: \<open>bs\<close> is written, \<open>ws\<close> is answered, \<open>es\<close> is left.\<close>

definition gwent :: "get \<Rightarrow> byte list \<Rightarrow> byte list \<Rightarrow> event list \<Rightarrow> get \<Rightarrow> bool" where
  "gwent s bs ws es t \<longleftrightarrow> length (gbuf t) = XFERSIZ \<and> gwrres t = gwrres s \<and> gin t = es \<and> gout t = gout s @ ws \<and> gfile t = gfile s @ bs
     \<and> gflags t = gflags s \<and> gcreats t = gcreats s \<and> gsuccess t = gsuccess s \<and> gunsuccess t = gunsuccess s"

lemma gwent_trans: "gwent s as vs es t \<Longrightarrow> gwent t bs ws es' u \<Longrightarrow> gwent s (as @ bs) (vs @ ws) es' u"
  by (simp add: gwent_def)

lemma gchar_Rx: "gin s = Rx b # es \<Longrightarrow> gchar s = Some (b, s\<lparr>gin := es\<rparr>)"
  by (simp add: gchar_def)

lemma garead_Rx: "gin s = Rx b # es \<Longrightarrow> garead s = Some (s\<lparr>g_timeout := False, gin := es, gc := b\<rparr>)"
  by (simp add: garead_def alarm_gchar_def)

lemma garead_Silence: "gin s = Silence # es \<Longrightarrow> garead s = Some (s\<lparr>g_timeout := True, gin := es, gc := 255\<rparr>)"
  by (simp add: garead_def alarm_gchar_def)

lemma get_data_all:
  assumes "gin s = map Rx bs @ es" "j + length bs \<le> XFERSIZ" "length (gbuf s) = XFERSIZ" "\<not> g_timeout s"
  shows "get_data (length bs) j x s = Some (foldl (XOR) x bs, s\<lparr>gin := es,
    gbuf := take j (gbuf s) @ map (ret_to_new (gflags s)) bs @ drop (j + length bs) (gbuf s)\<rparr>)"
  using assms
proof (induction bs arbitrary: j x s)
  case Nil
  then show ?case by (cases s) simp
next
  case (Cons b bs)
  let ?s = "s\<lparr>g_timeout := False, gin := map Rx bs @ es\<rparr>"
  let ?t = "?s\<lparr>gbuf := (gbuf s)[j := ret_to_new (gflags s) b]\<rparr>"
  have a: "alarm_gchar s = Some (b, ?s)" using Cons.prems(1) by (simp add: alarm_gchar_def)
  have j: "j < XFERSIZ" using Cons.prems(2) by simp
  have "get_data (length (b # bs)) j x s = get_data (length bs) (j + 1) (x XOR b) ?t" using a j by simp
  also have "\<dots> = Some (foldl (XOR) (x XOR b) bs, ?t\<lparr>gin := es, gbuf := take (j + 1) (gbuf ?t) @ map (ret_to_new (gflags ?t)) bs @ drop (j + 1 + length bs) (gbuf ?t)\<rparr>)"
    using Cons.prems j by (intro Cons.IH) simp_all
  also have "take (j + 1) (gbuf ?t) = take j (gbuf s) @ [ret_to_new (gflags s) b]" using j Cons.prems(3) by (simp add: take_Suc_conv_app_nth)
  also have "drop (j + 1 + length bs) (gbuf ?t) = drop (j + length (b # bs)) (gbuf s)" using j by simp
  finally show ?case using Cons.prems(4) by (cases s) simp
qed

lemma get_data_silence:
  assumes "gin s = map Rx bs @ Silence # es" "j + length bs < XFERSIZ" "length (gbuf s) = XFERSIZ" "length bs < n"
  shows "\<exists>y buf. get_data n j x s = Some (y, s\<lparr>g_timeout := True, gin := es, gbuf := buf\<rparr>) \<and> length buf = XFERSIZ"
  using assms
proof (induction bs arbitrary: n j x s)
  case Nil
  then obtain m where "n = Suc m" by (cases n) auto
  then have "get_data n j x s = Some (x, s\<lparr>g_timeout := True, gin := es, gbuf := (gbuf s)[j := 255]\<rparr>)" using Nil by (simp add: alarm_gchar_def)
  then show ?case using Nil(3) by (metis length_list_update)
next
  case (Cons b bs)
  obtain m where m: "n = Suc m" using Cons.prems(4) by (cases n) auto
  let ?t = "s\<lparr>g_timeout := False, gin := map Rx bs @ Silence # es, gbuf := (gbuf s)[j := ret_to_new (gflags s) b]\<rparr>"
  have "get_data n j x s = get_data m (j + 1) (x XOR b) ?t" using Cons.prems m by (simp add: alarm_gchar_def)
  moreover have "\<exists>y buf. get_data m (j + 1) (x XOR b) ?t = Some (y, ?t\<lparr>g_timeout := True, gin := es, gbuf := buf\<rparr>) \<and> length buf = XFERSIZ"
    using Cons.prems m by (intro Cons.IH) simp_all
  ultimately show ?case by auto
qed


section \<open>Attempts\<close>

text \<open>Attempts that fail: characters lost, a bad end or checksum, or a first character that is not \<open>STX\<close>.\<close>

inductive gspoiled :: "event list \<Rightarrow> bool" where
  g_lost: "length bs < n \<Longrightarrow> n \<le> XFERSIZ \<Longrightarrow> gspoiled (map Rx (head n @ bs) @ [Silence])"
| g_bad_end: "length bs \<le> XFERSIZ \<Longrightarrow> b \<noteq> ETX \<Longrightarrow> x \<noteq> ETX \<Longrightarrow> gspoiled (map Rx (head (length bs) @ bs @ [b, x]) @ [Silence])"
| g_no_sum: "length bs \<le> XFERSIZ \<Longrightarrow> gspoiled (map Rx (head (length bs) @ bs @ [ETX]) @ [Silence])"
| g_bad_sum: "length bs \<le> XFERSIZ \<Longrightarrow> x \<noteq> foldl (XOR) 0 bs \<Longrightarrow> gspoiled (map Rx (head (length bs) @ bs @ [ETX, x]))"
| g_bad_start: "c \<notin> {STX, ETX, CAN, ESC, EOT} \<Longrightarrow> ETX \<notin> set cs \<Longrightarrow> gspoiled (map Rx ([c] @ cs @ [ETX, x]))"

lemma look_skips:
  assumes "gin s = map Rx (cs @ [ETX, x]) @ es" "gc s \<noteq> ETX" "ETX \<notin> set cs"
  shows "look_for_etx s = Some (s\<lparr>g_timeout := False, gin := es, gc := x\<rparr>)"
  using assms
proof (induction cs arbitrary: s)
  case Nil
  then show ?case using garead_Rx [of s ETX "Rx x # es"]
    by (simp add: look_for_etx.simps [of s] look_for_etx.simps [of "s\<lparr>g_timeout := False, gin := Rx x # es, gc := ETX\<rparr>"] garead_Rx)
next
  case (Cons c cs)
  let ?t = "s\<lparr>g_timeout := False, gin := map Rx (cs @ [ETX, x]) @ es, gc := c\<rparr>"
  have "look_for_etx s = look_for_etx ?t" using Cons.prems garead_Rx [of s c] by (subst look_for_etx.simps) simp
  also have "\<dots> = Some (?t\<lparr>g_timeout := False, gin := es, gc := x\<rparr>)" using Cons.prems by (intro Cons.IH) auto
  finally show ?case by simp
qed

lemma unat_head: "n \<le> XFERSIZ \<Longrightarrow> unat (word_of_nat (n - n div 256 * 256) :: byte) = n"
  by (simp add: unat_of_nat)

lemma attempt_head:
  assumes "gc s = STX" "gin s = map Rx (tl (head n)) @ es" "n \<le> XFERSIZ"
  shows "get_attempt s = attempt_data n (s\<lparr>gin := es\<rparr>)"
  using assms unat_head [OF assms(3)] by (simp add: get_attempt_def head_def gchar_Rx)

lemma attempt_record:
  assumes "gc s = STX" "gin s = map Rx (tl (head (length bs)) @ bs) @ es" "length bs \<le> XFERSIZ" "gready s"
  shows "get_attempt s = (let s = s\<lparr>gin := es, gbuf := map (ret_to_new (gflags s)) bs @ drop (length bs) (gbuf s)\<rparr> in do {
       s \<leftarrow> garead s;
       if \<not> g_timeout s \<and> gc s \<noteq> ETX then do { s \<leftarrow> look_for_etx s; Some (False, s) }
       else do {
         s \<leftarrow> garead s;
         if \<not> g_timeout s \<and> gc s = foldl (XOR) 0 bs then
           let (n_written, s) = gwrite (take (length bs) (gbuf s)) s in
           if n_written \<noteq> int (length bs) then Some (True, gprint ([CAN] @ str ''disk write error'' @ crlf) s)
           else Some (False, s\<lparr>gack := ACK\<rparr>)
         else Some (False, s) } })"
proof -
  have "get_attempt s = attempt_data (length bs) (s\<lparr>gin := map Rx bs @ es\<rparr>)"
    using attempt_head [OF assms(1), of "length bs" "map Rx bs @ es"] assms(2,3) by simp
  moreover have "get_data (length bs) 0 0 (s\<lparr>gin := map Rx bs @ es\<rparr>)
      = Some (foldl (XOR) 0 bs, s\<lparr>gin := es, gbuf := map (ret_to_new (gflags s)) bs @ drop (length bs) (gbuf s)\<rparr>)"
    using get_data_all [of "s\<lparr>gin := map Rx bs @ es\<rparr>" bs es 0 0] assms(3,4) by (simp add: gready_def)
  ultimately show ?thesis using assms(4) by (simp add: attempt_data_def gready_def)
qed

lemma attempt_spoiled:
  assumes "gspoiled (Rx (gc s) # a)" "gin s = a @ es" "gready s"
  shows "\<exists>t. get_attempt s = Some (False, t) \<and> gwent s [] [] es t \<and> gack t = gack s"
  using assms(1)
proof (cases rule: gspoiled.cases)
  case (g_lost bs n)
  then have s: "gc s = STX" "gin s = map Rx (tl (head n)) @ map Rx bs @ Silence # es" using assms(2) by (auto simp: head_def)
  have "\<exists>y buf. get_data n 0 0 (s\<lparr>gin := map Rx bs @ Silence # es\<rparr>)
      = Some (y, (s\<lparr>gin := map Rx bs @ Silence # es\<rparr>)\<lparr>g_timeout := True, gin := es, gbuf := buf\<rparr>) \<and> length buf = XFERSIZ"
    using g_lost assms(3) by (intro get_data_silence) (simp_all add: gready_def)
  then show ?thesis using attempt_head [OF s g_lost(3)] assms(3) by (auto simp: attempt_data_def gwent_def gready_def)
next
  case (g_bad_end bs b x)
  then have s: "gc s = STX" "gin s = map Rx (tl (head (length bs)) @ bs) @ Rx b # Rx x # Silence # es" using assms(2) by (auto simp: head_def)
  show ?thesis unfolding attempt_record [OF s g_bad_end(2) assms(3)] using g_bad_end assms(3)
    by (simp add: garead_Rx garead_Silence look_for_etx.simps gwent_def gready_def Let_def)
next
  case (g_no_sum bs)
  then have s: "gc s = STX" "gin s = map Rx (tl (head (length bs)) @ bs) @ Rx ETX # Silence # es" using assms(2) by (auto simp: head_def)
  show ?thesis unfolding attempt_record [OF s g_no_sum(2) assms(3)] using g_no_sum assms(3)
    by (simp add: garead_Rx garead_Silence gwent_def gready_def Let_def)
next
  case (g_bad_sum bs x)
  then have s: "gc s = STX" "gin s = map Rx (tl (head (length bs)) @ bs) @ Rx ETX # Rx x # es" using assms(2) by (auto simp: head_def)
  show ?thesis unfolding attempt_record [OF s g_bad_sum(2) assms(3)] using g_bad_sum assms(3)
    by (simp add: garead_Rx gwent_def gready_def Let_def)
next
  case (g_bad_start c cs x)
  then have "look_for_etx s = Some (s\<lparr>g_timeout := False, gin := es, gc := x\<rparr>)" using assms(2) by (intro look_skips) auto
  then show ?thesis using g_bad_start assms(3) by (auto simp: get_attempt_def gwent_def gready_def)
qed

lemma attempt_frame:
  assumes "gc s = STX" "gin s = map Rx (tl (frame bs)) @ es" "length bs \<le> XFERSIZ" "gready s"
  shows "\<exists>t. get_attempt s = Some (False, t) \<and> gwent s (map (ret_to_new (gflags s)) bs) [] es t \<and> gack t = ACK \<and> \<not> g_timeout t"
proof -
  have s: "gin s = map Rx (tl (head (length bs)) @ bs) @ Rx ETX # Rx (foldl (XOR) 0 bs) # es"
    using assms(2) by (simp add: frame_head head_def)
  show ?thesis unfolding attempt_record [OF assms(1) s assms(3,4)] using assms(3,4)
    by (simp add: garead_Rx gwent_def gready_def gwrite_def Let_def)
qed


section \<open>Records\<close>

lemma nak_once: "gin s = Rx b # es \<Longrightarrow> gack s = NAK \<Longrightarrow> nak_loop s = Some ((gprint [NAK] s)\<lparr>g_timeout := False, gin := es, gc := b\<rparr>)"
  by (subst nak_loop.simps) (simp add: garead_Rx gprint_def)

lemma gspoiled_Cons: "gspoiled a \<Longrightarrow> \<exists>b a'. a = Rx b # a' \<and> b \<notin> {CAN, ESC, EOT}"
  by (cases rule: gspoiled.cases) (auto simp: head_def)

text \<open>What comes for a record: its spoiled copies and then the frame. Its first event is a character.\<close>

definition copies :: "event list list \<Rightarrow> byte list \<Rightarrow> event list" where
  "copies as bs = concat as @ map Rx (frame bs)"

lemma copies_Cons: "\<forall>a \<in> set as. gspoiled a \<Longrightarrow> \<exists>b es. copies as bs = Rx b # es \<and> b \<notin> {CAN, ESC, EOT}"
  using gspoiled_Cons by (cases as) (fastforce simp: copies_def frame_head head_def)+

lemma get_tries_ok:
  assumes "\<forall>a \<in> set as. gspoiled a" "length bs \<le> XFERSIZ" "length as < n" "Rx (gc s) # gin s = copies as bs @ es" "gready s" "gack s = NAK"
  shows "\<exists>t. get_tries n s = Some t \<and> gwent s (map (ret_to_new (gflags s)) bs) (replicate (length as) NAK @ [ACK]) es t \<and> \<not> g_timeout t"
  using assms
proof (induction as arbitrary: n s)
  case Nil
  then obtain m where m: "n = Suc m" by (cases n) auto
  have "gc s = STX" "gin s = map Rx (tl (frame bs)) @ es" using Nil(4) by (auto simp: copies_def frame_head head_def)
  from attempt_frame [OF this Nil(2,5)] obtain t where t: "get_attempt s = Some (False, t)" "gwent s (map (ret_to_new (gflags s)) bs) [] es t"
    "gack t = ACK" "\<not> g_timeout t" by blast
  have "get_tries m (gprint [ACK] t) = Some (gprint [ACK] t)" using t(3) by (cases m) (simp_all add: gprint_def)
  then show ?case using t m Nil(6) by (simp add: gwent_def gprint_def)
next
  case (Cons a as)
  obtain m where m: "n = Suc m" using Cons.prems(3) by (cases n) auto
  obtain a' where a: "a = Rx (gc s) # a'" "gin s = a' @ copies as bs @ es"
    using Cons.prems(1,4) gspoiled_Cons [of a] by (auto simp: copies_def)
  obtain t where t: "get_attempt s = Some (False, t)" "gwent s [] [] (copies as bs @ es) t" "gack t = gack s"
    using attempt_spoiled [of s a' "copies as bs @ es"] Cons.prems(1,5) a by auto
  obtain b es' where b: "copies as bs = Rx b # es'" using copies_Cons [of as bs] Cons.prems(1) by auto
  let ?u = "(gprint [NAK] t)\<lparr>g_timeout := False, gin := es' @ es, gc := b\<rparr>"
  have "nak_loop t = Some ?u" using t(2,3) b Cons.prems(6) by (intro nak_once) (simp_all add: gwent_def)
  then have "get_tries n s = get_tries m ?u" using t(1,3) m Cons.prems(3,6) by simp
  moreover have u: "gwent s [] [NAK] (es' @ es) ?u" "gflags ?u = gflags s" using t(2) by (simp_all add: gwent_def gprint_def)
  have "gready ?u" using Cons.prems(5) t(2) by (simp add: gready_def gwent_def gprint_def)
  then obtain v where v: "get_tries m ?u = Some v" "gwent ?u (map (ret_to_new (gflags ?u)) bs) (replicate (length as) NAK @ [ACK]) es v" "\<not> g_timeout v"
    using Cons.IH [of m ?u] Cons.prems t(3) m b by (auto simp: gprint_def)
  show ?case using calculation v(1,3) gwent_trans [OF u(1) v(2)] u(2) by auto
qed

definition garriving :: "(event list list \<times> byte list) list \<Rightarrow> event list" where
  "garriving rs = concat (map (\<lambda>(as, bs). copies as bs) rs)"

lemma gwent_ready: "gwent s bs ws es t \<Longrightarrow> gready s \<Longrightarrow> \<not> g_timeout t \<Longrightarrow> gready t"
  by (simp add: gwent_def gready_def)

lemma get_records_ok:
  assumes "\<forall>(as, bs) \<in> set rs. (\<forall>a \<in> set as. gspoiled a) \<and> length as < RETRIES \<and> length bs \<le> XFERSIZ"
    "gin s = garriving rs @ Rx EOT # es" "gready s"
  shows "\<exists>t. get_records s = Some t \<and> gwent s (map (ret_to_new (gflags s)) (concat (map snd rs))) (answers rs) es t \<and> gc t = EOT"
  using assms
proof (induction rs arbitrary: s)
  case Nil
  then show ?case by (subst get_records.simps) (simp add: gscan_def gchar_Rx garriving_def answers_def gwent_def gready_def)
next
  case (Cons r rs)
  obtain as bs where r: "r = (as, bs)" by fastforce
  have c: "\<forall>a \<in> set as. gspoiled a" "length as < RETRIES" "length bs \<le> XFERSIZ" using Cons.prems(1) r by auto
  obtain b es' where b: "copies as bs = Rx b # es'" "b \<notin> {CAN, ESC, EOT}" using copies_Cons [OF c(1)] by blast
  let ?r = "garriving rs @ Rx EOT # es"
  let ?s = "s\<lparr>gin := es' @ ?r, gc := b, gack := NAK\<rparr>"
  have g: "gin s = Rx b # es' @ ?r" using Cons.prems(2) r b(1) by (simp add: garriving_def)
  have e: "get_records s = Option.bind (get_tries RETRIES ?s) get_records"
    using b(2) g by (subst get_records.simps) (simp add: gscan_def gchar_Rx)
  have rdline: "gready ?s" using Cons.prems(3) by (simp add: gready_def)
  obtain t where t: "get_tries RETRIES ?s = Some t" "gwent ?s (map (ret_to_new (gflags ?s)) bs) (replicate (length as) NAK @ [ACK]) ?r t" "\<not> g_timeout t"
    using get_tries_ok [OF c(1,3,2), of ?s ?r] rdline b(1) by auto
  obtain u where u: "get_records t = Some u" "gwent t (map (ret_to_new (gflags t)) (concat (map snd rs))) (answers rs) es u" "gc u = EOT"
    using Cons.IH [of t] Cons.prems(1) t(2) gwent_ready [OF t(2) rdline t(3)] by (auto simp: gwent_def)
  have f: "gflags t = gflags s" using t(2) by (simp add: gwent_def)
  have "gwent s (map (ret_to_new (gflags s)) bs) (replicate (length as) NAK @ [ACK]) ?r t" using t(2) by (simp add: gwent_def)
  from gwent_trans [OF this u(2)] show ?case using e t(1) u(1,3) f r by (auto simp: answers_def)
qed


section \<open>A file at \<open>getfile\<close>\<close>

lemma get_name_tries_ok:
  assumes "gin s = map Rx (replicate k NAK @ [a]) @ es" "a = ACK \<or> a = EXEC" "k < n" "gack s = NAK"
  shows "get_name_tries n name ck s = Some (s\<lparr>gin := es, gack := a, gout := gout s @ concat (replicate (k + 1) ([STX] @ name @ [ETX, ck]))\<rparr>)"
  using assms
proof (induction k arbitrary: n s)
  case 0
  then obtain m where m: "n = Suc m" by (cases n) auto
  show ?case using 0 m by (cases m) (auto simp: gscan_ack_def gchar_def gprint_def)
next
  case (Suc k)
  then obtain m where m: "n = Suc m" by (cases n) auto
  let ?t = "s\<lparr>gout := gout s @ [STX] @ name @ [ETX, ck], gin := map Rx (replicate k NAK @ [a]) @ es, gack := NAK\<rparr>"
  have "get_name_tries n name ck s = get_name_tries m name ck ?t" using Suc.prems m by (simp add: gscan_ack_def gchar_def gprint_def)
  also have "\<dots> = Some (?t\<lparr>gin := es, gack := a, gout := gout ?t @ concat (replicate (k + 1) ([STX] @ name @ [ETX, ck]))\<rparr>)"
    using Suc.prems m by (intro Suc.IH) simp_all
  finally show ?case by simp
qed

definition get_flags :: "byte \<Rightarrow> byte" where
  "get_flags fl = (if fl AND ALLBIN \<noteq> 0 then fl OR BINARY else fl)"

lemma get_body_ok:
  assumes "\<forall>(as, bs) \<in> set rs. (\<forall>a \<in> set as. gspoiled a) \<and> length as < RETRIES \<and> length bs \<le> XFERSIZ"
    "gin s = garriving rs @ Rx EOT # Rx x # es" "gready s" "can_creat name"
  shows "\<exists>t. get_body can_creat name s = Some (True, t) \<and> gfile t = map (ret_to_new (gflags s)) (concat (map snd rs)) \<and> gin t = es
    \<and> gout t = gout s @ answers rs \<and> gsuccess t = gsuccess s + 1 \<and> gunsuccess t = gunsuccess s
    \<and> gcreats t = gcreats s @ [(name, if gack s AND EXEC \<noteq> 0 then 493 else 420)]"
proof -
  let ?s = "s\<lparr>gcreats := gcreats s @ [(name, if gack s AND EXEC \<noteq> 0 then 493 else 420)], gfile := []\<rparr>"
  obtain t where t: "get_records ?s = Some t" "gwent ?s (map (ret_to_new (gflags ?s)) (concat (map snd rs))) (answers rs) (Rx x # es) t" "gc t = EOT"
    using get_records_ok [OF assms(1), of ?s "Rx x # es"] assms(2,3) by (auto simp: gready_def)
  then show ?thesis using assms(4) by (simp add: get_body_def gscan_def gchar_def gwent_def)
qed

lemma get_request_ok:
  assumes "\<forall>(as, bs) \<in> set rs. (\<forall>a \<in> set as. gspoiled a) \<and> length as < RETRIES \<and> length bs \<le> XFERSIZ"
    "gin s = map Rx ([ACK, ACK] @ replicate k NAK @ [a]) @ garriving rs @ Rx EOT # Rx x # es" "a = ACK \<or> a = EXEC" "k < RETRIES" "gready s" "can_creat name"
    "fst (strip arg 0 arg) = name"
  shows "\<exists>t. get_request can_creat arg s = Some (True, t) \<and> gfile t = map (ret_to_new (get_flags (gflags s))) (concat (map snd rs)) \<and> gin t = es
    \<and> gout t = gout s @ [SOH, ESC, 83, get_flags (gflags s)] @ concat (replicate (k + 1) (name_frame name)) @ answers rs
    \<and> gsuccess t = gsuccess s + 1 \<and> gunsuccess t = gunsuccess s \<and> gcreats t = gcreats s @ [(name, if a = EXEC then 493 else 420)]"
proof -
  have n: "strip arg 0 arg = (name, foldl (XOR) 0 name)" using assms(7) strip_checksum by (cases "strip arg 0 arg") auto
  let ?r = "garriving rs @ Rx EOT # Rx x # es"
  let ?s = "s\<lparr>gout := gout s @ [SOH, ESC, 83, get_flags (gflags s)], gflags := get_flags (gflags s), gin := map Rx (replicate k NAK @ [a]) @ ?r, gack := NAK\<rparr>"
  let ?t = "?s\<lparr>gin := ?r, gack := a, gout := gout ?s @ concat (replicate (k + 1) (name_frame name))\<rparr>"
  have "get_name_tries RETRIES name (foldl (XOR) 0 name) ?s = Some ?t" unfolding name_frame_def using assms(3,4) by (intro get_name_tries_ok) simp_all
  then have "get_request can_creat arg s = get_body can_creat name ?t"
    using assms(2,3) n by (cases s) (auto simp: get_request_def gscan_ack_def gchar_def gprint_def get_flags_def Let_def)
  moreover have "\<exists>t. get_body can_creat name ?t = Some (True, t) \<and> gfile t = map (ret_to_new (gflags ?t)) (concat (map snd rs)) \<and> gin t = es
      \<and> gout t = gout ?t @ answers rs \<and> gsuccess t = gsuccess ?t + 1 \<and> gunsuccess t = gunsuccess ?t
      \<and> gcreats t = gcreats ?t @ [(name, if gack ?t AND EXEC \<noteq> 0 then 493 else 420)]"
    using assms(1,5,6) by (intro get_body_ok [where x = x]) (simp_all add: gready_def)
  ultimately show ?thesis using assms(3) by auto
qed


section \<open>A file at \<open>send\<close>\<close>

text \<open>What does not change while a file is sent.\<close>

definition rwent :: "rem \<Rightarrow> byte list \<Rightarrow> event list \<Rightarrow> rem \<Rightarrow> bool" where
  "rwent s ws es t \<longleftrightarrow> rx t = es \<and> tx t = tx s @ ws \<and> onestop t = onestop s \<and> allstop t = allstop s"

lemma send_try_ok:
  assumes "rx s = map Rx (replicate k NAK @ [ACK]) @ es"
  shows "\<exists>t. send_try bs s = Some (ACK, t) \<and> rwent s (concat (replicate (k + 1) (frame bs))) es t"
  using assms
proof (induction k arbitrary: s)
  case 0
  then show ?case by (subst send_try.simps) (simp add: rdline_def rwent_def)
next
  case (Suc k)
  let ?s = "s\<lparr>tx := tx s @ frame bs, rx := map Rx (replicate k NAK @ [ACK]) @ es\<rparr>"
  let ?t = "if printmsg s then say (str ''checksum error ... retry'' @ crlf) ?s else ?s"
  have "send_try bs s = send_try bs ?t" using Suc.prems by (subst send_try.simps) (simp add: rdline_def)
  moreover have r: "rx ?t = map Rx (replicate k NAK @ [ACK]) @ es" by (simp add: say_def)
  obtain u where "send_try bs ?t = Some (ACK, u)" "rwent ?t (concat (replicate (k + 1) (frame bs))) es u"
    using Suc.IH [OF r] by blast
  moreover have "rwent s (frame bs) (rx ?t) ?t" by (simp add: rwent_def say_def)
  ultimately show ?case by (auto simp: rwent_def)
qed

lemma send_loop_ok:
  assumes "map snd rs = blocks data" "rx s = map Rx (answers rs) @ es" "\<not> onestop s" "\<not> allstop s"
  shows "\<exists>t. send_loop fname data s = Some t \<and> rwent s (frames rs @ [EOT]) es t"
  using assms
proof (induction rs arbitrary: data s)
  case Nil
  then have "data = []" by (cases "data = []") (auto simp: blocks.simps [of data])
  then show ?case using Nil by (subst send_loop.simps) (simp add: sendrec_def answers_def frames_def rwent_def wline_def)
next
  case (Cons r rs)
  obtain as bs where r: "r = (as, bs)" by fastforce
  have d: "data \<noteq> []" using Cons.prems(1) by (cases "data = []") (auto simp: blocks.simps [of "[]"])
  then have b: "bs = take XFERSIZ data" "map snd rs = blocks (drop XFERSIZ data)"
    using Cons.prems(1) r by (auto simp: blocks.simps [of data])
  obtain t where t: "send_try bs s = Some (ACK, t)" "rwent s (concat (replicate (length as + 1) (frame bs))) (map Rx (answers rs) @ es) t"
    using send_try_ok [of s "length as" "map Rx (answers rs) @ es" bs] Cons.prems(2) r by (auto simp: answers_def)
  have "send_loop fname data s = send_loop fname (drop XFERSIZ data) (rputchar 46 t)"
    using d b(1) t Cons.prems(3,4) by (subst send_loop.simps) (simp add: sendrec_def rwent_def)
  moreover obtain u where "send_loop fname (drop XFERSIZ data) (rputchar 46 t) = Some u" "rwent (rputchar 46 t) (frames rs @ [EOT]) es u"
    using Cons.IH [OF b(2), of "rputchar 46 t"] t(2) Cons.prems(3,4) by (auto simp: rwent_def rputchar_def)
  ultimately show ?case using t(2) r by (auto simp: rwent_def rputchar_def frames_def)
qed

lemma send_ok:
  assumes "rx s = Rx flags # concat nas @ map Rx (name_frame name) @ map Rx (answers rs) @ es"
    "\<forall>a \<in> set nas. spoiled_name a" "length name \<le> NAMSIZ" "ETX \<notin> set name" "src name = Some (data, ex)" "data \<noteq> []" "map snd rs = blocks data"
  shows "\<exists>t. send src s = Some t \<and> rx t = es
    \<and> tx t = tx s @ [ACK, ACK] @ replicate (length nas) NAK @ [if ex then EXEC else ACK] @ frames rs @ [EOT, ACK]"
proof -
  let ?r = "map Rx (answers rs) @ es"
  let ?u = "wline ACK (s\<lparr>n_junk := n_junk s + 1 + 1\<rparr>)"
  let ?s = "(wline ACK (?u\<lparr>rx := concat nas @ map Rx (name_frame name) @ ?r\<rparr>))\<lparr>printmsg := (flags AND FATAL = 0)\<rparr>"
  have "rx ?s = concat nas @ map Rx ([STX] @ name @ [ETX, foldl (XOR) 0 name]) @ ?r" by (simp add: wline_def name_frame_def)
  from getname_name [OF assms(2) this assms(3,4)]
  obtain t where t: "getname ?s = Some (Some name, t)" "rx t = ?r" "tx t = tx ?s @ replicate (length nas) NAK" by blast
  let ?v = "(say crlf (wline (if ex then EXEC else ACK) (say (crlf @ name) t)))\<lparr>allstop := False, onestop := False\<rparr>"
  have v: "rx ?v = ?r" "\<not> onestop ?v" "\<not> allstop ?v" "tx ?v = tx t @ [if ex then EXEC else ACK]" using t(2) by (simp_all add: wline_def say_def)
  obtain w where w: "send_loop name data ?v = Some w" "rwent ?v (frames rs @ [EOT]) es w"
    using send_loop_ok [OF assms(7) v(1-3)] by blast
  have "send src s = Some (wline ACK (say crlf w))"
    unfolding send_def fresh_def using rdline_Rx [of ?u] assms(1,5,6) t(1) w(1) by (simp add: wline_def)
  then show ?thesis using w(2) v(4) t(3) by (simp add: rwent_def wline_def say_def)
qed

end
