(* ===== verification/Remote_Line.thy ===== *)
theory Remote_Line
  imports Remote
begin

text \<open>
  The rest of \<open>src/remote.c\<close>: the search for the line in the database, the lock file, the parameters of the two
  terminals, and the session, in which characters pass in both directions until the second system asks for a
  transfer or for the end.

  The user's terminal has the descriptor 0. \<open>ioctl\<close> on a terminal succeeds, and what \<open>TCFLSH\<close> throws away is not
  part of \<open>rx\<close>. What the user types is given for each turn of the loop of \<open>main\<close>; the two processes of a turn
  do not depend on each other, so the child's characters are written first. An interrupt of the
  child's finds the parent with the default action. Hang-ups and interrupts from outside are in the last section: the
  runs of \<open>remote_main\<close> are those in which none arrives. A result \<open>None\<close> stands for a process that waits forever or uses memory it does not own.
\<close>

section \<open>Terminal parameters\<close>

abbreviation "VMIN \<equiv> 4 :: nat"
abbreviation "VTIME \<equiv> 5 :: nat"

abbreviation "ISTRIP \<equiv> 32 :: 16 word"
abbreviation "ICRNL \<equiv> 256 :: 16 word"
abbreviation "IXON \<equiv> 1024 :: 16 word"
abbreviation "IXOFF \<equiv> 4096 :: 16 word"
abbreviation "OPOST \<equiv> 1 :: 16 word"
abbreviation "ONLCR \<equiv> 4 :: 16 word"
abbreviation "OCRNL \<equiv> 8 :: 16 word"
abbreviation "TAB3 \<equiv> 6144 :: 16 word"
abbreviation "CBAUD \<equiv> 15 :: 16 word"
abbreviation "CS8 \<equiv> 48 :: 16 word"
abbreviation "CSTOPB \<equiv> 64 :: 16 word"
abbreviation "PARENB \<equiv> 256 :: 16 word"
abbreviation "CLOCAL \<equiv> 2048 :: 16 word"
abbreviation "ISIG \<equiv> 1 :: 16 word"
abbreviation "ICANON \<equiv> 2 :: 16 word"
abbreviation "ECHO \<equiv> 8 :: 16 word"
abbreviation "ECHOE \<equiv> 16 :: 16 word"
abbreviation "ECHOK \<equiv> 32 :: 16 word"
abbreviation "ECHONL \<equiv> 64 :: 16 word"

record termio =
  c_iflag :: "16 word"
  c_oflag :: "16 word"
  c_cflag :: "16 word"
  c_lflag :: "16 word"
  c_line :: byte
  c_cc :: "byte list"

text \<open>The variables in which parameters are saved.\<close>

datatype slot = Tflags | Ptflags | Ptxlflags

text \<open>
  \<open>sess\<close> is the line and the screen; \<open>ttys\<close> has the parameters of the terminal at each descriptor, \<open>locks\<close> the
  files in the directory of the lock files.
\<close>

record conn =
  sess :: rem
  ttys :: "int \<Rightarrow> termio"
  saved :: "slot \<Rightarrow> termio"
  pterm :: int
  locknm :: "byte list"
  locks :: "byte list \<rightharpoonup> byte list"

text \<open>
  What the system answers: the descriptor that \<open>open\<close> returns for a device, whether a lock file can be created,
  \<open>getlogin\<close>, \<open>ttyname(0)\<close> and the process number as text; the last four are arguments of \<open>load\<close> and \<open>send\<close>.
\<close>

record hostenv =
  opens :: "byte list \<Rightarrow> int"
  can_lock :: "byte list \<Rightarrow> bool"
  login :: "byte list option"
  tty_name :: "byte list option"
  pid_text :: "byte list"
  h_exists :: "byte list \<Rightarrow> bool"
  h_creat :: "byte list \<Rightarrow> bool"
  h_stray :: "byte list"
  h_src :: "byte list \<Rightarrow> (byte list \<times> bool) option"

type_synonym ended = "(int \<times> conn) + conn"

definition tell :: "byte list \<Rightarrow> conn \<Rightarrow> conn" where
  "tell bs s = s\<lparr>sess := say bs (sess s)\<rparr>"

definition wr :: "byte list \<Rightarrow> conn \<Rightarrow> conn" where
  "wr bs s = s\<lparr>sess := fold wline bs (sess s)\<rparr>"

definition copy_modes :: "termio \<Rightarrow> termio \<Rightarrow> termio" where
  "copy_modes to from = to\<lparr>c_iflag := c_iflag from, c_oflag := c_oflag from, c_cflag := c_cflag from, c_lflag := c_lflag from,
     c_line := c_line from, c_cc := c_cc from\<rparr>"

definition save_modes :: "int \<Rightarrow> slot \<Rightarrow> conn \<Rightarrow> conn" where
  "save_modes fd k s = s\<lparr>saved := (saved s)(k := copy_modes (saved s k) (ttys s fd))\<rparr>"

definition tinit :: "int \<Rightarrow> slot \<Rightarrow> conn \<Rightarrow> conn" where
  "tinit fd k s = s\<lparr>ttys := (ttys s)(fd := copy_modes (ttys s fd) (saved s k))\<rparr>"

definition xparent :: "int \<Rightarrow> slot \<Rightarrow> conn \<Rightarrow> conn" where
  "xparent fd k s =
     (let t = ttys s fd; s = save_modes fd k s
      in s\<lparr>ttys := (ttys s)(fd := t\<lparr>c_iflag := c_iflag t AND NOT (IXOFF OR IXON)\<rparr>)\<rparr>)"

text \<open>\<open>logout\<close>: the exit status and the state in which the process ends.\<close>

definition logout :: "conn \<Rightarrow> int \<times> conn" where
  "logout s =
     (let s = tinit (pterm s) Ptflags s; s = tinit 0 Tflags s
      in (0, s\<lparr>locks := (locks s)(locknm s := None)\<rparr>))"

definition cleanup :: "conn \<Rightarrow> int \<times> conn" where
  "cleanup s = logout (wr (str ''logout'' @ [10]) s)"

definition intrupt :: "conn \<Rightarrow> int \<times> conn" where
  "intrupt s = (0, s\<lparr>locks := (locks s)(locknm s := None)\<rparr>)"

text \<open>\<open>atoi\<close>, on 16 bits.\<close>

definition atoi :: "byte list \<Rightarrow> int" where
  "atoi bs =
     (let bs = dropWhile (\<lambda>b. b = 32 \<or> b = 9) bs;
          neg = (bs \<noteq> [] \<and> hd bs = 45);
          bs = (if bs \<noteq> [] \<and> (hd bs = 45 \<or> hd bs = 43) then tl bs else bs);
          n = foldl (\<lambda>n b. s16 (10 * n + (uint b - 48))) 0 (takeWhile (\<lambda>b. 48 \<le> b \<and> b \<le> 57) bs)
      in if neg then s16 (- n) else n)"

definition iospeed :: "int \<Rightarrow> 16 word option" where
  "iospeed n =
     (if n = 300 then Some 7 else if n = 1200 then Some 9 else if n = 2400 then Some 11
      else if n = 4800 then Some 12 else if n = 9600 then Some 13 else if n = 19200 then Some 14 else None)"

definition xlucent_modes :: "termio \<Rightarrow> termio" where
  "xlucent_modes t = t\<lparr>c_iflag := (c_iflag t AND NOT (ICRNL OR ISTRIP)) OR (IXOFF OR IXON),
     c_oflag := c_oflag t AND NOT (OCRNL OR TAB3 OR OPOST OR ONLCR),
     c_cflag := (c_cflag t AND NOT PARENB) OR (CS8 OR CSTOPB OR CLOCAL),
     c_lflag := c_lflag t AND NOT (ISIG OR ICANON OR ECHO OR ECHOE OR ECHOK OR ECHONL),
     c_cc := (c_cc t)[VMIN := 1, VTIME := 0]\<rparr>"

definition xlucent :: "int \<Rightarrow> slot \<Rightarrow> byte list \<Rightarrow> conn \<Rightarrow> ended" where
  "xlucent fd k speed s =
     (let t = ttys s fd; s = save_modes fd k s in
      if fd = 0 then Inr (s\<lparr>ttys := (ttys s)(fd := xlucent_modes t)\<rparr>)
      else (case iospeed (atoi speed) of
          None \<Rightarrow> Inl (logout (tell (str ''remote: invalid baud rate'' @ crlf) s))
        | Some b \<Rightarrow> Inr (s\<lparr>ttys := (ttys s)(fd := xlucent_modes (t\<lparr>c_cflag := (c_cflag t AND NOT CBAUD) OR b\<rparr>))\<rparr>)))"


section \<open>The database\<close>

text \<open>\<open>fgets\<close> with room for \<open>n\<close> characters, and the rest of the file.\<close>

primrec fgets :: "nat \<Rightarrow> byte list \<Rightarrow> byte list \<times> byte list" where
  "fgets 0 bs = ([], bs)"
| "fgets (Suc n) bs =
     (case bs of
        [] \<Rightarrow> ([], [])
      | b # bs \<Rightarrow> if b = 10 then ([b], bs) else (let (l, r) = fgets n bs in (b # l, r)))"

text \<open>The array \<open>line\<close>, with what an earlier line left behind the end of the string.\<close>

type_synonym linebuf = "nat \<Rightarrow> byte"

definition store :: "byte list \<Rightarrow> linebuf \<Rightarrow> linebuf" where
  "store bs l = (\<lambda>i. if i < length bs then bs ! i else if i = length bs then 0 else l i)"

definition str_at :: "linebuf \<Rightarrow> nat \<Rightarrow> byte list" where
  "str_at l i = takeWhile (\<lambda>b. b \<noteq> 0) (map l [i..<100])"

function find_blank :: "linebuf \<Rightarrow> nat \<Rightarrow> nat option" where
  "find_blank l i =
     (if i \<le> 100 \<and> l i \<noteq> 0 then if l i = 9 \<or> l i = 32 then Some i else find_blank l (i + 1) else None)"
  by pat_completeness auto
termination by (relation "measure (\<lambda>(l, i). 101 - i)") auto

declare find_blank.simps [simp del]

text \<open>A line: the places of the device and of the speed, and the array with the blanks replaced.\<close>

definition parse_line :: "linebuf \<Rightarrow> (nat \<times> nat option \<times> linebuf) option" where
  "parse_line l =
     (case find_blank l 0 of
        None \<Rightarrow> None
      | Some i \<Rightarrow>
          (let l = l(i := 0) in
           case find_blank l (i + 1) of
             None \<Rightarrow> Some (i + 1, None, l)
           | Some j \<Rightarrow> Some (i + 1, Some (j + 1), l(j := 0))))"

lemma fgets_shorter: "bs \<noteq> [] \<Longrightarrow> length (snd (fgets (Suc n) bs)) < length bs"
proof (induction n arbitrary: bs)
  case 0
  then show ?case by (cases bs) auto
next
  case (Suc n)
  obtain b r where bs: "bs = b # r" using Suc.prems by (cases bs) auto
  show ?case
  proof (cases "r = []")
    case True
    then show ?thesis using bs by simp
  next
    case False
    then show ?thesis using Suc.IH [of r] bs by (auto simp: case_prod_unfold Let_def simp del: fgets.simps(2) simp: fgets.simps(2) [of "Suc n"])
  qed
qed

text \<open>
  The loop over the lines. The speed is a place in the array, or \<open>None\<close> for the string \<open>"9600"\<close>; \<open>None\<close> as the
  result is an error in a line.
\<close>

function search :: "byte list option \<Rightarrow> byte list \<Rightarrow> nat option \<Rightarrow> linebuf \<Rightarrow> (nat option \<times> nat option \<times> linebuf) option" where
  "search arg db speed l =
     (if db = [] then Some (None, speed, l)
      else
        (let (bs, rest) = fgets 99 db in
         case parse_line (store bs l) of
           None \<Rightarrow> None
         | Some (device, sp, l) \<Rightarrow>
             (let speed = (if sp = None then speed else sp) in
              if arg \<noteq> None \<and> the arg \<noteq> str_at l 0 then search arg rest speed l
              else Some (Some device, speed, l))))"
  by pat_completeness auto
termination
proof (relation "measure (\<lambda>(_, db, _). length db)", goal_cases)
  case (2 arg db speed l x bs rest)
  then show ?case using fgets_shorter [of db 98] by (auto simp: eval_nat_numeral simp del: fgets.simps) (metis snd_conv)
qed simp

declare search.simps [simp del]


section \<open>The line\<close>

definition LOCKROOT :: "byte list" where
  "LOCKROOT = str ''/usr/spool/uucp/LCK..''"

text \<open>What follows the last slash.\<close>

definition tail_name :: "byte list \<Rightarrow> byte list" where
  "tail_name d = rev (takeWhile (\<lambda>b. b \<noteq> 47) (rev d))"

text \<open>\<open>try\<close>; \<open>lockfl\<close> has room for 49 characters.\<close>

definition try_device :: "hostenv \<Rightarrow> byte list \<Rightarrow> byte list \<Rightarrow> byte list \<Rightarrow> conn \<Rightarrow> ended option" where
  "try_device env system speed device s =
     (let s = s\<lparr>pterm := 0\<rparr> in
      if length (tail_name device) > 27 then None
      else
        (let s = s\<lparr>locknm := LOCKROOT @ tail_name device\<rparr> in
         if locks s (locknm s) \<noteq> None then Some (Inr s)
         else if \<not> can_lock env (locknm s)
         then Some (Inr (tell (str ''unable to create lock file for system '' @ system @ str '' device '' @ device @ [10]) s))
         else
           (case (login env, tty_name env) of
              (Some n, Some t) \<Rightarrow>
                (let s = s\<lparr>locks := (locks s)(locknm s \<mapsto> n @ [10] @ drop 5 t @ [10])\<rparr>;
                     fd = opens env device
                 in if fd < 0
                    then Some (Inl (-1, (tell (str ''remote: unable to open device for system '' @ system @ str '' device '' @ device @ [10]) s)
                      \<lparr>locks := (locks s)(locknm s := None)\<rparr>))
                    else (case xlucent 0 Tflags speed (s\<lparr>pterm := fd\<rparr>) of
                        Inl e \<Rightarrow> Some (Inl e)
                      | Inr s \<Rightarrow> Some (xlucent fd Ptflags speed s)))
            | _ \<Rightarrow> None)))"

text \<open>Nobody got a line: the message with the contents of the lock file.\<close>

definition in_use :: "byte list \<Rightarrow> conn \<Rightarrow> (int \<times> conn) option" where
  "in_use system s = do {
     f \<leftarrow> locks s (locknm s);
     let (buf, f1) = fgets 19 f;
     let (tbuf, f2) = fgets 9 f1;
     let n = takeWhile (\<lambda>b. b \<noteq> 0) buf;
     let t = takeWhile (\<lambda>b. b \<noteq> 0) tbuf;
     if n = [] \<or> t = [] then None
     else Some (0, tell (str ''remote: '' @ butlast n @ str '' at '' @ butlast t @ str '' is using the remote line to '' @ system @ [10]) s) }"

text \<open>The end of a device name, from a place on.\<close>

definition dev_end :: "linebuf \<Rightarrow> nat \<Rightarrow> nat option" where
  "dev_end l i = List.find (\<lambda>p. l p = 0 \<or> l p = 10 \<or> l p = 9 \<or> l p = 32) [i..<100]"

lemma dev_end_bounds: "dev_end l i = Some p \<Longrightarrow> i \<le> p \<and> p < 100"
  by (auto simp: dev_end_def find_Some_iff)

definition speed_str :: "nat option \<Rightarrow> linebuf \<Rightarrow> byte list" where
  "speed_str speed l = (case speed of None \<Rightarrow> str ''9600'' | Some i \<Rightarrow> str_at l i)"

text \<open>The devices of the line in turn, until one can be used.\<close>

function try_devices :: "hostenv \<Rightarrow> nat option \<Rightarrow> linebuf \<Rightarrow> nat \<Rightarrow> conn \<Rightarrow> (linebuf \<times> ended) option" where
  "try_devices env speed l device s =
     (case dev_end l device of
        None \<Rightarrow> None
      | Some p \<Rightarrow>
          (let nxtdev = (if l p \<noteq> 10 \<and> l p \<noteq> 0 then Some (p + 1) else None);
               l = l(p := 0)
           in case try_device env (str_at l 0) (speed_str speed l) (str_at l device) s of
                None \<Rightarrow> None
              | Some (Inl e) \<Rightarrow> Some (l, Inl e)
              | Some (Inr s) \<Rightarrow>
                  if pterm s \<noteq> 0 then Some (l, Inr s)
                  else if nxtdev = None then map_option (\<lambda>e. (l, Inl e)) (in_use (str_at l 0) s)
                  else try_devices env speed l (the nxtdev) s))"
  by pat_completeness auto
termination by (relation "measure (\<lambda>(_, _, _, device, _). 100 - device)") (auto dest: dev_end_bounds)

declare try_devices.simps [simp del]


section \<open>The session\<close>

text \<open>A transfer of a file, with flow control turned off.\<close>

definition transfer_file :: "hostenv \<Rightarrow> bool \<Rightarrow> conn \<Rightarrow> conn option" where
  "transfer_file env down s = do {
     let s = xparent (pterm s) Ptxlflags (tell (str ''id='' @ pid_text env @ crlf) s);
     r \<leftarrow> (if down then load (h_exists env) (h_creat env) (h_stray env) (sess s) else send (h_src env) (sess s));
     Some (tinit (pterm s) Ptxlflags (s\<lparr>sess := r\<rparr>)) }"

text \<open>
  The loop of \<open>main\<close>, with the keys of each turn. On \<open>FS\<close> the child sends the parent a hang-up, and both clean up.
\<close>

primrec session :: "hostenv \<Rightarrow> byte list list \<Rightarrow> conn \<Rightarrow> (int \<times> conn) option" where
  "session env [] s = None"
| "session env (ks # kss) s =
     (case term_to_unix ks (sess s) of
        Some (_, r) \<Rightarrow> Some (cleanup (snd (cleanup (s\<lparr>sess := r\<rparr>))))
      | None \<Rightarrow> do {
          let s = wr ks s;
          (c, r) \<leftarrow> unix_to_term (sess s);
          let s = s\<lparr>sess := r\<rparr>;
          if c = 76 \<or> c = 83 then do { s \<leftarrow> transfer_file env (c = 76) s; session env kss s }
          else if c = 81 then Some (logout (wr [c] s))
          else do {
            let s = wr [c] s;
            (_, r) \<leftarrow> rdline c (sess s);
            Some (cleanup (s\<lparr>sess := r\<rparr>)) } })"

text \<open>The first key decides whether there is a session; \<open>None\<close> is a time-out.\<close>

definition hookup :: "byte list \<Rightarrow> byte option \<Rightarrow> conn \<Rightarrow> ended" where
  "hookup system key s =
     (let s' = tinit 0 Tflags (tinit (pterm s) Ptflags s) in
      case key of
        None \<Rightarrow> Inl (intrupt (tell (str ''remote line to '' @ system @ str '' timed out'' @ [10]) s'))
      | Some c \<Rightarrow>
          if c AND 127 = 127 then Inl (intrupt (tell (str ''remote: interrupted'' @ [10]) s'))
          else Inr (wr [c] s))"

text \<open>
  \<open>main\<close>: \<open>db\<close> is the database file, \<open>arg\<close> the name of the system on the command line, \<open>key\<close> the first key and \<open>typed\<close>
  the keys of each turn.
\<close>

definition remote_main :: "hostenv \<Rightarrow> byte list option \<Rightarrow> byte list option \<Rightarrow> byte option \<Rightarrow> byte list list \<Rightarrow> conn \<Rightarrow> (int \<times> conn) option" where
  "remote_main env db arg key typed s =
     (case db of
        None \<Rightarrow> Some (-1, tell (str ''remote: cannot access remote database'' @ [10]) s)
      | Some f \<Rightarrow>
          (case search arg f None (\<lambda>_. 0) of
             None \<Rightarrow> Some (-1, tell (str ''remote: error in parsing database.'' @ [10]) s)
           | Some (None, _, _) \<Rightarrow>
               Some (-1, tell (case arg of None \<Rightarrow> str ''remote: no remote line'' @ [10] | Some a \<Rightarrow> str ''remote: no remote line to system '' @ a @ [10]) s)
           | Some (Some device, speed, l) \<Rightarrow>
               (case try_devices env speed l device s of
                  None \<Rightarrow> None
                | Some (_, Inl e) \<Rightarrow> Some e
                | Some (l, Inr s) \<Rightarrow>
                    (case hookup (str_at l 0) key (wr [10] s) of Inl e \<Rightarrow> Some e | Inr s \<Rightarrow> session env typed s))))"


section \<open>Signals from outside\<close>

text \<open>
  \<open>main\<close> watches for hang-ups from its first line on, and for interrupts until \<open>try\<close> has the line and puts the
  former action back. The points of a run at which a signal can find the parent: \<open>Early\<close> ones, the start and each
  return of a \<open>try\<close> that got no line, and \<open>Held\<close> ones, between the steps from the return of \<open>try\<close> with the line to
  the end of the session. The points between the calls inside of \<open>try\<close> are not among them.
  Before the first \<open>try\<close> the pointer \<open>locknm\<close> is null, here the empty name, which no file has. At these points there is no
  child yet; the interrupt that \<open>intrupt\<close> then sends to the process number 0 has no trace in the state.
\<close>

datatype phase = Early | Held

text \<open>
  \<open>cleanup\<close> as the handler of a hang-up. Before a line is held \<open>pterm\<close> is 0, and what is written goes to the user's
  terminal.
\<close>

definition hangup :: "conn \<Rightarrow> int \<times> conn" where
  "hangup s = (if pterm s = 0 then logout (tell (str ''logout'' @ [10]) s) else cleanup s)"

primrec session_points :: "hostenv \<Rightarrow> byte list list \<Rightarrow> conn \<Rightarrow> conn list" where
  "session_points env [] s = [s]"
| "session_points env (ks # kss) s = s #
     (case term_to_unix ks (sess s) of
        Some (_, r) \<Rightarrow> [s\<lparr>sess := r\<rparr>]
      | None \<Rightarrow>
          (let s = wr ks s in s #
             (case unix_to_term (sess s) of
                None \<Rightarrow> []
              | Some (c, r) \<Rightarrow>
                  (let s = s\<lparr>sess := r\<rparr> in s #
                     (if c = 76 \<or> c = 83 then
                        xparent (pterm s) Ptxlflags (tell (str ''id='' @ pid_text env @ crlf) s) #
                          (case transfer_file env (c = 76) s of None \<Rightarrow> [] | Some t \<Rightarrow> session_points env kss t)
                      else [wr [c] s])))))"

definition held_points :: "hostenv \<Rightarrow> byte list \<Rightarrow> byte option \<Rightarrow> byte list list \<Rightarrow> conn \<Rightarrow> conn list" where
  "held_points env system key typed s = s #
     (let s = wr [10] s in s # (case hookup system key s of Inl e \<Rightarrow> [] | Inr s \<Rightarrow> session_points env typed s))"

function try_points :: "hostenv \<Rightarrow> nat option \<Rightarrow> linebuf \<Rightarrow> nat \<Rightarrow> conn \<Rightarrow> conn list" where
  "try_points env speed l device s =
     (case dev_end l device of
        None \<Rightarrow> []
      | Some p \<Rightarrow>
          (let nxtdev = (if l p \<noteq> 10 \<and> l p \<noteq> 0 then Some (p + 1) else None);
               l = l(p := 0)
           in case try_device env (str_at l 0) (speed_str speed l) (str_at l device) s of
                Some (Inr s) \<Rightarrow>
                  if pterm s \<noteq> 0 then []
                  else s # (if nxtdev = None then [] else try_points env speed l (the nxtdev) s)
              | _ \<Rightarrow> []))"
  by pat_completeness auto
termination by (relation "measure (\<lambda>(_, _, _, device, _). 100 - device)") (auto dest: dev_end_bounds)

declare try_points.simps [simp del]

definition remote_points :: "hostenv \<Rightarrow> byte list option \<Rightarrow> byte list option \<Rightarrow> byte option \<Rightarrow> byte list list \<Rightarrow> conn \<Rightarrow> (phase \<times> conn) list" where
  "remote_points env db arg key typed s = (Early, s) #
     (case db of
        None \<Rightarrow> []
      | Some f \<Rightarrow>
          (case search arg f None (\<lambda>_. 0) of
             Some (Some device, speed, l) \<Rightarrow>
               map (Pair Early) (try_points env speed l device s) @
               (case try_devices env speed l device s of
                  Some (l, Inr s) \<Rightarrow> map (Pair Held) (held_points env (str_at l 0) key typed s)
                | _ \<Rightarrow> [])
           | _ \<Rightarrow> []))"

end
