(* ===== verification/Line_Spec.thy ===== *)
theory Line_Spec
  imports Remote_Line
begin

text \<open>
  What \<open>remote\<close> leaves behind: while it holds a line, the saved parameters are those the two terminals had
  before, and only its own lock file was added; all the ways out put this back. The second part reads a database
  line that is the text of a name, a device and a speed.
\<close>

section \<open>Holding a line\<close>

lemma copy_modes_eq [simp]: "copy_modes to from = from"
  by (simp add: copy_modes_def)

definition holds_line :: "conn \<Rightarrow> conn \<Rightarrow> bool" where
  "holds_line s0 s \<longleftrightarrow> pterm s \<noteq> 0 \<and> saved s Tflags = ttys s0 0 \<and> saved s Ptflags = ttys s0 (pterm s)
     \<and> (\<forall>fd. fd \<noteq> 0 \<longrightarrow> fd \<noteq> pterm s \<longrightarrow> ttys s fd = ttys s0 fd)
     \<and> locks s0 (locknm s) = None \<and> (\<forall>n. n \<noteq> locknm s \<longrightarrow> locks s n = locks s0 n)"

definition restored :: "conn \<Rightarrow> conn \<Rightarrow> bool" where
  "restored s t \<longleftrightarrow> ttys t = ttys s \<and> locks t = locks s"

lemma holds_line_simps [simp]:
  "holds_line s0 (s\<lparr>sess := r\<rparr>) = holds_line s0 s" "holds_line s0 (wr bs s) = holds_line s0 s" "holds_line s0 (tell bs s) = holds_line s0 s"
  by (simp_all add: holds_line_def wr_def tell_def)

lemma ways_out_simps [simp]:
  "pterm (wr bs s) = pterm s" "pterm (tell bs s) = pterm s" "sess (tinit fd k s) = sess s" "pterm (tinit fd k s) = pterm s"
  "sess (wr bs s) = fold wline bs (sess s)" "sess (snd (logout s)) = sess s" "fst (logout s) = 0"
  by (simp_all add: wr_def tell_def tinit_def logout_def Let_def)

lemma back_restores:
  assumes "holds_line s0 s"
  shows "restored s0 ((tinit 0 Tflags (tinit (pterm s) Ptflags s))\<lparr>locks := (locks s)(locknm s := None)\<rparr>)"
  using assms by (auto simp: restored_def holds_line_def tinit_def fun_eq_iff)

lemma logout_restores: "holds_line s0 s \<Longrightarrow> restored s0 (snd (logout s))"
  using back_restores [of s0 s] by (simp add: logout_def Let_def tinit_def)

lemma cleanup_restores: "holds_line s0 s \<Longrightarrow> restored s0 (snd (cleanup s))"
  using logout_restores [of s0 "wr (str ''logout'' @ [10]) s"] by (simp add: cleanup_def)

lemma logout_holds: "holds_line s0 s \<Longrightarrow> holds_line s0 (snd (logout s))"
  by (auto simp: holds_line_def logout_def Let_def tinit_def)

lemma cleanup_holds: "holds_line s0 s \<Longrightarrow> holds_line s0 (snd (cleanup s))"
  using logout_holds [of s0 "wr (str ''logout'' @ [10]) s"] by (simp add: cleanup_def)

lemma xlucent_own:
  assumes "xlucent fd k speed s = Inr t" "fd = 0 \<or> k = Ptflags"
  shows "pterm t = pterm s \<and> locknm t = locknm s \<and> locks t = locks s \<and> saved t = (saved s)(k := ttys s fd) \<and> sess t = sess s
    \<and> (\<forall>x. x \<noteq> fd \<longrightarrow> ttys t x = ttys s x)"
  using assms by (auto simp: xlucent_def save_modes_def Let_def split: if_splits option.splits)

text \<open>When the speed is not one of the six, the line was held already.\<close>

lemma xlucent_ends:
  assumes "xlucent fd Ptflags speed s = Inl e" "holds_line s0 (s\<lparr>saved := (saved s)(Ptflags := ttys s fd)\<rparr>)"
  shows "restored s0 (snd e)"
proof -
  have e: "e = logout (tell (str ''remote: invalid baud rate'' @ crlf) (save_modes fd Ptflags s))"
    using assms(1) by (auto simp: xlucent_def Let_def split: if_splits option.splits)
  have "save_modes fd Ptflags s = s\<lparr>saved := (saved s)(Ptflags := ttys s fd)\<rparr>" by (simp add: save_modes_def)
  then show ?thesis using assms(2) logout_restores [of s0 "tell (str ''remote: invalid baud rate'' @ crlf) (save_modes fd Ptflags s)"] e by simp
qed

text \<open>\<open>try\<close> gets the line, ends with nothing changed, or returns with nothing changed.\<close>

lemma try_device_cases:
  assumes "try_device env system speed device s = Some r" "opens env device \<noteq> 0"
  shows "case r of Inl e \<Rightarrow> restored s (snd e) | Inr t \<Rightarrow> if pterm t \<noteq> 0 then holds_line s t else restored s t"
proof -
  let ?n = "LOCKROOT @ tail_name device"
  let ?s = "s\<lparr>pterm := 0, locknm := ?n\<rparr>"
  show ?thesis
  proof (cases "locks s ?n \<noteq> None \<or> \<not> can_lock env ?n")
    case True
    then show ?thesis using assms(1) by (auto simp: try_device_def Let_def restored_def tell_def split: if_splits)
  next
    case free: False
    obtain n t where nt: "login env = Some n" "tty_name env = Some t"
      using assms(1) free by (auto simp: try_device_def Let_def split: if_splits option.splits)
    let ?fd = "opens env device"
    let ?l = "?s\<lparr>locks := (locks s)(?n \<mapsto> n @ [10] @ drop 5 t @ [10])\<rparr>"
    let ?o = "?l\<lparr>pterm := ?fd\<rparr>"
    show ?thesis
    proof (cases "?fd < 0")
      case True
      then show ?thesis using assms(1) free nt by (auto simp: try_device_def Let_def restored_def tell_def fun_upd_idem split: if_splits)
    next
      case False
      obtain u where u: "xlucent 0 Tflags speed ?o = Inr u" by (simp add: xlucent_def Let_def)
      have r: "r = xlucent ?fd Ptflags speed u"
        using assms(1) free nt False u by (auto simp: try_device_def Let_def split: if_splits)
      note ou = xlucent_own [OF u disjI1 [OF refl]]
      have h: "holds_line s (u\<lparr>saved := (saved u)(Ptflags := ttys u ?fd)\<rparr>)"
        using ou free assms(2) by (auto simp: holds_line_def)
      show ?thesis
      proof (cases r)
        case (Inl e)
        then show ?thesis using xlucent_ends [OF r [symmetric, unfolded Inl] h] by simp
      next
        case (Inr v)
        note ov = xlucent_own [OF r [symmetric, unfolded Inr] disjI2 [OF refl]]
        have "pterm u = ?fd" using ou by simp
        then have "holds_line s v" using h ov by (auto simp: holds_line_def)
        then show ?thesis using Inr by (simp add: holds_line_def)
      qed
    qed
  qed
qed

lemma in_use_restores: "in_use system s = Some e \<Longrightarrow> restored s (snd e)"
  by (auto simp: in_use_def do_Some restored_def tell_def Let_def case_prod_unfold split: if_splits)

lemma restored_trans: "restored a b \<Longrightarrow> restored b c \<Longrightarrow> restored a c"
  by (simp add: restored_def)

lemma holds_after_restored: "restored a b \<Longrightarrow> holds_line b c \<Longrightarrow> holds_line a c"
  by (simp add: restored_def holds_line_def)

lemma try_devices_cases:
  assumes "\<And>d. opens env d \<noteq> 0" "try_devices env speed l device s = Some (l', r)"
  shows "case r of Inl e \<Rightarrow> restored s (snd e) | Inr t \<Rightarrow> holds_line s t"
  using assms(2)
proof (induction "100 - device" arbitrary: l device s rule: less_induct)
  case less
  note run = less.prems
  obtain p where p: "dev_end l device = Some p" using run by (subst (asm) try_devices.simps) (auto split: option.splits)
  let ?l = "l(p := 0)"
  obtain q where q: "try_device env (str_at ?l 0) (speed_str speed ?l) (str_at ?l device) s = Some q"
    using run p by (subst (asm) try_devices.simps) (auto simp: Let_def split: option.splits)
  note c = try_device_cases [OF q assms(1)]
  show ?case
  proof (cases q)
    case (Inl e)
    then show ?thesis using run p q c by (subst (asm) try_devices.simps) (auto simp: Let_def)
  next
    case (Inr t)
    show ?thesis
    proof (cases "pterm t \<noteq> 0")
      case True
      then show ?thesis using run p q c Inr by (subst (asm) try_devices.simps) (auto simp: Let_def)
    next
      case False
      have rt: "restored s t" using c Inr False by simp
      show ?thesis
      proof (cases "l p \<noteq> 10 \<and> l p \<noteq> 0")
        case True
        have "try_devices env speed ?l (p + 1) t = Some (l', r)"
          using run p q Inr False True by (subst (asm) try_devices.simps) (auto simp: Let_def)
        moreover have "100 - (p + 1) < 100 - device" using dev_end_bounds [OF p] by auto
        ultimately have "case r of Inl e \<Rightarrow> restored t (snd e) | Inr u \<Rightarrow> holds_line t u"
          using less.hyps [of "p + 1" ?l t] by blast
        then show ?thesis using rt restored_trans holds_after_restored by (auto split: sum.splits)
      next
        case last: False
        obtain e where "in_use (str_at ?l 0) t = Some e" "r = Inl e"
          using run p q Inr False last by (subst (asm) try_devices.simps) (auto simp: Let_def split: if_splits)
        then show ?thesis using in_use_restores restored_trans [OF rt] by simp
      qed
    qed
  qed
qed

text \<open>A transfer returns with the parameters that the terminals had before it.\<close>

lemma transfer_file_modes: "transfer_file env down s = Some t \<Longrightarrow> ttys t = ttys s"
  by (auto simp: transfer_file_def do_Some Let_def tinit_def xparent_def save_modes_def tell_def split: if_splits)

lemma transfer_file_holds:
  assumes "transfer_file env down s = Some t" "holds_line s0 s"
  shows "holds_line s0 t"
  using assms by (auto simp: transfer_file_def do_Some Let_def holds_line_def tinit_def xparent_def save_modes_def tell_def split: if_splits)

lemma session_restores:
  assumes "session env kss s = Some e" "holds_line s0 s"
  shows "restored s0 (snd e)"
  using assms
proof (induction kss arbitrary: s)
  case (Cons ks kss)
  show ?case
  proof (cases "term_to_unix ks (sess s)")
    case (Some x)
    have "holds_line s0 (snd (cleanup (s\<lparr>sess := snd x\<rparr>)))" using Cons.prems(2) by (intro cleanup_holds) simp
    then show ?thesis using Cons.prems(1) Some cleanup_restores by (cases x) auto
  next
    case None
    obtain c r where c: "unix_to_term (sess (wr ks s)) = Some (c, r)" using Cons.prems(1) None by (auto simp: do_Some Let_def simp del: ways_out_simps)
    let ?s = "(wr ks s)\<lparr>sess := r\<rparr>"
    have h: "holds_line s0 ?s" using Cons.prems(2) by simp
    have run: "(if c = 76 \<or> c = 83 then do { s \<leftarrow> transfer_file env (c = 76) ?s; session env kss s }
        else if c = 81 then Some (logout (wr [c] ?s))
        else do { (_, r) \<leftarrow> rdline c (sess (wr [c] ?s)); Some (cleanup ((wr [c] ?s)\<lparr>sess := r\<rparr>)) }) = Some e"
      using Cons.prems(1) None c by (auto simp: Let_def simp del: ways_out_simps split: if_splits)
    show ?thesis
    proof (cases "c = 76 \<or> c = 83")
      case True
      then obtain t where t: "transfer_file env (c = 76) ?s = Some t" "session env kss t = Some e" using run by (auto simp: do_Some)
      show ?thesis by (rule Cons.IH [OF t(2) transfer_file_holds [OF t(1) h]])
    next
      case False
      then show ?thesis using run h logout_restores [of s0 "wr [c] ?s"] cleanup_restores
        by (auto simp: do_Some split: if_splits)
    qed
  qed
qed simp

lemma hookup_cases:
  assumes "holds_line s0 s"
  shows "case hookup system key s of Inl e \<Rightarrow> restored s0 (snd e) | Inr t \<Rightarrow> holds_line s0 t"
  using assms back_restores [OF assms] by (auto simp: hookup_def intrupt_def Let_def tell_def tinit_def restored_def split: option.splits)

lemma remote_main_restores:
  assumes "\<And>d. opens env d \<noteq> 0" "remote_main env db arg key typed s = Some e"
  shows "restored s (snd e)"
proof -
  have quiet: "restored s (tell bs s)" for bs by (simp add: restored_def tell_def)
  consider (message) bs where "e = (-1, tell bs s)"
    | (search) f device speed l where "db = Some f" "search arg f None (\<lambda>_. 0) = Some (Some device, speed, l)"
    using assms(2) by (auto simp: remote_main_def split: option.splits)
  then show ?thesis
  proof cases
    case message
    then show ?thesis using quiet by simp
  next
    case search
    obtain l' r where t: "try_devices env speed l device s = Some (l', r)"
      using assms(2) search by (auto simp: remote_main_def split: option.splits)
    note c = try_devices_cases [OF assms(1) t]
    show ?thesis
    proof (cases r)
      case (Inl x)
      then show ?thesis using assms(2) search t c by (simp add: remote_main_def)
    next
      case (Inr u)
      then have h: "holds_line s (wr [10] u)" using c by simp
      show ?thesis using hookup_cases [OF h, of "str_at l' 0" key] assms(2) search t Inr session_restores
        by (auto simp: remote_main_def split: sum.splits)
    qed
  qed
qed


section \<open>Signals\<close>

lemma hangup_held:
  assumes "holds_line s0 s"
  shows "fst (hangup s) = 0" "restored s0 (snd (hangup s))" "restored s0 (snd (hangup (snd (hangup s))))"
proof -
  have p: "hangup s = cleanup s" "hangup (snd (cleanup s)) = cleanup (snd (cleanup s))"
    using assms cleanup_holds [OF assms] by (simp_all add: hangup_def holds_line_def)
  show "fst (hangup s) = 0" unfolding p by (simp add: cleanup_def)
  show "restored s0 (snd (hangup s))" unfolding p by (rule cleanup_restores [OF assms])
  show "restored s0 (snd (hangup (snd (hangup s))))" unfolding p by (intro cleanup_restores cleanup_holds assms)
qed

lemma xparent_holds: "holds_line s0 s \<Longrightarrow> holds_line s0 (xparent (pterm s) Ptxlflags s)"
  by (auto simp: holds_line_def xparent_def save_modes_def Let_def)

lemma session_points_hold: "holds_line s0 s \<Longrightarrow> p \<in> set (session_points env kss s) \<Longrightarrow> holds_line s0 p"
proof (induction kss arbitrary: s)
  case (Cons ks kss)
  show ?case
  proof (cases "term_to_unix ks (sess s)")
    case (Some x)
    then show ?thesis using Cons.prems by (cases x) auto
  next
    case None
    let ?w = "wr ks s"
    show ?thesis
    proof (cases "unix_to_term (sess ?w)")
      case None
      then show ?thesis using Cons.prems \<open>term_to_unix ks (sess s) = None\<close> by (auto simp: Let_def simp del: ways_out_simps)
    next
      case (Some y)
      obtain c r where y: "y = (c, r)" by (cases y)
      let ?s = "?w\<lparr>sess := r\<rparr>" and ?i = "str ''id='' @ pid_text env @ crlf"
      have h: "holds_line s0 ?s" using Cons.prems(1) by simp
      have x: "holds_line s0 (xparent (pterm (tell ?i ?s)) Ptxlflags (tell ?i ?s))" using h by (intro xparent_holds) simp
      have "p \<in> set (s # ?w # ?s # (if c = 76 \<or> c = 83 then xparent (pterm ?s) Ptxlflags (tell ?i ?s) #
          (case transfer_file env (c = 76) ?s of None \<Rightarrow> [] | Some t \<Rightarrow> session_points env kss t) else [wr [c] ?s]))"
        using Cons.prems(2) None Some y by (simp add: Let_def del: ways_out_simps)
      then show ?thesis using Cons.prems(1) h x Cons.IH [OF transfer_file_holds [OF _ h]]
        by (cases "transfer_file env (c = 76) ?s") (auto split: if_splits)
    qed
  qed
qed simp

lemma held_points_hold:
  assumes "holds_line s0 s" "p \<in> set (held_points env system key typed s)"
  shows "holds_line s0 p"
proof -
  have h: "holds_line s0 (wr [10] s)" using assms(1) by simp
  show ?thesis using assms hookup_cases [OF h, of system key] session_points_hold
    by (auto simp: held_points_def Let_def split: sum.splits)
qed

text \<open>A point before the line is held: nothing has changed but the name of the lock file.\<close>

definition early_point :: "conn \<Rightarrow> conn \<Rightarrow> bool" where
  "early_point s p \<longleftrightarrow> pterm p = 0 \<and> saved p = saved s \<and> ttys p = ttys s \<and> locks p = locks s"

lemma try_device_early:
  assumes "try_device env system speed device s = Some (Inr t)" "opens env device \<noteq> 0" "pterm t = 0"
  shows "early_point s t"
proof -
  let ?n = "LOCKROOT @ tail_name device"
  show ?thesis
  proof (cases "locks s ?n \<noteq> None \<or> \<not> can_lock env ?n")
    case True
    then show ?thesis using assms(1) by (auto simp: try_device_def Let_def early_point_def tell_def split: if_splits)
  next
    case False
    then obtain u where "xlucent (opens env device) Ptflags speed u = Inr t" "pterm u = opens env device"
      using assms(1) xlucent_own(1) [of 0 Tflags speed]
      by (auto simp: try_device_def Let_def split: if_splits option.splits sum.splits)
    then show ?thesis using xlucent_own [of "opens env device" Ptflags speed u t] assms(2,3) by simp
  qed
qed

lemma try_points_early:
  assumes "\<And>d. opens env d \<noteq> 0" "x \<in> set (try_points env speed l device s)"
  shows "early_point s x"
  using assms(2)
proof (induction "100 - device" arbitrary: l device s rule: less_induct)
  case less
  note run = less.prems
  obtain p where p: "dev_end l device = Some p" using run by (subst (asm) try_points.simps) (cases "dev_end l device"; simp)
  let ?l = "l(p := 0)" and ?r = "try_device env (str_at (l(p := 0)) 0) (speed_str speed (l(p := 0))) (str_at (l(p := 0)) device) s"
  obtain r where r: "?r = Some r" using run p by (subst (asm) try_points.simps) (cases ?r; simp add: Let_def)
  obtain t where t: "?r = Some (Inr t)" "pterm t = 0"
    using run p r by (subst (asm) try_points.simps) (cases r; simp add: Let_def split: if_splits)
  have e: "early_point s t" by (rule try_device_early [OF t(1) assms(1) t(2)])
  have "x = t \<or> (l p \<noteq> 10 \<and> l p \<noteq> 0 \<and> x \<in> set (try_points env speed ?l (p + 1) t))"
    using run p t by (subst (asm) try_points.simps) (auto simp: Let_def split: if_splits)
  moreover have "100 - (p + 1) < 100 - device" using dev_end_bounds [OF p] by auto
  ultimately show ?case using e less.hyps [of "p + 1" ?l t] by (auto simp: early_point_def)
qed

lemma remote_points_cases:
  assumes o: "\<And>d. opens env d \<noteq> 0" and s: "pterm s = 0" and x: "(ph, p) \<in> set (remote_points env db arg key typed s)"
  shows "case ph of Early \<Rightarrow> early_point s p | Held \<Rightarrow> holds_line s p"
proof -
  have "early_point s s" using s by (simp add: early_point_def)
  moreover have "holds_line s p" if "try_devices env speed l device s = Some (l', Inr u)"
      "p \<in> set (held_points env (str_at l' 0) key typed u)" for speed l device l' u
    using held_points_hold [OF _ that(2)] try_devices_cases [OF o that(1)] by simp
  ultimately show ?thesis using x try_points_early [OF o]
    by (auto simp: remote_points_def dest!: sym [of "Some _"] split: option.splits sum.splits prod.splits)
qed

lemma early_signals:
  assumes "early_point s p"
  shows "snd (intrupt p) = p\<lparr>locks := (locks s)(locknm p := None)\<rparr>"
    "ttys (snd (hangup p)) = (ttys s)(0 := saved s Tflags)" "locks (snd (hangup p)) = (locks s)(locknm p := None)"
  using assms by (auto simp: early_point_def intrupt_def hangup_def logout_def Let_def tinit_def tell_def)


section \<open>The database\<close>

record dbline =
  d_name :: "byte list"
  d_dev :: "byte list"
  d_speed :: "byte list"

abbreviation word_ok :: "byte list \<Rightarrow> bool" where
  "word_ok bs \<equiv> set bs \<inter> {0, 9, 10, 32} = {}"

definition dbline_text :: "dbline \<Rightarrow> byte list" where
  "dbline_text e = d_name e @ 32 # d_dev e @ 32 # d_speed e @ [10]"

definition dbline_ok :: "dbline \<Rightarrow> bool" where
  "dbline_ok e \<longleftrightarrow> word_ok (d_name e) \<and> word_ok (d_dev e) \<and> word_ok (d_speed e) \<and> length (dbline_text e) < 100"

lemma fgets_text: "10 \<notin> set bs \<Longrightarrow> length bs < n \<Longrightarrow> fgets n (bs @ 10 # r) = (bs @ [10], r)"
proof (induction n arbitrary: bs)
  case (Suc n)
  then show ?case by (cases bs) auto
qed simp

text \<open>The string \<open>bs\<close> stands in the array at a place.\<close>

primrec stands :: "linebuf \<Rightarrow> nat \<Rightarrow> byte list \<Rightarrow> bool" where
  "stands l i [] = True"
| "stands l i (x # xs) = (l i = x \<and> stands l (Suc i) xs)"

lemma stands_append: "stands l i (xs @ ys) \<longleftrightarrow> stands l i xs \<and> stands l (i + length xs) ys"
  by (induction xs arbitrary: i) auto

lemma stands_upd: "j < i \<or> i + length bs \<le> j \<Longrightarrow> stands (l(j := b)) i bs = stands l i bs"
  by (induction bs arbitrary: i) auto

lemma stands_nth: "(\<And>k. k < length bs \<Longrightarrow> l (i + k) = bs ! k) \<Longrightarrow> stands l i bs"
proof (induction bs arbitrary: i)
  case (Cons b bs)
  have "l i = b" using Cons.prems [of 0] by simp
  moreover have "stands l (Suc i) bs" using Cons.prems [of "Suc _"] by (intro Cons.IH) simp
  ultimately show ?case by simp
qed simp

lemma stands_store: "stands (store bs l) 0 (bs @ [0])"
  by (rule stands_nth) (simp add: store_def nth_append)

lemma find_blank_at:
  assumes "stands l i (bs @ [b])" "set bs \<inter> {0, 9, 32} = {}" "b = 9 \<or> b = 32" "i + length bs \<le> 100"
  shows "find_blank l i = Some (i + length bs)"
  using assms
proof (induction bs arbitrary: i)
  case Nil
  then show ?case by (subst find_blank.simps) auto
next
  case (Cons x bs)
  then have "find_blank l (Suc i) = Some (Suc i + length bs)" by (intro Cons.IH) auto
  then show ?case using Cons.prems by (subst find_blank.simps) auto
qed

lemma str_at_stands:
  assumes "stands l i (bs @ [0])" "0 \<notin> set bs" "i + length bs < 100"
  shows "str_at l i = bs"
  using assms
proof (induction bs arbitrary: i)
  case Nil
  then show ?case by (simp add: str_at_def upt_conv_Cons)
next
  case (Cons x bs)
  then have "str_at l (Suc i) = bs" by (intro Cons.IH) auto
  then show ?case using Cons.prems by (simp add: str_at_def upt_conv_Cons)
qed

definition parsed :: "dbline \<Rightarrow> nat \<Rightarrow> nat \<Rightarrow> linebuf \<Rightarrow> bool" where
  "parsed e d p l \<longleftrightarrow> stands l 0 (d_name e @ [0]) \<and> stands l d (d_dev e @ [0]) \<and> stands l p (d_speed e @ [10, 0]) \<and> d + length (d_dev e) < 100 \<and> p + length (d_speed e) < 99"

lemma parse_line_text:
  assumes "dbline_ok e"
  shows "\<exists>d p l'. parse_line (store (dbline_text e) l) = Some (d, Some p, l') \<and> parsed e d p l'"
proof -
  let ?l = "store (dbline_text e) l"
  let ?i = "length (d_name e)" and ?j = "Suc (length (d_name e) + length (d_dev e))"
  have ok: "word_ok (d_name e)" "word_ok (d_dev e)" "?j + length (d_speed e) + 2 < 100" using assms by (auto simp: dbline_ok_def dbline_text_def)
  have s: "stands ?l 0 (d_name e)" "?l ?i = 32" "stands ?l (Suc ?i) (d_dev e)" "?l ?j = 32" "stands ?l (Suc ?j) (d_speed e @ [10, 0])"
    using stands_store [of "dbline_text e" l] by (simp_all add: dbline_text_def stands_append)
  let ?m = "?l(?i := 0)" and ?n = "?l(?i := 0, ?j := 0)"
  have b: "find_blank ?l 0 = Some ?i" using find_blank_at [of ?l 0 "d_name e" 32] s(1,2) ok by (auto simp: stands_append)
  have "stands ?m (Suc ?i) (d_dev e @ [32])" using s(3,4) by (simp add: stands_upd stands_append)
  then have c: "find_blank ?m (?i + 1) = Some ?j" using find_blank_at [of ?m "Suc ?i" "d_dev e" 32] ok by auto
  have "parse_line ?l = Some (?i + 1, Some (?j + 1), ?n)" using b c by (simp add: parse_line_def Let_def)
  moreover have "parsed e (?i + 1) (?j + 1) ?n"
    using s(1,3,5) ok(3) by (simp add: parsed_def stands_append stands_upd)
  ultimately show ?thesis by blast
qed

lemma parsed_str:
  assumes "dbline_ok e" "parsed e d p l"
  shows "str_at l 0 = d_name e" "str_at l d = d_dev e" "str_at l p = d_speed e @ [10]"
proof -
  have n: "length (d_name e) < 100" "0 \<notin> set (d_name e)" "0 \<notin> set (d_dev e)" "0 \<notin> set (d_speed e @ [10])"
    using assms(1) by (auto simp: dbline_ok_def dbline_text_def)
  show "str_at l 0 = d_name e" "str_at l d = d_dev e" using str_at_stands [of l 0 "d_name e"] str_at_stands [of l d "d_dev e"] assms(2) n
    by (auto simp: parsed_def)
  show "str_at l p = d_speed e @ [10]" using str_at_stands [of l p "d_speed e @ [10]"] assms(2) n by (auto simp: parsed_def)
qed

text \<open>The first line with the name of the system, or the first line.\<close>

definition wanted :: "byte list option \<Rightarrow> dbline \<Rightarrow> bool" where
  "wanted arg e \<longleftrightarrow> arg = None \<or> arg = Some (d_name e)"

lemma search_text:
  assumes "\<forall>e \<in> set es. dbline_ok e" "List.find (wanted arg) es = Some e"
  shows "\<exists>d p l'. search arg (concat (map dbline_text es)) speed l = Some (Some d, Some p, l') \<and> parsed e d p l'"
  using assms
proof (induction es arbitrary: speed l)
  case (Cons x es)
  have f: "fgets 99 (concat (map dbline_text (x # es))) = (dbline_text x, concat (map dbline_text es))"
    using fgets_text [of "d_name x @ 32 # d_dev x @ 32 # d_speed x" 99 "concat (map dbline_text es)"] Cons.prems(1)
    by (auto simp: dbline_ok_def dbline_text_def)
  have ne: "concat (map dbline_text (x # es)) \<noteq> []" by (simp add: dbline_text_def)
  obtain d p m where m: "parse_line (store (dbline_text x) l) = Some (d, Some p, m)" "parsed x d p m"
    using parse_line_text [of x l] Cons.prems(1) by auto
  have n: "str_at m 0 = d_name x" using parsed_str(1) [OF _ m(2)] Cons.prems(1) by simp
  have s: "search arg (concat (map dbline_text (x # es))) speed l
      = (if wanted arg x then Some (Some d, Some p, m) else search arg (concat (map dbline_text es)) (Some p) m)"
    by (subst search.simps) (use f ne m n in \<open>auto simp: wanted_def Let_def\<close>)
  show ?case
  proof (cases "wanted arg x")
    case True
    then show ?thesis using s m Cons.prems(2) by simp
  next
    case False
    then show ?thesis using Cons.IH [of "Some p" m] Cons.prems s by simp
  qed
qed simp


section \<open>A session that the second system ends\<close>

lemma dev_end_stands:
  assumes "stands l i (bs @ [0])" "word_ok bs" "i + length bs < 100"
  shows "dev_end l i = Some (i + length bs)"
  using assms
proof (induction bs arbitrary: i)
  case Nil
  then show ?case by (simp add: dev_end_def upt_conv_Cons)
next
  case (Cons x bs)
  then have "dev_end l (Suc i) = Some (Suc i + length bs)" by (intro Cons.IH) auto
  then show ?case using Cons.prems by (simp add: dev_end_def upt_conv_Cons)
qed

lemma atoi_newline:
  assumes "word_ok bs"
  shows "atoi (bs @ [10]) = atoi bs"
proof (cases bs)
  case (Cons x xs)
  have d: "dropWhile (\<lambda>b. b = 32 \<or> b = 9) (bs @ [10]) = bs @ [10]" "dropWhile (\<lambda>b. b = 32 \<or> b = 9) bs = bs" using assms Cons by auto
  have "takeWhile (\<lambda>b. 48 \<le> b \<and> b \<le> 57) (ys @ [10]) = takeWhile (\<lambda>b. 48 \<le> b \<and> b \<le> 57) ys" for ys :: "byte list"
    by (induction ys) auto
  then show ?thesis using d Cons by (auto simp: atoi_def Let_def)
qed (simp add: atoi_def)

lemma xlucent_ok:
  assumes "fd = 0 \<or> iospeed (atoi speed) \<noteq> None"
  shows "\<exists>t. xlucent fd k speed s = Inr t \<and> sess t = sess s \<and> pterm t = pterm s"
  using assms by (auto simp: xlucent_def save_modes_def Let_def)

definition lockable :: "hostenv \<Rightarrow> byte list \<Rightarrow> conn \<Rightarrow> bool" where
  "lockable env device s \<longleftrightarrow> length (tail_name device) \<le> 27 \<and> locks s (LOCKROOT @ tail_name device) = None
     \<and> can_lock env (LOCKROOT @ tail_name device) \<and> login env \<noteq> None \<and> tty_name env \<noteq> None \<and> opens env device > 0"

lemma try_device_ok:
  assumes "lockable env device s" "iospeed (atoi speed) \<noteq> None"
  shows "\<exists>t. try_device env system speed device s = Some (Inr t) \<and> sess t = sess s \<and> pterm t \<noteq> 0"
proof -
  let ?n = "LOCKROOT @ tail_name device" and ?fd = "opens env device"
  obtain n y where ny: "login env = Some n" "tty_name env = Some y" using assms(1) by (auto simp: lockable_def)
  let ?o = "s\<lparr>locknm := ?n, locks := (locks s)(?n \<mapsto> n @ [10] @ drop 5 y @ [10]), pterm := ?fd\<rparr>"
  obtain u where u: "xlucent 0 Tflags speed ?o = Inr u" "sess u = sess ?o" "pterm u = pterm ?o"
    using xlucent_ok [OF disjI1 [OF refl]] by blast
  obtain v where v: "xlucent ?fd Ptflags speed u = Inr v" "sess v = sess u" "pterm v = pterm u"
    using xlucent_ok [OF disjI2 [OF assms(2)]] by blast
  have "try_device env system speed device s = Some (Inr v)"
    using assms(1) ny u(1) v(1) by (simp add: try_device_def lockable_def Let_def)
  then show ?thesis using u v assms(1) by (simp add: lockable_def)
qed

lemma try_devices_ok:
  assumes "dbline_ok e" "parsed e d p l" "lockable env (d_dev e) s" "iospeed (atoi (d_speed e)) \<noteq> None"
  shows "\<exists>t. try_devices env (Some p) l d s = Some (l, Inr t) \<and> sess t = sess s \<and> pterm t \<noteq> 0"
proof -
  let ?p = "d + length (d_dev e)"
  have w: "word_ok (d_dev e)" "word_ok (d_speed e)" using assms(1) by (auto simp: dbline_ok_def)
  have z: "stands l d (d_dev e @ [0])" "?p < 100" using assms(2) by (simp_all add: parsed_def)
  have e: "dev_end l d = Some ?p" using dev_end_stands [OF z(1) w(1) z(2)] .
  have l: "l(?p := 0) = l" "l ?p = 0" using z(1) by (auto simp: stands_append fun_upd_idem)
  have "iospeed (atoi (d_speed e @ [10])) \<noteq> None" using assms(4) atoi_newline [OF w(2)] by simp
  from try_device_ok [OF assms(3) this, of "d_name e"]
  show ?thesis using e l parsed_str [OF assms(1,2)] by (subst try_devices.simps) (auto simp: Let_def speed_str_def)
qed

lemma fold_wline: "fold wline bs r = r\<lparr>tx := tx r @ bs\<rparr>"
  by (induction bs arbitrary: r) (simp_all add: wline_def)

lemma term_to_unix_None: "\<forall>k \<in> set ks. k AND 127 \<noteq> FS \<Longrightarrow> term_to_unix ks r = None"
  by (induction ks arbitrary: r) auto

text \<open>The text of the second system, and the request to quit.\<close>

lemma unix_loop_quit:
  assumes "rx r = map Rx (msg @ [SOH, ESC, 81]) @ es" "SOH \<notin> set msg"
  shows "unix_loop c r = Some (81, r\<lparr>rx := es, scr := scr r @ msg\<rparr>)"
  using assms
proof (induction msg arbitrary: c r)
  case Nil
  then show ?case by (subst unix_loop.simps) (simp add: rdline_def)
next
  case (Cons b msg)
  let ?r = "rputchar b (r\<lparr>rx := map Rx (msg @ [SOH, ESC, 81]) @ es\<rparr>)"
  have "unix_loop b ?r = Some (81, ?r\<lparr>rx := es, scr := scr ?r @ msg\<rparr>)" using Cons.prems(2) by (intro Cons.IH) (simp_all add: rputchar_def)
  then show ?case using Cons.prems by (subst unix_loop.simps) (simp add: rdline_def rputchar_def)
qed

lemma session_quits:
  assumes "rx (sess s) = map Rx (msg @ [SOH, ESC, 81]) @ es" "SOH \<notin> set msg" "\<forall>k \<in> set ks. k AND 127 \<noteq> FS"
  shows "\<exists>t. session env (ks # kss) s = Some (0, t) \<and> tx (sess t) = tx (sess s) @ ks @ [81] \<and> scr (sess t) = scr (sess s) @ msg"
proof -
  let ?r = "fold wline ks (sess s)"
  let ?f = "?r\<lparr>n_junk := n_junk ?r + 1\<rparr>"
  have "unix_loop (junk ?r (n_junk ?r)) ?f = Some (81, ?f\<lparr>rx := es, scr := scr ?f @ msg\<rparr>)"
    by (rule unix_loop_quit) (use assms(1,2) in \<open>simp_all add: fold_wline\<close>)
  then have u: "unix_to_term ?r = Some (81, ?f\<lparr>rx := es, scr := scr ?f @ msg\<rparr>)" by (simp add: unix_to_term_def fresh_def)
  have "session env (ks # kss) s = Some (logout (wr [81] ((wr ks s)\<lparr>sess := ?f\<lparr>rx := es, scr := scr ?f @ msg\<rparr>\<rparr>)))"
    using term_to_unix_None [OF assms(3)] u by (simp add: Let_def)
  then show ?thesis by (auto simp: fold_wline wline_def prod_eq_iff simp del: session.simps)
qed

lemma remote_main_quits:
  assumes "\<forall>e \<in> set es. dbline_ok e" "List.find (wanted arg) es = Some e" "lockable env (d_dev e) s" "iospeed (atoi (d_speed e)) \<noteq> None"
    "key AND 127 \<noteq> 127" "rx (sess s) = map Rx (msg @ [SOH, ESC, 81]) @ ev" "SOH \<notin> set msg" "\<forall>k \<in> set ks. k AND 127 \<noteq> FS"
  shows "\<exists>t. remote_main env (Some (concat (map dbline_text es))) arg (Some key) (ks # kss) s = Some (0, t)
    \<and> tx (sess t) = tx (sess s) @ [10, key] @ ks @ [81] \<and> scr (sess t) = scr (sess s) @ msg"
proof -
  obtain d p l where l: "search arg (concat (map dbline_text es)) None (\<lambda>_. 0) = Some (Some d, Some p, l)" "parsed e d p l"
    using search_text [OF assms(1,2)] by blast
  have "dbline_ok e" using assms(1,2) by (auto simp: find_Some_iff)
  then obtain u where u: "try_devices env (Some p) l d s = Some (l, Inr u)" "sess u = sess s"
    using try_devices_ok [OF _ l(2) assms(3,4)] by blast
  let ?v = "wr [key] (wr [10] u)"
  have h: "hookup (str_at l 0) (Some key) (wr [10] u) = Inr ?v" using assms(5) by (simp add: hookup_def Let_def)
  have "rx (sess ?v) = map Rx (msg @ [SOH, ESC, 81]) @ ev" using assms(6) u(2) by (simp add: fold_wline wline_def)
  from session_quits [OF this assms(7,8), of env kss] show ?thesis using l(1) u h by (auto simp: remote_main_def wline_def)
qed

text \<open>A line that is free has a point at which it is held; a line that another user has, one at which his lock was found.\<close>

lemma remote_points_held:
  assumes "\<forall>e \<in> set es. dbline_ok e" "List.find (wanted arg) es = Some e" "lockable env (d_dev e) s" "iospeed (atoi (d_speed e)) \<noteq> None"
  shows "\<exists>p. (Held, p) \<in> set (remote_points env (Some (concat (map dbline_text es))) arg key typed s)"
proof -
  obtain d p l where l: "search arg (concat (map dbline_text es)) None (\<lambda>_. 0) = Some (Some d, Some p, l)" "parsed e d p l"
    using search_text [OF assms(1,2)] by blast
  have "dbline_ok e" using assms(1,2) by (auto simp: find_Some_iff)
  then obtain u where "try_devices env (Some p) l d s = Some (l, Inr u)"
    using try_devices_ok [OF _ l(2) assms(3,4)] by blast
  then have "(Held, u) \<in> set (remote_points env (Some (concat (map dbline_text es))) arg key typed s)"
    using l(1) by (simp add: remote_points_def held_points_def)
  then show ?thesis by blast
qed

lemma remote_points_locked:
  assumes "\<forall>e \<in> set es. dbline_ok e" "List.find (wanted arg) es = Some e"
    "length (tail_name (d_dev e)) \<le> 27" "locks s (LOCKROOT @ tail_name (d_dev e)) \<noteq> None"
  shows "\<exists>p. (Early, p) \<in> set (remote_points env (Some (concat (map dbline_text es))) arg key typed s)
    \<and> locknm p = LOCKROOT @ tail_name (d_dev e)"
proof -
  obtain d p l where l: "search arg (concat (map dbline_text es)) None (\<lambda>_. 0) = Some (Some d, Some p, l)" "parsed e d p l"
    using search_text [OF assms(1,2)] by blast
  have ok: "dbline_ok e" using assms(1,2) by (auto simp: find_Some_iff)
  let ?p = "d + length (d_dev e)" and ?t = "s\<lparr>pterm := 0, locknm := LOCKROOT @ tail_name (d_dev e)\<rparr>"
  have z: "stands l d (d_dev e @ [0])" "?p < 100" using l(2) by (simp_all add: parsed_def)
  have e: "dev_end l d = Some ?p" by (rule dev_end_stands [OF z(1) _ z(2)]) (use ok in \<open>simp add: dbline_ok_def\<close>)
  have m: "l(?p := 0) = l" using z(1) by (auto simp: stands_append fun_upd_idem)
  have "try_device env (str_at l 0) (speed_str (Some p) l) (str_at l d) s = Some (Inr ?t)"
    using assms(3,4) parsed_str(2) [OF ok l(2)] by (simp add: try_device_def Let_def)
  then have "?t \<in> set (try_points env (Some p) l d s)" using e m by (subst try_points.simps) (simp add: Let_def)
  then have "(Early, ?t) \<in> set (remote_points env (Some (concat (map dbline_text es))) arg key typed s)"
    using l(1) by (simp add: remote_points_def)
  then show ?thesis by force
qed

end
