(* ===== verification/Zeus_Init.thy ===== *)
theory Zeus_Init
  imports V7_Prelude
begin

text \<open>
  \<open>re/init/zeus-init.c\<close>: the first process of ZEUS, reconstructed from its binary. It reads \<open>/etc/inittab\<close> for the
  current state, keeps a table of the processes it starts, and starts them again when they end.

  The system is part of the state. \<open>forks\<close> has the result of each \<open>fork\<close>, as the parent sees it; \<open>runs\<close> collects
  the command lines with their process numbers. \<open>waits\<close> is what \<open>wait\<close> meets: a child that ends, a signal, or
  that there is no child; signals arrive only while init waits. \<open>tabs\<close> has the contents of the table file at
  each \<open>fopen\<close>, \<open>memory\<close> tells which calls of \<open>realloc\<close> find memory. The console can be
  opened. There is no result where init exits, waits forever, or stores outside of an array.
\<close>

section \<open>Data\<close>

abbreviation "NOPROC \<equiv> 0 :: int"
abbreviation "NOCMD \<equiv> -1 :: int"
abbreviation "FORKERR \<equiv> -1 :: int"
abbreviation "ASIZE \<equiv> 256 :: nat"
abbreviation "TABSIZ \<equiv> 100 :: nat"
abbreviation "RCLIM \<equiv> 300 :: int"
abbreviation "STx \<equiv> 1 :: int"
abbreviation "SIGINT \<equiv> 2 :: int"
abbreviation "SIGALRM \<equiv> 14 :: int"

definition ST :: "int list" where
  "ST = [0, 4, 5, 6, 7, 8, 10, 11, 12, 13]"

definition sigs :: "int list" where
  "sigs = [2, 3, 14, 15]"

record initbl =
  in_proc :: int
  in_id :: "byte \<times> byte"
  in_cmd :: int

datatype sigact = Ignore | Default | Chst | Rckill

datatype happening = Exits int | Signal int | No_child

record ini =
  itab :: "nat \<Rightarrow> initbl"
  idlim :: nat
  istate :: int
  lstate :: int
  statecnt :: "int list"
  rdstate :: bool
  xstate :: bool
  rcid :: int
  csize :: nat
  nextcmd :: nat
  cmds :: "nat \<Rightarrow> byte"
  acts :: "int \<Rightarrow> sigact"
  forks :: "int list"
  runs :: "(int \<times> byte list) list"
  kills :: "(int \<times> int) list"
  waits :: "happening list"
  tabs :: "byte list option list"
  memory :: "bool list"
  diag :: "byte list"

definition bytes :: "string \<Rightarrow> byte list" where
  "bytes cs = map of_char cs"

text \<open>\<open>fopen(DIAG, "a")\<close> and the message of \<open>err\<close>.\<close>

definition imsg :: "byte list \<Rightarrow> byte list \<Rightarrow> ini \<Rightarrow> ini" where
  "imsg msg1 msg2 s = s\<lparr>diag := diag s @ bytes ''init: '' @ msg1 @ msg2 @ [10]\<rparr>"

definition ikill :: "int \<Rightarrow> int \<Rightarrow> ini \<Rightarrow> ini" where
  "ikill pid sno s = s\<lparr>kills := kills s @ [(pid, sno)]\<rparr>"

definition ifork :: "ini \<Rightarrow> (int \<times> ini) option" where
  "ifork s = (case forks s of [] \<Rightarrow> None | p # ps \<Rightarrow> Some (p, s\<lparr>forks := ps\<rparr>))"

text \<open>A C string in memory.\<close>

definition cstr :: "byte list \<Rightarrow> byte list" where
  "cstr bs = takeWhile (\<lambda>b. b \<noteq> 0) bs"


section \<open>Numbers\<close>

text \<open>The digits in the order in which \<open>itoa\<close> makes them; \<open>n\<close> is not negative.\<close>

function itoa_loop :: "int \<Rightarrow> byte list" where
  "itoa_loop n = word_of_int (n mod 10 + 48) # (if n div 10 > 0 then itoa_loop (n div 10) else [])"
  by pat_completeness auto
termination by (relation "measure nat") auto

definition itoa :: "int \<Rightarrow> byte list" where
  "itoa n = rev (itoa_loop (if n < 0 then s16 (- n) else n) @ (if n < 0 then [45] else []))"


section \<open>The table\<close>

text \<open>The first index in front of \<open>n\<close> with a property.\<close>

definition first_index :: "(nat \<Rightarrow> bool) \<Rightarrow> nat \<Rightarrow> nat option" where
  "first_index P n = List.find P [0..<n]"

definition lookproc :: "int \<Rightarrow> ini \<Rightarrow> nat option" where
  "lookproc proc s = first_index (\<lambda>i. in_proc (itab s i) = proc) (idlim s)"

definition lookid :: "byte \<times> byte \<Rightarrow> ini \<Rightarrow> (nat \<times> ini) option" where
  "lookid idc s =
     (case first_index (\<lambda>i. in_id (itab s i) = idc) (idlim s) of
        Some i \<Rightarrow> Some (i, s)
      | None \<Rightarrow>
          if idlim s < TABSIZ
          then Some (idlim s, s\<lparr>itab := (itab s)(idlim s := \<lparr>in_proc = NOPROC, in_id = idc, in_cmd = NOCMD\<rparr>), idlim := idlim s + 1\<rparr>)
          else None)"

definition set_cmd :: "nat \<Rightarrow> int \<Rightarrow> ini \<Rightarrow> ini" where
  "set_cmd i c s = s\<lparr>itab := (itab s)(i := (itab s i)\<lparr>in_cmd := c\<rparr>)\<rparr>"

definition set_proc :: "nat \<Rightarrow> int \<Rightarrow> ini \<Rightarrow> ini" where
  "set_proc i p s = s\<lparr>itab := (itab s)(i := (itab s i)\<lparr>in_proc := p\<rparr>)\<rparr>"

text \<open>\<open>strcpy(start+nextcmd, str)\<close>, with the terminating null.\<close>

definition store_cmd :: "byte list \<Rightarrow> ini \<Rightarrow> ini option" where
  "store_cmd bs s =
     (if nextcmd s + length bs + 1 \<le> csize s
      then Some (s\<lparr>cmds := (\<lambda>i. if nextcmd s \<le> i \<and> i \<le> nextcmd s + length bs then (bs @ [0]) ! (i - nextcmd s) else cmds s i),
        nextcmd := nextcmd s + length bs + 1\<rparr>)
      else None)"

text \<open>\<open>csize\<close> has 16 bits; there is no result when it would pass them.\<close>

definition fit :: "byte list \<Rightarrow> ini \<Rightarrow> (int \<times> ini) option" where
  "fit bs s =
     (if length bs + 1 + nextcmd s > csize s then
        if csize s + ASIZE > 65535 then None
        else (case memory s of
           [] \<Rightarrow> None
         | False # ms \<Rightarrow> Some (NOCMD, imsg (bytes ''no memory, malloc failed'') [] (s\<lparr>memory := ms\<rparr>))
         | True # ms \<Rightarrow> do { t \<leftarrow> store_cmd bs (s\<lparr>memory := ms, csize := csize s + ASIZE\<rparr>); Some (int (nextcmd s), t) })
      else do { t \<leftarrow> store_cmd bs s; Some (int (nextcmd s), t) })"

text \<open>The string at an offset of the commands.\<close>

definition cmd_at :: "nat \<Rightarrow> ini \<Rightarrow> byte list" where
  "cmd_at a s = cstr (map (cmds s) [a..<csize s])"


section \<open>Reading \<open>inittab\<close>\<close>

text \<open>
  The characters up to the end of a line; \<open>None\<close> for the end of the file.
\<close>

fun skip_line :: "byte list \<Rightarrow> byte list option" where
  "skip_line [] = None"
| "skip_line (b # bs) = (if b = 10 then Some bs else skip_line bs)"

text \<open>
  The two loops that fill an array. A character is stored before it is looked at, so \<open>room\<close> counts the
  places that are left. The byte 255 is taken for \<open>EOF\<close>, as characters are signed.
\<close>

datatype filled = Overrun | At_eof "byte list" "byte list" | At_newline "byte list" "byte list" | At_colon "byte list" "byte list"

fun fill :: "bool \<Rightarrow> nat \<Rightarrow> byte list \<Rightarrow> byte list \<Rightarrow> filled" where
  "fill colon 0 acc bs = Overrun"
| "fill colon (Suc room) acc [] = At_eof acc []"
| "fill colon (Suc room) acc (b # bs) =
     (if colon \<and> b = 58 then At_colon acc bs
      else if b = 255 then At_eof acc bs
      else if b = 10 then At_newline acc bs
      else fill colon room (acc @ [b]) bs)"

text \<open>What a turn of the loop finds: the end, a line to skip, a fault, or an entry.\<close>

datatype tabline = Tab_end | Tab_next "byte list" | Tab_fault | Tab_entry "byte \<times> byte" "byte list" "byte list" "byte list"

definition tab_skip :: "byte list \<Rightarrow> tabline" where
  "tab_skip bs = (case skip_line bs of None \<Rightarrow> Tab_end | Some r \<Rightarrow> Tab_next r)"

definition tab_rest :: "byte \<times> byte \<Rightarrow> byte list \<Rightarrow> tabline" where
  "tab_rest idc bs =
     (case fill True 5 [] bs of
        Overrun \<Rightarrow> Tab_fault
      | At_eof _ _ \<Rightarrow> Tab_end
      | At_newline _ r \<Rightarrow> Tab_next r
      | At_colon fl r \<Rightarrow>
          (case fill False 256 [] r of
             At_newline c q \<Rightarrow> Tab_entry idc (cstr fl) (cstr c) q
           | At_eof c q \<Rightarrow> Tab_entry idc (cstr fl) (cstr c) q
           | _ \<Rightarrow> Tab_fault))"

definition tab_id :: "byte list \<Rightarrow> tabline" where
  "tab_id bs =
     (case bs of
        [] \<Rightarrow> Tab_end
      | a # bs \<Rightarrow>
          if a = 255 then Tab_end else if a = 10 then Tab_next bs
          else (case bs of
              [] \<Rightarrow> Tab_end
            | b # bs \<Rightarrow>
                if b = 255 then Tab_end else if b = 10 then Tab_next bs
                else (case bs of [] \<Rightarrow> Tab_end | c # bs \<Rightarrow> if c = 58 then tab_rest (a, b) bs else tab_skip bs)))"

definition tab_line :: "int \<Rightarrow> byte list \<Rightarrow> tabline" where
  "tab_line st bs =
     (case bs of
        [] \<Rightarrow> Tab_end
      | c # bs \<Rightarrow>
          if c = 10 then Tab_next bs
          else if uint c \<noteq> st then tab_skip bs
          else (case bs of [] \<Rightarrow> Tab_end | d # bs \<Rightarrow> if d \<noteq> 58 then tab_skip bs else tab_id bs))"

text \<open>The signals that the flags ask for.\<close>

fun flag_kills :: "int \<Rightarrow> byte list \<Rightarrow> ini \<Rightarrow> ini" where
  "flag_kills p [] s = s"
| "flag_kills p (f # fs) s =
     flag_kills p fs (if f = 116 \<and> p > NOPROC then ikill (- p) 15 s else if f = 107 \<and> p > NOPROC then ikill (- p) 9 s else s)"

definition tab_apply :: "byte \<times> byte \<Rightarrow> byte list \<Rightarrow> byte list \<Rightarrow> ini \<Rightarrow> ini option" where
  "tab_apply idc iflags icmd s = do {
     (itp, s) \<leftarrow> lookid idc s;
     s \<leftarrow> (if 111 \<in> set iflags \<or> icmd = [] then Some s
       else do {
         (c, s) \<leftarrow> fit (if 99 \<in> set iflags then icmd else [58, 32] @ icmd) s;
         Some (set_cmd itp c s) });
     Some (flag_kills (in_proc (itab s itp)) iflags s) }"

lemma skip_line_length: "skip_line bs = Some r \<Longrightarrow> length r < length bs"
  by (induction bs) (auto split: if_splits)

lemma fill_length:
  "fill colon room acc bs = At_newline c r \<Longrightarrow> length r < length bs"
  "fill colon room acc bs = At_colon c r \<Longrightarrow> length r < length bs"
  "fill colon room acc bs = At_eof c r \<Longrightarrow> length r \<le> length bs"
  by (induction colon room acc bs rule: fill.induct) (auto split: if_splits)

lemma tab_skip_length: "tab_skip bs = Tab_next r \<Longrightarrow> length r < length bs" "tab_skip bs \<noteq> Tab_entry idc fl c r"
  using skip_line_length by (auto simp: tab_skip_def split: option.splits)

lemma tab_rest_length:
  "tab_rest idc bs = Tab_next r \<Longrightarrow> length r < length bs" "tab_rest idc bs = Tab_entry id' fl c r \<Longrightarrow> length r < length bs"
  by (auto simp: tab_rest_def split: filled.splits dest!: fill_length)

lemma tab_line_length:
  "tab_line st bs = Tab_next r \<Longrightarrow> length r < length bs" "tab_line st bs = Tab_entry idc fl c r \<Longrightarrow> length r < length bs"
  by (auto simp: tab_line_def tab_id_def tab_skip_length(2) split: list.splits if_splits dest!: tab_skip_length(1) tab_rest_length)

function read_lines :: "byte list \<Rightarrow> ini \<Rightarrow> ini option" where
  "read_lines bs s =
     (case tab_line (istate s) bs of
        Tab_end \<Rightarrow> Some s
      | Tab_next r \<Rightarrow> read_lines r s
      | Tab_fault \<Rightarrow> None
      | Tab_entry idc fl c r \<Rightarrow> Option.bind (tab_apply idc fl c s) (\<lambda>t. read_lines r t))"
  by pat_completeness auto
termination by (relation "measure (\<lambda>(bs, _). length bs)") (auto dest: tab_line_length)

declare read_lines.simps [simp del]


section \<open>Signals\<close>

definition set_all :: "int list \<Rightarrow> sigact \<Rightarrow> ini \<Rightarrow> ini" where
  "set_all ns a s = s\<lparr>acts := (\<lambda>n. if n \<in> set ns then a else acts s n)\<rparr>"

definition ignsigs :: "ini \<Rightarrow> ini" where
  "ignsigs s = set_all (tl ST) Ignore (set_all sigs Ignore s)"

definition setsigs :: "ini \<Rightarrow> ini" where
  "setsigs s = set_all (tl ST) Chst (set_all sigs Ignore s)"

text \<open>The search of \<open>chst\<close> for the signal runs past the array when it is not there.\<close>

definition chst :: "int \<Rightarrow> ini \<Rightarrow> ini option" where
  "chst sno s =
     (let s = (ignsigs s)\<lparr>lstate := istate s, rdstate := True\<rparr> in
      if sno = STx then Some (s\<lparr>acts := (acts s)(STx := Chst), istate := 49\<rparr>)
      else if sno = SIGINT then Some s
      else (case first_index (\<lambda>i. i \<ge> 1 \<and> ST ! i = sno) 10 of None \<Rightarrow> None | Some i \<Rightarrow> Some (s\<lparr>istate := int i + 48\<rparr>)))"

definition rckill :: "ini \<Rightarrow> ini" where
  "rckill s = (ikill (- rcid s) 9 (imsg (bytes ''RC over time limit of:'') (itoa RCLIM) s))\<lparr>xstate := True\<rparr>"

text \<open>\<open>wait\<close>: a signal that is caught ends it with \<open>-1\<close>; its action is the default one again when the handler starts.\<close>

primrec iwait :: "happening list \<Rightarrow> ini \<Rightarrow> (int \<times> ini) option" where
  "iwait [] s = None"
| "iwait (h # hs) s =
     (case h of
        Exits p \<Rightarrow> Some (p, s\<lparr>waits := hs\<rparr>)
      | No_child \<Rightarrow> Some (- 1, s\<lparr>waits := hs\<rparr>)
      | Signal n \<Rightarrow>
          (case acts s n of
             Ignore \<Rightarrow> iwait hs s
           | Default \<Rightarrow> None
           | Chst \<Rightarrow> do { s \<leftarrow> chst n (s\<lparr>waits := hs, acts := (acts s)(n := Default)\<rparr>); Some (- 1, s) }
           | Rckill \<Rightarrow> Some (- 1, rckill (s\<lparr>waits := hs, acts := (acts s)(n := Default)\<rparr>))))"


section \<open>Processes\<close>

definition ERRACT :: "byte list" where
  "ERRACT = bytes ''/bin/sh < /dev/console > /dev/console 2>&1''"

text \<open>\<open>rs\<close> has room for 256 characters.\<close>

definition iexec :: "byte list \<Rightarrow> ini \<Rightarrow> (int \<times> ini) option" where
  "iexec c s =
     (if length c + 6 > 256 then None
      else do {
        (pid, s) \<leftarrow> ifork s;
        if pid = FORKERR then Some (NOPROC, imsg (bytes ''fork failed for:'') c s)
        else Some (pid, s\<lparr>runs := runs s @ [(pid, bytes ''exec '' @ c)]\<rparr>) })"

definition start_entry :: "nat \<Rightarrow> ini \<Rightarrow> ini option" where
  "start_entry i s =
     (if in_proc (itab s i) = NOPROC \<and> in_cmd (itab s i) \<noteq> NOCMD then
        (let a = nat (in_cmd (itab s i)) in
         if cmds s a = 58 then do {
           (p, s) \<leftarrow> iexec (cmd_at (a + 2) s) s;
           Some (set_cmd i NOCMD (set_proc i p s)) }
         else do { (p, s) \<leftarrow> iexec (cmd_at a s) s; Some (set_proc i p s) })
      else Some s)"

fun start_entries :: "nat list \<Rightarrow> ini \<Rightarrow> ini option" where
  "start_entries [] s = Some s"
| "start_entries (i # is) s = Option.bind (start_entry i s) (start_entries is)"

definition invttys :: "ini \<Rightarrow> ini option" where
  "invttys s = start_entries [0..<idlim s] s"

text \<open>The end of a process is noted in the table.\<close>

definition reap :: "int \<Rightarrow> ini \<Rightarrow> ini" where
  "reap p s = (case lookproc p s of None \<Rightarrow> s | Some i \<Rightarrow> set_proc i NOPROC s)"

text \<open>\<open>err(2, ...)\<close> up to its loop: the default shell.\<close>

definition err_shell :: "byte list \<Rightarrow> ini \<Rightarrow> (int \<times> ini) option" where
  "err_shell msg s = do {
     let s = imsg msg [] s;
     let s = s\<lparr>diag := diag s @ bytes ''trying default shell'' @ [10] @ ERRACT @ [10]\<rparr>;
     (i, s) \<leftarrow> iexec ERRACT s;
     if i = NOPROC then None else Some (i, setsigs (s\<lparr>rdstate := False\<rparr>)) }"

definition err_end :: "ini \<Rightarrow> ini" where
  "err_end s = (if rdstate s then s\<lparr>diag := diag s @ bytes ''WARNING: default shell not terminated'' @ [10]\<rparr> else s)"

text \<open>
  \<open>waitttys\<close> and the loop of \<open>err\<close>, which call each other: with \<open>None\<close> the function is \<open>waitttys\<close>, with \<open>Some i\<close>
  the loop that waits for process \<open>i\<close>.
\<close>

partial_function (option) wait_for :: "int option \<Rightarrow> ini \<Rightarrow> (int \<times> ini) option" where
  "wait_for m s =
     (if m = None then
        Option.bind (iwait (waits s) s) (\<lambda>(p, s).
          if p = - 1 \<and> \<not> rdstate s \<and> \<not> xstate s then
            Option.bind (err_shell (bytes ''no processes running'') s) (\<lambda>(i, s).
              Option.bind (wait_for (Some i) s) (\<lambda>(p, s). wait_for None (err_end s)))
          else Some (p, reap p s))
      else
        Option.bind (wait_for None s) (\<lambda>(p, s).
          if p \<noteq> the m \<and> \<not> rdstate s then wait_for m s else Some (p, s)))"

abbreviation waitttys :: "ini \<Rightarrow> (int \<times> ini) option" where
  "waitttys \<equiv> wait_for None"

text \<open>\<open>err(2, msg, "")\<close>.\<close>

definition err2 :: "byte list \<Rightarrow> ini \<Rightarrow> ini option" where
  "err2 msg s = do {
     (i, s) \<leftarrow> err_shell msg s;
     (p, s) \<leftarrow> wait_for (Some i) s;
     Some (err_end s) }"

definition all_nocmd :: "ini \<Rightarrow> ini" where
  "all_nocmd s = s\<lparr>itab := (\<lambda>i. if i < idlim s then (itab s i)\<lparr>in_cmd := NOCMD\<rparr> else itab s i)\<rparr>"

partial_function (option) open_tab :: "ini \<Rightarrow> (byte list \<times> ini) option" where
  "open_tab s =
     (case tabs s of
        [] \<Rightarrow> None
      | Some bs # ts \<Rightarrow> Some (bs, s\<lparr>tabs := ts\<rparr>)
      | None # ts \<Rightarrow> Option.bind (err2 (bytes ''inittab open failed'') (s\<lparr>tabs := ts\<rparr>)) open_tab)"

definition readttys :: "ini \<Rightarrow> ini option" where
  "readttys s = do {
     (bs, s) \<leftarrow> open_tab ((all_nocmd s)\<lparr>nextcmd := 0\<rparr>);
     read_lines bs (s\<lparr>rdstate := False\<rparr>) }"


section \<open>States\<close>

text \<open>\<open>iabuf\<close> has room for 5 characters.\<close>

definition rcstring :: "ini \<Rightarrow> byte list option" where
  "rcstring s =
     (let n = itoa (statecnt s ! nat (istate s - 48) - 1) in
      if length n + 1 > 5 then None
      else Some (bytes ''exec /etc/rc '' @ [word_of_int (istate s)] @ (if xstate s then [120] else []) @ [32] @ n @ [32, word_of_int (lstate s)]))"

partial_function (option) rc_fork :: "ini \<Rightarrow> ini option" where
  "rc_fork s = Option.bind (ifork s) (\<lambda>(p, s).
     if p = FORKERR then rc_fork (imsg (bytes ''fork failed for: RC'') [] s) else Some (s\<lparr>rcid := p\<rparr>))"

partial_function (option) rc_wait :: "ini \<Rightarrow> ini option" where
  "rc_wait s = Option.bind (waitttys s) (\<lambda>(p, s). if p \<noteq> rcid s \<and> \<not> rdstate s then rc_wait s else Some s)"

definition runrc :: "ini \<Rightarrow> ini option" where
  "runrc s = do {
     rc \<leftarrow> rcstring s;
     s \<leftarrow> rc_fork s;
     let s = setsigs (s\<lparr>runs := runs s @ [(rcid s, rc)]\<rparr>);
     let s = (if \<not> xstate s then s\<lparr>acts := (acts s)(SIGALRM := Rckill)\<rparr> else s);
     s \<leftarrow> rc_wait s;
     Some (if \<not> xstate s then s\<lparr>acts := (acts s)(SIGALRM := Ignore)\<rparr> else s) }"

text \<open>\<open>while(rdstate)\<close> of \<open>main\<close>.\<close>

partial_function (option) enter_state :: "ini \<Rightarrow> ini option" where
  "enter_state s =
     (if \<not> rdstate s then Some s
      else Option.bind (readttys (s\<lparr>rdstate := False\<rparr>)) (\<lambda>s.
        Option.bind (runrc (s\<lparr>statecnt := (statecnt s)[nat (istate s - 48) := statecnt s ! nat (istate s - 48) + 1]\<rparr>)) (\<lambda>s.
          enter_state (s\<lparr>xstate := False\<rparr>))))"

definition co_kill :: "int \<Rightarrow> ini \<Rightarrow> ini option" where
  "co_kill sno s = do { (i, s) \<leftarrow> lookid (99, 111) s; Some (ikill (- in_proc (itab s i)) sno s) }"

text \<open>A turn of the loop of \<open>main\<close>.\<close>

definition init_turn :: "ini \<Rightarrow> ini option" where
  "init_turn s = do {
     s \<leftarrow> enter_state (s\<lparr>xstate := False\<rparr>);
     s \<leftarrow> (if istate s = 50 \<and> lstate s = 49 then do { s \<leftarrow> co_kill 15 s; co_kill 9 s } else Some s);
     s \<leftarrow> invttys s;
     (p, s) \<leftarrow> waitttys s;
     Some s }"

text \<open>
  The lookup in the words of \<open>/etc/ttytype\<close>, a code and a device name in turn; the arrays have 8 and 20 characters.
  A last code without a name is compared with the name before it, \<open>dn\<close>.
\<close>

fun ttytype :: "byte list \<Rightarrow> byte list \<Rightarrow> byte list list \<Rightarrow> byte list option" where
  "ttytype name dn [] = Some (bytes ''un'')"
| "ttytype name dn [c] = (if length c + 1 > 8 then None else if dn = name then Some c else Some (bytes ''un''))"
| "ttytype name dn (c # d # r) =
     (if length c + 1 > 8 \<or> length d + 1 > 20 then None else if d = name then Some c else ttytype name d r)"

text \<open>\<open>stypeof(DIAG)\<close>: the name after the last slash of \<open>/dev/console\<close>; \<open>None\<close> stands for a file that cannot be opened.\<close>

definition console_type :: "byte list list option \<Rightarrow> byte list option" where
  "console_type types = (case types of None \<Rightarrow> Some (bytes ''un'') | Some ts \<Rightarrow> ttytype (bytes ''console'') [] ts)"

partial_function (option) get_memory :: "ini \<Rightarrow> ini option" where
  "get_memory s =
     (case memory s of
        [] \<Rightarrow> None
      | m # ms \<Rightarrow>
          if m then Some (s\<lparr>memory := ms\<rparr>)
          else Option.bind (err2 (bytes ''no memory, malloc failed'') (s\<lparr>memory := ms\<rparr>)) get_memory)"

text \<open>\<open>main\<close> up to its loop: the terminal type for the environment, and the state; \<open>name\<close> is \<open>argv[0]\<close>.\<close>

definition init_boot :: "byte list \<Rightarrow> byte list list option \<Rightarrow> ini \<Rightarrow> (byte list \<times> ini) option" where
  "init_boot name types s = do {
     let s = ignsigs (s\<lparr>acts := (acts s)(STx := Chst)\<rparr>);
     s \<leftarrow> get_memory s;
     term \<leftarrow> console_type types;
     Some (term, if name \<noteq> [] \<and> hd name = 109 then s\<lparr>istate := 50\<rparr> else s) }"

text \<open>\<open>init\<close> as a command: the signal for the first process, or a message.\<close>

definition init_command :: "byte list list \<Rightarrow> bool \<Rightarrow> bool \<Rightarrow> byte list + int" where
  "init_command args first allowed =
     (case args of
        arg # _ \<Rightarrow>
          (let c = (if arg = [] then 0 else sint (hd arg)) in
           if c > 57 \<or> c < 49 then Inl (bytes ''init: invalid state'' @ [10])
           else if \<not> allowed then Inl (bytes ''init: permission denied'' @ [10])
           else Inr (ST ! nat (c - 48)))
      | [] \<Rightarrow> if first then Inr 0 else Inl (bytes ''usage: init state'' @ [10]))"

end
