(* ===== verification/Init_Spec.thy ===== *)
theory Init_Spec
  imports Zeus_Init
begin

text \<open>
  The table file of init. The text of a list of entries is read as these entries, those of other states are
  skipped, and the table in memory becomes what \<open>enter\<close> says: a list of rows with the identification, the process
  and the command. \<open>invttys\<close> then starts the commands of the rows without a process.
\<close>

section \<open>The text of an entry\<close>

record entry =
  e_state :: byte
  e_id :: "byte \<times> byte"
  e_flags :: "byte list"
  e_cmd :: "byte list"

definition entry_text :: "entry \<Rightarrow> byte list" where
  "entry_text e = [e_state e, 58, fst (e_id e), snd (e_id e), 58] @ e_flags e @ [58] @ e_cmd e @ [10]"

definition entry_ok :: "entry \<Rightarrow> bool" where
  "entry_ok e \<longleftrightarrow> e_state e \<noteq> 10 \<and> fst (e_id e) \<notin> {10, 255} \<and> snd (e_id e) \<notin> {10, 255}
     \<and> length (e_flags e) \<le> 4 \<and> set (e_flags e) \<inter> {58, 255, 10, 0} = {} \<and> length (e_cmd e) \<le> 250 \<and> set (e_cmd e) \<inter> {255, 10, 0} = {}
     \<and> (99 \<in> set (e_flags e) \<and> e_cmd e \<noteq> [] \<longrightarrow> hd (e_cmd e) \<noteq> 58)"

lemma skip_line_text: "10 \<notin> set bs \<Longrightarrow> skip_line (bs @ 10 # r) = Some r"
  by (induction bs) auto

lemma fill_colon:
  assumes "length fl < room" "set fl \<inter> {58, 255, 10} = {}"
  shows "fill True room acc (fl @ 58 # r) = At_colon (acc @ fl) r"
  using assms
proof (induction fl arbitrary: room acc)
  case Nil
  then show ?case by (cases room) auto
next
  case (Cons f fl)
  then show ?case by (cases room) auto
qed

lemma fill_newline:
  assumes "length c < room" "set c \<inter> {255, 10} = {}"
  shows "fill False room acc (c @ 10 # r) = At_newline (acc @ c) r"
  using assms
proof (induction c arbitrary: room acc)
  case Nil
  then show ?case by (cases room) auto
next
  case (Cons f c)
  then show ?case by (cases room) auto
qed

lemma cstr_id: "0 \<notin> set bs \<Longrightarrow> cstr bs = bs"
  by (auto simp: cstr_def takeWhile_eq_all_conv)

lemma tab_line_entry:
  assumes "entry_ok e"
  shows "tab_line st (entry_text e @ r) = (if uint (e_state e) = st then Tab_entry (e_id e) (e_flags e) (e_cmd e) r else Tab_next r)"
proof (cases "uint (e_state e) = st")
  case True
  have "fill True 5 [] (e_flags e @ 58 # e_cmd e @ 10 # r) = At_colon (e_flags e) (e_cmd e @ 10 # r)"
    "fill False 256 [] (e_cmd e @ 10 # r) = At_newline (e_cmd e) r"
    using assms fill_colon [of "e_flags e" 5 "[]" "e_cmd e @ 10 # r"] fill_newline [of "e_cmd e" 256 "[]" r] by (auto simp: entry_ok_def)
  then show ?thesis using True assms
    by (cases "e_id e") (auto simp: tab_line_def tab_id_def tab_rest_def entry_text_def entry_ok_def cstr_id)
next
  case False
  have "skip_line (([58, fst (e_id e), snd (e_id e), 58] @ e_flags e @ [58] @ e_cmd e) @ 10 # r) = Some r"
    using assms by (intro skip_line_text) (auto simp: entry_ok_def)
  then show ?thesis using False assms by (auto simp: tab_line_def tab_skip_def entry_text_def entry_ok_def)
qed

text \<open>The entries one after the other.\<close>

fun apply_all :: "entry list \<Rightarrow> ini \<Rightarrow> ini option" where
  "apply_all [] s = Some s"
| "apply_all (e # es) s = Option.bind (tab_apply (e_id e) (e_flags e) (e_cmd e) s) (apply_all es)"

lemma store_cmd_istate: "store_cmd bs s = Some t \<Longrightarrow> istate t = istate s"
  by (auto simp: store_cmd_def split: if_splits)

lemma fit_istate: "fit bs s = Some (c, t) \<Longrightarrow> istate t = istate s"
  by (auto simp: fit_def do_Some imsg_def split: if_splits list.splits bool.splits dest!: store_cmd_istate)

lemma flag_kills_simps [simp]:
  "istate (flag_kills p fl s) = istate s" "itab (flag_kills p fl s) = itab s" "idlim (flag_kills p fl s) = idlim s" "cmds (flag_kills p fl s) = cmds s"
  "nextcmd (flag_kills p fl s) = nextcmd s" "csize (flag_kills p fl s) = csize s" "memory (flag_kills p fl s) = memory s"
  "forks (flag_kills p fl s) = forks s" "runs (flag_kills p fl s) = runs s"
  by (induction fl arbitrary: s) (simp_all add: ikill_def)

lemma tab_apply_istate: "tab_apply idc fl c s = Some t \<Longrightarrow> istate t = istate s"
  by (auto simp: tab_apply_def lookid_def do_Some set_cmd_def split: if_splits option.splits dest!: fit_istate)

lemma read_lines_entries:
  assumes "\<forall>e \<in> set es. entry_ok e"
  shows "read_lines (concat (map entry_text es)) s = apply_all (filter (\<lambda>e. uint (e_state e) = istate s) es) s"
  using assms
proof (induction es arbitrary: s)
  case Nil
  then show ?case by (simp add: read_lines.simps tab_line_def)
next
  case (Cons e es)
  have l: "tab_line (istate s) (concat (map entry_text (e # es)))
      = (if uint (e_state e) = istate s then Tab_entry (e_id e) (e_flags e) (e_cmd e) (concat (map entry_text es)) else Tab_next (concat (map entry_text es)))"
    using tab_line_entry [of e "istate s" "concat (map entry_text es)"] Cons.prems by simp
  show ?case
  proof (cases "uint (e_state e) = istate s")
    case True
    have "read_lines (concat (map entry_text es)) t = apply_all (filter (\<lambda>e. uint (e_state e) = istate s) es) t"
      if "tab_apply (e_id e) (e_flags e) (e_cmd e) s = Some t" for t
      using Cons.IH [of t] Cons.prems tab_apply_istate [OF that] by simp
    then show ?thesis using l True by (subst read_lines.simps) (auto intro: Option.bind_cong)
  next
    case False
    then show ?thesis using l Cons.IH [of s] Cons.prems by (subst read_lines.simps) simp
  qed
qed


section \<open>Commands in memory\<close>

definition has_cmd :: "ini \<Rightarrow> nat \<Rightarrow> byte list \<Rightarrow> bool" where
  "has_cmd s a bs \<longleftrightarrow> a + length bs < nextcmd s \<and> (\<forall>j < length bs. cmds s (a + j) = bs ! j) \<and> cmds s (a + length bs) = 0 \<and> 0 \<notin> set bs"

lemma cmd_at_has:
  assumes "has_cmd s a bs" "nextcmd s \<le> csize s"
  shows "cmd_at a s = bs"
proof -
  have l: "a + length bs < csize s" using assms by (simp add: has_cmd_def)
  have "[a..<csize s] = [a..<a + length bs] @ (a + length bs) # [Suc (a + length bs)..<csize s]"
    using l by (metis le_add1 less_or_eq_imp_le upt_add_eq_append upt_conv_Cons le_Suc_ex)
  moreover have "map (cmds s) [a..<a + length bs] = bs" using assms(1) by (intro nth_equalityI) (auto simp: has_cmd_def)
  ultimately have "map (cmds s) [a..<csize s] = bs @ 0 # map (cmds s) [Suc (a + length bs)..<csize s]" using assms(1) by (simp add: has_cmd_def)
  moreover have "takeWhile (\<lambda>b. b \<noteq> 0) (bs @ 0 # xs) = bs" for xs using assms(1) by (subst takeWhile_append2) (auto simp: has_cmd_def)
  ultimately show ?thesis by (simp add: cmd_at_def cstr_def)
qed

lemma has_cmd_drop: "has_cmd s a (x # y # bs) \<Longrightarrow> has_cmd s (a + 2) bs"
  by (auto simp: has_cmd_def nth_Cons' dest: spec [of _ "_ + 2"])

lemma store_cmd_has:
  assumes "nextcmd s + length bs + 1 \<le> csize s" "0 \<notin> set bs"
  obtains t where "store_cmd bs s = Some t" "has_cmd t (nextcmd s) bs" "\<And>a cs. has_cmd s a cs \<Longrightarrow> has_cmd t a cs" "nextcmd t \<le> csize t"
    "t = s\<lparr>cmds := cmds t, nextcmd := nextcmd t\<rparr>"
proof -
  let ?t = "s\<lparr>cmds := (\<lambda>i. if nextcmd s \<le> i \<and> i \<le> nextcmd s + length bs then (bs @ [0]) ! (i - nextcmd s) else cmds s i),
        nextcmd := nextcmd s + length bs + 1\<rparr>"
  have "store_cmd bs s = Some ?t" using assms(1) by (simp add: store_cmd_def)
  moreover have "has_cmd ?t (nextcmd s) bs" using assms(2) by (simp add: has_cmd_def nth_append)
  moreover have "has_cmd ?t a cs" if "has_cmd s a cs" for a cs using that by (auto simp: has_cmd_def)
  moreover have "nextcmd ?t \<le> csize ?t" using assms(1) by simp
  moreover have "?t = s\<lparr>cmds := cmds ?t, nextcmd := nextcmd ?t\<rparr>" by simp
  ultimately show thesis using that by blast
qed

definition same_tab :: "ini \<Rightarrow> ini \<Rightarrow> bool" where
  "same_tab s t \<longleftrightarrow> itab t = itab s \<and> idlim t = idlim s \<and> forks t = forks s \<and> runs t = runs s"

lemma fit_has:
  assumes "nextcmd s \<le> csize s" "0 \<notin> set bs" "length bs < ASIZE" "memory s \<noteq> []" "False \<notin> set (memory s)" "csize s + ASIZE < 65536"
  obtains t where "fit bs s = Some (int (nextcmd s), t)" "has_cmd t (nextcmd s) bs" "\<And>a cs. has_cmd s a cs \<Longrightarrow> has_cmd t a cs" "nextcmd t \<le> csize t"
    "same_tab s t" "memory t = memory s \<or> memory t = tl (memory s)" "csize t \<le> csize s + ASIZE"
proof (cases "length bs + 1 + nextcmd s > csize s")
  case False
  obtain t where t: "store_cmd bs s = Some t" "has_cmd t (nextcmd s) bs" "\<And>a cs. has_cmd s a cs \<Longrightarrow> has_cmd t a cs" "nextcmd t \<le> csize t"
    "t = s\<lparr>cmds := cmds t, nextcmd := nextcmd t\<rparr>"
    using store_cmd_has [of s bs] False assms(2) by auto
  have m: "memory t = memory s" "same_tab s t" "csize t \<le> csize s + ASIZE" by (subst t(5), simp add: same_tab_def)+
  moreover have "fit bs s = Some (int (nextcmd s), t)" using False t(1) by (simp add: fit_def)
  ultimately show thesis using that t(2-4) m by blast
next
  case True
  obtain ms where m: "memory s = True # ms" using assms(4,5) by (cases "memory s") auto
  let ?s = "s\<lparr>memory := ms, csize := csize s + ASIZE\<rparr>"
  obtain t where t: "store_cmd bs ?s = Some t" "has_cmd t (nextcmd ?s) bs" "\<And>a cs. has_cmd ?s a cs \<Longrightarrow> has_cmd t a cs" "nextcmd t \<le> csize t"
    "t = ?s\<lparr>cmds := cmds t, nextcmd := nextcmd t\<rparr>"
    using store_cmd_has [of ?s bs] assms(1-3) by auto
  have c: "same_tab s t" "memory t = ms" "csize t \<le> csize s + ASIZE" by (subst t(5), simp add: same_tab_def)+
  have "fit bs s = Some (int (nextcmd s), t)" using True t(1) m assms(6) by (simp add: fit_def)
  moreover have "has_cmd t a cs" if "has_cmd s a cs" for a cs using t(3) [of a cs] that by (simp add: has_cmd_def)
  ultimately show thesis using that t(2,4) c m by simp
qed


section \<open>The table as a list of rows\<close>

type_synonym row = "(byte \<times> byte) \<times> int \<times> byte list option"

definition cmd_of :: "ini \<Rightarrow> int \<Rightarrow> byte list option" where
  "cmd_of s c = (if c = NOCMD then None else Some (cmd_at (nat c) s))"

definition row_of :: "ini \<Rightarrow> nat \<Rightarrow> row" where
  "row_of s i = (in_id (itab s i), in_proc (itab s i), cmd_of s (in_cmd (itab s i)))"

definition table :: "ini \<Rightarrow> row list" where
  "table s = map (row_of s) [0..<idlim s]"

definition cmds_ok :: "ini \<Rightarrow> bool" where
  "cmds_ok s \<longleftrightarrow> nextcmd s \<le> csize s \<and> (\<forall>i < idlim s. in_cmd (itab s i) = NOCMD \<or> 0 \<le> in_cmd (itab s i) \<and> (\<exists>bs. has_cmd s (nat (in_cmd (itab s i))) bs))"

text \<open>Room for \<open>k\<close> more entries.\<close>

definition room_for :: "nat \<Rightarrow> ini \<Rightarrow> bool" where
  "room_for k s \<longleftrightarrow> cmds_ok s \<and> idlim s + k \<le> TABSIZ \<and> k \<le> length (memory s) \<and> False \<notin> set (memory s) \<and> csize s + ASIZE * k < 65536"

definition entry_cmd :: "entry \<Rightarrow> byte list option" where
  "entry_cmd e = (if 111 \<in> set (e_flags e) \<or> e_cmd e = [] then None
     else Some ((if 99 \<in> set (e_flags e) then [] else [58, 32]) @ e_cmd e))"

definition enter :: "entry \<Rightarrow> row list \<Rightarrow> row list" where
  "enter e rows =
     (case first_index (\<lambda>i. fst (rows ! i) = e_id e) (length rows) of
        Some i \<Rightarrow> rows[i := (e_id e, fst (snd (rows ! i)), case entry_cmd e of None \<Rightarrow> snd (snd (rows ! i)) | Some c \<Rightarrow> Some c)]
      | None \<Rightarrow> rows @ [(e_id e, 0, entry_cmd e)])"

lemma first_index_cong: "(\<And>i. i < n \<Longrightarrow> P i = Q i) \<Longrightarrow> first_index P n = first_index Q n"
  unfolding first_index_def by (rule find_cong) auto

lemma first_index_Some: "first_index P n = Some i \<Longrightarrow> i < n \<and> P i"
  by (auto simp: first_index_def find_Some_iff)

lemma length_table [simp]: "length (table s) = idlim s"
  by (simp add: table_def)

lemma nth_table: "i < idlim s \<Longrightarrow> table s ! i = row_of s i"
  by (simp add: table_def)

lemma lookid_index: "first_index (\<lambda>i. fst (table s ! i) = idc) (idlim s) = first_index (\<lambda>i. in_id (itab s i) = idc) (idlim s)"
  by (rule first_index_cong) (simp add: nth_table row_of_def)

lemma cmds_keep:
  assumes "cmds_ok s" "\<And>a cs. has_cmd s a cs \<Longrightarrow> has_cmd t a cs" "nextcmd t \<le> csize t" "same_tab s t"
  shows "cmds_ok t" "table t = table s"
proof -
  show "cmds_ok t" using assms unfolding cmds_ok_def same_tab_def by metis
  have "cmd_of t (in_cmd (itab s i)) = cmd_of s (in_cmd (itab s i))" if "i < idlim s" for i
    using assms that cmd_at_has [of s _ _] cmd_at_has [of t] unfolding cmds_ok_def cmd_of_def by metis
  then show "table t = table s" using assms(4) by (auto simp: table_def row_of_def same_tab_def)
qed

lemma has_cmd_simps [simp]: "has_cmd (set_cmd i c s) = has_cmd s" "has_cmd (set_proc i p s) = has_cmd s" "has_cmd (flag_kills p fl s) = has_cmd s"
  by (simp_all add: has_cmd_def set_cmd_def set_proc_def fun_eq_iff)

lemma set_simps [simp]:
  "nextcmd (set_cmd i c s) = nextcmd s" "csize (set_cmd i c s) = csize s" "idlim (set_cmd i c s) = idlim s" "memory (set_cmd i c s) = memory s"
  "forks (set_cmd i c s) = forks s" "runs (set_cmd i c s) = runs s" "itab (set_cmd i c s) j = (if j = i then (itab s i)\<lparr>in_cmd := c\<rparr> else itab s j)"
  "nextcmd (set_proc i p s) = nextcmd s" "csize (set_proc i p s) = csize s" "idlim (set_proc i p s) = idlim s" "memory (set_proc i p s) = memory s"
  "forks (set_proc i p s) = forks s" "runs (set_proc i p s) = runs s" "itab (set_proc i p s) j = (if j = i then (itab s i)\<lparr>in_proc := p\<rparr> else itab s j)"
  by (simp_all add: set_cmd_def set_proc_def)

lemma cmds_ok_set:
  "cmds_ok s \<Longrightarrow> cmds_ok (set_proc i p s)" "cmds_ok s \<Longrightarrow> cmds_ok (set_cmd i NOCMD s)" "cmds_ok (flag_kills p fl s) = cmds_ok s"
  "cmds_ok s \<Longrightarrow> has_cmd s a bs \<Longrightarrow> cmds_ok (set_cmd i (int a) s)"
  unfolding cmds_ok_def by auto

lemma table_set_cmd:
  assumes "i < idlim s"
  shows "table (set_cmd i c s) = (table s)[i := (fst (table s ! i), fst (snd (table s ! i)), cmd_of s c)]"
  using assms by (intro nth_equalityI) (auto simp: nth_table row_of_def set_cmd_def nth_list_update table_def cmd_of_def cmd_at_def)

lemma table_set_proc:
  assumes "i < idlim s"
  shows "table (set_proc i p s) = (table s)[i := (fst (table s ! i), p, snd (snd (table s ! i)))]"
  using assms by (intro nth_equalityI) (auto simp: nth_table row_of_def set_proc_def nth_list_update table_def cmd_of_def cmd_at_def)

lemma lookid_ok:
  assumes "cmds_ok s" "idlim s < TABSIZ"
  shows "\<exists>i t. lookid idc s = Some (i, t) \<and> cmds_ok t \<and> i < idlim t \<and> idlim t \<le> idlim s + 1 \<and> memory t = memory s \<and> forks t = forks s \<and> runs t = runs s
    \<and> csize t = csize s \<and> fst (table t ! i) = idc
    \<and> (case first_index (\<lambda>i. fst (table s ! i) = idc) (idlim s) of Some j \<Rightarrow> i = j \<and> t = s | None \<Rightarrow> i = idlim s \<and> table t = table s @ [(idc, 0, None)])"
proof (cases "first_index (\<lambda>i. in_id (itab s i) = idc) (idlim s)")
  case None
  let ?t = "s\<lparr>itab := (itab s)(idlim s := \<lparr>in_proc = NOPROC, in_id = idc, in_cmd = NOCMD\<rparr>), idlim := Suc (idlim s)\<rparr>"
  have r: "row_of ?t i = (if i = idlim s then (idc, 0, None) else row_of s i)" for i by (simp add: row_of_def cmd_of_def cmd_at_def)
  have t: "table ?t = table s @ [(idc, 0, None)]" by (simp add: table_def r)
  have "cmds_ok ?t" using assms(1) by (auto simp: cmds_ok_def has_cmd_def less_Suc_eq)
  then show ?thesis using None assms(2) t by (simp add: lookid_def lookid_index nth_append)
next
  case (Some i)
  then show ?thesis using assms first_index_Some [OF Some] by (simp add: lookid_def lookid_index nth_table row_of_def)
qed

lemma table_flag_kills: "table (flag_kills p fl s) = table s"
  by (simp add: table_def row_of_def cmd_of_def cmd_at_def)

lemma tab_apply_enter:
  assumes "entry_ok e" "room_for (Suc k) s"
  shows "\<exists>t. tab_apply (e_id e) (e_flags e) (e_cmd e) s = Some t \<and> table t = enter e (table s) \<and> room_for k t \<and> forks t = forks s \<and> runs t = runs s"
proof -
  have s: "cmds_ok s" "idlim s < TABSIZ" "idlim s + Suc k \<le> TABSIZ" "Suc k \<le> length (memory s)" "False \<notin> set (memory s)"
    "csize s + ASIZE * Suc k < 65536"
    using assms(2) unfolding room_for_def by auto
  obtain i t where t: "lookid (e_id e) s = Some (i, t)" "cmds_ok t" "i < idlim t" "idlim t \<le> idlim s + 1" "memory t = memory s" "forks t = forks s" "runs t = runs s"
    "fst (table t ! i) = e_id e"
    "case first_index (\<lambda>i. fst (table s ! i) = e_id e) (idlim s) of Some j \<Rightarrow> i = j \<and> t = s | None \<Rightarrow> i = idlim s \<and> table t = table s @ [(e_id e, 0, None)]"
    and ct: "csize t = csize s"
    using lookid_ok [OF s(1,2), of "e_id e"] by blast
  have same: "(table t)[i := (e_id e, fst (snd (table t ! i)), snd (snd (table t ! i)))] = table t"
    using t(3,8) by (metis list_update_id prod.collapse)
  have en: "enter e (table s) = (table t)[i := (e_id e, fst (snd (table t ! i)), case entry_cmd e of None \<Rightarrow> snd (snd (table t ! i)) | Some c \<Rightarrow> Some c)]"
    using t(9) by (auto simp: enter_def nth_append list_update_append split: option.splits)
  show ?thesis
  proof (cases "111 \<in> set (e_flags e) \<or> e_cmd e = []")
    case True
    then have "entry_cmd e = None" by (simp add: entry_cmd_def)
    then have "enter e (table s) = table t" using en same by simp
    moreover have "tab_apply (e_id e) (e_flags e) (e_cmd e) s = Some (flag_kills (in_proc (itab t i)) (e_flags e) t)" using True t(1) by (simp add: tab_apply_def)
    moreover have "room_for k (flag_kills (in_proc (itab t i)) (e_flags e) t)" unfolding room_for_def using t(2,4,5) s(3-6) ct by (auto simp: cmds_ok_set(3))
    ultimately show ?thesis using t(6,7) by (simp add: table_flag_kills)
  next
    case False
    let ?c = "(if 99 \<in> set (e_flags e) then [] else [58, 32]) @ e_cmd e"
    have c: "entry_cmd e = Some ?c" "0 \<notin> set ?c" "length ?c < ASIZE" using False assms(1) by (auto simp: entry_cmd_def entry_ok_def)
    have f: "nextcmd t \<le> csize t" "memory t \<noteq> []" "False \<notin> set (memory t)" using t(2,5) s(4,5) by (auto simp: cmds_ok_def)
    obtain u where u: "fit ?c t = Some (int (nextcmd t), u)" "has_cmd u (nextcmd t) ?c" "\<And>a cs. has_cmd t a cs \<Longrightarrow> has_cmd u a cs" "nextcmd u \<le> csize u"
      "same_tab t u" "memory u = memory t \<or> memory u = tl (memory t)" "csize u \<le> csize t + ASIZE"
      using fit_has [OF f(1) c(2,3) f(2,3)] s(6) ct by auto
    note k = cmds_keep [OF t(2) u(3,4,5)]
    let ?v = "set_cmd i (int (nextcmd t)) u"
    have iu: "i < idlim u" using t(3) u(5) by (simp add: same_tab_def)
    have "cmd_of u (int (nextcmd t)) = Some ?c" using cmd_at_has [OF u(2,4)] by (simp add: cmd_of_def)
    then have "table ?v = enter e (table s)" using table_set_cmd [OF iu] k(2) en c(1) t(8) by simp
    moreover have "cmds_ok ?v" by (rule cmds_ok_set(4) [OF k(1) u(2)])
    moreover have "csize u + ASIZE * k < 65536" using u(7) s(6) ct by simp
    moreover have "k \<le> length (memory u)" "False \<notin> set (memory u)" using u(6) t(5) s(4,5) by (auto simp: in_set_conv_nth nth_tl)
    moreover have "tab_apply (e_id e) (e_flags e) (e_cmd e) s = Some (flag_kills (in_proc (itab ?v i)) (e_flags e) ?v)"
      using False t(1) u(1) by (cases "99 \<in> set (e_flags e)") (simp_all add: tab_apply_def)
    moreover have "idlim u = idlim t" "forks u = forks t" "runs u = runs t" using u(5) by (simp_all add: same_tab_def)
    ultimately show ?thesis using t(4,6,7) s(3) by (auto simp: table_flag_kills room_for_def cmds_ok_set(3))
  qed
qed

lemma apply_all_enter:
  assumes "\<forall>e \<in> set es. entry_ok e" "room_for (length es) s"
  shows "\<exists>t. apply_all es s = Some t \<and> table t = fold enter es (table s) \<and> room_for 0 t \<and> forks t = forks s \<and> runs t = runs s"
  using assms
proof (induction es arbitrary: s)
  case (Cons e es)
  obtain t where t: "tab_apply (e_id e) (e_flags e) (e_cmd e) s = Some t" "table t = enter e (table s)" "room_for (length es) t" "forks t = forks s" "runs t = runs s"
    using tab_apply_enter [of e "length es" s] Cons.prems by auto
  then show ?case using Cons.IH [of t] Cons.prems(1) by simp
qed simp

text \<open>Reading the table.\<close>

definition forget :: "row \<Rightarrow> row" where
  "forget r = (fst r, fst (snd r), None)"

lemma readttys_table:
  assumes "tabs s = Some (concat (map entry_text es)) # ts" "\<forall>e \<in> set es. entry_ok e" "idlim s + length es \<le> TABSIZ" "length es \<le> length (memory s)"
    "False \<notin> set (memory s)" "csize s + ASIZE * length es < 65536"
  shows "\<exists>t. readttys s = Some t \<and> table t = fold enter (filter (\<lambda>e. uint (e_state e) = istate s) es) (map forget (table s)) \<and> cmds_ok t
    \<and> forks t = forks s \<and> runs t = runs s"
proof -
  let ?s = "(all_nocmd s)\<lparr>nextcmd := 0, tabs := ts, rdstate := False\<rparr>"
  let ?es = "filter (\<lambda>e. uint (e_state e) = istate s) es"
  have "open_tab ((all_nocmd s)\<lparr>nextcmd := 0\<rparr>) = Some (concat (map entry_text es), (all_nocmd s)\<lparr>nextcmd := 0, tabs := ts\<rparr>)"
    using assms(1) by (subst open_tab.simps) (simp add: all_nocmd_def)
  then have r: "readttys s = apply_all ?es ?s" using read_lines_entries [OF assms(2), of ?s] by (simp add: readttys_def all_nocmd_def)
  have "length ?es \<le> length es" by simp
  then have "idlim s + length ?es \<le> TABSIZ" "length ?es \<le> length (memory s)" using assms(3,4) by linarith+
  moreover have "csize s + ASIZE * length ?es < 65536" using assms(6) \<open>length ?es \<le> length es\<close> by linarith
  ultimately have "room_for (length ?es) ?s" using assms(5) by (auto simp: room_for_def cmds_ok_def all_nocmd_def)
  moreover have "table ?s = map forget (table s)" by (simp add: table_def all_nocmd_def row_of_def cmd_of_def forget_def)
  ultimately show ?thesis using apply_all_enter [of ?es ?s] assms(2) r by (auto simp: room_for_def all_nocmd_def)
qed


section \<open>Starting processes\<close>

text \<open>
  The rows after \<open>invttys\<close>, and the processes with their command lines, when \<open>fork\<close> gives the numbers \<open>ps\<close>. A
  command with a colon in front is started once.
\<close>

fun launch :: "int list \<Rightarrow> row list \<Rightarrow> row list \<times> (int \<times> byte list) list" where
  "launch ps [] = ([], [])"
| "launch ps ((i, p, c) # rs) =
     (case c of
        Some k \<Rightarrow>
          if p = NOPROC then
            (let (rs', out) = launch (tl ps) rs
             in ((i, hd ps, if hd k = 58 then None else c) # rs', (hd ps, bytes ''exec '' @ (if hd k = 58 then drop 2 k else k)) # out))
          else (let (rs', out) = launch ps rs in ((i, p, c) # rs', out))
      | None \<Rightarrow> (let (rs', out) = launch ps rs in ((i, p, c) # rs', out)))"

definition idle_rows :: "row list \<Rightarrow> nat" where
  "idle_rows rs = length (filter (\<lambda>(i, p, c). p = NOPROC \<and> c \<noteq> None) rs)"

definition cmd_fit :: "byte list option \<Rightarrow> bool" where
  "cmd_fit x \<longleftrightarrow> (\<forall>k. x = Some k \<longrightarrow> (\<exists>c. c \<noteq> [] \<and> length c \<le> 250 \<and> (k = [58, 32] @ c \<or> k = c \<and> hd c \<noteq> 58)))"

abbreviation row_ok :: "row \<Rightarrow> bool" where
  "row_ok r \<equiv> cmd_fit (snd (snd r))"

lemma iexec_ok:
  assumes "length c \<le> 250" "forks s = p # ps" "p \<noteq> FORKERR"
  shows "iexec c s = Some (p, s\<lparr>forks := ps, runs := runs s @ [(p, bytes ''exec '' @ c)]\<rparr>)"
  using assms by (simp add: iexec_def ifork_def)

lemma iexec_table:
  "table (s\<lparr>forks := ps, runs := rs\<rparr>) = table s" "cmds_ok (s\<lparr>forks := ps, runs := rs\<rparr>) = cmds_ok s"
  by (simp_all add: table_def row_of_def cmd_of_def cmd_at_def cmds_ok_def has_cmd_def)

lemma start_entry_idle:
  assumes "j < idlim s" "table s ! j = (i, p, c)" "p \<noteq> NOPROC \<or> c = None"
  shows "start_entry j s = Some s"
  using assms by (auto simp: start_entry_def nth_table row_of_def cmd_of_def split: if_splits)

lemma start_entry_go:
  assumes "cmds_ok s" "j < idlim s" "table s ! j = (i, NOPROC, Some k)" "row_ok (table s ! j)" "forks s = p # ps" "p \<noteq> FORKERR"
  shows "\<exists>t. start_entry j s = Some t \<and> cmds_ok t \<and> idlim t = idlim s \<and> forks t = ps
    \<and> table t = (table s)[j := (i, p, if hd k = 58 then None else Some k)]
    \<and> runs t = runs s @ [(p, bytes ''exec '' @ (if hd k = 58 then drop 2 k else k))]"
proof -
  let ?a = "nat (in_cmd (itab s j))"
  have r: "in_proc (itab s j) = NOPROC" "in_cmd (itab s j) \<noteq> NOCMD" "cmd_at ?a s = k" "fst (table s ! j) = i"
    using assms(2,3) by (auto simp: nth_table row_of_def cmd_of_def split: if_splits)
  obtain bs where bs: "has_cmd s ?a bs" using assms(1,2) r(2) by (auto simp: cmds_ok_def)
  have n: "nextcmd s \<le> csize s" using assms(1) by (simp add: cmds_ok_def)
  have h: "has_cmd s ?a k" using bs cmd_at_has [OF bs n] r(3) by simp
  obtain c where c: "c \<noteq> []" "length c \<le> 250" "k = [58, 32] @ c \<or> k = c \<and> hd c \<noteq> 58" using assms(3,4) by (auto simp: cmd_fit_def)
  have k: "cmds s ?a = hd k" using h c by (cases k) (auto simp: has_cmd_def dest: spec [of _ 0])
  let ?d = "if hd k = 58 then drop 2 k else k"
  let ?t = "s\<lparr>forks := ps, runs := runs s @ [(p, bytes ''exec '' @ ?d)]\<rparr>"
  have x: "iexec ?d s = Some (p, ?t)" using c assms(5,6) by (intro iexec_ok) auto
  have d: "cmd_at (?a + 2) s = drop 2 k" if "hd k = 58"
    using c that h has_cmd_drop [of s ?a 58 32 c] cmd_at_has [OF _ n, of "?a + 2" c] by auto
  have tab: "table ?t = table s" and ok: "cmds_ok ?t = cmds_ok s" by (rule iexec_table)+
  show ?thesis
  proof (cases "hd k = 58")
    case True
    then have "start_entry j s = Some (set_cmd j NOCMD (set_proc j p ?t))" using r k d x by (simp add: start_entry_def)
    moreover have "table (set_cmd j NOCMD (set_proc j p ?t)) = (table s)[j := (i, p, None)]"
      using assms(2) tab r(4) by (simp add: table_set_cmd table_set_proc cmd_of_def)
    moreover have "cmds_ok (set_cmd j NOCMD (set_proc j p ?t))" using assms(1) ok by (intro cmds_ok_set) simp
    ultimately show ?thesis using True by simp
  next
    case False
    then have "start_entry j s = Some (set_proc j p ?t)" using r k x by (simp add: start_entry_def)
    moreover have "table (set_proc j p ?t) = (table s)[j := (i, p, Some k)]"
      using assms(2,3) tab by (simp add: table_set_proc)
    moreover have "cmds_ok (set_proc j p ?t)" using assms(1) ok by (intro cmds_ok_set) simp
    ultimately show ?thesis using False by simp
  qed
qed

lemma start_entries_launch:
  assumes "cmds_ok s" "table s = dn @ todo" "\<forall>r \<in> set todo. row_ok r" "idle_rows todo \<le> length (forks s)" "FORKERR \<notin> set (forks s)"
  shows "\<exists>t. start_entries [length dn..<idlim s] s = Some t \<and> table t = dn @ fst (launch (forks s) todo) \<and> runs t = runs s @ snd (launch (forks s) todo)"
  using assms
proof (induction todo arbitrary: dn s)
  case Nil
  then have "idlim s = length dn" using length_table [of s] by simp
  then show ?case using Nil by simp
next
  case (Cons r todo)
  obtain i p c where r: "r = (i, p, c)" by (cases r) auto
  have l: "idlim s = length dn + Suc (length todo)" using Cons.prems(2) length_table [of s] by simp
  have j: "length dn < idlim s" "table s ! length dn = r" using l Cons.prems(2) by (simp_all add: nth_append)
  have u: "[length dn..<idlim s] = length dn # [length (dn @ [x])..<idlim s]" for x :: row using j(1) by (simp add: upt_conv_Cons)
  show ?case
  proof (cases "p = NOPROC \<and> c \<noteq> None")
    case False
    have "start_entry (length dn) s = Some s" by (rule start_entry_idle [OF j(1)]) (use j(2) r False in auto)
    moreover have "idle_rows todo \<le> length (forks s)" using Cons.prems(4) r False by (auto simp: idle_rows_def split: if_splits)
    then obtain t where "start_entries [length (dn @ [r])..<idlim s] s = Some t" "table t = (dn @ [r]) @ fst (launch (forks s) todo)"
      "runs t = runs s @ snd (launch (forks s) todo)"
      using Cons.IH [of s "dn @ [r]"] Cons.prems by auto
    ultimately show ?thesis using u [of r] r False by (auto simp: Let_def case_prod_unfold split: option.splits)
  next
    case True
    then obtain k where k: "c = Some k" by auto
    obtain q ps where q: "forks s = q # ps" "idle_rows todo \<le> length ps" using Cons.prems(4) r True by (cases "forks s") (auto simp: idle_rows_def)
    let ?r = "(i, q, if hd k = 58 then None else Some k)"
    obtain t where t: "start_entry (length dn) s = Some t" "cmds_ok t" "idlim t = idlim s" "forks t = ps" "table t = (table s)[length dn := ?r]"
      "runs t = runs s @ [(q, bytes ''exec '' @ (if hd k = 58 then drop 2 k else k))]"
      using start_entry_go [OF Cons.prems(1) j(1), of i k q ps] j(2) r True k q Cons.prems(3,5) by auto
    have tt: "table t = (dn @ [?r]) @ todo" using t(5) Cons.prems(2) by (simp add: list_update_append)
    obtain v where v: "start_entries [length (dn @ [?r])..<idlim t] t = Some v" "table v = (dn @ [?r]) @ fst (launch (forks t) todo)"
      "runs v = runs t @ snd (launch (forks t) todo)"
      using Cons.IH [OF t(2) tt] Cons.prems(3,5) t(4) q by auto
    show ?thesis using u [of ?r] t v r True k q(1) by (auto simp: Let_def case_prod_unfold)
  qed
qed

lemma invttys_launch:
  assumes "cmds_ok s" "\<forall>r \<in> set (table s). row_ok r" "idle_rows (table s) \<le> length (forks s)" "FORKERR \<notin> set (forks s)"
  shows "\<exists>t. invttys s = Some t \<and> table t = fst (launch (forks s) (table s)) \<and> runs t = runs s @ snd (launch (forks s) (table s))"
  using start_entries_launch [of s "[]" "table s"] assms by (simp add: invttys_def)

lemma enter_row_ok:
  assumes "entry_ok e" "\<forall>r \<in> set rows. row_ok r"
  shows "\<forall>r \<in> set (enter e rows). row_ok r"
proof -
  have e: "cmd_fit (entry_cmd e)"
    using assms(1) by (auto simp: cmd_fit_def entry_cmd_def entry_ok_def split: if_splits intro!: exI [of _ "e_cmd e"])
  show ?thesis
  proof (cases "first_index (\<lambda>i. fst (rows ! i) = e_id e) (length rows)")
    case None
    then show ?thesis using e assms(2) by (auto simp: enter_def)
  next
    case (Some i)
    then have "row_ok (rows ! i)" using first_index_Some [OF Some] assms(2) by simp
    then have "cmd_fit (case entry_cmd e of None \<Rightarrow> snd (snd (rows ! i)) | Some c \<Rightarrow> Some c)" using e by (auto split: option.split)
    then show ?thesis using Some assms(2) by (auto simp: enter_def dest!: set_update_subset_insert [THEN subsetD])
  qed
qed

lemma fold_enter_ok: "\<forall>e \<in> set es. entry_ok e \<Longrightarrow> \<forall>r \<in> set rows. row_ok r \<Longrightarrow> \<forall>r \<in> set (fold enter es rows). row_ok r"
proof (induction es arbitrary: rows)
  case (Cons e es)
  then show ?case using enter_row_ok [of e rows] by simp
qed simp

lemma forget_ok: "\<forall>r \<in> set (map forget rows). row_ok r"
  by (auto simp: forget_def cmd_fit_def)

end
