(* ===== verification/Sys3_Init.thy ===== *)
theory Sys3_Init
  imports Zeus_Init
begin

text \<open>
  \<open>re/init/system-iii-init.c\<close>: the init of System III, from which the one of ZEUS was made. \<open>fit\<close>, \<open>invttys\<close>, \<open>iexec\<close>,
  \<open>lookproc\<close>, \<open>lookid\<close>, the reading of lines, \<open>itoa\<close>, \<open>rckill\<close> and the signal tables are the same in both files, and
  their definitions are used here. What differs is \<open>chst\<close>: on \<open>STx\<close> and on a power failure it runs \<open>/etc/rc\<close> itself,
  inside the signal handler, and so everything that waits may start another run of it. The theory has these
  functions, from \<open>chst\<close> and \<open>waitttys\<close> to \<open>main\<close>.
\<close>

section \<open>Signals and waiting\<close>

abbreviation "SIGPWR \<equiv> 19 :: int"

text \<open>What \<open>wait\<close> meets next: ignored signals are passed over.\<close>

fun s3_next :: "(int \<Rightarrow> sigact) \<Rightarrow> happening list \<Rightarrow> (happening \<times> happening list) option" where
  "s3_next a [] = None"
| "s3_next a (h # hs) = (case h of Signal n \<Rightarrow> if a n = Ignore then s3_next a hs else Some (h, hs) | _ \<Rightarrow> Some (h, hs))"

text \<open>\<open>chst\<close> up to its \<open>runrc\<close>, for \<open>STx\<close> and \<open>SIGPWR\<close>, and for the other signals.\<close>

definition s3_chst_power :: "ini \<Rightarrow> ini" where
  "s3_chst_power s = (let s = ignsigs s in s\<lparr>acts := (acts s)(STx := Chst, SIGPWR := Chst), xstate := True\<rparr>)"

definition s3_chst_state :: "int \<Rightarrow> ini \<Rightarrow> ini option" where
  "s3_chst_state sno s =
     (let s = ignsigs s; s = s\<lparr>lstate := istate s\<rparr> in
      case first_index (\<lambda>i. i \<ge> 1 \<and> ST ! i = sno) 10 of
        None \<Rightarrow> None
      | Some i \<Rightarrow> Some (s\<lparr>istate := int i + 48, rdstate := True\<rparr>))"

text \<open>\<open>runrc\<close> before and after its loop.\<close>

definition s3_rc_start :: "ini \<Rightarrow> ini option" where
  "s3_rc_start s = do {
     rc \<leftarrow> rcstring s;
     s \<leftarrow> rc_fork s;
     let s = setsigs (s\<lparr>runs := runs s @ [(rcid s, rc)]\<rparr>);
     Some (if \<not> xstate s then s\<lparr>acts := (acts s)(SIGALRM := Rckill)\<rparr> else s) }"

definition s3_rc_end :: "ini \<Rightarrow> ini" where
  "s3_rc_end s = (if \<not> xstate s then s\<lparr>acts := (acts s)(SIGALRM := Ignore)\<rparr> else s)"

text \<open>\<open>waitttys\<close>, \<open>runrc\<close> with its loop, and the loop of \<open>err\<close>, which call each other: \<open>chst\<close> calls \<open>runrc\<close>, and \<open>runrc\<close> waits.\<close>

datatype s3_call = Waitttys | Err_loop int | Runrc | Rc_loop

partial_function (option) s3_run :: "s3_call \<Rightarrow> ini \<Rightarrow> (int \<times> ini) option" where
  "s3_run c s =
     (case c of
        Waitttys \<Rightarrow> Option.bind (s3_next (acts s) (waits s)) (\<lambda>(h, hs).
          Option.bind
            (case h of
               Exits p \<Rightarrow> Some (p, s\<lparr>waits := hs\<rparr>)
             | No_child \<Rightarrow> Some (- 1, s\<lparr>waits := hs\<rparr>)
             | Signal n \<Rightarrow>
                 (case acts s n of
                    Chst \<Rightarrow>
                      if n = STx \<or> n = SIGPWR
                      then Option.bind (s3_run Runrc (s3_chst_power (s\<lparr>waits := hs, acts := (acts s)(n := Default)\<rparr>))) (\<lambda>(p, s). Some (- 1, s))
                      else Option.bind (s3_chst_state n (s\<lparr>waits := hs, acts := (acts s)(n := Default)\<rparr>)) (\<lambda>s. Some (- 1, s))
                  | Rckill \<Rightarrow> Some (- 1, rckill (s\<lparr>waits := hs, acts := (acts s)(n := Default)\<rparr>))
                  | _ \<Rightarrow> None))
            (\<lambda>(p, s).
               if p = - 1 \<and> \<not> rdstate s \<and> \<not> xstate s then
                 Option.bind (err_shell (bytes ''no processes running'') s) (\<lambda>(i, s).
                   Option.bind (s3_run (Err_loop i) s) (\<lambda>(p, s). s3_run Waitttys (err_end s)))
               else Some (p, reap p s)))
      | Err_loop i \<Rightarrow> Option.bind (s3_run Waitttys s) (\<lambda>(p, s). if p \<noteq> i \<and> \<not> rdstate s then s3_run (Err_loop i) s else Some (p, s))
      | Runrc \<Rightarrow> Option.bind (s3_rc_start s) (\<lambda>s. Option.bind (s3_run Rc_loop s) (\<lambda>(p, s). Some (p, s3_rc_end s)))
      | Rc_loop \<Rightarrow> Option.bind (s3_run Waitttys s) (\<lambda>(p, s). if p \<noteq> rcid s \<and> \<not> rdstate s then s3_run Rc_loop s else Some (p, s)))"

definition s3_runrc :: "ini \<Rightarrow> ini option" where
  "s3_runrc s = do { (p, s) \<leftarrow> s3_run Runrc s; Some s }"

definition s3_err2 :: "byte list \<Rightarrow> ini \<Rightarrow> ini option" where
  "s3_err2 msg s = do {
     (i, s) \<leftarrow> err_shell msg s;
     (p, s) \<leftarrow> s3_run (Err_loop i) s;
     Some (err_end s) }"


section \<open>\<open>main\<close>\<close>

partial_function (option) s3_open_tab :: "ini \<Rightarrow> (byte list \<times> ini) option" where
  "s3_open_tab s =
     (case tabs s of
        [] \<Rightarrow> None
      | Some bs # ts \<Rightarrow> Some (bs, s\<lparr>tabs := ts\<rparr>)
      | None # ts \<Rightarrow> Option.bind (s3_err2 (bytes ''inittab open failed'') (s\<lparr>tabs := ts\<rparr>)) s3_open_tab)"

definition s3_readttys :: "ini \<Rightarrow> ini option" where
  "s3_readttys s = do {
     (bs, s) \<leftarrow> s3_open_tab ((all_nocmd s)\<lparr>nextcmd := 0\<rparr>);
     read_lines bs (s\<lparr>rdstate := False\<rparr>) }"

partial_function (option) s3_enter_state :: "ini \<Rightarrow> ini option" where
  "s3_enter_state s =
     (if \<not> rdstate s then Some s
      else Option.bind (s3_readttys (s\<lparr>rdstate := False\<rparr>)) (\<lambda>s.
        Option.bind (s3_runrc (s\<lparr>statecnt := (statecnt s)[nat (istate s - 48) := statecnt s ! nat (istate s - 48) + 1]\<rparr>)) (\<lambda>s.
          s3_enter_state (s\<lparr>xstate := False\<rparr>))))"

definition s3_turn :: "ini \<Rightarrow> ini option" where
  "s3_turn s = do {
     s \<leftarrow> s3_enter_state (s\<lparr>xstate := False\<rparr>);
     s \<leftarrow> invttys s;
     (p, s) \<leftarrow> s3_run Waitttys s;
     Some s }"

partial_function (option) s3_get_memory :: "ini \<Rightarrow> ini option" where
  "s3_get_memory s =
     (case memory s of
        [] \<Rightarrow> None
      | m # ms \<Rightarrow>
          if m then Some (s\<lparr>memory := ms\<rparr>)
          else Option.bind (s3_err2 (bytes ''no memory, malloc failed'') (s\<lparr>memory := ms\<rparr>)) s3_get_memory)"

definition s3_boot :: "ini \<Rightarrow> ini option" where
  "s3_boot s = s3_get_memory (ignsigs (s\<lparr>acts := (acts s)(STx := Chst, SIGPWR := Chst)\<rparr>))"


section \<open>Agreement with the init of ZEUS\<close>

text \<open>As long as none of the signals comes that the two treat differently, they wait alike.\<close>

definition same_signals :: "happening list \<Rightarrow> bool" where
  "same_signals hs \<longleftrightarrow> (\<forall>n. Signal n \<in> set hs \<longrightarrow> n \<notin> {STx, SIGINT, SIGPWR})"

lemma s3_next_set: "s3_next a hs = Some (h, r) \<Longrightarrow> h \<in> set hs \<and> set r \<subseteq> set hs"
  by (induction hs) (auto split: happening.splits if_splits)

lemma iwait_next:
  "iwait hs s = Option.bind (s3_next (acts s) hs) (\<lambda>(h, r).
     case h of
       Exits p \<Rightarrow> Some (p, s\<lparr>waits := r\<rparr>)
     | No_child \<Rightarrow> Some (- 1, s\<lparr>waits := r\<rparr>)
     | Signal n \<Rightarrow>
         (case acts s n of
            Chst \<Rightarrow> Option.bind (chst n (s\<lparr>waits := r, acts := (acts s)(n := Default)\<rparr>)) (\<lambda>s. Some (- 1, s))
          | Rckill \<Rightarrow> Some (- 1, rckill (s\<lparr>waits := r, acts := (acts s)(n := Default)\<rparr>))
          | _ \<Rightarrow> None))"
  by (induction hs) (auto split: happening.splits sigact.splits)

lemma chst_same: "sno \<notin> {STx, SIGINT} \<Longrightarrow> chst sno s = s3_chst_state sno s"
  by (cases s) (auto simp: chst_def s3_chst_state_def ignsigs_def set_all_def Let_def split: option.split)

lemma waits_kept [simp]:
  "waits (imsg a b s) = waits s" "waits (ikill p n s) = waits s" "waits (rckill s) = waits s" "waits (ignsigs s) = waits s" "waits (setsigs s) = waits s"
  "waits (reap p s) = waits s" "waits (err_end s) = waits s" "waits (s3_rc_end s) = waits s" "waits (s3_chst_power s) = waits s"
  by (auto simp: imsg_def ikill_def rckill_def ignsigs_def setsigs_def set_all_def reap_def set_proc_def err_end_def s3_rc_end_def
      s3_chst_power_def Let_def split: option.split)

lemma waits_steps:
  "s3_chst_state n s = Some t \<Longrightarrow> waits t = waits s" "err_shell m s = Some (i, t) \<Longrightarrow> waits t = waits s"
  by (auto simp: s3_chst_state_def err_shell_def iexec_def ifork_def Let_def bind_eq_Some_conv split: option.splits list.splits if_splits)

lemma chst_waits: "chst n s = Some t \<Longrightarrow> waits t = waits s"
  by (auto simp: chst_def Let_def split: if_splits option.splits)

lemma iwait_waits: "iwait hs s = Some (p, t) \<Longrightarrow> set (waits t) \<subseteq> set hs"
proof (induction hs)
  case (Cons h hs)
  then show ?case by (cases h) (auto split: sigact.splits dest!: chst_waits simp: bind_eq_Some_conv)
qed simp

lemma s3_wait_same:
  assumes "same_signals (waits s)"
  shows "Option.bind (s3_next (acts s) (waits s)) (\<lambda>(h, hs).
          Option.bind
            (case h of
               Exits p \<Rightarrow> Some (p, s\<lparr>waits := hs\<rparr>)
             | No_child \<Rightarrow> Some (- 1, s\<lparr>waits := hs\<rparr>)
             | Signal n \<Rightarrow>
                 (case acts s n of
                    Chst \<Rightarrow>
                      if n = STx \<or> n = SIGPWR then R n hs
                      else Option.bind (s3_chst_state n (s\<lparr>waits := hs, acts := (acts s)(n := Default)\<rparr>)) (\<lambda>s. Some (- 1, s))
                  | Rckill \<Rightarrow> Some (- 1, rckill (s\<lparr>waits := hs, acts := (acts s)(n := Default)\<rparr>))
                  | _ \<Rightarrow> None)) k) = Option.bind (iwait (waits s) s) k"
proof (cases "s3_next (acts s) (waits s)")
  case (Some x)
  obtain h hs where x: "x = (h, hs)" by (cases x)
  have "h \<in> set (waits s)" using s3_next_set [of "acts s" "waits s" h hs] Some x by simp
  then have "n \<notin> {STx, SIGINT, SIGPWR}" if "h = Signal n" for n using assms that by (auto simp: same_signals_def)
  then show ?thesis using Some x chst_same unfolding iwait_next by (auto split: happening.split sigact.split)
qed (simp add: iwait_next)

definition s3_call_of :: "int option \<Rightarrow> s3_call" where
  "s3_call_of m = (case m of None \<Rightarrow> Waitttys | Some i \<Rightarrow> Err_loop i)"

lemma s3_call_simps: "s3_call_of None = Waitttys" "s3_call_of (Some i) = Err_loop i"
  by (simp_all add: s3_call_of_def)

lemma same_signals_sub: "same_signals hs \<Longrightarrow> set ks \<subseteq> set hs \<Longrightarrow> same_signals ks"
  by (auto simp: same_signals_def)

lemma wait_step:
  assumes "same_signals (waits s)"
    and A: "\<And>m s p t. F m s = Some (p, t) \<Longrightarrow> same_signals (waits s) \<Longrightarrow> G m s = Some (p, t) \<and> set (waits t) \<subseteq> set (waits s)"
    and r: "Option.bind (iwait (waits s) s) (\<lambda>(p, s).
          if p = - 1 \<and> \<not> rdstate s \<and> \<not> xstate s then
            Option.bind (err_shell (bytes ''no processes running'') s) (\<lambda>(i, s).
              Option.bind (F (Some i) s) (\<lambda>(p, s). F None (err_end s)))
          else Some (p, reap p s)) = Some (p, t)"
  shows "Option.bind (iwait (waits s) s) (\<lambda>(p, s).
          if p = - 1 \<and> \<not> rdstate s \<and> \<not> xstate s then
            Option.bind (err_shell (bytes ''no processes running'') s) (\<lambda>(i, s).
              Option.bind (G (Some i) s) (\<lambda>(p, s). G None (err_end s)))
          else Some (p, reap p s)) = Some (p, t) \<and> set (waits t) \<subseteq> set (waits s)"
proof -
  obtain p1 s1 where 1: "iwait (waits s) s = Some (p1, s1)" using r by (auto simp: bind_eq_Some_conv)
  note w1 = iwait_waits [OF 1]
  show ?thesis
  proof (cases "p1 = - 1 \<and> \<not> rdstate s1 \<and> \<not> xstate s1")
    case True
    obtain i s2 p3 s3 where 2: "err_shell (bytes ''no processes running'') s1 = Some (i, s2)" "F (Some i) s2 = Some (p3, s3)" "F None (err_end s3) = Some (p, t)"
      using r 1 True by (auto simp: bind_eq_Some_conv)
    have w2: "same_signals (waits s2)" "set (waits s2) \<subseteq> set (waits s)"
      using waits_steps(2) [OF 2(1)] w1 same_signals_sub [OF assms(1)] by auto
    have 3: "G (Some i) s2 = Some (p3, s3)" "set (waits s3) \<subseteq> set (waits s2)" using A [OF 2(2) w2(1)] by simp_all
    have "same_signals (waits (err_end s3))" using same_signals_sub [OF w2(1) 3(2)] by simp
    then have "G None (err_end s3) = Some (p, t)" "set (waits t) \<subseteq> set (waits s3)" using A [OF 2(3)] by simp_all
    then show ?thesis using 1 True 2(1) 3 w2(2) by auto
  next
    case False
    then have "(p, t) = (p1, reap p1 s1)" using r 1 by (auto split: if_splits)
    then show ?thesis using False 1 w1 by (auto split: if_splits)
  qed
qed

lemma loop_step:
  assumes "same_signals (waits s)"
    and A: "\<And>m s p t. F m s = Some (p, t) \<Longrightarrow> same_signals (waits s) \<Longrightarrow> G m s = Some (p, t) \<and> set (waits t) \<subseteq> set (waits s)"
    and r: "Option.bind (F None s) (\<lambda>(p, s). if p \<noteq> i \<and> \<not> rdstate s then F (Some i) s else Some (p, s)) = Some (p, t)"
  shows "Option.bind (G None s) (\<lambda>(p, s). if p \<noteq> i \<and> \<not> rdstate s then G (Some i) s else Some (p, s)) = Some (p, t)
    \<and> set (waits t) \<subseteq> set (waits s)"
proof -
  obtain p1 s1 where 1: "F None s = Some (p1, s1)" using r by (auto simp: bind_eq_Some_conv)
  have 2: "G None s = Some (p1, s1)" "set (waits s1) \<subseteq> set (waits s)" using A [OF 1 assms(1)] by simp_all
  then show ?thesis using r 1 A [of "Some i" s1 p t] same_signals_sub [OF assms(1) 2(2)] by (auto split: if_splits)
qed

lemma s3_unfold:
  assumes "same_signals (waits s)"
  shows "s3_run Waitttys s = Option.bind (iwait (waits s) s) (\<lambda>(p, s).
          if p = - 1 \<and> \<not> rdstate s \<and> \<not> xstate s then
            Option.bind (err_shell (bytes ''no processes running'') s) (\<lambda>(i, s).
              Option.bind (s3_run (Err_loop i) s) (\<lambda>(p, s). s3_run Waitttys (err_end s)))
          else Some (p, reap p s))"
  by (subst s3_run.simps) (simp only: s3_call.case s3_wait_same [OF assms])

lemma wait_for_s3:
  "wait_for m s = Some r \<Longrightarrow> same_signals (waits s) \<longrightarrow> s3_run (s3_call_of m) s = Some r \<and> set (waits (snd r)) \<subseteq> set (waits s)"
proof (induction rule: wait_for.raw_induct [rotated, consumes 1])
  case (1 F m s r)
  obtain p t where r: "r = (p, t)" by (cases r)
  have A: "s3_run (s3_call_of m) s = Some (p, t) \<and> set (waits t) \<subseteq> set (waits s)" if "F m s = Some (p, t)" "same_signals (waits s)" for m s p t
    using 1(1) [OF that(1)] that(2) by simp
  show ?case
  proof
    assume ss: "same_signals (waits s)"
    note W = wait_step [where F = F and G = "\<lambda>m. s3_run (s3_call_of m)", OF ss A] and L = loop_step [where F = F and G = "\<lambda>m. s3_run (s3_call_of m)", OF ss A]
    show "s3_run (s3_call_of m) s = Some r \<and> set (waits (snd r)) \<subseteq> set (waits s)"
    proof (cases m)
      case None
      then show ?thesis using W [of p t, unfolded s3_call_simps] 1(2) r s3_unfold [OF ss] by (simp add: s3_call_simps)
    next
      case (Some i)
      then show ?thesis using L [of i p t, unfolded s3_call_simps] 1(2) [unfolded Some] r Some by (simp add: s3_call_simps s3_run.simps [of "Err_loop i"])
    qed
  qed
qed

lemma rc_wait_s3:
  "rc_wait s = Some t \<Longrightarrow> same_signals (waits s) \<longrightarrow> (\<exists>p. s3_run Rc_loop s = Some (p, t)) \<and> set (waits t) \<subseteq> set (waits s)"
proof (induction rule: rc_wait.raw_induct [rotated, consumes 1])
  case (1 F s t)
  obtain p s1 where w: "wait_for None s = Some (p, s1)" using 1(2) by (auto simp: bind_eq_Some_conv)
  show ?case
  proof
    assume ss: "same_signals (waits s)"
    have s1: "s3_run Waitttys s = Some (p, s1)" "set (waits s1) \<subseteq> set (waits s)" using wait_for_s3 [OF w] ss by (simp_all add: s3_call_simps)
    note ss1 = same_signals_sub [OF ss s1(2)]
    show "(\<exists>p. s3_run Rc_loop s = Some (p, t)) \<and> set (waits t) \<subseteq> set (waits s)"
    proof (cases "p \<noteq> rcid s1 \<and> \<not> rdstate s1")
      case True
      then have "F s1 = Some t" using 1(2) w by simp
      then show ?thesis using 1(1) [of s1 t] ss1 s1 True by (auto simp: s3_run.simps [of Rc_loop])
    next
      case False
      then have "t = s1" using 1(2) w by (auto split: if_splits)
      then show ?thesis using False s1 by (auto simp: s3_run.simps [of Rc_loop])
    qed
  qed
qed

lemma s3_wait_for:
  "s3_run c s = Some r \<Longrightarrow> same_signals (waits s) \<longrightarrow>
     (\<forall>m. c = s3_call_of m \<longrightarrow> wait_for m s = Some r \<and> set (waits (snd r)) \<subseteq> set (waits s)) \<and> (c = Rc_loop \<longrightarrow> rc_wait s = Some (snd r))"
proof (induction rule: s3_run.raw_induct [rotated, consumes 1])
  case (1 F c s r)
  obtain p t where r: "r = (p, t)" by (cases r)
  have A: "wait_for m s = Some (p, t) \<and> set (waits t) \<subseteq> set (waits s)" if "F (s3_call_of m) s = Some (p, t)" "same_signals (waits s)" for m s p t
    using 1(1) [OF that(1)] that(2) by simp
  show ?case
  proof (intro impI allI conjI)
    fix m assume ss: "same_signals (waits s)" and c: "c = s3_call_of m"
    note W = wait_step [where F = "\<lambda>m. F (s3_call_of m)" and G = wait_for, OF ss A] and L = loop_step [where F = "\<lambda>m. F (s3_call_of m)" and G = wait_for, OF ss A]
    have "wait_for m s = Some r \<and> set (waits (snd r)) \<subseteq> set (waits s)"
    proof (cases m)
      case None
      then show ?thesis using W [of p t, unfolded s3_call_simps] 1(2) c r
        by (simp add: s3_call_simps s3_wait_same [OF ss] wait_for.simps [of None])
    next
      case (Some i)
      then show ?thesis using L [of i p t, unfolded s3_call_simps] 1(2) c r by (simp add: s3_call_simps wait_for.simps [of "Some i"])
    qed
    then show "wait_for m s = Some r" "set (waits (snd r)) \<subseteq> set (waits s)" by simp_all
  next
    assume ss: "same_signals (waits s)" and c: "c = Rc_loop"
    obtain p1 s1 where f: "F Waitttys s = Some (p1, s1)" using 1(2) c by (auto simp: bind_eq_Some_conv)
    have w: "wait_for None s = Some (p1, s1)" "set (waits s1) \<subseteq> set (waits s)" using A [of None s p1 s1] f ss by (simp_all add: s3_call_simps)
    show "rc_wait s = Some (snd r)"
    proof (cases "p1 \<noteq> rcid s1 \<and> \<not> rdstate s1")
      case True
      then have "F Rc_loop s1 = Some r" using 1(2) c f by simp
      then show ?thesis using 1(1) [of Rc_loop s1 r] same_signals_sub [OF ss w(2)] w(1) True by (simp add: rc_wait.simps [of s])
    next
      case False
      then have "r = (p1, s1)" using 1(2) c f by (auto split: if_splits)
      then show ?thesis using False w(1) by (auto simp: rc_wait.simps [of s])
    qed
  qed
qed

lemma s3_wait_agrees:
  assumes "same_signals (waits s)"
  shows "s3_run (s3_call_of m) s = wait_for m s" "Option.bind (s3_run Rc_loop s) (\<lambda>(p, s). f s) = Option.bind (rc_wait s) f"
proof -
  show "s3_run (s3_call_of m) s = wait_for m s"
    using assms wait_for_s3 [of m s] s3_wait_for [of "s3_call_of m" s]
    by (cases "wait_for m s"; cases "s3_run (s3_call_of m) s") auto
  show "Option.bind (s3_run Rc_loop s) (\<lambda>(p, s). f s) = Option.bind (rc_wait s) f"
    using assms rc_wait_s3 [of s] s3_wait_for [of Rc_loop s]
    by (cases "rc_wait s"; cases "s3_run Rc_loop s") auto
qed

text \<open>The functions above keep what is still to come in order.\<close>

lemma waits_wait_for: "wait_for m s = Some (p, t) \<Longrightarrow> same_signals (waits s) \<Longrightarrow> same_signals (waits t)"
  using wait_for_s3 [of m s "(p, t)"] same_signals_sub [of "waits s" "waits t"] by simp

lemma waits_rc_wait: "rc_wait s = Some t \<Longrightarrow> same_signals (waits s) \<Longrightarrow> same_signals (waits t)"
  using rc_wait_s3 [of s t] same_signals_sub [of "waits s" "waits t"] by simp

lemma waits_iexec: "iexec c s = Some (p, t) \<Longrightarrow> waits t = waits s"
  by (auto simp: iexec_def ifork_def bind_eq_Some_conv split: list.splits if_splits)

lemma waits_invttys: "invttys s = Some t \<Longrightarrow> waits t = waits s"
proof -
  have e: "start_entry i s = Some t \<Longrightarrow> waits t = waits s" for i s t
    by (auto simp: start_entry_def Let_def bind_eq_Some_conv set_cmd_def set_proc_def split: if_splits dest!: waits_iexec)
  have "start_entries is s = Some t \<Longrightarrow> waits t = waits s" for "is" s t
    by (induction "is" s rule: start_entries.induct) (auto simp: bind_eq_Some_conv dest: e)
  then show "invttys s = Some t \<Longrightarrow> waits t = waits s" by (simp add: invttys_def)
qed

lemma waits_rc_fork: "rc_fork s = Some t \<Longrightarrow> waits t = waits s"
  by (induction rule: rc_fork.raw_induct [rotated, consumes 1]) (auto simp: bind_eq_Some_conv ifork_def split: list.splits if_splits)

lemma waits_tab_apply: "tab_apply idc fl c s = Some t \<Longrightarrow> waits t = waits s"
proof -
  have k: "waits (flag_kills p fs s) = waits s" for p fs s by (induction p fs s rule: flag_kills.induct) (auto simp: ikill_def)
  have f: "fit bs s = Some (x, t) \<Longrightarrow> waits t = waits s" for bs x s t
    by (auto simp: fit_def store_cmd_def bind_eq_Some_conv split: if_splits list.splits bool.splits)
  have l: "lookid d s = Some (j, t) \<Longrightarrow> waits t = waits s" for d j s t by (auto simp: lookid_def split: option.splits if_splits)
  show "tab_apply idc fl c s = Some t \<Longrightarrow> waits t = waits s"
    by (auto simp: tab_apply_def bind_eq_Some_conv k set_cmd_def split: if_splits dest!: f l)
qed

lemma waits_read_lines: "read_lines bs s = Some t \<Longrightarrow> waits t = waits s"
proof (induction bs s rule: read_lines.induct)
  case (1 bs s)
  then show ?case by (subst (asm) (3) read_lines.simps) (auto simp: bind_eq_Some_conv split: tabline.splits dest: waits_tab_apply)
qed

lemma s3_err2_agrees:
  assumes "same_signals (waits s)"
  shows "s3_err2 msg s = err2 msg s" "err2 msg s = Some t \<Longrightarrow> same_signals (waits t)"
proof -
  have w: "err_shell msg s = Some (i, u) \<Longrightarrow> same_signals (waits u)" for i u using waits_steps(2) assms by fastforce
  show "s3_err2 msg s = err2 msg s"
  proof (cases "err_shell msg s")
    case (Some x)
    then obtain i u where x: "err_shell msg s = Some (i, u)" by (cases x) simp
    then show ?thesis using s3_wait_agrees(1) [OF w [OF x], of "Some i"] by (simp add: s3_err2_def err2_def s3_call_simps)
  qed (simp add: s3_err2_def err2_def)
  show "err2 msg s = Some t \<Longrightarrow> same_signals (waits t)"
    using w waits_wait_for by (auto simp: err2_def bind_eq_Some_conv)
qed

lemma s3_open_tab_agrees:
  assumes "same_signals (waits s)"
  shows "s3_open_tab s = open_tab s" "open_tab s = Some (bs, t) \<Longrightarrow> same_signals (waits t)"
proof -
  have a: "open_tab s = Some r \<Longrightarrow> same_signals (waits s) \<longrightarrow> s3_open_tab s = Some r \<and> same_signals (waits (snd r))" for s r
  proof (induction rule: open_tab.raw_induct [rotated, consumes 1])
    case (1 F s r)
    consider bs ts where "tabs s = Some bs # ts" | ts where "tabs s = None # ts" using 1(2) by (auto split: list.splits option.splits)
    then show ?case
    proof cases
      case (2 ts)
      note E = s3_err2_agrees [of "s\<lparr>tabs := ts\<rparr>" "bytes ''inittab open failed''"]
      obtain u where u: "err2 (bytes ''inittab open failed'') (s\<lparr>tabs := ts\<rparr>) = Some u" "F u = Some r" using 1(2) 2 by (auto simp: bind_eq_Some_conv)
      show ?thesis using 1(1) [OF u(2)] u(1) 2 E by (auto simp: s3_open_tab.simps [of s])
    qed (use 1(2) in \<open>auto simp: s3_open_tab.simps [of s]\<close>)
  qed
  have b: "s3_open_tab s = Some r \<Longrightarrow> same_signals (waits s) \<longrightarrow> open_tab s = Some r" for s r
  proof (induction rule: s3_open_tab.raw_induct [rotated, consumes 1])
    case (1 F s r)
    consider bs ts where "tabs s = Some bs # ts" | ts where "tabs s = None # ts" using 1(2) by (auto split: list.splits option.splits)
    then show ?case
    proof cases
      case (2 ts)
      note E = s3_err2_agrees [of "s\<lparr>tabs := ts\<rparr>" "bytes ''inittab open failed''"]
      obtain u where u: "s3_err2 (bytes ''inittab open failed'') (s\<lparr>tabs := ts\<rparr>) = Some u" "F u = Some r" using 1(2) 2 by (auto simp: bind_eq_Some_conv)
      show ?thesis
      proof
        assume "same_signals (waits s)"
        then have "err2 (bytes ''inittab open failed'') (s\<lparr>tabs := ts\<rparr>) = Some u" "same_signals (waits u)" using E u(1) by auto
        then show "open_tab s = Some r" using 1(1) [OF u(2)] 2 by (simp add: open_tab.simps [of s])
      qed
    qed (use 1(2) in \<open>simp add: open_tab.simps [of s]\<close>)
  qed
  show "s3_open_tab s = open_tab s" using assms a [of s] b [of s] by (cases "open_tab s"; cases "s3_open_tab s") auto
  show "open_tab s = Some (bs, t) \<Longrightarrow> same_signals (waits t)" using assms a [of s "(bs, t)"] by simp
qed

lemma s3_readttys_agrees:
  assumes "same_signals (waits s)"
  shows "s3_readttys s = readttys s" "readttys s = Some t \<Longrightarrow> same_signals (waits t)"
proof -
  have ss: "same_signals (waits ((all_nocmd s)\<lparr>nextcmd := 0\<rparr>))" using assms by (simp add: all_nocmd_def)
  show "s3_readttys s = readttys s" using s3_open_tab_agrees(1) [OF ss] by (simp add: s3_readttys_def readttys_def)
  show "readttys s = Some t \<Longrightarrow> same_signals (waits t)"
    using s3_open_tab_agrees(2) [OF ss] waits_read_lines by (fastforce simp: readttys_def bind_eq_Some_conv)
qed

lemma s3_runrc_agrees:
  assumes "same_signals (waits s)"
  shows "s3_runrc s = runrc s" "runrc s = Some t \<Longrightarrow> same_signals (waits t)"
proof -
  have w: "s3_rc_start s = Some u \<Longrightarrow> same_signals (waits u)" for u
    using assms waits_rc_fork by (fastforce simp: s3_rc_start_def bind_eq_Some_conv Let_def)
  have "runrc s = Option.bind (s3_rc_start s) (\<lambda>s. Option.bind (rc_wait s) (\<lambda>s. Some (s3_rc_end s)))"
    by (simp add: runrc_def s3_rc_start_def s3_rc_end_def Let_def)
  note R = this
  show "s3_runrc s = runrc s"
  proof (cases "s3_rc_start s")
    case (Some u)
    then show ?thesis using R s3_wait_agrees(2) [OF w [OF Some], of "\<lambda>s. Some (s3_rc_end s)"]
      by (cases "s3_run Rc_loop u") (auto simp: s3_runrc_def s3_run.simps [of Runrc])
  qed (use R in \<open>simp add: s3_runrc_def s3_run.simps [of Runrc]\<close>)
  show "runrc s = Some t \<Longrightarrow> same_signals (waits t)"
    using R w waits_rc_wait by (fastforce simp: bind_eq_Some_conv)
qed

lemma s3_enter_state_agrees:
  assumes "same_signals (waits s)"
  shows "s3_enter_state s = enter_state s" "enter_state s = Some t \<Longrightarrow> same_signals (waits t)"
proof -
  let ?c = "\<lambda>s. s\<lparr>statecnt := (statecnt s)[nat (istate s - 48) := statecnt s ! nat (istate s - 48) + 1]\<rparr>"
  have step: "s3_readttys (s\<lparr>rdstate := False\<rparr>) = readttys (s\<lparr>rdstate := False\<rparr>)"
    "\<And>u. readttys (s\<lparr>rdstate := False\<rparr>) = Some u \<Longrightarrow> s3_runrc (?c u) = runrc (?c u)"
    "\<And>u v. readttys (s\<lparr>rdstate := False\<rparr>) = Some u \<Longrightarrow> runrc (?c u) = Some v \<Longrightarrow> same_signals (waits v)"
    if "same_signals (waits s)" for s
  proof -
    have ss: "same_signals (waits (s\<lparr>rdstate := False\<rparr>))" using that by simp
    show "s3_readttys (s\<lparr>rdstate := False\<rparr>) = readttys (s\<lparr>rdstate := False\<rparr>)" by (rule s3_readttys_agrees(1) [OF ss])
    fix u assume "readttys (s\<lparr>rdstate := False\<rparr>) = Some u"
    then have c: "same_signals (waits (?c u))" using s3_readttys_agrees(2) [OF ss] by simp
    show "s3_runrc (?c u) = runrc (?c u)" by (rule s3_runrc_agrees(1) [OF c])
    show "runrc (?c u) = Some v \<Longrightarrow> same_signals (waits v)" for v by (rule s3_runrc_agrees(2) [OF c])
  qed
  have a: "enter_state s = Some r \<Longrightarrow> same_signals (waits s) \<longrightarrow> s3_enter_state s = Some r \<and> same_signals (waits r)" for s r
  proof (induction rule: enter_state.raw_induct [rotated, consumes 1])
    case (1 F s r)
    show ?case
    proof (cases "rdstate s")
      case True
      obtain u v where u: "readttys (s\<lparr>rdstate := False\<rparr>) = Some u" "runrc (?c u) = Some v" "F (v\<lparr>xstate := False\<rparr>) = Some r"
        using 1(2) True by (auto simp: bind_eq_Some_conv)
      show ?thesis using 1(1) [OF u(3)] u(1,2) True step by (auto simp: s3_enter_state.simps [of s])
    qed (use 1(2) in \<open>auto simp: s3_enter_state.simps [of r]\<close>)
  qed
  have b: "s3_enter_state s = Some r \<Longrightarrow> same_signals (waits s) \<longrightarrow> enter_state s = Some r" for s r
  proof (induction rule: s3_enter_state.raw_induct [rotated, consumes 1])
    case (1 F s r)
    show ?case
    proof (cases "rdstate s")
      case True
      obtain u v where u: "s3_readttys (s\<lparr>rdstate := False\<rparr>) = Some u" "s3_runrc (?c u) = Some v" "F (v\<lparr>xstate := False\<rparr>) = Some r"
        using 1(2) True by (auto simp: bind_eq_Some_conv)
      show ?thesis
      proof
        assume ss: "same_signals (waits s)"
        have r: "readttys (s\<lparr>rdstate := False\<rparr>) = Some u" using step(1) [OF ss] u(1) by simp
        have "runrc (?c u) = Some v" using step(2) [OF ss r] u(2) by simp
        then show "enter_state s = Some r" using 1(1) [OF u(3)] step(3) [OF ss r] r True by (simp add: enter_state.simps [of s])
      qed
    qed (use 1(2) in \<open>auto simp: enter_state.simps [of r]\<close>)
  qed
  show "s3_enter_state s = enter_state s"
  proof (cases "enter_state s")
    case None
    then have "s3_enter_state s \<noteq> Some r" for r using b [of s r] assms by auto
    then show ?thesis using None by (metis option.exhaust)
  next
    case (Some r)
    then show ?thesis using a [OF Some] assms by simp
  qed
  show "enter_state s = Some t \<Longrightarrow> same_signals (waits t)" using assms a by blast
qed

text \<open>A turn of the loop of \<open>main\<close>; ZEUS also signals the console's processes in state 2 after state 1.\<close>

lemma s3_turn_agrees:
  assumes "same_signals (waits s)" "\<And>t. enter_state (s\<lparr>xstate := False\<rparr>) = Some t \<Longrightarrow> \<not> (istate t = 50 \<and> lstate t = 49)"
  shows "s3_turn s = init_turn s"
proof (cases "enter_state (s\<lparr>xstate := False\<rparr>)")
  case None
  then show ?thesis using s3_enter_state_agrees(1) [of "s\<lparr>xstate := False\<rparr>"] assms(1) by (simp add: s3_turn_def init_turn_def)
next
  case (Some t)
  have t: "s3_enter_state (s\<lparr>xstate := False\<rparr>) = Some t" "same_signals (waits t)" "\<not> (istate t = 50 \<and> lstate t = 49)"
    using s3_enter_state_agrees [of "s\<lparr>xstate := False\<rparr>"] assms Some by simp_all
  show ?thesis
  proof (cases "invttys t")
    case (Some u)
    have "s3_run Waitttys u = wait_for None u" using s3_wait_agrees(1) [of u None] waits_invttys [OF Some] t(2) by (simp add: s3_call_simps)
    then show ?thesis using t \<open>enter_state _ = Some t\<close> Some by (auto simp: s3_turn_def init_turn_def)
  qed (use t Some in \<open>auto simp: s3_turn_def init_turn_def\<close>)
qed


section \<open>A power failure while \<open>/etc/rc\<close> runs\<close>

text \<open>
  \<open>rcid\<close> is one variable. The run of \<open>/etc/rc\<close> that \<open>chst\<close> starts overwrites it, so the run that was interrupted waits for a
  process that has ended: it goes on waiting whatever processes end, and \<open>xstate\<close> keeps it from starting a shell.
\<close>

lemma rc_loop_stuck:
  assumes "xstate s" "\<not> rdstate s" "\<forall>h \<in> set (waits s). h = No_child \<or> (\<exists>p. h = Exits p \<and> p \<noteq> rcid s)" "rcid s \<noteq> - 1"
  shows "s3_run Rc_loop s = None"
  using assms
proof (induction "length (waits s)" arbitrary: s)
  case 0
  then show ?case by (simp add: s3_run.simps [of Rc_loop] s3_run.simps [of Waitttys])
next
  case (Suc n)
  obtain h hs where h: "waits s = h # hs" using Suc.hyps(2) by (cases "waits s") auto
  let ?s = "s\<lparr>waits := hs\<rparr>"
  obtain p where p: "s3_run Waitttys s = Some (p, reap p ?s)" "p \<noteq> rcid s"
    using Suc.prems h by (auto simp: s3_run.simps [of Waitttys])
  have r: "xstate (reap p ?s) = xstate s" "rdstate (reap p ?s) = rdstate s" "waits (reap p ?s) = hs" "rcid (reap p ?s) = rcid s"
    by (auto simp: reap_def set_proc_def split: option.split)
  have "s3_run Rc_loop (reap p ?s) = None"
    by (rule Suc.hyps(1)) (use Suc.hyps(2) Suc.prems h r in auto)
  then show ?case using p r Suc.prems(2) by (simp add: s3_run.simps [of Rc_loop s])
qed

lemma reap_fields [simp]:
  "xstate (reap p s) = xstate s" "rdstate (reap p s) = rdstate s" "rcid (reap p s) = rcid s" "acts (reap p s) = acts s"
  by (auto simp: reap_def set_proc_def split: option.split)

text \<open>The loop ends with the process it waits for.\<close>

lemma rc_loop_ends:
  assumes "waits s = map Exits as @ Exits (rcid s) # hs" "rcid s \<notin> set as" "\<forall>a \<in> set as. 0 < a" "0 < rcid s" "\<not> rdstate s"
  shows "\<exists>t. s3_run Rc_loop s = Some (rcid s, t) \<and> waits t = hs \<and> xstate t = xstate s \<and> rdstate t = rdstate s \<and> rcid t = rcid s"
  using assms
proof (induction as arbitrary: s)
  case Nil
  then show ?case by (simp add: s3_run.simps [of Rc_loop s] s3_run.simps [of Waitttys s])
next
  case (Cons a as)
  let ?s = "reap a (s\<lparr>waits := map Exits as @ Exits (rcid s) # hs\<rparr>)"
  have "s3_run Waitttys s = Some (a, ?s)" using Cons.prems by (simp add: s3_run.simps [of Waitttys s])
  then have "s3_run Rc_loop s = s3_run Rc_loop ?s" using Cons.prems by (simp add: s3_run.simps [of Rc_loop s])
  then show ?case using Cons.IH [of ?s] Cons.prems by simp
qed

lemma rc_started:
  assumes "rcstring s = Some rc" "forks s = p # fs" "p \<noteq> FORKERR"
  shows "\<exists>t. s3_rc_start s = Some t \<and> waits t = waits s \<and> rcid t = p \<and> forks t = fs \<and> xstate t = xstate s \<and> rdstate t = rdstate s
    \<and> acts t SIGPWR = acts s SIGPWR \<and> istate t = istate s \<and> lstate t = lstate s \<and> statecnt t = statecnt s"
  using assms by (auto simp: s3_rc_start_def rc_fork.simps [of s] ifork_def setsigs_def set_all_def ST_def sigs_def Let_def)

lemma power_failure:
  assumes s: "rcstring s = Some rc" "forks s = p # q # fs" "0 < p" "0 < q" "p \<noteq> q" "\<not> xstate s" "\<not> rdstate s" "acts s SIGPWR = Chst"
    and w: "waits s = Signal SIGPWR # map Exits as @ Exits q # hs" "p \<in> set as" "q \<notin> set as" "\<forall>a \<in> set as. 0 < a"
      "\<forall>h \<in> set hs. h = No_child \<or> (\<exists>r. h = Exits r \<and> r \<noteq> q)"
  shows "\<exists>t. s3_runrc (s\<lparr>waits := tl (waits s)\<rparr>) = Some t" "s3_runrc s = None"
proof -
  let ?s = "s\<lparr>waits := tl (waits s)\<rparr>"
  have e: "rcstring ?s = Some rc" "forks ?s = p # q # fs" "p \<noteq> FORKERR" using s(1-3) by (auto simp: rcstring_def Let_def split: if_splits)
  obtain t where t: "s3_rc_start ?s = Some t" "waits t = waits ?s" "rcid t = p" "rdstate t = rdstate s" using rc_started [OF e] by auto
  obtain bs cs where as: "as = bs @ p # cs" "p \<notin> set bs" using split_list_first [OF w(2)] by blast
  obtain u where "s3_run Rc_loop t = Some (rcid t, u)"
    using rc_loop_ends [of t bs "map Exits cs @ Exits q # hs"] t as w(1,4) s(3,7) by auto
  then show "\<exists>t. s3_runrc ?s = Some t" using t(1) by (auto simp: s3_runrc_def s3_run.simps [of Runrc])
next
  obtain t where t: "s3_rc_start s = Some t" "waits t = waits s" "rcid t = p" "forks t = q # fs" "xstate t = xstate s" "rdstate t = rdstate s"
    "acts t SIGPWR = Chst" "istate t = istate s" "lstate t = lstate s" "statecnt t = statecnt s"
    using rc_started [OF s(1,2)] s(3,8) by auto
  let ?c = "s3_chst_power (t\<lparr>waits := map Exits as @ Exits q # hs, acts := (acts t)(SIGPWR := Default)\<rparr>)"
  have c: "waits ?c = map Exits as @ Exits q # hs" "forks ?c = q # fs" "xstate ?c" "rdstate ?c = rdstate s" "rcstring ?c \<noteq> None"
    using t s(1) by (auto simp: s3_chst_power_def ignsigs_def set_all_def rcstring_def Let_def split: if_splits)
  then obtain rc' where "rcstring ?c = Some rc'" by blast
  then obtain v where v: "s3_rc_start ?c = Some v" "waits v = map Exits as @ Exits q # hs" "rcid v = q" "xstate v" "rdstate v = rdstate s"
    using rc_started [of ?c rc' q fs] c s(4) by auto
  obtain x where x: "s3_run Rc_loop v = Some (q, x)" "waits x = hs" "xstate x" "rdstate x = rdstate s" "rcid x = q"
    using rc_loop_ends [of v as hs] v w(3,4) s(4,7) by auto
  have in1: "s3_run Runrc ?c = Some (q, x)" using v(1) x(1,3) by (simp add: s3_run.simps [of Runrc] s3_rc_end_def)
  have "s3_run Waitttys t = Some (- 1, reap (- 1) x)"
    using t(2,7) w(1) in1 x(3) by (simp add: s3_run.simps [of Waitttys t])
  moreover have "s3_run Rc_loop (reap (- 1) x) = None"
    by (rule rc_loop_stuck) (use x s(4,7) w(5) in auto)
  ultimately have "s3_run Rc_loop t = None" using x s(4,7) by (simp add: s3_run.simps [of Rc_loop t])
  then show "s3_runrc s = None" using t(1) by (simp add: s3_runrc_def s3_run.simps [of Runrc])
qed

end
