(* ===== verification/Spec2Isabelle.thy ===== *)
theory Spec2Isabelle
  imports Demo Statfs_Spec Mkfs_Fault Nami_Spec Fio_Spec Mkv7img Taperestore Regexp_Comp Regexp_Bounds Lpr_Print Upload Line_Spec Init_Spec Sys3_Init
begin

text \<open>
  A verification development for the C programs of the Zilog System 8000 repository.

  \<^bold>\<open>The program.\<close> The repository collects what is needed to run and rebuild a System 8000 under ZEUS. Its C code has
  five parts.

  \<^item> \<open>tools/retro-fuse\<close> is a file system library for images of Seventh Edition disks. The kernel of the Seventh
    Edition (\<open>ancient-src/v7\<close>) is compiled into a library; \<open>src/v7adapt.c\<close> gives it its globals, a disk driver and
    the byte order of the disk, \<open>src/dskio.c\<close> the disk as a window of an image file, \<open>src/idmap.c\<close> the mapping of
    user ids, and \<open>src/v7fs.c\<close> the calls that a client of the library uses, \<open>v7fs_mkfs\<close> among them. The tools
    \<open>mkv7img.c\<close>, \<open>taperestore.c\<close> and \<open>mkdev.c\<close> build images with these calls.
  \<^item> \<open>sys/dev/lpr.c\<close> is the line printer driver of ZEUS, from an installation tape.
  \<^item> \<open>include/regexp.h\<close> is the regular expression matcher that \<open>ed\<close>, \<open>grep\<close> and others include, from the same tape.
  \<^item> \<open>remote.c\<close>, \<open>putfile.c\<close>, \<open>getfile.c\<close> and \<open>local.c\<close> move files between two systems over a serial line.
  \<^item> \<open>re/init\<close> has the first process of ZEUS, reconstructed from its binary, and that of System III, which it is based on.

  \<^bold>\<open>The library.\<close> A theory named after a source file holds its data, as records and datatypes, and one definition
  per function, and a theory with the suffix \<open>Spec\<close> or another one what is proved of it.

  \<^item> \<open>V7_Prelude\<close>: C integers, bytes in blocks, rings of pointers, the option monad; \<open>Clib\<close>: functions of the C library on
    strings.
  \<^item> \<open>Idmap\<close> (\<open>idmap.c\<close>): the two directions of the map are interpretations of one locale, \<open>first_match\<close>.
  \<^item> \<open>V7_Types\<close>: the structures of \<open>h/*.h\<close> and all globals of the kernel as the record \<open>kernel\<close>, with the host it runs
    on. \<open>Dskio\<close> (\<open>dskio.c\<close>): the disk as a window of a file; reads, writes and their bounds.
  \<^item> \<open>Bio\<close> (\<open>dev/bio.c\<close> and the driver): the buffer cache with its pointer lists. \<open>Bio_Inv\<close> and \<open>Bio_Spec\<close>: the lists stay
    well formed and the loops end; \<open>Bio_View\<close> and \<open>Bio_Ops\<close>: the contracts of the operations over the disk as a
    reader sees it; \<open>Bio_Client\<close>: the locale \<open>block_store\<close>, what a client relies on, interpreted for delayed and
    direct writes, and the refinement of sequences of transactions to an array of blocks; \<open>Bio_Ahead\<close>: \<open>breada\<close>.
  \<^item> \<open>Alloc\<close> (\<open>sys/alloc.c\<close>) and \<open>Alloc_Spec\<close>: the free list as a stack, with the locale \<open>allocator\<close>; \<open>Statfs_Spec\<close> and
    \<open>Mkfs_Spec\<close> build on it: the count of \<open>v7fs_statfs\<close>, and the free list of a new file system. \<open>Mkfs_Fault\<close>: \<open>v7fs_mkfs\<close> on a
    disk that refuses to be written.
  \<^item> \<open>Inode\<close> (\<open>sys/iget.c\<close>) and \<open>Inode_Spec\<close>: inodes survive their way to the disk and back and do not touch each other.
  \<^item> \<open>Rdwri\<close> (\<open>sys/subr.c\<close>, \<open>sys/rdwri.c\<close>), \<open>Rdwri_Spec\<close>, \<open>Readi_Spec\<close> and \<open>File_Read\<close>: \<open>bmap\<close> follows the indirect blocks, and
    reading delivers the bytes of the file.
  \<^item> \<open>File_Tree\<close>, \<open>File_Grow\<close>, \<open>Bmap_Write\<close>, \<open>Writei_Spec\<close> and \<open>File_Write\<close>: writing. The blocks of a file are a tree; \<open>file_inv\<close>
    says that it has no sharing, is apart from the free list, and that there are free blocks for the empty places of a
    range. \<open>bmap\<close> for writing adds blocks to the tree and keeps the bytes, \<open>writei\<close> changes the bytes of the range only.
    \<open>bmap_path\<close> of \<open>Rdwri_Spec\<close> is the specification of the way that \<open>bmap\<close> computes from the number of a file block.
  \<^item> \<open>Fio\<close>, \<open>Nami\<close> and \<open>Sys\<close> (\<open>sys/fio.c\<close>, \<open>sys/nami.c\<close>, \<open>sys/sys2.c\<close> to \<open>sys/sys4.c\<close>), with \<open>Fio_Spec\<close> and \<open>Nami_Spec\<close>:
    descriptors, permissions, path names, system calls.
  \<^item> \<open>V7fs\<close>, \<open>V7fs_Dirs\<close> and \<open>Mkfs\<close> (\<open>v7fs.c\<close>): the calls of the library. \<open>Hostfs\<close>, \<open>Mkv7img\<close> and \<open>Taperestore\<close>: the tools. \<open>Demo\<close>:
    concrete states on which the statements are applied.
  \<^item> \<open>Regexp\<close>, with \<open>Regexp_Spec\<close> (the meaning of patterns; \<open>advance\<close> decides it), \<open>Regexp_Comp\<close> (\<open>compile\<close> makes the code of
    a pattern from its text, in the locale \<open>char_source\<close>, which the macros of \<open>grep\<close> satisfy) and \<open>Regexp_Bounds\<close>.
  \<^item> \<open>Lpr\<close>, with \<open>Lpr_Spec\<close> (the driver implements the editing function \<open>edit\<close>, whatever the printer does) and \<open>Lpr_Print\<close> (a
    ready printer gets everything; nothing is printed past the last column).
  \<^item> \<open>Remote\<close>, \<open>Putfile\<close> and \<open>Getfile\<close>, with \<open>Remote_Spec\<close> (the locale \<open>record_receiver\<close>), \<open>Download\<close> and \<open>Upload\<close>: both directions of the
    transfer, the two programs composed over a line that spoils records.
  \<^item> \<open>Remote_Line\<close>, with \<open>Line_Spec\<close>: the rest of \<open>remote.c\<close>, from the database of lines and the lock file to the end of the session;
    while a line is held, \<open>holds_line\<close> says how everything can be put back. \<open>remote_points\<close> has the states in which a hang-up or an
    interrupt from outside can find the program.
  \<^item> \<open>Zeus_Init\<close> and \<open>Init_Spec\<close>: the table file of init and what it starts. \<open>Sys3_Init\<close>: the init of System III, from which it was
    made, and where the two agree.

  \<^bold>\<open>How code becomes definitions.\<close> A function of the code takes the state and returns its result with the new state.
  The result \<open>None\<close> stands for a call that does not return: a panic, a \<open>sleep\<close> that nobody ends (the file system
  library has one thread), an exit, a store outside of an array. Loops are structural recursion, recursion with a
  termination proof, or \<open>partial_function\<close> where the code may loop forever; no fuel is used, and where a statement says
  that a call returns, it is proved. Integers keep their width: words for bytes and flags, \<open>int\<close> with the conversion
  written out elsewhere. Statements that need a concrete state are accompanied by an application to one.

  \<^bold>\<open>What stands outside.\<close> Code that is not in the repository is an argument or a field of the state: whether calls of the
  host fail, the files of the host, \<open>realloc\<close>, the character lists of the ZEUS kernel (\<open>clist_ops\<close> with the contract
  \<open>fifo\<close>: \<open>putc\<close> always has a block for the character), the macros \<open>GETC\<close>, \<open>PEEKC\<close> and \<open>UNGETC\<close>, the status of the printer and the arrival of interrupts (at most
  one at each point after a port is enabled or strobed, and no signal ends a sleep of the printer driver), what a serial
  line brings and when it is silent, the results of \<open>fork\<close> and \<open>wait\<close>.

  \<^bold>\<open>The properties\<close> follow in the order of the parts: the buffer cache, free blocks, new file systems, inodes, file data,
  names, descriptors and permissions, the disk and the id maps, the tools, regular expressions, the line printer, file
  transfer, sessions, init. Each has its statement in words in front of it.

  \<^bold>\<open>Not modelled.\<close> The parts of the kernel files that this build leaves out with the preprocessor; in
  \<open>remote.c\<close>, signals that arrive between the calls inside of \<open>try\<close>, and an interrupt from outside when the line is held, which has
  the action from before the program; messages of the command-line tools; header
  files with declarations only. The emulator, the tape and disk tools and the tests are not C.
\<close>

section \<open>The buffer cache\<close>

text \<open>
  C1. The write-back cache of \<open>bio.c\<close> is a disk. Start from a consistent cache with no buffer in
  use and run any sequence of transactions (\<open>bread\<close> and \<open>brelse\<close>; \<open>bread\<close>, a change of the bytes and
  \<open>bdwrite\<close>; the same with \<open>bwrite\<close>; \<open>bflush\<close>) on blocks inside the disk, then \<open>bflush\<close>: every call
  returns, and each block of the image file is what the same sequence makes of a plain array of blocks.
\<close>

theorem cache_refines_disk:
  assumes "cache_ok s" "busy s = {}" "\<forall>p \<in> set ops. bop_ok s p" "agrees s m"
  shows "\<exists>t. for_each run_bop (ops @ [Oflush]) s = Some t
    \<and> (\<forall>c. dsk_inrange s c \<longrightarrow> dsk_block t c = fold spec_bop ops m c)"
  by (rule bops_on_disk [OF assms])

lemma demo_blocal: "blocal (\<lambda>d. d(0 := 7))"
  by (auto simp: blocal_def trunc_blk_def fun_eq_iff)

theorem cache_refines_disk_witness:
  "\<exists>t. for_each run_bop ([Odelayed 5 (\<lambda>d. d(0 := 7)), Oread 6, Odirect 6 (\<lambda>d. d(0 := 7))] @ [Oflush]) demo = Some t
    \<and> dsk_block t 5 0 = 7"
proof -
  let ?ops = "[Odelayed 5 (\<lambda>d. d(0 := 7)), Oread 6, Odirect 6 (\<lambda>d. d(0 := 7))]"
  have "\<exists>t. for_each run_bop (?ops @ [Oflush]) demo = Some t
    \<and> (\<forall>c. dsk_inrange demo c \<longrightarrow> dsk_block t c = fold spec_bop ?ops (view demo) c)"
    by (rule cache_refines_disk [OF demo_cache_ok demo_binit(2)])
      (simp_all add: demo_inrange demo_room demo_blocal agrees_def)
  then show ?thesis by (auto simp: demo_inrange)
qed

text \<open>
  C2. \<open>bread\<close> of a block inside the disk returns while some buffer is not in use or the block's own
  buffer is available. The buffer it returns was not in use, is now, is labelled with the block, and has
  the block's current contents, also those of a delayed write; no other holder's buffer and no other
  block changes, whatever buffer had to be written out and reused for it.
\<close>

theorem bread_returns_contents:
  assumes "cache_ok s" "room s b" "dsk_inrange s b"
  shows "\<exists>p t. bread 0 b s = Some (p, t) \<and> p \<notin> busy s \<and> busy t = insert p (busy s)
    \<and> b_dev (v7_buf t p) = 0 \<and> b_blkno (v7_buf t p) = b \<and> trunc_blk (bdata t p) = view s b
    \<and> cache_ok t \<and> undisturbed s t (busy s) \<and> (\<forall>c. dsk_inrange s c \<longrightarrow> view t c = view s c)"
  using bread_spec [OF assms(1,2)] assms(3) unfolding taken_def by blast

theorem bread_returns_contents_witness:
  "\<exists>p t. bread 0 5 demo = Some (p, t) \<and> b_blkno (v7_buf t p) = 5 \<and> trunc_blk (bdata t p) = view demo 5"
  using bread_returns_contents [OF demo_cache_ok demo_room, of 5] by (auto simp: demo_inrange)

text \<open>
  C3. After \<open>bflush\<close> with no buffer in use the image file has every block of the file system as it is
  seen through the cache, and no write is outstanding.
\<close>

theorem bflush_writes_everything:
  assumes "cache_ok s" "busy s = {}"
  shows "\<exists>t. bflush NODEV s = Some t \<and> cache_ok t \<and> delayed t = {}
    \<and> (\<forall>c. dsk_inrange s c \<longrightarrow> dsk_block t c = view s c)"
proof -
  obtain t where t: "bflush NODEV s = Some t" "cache_ok t" "busy t = busy s" "undisturbed s t (busy s)" "delayed t = {}"
    "\<And>c. dsk_inrange s c \<Longrightarrow> view t c = view s c" using bflush_spec [OF assms(1)] by blast
  have "dsk_inrange t c = dsk_inrange s c" for c using t(4) io_frame_inrange [of s t] by (simp add: undisturbed_def)
  then have "dsk_block t c = view s c" if "dsk_inrange s c" for c
    using synced [OF t(2,5)] t(3,6) assms(2) that by simp
  then show ?thesis using t by blast
qed

theorem bflush_writes_everything_witness:
  "\<exists>t. bflush NODEV demo = Some t \<and> dsk_block t 63 = view demo 63"
  using bflush_writes_everything [OF demo_cache_ok demo_binit(2)] by (auto simp: demo_inrange)

text \<open>
  C4. \<open>binit\<close> builds a consistent cache from the cleared tables: the rings are well linked, all buffers
  are available, no block is cached, so every block reads as it is on the disk.
\<close>

theorem binit_establishes_cache:
  assumes "v7_nblkdev s = 0" "\<forall>p. b_error (v7_buf s p) = 0 \<and> b_resid (v7_buf s p) = 0" "B_TAPE \<notin> bflags s Rootdsktab" "dsk_wf s" "host_ok s"
  shows "cache_ok (binit s) \<and> busy (binit s) = {} \<and> view (binit s) b = dsk_block s b"
proof -
  have e: "b_left (v7_buf s p) = (0, 0)" for p using assms(2) by simp
  note B = binit_spec [OF assms(1) e assms(3)]
  have "coherent (binit s)" using B(3) unfolding coherent_def cached_None by blast
  moreover have "dsk_wf (binit s)" "host_ok (binit s)"
    using B(4) assms(4,5) unfolding io_frame_def dsk_wf_def host_ok_def by auto
  ultimately show ?thesis using B by (simp add: cache_ok_def view_def)
qed

theorem binit_establishes_cache_witness:
  "cache_ok (binit demo_core) \<and> busy (binit demo_core) = {} \<and> view (binit demo_core) 7 = dsk_block demo_core 7"
  by (rule binit_establishes_cache)
    (simp_all add: demo_core_def Let_def demo_buf_def dsk_wf_def host_ok_def demo_host_def)

text \<open>
  C5. There is one thread: \<open>getblk\<close> for a block whose buffer is in use never returns, because the wakeup
  it sleeps for cannot come. A caller must not ask for a block it holds.
\<close>

theorem getblk_never_returns_busy:
  assumes "bio_inv s" "cached s b = Some p" "p \<in> busy s"
  shows "getblk 0 b s = None"
  by (rule getblk_busy [OF assms])

lemma demo_busy:
  obtains p s where "bio_inv s" "cached s 5 = Some p" "p \<in> busy s" "getblk 0 5 demo = Some (p, s)"
proof -
  obtain p s where t: "getblk 0 5 demo = Some (p, s)" "taken demo p s" "b_dev (v7_buf s p) = 0" "b_blkno (v7_buf s p) = 5"
    using getblk_spec [OF demo_cache_ok demo_room] by blast
  obtain avs devs nos where st: "bio_st s avs devs nos" using t(2) by (auto simp: taken_def elim: cache_okE)
  have "p \<in> pool" "p \<in> busy s" "bio_inv s" using t(2) by (auto simp: taken_def cache_ok_def)
  then show thesis using that t cached_Some [OF st] by auto
qed

theorem getblk_never_returns_busy_witness:
  "\<exists>p s. getblk 0 5 demo = Some (p, s) \<and> getblk 0 5 s = None"
proof (rule demo_busy)
  fix p s
  assume "bio_inv s" "cached s 5 = Some p" "p \<in> busy s" "getblk 0 5 demo = Some (p, s)"
  then show ?thesis using getblk_never_returns_busy by blast
qed


section \<open>Free blocks\<close>

text \<open>
  C6. \<open>alloc\<close> hands out the first block of the free list, a chain of tables that starts in the
  superblock and goes on in the free blocks themselves: the buffer is cleared and labelled with the
  block, the list that is left is the tail, and every other block of the disk keeps its contents.
\<close>

theorem alloc_takes_first:
  assumes "cache_ok s" "busy s \<noteq> pool" "freelist s fp (b # xs)"
  shows "\<exists>p t. alloc 0 s = Some (Some p, t) \<and> freelist t fp xs \<and> cache_ok t \<and> p \<notin> busy s \<and> busy t = insert p (busy s)
    \<and> b_dev (v7_buf t p) = 0 \<and> b_blkno (v7_buf t p) = b \<and> trunc_blk (bdata t p) = zeroblk
    \<and> (\<forall>c. dsk_inrange s c \<longrightarrow> c \<noteq> b \<longrightarrow> view t c = view s c)"
  using alloc_spec [OF assms(1,3,2)] by (auto simp: granted_def buf_tag_def split: if_splits)

theorem alloc_takes_first_witness:
  "\<exists>p t. alloc 0 demo_fs = Some (Some p, t) \<and> b_blkno (v7_buf t p) = 10 \<and> freelist t demo_fp []"
  using alloc_takes_first [of demo_fs demo_fp 10 "[]"] demo_fs_inv by (auto simp: fs_inv_def)

text \<open>
  C7. \<open>free\<close> puts a block of the file system that is not on the list in front of it, also when the
  table in the superblock is full and moves into the block. No block but the freed one changes.
\<close>

theorem free_puts_first:
  assumes "cache_ok s" "busy s \<noteq> pool" "freelist s fp xs" "data_block s fp b" "unheld s b" "b \<notin> set xs"
  shows "\<exists>t. free 0 b s = Some t \<and> freelist t fp (b # xs) \<and> cache_ok t \<and> busy t = busy s
    \<and> (\<forall>c. dsk_inrange s c \<longrightarrow> c \<noteq> b \<longrightarrow> view t c = view s c)"
  using free_spec [OF assms(1,3-6,2)] unfolding quiet_def by blast

theorem free_puts_first_witness: "\<exists>t. free 0 11 demo_fs = Some t \<and> freelist t demo_fp [11, 10]"
  using free_puts_first [of demo_fs demo_fp "[10]" 11] demo_fs_inv demo_fs_mine
  by (auto simp: fs_inv_def fs_mine_def)

text \<open>
  C8. Allocate the first \<open>length xs\<close> blocks of the list and free them in the reverse order: every call
  succeeds, the blocks come in the order of the list, the list is what it was, and the blocks of
  other files (those neither on the list nor held) have their contents.
\<close>

theorem allocate_then_free_all:
  assumes "fs_inv fp s (xs @ ys)"
  shows "\<exists>t u. for_each (\<lambda>b s. Option.bind (alloc_put s) (\<lambda>(r, t). if r = Some b then Some t else None)) xs s = Some t
    \<and> for_each (free 0) (rev xs) t = Some u \<and> fs_inv fp u (xs @ ys)
    \<and> (\<forall>c. fs_mine fp s (xs @ ys) c \<longrightarrow> view u c = view s c)"
proof -
  obtain t where t: "for_each (\<lambda>b s. Option.bind (alloc_put s) (\<lambda>(r, t). if r = Some b then Some t else None)) xs s = Some t"
    "fs_inv fp t ys" "\<And>b. b \<in> set xs \<or> fs_mine fp s (xs @ ys) b \<Longrightarrow> fs_mine fp t ys b"
    "\<And>c. fs_mine fp s (xs @ ys) c \<Longrightarrow> view t c = view s c"
    using v7_alloc.get_many [OF assms] by blast
  have d: "distinct xs" using assms by (simp add: fs_inv_def freelist_def)
  obtain u where u: "for_each (free 0) (rev xs) t = Some u" "fs_inv fp u (xs @ ys)"
    "\<And>c. fs_mine fp t ys c \<Longrightarrow> c \<notin> set xs \<Longrightarrow> view u c = view t c"
    using v7_alloc.give_many [OF t(2) d] t(3) by blast
  have "view u c = view s c" if "fs_mine fp s (xs @ ys) c" for c
    using that t(3,4) u(3) v7_alloc.mine_free [OF that] by simp
  then show ?thesis using t(1) u(1,2) by blast
qed

theorem allocate_then_free_all_witness:
  "\<exists>t u. alloc_put demo_fs = Some (Some 10, t) \<and> free 0 10 t = Some u \<and> freelist u demo_fp [10] \<and> view u 11 = view demo_fs 11"
proof -
  have "\<exists>t u. for_each (\<lambda>b s. Option.bind (alloc_put s) (\<lambda>(r, t). if r = Some b then Some t else None)) [10] demo_fs = Some t
    \<and> for_each (free 0) (rev [10]) t = Some u \<and> fs_inv demo_fp u ([10] @ [])
    \<and> (\<forall>c. fs_mine demo_fp demo_fs ([10] @ []) c \<longrightarrow> view u c = view demo_fs c)"
    by (rule allocate_then_free_all) (simp add: demo_fs_inv)
  then show ?thesis
    using demo_fs_mine by (auto simp: fs_inv_def bind_eq_Some_conv split: if_splits)
qed

text \<open>
  C9. The walk of \<open>v7fs_statfs\<close> along the tables of the free list returns, and counts exactly the blocks
  that \<open>alloc\<close> can hand out; the cache is as before.
\<close>

theorem statfs_counts_free:
  assumes "cache_ok s" "busy s \<noteq> pool" "freelist s fp xs" "v7_rootdev s = 0" "uerror s = 0"
  shows "\<exists>t. count_free fp (wswap_int16 (s_nfree (bdata s fp))) (wswap_int32 (s_free (bdata s fp) 0)) 0 0 s
      = Some (Inr (int (length xs)), t) \<and> cache_ok t \<and> busy t = busy s"
proof -
  have f: "super s fp" "chain (view s) (sb_count (bdata s fp)) (sb_entry (bdata s fp)) xs"
    "\<forall>b \<in> set xs. data_block s fp b \<and> unheld s b" using assms(3) by (simp_all add: freelist_def)
  have "xs = [] \<or> 0 + int (length xs) \<le> wswap_int32 (s_fsize (bdata s fp))" using freelist_size [OF assms(3)] by simp
  then show ?thesis
    using count_free_ok [OF assms(1) f(1) assms(2,4,5) f(2,3), of 0 0] by (auto simp: quiet_def sb_count_def sb_entry_def)
qed

theorem statfs_counts_free_witness:
  "\<exists>n e t. count_free demo_fp n e 0 0 demo_fs = Some (Inr 1, t)"
proof -
  have "v7_rootdev demo_fs = 0" "uerror demo_fs = 0" using demo_fs_rootdev demo_fs_facts(6) by (simp_all add: zero_user_def)
  then show ?thesis
    using statfs_counts_free [of demo_fs demo_fp "[10]"] demo_fs_inv by (force simp: fs_inv_def)
qed


section \<open>A new file system\<close>

text \<open>
  C10. The free list that \<open>v7fs_mkfs\<close> builds: with the superblock set up and mounted by \<open>mkfs_mount\<close>,
  \<open>v7fs_initfreelist\<close> returns, for every cycle length from 1 to the 500 entries of its tables, with a well
  formed list without repetition whose blocks are those after the inode table, without the last block of the
  disk where the cycle length divides \<open>fssize - 1\<close>. The cycle length that \<open>v7fs_mkfs\<close> passes, \<open>mkfs_fn\<close> of
  any parameter, is within these bounds.
\<close>

theorem mkfs_free_list:
  assumes "cache_ok s" "busy s = {}" "v7_rootdev s = 0" "\<forall>b. 0 \<le> b \<longrightarrow> b < fssize \<longrightarrow> dsk_inrange s b"
    "0 \<le> isize" "isize \<le> 8192" "0 < fssize" "fssize \<le> 16777215"
    "0 < unat n" "unat n \<le> V7FS_MAXFN" "0 \<le> fln" "fln < 65536"
  shows "(\<exists>fp t u xs. mkfs_mount fssize isize fn fm s = Some (fp, t) \<and> v7fs_initfreelist fp n m t = Some u
    \<and> cache_ok u \<and> freelist u fp xs \<and> distinct xs
    \<and> set xs = {isize + 2..<(if (fssize - 1) mod int (unat n) = 0 then fssize - 1 else fssize)})
    \<and> 0 < unat (word_of_int (mkfs_fn fln) :: 16 word) \<and> unat (word_of_int (mkfs_fn fln) :: 16 word) \<le> V7FS_MAXFN"
proof -
  obtain fp t where t: "mkfs_mount fssize isize fn fm s = Some (fp, t)" "fl_inv fp (isize + 2) fssize t []"
    using mkfs_mount_ok [OF assms(1-3) _ assms(5,6) _ assms(8)] assms(4,7) by fastforce
  obtain u xs where u: "v7fs_initfreelist fp n m t = Some u" "fl_inv fp (isize + 2) fssize u xs" "distinct xs"
    "set xs = {b. isize + 2 \<le> b \<and> b < fssize \<and> b < fssize - 1 + (1 - fssize) mod int (unat n)}"
    using initfreelist_ok [OF t(2) assms(9,10,7,8)] by blast
  have e: "set xs = {isize + 2..<(if (fssize - 1) mod int (unat n) = 0 then fssize - 1 else fssize)}"
    unfolding u(4) by (rule initfreelist_range) (simp only: of_nat_0_less_iff assms(9))
  show ?thesis using t(1) u(1-3) e mkfs_fn_bounds [OF assms(11,12)] unfolding fl_inv_def fs_inv_def by blast
qed

lemma demo_mkfs: "\<forall>b. 0 \<le> b \<longrightarrow> b < 64 \<longrightarrow> dsk_inrange demo b"
  by (simp add: demo_inrange)

theorem mkfs_free_list_witness:
  "\<exists>fp t u xs. mkfs_mount 64 2 7 3 demo = Some (fp, t) \<and> v7fs_initfreelist fp 7 3 t = Some u \<and> freelist u fp xs
    \<and> set xs = {4..<63}"
  using mkfs_free_list [OF demo_cache_ok demo_binit(2,10) demo_mkfs, of 2 7 7 7 3 3] by auto

text \<open>
  C11. The order in which the blocks of one cycle are put on the list is a permutation of the cycle, for
  every step and every cycle length up to the size of the tables \<open>flg\<close> and \<open>adr\<close>; a longer one stores
  outside of them.
\<close>

theorem interleave_permutes:
  "if unat n \<le> V7FS_MAXFN then \<exists>adr. interleave n m = Some adr \<and> distinct adr \<and> set adr = {1..unat n}
   else interleave n m = None"
  using interleave_perm [of n m] by (simp add: interleave_def)

theorem interleave_permutes_witness:
  "(\<exists>adr. interleave 224 16 = Some adr \<and> distinct adr \<and> set adr = {1..224}) \<and> interleave 501 3 = None"
  using interleave_permutes [of 224 16] interleave_permutes [of 501 3] by simp

text \<open>
  C12. \<open>v7fs_mkfs\<close> reports the errors of its arguments only. Once they pass, the call is the building of the
  file system and a return of 0, whatever the building left in \<open>u_error\<close>, because the core is cleared
  before \<open>u_error\<close> is read. There is such an error: on a disk that refuses the next call, the building of the
  smallest file system ends with \<open>EIO\<close> and the image file as it was, and \<open>v7fs_mkfs\<close> returns 0.
\<close>

theorem mkfs_hides_errors:
  assumes "\<not> v7fs_initialized s"
  shows "(5 \<le> fssize \<longrightarrow> fssize \<le> 16777215 \<longrightarrow> 1 \<le> mkfs_isize fssize isize \<longrightarrow> mkfs_isize fssize isize \<le> 8192 \<longrightarrow>
       mkfs_isize fssize isize \<le> fssize - 4 \<longrightarrow>
       v7fs_mkfs fssize isize fln flm s = map_option (\<lambda>u. (0, v7_zerocore u))
         (mkfs_build fssize (mkfs_isize fssize isize) (mkfs_fn fln) (mkfs_fm fln flm) (mkfs_core s)))
    \<and> ((\<forall>p. b_error (v7_buf s p) = 0 \<and> b_resid (v7_buf s p) = 0) \<longrightarrow> B_TAPE \<notin> bflags s Rootdsktab \<longrightarrow>
       dsk_inrange s 3 \<longrightarrow> 0 \<le> dsk_fd (dsk s) \<longrightarrow> h_fault (host s) (h_op (host s)) = Some (Errno e) \<longrightarrow> e \<noteq> 0 \<longrightarrow>
       (\<exists>u. mkfs_build 5 1 2 1 (mkfs_core s) = Some u \<and> uerror u = EIO \<and> h_file (host u) = h_file (host s)
          \<and> v7fs_mkfs 5 1 2 1 s = Some (0, v7_zerocore u)))"
proof (intro conjI impI)
  assume "\<forall>p. b_error (v7_buf s p) = 0 \<and> b_resid (v7_buf s p) = 0" "B_TAPE \<notin> bflags s Rootdsktab" "dsk_inrange s 3"
    "0 \<le> dsk_fd (dsk s)" "h_fault (host s) (h_op (host s)) = Some (Errno e)" "e \<noteq> 0"
  then show "\<exists>u. mkfs_build 5 1 2 1 (mkfs_core s) = Some u \<and> uerror u = EIO \<and> h_file (host u) = h_file (host s)
      \<and> v7fs_mkfs 5 1 2 1 s = Some (0, v7_zerocore u)"
    using mkfs_fault [OF assms, of e] by auto
qed (use assms in \<open>simp add: v7fs_mkfs_def map_conv_bind_option comp_def v7_zerocore_def zero_user_def\<close>)

theorem mkfs_hides_errors_witness:
  "\<exists>u. mkfs_build 5 1 2 1 (mkfs_core demo_refusing) = Some u \<and> uerror u = EIO
    \<and> v7fs_mkfs 5 1 2 1 demo_refusing = Some (0, v7_zerocore u)"
  using mkfs_hides_errors [of demo_refusing 5 1 2 1 EIO]
  by (simp add: demo_refusing_def demo_core_def Let_def demo_host_def demo_buf_def dsk_inrange_def
      mkfs_isize_def mkfs_fn_def mkfs_fm_def) blast


section \<open>Inodes\<close>

text \<open>
  C13. From the last \<open>iput\<close> of a changed inode to the next \<open>iget\<close> of its number: both return, and the inode
  in core has the mode, the link count, the owner, the size and the block addresses that were put.
\<close>

theorem inode_round_trip:
  assumes "cache_ok s" "super s fp" "sb_count (bdata s fp) \<le> NICFREE" "wswap_int16 (s_ninode (bdata s fp)) \<le> NICINOD"
    "s_ronly (bdata s fp) = 0"
    "v7_inode s ip = i" "i_dev i = 0" "i_flag i \<inter> {IUPD, IACC, ICHG} \<noteq> {}" "i_count i = 1" "0 < i_nlink i"
    "room s (itod (i_number i))" "dsk_inrange s (itod (i_number i))"
    "dinode_ok i" "1 \<le> i_number i" "i_number i < 65521" "ip < NINODE"
    "\<forall>j < NINODE. j \<noteq> ip \<longrightarrow> i_number (v7_inode s j) \<noteq> i_number i"
  shows "\<exists>t jp u. iput ip s = Some t \<and> iget 0 (i_number i) t = Some (Some jp, u)
    \<and> (let j = v7_inode u jp in i_number j = i_number i \<and> i_mode j = i_mode i \<and> i_nlink j = i_nlink i \<and> i_uid j = i_uid i
        \<and> i_gid j = i_gid i \<and> i_size j = i_size i \<and> (\<forall>k < NADDR. i_addr j k = i_addr i k))"
  by (rule iput_iget [OF assms])

lemma demo_inode_ok: "dinode_ok demo_inode"
  by (simp add: dinode_ok_def demo_inode_def s16_id s32_id)

theorem inode_round_trip_witness:
  "\<exists>t jp u. iput 0 demo_ino = Some t \<and> iget 0 3 t = Some (Some jp, u) \<and> i_size (v7_inode u jp) = 5632
    \<and> i_addr (v7_inode u jp) 10 = 13"
proof (rule demo_super_at)
  fix d assume d: "bdata demo_fs demo_fp = demo_super d"
  have n: "i_number demo_inode = 3" "itod 3 = 2" by (simp_all add: demo_inode_def itod_def u16_id)
  have "\<exists>t jp u. iput 0 demo_ino = Some t \<and> iget 0 (i_number demo_inode) t = Some (Some jp, u)
    \<and> (let j = v7_inode u jp in i_number j = i_number demo_inode \<and> i_mode j = i_mode demo_inode \<and> i_nlink j = i_nlink demo_inode
        \<and> i_uid j = i_uid demo_inode \<and> i_gid j = i_gid demo_inode \<and> i_size j = i_size demo_inode
        \<and> (\<forall>k < NADDR. i_addr j k = i_addr demo_inode k))"
    by (rule inode_round_trip [OF demo_ino_facts(1,3)])
      (simp_all add: demo_ino_facts d demo_super_fields n demo_inode_ok, simp_all add: demo_inode_def zero_inode_def)
  then show ?thesis by (auto simp: Let_def n) (auto simp: demo_inode_def)
qed

text \<open>
  C14. \<open>iupdat\<close> changes the disk in one place: the bytes of the inode itself. The other seven inodes of the
  block expand as before, and no other block changes.
\<close>

theorem iupdat_changes_one_inode:
  assumes "cache_ok s" "super s fp" "sb_count (bdata s fp) \<le> NICFREE" "wswap_int16 (s_ninode (bdata s fp)) \<le> NICINOD"
    "s_ronly (bdata s fp) = 0"
    "v7_inode s ip = i" "i_dev i = 0" "i_flag i \<inter> {IUPD, IACC, ICHG} \<noteq> {}"
    "room s (itod (i_number i))" "dsk_inrange s (itod (i_number i))"
  shows "\<exists>t. iupdat ip ta tm s = Some t \<and> cache_ok t \<and> busy t = busy s \<and> i_flag (v7_inode t ip) \<inter> {IUPD, IACC, ICHG} = {}
    \<and> (\<forall>c. dsk_inrange s c \<longrightarrow> c \<noteq> itod (i_number i) \<longrightarrow> view t c = view s c)
    \<and> (\<forall>m < 8. m \<noteq> itoo (i_number i) \<longrightarrow>
         iexpand (view t (itod (i_number i))) (64 * m) jp = iexpand (view s (itod (i_number i))) (64 * m) jp)"
proof -
  obtain t now where t: "iupdat ip ta tm s = Some t" "cache_ok t" "busy t = busy s"
    "v7_inode t = (v7_inode s)(ip := i\<lparr>i_flag := i_flag i - {IUPD, IACC, ICHG}\<rparr>)"
    "\<And>c. dsk_inrange s c \<Longrightarrow> view t c = (if c = itod (i_number i)
         then trunc_blk (dinode_bytes i (time_at ta now) (time_at tm now) now (view s c)) else view s c)"
    using iupdat_ok [OF assms] by metis
  then show ?thesis using iexpand_other [of _ i] assms(10) by auto
qed

theorem iupdat_changes_one_inode_witness:
  "\<exists>t. iupdat 0 Time Time demo_ino = Some t \<and> iexpand (view t 2) (64 * 1) zero_inode = iexpand (view demo_ino 2) (64 * 1) zero_inode"
proof (rule demo_super_at)
  fix d assume d: "bdata demo_fs demo_fp = demo_super d"
  have n: "i_number demo_inode = 3" "itod 3 = 2" "itoo 3 = 2" by (simp_all add: demo_inode_def itod_def itoo_def u16_id)
  have "\<exists>t. iupdat 0 Time Time demo_ino = Some t \<and> cache_ok t \<and> busy t = busy demo_ino
    \<and> i_flag (v7_inode t 0) \<inter> {IUPD, IACC, ICHG} = {}
    \<and> (\<forall>c. dsk_inrange demo_ino c \<longrightarrow> c \<noteq> itod (i_number demo_inode) \<longrightarrow> view t c = view demo_ino c)
    \<and> (\<forall>m < 8. m \<noteq> itoo (i_number demo_inode) \<longrightarrow> iexpand (view t (itod (i_number demo_inode))) (64 * m) zero_inode
         = iexpand (view demo_ino (itod (i_number demo_inode))) (64 * m) zero_inode)"
    by (rule iupdat_changes_one_inode [OF demo_ino_facts(1,3)])
      (simp_all add: demo_ino_facts d demo_super_fields n, simp_all add: demo_inode_def)
  then show ?thesis unfolding n by (elim exE conjE allE [of _ 1]) auto
qed


section \<open>The contents of files\<close>

text \<open>
  C15. A file has 2113674 addressable blocks. Outside that range \<open>bmap\<close>, for reading and for writing, returns
  0 with \<open>EFBIG\<close> and touches no block. Inside it no two file blocks share a block of the disk: with a free block for
  each empty place on the way, \<open>bmap\<close> for writing at two different file blocks gives two different addresses, through the
  indirect blocks where they lie behind them, and \<open>bmap\<close> for reading then finds both.
\<close>

theorem bmap_range:
  "(bn < 0 \<or> 2113674 \<le> bn \<longrightarrow> (\<exists>r. bmap ip bn rd s = Some (0, set_error EFBIG (s\<lparr>v7_rablock := r\<rparr>))))
   \<and> (0 \<le> m \<and> m < 2113674 \<longrightarrow> 0 \<le> n \<and> n < 2113674 \<longrightarrow> m \<noteq> n \<longrightarrow>
      file_inv fp ip (write_places (512 * m) 1 \<union> write_places (512 * n) 1) xs s \<longrightarrow>
      (\<exists>a b t u v w. bmap ip m False s = Some (a, t) \<and> bmap ip n False t = Some (b, u) \<and> 0 < a \<and> 0 < b \<and> a \<noteq> b
         \<and> bmap ip m True u = Some (a, v) \<and> bmap ip n True u = Some (b, w)))"
proof (intro conjI impI)
  assume "bn < 0 \<or> 2113674 \<le> bn"
  then have "bmap_path bn = None" by (auto simp: bmap_path_def)
  then show "\<exists>r. bmap ip bn rd s = Some (0, set_error EFBIG (s\<lparr>v7_rablock := r\<rparr>))" by (rule bmap_efbig)
next
  assume mn: "0 \<le> m \<and> m < 2113674" "0 \<le> n \<and> n < 2113674" "m \<noteq> n"
    and I: "file_inv fp ip (write_places (512 * m) 1 \<union> write_places (512 * n) 1) xs s"
  have "bmap_path m \<noteq> None" "bmap_path n \<noteq> None" using mn by (simp_all add: bmap_path_def)
  then show "\<exists>a b t u v w. bmap ip m False s = Some (a, t) \<and> bmap ip n False t = Some (b, u) \<and> 0 < a \<and> 0 < b \<and> a \<noteq> b
      \<and> bmap ip m True u = Some (a, v) \<and> bmap ip n True u = Some (b, w)"
    by (rule bmap_two_blocks [OF I _ _ mn(3)])
qed

theorem bmap_range_witness:
  "(\<exists>r. bmap 0 2113674 False demo_open = Some (0, set_error EFBIG (demo_open\<lparr>v7_rablock := r\<rparr>)))
   \<and> (\<exists>a b t u v w. bmap 0 0 False demo_open = Some (a, t) \<and> bmap 0 10 False t = Some (b, u) \<and> 0 < a \<and> 0 < b \<and> a \<noteq> b
         \<and> bmap 0 0 True u = Some (a, v) \<and> bmap 0 10 True u = Some (b, w))"
  using bmap_range [of 2113674 0 False demo_open 0 10 demo_fp "[10]"] demo_file_inv_indirect by simp

text \<open>
  C16. \<open>v7fs_pread\<close> on a descriptor that is open for reading on a file or a directory delivers the file:
  it returns, the result is the number of bytes asked for, cut at the end of the file, the caller's memory
  holds the bytes of the file from the offset on with zeros for holes and is otherwise unchanged, no
  block changes, and the position of the descriptor is after the last byte read. The number is any
  size: the transfer goes in pieces of 65535 bytes and each of these in blocks, with read-ahead.
\<close>

theorem pread_delivers_file:
  assumes "cache_ok s" "\<forall>p. insert p (busy s) \<noteq> pool" "open_for_read s fd fp ip" "0 \<le> off" "off < 2147483648"
    "file_readable s ip off (min (int n) (i_size (v7_inode s ip) - off))"
    "k = nat (min (int n) (i_size (v7_inode s ip) - off))"
  shows "\<exists>t. v7fs_pread fd (Umem a) n off s = Some (int k, t)
    \<and> (\<forall>i < k. h_umem (host t) (a + i) = file_byte (view s) (i_addr (v7_inode s ip)) (off + int i))
    \<and> (\<forall>x. x < a \<or> a + k \<le> x \<longrightarrow> h_umem (host t) x = h_umem (host s) x)
    \<and> f_offset (v7_file t fp) = off + int k \<and> cache_ok t \<and> (\<forall>c. dsk_inrange s c \<longrightarrow> view t c = view s c)"
proof -
  obtain t where "v7fs_pread fd (Umem a) n off s = Some (int k, t)" "alike s t" "f_offset (v7_file t fp) = off + int k"
    "h_umem (host t) = filled (file_byte (view s) (i_addr (v7_inode s ip))) a k off (h_umem (host s))"
    using v7fs_pread_ok [OF assms(1) assms(2) [rule_format] assms(3-7)] by blast
  then show ?thesis by (auto simp: filled_def alike_def)
qed

theorem pread_delivers_file_witness:
  "\<exists>t. v7fs_pread 0 (Umem 100) 6000 512 demo_open = Some (5120, t) \<and> f_offset (v7_file t 0) = 5632"
proof -
  have i: "v7_inode demo_open 0 = demo_inode" "i_size demo_inode = 5632" using demo_open_facts(4) by (simp_all add: demo_inode_def)
  have "\<exists>t. v7fs_pread 0 (Umem 100) 6000 512 demo_open = Some (int 5120, t)
    \<and> (\<forall>i < 5120. h_umem (host t) (100 + i) = file_byte (view demo_open) (i_addr (v7_inode demo_open 0)) (512 + int i))
    \<and> (\<forall>x. x < 100 \<or> 100 + 5120 \<le> x \<longrightarrow> h_umem (host t) x = h_umem (host demo_open) x)
    \<and> f_offset (v7_file t 0) = 512 + int 5120 \<and> cache_ok t \<and> (\<forall>c. dsk_inrange demo_open c \<longrightarrow> view t c = view demo_open c)"
  proof (rule pread_delivers_file [OF demo_open_facts(1) _ demo_open_facts(3)])
    show "file_readable demo_open 0 512 (min (int 6000) (i_size (v7_inode demo_open 0) - 512))"
      using i demo_readable by (auto simp: file_readable_def)
  qed (use i demo_open_facts(2) in auto)
  then show ?thesis by auto
qed


text \<open>
  C17. \<open>v7fs_pwrite\<close> puts the caller's bytes into the file. The file system has a free list; the blocks of the file
  belong to it, are not free and occur once in the tree of the inode and its indirect blocks; and there is a free block for
  each place, on the way to the blocks of the range, that is empty. Then a write of any number of bytes inside the largest
  file returns their number, the bytes of the file are those of the memory in the range and all others are as before
  (zeros in new blocks), the size grows to the end of the range where it was smaller, the blocks of other files and the
  other inodes do not change, and the blocks that were used are from the front of the free list; the condition holds again.
\<close>

theorem pwrite_updates_file:
  assumes "file_inv fp ip (write_places off (int n)) xs s" "open_for_write s fd f ip" "0 \<le> off" "off + int n \<le> 1082201088"
  shows "\<exists>t ys. v7fs_pwrite fd (Umem a) n off s = Some (int n, t)
    \<and> (\<forall>x. 0 \<le> x \<longrightarrow> x < 1082201088 \<longrightarrow> file_byte (view t) (i_addr (v7_inode t ip)) x
        = (if off \<le> x \<and> x < off + int n then h_umem (host s) (a + nat (x - off)) else file_byte (view s) (i_addr (v7_inode s ip)) x))
    \<and> i_size (v7_inode t ip) = (if n = 0 then i_size (v7_inode s ip) else max (i_size (v7_inode s ip)) (off + int n))
    \<and> f_offset (v7_file t f) = off + int n \<and> suffix ys xs \<and> file_inv fp ip (write_places off (int n)) ys t
    \<and> (\<forall>c. dsk_inrange s c \<longrightarrow> c \<notin> set xs \<longrightarrow> c \<notin> tb s ip \<longrightarrow> view t c = view s c)
    \<and> (\<forall>j. j \<noteq> ip \<longrightarrow> v7_inode t j = v7_inode s j)"
proof -
  have o: "off + int n < 2147483648" using assms(4) by simp
  obtain t ys where t: "v7fs_pwrite fd (Umem a) n off s = Some (int n, t)" "file_inv fp ip (write_places off (int n)) ys t"
    "within ip xs ys s t" "v7_file t = (v7_file s)(f := (v7_file s f)\<lparr>f_offset := off + int n\<rparr>)"
    "rewritten ip (h_umem (host s)) a n off s t"
    using v7fs_pwrite_ok [OF assms(1-3) o covers_write_places [OF assms(3,4)]] by blast
  then show ?thesis using bmap_path_inside unfolding rewritten_def within_def by (intro exI [of _ t] exI [of _ ys]) simp
qed

theorem pwrite_updates_file_witness:
  "\<exists>t. v7fs_pwrite 0 (Umem 300) 100 500 demo_open = Some (100, t) \<and> i_size (v7_inode t 0) = 5632
    \<and> file_byte (view t) (i_addr (v7_inode t 0)) 599 = h_umem (host demo_open) 399"
proof -
  have i: "i_size (v7_inode demo_open 0) = 5632" using demo_open_facts(4) by (simp add: demo_inode_def)
  have I: "file_inv demo_fp 0 (write_places 500 (int 100)) [10] demo_open" using demo_file_inv by (simp add: demo_places)
  obtain t where t: "v7fs_pwrite 0 (Umem 300) 100 500 demo_open = Some (int 100, t)"
    "\<forall>x. 0 \<le> x \<longrightarrow> x < 1082201088 \<longrightarrow> file_byte (view t) (i_addr (v7_inode t 0)) x
        = (if 500 \<le> x \<and> x < 500 + int 100 then h_umem (host demo_open) (300 + nat (x - 500))
           else file_byte (view demo_open) (i_addr (v7_inode demo_open 0)) x)"
    "i_size (v7_inode t 0) = (if (100::nat) = 0 then i_size (v7_inode demo_open 0) else max (i_size (v7_inode demo_open 0)) (500 + int 100))"
    using pwrite_updates_file [OF I demo_open_write, of 300] by auto
  then show ?thesis using i t(2) [rule_format, of 599] by auto
qed

text \<open>
  C18. What was written is read back: after \<open>v7fs_pwrite\<close> a \<open>v7fs_pread\<close> of the same range through the same descriptor returns the
  same number and leaves at its address the bytes that the write took from the caller's memory, with the transfers cut into
  pieces and blocks, allocation on the way and the cache in between.
\<close>

theorem write_then_read:
  assumes "file_inv fp ip (write_places off (int n)) xs s" "open_for_write s fd f ip" "open_for_read s fd f ip" "0 \<le> off"
    "off + int n \<le> 1082201088"
  shows "\<exists>t u. v7fs_pwrite fd (Umem a) n off s = Some (int n, t) \<and> v7fs_pread fd (Umem a') n off t = Some (int n, u)
    \<and> (\<forall>i < n. h_umem (host u) (a' + i) = h_umem (host s) (a + i))"
proof -
  have o: "off + int n < 2147483648" "off < 2147483648" using assms(4,5) by simp_all
  obtain t ys where t: "v7fs_pwrite fd (Umem a) n off s = Some (int n, t)" "file_inv fp ip (write_places off (int n)) ys t"
    "within ip xs ys s t" "u_ofile (v7_u t) = u_ofile (v7_u s)" "v7_file t = (v7_file s)(f := (v7_file s f)\<lparr>f_offset := off + int n\<rparr>)"
    "rewritten ip (h_umem (host s)) a n off s t"
    using v7fs_pwrite_ok [OF assms(1,2,4) o(1) covers_write_places [OF assms(4,5)]] by blast
  have r: "open_for_read t fd f ip" by (rule rewritten_open [OF t(6,3,4,5) assms(3) o(1)])
  have m: "min (int n) (i_size (v7_inode t ip) - off) = int n \<or> n = 0" using t(6) by (auto simp: rewritten_def)
  have fr: "file_readable t ip off (min (int n) (i_size (v7_inode t ip) - off))"
    unfolding file_readable_def using file_inv_readable [OF t(2)] bmap_path_inside assms(4,5) by simp
  have n: "n = nat (min (int n) (i_size (v7_inode t ip) - off))" using m by auto
  obtain u where u: "v7fs_pread fd (Umem a') n off t = Some (int n, u)"
    "h_umem (host u) = filled (file_byte (view t) (i_addr (v7_inode t ip))) a' n off (h_umem (host t))"
    using v7fs_pread_ok [OF file_invD(1,2) [OF t(2)] r assms(4) o(2) fr n] by blast
  have "h_umem (host u) (a' + i) = h_umem (host s) (a + i)" if "i < n" for i
    using that t(6) bmap_path_inside [of "off + int i"] assms(4,5) by (simp add: u(2) filled_def rewritten_def)
  then show ?thesis using t(1) u(1) by blast
qed

theorem write_then_read_witness:
  "\<exists>t u. v7fs_pwrite 0 (Umem 300) 100 500 demo_open = Some (100, t) \<and> v7fs_pread 0 (Umem 900) 100 500 t = Some (100, u)
    \<and> h_umem (host u) 999 = h_umem (host demo_open) 399"
proof -
  have I: "file_inv demo_fp 0 (write_places 500 (int 100)) [10] demo_open" using demo_file_inv by (simp add: demo_places)
  obtain t u where t: "v7fs_pwrite 0 (Umem 300) 100 500 demo_open = Some (int 100, t)" "v7fs_pread 0 (Umem 900) 100 500 t = Some (int 100, u)"
    "\<forall>i < 100. h_umem (host u) (900 + i) = h_umem (host demo_open) (300 + i)"
    using write_then_read [OF I demo_open_write demo_open_facts(3), of 300 900] by auto
  have "h_umem (host u) 999 = h_umem (host demo_open) 399" using t(3) [rule_format, of 99] by simp
  then show ?thesis using t(1,2) by auto
qed

text \<open>
  C19. A write past the largest file is not refused cleanly. \<open>writei\<close> ends with \<open>EFBIG\<close>, but on the way it takes the block 0 that
  \<open>bmap\<close> returns with the error: the size of the file has become the end of the first piece, and where the piece is less than
  a block, a buffer labelled with block 0 holds the caller's bytes, is marked valid and was released.
\<close>

theorem write_past_largest_file:
  assumes "cache_ok s" "room s 0" "is_file (v7_inode s ip)" "i_size (v7_inode s ip) < off" "u_base (v7_u s) = Umem a" "u_offset (v7_u s) = off"
    "u_count (v7_u s) = cnt" "1082201088 \<le> off" "0 < cnt" "cnt < 65536" "off + cnt < 2147483648" "n = min (512 - off mod 512) cnt"
  shows "\<exists>t. writei ip s = Some t \<and> uerror t = EFBIG \<and> u_count (v7_u t) = cnt - n \<and> i_size (v7_inode t ip) = off + n
    \<and> (n < 512 \<longrightarrow> (\<exists>p \<in> pool. buf_tag t p = Some 0 \<and> B_DONE \<in> bflags t p \<and> B_BUSY \<notin> bflags t p
        \<and> (\<forall>j < nat n. bdata t p (nat (off mod 512) + j) = h_umem (host s) (a + j))))"
  using writei_efbig [OF assms(1,2) _ assms(4) _ assms(5-12)] assms(3) by (simp add: is_file_def)

theorem write_past_largest_file_witness:
  "\<exists>s t. writei 0 s = Some t \<and> uerror s = 0 \<and> uerror t = EFBIG \<and> i_size (v7_inode s 0) = 5632 \<and> i_size (v7_inode t 0) = 1082201188"
proof -
  let ?s = "upd_u (\<lambda>u. u\<lparr>u_base := Umem 0, u_offset := 1082201088, u_count := 100\<rparr>) demo_ino"
  have S: "same_store demo_ino ?s" by (simp add: same_store_def upd_u_def)
  have i: "v7_inode ?s = (\<lambda>_. zero_inode)(0 := demo_inode)" "v7_buf ?s = v7_buf demo_ino" "uerror ?s = 0"
    using demo_ino_facts(6) demo_fs_facts(6) by (simp_all add: upd_u_def demo_ino_def upd_inode_def zero_user_def)
  have c: "cache_ok ?s" "room ?s 0" using same_store_cong(1,3) [OF S] demo_ino_facts(1) demo_ino_facts(8) [of 0] i(2) by (auto simp: room_def cached_def split: option.splits)
  have "\<exists>t. writei 0 ?s = Some t \<and> uerror t = EFBIG \<and> u_count (v7_u t) = 100 - 100 \<and> i_size (v7_inode t 0) = 1082201088 + 100
    \<and> ((100::int) < 512 \<longrightarrow> (\<exists>p \<in> pool. buf_tag t p = Some 0 \<and> B_DONE \<in> bflags t p \<and> B_BUSY \<notin> bflags t p
        \<and> (\<forall>j < nat 100. bdata t p (nat (1082201088 mod 512) + j) = h_umem (host ?s) (0 + j))))"
    by (rule write_past_largest_file [OF c]) (use i(1) in \<open>simp_all add: upd_u_def is_file_def demo_inode_def\<close>)
  moreover have "i_size (v7_inode ?s 0) = 5632" using i(1) by (simp add: demo_inode_def)
  ultimately show ?thesis using i(3) by fastforce
qed


section \<open>Names, permissions and descriptors\<close>

text \<open>
  C20. \<open>namei\<close> takes one component off the path in front of it: the characters up to the next slash go
  to \<open>u_dbuf\<close>, cut at 14 and padded with zeros, all the slashes that follow are skipped, the search goes
  on with the first character after them, and nothing else of the state changes.
\<close>

theorem namei_takes_component:
  assumes "at_path (nm @ replicate m (CHR ''/'') @ rest) s" "nm \<noteq> []" "CHR ''/'' \<notin> set nm"
    "CHR 0x00 \<notin> set (nm @ rest)" "0 < m \<or> rest = []" "rest = [] \<or> hd rest \<noteq> CHR ''/''" "uerror s = 0"
  shows "namei_comp schar (head_code (nm @ replicate m (CHR ''/'') @ rest)) s
    = Some (C_search (head_code rest), set_dbuf (padded nm (u_dbuf (v7_u s))) (set_path rest s))"
  by (rule namei_comp_path [OF assms])

theorem namei_takes_component_witness:
  "\<exists>t. namei_comp schar (head_code ''usr//bin'') (set_path ''usr//bin'' demo) = Some (C_search (head_code ''bin''), t)
    \<and> u_dirp (v7_u t) = Some ''in'' \<and> u_dbuf (v7_u t) 2 = 114 \<and> u_dbuf (v7_u t) 3 = 0"
proof -
  let ?s = "set_path ''usr//bin'' demo"
  have p: "''usr//bin'' = ''usr'' @ replicate 2 (CHR ''/'') @ ''bin''" by (simp add: numeral_2_eq_2)
  have "namei_comp schar (head_code (''usr'' @ replicate 2 (CHR ''/'') @ ''bin'')) ?s
    = Some (C_search (head_code ''bin''), set_dbuf (padded ''usr'' (u_dbuf (v7_u ?s))) (set_path ''bin'' ?s))"
    by (rule namei_takes_component) (simp_all add: at_path_def set_path_def upd_u_def numeral_2_eq_2 demo_binit(8) zero_user_def)
  then show ?thesis unfolding p [symmetric] by (auto simp: padded_def set_dbuf_def set_path_def upd_u_def)
qed

text \<open>
  C21. \<open>access\<close> is the test of one bit of the mode: with \<open>k\<close> 2 for reading, 1 for writing and 0 for
  execution, bit \<open>6 + k\<close> for the owner, \<open>3 + k\<close> for the group, \<open>k\<close> for the others; the superuser passes.
  A refusal sets \<open>EACCES\<close> and nothing else changes. (Writing: on a file system that is not read-only, a file
  whose text is not in use.)
\<close>

theorem access_is_mode_bit:
  assumes "k < 3" "k = 1 \<longrightarrow> getfs (i_dev (v7_inode s ip)) s = Some (fp, s) \<and> s_ronly (bdata s fp) = 0 \<and> ITEXT \<notin> i_flag (v7_inode s ip)"
  shows "access ip (2 ^ (6 + k)) s = (if u_uid (v7_u s) = 0 \<or> bit (i_mode (v7_inode s ip))
      ((if u_uid (v7_u s) = i_uid (v7_inode s ip) then 6 else if u_gid (v7_u s) = i_gid (v7_inode s ip) then 3 else 0) + k)
    then Some (False, s) else Some (True, set_error EACCES s))"
proof -
  have "3 * caller_class s ip + k = (if u_uid (v7_u s) = i_uid (v7_inode s ip) then 6 else if u_gid (v7_u s) = i_gid (v7_inode s ip) then 3 else 0) + k"
    by (simp add: caller_class_def)
  then show ?thesis using access_bits [OF assms(1), of s ip fp] assms(2) by (simp add: may_def)
qed

theorem access_is_mode_bit_witness:
  "\<exists>s. access 0 256 s = Some (False, s) \<and> access 0 64 s = Some (True, set_error EACCES s)"
proof -
  let ?s = "upd_u (\<lambda>u. u\<lparr>u_uid := 7\<rparr>) demo_ino"
  have f: "i_mode (v7_inode ?s 0) = 33188" "i_uid (v7_inode ?s 0) = 7" "u_uid (v7_u ?s) = 7"
    using demo_ino_facts(6) by (simp_all add: upd_u_def demo_inode_def)
  have b: "bit (33188::int) 8" "\<not> bit (33188::int) 6" by (simp_all add: bit_iff_odd)
  have "access 0 256 ?s = Some (False, ?s)" using access_is_mode_bit [of 2 ?s 0] f b by simp
  moreover have "access 0 64 ?s = Some (True, set_error EACCES ?s)" using access_is_mode_bit [of 0 ?s 0] f b by simp
  ultimately show ?thesis by blast
qed

text \<open>
  C22. The count of an entry of the file table is the number of descriptors that point at it, and \<open>falloc\<close>
  keeps it so: it returns the lowest free descriptor with an entry that no descriptor had, at position 0.
\<close>

theorem falloc_keeps_counts:
  assumes "files_ok s" "falloc s = (Some fp, t)"
  shows "files_ok t \<and> (\<exists>i < NOFILE. r_val1 (v7_u t) = int i \<and> u_ofile (v7_u s) i = None \<and> (\<forall>j < i. u_ofile (v7_u s) j \<noteq> None)
      \<and> u_ofile (v7_u t) = (u_ofile (v7_u s))(i \<mapsto> fp)) \<and> fp < NFILE \<and> fd_count s fp = 0 \<and> f_offset (v7_file t fp) = 0"
  by (rule falloc_ok [OF assms])

lemma demo_files_ok: "files_ok demo"
  using demo_files by (simp add: files_ok_def fd_count_def demo_binit(8) zero_user_def zero_file_def)

theorem falloc_keeps_counts_witness: "\<exists>fp t. falloc demo = (Some fp, t) \<and> files_ok t"
proof -
  have "\<exists>fp t. falloc demo = (Some fp, t)"
    using demo_files by (simp add: falloc_def ufalloc_def demo_binit(8) zero_user_def zero_file_def upd_u_def upt_conv_Cons)
  then show ?thesis using falloc_keeps_counts [OF demo_files_ok] by blast
qed

lemma uid_last:
  "Option.bind A (\<lambda>(x, y). Option.bind (B x y) (\<lambda>(res, s). Some (res, set_uid u s))) = Some (r, t) \<Longrightarrow> u_uid (v7_u t) = u"
  "Option.bind C (\<lambda>(x, y, z). Option.bind (D x y z) (\<lambda>(res, s). Some (res, set_uid u s))) = Some (r, t) \<Longrightarrow> u_uid (v7_u t) = u"
  by (auto simp: bind_eq_Some_conv set_uid_def upd_u_def)

text \<open>
  C23. \<open>v7fs_mkdir\<close>, \<open>v7fs_rmdir\<close> and \<open>v7fs_rename\<close> save the effective user id in a \<open>char\<close>: when they
  return, the id of the caller is cut to eight bits, so that an id above 127 becomes a different one.
\<close>

theorem directory_calls_cut_uid:
  "(v7fs_mkdir p mode s = Some (r, t) \<longrightarrow> u_uid (v7_u t) = s8 (u_uid (v7_u s)))
   \<and> (v7fs_rmdir p s = Some (r, t) \<longrightarrow> u_uid (v7_u t) = s8 (u_uid (v7_u s)))
   \<and> (v7fs_rename p q s = Some (r, t) \<longrightarrow> u_uid (v7_u t) = s8 (u_uid (v7_u s)))"
  unfolding v7fs_mkdir_def v7fs_rmdir_def v7fs_rename_def Let_def
  by (intro conjI impI; erule uid_last)

theorem directory_calls_cut_uid_witness:
  "\<exists>s r t. v7fs_mkdir [] 0 s = Some (r, t) \<and> u_uid (v7_u s) = 200 \<and> u_uid (v7_u t) = - 56"
proof -
  let ?s = "upd_u (\<lambda>u. u\<lparr>u_uid := 200, u_cdir := Some 0\<rparr>) demo_ino"
  let ?b = "set_dirp [] (begin_call ?s)"
  have i: "v7_inode ?s = (\<lambda>_. zero_inode)(0 := demo_inode)" "u_uid (v7_u ?s) = 200" using demo_ino_facts(6) by (simp_all add: upd_u_def)
  have b: "v7_inode ?b = v7_inode ?s" "u_dirp (v7_u ?b) = Some []" "u_cdir (v7_u ?b) = Some 0"
    by (simp_all add: set_dirp_def upd_u_def begin_call_def set_error_def v7_refreshclock_def Let_def split: option.split)
  have "inode_find (i_dev (v7_inode ?b 0)) (i_number (v7_inode ?b 0)) ?b = Some 0"
    using b(1) i(1) by (simp add: inode_find_def upt_conv_Cons)
  then obtain t where t: "namei uchar 1 ?b = Some (None, t)" "uerror t = ENOENT"
    using namei_empty [OF b(2,3), of 1] b(1) i(1) by (auto simp: demo_inode_def)
  have r: "v7fs_mkdir [] 0 ?s = Some (- ENOENT, set_uid (s8 (u_uid (v7_u ?s))) t)"
    using t by (simp add: v7fs_mkdir_def Let_def)
  show ?thesis
    using directory_calls_cut_uid [THEN conjunct1, THEN mp, OF r] r i(2) by (auto simp: s8_def)
qed


section \<open>The disk and the id maps\<close>

text \<open>
  C24. A block written through \<open>dsk_write\<close> inside the window reads back the same, no byte of the image
  file outside the block changes, and a block outside the window is neither read nor written although
  both calls report success.
\<close>

theorem disk_window:
  assumes "dsk_wf s" "host_ok s" "0 \<le> b"
  shows "(dsk_inrange s b \<longrightarrow> (\<exists>t. dsk_write b buf 512 s = (0, t) \<and> dsk_block t b = trunc_blk buf
      \<and> (\<forall>i. i < dsk_pos s b \<or> dsk_pos s b + 512 \<le> i \<longrightarrow> h_file (host t) i = h_file (host s) i)
      \<and> (\<exists>u. dsk_read b buf' 512 t = (0, u) \<and> trunc_blk (fst u) = trunc_blk buf)))
    \<and> (\<not> dsk_inrange s b \<longrightarrow> dsk_write b buf 512 s = (0, s) \<and> dsk_read b buf' 512 s = (0, buf', s))"
proof (intro conjI impI)
  assume r: "dsk_inrange s b"
  define t where "t = s\<lparr>host := (host s)\<lparr>h_op := h_op (host s) + 1, h_file := copy_bytes 512 (dsk_pos s b) (h_file (host s)) 0 buf\<rparr>\<rparr>"
  have w: "dsk_write b buf 512 s = (0, t)" using dsk_write_ok [OF assms(1,2) r] by (simp add: t_def)
  have p: "dsk_pos t b = dsk_pos s b" by (simp add: t_def dsk_pos_def)
  have ok: "dsk_wf t" "host_ok t" "dsk_inrange t b" using assms r by (simp_all add: t_def dsk_wf_def host_ok_def dsk_inrange_def)
  have blk: "dsk_block t b = trunc_blk buf"
    unfolding dsk_block_def p by (rule trunc_blk_eqI) (simp add: t_def copy_bytes_def)
  have rd: "dsk_read b buf' 512 t = (0, copy_bytes 512 0 buf' (dsk_pos s b) (h_file (host t)), t\<lparr>host := (host t)\<lparr>h_op := h_op (host t) + 1\<rparr>\<rparr>)"
    using dsk_read_ok [OF ok] p by auto
  have "trunc_blk (copy_bytes 512 0 buf' (dsk_pos s b) (h_file (host t))) = trunc_blk buf"
    by (rule trunc_blk_eqI) (simp add: t_def copy_bytes_def)
  then show "\<exists>t. dsk_write b buf 512 s = (0, t) \<and> dsk_block t b = trunc_blk buf
      \<and> (\<forall>i. i < dsk_pos s b \<or> dsk_pos s b + 512 \<le> i \<longrightarrow> h_file (host t) i = h_file (host s) i)
      \<and> (\<exists>u. dsk_read b buf' 512 t = (0, u) \<and> trunc_blk (fst u) = trunc_blk buf)"
    using w blk rd by (auto simp: t_def copy_bytes_def)
next
  assume r: "\<not> dsk_inrange s b"
  show "dsk_write b buf 512 s = (0, s)" "dsk_read b buf' 512 s = (0, buf', s)"
    by (rule dsk_write_outside [OF r], rule dsk_read_outside [OF r])
qed

theorem disk_window_witness:
  "dsk_write 64 (\<lambda>_. 7) 512 demo = (0, demo) \<and> (\<exists>t. dsk_write 63 (\<lambda>_. 7) 512 demo = (0, t) \<and> dsk_block t 63 5 = 7)"
proof -
  have ok: "dsk_wf demo" "host_ok demo" using demo_cache_ok by (simp_all add: cache_ok_def)
  have r: "\<not> dsk_inrange demo 64" "dsk_inrange demo 63" by (simp_all add: demo_inrange)
  show ?thesis
    using disk_window [OF ok, of 64 "\<lambda>_. 7" zeroblk] disk_window [OF ok, of 63 "\<lambda>_. 7" zeroblk] r by auto
qed

text \<open>
  C25. An id map is a map: after a pair is added, the first pair given for an id decides, in both
  directions, and every other id has the value it had, the default included.
\<close>

theorem idmap_lookup_after_add:
  assumes "idmap_wf mp" "idmap_addidmap True h f mp = (0, mp')"
  shows "idmap_wf mp'
    \<and> idmap_tofsid mp' k = (if k = h \<and> h \<notin> hostid ` set (idmap_list mp) then Some f else idmap_tofsid mp k)
    \<and> idmap_tohostid mp' k = (if k = f \<and> f \<notin> fsid ` set (idmap_list mp) then Some h else idmap_tohostid mp k)"
proof -
  have wf: "idmap_wf mp'" using idmap_add_wf [OF assms(1), of True h f] assms(2) by simp
  note L = idmap_add_list [OF assms(2)] idmap_defaults_add [OF assms(2)]
  show ?thesis
    using wf tofs.look_snoc [OF assms(1) wf L(1) L(7)] tohost.look_snoc [OF assms(1) wf L(1) L(6)] by auto
qed

theorem idmap_lookup_after_add_witness:
  "\<exists>mp'. idmap_addidmap True 1000 5 (v7fs_uidmap demo_core) = (0, mp') \<and> idmap_tofsid mp' 1000 = Some 5 \<and> idmap_tohostid mp' 5 = Some 1000"
proof -
  have wf: "idmap_wf (v7fs_uidmap demo_core)" by (simp add: demo_core_def Let_def idmap_wf_def)
  obtain mp' where a: "idmap_addidmap True 1000 5 (v7fs_uidmap demo_core) = (0, mp')"
    by (simp add: demo_core_def Let_def idmap_addidmap_def)
  show ?thesis
    using a idmap_lookup_after_add [OF wf a, of 1000] idmap_lookup_after_add [OF wf a, of 5]
    by (auto simp: idmap_list_def demo_core_def Let_def)
qed

section \<open>The tools\<close>

text \<open>
  C26. A line of the manifest with the seven fields before the path, none with a tab in it, parses to the
  entry with these fields, the path up to the end of the line.
\<close>

theorem manifest_line_parses:
  assumes "\<forall>f \<in> {k, md, u, g, a, m, x}. CHR 0x09 \<notin> set f" "CHR 0x0A \<notin> set p" "k \<noteq> []"
  shows "parse_entry (concat (map (\<lambda>f. f @ [CHR 0x09]) [k, md, u, g, a, m, x]) @ p @ [CHR 0x0A])
    = Some \<lparr>e_kind = hd k, e_mode = u32 (fst (strtoul md 8)), e_uid = u32 (fst (strtoul u 10)), e_gid = u32 (fst (strtoul g 10)),
        e_atime = strtoll a, e_mtime = strtoll m, e_aux = x, e_path = p\<rparr>"
proof -
  have "tab_fields (length [k, md, u, g, a, m, x]) (concat (map (\<lambda>f. f @ [CHR 0x09]) [k, md, u, g, a, m, x]) @ p @ [CHR 0x0A])
      = Some ([k, md, u, g, a, m, x], p @ [CHR 0x0A])"
    by (rule tab_fields_join) (use assms(1) in auto)
  moreover have "length [k, md, u, g, a, m, x] = 7" by simp
  ultimately have "tab_fields 7 (concat (map (\<lambda>f. f @ [CHR 0x09]) [k, md, u, g, a, m, x]) @ p @ [CHR 0x0A])
      = Some ([k, md, u, g, a, m, x], p @ [CHR 0x0A])" by (simp only:)
  moreover have "fst (cut_at (CHR 0x0A) (p @ [CHR 0x0A])) = p" using cut_at_field [OF assms(2), of "[]"] by simp
  moreover have "(case k of [] \<Rightarrow> CHR 0x00 | c # _ \<Rightarrow> c) = hd k" using assms(3) by (cases k) simp_all
  ultimately show ?thesis unfolding parse_entry_def by simp
qed

theorem manifest_line_parses_witness:
  "map_option e_path (parse_entry (''f'' @ [CHR 0x09] @ ''644'' @ [CHR 0x09] @ ''0'' @ [CHR 0x09] @ ''1'' @ [CHR 0x09] @ ''0'' @ [CHR 0x09]
     @ ''0'' @ [CHR 0x09] @ ''file-001'' @ [CHR 0x09] @ ''/bin/ls'' @ [CHR 0x0A])) = Some ''/bin/ls''"
  using manifest_line_parses [of "''f''" "''644''" "''0''" "''1''" "''0''" "''0''" "''file-001''" "''/bin/ls''"] by simp


section \<open>Regular expressions\<close>

text \<open>
  C27. \<open>compile\<close> and \<open>step\<close> together, with the macros of \<open>grep\<close>: for the text of a pattern (characters, \<open>.\<close>,
  classes, \<open>*\<close>, ranges, groups, a last \<open>$\<close> and a first \<open>^\<close>) and a line without null bytes, \<open>compile\<close>
  returns the end of the code, \<open>step\<close> on the code returns, with 1 just where some part of the line matches,
  and then \<open>loc1\<close> and \<open>loc2\<close> delimit a match that starts at the leftmost place possible.
\<close>

theorem regexp_finds_leftmost:
  assumes "0 \<notin> set s" "r \<noteq> []" "\<forall>n \<in> set r. node_ok n" "plain 0 False r" "plain_eof eof" "length (rcode r) \<le> esize" "locs g = None"
  shows "\<exists>u b h. re_compile (grep_source ((if anch then [94] else []) @ rtext eof r @ [eof])) 0 buf 0 (int esize) eof g
        = Some (Inr (int (length (rcode r))), u)
    \<and> step sg s (map (\<lambda>k. cbuf u (int k)) [0..<length (rcode r)]) 0 (cglob u) = Some (b, h)
    \<and> (if b then \<exists>k j. loc1 h = Some k \<and> loc2 h = Some j \<and> k \<le> length s \<and> (anch \<longrightarrow> k = 0) \<and> matches sg s r k j
          \<and> (\<forall>m < k. \<forall>j. \<not> matches sg s r m j)
        else \<forall>k \<le> length s. (anch \<longrightarrow> k = 0) \<longrightarrow> (\<forall>j. \<not> matches sg s r k j))"
  using search_ok [OF assms] unfolding found_def .

definition re_start :: re_globals where
  "re_start = \<lparr>braslist = (\<lambda>_. None), braelist = (\<lambda>_. None), nbra = 0, ebra = 0, loc1 = None, loc2 = None, locs = None,
     sed = 0, nodelim = 0, circf = 0\<rparr>"

text \<open>The pattern \<open>a*b\<close> in the line \<open>xaab\<close>.\<close>

theorem regexp_finds_leftmost_witness:
  "\<exists>u h. re_compile (grep_source [97, 42, 98, 0]) 0 (\<lambda>_. 0) 0 512 0 re_start = Some (Inr 5, u)
    \<and> step True [120, 97, 97, 98] (map (\<lambda>k. cbuf u (int k)) [0..<5]) 0 (cglob u) = Some (True, h)"
proof -
  let ?r = "[Star (AChr 97), One (AChr 98)]" and ?s = "[120, 97, 97, 98] :: byte list"
  have t: "rtext 0 ?r = [97, 42, 98]" "length (rcode ?r) = 5" by (simp_all add: rtext_def esc_def rcode_def)
  have m: "matches True ?s ?r 1 4" by (auto simp: reps_def less_Suc_eq numeral_eq_Suc intro!: exI [of _ 2])
  have a: "0 \<notin> set ?s" "?r \<noteq> []" "\<forall>n \<in> set ?r. node_ok n" "plain 0 False ?r" "plain_eof 0" "length (rcode ?r) \<le> 512" "locs re_start = None"
    unfolding t by (simp_all add: plain_eof_def re_start_def)
  obtain u b h where u: "re_compile (grep_source [97, 42, 98, 0]) 0 (\<lambda>_. 0) 0 512 0 re_start = Some (Inr 5, u)"
    "step True ?s (map (\<lambda>k. cbuf u (int k)) [0..<5]) 0 (cglob u) = Some (b, h)" "\<not> b \<longrightarrow> (\<forall>k \<le> 4. \<forall>j. \<not> matches True ?s ?r k j)"
    using regexp_finds_leftmost [OF a, where anch = False and buf = "\<lambda>_. 0" and sg = True] unfolding t
    by (auto simp del: matches.simps split: if_splits)
  have b using u(3) m by (metis one_le_numeral)
  then show ?thesis using u(1,2) by auto
qed

text \<open>
  C28. Whatever 7-bit text it is given, \<open>compile\<close> changes no byte before the buffer and none beyond the byte at
  \<open>endbuf\<close>. That byte, one after the last of the buffer, it can change: see the witness, where the code of one
  character goes into a buffer of one byte before the error is found.
\<close>

theorem compile_stays_in_buffer:
  assumes "re_compile io i buf ep endbuf eof g = Some (res, u)" "\<forall>i c j. GETC io i = Some (c, j) \<longrightarrow> 0 \<le> c \<and> c < 128"
    "a < ep \<or> endbuf < a"
  shows "cbuf u a = buf a"
  using compile_outside [OF assms(1) _ assms(3)] assms(2) unfolding ascii_def by blast

theorem compile_stays_in_buffer_witness:
  "\<exists>u. re_compile (grep_source [97, 0]) 0 (\<lambda>_. 0) 0 1 0 re_start = Some (Inl 50, u) \<and> cbuf u 2 = 0 \<and> cbuf u 1 = 97"
proof -
  let ?io = "grep_source [97, 0]"
  have a: "GETC ?io i = Some (c, j) \<Longrightarrow> 0 \<le> c \<and> c < 128" for i c j
    by (auto simp: grep_source_def less_Suc_eq split: if_splits)
  obtain u where u: "re_compile ?io 0 (\<lambda>_. 0) 0 1 0 re_start = Some (Inl 50, u)" "cbuf u 1 = 97"
    by (simp add: re_compile_def re_getc_def re_ungetc_def grep_source_def compile_loop.simps [of _ 1] compile_step_def
        compile_char_def defchar_def re_op_def re_put_def re_start_def)
  then show ?thesis using compile_stays_in_buffer [OF u(1), of 2] a by auto
qed

text \<open>
  C29. A starred back reference to a group that matched nothing: \<open>advance\<close> does not return, as its loop adds
  the length of the group, zero, to \<open>lp\<close> again and again.
\<close>

theorem empty_backref_never_returns:
  assumes "re_group (unat k) g = Some (b, 0)"
  shows "advance sg s ((CBACK OR STAR) # k # ep) lp g = None"
  by (rule backstar_empty [OF assms])

text \<open>The pattern \<open>\(a*\)\1*\<close> on the line \<open>b\<close>.\<close>

theorem empty_backref_never_returns_witness:
  "\<exists>u p. re_compile (grep_source [92, 40, 97, 42, 92, 41, 92, 49, 42, 0]) 0 (\<lambda>_. 0) 0 512 0 re_start = Some (Inr p, u)
    \<and> step True [98] (map (\<lambda>k. cbuf u (int k)) [0..<nat p]) 0 (cglob u) = None"
proof -
  let ?c = "[CBRA, 0, CCHR OR STAR, 97, CKET, 0, CBACK OR STAR, 0, CCEOF]"
  have l: "[0..<9] = [0, 1, 2, 3, 4, 5, 6, 7, 8 :: nat]" by code_simp
  obtain u where u: "re_compile (grep_source [92, 40, 97, 42, 92, 41, 92, 49, 42, 0]) 0 (\<lambda>_. 0) 0 512 0 re_start = Some (Inr 9, u)"
    "map (\<lambda>k. cbuf u (int k)) [0..<9] = ?c" "circf (cglob u) = 0" "locs (cglob u) = None"
    unfolding l
    by (simp add: re_compile_def re_getc_def re_ungetc_def grep_source_def compile_loop.simps [of _ 512] compile_step_def
        compile_char_def compile_escape_def defchar_def re_op_def re_put_def or_last_def re_start_def)
  let ?g = "\<lambda>g :: re_globals. g\<lparr>braslist := (braslist g)(0 := Some 0), braelist := (braelist g)(0 := Some 0)\<rparr>"
  have a: "advance True [98] [CBACK OR STAR, 0, CCEOF] 0 (?g g) = None" for g
    by (rule empty_backref_never_returns) (simp add: re_group_def)
  have k: "advance True [98] [CKET, 0, CBACK OR STAR, 0, CCEOF] 0 (g\<lparr>braslist := (braslist g)(0 := Some 0)\<rparr>) = None" for g
    using a [of g] by (subst advance.simps(2)) simp
  have "advance True [98] ?c 0 (cglob u) = None"
    using k [of "cglob u"] u(4)
    by (subst advance.simps(2)) (simp add: advance.simps(2) [of _ _ 5] run_past.simps line_at_def)
  then have "step True [98] ?c 0 (cglob u) = None" using u(3) by (simp add: step_def step_loop.simps line_at_def)
  then show ?thesis using u(1,2) by (intro exI [of _ u] exI [of _ 9]) simp
qed

section \<open>The line printer\<close>

text \<open>
  C30. A write to a line printer. Whatever the status reads say and wherever interrupts arrive, when \<open>lp_write\<close>
  returns, the characters sent to the printer followed by those that wait in the queue are what they were
  before, followed by the edited text: \<open>edits\<close> says what tabs, new lines, form feeds, backspaces, blanks and
  the characters become. Nothing is lost, doubled or reordered, and the position on the page is the one
  after the text.
\<close>

theorem lp_write_edits:
  assumes "fifo ops cont" "wired n s" "n = nat (lp_minor dev mod 4)" "int n < maxport s" "lp_write ops dev cs s = Some t"
  shows "stream cont n t = stream cont n s @ map (\<lambda>c. c mod 256) (snd (edits cs (fmt_of n s)))
    \<and> fmt_of n t = fst (edits cs (fmt_of n s))"
  using lp_write_gives [OF assms(5,3) _ assms(1,2)] assms(4) by (simp add: gives_def maxport_def split: if_splits)

text \<open>Two letters and a new line, with one blank of indentation.\<close>

theorem lp_write_edits_witness:
  "\<exists>t. lp_write byte_ops 0 [13, 104, 105, 10] (lp_start CENTRON) = Some t
    \<and> stream (map uint) 0 t = [13, 32, 104, 105, 13, 10]"
proof -
  obtain t where t: "lp_write byte_ops 0 [13, 104, 105, 10] (lp_start CENTRON) = Some t"
    using lp_write_prompt [OF byte_ops_fifo lp_start_ok(2,1), of 0 0] by (auto simp: lp_minor_def)
  have "stream (map uint) 0 t = stream (map uint) 0 (lp_start CENTRON)
      @ map (\<lambda>c. c mod 256) (snd (edits [13, 104, 105, 10] (fmt_of 0 (lp_start CENTRON))))"
    using lp_write_edits [OF byte_ops_fifo lp_start_ok(1) _ _ t, of 0] by (simp add: lp_start_ok lp_minor_def)
  then show ?thesis using t unfolding lp_start_ok
    by (simp add: edit_def edit_char_def edit_form_def is_raw_def s16_def Let_def)
qed

text \<open>
  C31. With a printer that is ready at every read of its status, \<open>lp_write\<close> returns, also where the text fills
  the queue and the process sleeps; the queue is empty then, and the printer has got all of the edited text.
\<close>

theorem lp_write_prints:
  assumes "fifo ops cont" "wired n s" "n = nat (lp_minor dev mod 4)" "int n < maxport s" "lp_prompt s"
  shows "\<exists>t. lp_write ops dev cs s = Some t
    \<and> sent n t = stream cont n s @ map (\<lambda>c. c mod 256) (snd (edits cs (fmt_of n s)))"
proof -
  have n: "n \<le> 2" using assms(4) by (simp add: maxport_def split: if_splits)
  obtain t where t: "lp_write ops dev cs s = Some t" "idle cont n t" using lp_write_prompt [OF assms(1,5,2) n assms(3)] by blast
  then show ?thesis using lp_write_gives [OF t(1) assms(3) n assms(1,2)] by (simp add: gives_def stream_def idle_def)
qed

theorem lp_write_prints_witness:
  "\<exists>t. lp_write byte_ops 1 [13, 9, 97, 8, 98, 10] (lp_start DATAPROD) = Some t \<and> sent 1 t = [13] @ replicate 9 32 @ [97, 13] @ replicate 9 32 @ [98, 10]"
proof -
  have "\<exists>t. lp_write byte_ops 1 [13, 9, 97, 8, 98, 10] (lp_start DATAPROD) = Some t
      \<and> sent 1 t = stream (map uint) 1 (lp_start DATAPROD) @ map (\<lambda>c. c mod 256) (snd (edits [13, 9, 97, 8, 98, 10] (fmt_of 1 (lp_start DATAPROD))))"
    by (rule lp_write_prints [OF byte_ops_fifo lp_start_ok(1) _ _ lp_start_ok(2)]) (simp_all add: lp_start_ok lp_minor_def)
  moreover have "map (\<lambda>c. c mod 256) (snd (edits [13, 9, 97, 8, 98, 10] (fmt_of 1 (lp_start DATAPROD)))) = [13] @ replicate 9 32 @ [97, 13] @ replicate 9 32 @ [98, 10]"
    unfolding lp_start_ok by (simp add: edit_def edit_char_def edit_form_def is_raw_def s16_def Let_def numeral_eq_Suc)
  ultimately show ?thesis by (simp only: lp_start_ok append_Nil)
qed

text \<open>
  C32. No character past the last column. From a position on the page, with the carriage where \<open>mcc\<close> says, a
  text without form feeds is printed inside the columns, and the carriage is where the new \<open>mcc\<close> says. A form
  feed while no line is complete is dropped but resets \<open>mcc\<close>, so this does not hold with form feeds
  (\<open>form_feed_runs_over\<close>).
\<close>

theorem lp_write_in_columns:
  assumes "fifo ops cont" "wired n s" "n = nat (lp_minor dev mod 4)" "int n < maxport s" "lp_write ops dev cs s = Some t"
    "on_page (fmt_of n s)" "FORM \<notin> set cs" "\<forall>c \<in> set cs. 0 \<le> c \<and> c < 256"
  shows "\<exists>xs. stream cont n t = stream cont n s @ xs \<and> fits (lp_col (lp_data s n)) (mcc (lp_data s n)) xs
    \<and> carriage (mcc (lp_data s n)) xs = mcc (lp_data t n) \<and> on_page (fmt_of n t)"
proof -
  let ?r = "edits cs (fmt_of n s)"
  have g: "gives cont n s ?r t" using lp_write_gives [OF assms(5,3) _ assms(1,2)] assms(4) by (simp add: maxport_def split: if_splits)
  have r: "stays (fmt_of n s) ?r" by (rule stays_edits [OF assms(6-8)])
  have m: "map (\<lambda>c. c mod 256) (snd ?r) = snd ?r" using r by (intro map_idI) (auto simp: stays_def)
  show ?thesis using g r unfolding gives_def stays_def m fmt_simps by auto
qed

text \<open>A character after 129 columns of blanks, and one more that does not fit.\<close>

theorem lp_write_in_columns_witness:
  "\<exists>t xs. lp_write byte_ops 0 (replicate 129 32 @ [97, 98]) (lp_start CENTRON) = Some t \<and> stream (map uint) 0 t = xs \<and> fits 130 0 xs
    \<and> carriage 0 xs = mcc (lp_data t 0)"
proof -
  let ?cs = "replicate 129 32 @ [97, 98] :: int list"
  obtain t where t: "lp_write byte_ops 0 ?cs (lp_start CENTRON) = Some t"
    using lp_write_prompt [OF byte_ops_fifo lp_start_ok(2,1), of 0 0] by (auto simp: lp_minor_def)
  have m: "mcc (lp_data (lp_start CENTRON) 0) = 0" "lp_col (lp_data (lp_start CENTRON) 0) = 130" by (simp_all add: lp_start_def port_init_def)
  have "\<exists>xs. stream (map uint) 0 t = stream (map uint) 0 (lp_start CENTRON) @ xs \<and> fits 130 0 xs \<and> carriage 0 xs = mcc (lp_data t 0) \<and> on_page (fmt_of 0 t)"
    using lp_write_in_columns [OF byte_ops_fifo lp_start_ok(1) _ _ t, of 0]
    by (simp add: lp_start_ok(3) lp_minor_def m) (simp add: lp_start_ok on_page_def)
  then show ?thesis using t by (auto simp: lp_start_ok)
qed

section \<open>File transfer\<close>

text \<open>
  C33. \<open>putfile\<close> and \<open>remote\<close> over a line that spoils things. Copies of the name and of the records may arrive with
  characters missing or changed, as long as the count, the end mark, the checksum or the alarm shows it and
  fewer than ten copies in a row are spoiled. Then \<open>putfile\<close>, reading the answers that \<open>load\<close> gives, sends every
  copy that \<open>load\<close> reads, both return, the file is counted as transferred, and the file that \<open>load\<close> writes is
  the file that was sent, with its new lines turned into returns when it is not sent as binary.
\<close>

theorem download_delivers_file:
  assumes "fs arg = Some f" "\<not> is_dir f" "contents f \<noteq> []" "fst (strip arg 0 arg) = name" "length name \<le> NAMSIZ" "ETX \<notin> set name"
    and flags: "flags = file_flags (pflags p) f" and recs: "map snd rs = map (new_to_ret flags) (blocks (contents f))"
    and names: "\<forall>a \<in> set nas. spoiled_name a" "length nas < RETRIES"
    and copies: "\<forall>(as, bs) \<in> set rs. (\<forall>a \<in> set as. spoiled a) \<and> length as < RETRIES"
    and p: "pin p = map Rx (all_answers nas rs) @ es" "\<not> p_timeout p"
    and s: "rx s = map Rx [SOH, ESC, 76, flags] @ concat nas @ map Rx (name_frame name) @ arriving rs @ Rx CAN # es'"
      "length (rbuf s) = 2 * RECSIZ" "bufptr s = 0" "\<forall>k n. wrres s k n = int n"
    and env: "can_creat name" "flags AND QUERY = 0 \<or> \<not> exists name"
  shows "\<exists>q u t. put_file fs arg p = Some (True, q) \<and> success q = success p + 1
    \<and> pout q = pout p @ [SOH, ESC, 76, flags] @ concat (replicate (length nas + 1) (name_frame name)) @ frames rs @ [CAN]
    \<and> unix_to_term s = Some (76, u) \<and> load exists can_creat stray u = Some t \<and> tx t = tx s @ all_answers nas rs
    \<and> dfile t = new_to_ret flags (contents f) \<and> creats t = creats s @ [(name, if flags AND EXEC \<noteq> 0 then 493 else 420)]"
proof -
  let ?u = "s\<lparr>n_junk := n_junk s + 1, rx := Rx flags # concat nas @ map Rx (name_frame name) @ arriving rs @ Rx CAN # es'\<rparr>"
  have u: "unix_to_term s = Some (76, ?u)" using s(1) by (intro unix_request) simp_all
  have short: "\<forall>(as, bs) \<in> set rs. (\<forall>a \<in> set as. spoiled a) \<and> length bs < 128" using copies records_short [OF recs] by blast
  obtain t where t: "load exists can_creat stray ?u = Some t" "dfile t = concat (map snd rs)" "tx t = tx ?u @ all_answers nas rs"
    "creats t = creats ?u @ [(name, if flags AND EXEC \<noteq> 0 then 493 else 420)]"
    using load_file [of ?u flags nas name rs es' can_creat exists stray] names(1) assms(5,6) short s(2-4) env by auto
  have "\<forall>(as, bs) \<in> set rs. length as < RETRIES" using copies by blast
  from put_file_ok [where fs = fs and arg = arg, OF assms(1-4) flags recs this names(2) p] show ?thesis using u t records_concat [OF recs] by auto
qed

text \<open>The text \<open>hi\<close> of a file \<open>d/a\<close>; the first copy of its record loses its end.\<close>

definition put_start :: "event list \<Rightarrow> byte \<Rightarrow> put" where
  "put_start es fl = \<lparr>pin = es, pout = [], pflags = fl, acknak = 0, p_timeout = False, success = 0, unsuccess = 0\<rparr>"

definition rem_start :: "event list \<Rightarrow> byte list \<Rightarrow> rem" where
  "rem_start es ks = \<lparr>rx = es, tx = [], scr = [], keys = ks, onestop = False, allstop = False, r_timeout = False, printmsg = True,
     rbuf = replicate 1024 0, bufptr = 0, dfile = [], creats = [], wrres = (\<lambda>_ n. int n), n_wr = 0, junk = (\<lambda>_. 0), n_junk = 0\<rparr>"

definition hi_file :: "byte list \<Rightarrow> pfile option" where
  "hi_file arg = (if arg = [100, 47, 97] then Some \<lparr>is_dir = False, is_exec = False, contents = [104, 105, 10]\<rparr> else None)"

lemma hi_spoiled: "spoiled [Rx STX, Rx 0, Rx 3, Rx 104, Silence]"
  using spoiled.lost [of "[104]" 3] by (simp add: head_def)

lemma hi_blocks: "blocks [104, 105, 10] = [[104, 105, 10]]" "blocks [104, 13] = [[104, 13]]"
  by (simp_all add: blocks.simps)

theorem download_delivers_file_witness:
  "\<exists>q u t. put_file hi_file [100, 47, 97] (put_start (map Rx [ACK, ACK, ACK, NAK, ACK, ACK]) 0) = Some (True, q) \<and> success q = 1
    \<and> unix_to_term (rem_start (map Rx [SOH, ESC, 76, 0, STX, 97, ETX, 97, STX, 0, 3, 104] @ [Silence]
        @ map Rx [STX, 0, 3, 104, 105, 13, ETX, 12, CAN]) []) = Some (76, u)
    \<and> load (\<lambda>_. False) (\<lambda>_. True) [] u = Some t \<and> tx t = [ACK, ACK, ACK, NAK, ACK, ACK] \<and> dfile t = [104, 105, 13] \<and> creats t = [([97], 420)]"
proof -
  let ?rs = "[([[Rx STX, Rx 0, Rx 3, Rx 104, Silence]], [104, 105, 13])] :: (event list list \<times> byte list) list"
  let ?f = "\<lparr>is_dir = False, is_exec = False, contents = [104, 105, 10]\<rparr>"
  have "\<exists>q u t. put_file hi_file [100, 47, 97] (put_start (map Rx (all_answers [] ?rs) @ []) 0) = Some (True, q)
      \<and> success q = success (put_start (map Rx (all_answers [] ?rs) @ []) 0) + 1
      \<and> pout q = pout (put_start (map Rx (all_answers [] ?rs) @ []) 0) @ [SOH, ESC, 76, 0] @ concat (replicate (length ([] :: event list list) + 1) (name_frame [97])) @ frames ?rs @ [CAN]
      \<and> unix_to_term (rem_start (map Rx [SOH, ESC, 76, 0] @ concat [] @ map Rx (name_frame [97]) @ arriving ?rs @ [Rx CAN]) []) = Some (76, u)
      \<and> load (\<lambda>_. False) (\<lambda>_. True) [] u = Some t \<and> tx t = tx (rem_start (map Rx [SOH, ESC, 76, 0] @ concat [] @ map Rx (name_frame [97]) @ arriving ?rs @ [Rx CAN]) []) @ all_answers [] ?rs
      \<and> dfile t = new_to_ret 0 (contents ?f) \<and> creats t = creats (rem_start (map Rx [SOH, ESC, 76, 0] @ concat [] @ map Rx (name_frame [97]) @ arriving ?rs @ [Rx CAN]) []) @ [([97], if (0 :: byte) AND EXEC \<noteq> 0 then 493 else 420)]"
    by (rule download_delivers_file [where es' = "[]"])
      (simp_all add: hi_file_def put_start_def rem_start_def file_flags_def hi_blocks hi_spoiled new_to_ret_def)
  then show ?thesis
    by (simp add: put_start_def rem_start_def all_answers_def answers_def arriving_def name_frame_def frame_def new_to_ret_def) blast
qed

text \<open>
  C34. \<open>getfile\<close> and \<open>remote\<close>, the other direction, over such a line: \<open>getfile\<close> asks, \<open>send\<close> repeats each record until
  it is acknowledged, both return, the transfer counts as successful, the file gets the execution bits of the
  original, and its bytes are those of the original, with returns turned into new lines when the file is not
  taken as binary.
\<close>

theorem upload_delivers_file:
  assumes "src name = Some (data, ex)" "data \<noteq> []" "fst (strip arg 0 arg) = name" "length name \<le> NAMSIZ" "ETX \<notin> set name"
    and recs: "map snd rs = blocks data" and names: "\<forall>a \<in> set nas. spoiled_name a" "length nas < RETRIES"
    and copies: "\<forall>(as, bs) \<in> set rs. (\<forall>a \<in> set as. gspoiled a) \<and> length as < RETRIES"
    and a: "a = (if ex then EXEC else ACK)" and flags: "flags = get_flags (gflags g)"
    and s: "rx s = map Rx [SOH, ESC, 83, flags] @ concat nas @ map Rx (name_frame name) @ map Rx (answers rs) @ es"
    and g: "gin g = map Rx ([ACK, ACK] @ replicate (length nas) NAK @ [a]) @ garriving rs @ map Rx [EOT, ACK] @ es'" "gready g"
    and env: "can_creat name" "gflags g AND QUERY = 0 \<or> \<not> exists arg"
  shows "\<exists>h u t. get_file exists can_creat arg g = Some (True, h) \<and> gsuccess h = gsuccess g + 1
    \<and> gfile h = map (ret_to_new flags) data \<and> gcreats h = gcreats g @ [(name, if ex then 493 else 420)]
    \<and> gout h = gout g @ [SOH, ESC, 83, flags] @ concat (replicate (length nas + 1) (name_frame name)) @ answers rs
    \<and> unix_to_term s = Some (83, u) \<and> send src u = Some t
    \<and> tx t = tx s @ [ACK, ACK] @ replicate (length nas) NAK @ [a] @ frames rs @ [EOT, ACK]"
proof -
  let ?u = "s\<lparr>n_junk := n_junk s + 1, rx := Rx flags # concat nas @ map Rx (name_frame name) @ map Rx (answers rs) @ es\<rparr>"
  have u: "unix_to_term s = Some (83, ?u)" using s by (intro unix_request) simp_all
  obtain t where t: "send src ?u = Some t" "tx t = tx ?u @ [ACK, ACK] @ replicate (length nas) NAK @ [a] @ frames rs @ [EOT, ACK]"
    using send_ok [of ?u flags nas name rs es src data ex] names(1) assms(1,2,4,5) recs a by auto
  have short: "\<forall>(as, bs) \<in> set rs. (\<forall>a \<in> set as. gspoiled a) \<and> length as < RETRIES \<and> length bs \<le> XFERSIZ"
    using copies blocks_short [of _ data] recs by (metis (mono_tags, lifting) case_prod_unfold image_eqI image_set)
  have g': "gin (g\<lparr>gc := 121\<rparr>) = map Rx ([ACK, ACK] @ replicate (length nas) NAK @ [a]) @ garriving rs @ Rx EOT # Rx ACK # es'" "gready (g\<lparr>gc := 121\<rparr>)"
    using g by (simp_all add: gready_def)
  have a': "a = ACK \<or> a = EXEC" using a by simp
  from get_request_ok [where can_creat = can_creat, OF short g'(1) a' names(2) g'(2) env(1) assms(3)]
  obtain h where h: "get_request can_creat arg (g\<lparr>gc := 121\<rparr>) = Some (True, h)" "gfile h = map (ret_to_new flags) (concat (map snd rs))"
    "gout h = gout g @ [SOH, ESC, 83, flags] @ concat (replicate (length nas + 1) (name_frame name)) @ answers rs" "gsuccess h = gsuccess g + 1"
    "gcreats h = gcreats g @ [(name, if a = EXEC then 493 else 420)]"
    using flags by auto
  have "get_file exists can_creat arg g = Some (True, h\<lparr>gflags := gflags h AND NOT BINARY\<rparr>)" using env(2) h(1) by (auto simp: get_file_def)
  then show ?thesis using u t h(2-5) a by (auto simp: recs blocks_concat)
qed

definition get_start :: "event list \<Rightarrow> get" where
  "get_start es = \<lparr>gin = es, gout = [], gflags = 0, gc = 0, gack = 0, g_timeout = False, gbuf = replicate 64 0, gfile = [], gcreats = [],
     gwrres = (\<lambda>_ n. int n), gn_wr = 0, gsuccess = 0, gunsuccess = 0\<rparr>"

text \<open>A program of two bytes, whose record arrives with a wrong checksum first.\<close>

theorem upload_delivers_file_witness:
  "\<exists>h u t. get_file (\<lambda>_. False) (\<lambda>_. True) [97] (get_start (map Rx [ACK, ACK, EXEC, STX, 0, 2, 104, 13, ETX, 99, STX, 0, 2, 104, 13, ETX, 101, EOT, ACK])) = Some (True, h)
    \<and> gfile h = [104, 10] \<and> gcreats h = [([97], 493)]
    \<and> unix_to_term (rem_start (map Rx [SOH, ESC, 83, 0, STX, 97, ETX, 97, NAK, ACK]) []) = Some (83, u)
    \<and> send (\<lambda>n. if n = [97] then Some ([104, 13], True) else None) u = Some t \<and> drop 3 (tx t) = [STX, 0, 2, 104, 13, ETX, 101, STX, 0, 2, 104, 13, ETX, 101, EOT, ACK]"
proof -
  let ?bad = "map Rx [STX, 0, 2, 104, 13, ETX, 99]"
  let ?rs = "[([?bad], [104, 13])] :: (event list list \<times> byte list) list"
  let ?src = "\<lambda>n :: byte list. if n = [97] then Some ([104, 13] :: byte list, True) else None"
  let ?s = "rem_start (map Rx [SOH, ESC, 83, 0] @ concat [] @ map Rx (name_frame [97]) @ map Rx (answers ?rs) @ []) []"
  let ?g = "get_start (map Rx ([ACK, ACK] @ replicate (length ([] :: event list list)) NAK @ [EXEC]) @ garriving ?rs @ map Rx [EOT, ACK] @ [])"
  have b: "gspoiled ?bad" using gspoiled.g_bad_sum [of "[104, 13]" 99] by (simp add: head_def)
  have "\<exists>h u t. get_file (\<lambda>_. False) (\<lambda>_. True) [97] ?g = Some (True, h) \<and> gsuccess h = gsuccess ?g + 1
      \<and> gfile h = map (ret_to_new 0) [104, 13] \<and> gcreats h = gcreats ?g @ [([97], if True then 493 else 420)]
      \<and> gout h = gout ?g @ [SOH, ESC, 83, 0] @ concat (replicate (length ([] :: event list list) + 1) (name_frame [97])) @ answers ?rs
      \<and> unix_to_term ?s = Some (83, u) \<and> send ?src u = Some t
      \<and> tx t = tx ?s @ [ACK, ACK] @ replicate (length ([] :: event list list)) NAK @ [EXEC] @ frames ?rs @ [EOT, ACK]"
  proof (rule upload_delivers_file [where es = "[]" and es' = "[]" and name = "[97]" and data = "[104, 13]" and ex = True and rs = ?rs and nas = "[]"
        and flags = 0 and a = EXEC and src = ?src and s = ?s and g = ?g and arg = "[97]"])
    show "\<forall>(as, bs) \<in> set ?rs. (\<forall>a \<in> set as. gspoiled a) \<and> length as < RETRIES" using b by simp
    show "gready ?g" by (simp add: get_start_def gready_def)
    show "0 = get_flags (gflags ?g)" by (simp add: get_start_def get_flags_def)
  qed (simp_all add: get_start_def rem_start_def hi_blocks)
  then obtain h u t where r: "get_file (\<lambda>_. False) (\<lambda>_. True) [97] ?g = Some (True, h)" "gfile h = map (ret_to_new 0) [104, 13]" "gcreats h = gcreats ?g @ [([97], 493)]"
    "unix_to_term ?s = Some (83, u)" "send ?src u = Some t"
    "tx t = tx ?s @ [ACK, ACK] @ replicate (length ([] :: event list list)) NAK @ [EXEC] @ frames ?rs @ [EOT, ACK]" by auto
  have g: "?g = get_start (map Rx [ACK, ACK, EXEC, STX, 0, 2, 104, 13, ETX, 99, STX, 0, 2, 104, 13, ETX, 101, EOT, ACK])"
    by (simp add: garriving_def copies_def frame_def)
  have s: "?s = rem_start (map Rx [SOH, ESC, 83, 0, STX, 97, ETX, 97, NAK, ACK]) []" by (simp add: answers_def name_frame_def)
  have "gfile h = [104, 10]" "gcreats h = [([97], 493)]" "drop 3 (tx t) = [STX, 0, 2, 104, 13, ETX, 101, STX, 0, 2, 104, 13, ETX, 101, EOT, ACK]"
    using r(2,3,6) by (simp_all add: ret_to_new_def get_start_def rem_start_def frames_def frame_def)
  then show ?thesis using r(1,4,5) unfolding g s by blast
qed

text \<open>
  C35. When the user does not want an existing file to be replaced, the transfer hangs: the missing comma in
  \<open>write(pterm &ack, 1)\<close> keeps \<open>load\<close> from sending the last acknowledgement (nothing else is sent in its place),
  and \<open>putfile\<close>, with the answers of \<open>load\<close>, does not return.
\<close>

theorem refused_transfer_hangs:
  assumes "fs arg = Some f" "\<not> is_dir f" "contents f \<noteq> []" "length name \<le> NAMSIZ" "ETX \<notin> set name" "flags AND QUERY \<noteq> 0" "exists name"
    and s: "rx s = Rx flags # map Rx (name_frame name) @ Rx CAN # es" "keys s = k # ks" "k AND 127 \<noteq> 121" "tx s = []"
  shows "\<exists>t. load exists can_creat [] s = Some t \<and> creats t = creats s \<and> (\<forall>p. pin p = map Rx (tx t) \<longrightarrow> put_file fs arg p = None)"
proof -
  obtain t where t: "load exists can_creat [] s = Some t" "tx t = [ACK, ACK, CAN]" "creats t = creats s"
    using load_refused [of s flags name es "exists" k ks can_creat "[]"] assms by auto
  then show ?thesis using put_refused [where fs = fs and arg = arg, OF assms(1-3)] by auto
qed

theorem refused_transfer_hangs_witness:
  "\<exists>t. load (\<lambda>_. True) (\<lambda>_. True) [] (rem_start (map Rx [QUERY, STX, 97, ETX, 97, CAN]) [110]) = Some t
    \<and> put_file hi_file [100, 47, 97] (put_start (map Rx (tx t)) QUERY) = None"
proof -
  have "\<exists>t. load (\<lambda>_. True) (\<lambda>_. True) [] (rem_start (map Rx [QUERY, STX, 97, ETX, 97, CAN]) [110]) = Some t
      \<and> creats t = creats (rem_start (map Rx [QUERY, STX, 97, ETX, 97, CAN]) [110])
      \<and> (\<forall>p. pin p = map Rx (tx t) \<longrightarrow> put_file hi_file [100, 47, 97] p = None)"
    by (rule refused_transfer_hangs [where name = "[97]" and flags = QUERY and es = "[]" and k = 110 and ks = "[]"
        and f = "\<lparr>is_dir = False, is_exec = False, contents = [104, 105, 10]\<rparr>"])
      (simp_all add: hi_file_def rem_start_def name_frame_def)
  then show ?thesis by (auto simp: put_start_def)
qed


section \<open>Sessions\<close>

text \<open>
  C36. A session of \<open>remote\<close>. The database is the text of lines with a name, a device and a speed; the first line
  for the wanted system has a device that can be locked and opened and one of the six speeds. The user's first
  key is not \<open>DEL\<close>, and the second system sends a text without \<open>SOH\<close> and then the request to quit. Then \<open>remote\<close> ends
  with status 0: the second system got a new line, the keys of the user and the echo of the request, the screen
  shows the text, and the parameters of all terminals and the lock files are as before.
\<close>

theorem remote_session:
  assumes "\<forall>e \<in> set es. dbline_ok e" "List.find (wanted arg) es = Some e" "lockable env (d_dev e) s" "iospeed (atoi (d_speed e)) \<noteq> None"
    "\<forall>d. opens env d \<noteq> 0" "key AND 127 \<noteq> 127" "rx (sess s) = map Rx (msg @ [1, 27, 81]) @ ev" "1 \<notin> set msg" "\<forall>k \<in> set ks. k AND 127 \<noteq> 28"
  shows "\<exists>t. remote_main env (Some (concat (map dbline_text es))) arg (Some key) (ks # kss) s = Some (0, t)
    \<and> tx (sess t) = tx (sess s) @ [10, key] @ ks @ [81] \<and> scr (sess t) = scr (sess s) @ msg \<and> ttys t = ttys s \<and> locks t = locks s"
proof -
  obtain t where t: "remote_main env (Some (concat (map dbline_text es))) arg (Some key) (ks # kss) s = Some (0, t)"
    "tx (sess t) = tx (sess s) @ [10, key] @ ks @ [81]" "scr (sess t) = scr (sess s) @ msg"
    using remote_main_quits [OF assms(1-4,6-9)] by blast
  have "restored s t" using remote_main_restores [OF _ t(1)] assms(5) by simp
  then show ?thesis using t by (simp add: restored_def)
qed

definition demo_env :: hostenv where
  "demo_env = \<lparr>opens = (\<lambda>_. 3), can_lock = (\<lambda>_. True), login = Some [122], tty_name = Some (str ''/dev/tty1''), pid_text = [49],
     h_exists = (\<lambda>_. False), h_creat = (\<lambda>_. True), h_stray = [], h_src = (\<lambda>_. None)\<rparr>"

definition demo_rem :: "byte list \<Rightarrow> rem" where
  "demo_rem bs = \<lparr>rx = map Rx bs, tx = [], scr = [], keys = [], onestop = False, allstop = False, r_timeout = False, printmsg = False,
     rbuf = replicate 1024 0, bufptr = 0, dfile = [], creats = [], wrres = (\<lambda>_ n. int n), n_wr = 0, junk = (\<lambda>_. 0), n_junk = 0\<rparr>"

definition demo_conn :: "byte list \<Rightarrow> conn" where
  "demo_conn bs = \<lparr>sess = demo_rem bs, ttys = (\<lambda>_. \<lparr>c_iflag = 256, c_oflag = 5, c_cflag = 13, c_lflag = 11, c_line = 0, c_cc = replicate 8 0\<rparr>),
     saved = (\<lambda>_. \<lparr>c_iflag = 0, c_oflag = 0, c_cflag = 0, c_lflag = 0, c_line = 0, c_cc = []\<rparr>), pterm = 0, locknm = [], locks = Map.empty\<rparr>"

text \<open>The database has the lines \<open>a x 300\<close> and \<open>b y 9600\<close>, and the user asks for system \<open>b\<close>.\<close>

theorem remote_session_witness:
  "\<exists>t. remote_main demo_env (Some [97, 32, 120, 32, 51, 48, 48, 10, 98, 32, 121, 32, 57, 54, 48, 48, 10]) (Some [98]) (Some 13) [[108, 115]]
      (demo_conn [104, 105, 1, 27, 81]) = Some (0, t)
    \<and> tx (sess t) = [10, 13, 108, 115, 81] \<and> scr (sess t) = [104, 105] \<and> locks t = Map.empty"
proof -
  let ?a = "\<lparr>d_name = [97], d_dev = [120], d_speed = [51, 48, 48]\<rparr>" and ?b = "\<lparr>d_name = [98], d_dev = [121], d_speed = [57, 54, 48, 48]\<rparr>"
  have ok: "\<forall>e \<in> set [?a, ?b]. dbline_ok e" "List.find (wanted (Some [98])) [?a, ?b] = Some ?b"
    by (simp_all add: dbline_ok_def dbline_text_def wanted_def)
  have l: "lockable demo_env (d_dev ?b) (demo_conn [104, 105, 1, 27, 81])" by (simp add: lockable_def demo_env_def demo_conn_def tail_name_def)
  have s: "iospeed (atoi (d_speed ?b)) \<noteq> None" by (simp add: iospeed_def atoi_def s16_def)
  have t: "concat (map dbline_text [?a, ?b]) = [97, 32, 120, 32, 51, 48, 48, 10, 98, 32, 121, 32, 57, 54, 48, 48, 10]"
    by (simp add: dbline_text_def)
  show ?thesis
    using remote_session [OF ok l s, of 13 "[104, 105]" "[]" "[108, 115]" "[]"] unfolding t by (auto simp: demo_env_def demo_conn_def demo_rem_def)
qed




section \<open>Init\<close>

text \<open>
  C38. Init starts what \<open>inittab\<close> says. When the file is the text of a list of entries, \<open>readttys\<close> returns and the table
  in memory is the old one without its commands, in which each entry of the current state was entered in turn;
  then \<open>invttys\<close> returns and has started, in the order of the table, the command of every row that has one and no
  process, with the numbers that \<open>fork\<close> gives. Commands are at most 250 characters long and flags at most four,
  as longer ones are stored past the end of an array.
\<close>

theorem inittab_starts:
  assumes "tabs s = Some (concat (map entry_text es)) # ts" "\<forall>e \<in> set es. entry_ok e" "idlim s + length es \<le> 100" "length es \<le> length (memory s)"
    "False \<notin> set (memory s)" "csize s + 256 * length es < 65536" "rows = fold enter (filter (\<lambda>e. uint (e_state e) = istate s) es) (map forget (table s))"
    "idle_rows rows \<le> length (forks s)" "-1 \<notin> set (forks s)"
  shows "\<exists>t u. readttys s = Some t \<and> table t = rows \<and> invttys t = Some u \<and> table u = fst (launch (forks s) rows)
    \<and> runs u = runs s @ snd (launch (forks s) rows)"
proof -
  obtain t where t: "readttys s = Some t" "table t = rows" "cmds_ok t" "forks t = forks s" "runs t = runs s"
    using readttys_table [OF assms(1-6)] assms(7) by auto
  have "\<forall>r \<in> set rows. row_ok r" unfolding assms(7) by (rule fold_enter_ok [OF _ forget_ok]) (use assms(2) in auto)
  then show ?thesis using invttys_launch [OF t(3)] t assms(8,9) by auto
qed

definition init_start :: "byte list \<Rightarrow> int list \<Rightarrow> ini" where
  "init_start text ps = \<lparr>itab = (\<lambda>_. \<lparr>in_proc = 0, in_id = (0, 0), in_cmd = -1\<rparr>), idlim = 0, istate = 50, lstate = 48, statecnt = replicate 10 0,
     rdstate = False, xstate = False, rcid = 0, csize = 256, nextcmd = 0, cmds = (\<lambda>_. 0), acts = (\<lambda>_. Ignore), forks = ps, runs = [], kills = [],
     waits = [], tabs = [Some text], memory = [True, True, True], diag = []\<rparr>"

text \<open>The lines \<open>2:co:c:cc\<close>, \<open>1:co::s\<close> and \<open>2:rc::rc\<close> in state 2.\<close>

theorem inittab_starts_witness:
  "\<exists>t u. readttys (init_start [50, 58, 99, 111, 58, 99, 58, 99, 99, 10, 49, 58, 99, 111, 58, 58, 115, 10, 50, 58, 114, 99, 58, 58, 114, 99, 10] [7, 8]) = Some t
    \<and> invttys t = Some u \<and> table u = [((99, 111), 7, Some [99, 99]), ((114, 99), 8, None)]
    \<and> runs u = [(7, bytes ''exec '' @ [99, 99]), (8, bytes ''exec '' @ [114, 99])]"
proof -
  let ?a = "\<lparr>e_state = 50, e_id = (99, 111), e_flags = [99], e_cmd = [99, 99]\<rparr>" and ?b = "\<lparr>e_state = 49, e_id = (99, 111), e_flags = [], e_cmd = [115]\<rparr>"
    and ?c = "\<lparr>e_state = 50, e_id = (114, 99), e_flags = [], e_cmd = [114, 99]\<rparr>"
  let ?t = "concat (map entry_text [?a, ?b, ?c])"
  let ?rows = "[((99, 111), 0, Some [99, 99]), ((114, 99), 0, Some [58, 32, 114, 99])] :: row list"
  have e: "entry_ok ?a" "entry_ok ?b" "entry_ok ?c" by (simp_all add: entry_ok_def)
  have f: "[0..<Suc 0] = [0]" by simp
  have r: "?rows = fold enter (filter (\<lambda>e. uint (e_state e) = istate (init_start ?t [7, 8])) [?a, ?b, ?c]) (map forget (table (init_start ?t [7, 8])))"
    by (simp add: init_start_def table_def enter_def first_index_def entry_cmd_def f)
  have "\<exists>t u. readttys (init_start ?t [7, 8]) = Some t \<and> table t = ?rows \<and> invttys t = Some u
      \<and> table u = fst (launch (forks (init_start ?t [7, 8])) ?rows) \<and> runs u = runs (init_start ?t [7, 8]) @ snd (launch (forks (init_start ?t [7, 8])) ?rows)"
    by (rule inittab_starts [OF _ _ _ _ _ _ r, where ts = "[]"]) (use e in \<open>simp_all add: init_start_def idle_rows_def\<close>)
  then obtain t u where "readttys (init_start ?t [7, 8]) = Some t" "invttys t = Some u" "table u = [((99, 111), 7, Some [99, 99]), ((114, 99), 8, None)]"
    "runs u = [(7, bytes ''exec '' @ [99, 99]), (8, bytes ''exec '' @ [114, 99])]"
    by (auto simp: init_start_def)
  moreover have "?t = [50, 58, 99, 111, 58, 99, 58, 99, 99, 10, 49, 58, 99, 111, 58, 58, 115, 10, 50, 58, 114, 99, 58, 58, 114, 99, 10]"
    by (simp add: entry_text_def)
  ultimately show ?thesis by metis
qed

text \<open>
  C39. The init of ZEUS is the one of System III but for three signals and the console. As long as none of the signals
  \<open>STx\<close>, \<open>SIGINT\<close> and \<open>SIGPWR\<close> is to come, waiting, running \<open>/etc/rc\<close>, reading the table and entering a state are the same
  functions of the state in both, also where they do not return, whatever processes end and whatever other signals
  arrive; and so is a turn of the main loop, when ZEUS does not enter state 2 from state 1.
\<close>

theorem system_iii_init_agrees:
  assumes "same_signals (waits s)"
  shows "s3_run Waitttys s = waitttys s \<and> s3_runrc s = runrc s \<and> s3_readttys s = readttys s \<and> s3_enter_state s = enter_state s
    \<and> ((\<forall>t. enter_state (s\<lparr>xstate := False\<rparr>) = Some t \<longrightarrow> \<not> (istate t = 50 \<and> lstate t = 49)) \<longrightarrow> s3_turn s = init_turn s)"
  using s3_wait_agrees(1) [OF assms, of None] s3_runrc_agrees(1) [OF assms] s3_readttys_agrees(1) [OF assms] s3_enter_state_agrees(1) [OF assms]
    s3_turn_agrees [OF assms] by (simp add: s3_call_simps)

theorem system_iii_init_agrees_witness:
  "s3_turn ((init_start [] [])\<lparr>waits := [Signal 15, Exits 5]\<rparr>) = init_turn ((init_start [] [])\<lparr>waits := [Signal 15, Exits 5]\<rparr>)"
proof -
  let ?s = "(init_start [] [])\<lparr>waits := [Signal 15, Exits 5]\<rparr>"
  have "same_signals (waits ?s)" by (simp add: same_signals_def)
  moreover have "\<forall>t. enter_state (?s\<lparr>xstate := False\<rparr>) = Some t \<longrightarrow> \<not> (istate t = 50 \<and> lstate t = 49)"
    by (subst enter_state.simps) (auto simp: init_start_def)
  ultimately show ?thesis using system_iii_init_agrees by blast
qed

text \<open>
  C40. In the init of System III a power failure while \<open>/etc/rc\<close> runs is fatal when that run ends before the one that the
  handler starts: the handler's run overwrites \<open>rcid\<close>, and afterwards the interrupted \<open>runrc\<close> waits for a process that has ended.
  It does not return, whatever other processes end and however often there is none; without the signal it returns.
\<close>

theorem power_failure_hangs_init:
  assumes "rcstring s = Some rc" "forks s = p # q # fs" "0 < p" "0 < q" "p \<noteq> q" "\<not> xstate s" "\<not> rdstate s" "acts s SIGPWR = Chst"
    "waits s = Signal SIGPWR # map Exits as @ Exits q # hs" "p \<in> set as" "q \<notin> set as" "\<forall>a \<in> set as. 0 < a"
    "\<forall>h \<in> set hs. h = No_child \<or> (\<exists>r. h = Exits r \<and> r \<noteq> q)"
  shows "(\<exists>t. s3_runrc (s\<lparr>waits := tl (waits s)\<rparr>) = Some t) \<and> s3_runrc s = None"
  using power_failure [OF assms] by blast

theorem power_failure_hangs_init_witness:
  "\<exists>s t. waits s = Signal 19 # waits t \<and> s3_runrc t \<noteq> None \<and> s3_runrc s = None"
proof -
  let ?s = "(init_start [] [5, 6])\<lparr>acts := (\<lambda>_. Ignore)(19 := Chst), waits := Signal 19 # map Exits [5] @ Exits 6 # [No_child]\<rparr>"
  have "itoa (- 1) = [45, 49]" by (simp add: itoa_def s16_id)
  then have "rcstring ?s = Some (bytes ''exec /etc/rc '' @ [50] @ [] @ [32] @ [45, 49] @ [32, 48])" by (simp add: rcstring_def init_start_def Let_def)
  then have "(\<exists>t. s3_runrc (?s\<lparr>waits := tl (waits ?s)\<rparr>) = Some t) \<and> s3_runrc ?s = None"
    by (rule power_failure_hangs_init [where p = 5 and q = 6 and fs = "[]" and as = "[5]" and hs = "[No_child]"]) (simp_all add: init_start_def)
  then show ?thesis by (intro exI [of _ ?s] exI [of _ "?s\<lparr>waits := tl (waits ?s)\<rparr>"]) auto
qed

end
